(* ===== verification/Cb_Prelude.thy ===== *)
theory Cb_Prelude
  imports
    Main
    "HOL-Library.Word"
    "HOL-Library.Multiset"
    "HOL-Library.Monad_Syntax"
begin

text \<open>
  What every theory of the development shares: the integer widths of the Go code, error values,
  the list operations the code performs on slices (removal by index, removal by moving the last
  element into the hole, removal of a pointer), functions updated at one point, and the facts
  about the option monad that the proofs about code with callbacks use.
\<close>

section \<open>Integer widths and errors\<close>

type_synonym u32 = "32 word"
type_synonym u64 = "64 word"

text \<open>
  A non-nil Go \<^verbatim>\<open>error\<close>. Go compares errors by identity, so the two sentinel values the code
  compares against (\<^verbatim>\<open>context.Canceled\<close> and \<^verbatim>\<open>directive.ErrDirectiveDisposed\<close>) have constructors of
  their own and every other error is a text. A nil error is \<^term>\<open>None\<close>.
\<close>

datatype goerr = Canceled | DirectiveDisposed | GoErr string

section \<open>Facts about the option monad\<close>

named_theorems opt_simps \<open>unfolding of monadic code that returned\<close>

lemma bind_Some_iff [opt_simps]:
  "Option.bind m f = Some y \<longleftrightarrow> (\<exists>x. m = Some x \<and> f x = Some y)"
  by (cases m) auto

lemma if_None_Some_iff [opt_simps]:
  "(if b then None else Some x) = Some y \<longleftrightarrow> \<not> b \<and> x = y"
  by auto

section \<open>Slices\<close>

text \<open>\<^verbatim>\<open>append(xs[:k], xs[k+1:]...)\<close>, for an index within the slice.\<close>

definition removeAt :: "nat \<Rightarrow> 'a list \<Rightarrow> 'a list" where
  "removeAt k xs = take k xs @ drop (Suc k) xs"

text \<open>
  The loop \<^verbatim>\<open>for idx, x := range xs { if x == p { xs = append(xs[:idx], xs[idx+1:]...); break } }\<close>:
  the first occurrence is removed.
\<close>

definition removePtr :: "'a \<Rightarrow> 'a list \<Rightarrow> 'a list" where
  "removePtr x xs = remove1 x xs"

text \<open>
  The constant-time removal \<^verbatim>\<open>xs[i] = xs[len(xs)-1]; xs[len(xs)-1] = nil; xs = xs[:len(xs)-1]\<close>.
\<close>

definition swapRemove :: "nat \<Rightarrow> 'a list \<Rightarrow> 'a list" where
  "swapRemove k xs = butlast (xs[k := last xs])"

text \<open>The index of the first element that satisfies a predicate (\<^verbatim>\<open>slices.Index\<close>).\<close>

fun indexOf :: "('a \<Rightarrow> bool) \<Rightarrow> 'a list \<Rightarrow> nat option" where
  "indexOf P [] = None"
| "indexOf P (x # xs) = (if P x then Some 0 else map_option Suc (indexOf P xs))"

lemma indexOf_None_iff: "indexOf P xs = None \<longleftrightarrow> (\<forall>x \<in> set xs. \<not> P x)"
  by (induction xs) auto

lemma indexOf_SomeD:
  "indexOf P xs = Some k \<Longrightarrow> k < length xs \<and> P (xs ! k) \<and> (\<forall>j < k. \<not> P (xs ! j))"
proof (induction xs arbitrary: k)
  case Nil
  then show ?case by simp
next
  case (Cons x xs)
  then show ?case
    by (auto split: if_splits simp: nth_Cons split: nat.splits)
qed

lemma length_removeAt [simp]: "k < length xs \<Longrightarrow> length (removeAt k xs) = length xs - 1"
  by (simp add: removeAt_def)

lemma removeAt_Cons_0 [simp]: "removeAt 0 (x # xs) = xs"
  by (simp add: removeAt_def)

lemma removeAt_Cons_Suc [simp]: "removeAt (Suc k) (x # xs) = x # removeAt k xs"
  by (simp add: removeAt_def)

lemma set_removeAt_subset: "set (removeAt k xs) \<subseteq> set xs"
  using set_take_subset set_drop_subset by (fastforce simp: removeAt_def)

lemma distinct_removeAt: "distinct xs \<Longrightarrow> distinct (removeAt k xs)"
proof (induction xs arbitrary: k)
  case Nil
  then show ?case by (simp add: removeAt_def)
next
  case (Cons x xs)
  then show ?case using set_removeAt_subset by (cases k) fastforce+
qed

lemma removeAt_indexOf:
  "indexOf (\<lambda>y. y = x) xs = Some k \<Longrightarrow> removeAt k xs = remove1 x xs"
proof (induction xs arbitrary: k)
  case Nil
  then show ?case by simp
next
  case (Cons y ys)
  then show ?case by (auto split: if_splits)
qed

lemma removeAt_distinct_set:
  "distinct xs \<Longrightarrow> k < length xs \<Longrightarrow> set (removeAt k xs) = set xs - {xs ! k}"
proof (induction xs arbitrary: k)
  case Nil
  then show ?case by simp
next
  case (Cons x xs)
  then show ?case by (cases k) auto
qed

lemma length_swapRemove [simp]: "length (swapRemove k xs) = length xs - 1"
  by (simp add: swapRemove_def)

lemma mset_swapRemove:
  assumes "k < length xs"
  shows "mset (swapRemove k xs) = mset xs - {# xs ! k #}"
proof -
  have "xs \<noteq> []" using assms by auto
  then obtain ys z where xs: "xs = ys @ [z]" by (cases xs rule: rev_cases) auto
  show ?thesis
  proof (cases "k = length ys")
    case True
    then show ?thesis by (simp add: xs swapRemove_def)
  next
    case False
    with assms xs have k: "k < length ys" by simp
    then have "mset (swapRemove k xs) = mset (ys[k := z])"
      by (simp add: xs swapRemove_def list_update_append butlast_append)
    also have "\<dots> = add_mset z (mset ys - {# ys ! k #})"
      using k by (simp add: mset_update)
    also have "\<dots> = mset xs - {# xs ! k #}"
      using k by (simp add: xs nth_append)
    finally show ?thesis .
  qed
qed

lemma set_swapRemove:
  assumes "distinct xs" and "k < length xs"
  shows "set (swapRemove k xs) = set xs - {xs ! k}"
proof -
  have "mset (swapRemove k xs) = mset (remove1 (xs ! k) xs)"
    using assms(2) by (simp add: mset_swapRemove)
  then have "set (swapRemove k xs) = set (remove1 (xs ! k) xs)"
    by (rule mset_eq_setD)
  with assms(1) show ?thesis by simp
qed

lemma distinct_swapRemove:
  assumes "distinct xs" and "k < length xs"
  shows "distinct (swapRemove k xs)"
proof -
  have "mset (swapRemove k xs) = mset (remove1 (xs ! k) xs)"
    using assms(2) by (simp add: mset_swapRemove)
  moreover have "distinct (remove1 (xs ! k) xs)" using assms(1) by simp
  ultimately show ?thesis using mset_eq_imp_distinct_iff by blast
qed

section \<open>Strings\<close>

text \<open>\<^verbatim>\<open>strings.Join\<close>.\<close>

fun joinWith :: "string \<Rightarrow> string list \<Rightarrow> string" where
  "joinWith sep [] = []"
| "joinWith sep [p] = p"
| "joinWith sep (p # q # ps) = p @ sep @ joinWith sep (q # ps)"

end
