(* ===== verification/Dir_State.thy ===== *)
theory Dir_State
  imports Cb_Prelude
begin

text \<open>
  The state of the directive controller (\<^verbatim>\<open>directive/controller\<close>): one record per Go struct, and a
  record \<open>st\<close> that holds the fields of \<^verbatim>\<open>Controller\<close> together with the heap its structs live in.
  Pointers are natural numbers, allocated from one counter; the heap maps each pointer to its
  struct. A Go context is the list of its cancel nodes, innermost first, so that it is done as
  soon as one of its nodes was cancelled. User callbacks (functions and reference handlers) are
  opaque numbers, \<^term>\<open>None\<close> being nil; directive values are opaque numbers too.
\<close>

section \<open>Directives and options\<close>

text \<open>\<^verbatim>\<open>directive.ValueOptions\<close>; the duration is only compared with zero.\<close>

record value_options =
  MaxValueCount :: int
  MaxValueHardCap :: bool
  UnrefDisposeDur :: int
  UnrefDisposeEmptyImmediate :: bool

text \<open>
  A directive object: its identity, its options, and whether it implements the optional
  interfaces \<^verbatim>\<open>DirectiveWithEquiv\<close> and \<^verbatim>\<open>DirectiveWithSuperceeds\<close>.
\<close>

record directive =
  dir_ptr :: nat
  dir_valueOptions :: value_options
  dir_hasEquiv :: bool
  dir_hasSuperceeds :: bool

section \<open>Structs of the controller\<close>

type_synonym iid = nat
type_synonym refid = nat
type_synonym resid = nat
type_synonym hndid = nat
type_synonym fnid = nat
type_synonym chanid = nat
type_synonym ctx = "nat list"
type_synonym gvalue = nat

text \<open>\<^verbatim>\<open>callback[T]\<close>: the pointer identity, the released flag and the function.\<close>

record callback =
  cb_ptr :: nat
  cb_released :: bool
  cb_cb :: "fnid option"

text \<open>\<^verbatim>\<open>valueRemoveCallback\<close> and \<^verbatim>\<open>value\<close>.\<close>

record value_remove_callback =
  vrc_released :: bool
  vrc_id :: u32
  vrc_cb :: "fnid option"

record attached =
  v_id :: u32
  v_val :: gvalue
  v_removeCallbackCtr :: u32
  v_removeCallbacks :: "value_remove_callback list"

text \<open>\<^verbatim>\<open>dirRef\<close>: a reference to a directive instance.\<close>

record dir_ref =
  ref_released :: bool
  ref_di :: iid
  ref_weak :: bool
  ref_h :: "nat option"

text \<open>\<^verbatim>\<open>handler\<close>: an attached directive handler.\<close>

record handler =
  hnd_rel :: bool
  hnd_h :: nat

text \<open>
  \<^verbatim>\<open>resolver\<close>. The fields \<^verbatim>\<open>ctx\<close> and \<^verbatim>\<open>ctxCancel\<close> are always set and cleared together, so they
  are one field here.
\<close>

record resolver =
  res_di :: iid
  res_hnd :: hndid
  res_res :: nat
  res_err :: "goerr option"
  res_ctx :: "ctx option"
  res_exitedCh :: "chanid option"
  res_rels :: "callback list"
  res_vals :: "attached list"
  res_idle :: bool
  res_exited :: bool
  res_stopped :: bool

text \<open>
  What user code is told: the three methods of a reference handler, the idle and state callbacks
  and the argument-less callbacks (dispose, value removed, resolver removed).
\<close>

datatype event =
    HandleValueAdded refid iid u32 gvalue
  | HandleValueRemoved refid iid u32 gvalue
  | HandleInstanceDisposed refid iid
  | CallIdle fnid bool "goerr list"
  | CallState fnid bool "goerr list" "(u32 \<times> gvalue) list"
  | CallFn fnid

text \<open>
  \<^verbatim>\<open>callbackEvent\<close>: a closure over one call of user code, a closure that panics because the
  function it calls is nil, or a removal whose reference is looked at when the event is called.
\<close>

datatype callback_event =
    CbFn event
  | CbNilPanic
  | CbRemoved refid attached

text \<open>\<^verbatim>\<open>directiveStateSnapshot\<close> while its field \<^verbatim>\<open>set\<close> is true.\<close>

record snapshot =
  snap_idle :: bool
  snap_errs :: "goerr list"
  snap_vals :: "(u32 \<times> gvalue) list"

text \<open>\<^verbatim>\<open>directiveInstance\<close>; \<^verbatim>\<open>stateChangedSnapshot\<close> is \<^term>\<open>None\<close> while its field \<^verbatim>\<open>set\<close> is false.\<close>

record inst =
  di_released :: bool
  di_ctx :: ctx
  di_id :: u32
  di_dir :: directive
  di_valueOpts :: value_options
  di_ready :: bool
  di_destroyTimer :: "nat option"
  di_rels :: "callback list"
  di_idles :: "callback list"
  di_stateChanged :: "callback list"
  di_snapshot :: "snapshot option"
  di_stateChangedSkip :: bool
  di_callingRefCbs :: bool
  di_refCbs :: "callback_event list"
  di_refs :: "refid list"
  di_res :: "resid list"
  di_valCtr :: u32
  di_idle :: bool
  di_full :: bool

text \<open>
  A goroutine started by \<^verbatim>\<open>updateContextLocked\<close> to run \<^verbatim>\<open>executeResolver\<close>: the arguments it was
  given, and where it is: waiting for the previous goroutine, inside \<^verbatim>\<open>Resolve\<close>, or gone.
\<close>

datatype task_pc = TaskWaiting | TaskResolving | TaskExited

record task =
  task_r :: resid
  task_ctx :: ctx
  task_exitedCh :: chanid
  task_waitCh :: "chanid option"
  task_pc :: task_pc

section \<open>The controller and its heap\<close>

text \<open>
  \<^verbatim>\<open>Controller\<close>: \<open>c_dirID\<close>, \<open>c_dir\<close>, \<open>c_hnd\<close> are its fields, \<open>c_bcast\<close> counts the broadcasts;
  the other fields are the heap, the cancelled context nodes, the closed channels, the goroutines
  that were started, the allocation counter and the log of the calls made to user code.
\<close>

record st =
  c_ctx :: ctx
  c_dirID :: u32
  c_dir :: "iid list"
  c_hnd :: "hndid list"
  c_bcast :: nat
  heap_inst :: "iid \<Rightarrow> inst"
  heap_ref :: "refid \<Rightarrow> dir_ref"
  heap_res :: "resid \<Rightarrow> resolver"
  heap_hnd :: "hndid \<Rightarrow> handler"
  ctx_canceled :: "nat \<Rightarrow> bool"
  chan_closed :: "chanid \<Rightarrow> bool"
  tasks :: "task list"
  next_ptr :: nat
  event_log :: "event list"

abbreviation updInst :: "iid \<Rightarrow> (inst \<Rightarrow> inst) \<Rightarrow> st \<Rightarrow> st" where
  "updInst i f s \<equiv> s\<lparr>heap_inst := (heap_inst s)(i := f (heap_inst s i))\<rparr>"

abbreviation updRef :: "refid \<Rightarrow> (dir_ref \<Rightarrow> dir_ref) \<Rightarrow> st \<Rightarrow> st" where
  "updRef r f s \<equiv> s\<lparr>heap_ref := (heap_ref s)(r := f (heap_ref s r))\<rparr>"

abbreviation updRes :: "resid \<Rightarrow> (resolver \<Rightarrow> resolver) \<Rightarrow> st \<Rightarrow> st" where
  "updRes r f s \<equiv> s\<lparr>heap_res := (heap_res s)(r := f (heap_res s r))\<rparr>"

abbreviation updHnd :: "hndid \<Rightarrow> (handler \<Rightarrow> handler) \<Rightarrow> st \<Rightarrow> st" where
  "updHnd h f s \<equiv> s\<lparr>heap_hnd := (heap_hnd s)(h := f (heap_hnd s h))\<rparr>"

text \<open>\<^verbatim>\<open>context.WithCancel\<close>, the returned cancel function, and \<^verbatim>\<open>ctx.Err() != nil\<close>.\<close>

definition withCancel :: "ctx \<Rightarrow> st \<Rightarrow> ctx \<times> st" where
  "withCancel c s = (next_ptr s # c, s\<lparr>next_ptr := Suc (next_ptr s)\<rparr>)"

definition cancelCtx :: "ctx \<Rightarrow> st \<Rightarrow> st" where
  "cancelCtx c s = (case c of [] \<Rightarrow> s | n # _ \<Rightarrow> s\<lparr>ctx_canceled := (ctx_canceled s)(n := True)\<rparr>)"

definition ctxDone :: "st \<Rightarrow> ctx \<Rightarrow> bool" where
  "ctxDone s c = list_ex (ctx_canceled s) c"

section \<open>The environment: code outside the controller\<close>

text \<open>How a call ends that ends: it returns a result, or it panics.\<close>

datatype 'a outcome = Returned 'a | Panicked

text \<open>
  What the controller calls: user callbacks run with the mutex unlocked, so the state may be any
  other state when they end (they and other goroutines may call the controller meanwhile;
  \<^term>\<open>None\<close> is a callback that never returns, and a callback may panic); the handlers'
  \<^verbatim>\<open>HandleDirective\<close>, whose panics are recovered into errors, and the directives'
  \<^verbatim>\<open>IsEquivalent\<close> and \<^verbatim>\<open>Superceeds\<close>.
\<close>

record env =
  env_run :: "event \<Rightarrow> st \<Rightarrow> (unit outcome \<times> st) option"
  env_handle :: "nat \<Rightarrow> iid \<Rightarrow> st \<Rightarrow> ((goerr + nat list) \<times> st) option"
  env_isEquivalent :: "directive \<Rightarrow> directive \<Rightarrow> bool"
  env_superceeds :: "directive \<Rightarrow> directive \<Rightarrow> bool"

section \<open>Objects as they are before they are written\<close>

definition no_options :: value_options where
  "no_options = \<lparr>MaxValueCount = 0, MaxValueHardCap = False, UnrefDisposeDur = 0,
     UnrefDisposeEmptyImmediate = False\<rparr>"

definition plain_directive :: "nat \<Rightarrow> directive" where
  "plain_directive p = \<lparr>dir_ptr = p, dir_valueOptions = no_options, dir_hasEquiv = False,
     dir_hasSuperceeds = False\<rparr>"

definition zero_inst :: inst where
  "zero_inst = \<lparr>di_released = False, di_ctx = [], di_id = 0, di_dir = plain_directive 0,
     di_valueOpts = no_options, di_ready = False, di_destroyTimer = None, di_rels = [],
     di_idles = [], di_stateChanged = [], di_snapshot = None, di_stateChangedSkip = False,
     di_callingRefCbs = False, di_refCbs = [], di_refs = [], di_res = [], di_valCtr = 0,
     di_idle = False, di_full = False\<rparr>"

definition zero_ref :: dir_ref where
  "zero_ref = \<lparr>ref_released = False, ref_di = 0, ref_weak = False, ref_h = None\<rparr>"

definition zero_res :: resolver where
  "zero_res = \<lparr>res_di = 0, res_hnd = 0, res_res = 0, res_err = None, res_ctx = None,
     res_exitedCh = None, res_rels = [], res_vals = [], res_idle = True, res_exited = False,
     res_stopped = False\<rparr>"

definition zero_hnd :: handler where
  "zero_hnd = \<lparr>hnd_rel = False, hnd_h = 0\<rparr>"

text \<open>\<^verbatim>\<open>NewController\<close>: no directive, no handler; the context is the single node 0.\<close>

definition NewController :: st where
  "NewController = \<lparr>c_ctx = [0], c_dirID = 0, c_dir = [], c_hnd = [], c_bcast = 0,
     heap_inst = (\<lambda>_. zero_inst), heap_ref = (\<lambda>_. zero_ref), heap_res = (\<lambda>_. zero_res),
     heap_hnd = (\<lambda>_. zero_hnd), ctx_canceled = (\<lambda>_. False), chan_closed = (\<lambda>_. False),
     tasks = [], next_ptr = 1, event_log = []\<rparr>"

end
