(* ===== verification/Dir_Callbacks.thy ===== *)
theory Dir_Callbacks
  imports Dir_State
begin

text \<open>
  Callbacks of a directive instance: the queue \<^verbatim>\<open>refCbs\<close> and the loop that calls it with the
  mutex unlocked (\<^verbatim>\<open>callCallbackEventsLocked\<close>), the snapshots handed to state callbacks, and the
  deferred check for state changes. Every definition takes the environment \<open>E\<close>, the instance
  \<open>i\<close> and the state; a result of \<^term>\<open>None\<close> means that some callback, or the loop itself,
  does not return.
\<close>

section \<open>Calling user code\<close>

definition deliver :: "env \<Rightarrow> event \<Rightarrow> st \<Rightarrow> (unit outcome \<times> st) option" where
  "deliver E ev s = env_run E ev (s\<lparr>event_log := event_log s @ [ev]\<rparr>)"

text \<open>\<^verbatim>\<open>callbackEvent.call\<close>, with the recover of \<^verbatim>\<open>callCallbackEventsLocked\<close> around it: whether the
  callback panicked makes no difference.\<close>

fun callbackEvent_call :: "env \<Rightarrow> iid \<Rightarrow> callback_event \<Rightarrow> st \<Rightarrow> st option" where
  "callbackEvent_call E i (CbFn ev) s = map_option snd (deliver E ev s)"
| "callbackEvent_call E i CbNilPanic s = Some s"
| "callbackEvent_call E i (CbRemoved r v) s =
     (if ref_released (heap_ref s r) \<or> ref_h (heap_ref s r) = None then Some s
      else map_option snd (deliver E (HandleValueRemoved r i (v_id v) (v_val v)) s))"

text \<open>The inner loop \<^verbatim>\<open>for _, cb := range cbs\<close>.\<close>

fun callAll :: "env \<Rightarrow> iid \<Rightarrow> callback_event list \<Rightarrow> st \<Rightarrow> st option" where
  "callAll E i [] s = Some s"
| "callAll E i (cb # cbs) s = Option.bind (callbackEvent_call E i cb s) (callAll E i cbs)"

text \<open>The outer loop \<^verbatim>\<open>for len(cbs) != 0\<close>: the queue is taken again after each round.\<close>

partial_function (option) drainCallbacks ::
    "env \<Rightarrow> iid \<Rightarrow> callback_event list \<Rightarrow> st \<Rightarrow> st option" where
  [code]: "drainCallbacks E i cbs s =
     (if cbs = [] then Some s
      else Option.bind (callAll E i cbs s) (\<lambda>s.
        drainCallbacks E i (di_refCbs (heap_inst s i)) (updInst i (di_refCbs_update (\<lambda>_. [])) s)))"

definition callCallbackEventsLocked :: "env \<Rightarrow> iid \<Rightarrow> callback_event list \<Rightarrow> st \<Rightarrow> st option" where
  "callCallbackEventsLocked E i cbs s =
     (if cbs = [] \<and> di_refCbs (heap_inst s i) = [] then Some s
      else
        let queue = di_refCbs (heap_inst s i) @ cbs in
        if di_callingRefCbs (heap_inst s i) then Some (updInst i (di_refCbs_update (\<lambda>_. queue)) s)
        else do {
          s \<leftarrow> drainCallbacks E i queue
                 (updInst i (\<lambda>x. x\<lparr>di_callingRefCbs := True, di_refCbs := []\<rparr>) s);
          Some (updInst i (di_callingRefCbs_update (\<lambda>_. False)) s)
        })"

text \<open>\<^verbatim>\<open>callCallbacksLocked\<close>: the closures given are never nil here.\<close>

definition callCallbacksLocked :: "env \<Rightarrow> iid \<Rightarrow> callback_event list \<Rightarrow> st \<Rightarrow> st option" where
  "callCallbacksLocked E i cbs s = callCallbackEventsLocked E i cbs s"

section \<open>What callbacks are told\<close>

definition live_fn :: "callback \<Rightarrow> fnid list" where
  "live_fn cb = (if cb_released cb then [] else case cb_cb cb of None \<Rightarrow> [] | Some f \<Rightarrow> [f])"

definition live_ref :: "st \<Rightarrow> refid \<Rightarrow> bool" where
  "live_ref s r \<longleftrightarrow> \<not> ref_released (heap_ref s r) \<and> ref_h (heap_ref s r) \<noteq> None"

definition getResolverErrsLocked :: "st \<Rightarrow> iid \<Rightarrow> goerr list" where
  "getResolverErrsLocked s i =
     List.map_filter (\<lambda>r. res_err (heap_res s r)) (di_res (heap_inst s i))"

definition attached_pair :: "attached \<Rightarrow> u32 \<times> gvalue" where
  "attached_pair v = (v_id v, v_val v)"

definition getResolverAttachedValsLocked :: "st \<Rightarrow> iid \<Rightarrow> (u32 \<times> gvalue) list" where
  "getResolverAttachedValsLocked s i =
     concat (map (\<lambda>r. map attached_pair (res_vals (heap_res s r))) (di_res (heap_inst s i)))"

definition populateDirectiveStateSnapshotLocked :: "iid \<Rightarrow> st \<Rightarrow> st" where
  "populateDirectiveStateSnapshotLocked i s =
     updInst i (\<lambda>x. x\<lparr>di_snapshot := Some \<lparr>snap_idle = di_ready x \<and> di_idle x,
        snap_errs = getResolverErrsLocked s i, snap_vals = getResolverAttachedValsLocked s i\<rparr>\<rparr>) s"

definition getDirectiveStateSnapshotLocked :: "iid \<Rightarrow> st \<Rightarrow> snapshot option \<times> st" where
  "getDirectiveStateSnapshotLocked i s =
     (if di_snapshot (heap_inst s i) \<noteq> None then (di_snapshot (heap_inst s i), s)
      else let s = populateDirectiveStateSnapshotLocked i s in (di_snapshot (heap_inst s i), s))"

section \<open>The deferred check for state changes\<close>

definition stateCall :: "snapshot option \<Rightarrow> fnid \<Rightarrow> callback_event" where
  "stateCall sn f = (case sn of
      None \<Rightarrow> CbFn (CallState f False [] [])
    | Some x \<Rightarrow> CbFn (CallState f (snap_idle x) (snap_errs x) (snap_vals x)))"

definition maybeCallStateChanged :: "env \<Rightarrow> iid \<Rightarrow> st \<Rightarrow> st option" where
  "maybeCallStateChanged E i s =
     (if di_stateChanged (heap_inst s i) = [] \<or> di_snapshot (heap_inst s i) \<noteq> None then Some s
      else do {
        let s = populateDirectiveStateSnapshotLocked i s;
        let cbs = concat (map (\<lambda>cb. map (stateCall (di_snapshot (heap_inst s i))) (live_fn cb))
                    (di_stateChanged (heap_inst s i)));
        callCallbacksLocked E i cbs s
      })"

text \<open>
  \<^verbatim>\<open>deferCheckStateChanged\<close> returns the closure to defer: here a flag that says whether it is the
  empty one, and \<open>runDeferred\<close> is the call of the closure when the function returns.
\<close>

definition deferCheckStateChanged :: "iid \<Rightarrow> st \<Rightarrow> bool \<times> st" where
  "deferCheckStateChanged i s =
     (if di_stateChangedSkip (heap_inst s i) \<or> di_stateChanged (heap_inst s i) = [] then (False, s)
      else (True, updInst i (di_stateChangedSkip_update (\<lambda>_. True)) s))"

definition runDeferred :: "env \<Rightarrow> iid \<Rightarrow> bool \<Rightarrow> st \<Rightarrow> st option" where
  "runDeferred E i armed s =
     (if \<not> armed then Some s
      else do {
        s \<leftarrow> maybeCallStateChanged E i s;
        Some (updInst i (di_stateChangedSkip_update (\<lambda>_. False)) s)
      })"

text \<open>\<^verbatim>\<open>i.stateChangedSnapshot = directiveStateSnapshot{}\<close>: mark the state as changed.\<close>

definition markStateChanged :: "iid \<Rightarrow> st \<Rightarrow> st" where
  "markStateChanged i s = updInst i (di_snapshot_update (\<lambda>_. None)) s"

section \<open>Callback lists\<close>

definition newCallback :: "fnid option \<Rightarrow> st \<Rightarrow> callback \<times> st" where
  "newCallback f s =
     (\<lparr>cb_ptr = next_ptr s, cb_released = False, cb_cb = f\<rparr>, s\<lparr>next_ptr := Suc (next_ptr s)\<rparr>)"

definition removeFromCallbacks :: "callback list \<Rightarrow> nat \<Rightarrow> callback list" where
  "removeFromCallbacks cbs p =
     (case indexOf (\<lambda>c. cb_ptr c = p) cbs of None \<Rightarrow> cbs | Some k \<Rightarrow> removeAt k cbs)"

end
