(* ===== verification/Dir_Instance.thy ===== *)
theory Dir_Instance
  imports Dir_Callbacks
begin

text \<open>
  The operations of a directive instance (\<^verbatim>\<open>directive/controller/instance.go\<close>), its resolvers
  (\<^verbatim>\<open>resolver.go\<close>), their handlers (\<^verbatim>\<open>resolver-handler.go\<close>) and its references
  (\<^verbatim>\<open>reference.go\<close>), one definition per function, in the order in which they call each other.
  The functions whose name ends in \<open>Locked\<close> run with the controller's mutex held and give it up
  only inside \<^const>\<open>callCallbackEventsLocked\<close>; the exported ones take the mutex for the whole call.
\<close>

section \<open>Counting\<close>

definition countRunningResolversLocked :: "st \<Rightarrow> iid \<Rightarrow> nat" where
  "countRunningResolversLocked s i =
     length (filter (\<lambda>r. \<not> res_idle (heap_res s r) \<and> \<not> res_exited (heap_res s r))
       (di_res (heap_inst s i)))"

definition anyValuesLocked :: "st \<Rightarrow> iid \<Rightarrow> bool" where
  "anyValuesLocked s i = list_ex (\<lambda>r. res_vals (heap_res s r) \<noteq> []) (di_res (heap_inst s i))"

definition countValuesLocked :: "st \<Rightarrow> iid \<Rightarrow> nat" where
  "countValuesLocked s i = sum_list (map (\<lambda>r. length (res_vals (heap_res s r))) (di_res (heap_inst s i)))"

section \<open>Idle state and resolver contexts\<close>

definition handleIdleStateLocked :: "env \<Rightarrow> iid \<Rightarrow> st \<Rightarrow> st option" where
  "handleIdleStateLocked E i s =
     (let idle = (countRunningResolversLocked s i = 0 \<and> di_ready (heap_inst s i)) in
      if di_idle (heap_inst s i) = idle then Some s
      else do {
        let (armed, s) = deferCheckStateChanged i s;
        let s = markStateChanged i (updInst i (di_idle_update (\<lambda>_. idle)) s);
        let errs = getResolverErrsLocked s i;
        s \<leftarrow> (if di_idles (heap_inst s i) = [] then Some s
              else callCallbacksLocked E i
                     (concat (map (\<lambda>cb. map (\<lambda>f. CbFn (CallIdle f idle errs)) (live_fn cb))
                        (di_idles (heap_inst s i)))) s);
        runDeferred E i armed s
      })"

definition setIdleLocked :: "env \<Rightarrow> resid \<Rightarrow> bool \<Rightarrow> st \<Rightarrow> st option" where
  "setIdleLocked E r idle s =
     (if res_idle (heap_res s r) = idle then Some s
      else do {
        let s = updRes r (res_idle_update (\<lambda>_. idle)) s;
        handleIdleStateLocked E (res_di (heap_res s r)) s
      })"

definition setErrLocked :: "env \<Rightarrow> resid \<Rightarrow> goerr option \<Rightarrow> st \<Rightarrow> st option" where
  "setErrLocked E r err s =
     (if res_err (heap_res s r) = err then Some s
      else do {
        let (armed, s) = deferCheckStateChanged (res_di (heap_res s r)) s;
        let s = updRes r (res_err_update (\<lambda>_. err)) s;
        let s = markStateChanged (res_di (heap_res s r)) s;
        runDeferred E (res_di (heap_res s r)) armed s
      })"

text \<open>
  \<^verbatim>\<open>updateContextLocked\<close> with a nil context (\<open>stop\<close>) or with the instance's context. Starting
  allocates the exit channel and the context node, and adds the goroutine to \<open>tasks\<close>.
\<close>

definition cancelResolverCtx :: "resid \<Rightarrow> st \<Rightarrow> st" where
  "cancelResolverCtx r s = (case res_ctx (heap_res s r) of
      None \<Rightarrow> s
    | Some c \<Rightarrow> updRes r (res_ctx_update (\<lambda>_. None)) (cancelCtx c s))"

definition updateContextLocked :: "env \<Rightarrow> resid \<Rightarrow> bool \<Rightarrow> st \<Rightarrow> st option" where
  "updateContextLocked E r start s =
     (if start \<and> \<not> res_exited (heap_res s r)
          \<and> (case res_ctx (heap_res s r) of None \<Rightarrow> False | Some c \<Rightarrow> \<not> ctxDone s c)
      then Some s
      else do {
        let s = cancelResolverCtx r s;
        if \<not> start then setIdleLocked E r True (updRes r (res_exited_update (\<lambda>_. True)) s)
        else do {
          let exitedCh = next_ptr s;
          let s = s\<lparr>next_ptr := Suc (next_ptr s)\<rparr>;
          let waitCh = res_exitedCh (heap_res s r);
          let s = updRes r (\<lambda>x. x\<lparr>res_exitedCh := Some exitedCh, res_err := None,
                    res_exited := False, res_stopped := False\<rparr>) s;
          s \<leftarrow> setIdleLocked E r False s;
          let (c, s) = withCancel (di_ctx (heap_inst s (res_di (heap_res s r)))) s;
          let s = updRes r (res_ctx_update (\<lambda>_. Some c)) s;
          Some (s\<lparr>tasks := tasks s @ [\<lparr>task_r = r, task_ctx = c, task_exitedCh = exitedCh,
                    task_waitCh = waitCh, task_pc = TaskWaiting\<rparr>]\<rparr>)
        }
      })"

section \<open>The value cap\<close>

definition handleFullStep :: "env \<Rightarrow> resid \<Rightarrow> st \<Rightarrow> st option" where
  "handleFullStep E r s =
     (if res_idle (heap_res s r) then Some s
      else if \<not> res_exited (heap_res s r) \<and> res_vals (heap_res s r) = [] then
        updateContextLocked E r False (updRes r (res_stopped_update (\<lambda>_. True)) s)
      else Some (updRes r (res_idle_update (\<lambda>_. True)) s))"

fun forEach :: "('a \<Rightarrow> st \<Rightarrow> st option) \<Rightarrow> 'a list \<Rightarrow> st \<Rightarrow> st option" where
  "forEach f [] s = Some s"
| "forEach f (x # xs) s = Option.bind (f x s) (forEach f xs)"

definition handleFullLocked :: "env \<Rightarrow> iid \<Rightarrow> st \<Rightarrow> st option" where
  "handleFullLocked E i s =
     (if di_full (heap_inst s i) then Some s
      else do {
        let s = updInst i (di_full_update (\<lambda>_. True)) s;
        s \<leftarrow> forEach (handleFullStep E) (di_res (heap_inst s i)) s;
        handleIdleStateLocked E i s
      })"

definition handleNotFullStep :: "env \<Rightarrow> resid \<Rightarrow> st \<Rightarrow> st option" where
  "handleNotFullStep E r s =
     (if (res_exited (heap_res s r) \<and> res_err (heap_res s r) \<noteq> None) \<or> res_stopped (heap_res s r)
      then updateContextLocked E r True s
      else Some s)"

definition handleNotFullLocked :: "env \<Rightarrow> iid \<Rightarrow> st \<Rightarrow> st option" where
  "handleNotFullLocked E i s =
     (if \<not> di_full (heap_inst s i) then Some s
      else do {
        let s = updInst i (di_full_update (\<lambda>_. False)) s;
        forEach (handleNotFullStep E) (di_res (heap_inst s i)) s
      })"

definition checkFullLocked :: "env \<Rightarrow> iid \<Rightarrow> st \<Rightarrow> st option" where
  "checkFullLocked E i s =
     (let maxVals = MaxValueCount (di_valueOpts (heap_inst s i)) in
      if maxVals = 0 then Some s
      else if int (countValuesLocked s i) \<ge> maxVals then handleFullLocked E i s
      else handleNotFullLocked E i s)"

section \<open>Values\<close>

definition addValueLocked :: "env \<Rightarrow> resid \<Rightarrow> gvalue \<Rightarrow> st \<Rightarrow> ((u32 \<times> bool) \<times> st) option" where
  "addValueLocked E r val s =
     (let i = res_di (heap_res s r) in do {
        let (armed, s) = deferCheckStateChanged i s;
        let opts = di_valueOpts (heap_inst s i);
        if MaxValueCount opts \<noteq> 0 \<and> int (countValuesLocked s i) \<ge> MaxValueCount opts
             \<and> MaxValueHardCap opts
        then do { s \<leftarrow> runDeferred E i armed s; Some ((0, False), s) }
        else do {
          let vid = di_valCtr (heap_inst s i) + 1;
          let s = updInst i (di_valCtr_update (\<lambda>_. vid)) s;
          let v = \<lparr>v_id = vid, v_val = val, v_removeCallbackCtr = 0, v_removeCallbacks = []\<rparr>;
          let s = updRes r (\<lambda>x. x\<lparr>res_vals := res_vals x @ [v]\<rparr>) s;
          let s = markStateChanged i s;
          s \<leftarrow> callCallbacksLocked E i
                 (map (\<lambda>f. CbFn (HandleValueAdded f i vid val))
                    (filter (live_ref s) (di_refs (heap_inst s i)))) s;
          s \<leftarrow> checkFullLocked E i s;
          s \<leftarrow> runDeferred E i armed s;
          Some ((vid, True), s)
        }
      })"

text \<open>
  The events \<^verbatim>\<open>onValuesRemovedLocked\<close> builds for one value: its removal callbacks that are not
  released, then every reference with a handler that is not released.
\<close>

definition valueRemovedEvents :: "st \<Rightarrow> iid \<Rightarrow> attached \<Rightarrow> callback_event list" where
  "valueRemovedEvents s i v =
     concat (map (\<lambda>c. if vrc_released c then []
                      else case vrc_cb c of None \<Rightarrow> [] | Some f \<Rightarrow> [CbFn (CallFn f)])
       (v_removeCallbacks v))
     @ map (\<lambda>r. CbRemoved r v) (filter (live_ref s) (di_refs (heap_inst s i)))"

definition onValuesRemovedLocked :: "env \<Rightarrow> iid \<Rightarrow> attached list \<Rightarrow> st \<Rightarrow> st option" where
  "onValuesRemovedLocked E i vals s =
     (if vals = [] then Some s
      else do {
        let (armed, s) = deferCheckStateChanged i s;
        let s = markStateChanged i s;
        s \<leftarrow> callCallbackEventsLocked E i (concat (map (valueRemovedEvents s i) vals)) s;
        s \<leftarrow> checkFullLocked E i s;
        runDeferred E i armed s
      })"

definition removeValueLocked :: "env \<Rightarrow> resid \<Rightarrow> u32 \<Rightarrow> st \<Rightarrow> ((gvalue option \<times> bool) \<times> st) option" where
  "removeValueLocked E r vid s =
     (case indexOf (\<lambda>v. v_id v = vid) (res_vals (heap_res s r)) of
        None \<Rightarrow> Some ((None, False), s)
      | Some k \<Rightarrow> do {
          let v = res_vals (heap_res s r) ! k;
          let s = updRes r (\<lambda>x. x\<lparr>res_vals := removeAt k (res_vals x)\<rparr>) s;
          s \<leftarrow> onValuesRemovedLocked E (res_di (heap_res s r)) [v] s;
          Some ((Some (v_val v), True), s)
        })"

definition addValueRemovedCallbackLocked ::
    "resid \<Rightarrow> u32 \<Rightarrow> fnid option \<Rightarrow> st \<Rightarrow> (u32 option \<times> st)" where
  "addValueRemovedCallbackLocked r vid f s =
     (case indexOf (\<lambda>v. v_id v = vid) (res_vals (heap_res s r)) of
        None \<Rightarrow> (None, s)
      | Some k \<Rightarrow>
          (let v = res_vals (heap_res s r) ! k;
               cbid = v_removeCallbackCtr v + 1;
               c = \<lparr>vrc_released = False, vrc_id = cbid, vrc_cb = f\<rparr>;
               v = v\<lparr>v_removeCallbackCtr := cbid, v_removeCallbacks := v_removeCallbacks v @ [c]\<rparr>
           in (Some cbid, updRes r (\<lambda>x. x\<lparr>res_vals := (res_vals x)[k := v]\<rparr>) s)))"

text \<open>
  The release function that \<^verbatim>\<open>addValueRemovedCallbackLocked\<close> returns. A callback that was called
  or whose value is gone is in no list any more, and the function then does nothing.
\<close>

definition releaseValueRemovedCallback :: "resid \<Rightarrow> u32 \<Rightarrow> u32 \<Rightarrow> st \<Rightarrow> st" where
  "releaseValueRemovedCallback r vid cbid s =
     (case indexOf (\<lambda>v. v_id v = vid) (res_vals (heap_res s r)) of
        None \<Rightarrow> s
      | Some k \<Rightarrow>
          (let v = res_vals (heap_res s r) ! k in
           case indexOf (\<lambda>c. vrc_id c = cbid) (v_removeCallbacks v) of
             None \<Rightarrow> s
           | Some j \<Rightarrow>
               updRes r (\<lambda>x. x\<lparr>res_vals := (res_vals x)[k :=
                  v\<lparr>v_removeCallbacks := removeAt j (v_removeCallbacks v)\<rparr>]\<rparr>) s))"

definition addResolverRemovedCallbackLocked ::
    "iid \<Rightarrow> resid \<Rightarrow> fnid option \<Rightarrow> st \<Rightarrow> (nat option \<times> st)" where
  "addResolverRemovedCallbackLocked i r f s =
     (if \<not> List.member (di_res (heap_inst s i)) r then (None, s)
      else let (cb, s) = newCallback f s
           in (Some (cb_ptr cb), updRes r (\<lambda>x. x\<lparr>res_rels := res_rels x @ [cb]\<rparr>) s))"

definition releaseResolverRemovedCallback :: "resid \<Rightarrow> nat \<Rightarrow> st \<Rightarrow> st" where
  "releaseResolverRemovedCallback r p s =
     updRes r (\<lambda>x. x\<lparr>res_rels := removeFromCallbacks (res_rels x) p\<rparr>) s"

section \<open>Attaching and removing resolvers\<close>

text \<open>\<^verbatim>\<open>newResolver\<close>: the struct; it becomes a heap object when it is attached.\<close>

definition newResolver :: "iid \<Rightarrow> hndid \<Rightarrow> nat \<Rightarrow> resolver" where
  "newResolver i h robj = zero_res\<lparr>res_di := i, res_hnd := h, res_res := robj, res_idle := True\<rparr>"

definition attachStartResolverLocked :: "env \<Rightarrow> iid \<Rightarrow> resolver \<Rightarrow> st \<Rightarrow> (resid \<times> st) option" where
  "attachStartResolverLocked E i rr s = do {
     let r = next_ptr s;
     let s = s\<lparr>next_ptr := Suc r, heap_res := (heap_res s)(r := rr)\<rparr>;
     let s = updInst i (\<lambda>x. x\<lparr>di_res := di_res x @ [r]\<rparr>) s;
     if di_full (heap_inst s i) then do {
       s \<leftarrow> updateContextLocked E r False (updRes r (res_idle_update (\<lambda>_. True)) s);
       Some (r, s)
     } else do {
       s \<leftarrow> updateContextLocked E r True s;
       s \<leftarrow> handleIdleStateLocked E i s;
       Some (r, s)
     }
   }"

definition removeResolverLocked :: "env \<Rightarrow> iid \<Rightarrow> nat option \<Rightarrow> resid \<Rightarrow> st \<Rightarrow> st option" where
  "removeResolverLocked E i resIdx r s =
     (case (case resIdx of Some k \<Rightarrow> Some k | None \<Rightarrow> indexOf (\<lambda>x. x = r) (di_res (heap_inst s i))) of
        None \<Rightarrow> Some s
      | Some k \<Rightarrow> do {
          let s = updInst i (\<lambda>x. x\<lparr>di_res := removeAt k (di_res x)\<rparr>) s;
          s \<leftarrow> updateContextLocked E r False s;
          let vals = res_vals (heap_res s r);
          let s = updRes r (res_vals_update (\<lambda>_. [])) s;
          s \<leftarrow> onValuesRemovedLocked E i vals s;
          let cbs = concat (map live_fn (res_rels (heap_res s r)));
          let s = updRes r (res_rels_update (\<lambda>_. [])) s;
          s \<leftarrow> callCallbacksLocked E i (map (\<lambda>f. CbFn (CallFn f)) cbs) s;
          handleIdleStateLocked E i s
        })"

text \<open>\<^verbatim>\<open>attachStartSubResolverLocked\<close>; \<^term>\<open>None\<close> as first result is \<^verbatim>\<open>nil, false\<close>.\<close>

definition attachStartSubResolverLocked ::
    "env \<Rightarrow> iid \<Rightarrow> resid \<Rightarrow> nat \<Rightarrow> fnid option \<Rightarrow> st \<Rightarrow> (resid option \<times> st) option" where
  "attachStartSubResolverLocked E i r subRes removedCb s =
     (if \<not> List.member (di_res (heap_inst s i)) r
          \<or> hnd_rel (heap_hnd s (res_hnd (heap_res s r)))
          \<or> di_released (heap_inst s i)
      then Some (None, s)
      else do {
        let rr = newResolver i (res_hnd (heap_res s r)) subRes;
        let (rr, s) = (case removedCb of
            None \<Rightarrow> (rr, s)
          | Some f \<Rightarrow> (let (cb, s) = newCallback (Some f) s in (rr\<lparr>res_rels := [cb]\<rparr>, s)));
        (sub, s) \<leftarrow> attachStartResolverLocked E i rr s;
        Some (Some sub, s)
      })"

section \<open>Removing the instance\<close>

text \<open>\<^verbatim>\<open>for len(i.res) != 0\<close>: the resolvers are removed from the last to the first.\<close>

partial_function (option) removeAllResolvers :: "env \<Rightarrow> iid \<Rightarrow> st \<Rightarrow> st option" where
  [code]: "removeAllResolvers E i s =
     (if di_res (heap_inst s i) = [] then Some s
      else Option.bind
        (removeResolverLocked E i (Some (length (di_res (heap_inst s i)) - 1))
           (last (di_res (heap_inst s i))) s)
        (removeAllResolvers E i))"

definition releaseRefs :: "refid list \<Rightarrow> st \<Rightarrow> st" where
  "releaseRefs rs s = s\<lparr>heap_ref :=
     (\<lambda>r. if List.member rs r then (heap_ref s r)\<lparr>ref_released := True\<rparr> else heap_ref s r)\<rparr>"

definition disposeEvents :: "st \<Rightarrow> iid \<Rightarrow> callback_event list" where
  "disposeEvents s i =
     map (\<lambda>f. CbFn (CallFn f)) (concat (map live_fn (di_rels (heap_inst s i))))
     @ map (\<lambda>r. CbFn (HandleInstanceDisposed r i)) (filter (live_ref s) (di_refs (heap_inst s i)))"

text \<open>\<^verbatim>\<open>removeLocked\<close>, with its first lines, which come before the index is used.\<close>

definition markRemoved :: "iid \<Rightarrow> st \<Rightarrow> st" where
  "markRemoved i s = cancelCtx (di_ctx (heap_inst s i))
     (updInst i (\<lambda>x. x\<lparr>di_released := True, di_destroyTimer := None\<rparr>) s)"

definition removeLocked :: "env \<Rightarrow> iid \<Rightarrow> nat option \<Rightarrow> st \<Rightarrow> st option" where
  "removeLocked E i diIdx s = do {
     let s = markRemoved i s;
     case (case diIdx of Some k \<Rightarrow> Some k | None \<Rightarrow> indexOf (\<lambda>x. x = i) (c_dir s)) of
       None \<Rightarrow> Some s
     | Some k \<Rightarrow> do {
         let s = s\<lparr>c_dir := removeAt k (c_dir s), c_bcast := Suc (c_bcast s)\<rparr>;
         let s = updInst i (di_idles_update (\<lambda>_. [])) s;
         s \<leftarrow> removeAllResolvers E i s;
         let evs = disposeEvents s i;
         let s = releaseRefs (di_refs (heap_inst s i)) s;
         let s = updInst i (di_rels_update (\<lambda>_. [])) s;
         s \<leftarrow> callCallbacksLocked E i evs s;
         Some (updInst i (di_refs_update (\<lambda>_. [])) s)
       }
   }"

text \<open>\<^verbatim>\<open>removeHandlerLocked\<close>: the index only advances past resolvers of other handlers.\<close>

partial_function (option) removeHandlerFrom :: "env \<Rightarrow> iid \<Rightarrow> hndid \<Rightarrow> nat \<Rightarrow> st \<Rightarrow> st option" where
  [code]: "removeHandlerFrom E i h idx s =
     (if \<not> idx < length (di_res (heap_inst s i)) then Some s
      else let r = di_res (heap_inst s i) ! idx in
        if res_hnd (heap_res s r) = h
        then Option.bind (removeResolverLocked E i (Some idx) r s) (removeHandlerFrom E i h idx)
        else removeHandlerFrom E i h (Suc idx) s)"

definition instRemoveHandlerLocked :: "env \<Rightarrow> hndid \<Rightarrow> iid \<Rightarrow> st \<Rightarrow> st option" where
  "instRemoveHandlerLocked E h i s = removeHandlerFrom E i h 0 s"

section \<open>References\<close>

definition handleReferencedLocked :: "iid \<Rightarrow> st \<Rightarrow> st" where
  "handleReferencedLocked i s =
     (if di_released (heap_inst s i) then s
      else updInst i (di_destroyTimer_update (\<lambda>_. None)) s)"

definition addReferenceLocked :: "env \<Rightarrow> iid \<Rightarrow> nat option \<Rightarrow> bool \<Rightarrow> st \<Rightarrow> (refid \<times> st) option" where
  "addReferenceLocked E i cb weakRef s =
     (let r = next_ptr s;
          ref = \<lparr>ref_released = False, ref_di = i, ref_weak = weakRef, ref_h = cb\<rparr>;
          s = s\<lparr>next_ptr := Suc r, heap_ref := (heap_ref s)(r := ref)\<rparr> in
      if di_released (heap_inst s i) then do {
        let s = updRef r (ref_released_update (\<lambda>_. True)) s;
        s \<leftarrow> (if cb = None then Some s
              else callCallbacksLocked E i [CbFn (HandleInstanceDisposed r i)] s);
        Some (r, s)
      } else do {
        let refs = di_refs (heap_inst s i);
        let firstRef = (refs = []);
        let firstNonWeakRef = (\<not> firstRef \<and> \<not> weakRef \<and> ref_weak (heap_ref s (last refs)));
        let s = updInst i (di_refs_update (\<lambda>_. if weakRef then r # refs else refs @ [r])) s;
        let cbs = (if cb = None then []
                   else map (\<lambda>p. CbFn (HandleValueAdded r i (fst p) (snd p)))
                          (getResolverAttachedValsLocked s i));
        let s = (if \<not> weakRef \<and> (firstRef \<or> firstNonWeakRef) then handleReferencedLocked i s else s);
        s \<leftarrow> callCallbacksLocked E i cbs s;
        Some (r, s)
      })"

definition handleUnreferencedLocked :: "env \<Rightarrow> iid \<Rightarrow> st \<Rightarrow> st option" where
  "handleUnreferencedLocked E i s =
     (if di_released (heap_inst s i) then Some s
      else let opts = di_valueOpts (heap_inst s i) in
        if UnrefDisposeDur opts = 0 \<or> (UnrefDisposeEmptyImmediate opts \<and> \<not> anyValuesLocked s i)
        then removeLocked E i None s
        else if di_destroyTimer (heap_inst s i) = None
        then Some (updInst i (di_destroyTimer_update (\<lambda>_. Some (next_ptr s)))
                     (s\<lparr>next_ptr := Suc (next_ptr s)\<rparr>))
        else Some s)"

text \<open>
  The function given to \<^verbatim>\<open>time.AfterFunc\<close>, for the timer \<open>t\<close>. A stopped timer may already be
  running it, so it may be called at any time.
\<close>

definition destroyTimerFired :: "env \<Rightarrow> iid \<Rightarrow> nat \<Rightarrow> st \<Rightarrow> st option" where
  "destroyTimerFired E i t s =
     (if di_released (heap_inst s i) then Some s
      else if di_destroyTimer (heap_inst s i) = Some t
      then removeLocked E i None (updInst i (di_destroyTimer_update (\<lambda>_. None)) s)
      else Some s)"

definition hasNonWeakRef :: "st \<Rightarrow> iid \<Rightarrow> bool" where
  "hasNonWeakRef s i \<longleftrightarrow> di_refs (heap_inst s i) \<noteq> []
      \<and> \<not> ref_weak (heap_ref s (last (di_refs (heap_inst s i))))"

definition removeReferenceLocked :: "env \<Rightarrow> iid \<Rightarrow> refid \<Rightarrow> st \<Rightarrow> st option" where
  "removeReferenceLocked E i r s =
     (if \<not> List.member (di_refs (heap_inst s i)) r then Some s
      else let s = updRef r (ref_released_update (\<lambda>_. True))
                     (updInst i (\<lambda>x. x\<lparr>di_refs := removePtr r (di_refs x)\<rparr>) s) in
        if \<not> hasNonWeakRef s i then handleUnreferencedLocked E i s else Some s)"

text \<open>\<^verbatim>\<open>dirRef.Release\<close>.\<close>

definition Release :: "env \<Rightarrow> refid \<Rightarrow> st \<Rightarrow> st option" where
  "Release E r s =
     (if ref_released (heap_ref s r) then Some s
      else removeReferenceLocked E (ref_di (heap_ref s r)) r
             (updRef r (ref_released_update (\<lambda>_. True)) s))"

section \<open>The exported operations of an instance\<close>

definition AddReference :: "env \<Rightarrow> iid \<Rightarrow> nat option \<Rightarrow> bool \<Rightarrow> st \<Rightarrow> (refid \<times> st) option" where
  "AddReference E i cb weakRef s = addReferenceLocked E i cb weakRef s"

text \<open>
  A callback called directly, with the mutex unlocked: its panic is the caller's. Afterwards the empty
  release function is returned.
\<close>

definition callDirectly :: "env \<Rightarrow> fnid \<Rightarrow> st \<Rightarrow> ('a option outcome \<times> st) option" where
  "callDirectly E f s = do {
     (out, s) \<leftarrow> deliver E (CallFn f) s;
     Some (map_outcome (\<lambda>_. None) out, s)
   }"

text \<open>The callback is not nil; the result names the release function, if it is not the empty one.\<close>

definition AddDisposeCallback :: "env \<Rightarrow> iid \<Rightarrow> fnid \<Rightarrow> st \<Rightarrow> (nat option outcome \<times> st) option" where
  "AddDisposeCallback E i f s =
     (if di_released (heap_inst s i) then callDirectly E f s
      else do {
        let (cb, s) = newCallback (Some f) s;
        Some (Returned (Some (cb_ptr cb)), updInst i (\<lambda>x. x\<lparr>di_rels := di_rels x @ [cb]\<rparr>) s)
      })"

definition AddIdleCallback :: "env \<Rightarrow> iid \<Rightarrow> fnid option \<Rightarrow> st \<Rightarrow> (nat \<times> st) option" where
  "AddIdleCallback E i f s = do {
     let (cb, s) = newCallback f s;
     let s = updInst i (\<lambda>x. x\<lparr>di_idles := di_idles x @ [cb]\<rparr>) s;
     let isIdle = (di_ready (heap_inst s i) \<and> di_idle (heap_inst s i));
     let errs = getResolverErrsLocked s i;
     s \<leftarrow> callCallbacksLocked E i
            [case f of None \<Rightarrow> CbNilPanic | Some g \<Rightarrow> CbFn (CallIdle g isIdle errs)] s;
     Some (cb_ptr cb, s)
   }"

definition AddStateCallback :: "env \<Rightarrow> iid \<Rightarrow> fnid option \<Rightarrow> st \<Rightarrow> (nat \<times> st) option" where
  "AddStateCallback E i f s = do {
     let (cb, s) = newCallback f s;
     let s = updInst i (\<lambda>x. x\<lparr>di_stateChanged := di_stateChanged x @ [cb]\<rparr>) s;
     let (sn, s) = getDirectiveStateSnapshotLocked i s;
     s \<leftarrow> callCallbacksLocked E i [case f of None \<Rightarrow> CbNilPanic | Some g \<Rightarrow> stateCall sn g] s;
     Some (cb_ptr cb, s)
   }"

text \<open>
  The release functions of the three: \<^verbatim>\<open>removeReleaseCallbackLocked\<close>,
  \<^verbatim>\<open>removeIdleCallbackLocked\<close> and \<^verbatim>\<open>removeStateCallbackLocked\<close> behind the released flag. A callback
  that is in no list was released before.
\<close>

definition removeReleaseCallbackLocked :: "iid \<Rightarrow> nat \<Rightarrow> st \<Rightarrow> st" where
  "removeReleaseCallbackLocked i p s =
     updInst i (\<lambda>x. x\<lparr>di_rels := removeFromCallbacks (di_rels x) p\<rparr>) s"

definition removeIdleCallbackLocked :: "iid \<Rightarrow> nat \<Rightarrow> st \<Rightarrow> st" where
  "removeIdleCallbackLocked i p s =
     updInst i (\<lambda>x. x\<lparr>di_idles := removeFromCallbacks (di_idles x) p\<rparr>) s"

definition removeStateCallbackLocked :: "iid \<Rightarrow> nat \<Rightarrow> st \<Rightarrow> st" where
  "removeStateCallbackLocked i p s =
     updInst i (\<lambda>x. x\<lparr>di_stateChanged := removeFromCallbacks (di_stateChanged x) p\<rparr>) s"

definition Close :: "env \<Rightarrow> iid \<Rightarrow> st \<Rightarrow> st option" where
  "Close E i s =
     (if di_released (heap_inst s i) then Some s
      else removeLocked E i None (updInst i (di_released_update (\<lambda>_. True)) s))"

definition CloseIfUnreferenced :: "env \<Rightarrow> iid \<Rightarrow> bool \<Rightarrow> st \<Rightarrow> (bool \<times> st) option" where
  "CloseIfUnreferenced E i inclWeakRefs s =
     (if di_released (heap_inst s i) then Some (True, s)
      else do {
        let hasRefs = (di_refs (heap_inst s i) \<noteq> []);
        let hasRefs = (if hasRefs \<and> \<not> inclWeakRefs
                       then \<not> ref_weak (heap_ref s (last (di_refs (heap_inst s i)))) else hasRefs);
        s \<leftarrow> (if \<not> hasRefs
              then removeLocked E i None (updInst i (di_released_update (\<lambda>_. True)) s)
              else Some s);
        Some (di_released (heap_inst s i), s)
      })"

section \<open>Resolver handlers\<close>

text \<open>
  A \<^verbatim>\<open>resolverHandler\<close> is the resolver and the context of the goroutine it was made for; every
  operation that writes does nothing once the resolver has another context.
\<close>

definition handlerCurrent :: "resid \<Rightarrow> ctx \<Rightarrow> st \<Rightarrow> bool" where
  "handlerCurrent r c s \<longleftrightarrow> res_ctx (heap_res s r) = Some c"

definition AddValue :: "env \<Rightarrow> resid \<Rightarrow> ctx \<Rightarrow> gvalue \<Rightarrow> st \<Rightarrow> ((u32 \<times> bool) \<times> st) option" where
  "AddValue E r c val s =
     (if \<not> handlerCurrent r c s then Some ((0, False), s) else addValueLocked E r val s)"

definition RemoveValue :: "env \<Rightarrow> resid \<Rightarrow> ctx \<Rightarrow> u32 \<Rightarrow> st \<Rightarrow> ((gvalue option \<times> bool) \<times> st) option" where
  "RemoveValue E r c vid s =
     (if \<not> handlerCurrent r c s then Some ((None, False), s) else removeValueLocked E r vid s)"

definition MarkIdle :: "env \<Rightarrow> resid \<Rightarrow> ctx \<Rightarrow> bool \<Rightarrow> st \<Rightarrow> st option" where
  "MarkIdle E r c idle s = (if \<not> handlerCurrent r c s then Some s else setIdleLocked E r idle s)"

definition CountValues :: "resid \<Rightarrow> bool \<Rightarrow> st \<Rightarrow> nat" where
  "CountValues r allResolvers s =
     (if allResolvers then countValuesLocked s (res_di (heap_res s r))
      else length (res_vals (heap_res s r)))"

definition ClearValues :: "env \<Rightarrow> resid \<Rightarrow> ctx \<Rightarrow> st \<Rightarrow> (u32 list \<times> st) option" where
  "ClearValues E r c s =
     (if \<not> handlerCurrent r c s then Some ([], s)
      else do {
        let vals = res_vals (heap_res s r);
        let s = updRes r (res_vals_update (\<lambda>_. [])) s;
        s \<leftarrow> onValuesRemovedLocked E (res_di (heap_res s r)) vals s;
        Some (map v_id vals, s)
      })"

definition AddValueRemovedCallback ::
    "env \<Rightarrow> resid \<Rightarrow> ctx \<Rightarrow> u32 \<Rightarrow> fnid option \<Rightarrow> st \<Rightarrow> (u32 option outcome \<times> st) option" where
  "AddValueRemovedCallback E r c vid cb s =
     (case cb of None \<Rightarrow> Some (Returned None, s)
      | Some f \<Rightarrow> do {
          let (found, s) = (if handlerCurrent r c s then addValueRemovedCallbackLocked r vid cb s
                            else (None, s));
          if found = None then callDirectly E f s else Some (Returned found, s)
        })"

definition AddResolverRemovedCallback ::
    "env \<Rightarrow> resid \<Rightarrow> ctx \<Rightarrow> fnid option \<Rightarrow> st \<Rightarrow> (nat option outcome \<times> st) option" where
  "AddResolverRemovedCallback E r c cb s =
     (case cb of None \<Rightarrow> Some (Returned None, s)
      | Some f \<Rightarrow> do {
          let (found, s) = (if handlerCurrent r c s
                            then addResolverRemovedCallbackLocked (res_di (heap_res s r)) r cb s
                            else (None, s));
          if found = None then callDirectly E f s else Some (Returned found, s)
        })"

text \<open>\<open>res\<close> is \<^term>\<open>None\<close> for a nil resolver; the result names the sub-resolver, if one was attached.\<close>

definition AddResolver ::
    "env \<Rightarrow> resid \<Rightarrow> ctx \<Rightarrow> nat option \<Rightarrow> fnid option \<Rightarrow> st \<Rightarrow> (resid option outcome \<times> st) option" where
  "AddResolver E r c res removedCb s =
     (let callRemoved = (\<lambda>s. case removedCb of None \<Rightarrow> Some (Returned None, s)
                            | Some f \<Rightarrow> callDirectly E f s) in
      case res of None \<Rightarrow> callRemoved s
      | Some subRes \<Rightarrow> do {
          (found, s) \<leftarrow> (if handlerCurrent r c s
             then attachStartSubResolverLocked E (res_di (heap_res s r)) r subRes removedCb s
             else Some (None, s));
          if found = None then callRemoved s else Some (Returned found, s)
        })"

text \<open>The release function that \<^verbatim>\<open>AddResolver\<close> returns.\<close>

definition releaseSubResolver :: "env \<Rightarrow> iid \<Rightarrow> resid \<Rightarrow> st \<Rightarrow> st option" where
  "releaseSubResolver E i sub s = removeResolverLocked E i None sub s"

section \<open>The goroutine of a resolver\<close>

text \<open>
  \<^verbatim>\<open>executeResolver\<close> in three steps: it leaves at the first \<^verbatim>\<open>select\<close> because its context is done,
  or passes it because the previous goroutine is gone and calls \<^verbatim>\<open>Resolve\<close>, or returns from
  \<^verbatim>\<open>Resolve\<close> with the error \<open>err\<close>. The exit channel is closed in the first and the last.
\<close>

definition exitTask :: "nat \<Rightarrow> st \<Rightarrow> st" where
  "exitTask k s = s\<lparr>tasks := (tasks s)[k := (tasks s ! k)\<lparr>task_pc := TaskExited\<rparr>],
     chan_closed := (chan_closed s)(task_exitedCh (tasks s ! k) := True)\<rparr>"

definition executeResolver_canAbort :: "nat \<Rightarrow> st \<Rightarrow> bool" where
  "executeResolver_canAbort k s \<longleftrightarrow> k < length (tasks s) \<and> task_pc (tasks s ! k) = TaskWaiting
     \<and> task_waitCh (tasks s ! k) \<noteq> None \<and> ctxDone s (task_ctx (tasks s ! k))"

definition executeResolver_abort :: "nat \<Rightarrow> st \<Rightarrow> st" where
  "executeResolver_abort k s = exitTask k s"

definition executeResolver_canStart :: "nat \<Rightarrow> st \<Rightarrow> bool" where
  "executeResolver_canStart k s \<longleftrightarrow> k < length (tasks s) \<and> task_pc (tasks s ! k) = TaskWaiting
     \<and> (case task_waitCh (tasks s ! k) of None \<Rightarrow> True | Some ch \<Rightarrow> chan_closed s ch)"

definition executeResolver_start :: "nat \<Rightarrow> st \<Rightarrow> st" where
  "executeResolver_start k s =
     s\<lparr>tasks := (tasks s)[k := (tasks s ! k)\<lparr>task_pc := TaskResolving\<rparr>]\<rparr>"

definition executeResolver_return :: "env \<Rightarrow> nat \<Rightarrow> goerr option \<Rightarrow> st \<Rightarrow> st option" where
  "executeResolver_return E k err s =
     (let r = task_r (tasks s ! k); i = res_di (heap_res s r) in
      if \<not> handlerCurrent r (task_ctx (tasks s ! k)) s then Some (exitTask k s)
      else do {
        let (armed, s) = deferCheckStateChanged i s;
        let s = updRes r (res_exited_update (\<lambda>_. True)) s;
        s \<leftarrow> setErrLocked E r err s;
        s \<leftarrow> setIdleLocked E r True s;
        s \<leftarrow> runDeferred E i armed s;
        Some (exitTask k s)
      })"

end
