(* ===== verification/Dir_Controller.thy ===== *)
theory Dir_Controller
  imports Dir_Instance
begin

text \<open>
  The operations of the directive controller itself (\<^verbatim>\<open>directive/controller/controller.go\<close>):
  adding directives (with de-duplication and superseding), adding and removing handlers, and
  listing the directives.
\<close>

section \<open>Handlers\<close>

definition newHandler :: "nat \<Rightarrow> st \<Rightarrow> hndid \<times> st" where
  "newHandler h s = (next_ptr s,
     s\<lparr>next_ptr := Suc (next_ptr s),
       heap_hnd := (heap_hnd s)(next_ptr s := \<lparr>hnd_rel = False, hnd_h = h\<rparr>)\<rparr>)"

text \<open>
  \<^verbatim>\<open>callHandlerUnlocked\<close>: the handler's error (a panic is recovered into one) or the structs of
  the new resolvers.
\<close>

definition callHandlerUnlocked :: "env \<Rightarrow> iid \<Rightarrow> hndid \<Rightarrow> st \<Rightarrow> ((goerr + resolver list) \<times> st) option" where
  "callHandlerUnlocked E i h s = do {
     (res, s) \<leftarrow> env_handle E (hnd_h (heap_hnd s h)) i s;
     Some (case res of Inl e \<Rightarrow> Inl e | Inr rs \<Rightarrow> Inr (map (newResolver i h) rs), s)
   }"

text \<open>The loop of \<^verbatim>\<open>AddDirective\<close> over the handlers: errors are logged and skipped.\<close>

fun callHandlers :: "env \<Rightarrow> iid \<Rightarrow> hndid list \<Rightarrow> st \<Rightarrow> (resolver list \<times> st) option" where
  "callHandlers E i [] s = Some ([], s)"
| "callHandlers E i (h # hs) s =
     (if hnd_rel (heap_hnd s h) then callHandlers E i hs s
      else do {
        (res, s) \<leftarrow> callHandlerUnlocked E i h s;
        (rs, s) \<leftarrow> callHandlers E i hs s;
        Some (case res of Inl _ \<Rightarrow> rs | Inr nres \<Rightarrow> nres @ rs, s)
      })"

fun attachAll :: "env \<Rightarrow> (iid \<times> resolver) list \<Rightarrow> st \<Rightarrow> st option" where
  "attachAll E [] s = Some s"
| "attachAll E ((i, rr) # rs) s = do {
     (_, s) \<leftarrow> attachStartResolverLocked E i rr s;
     attachAll E rs s
   }"

section \<open>Adding a directive\<close>

text \<open>
  \<^verbatim>\<open>newDirectiveInstance\<close>, with its initial reference.
\<close>

definition newDirectiveInstance ::
    "env \<Rightarrow> u32 \<Rightarrow> directive \<Rightarrow> nat option \<Rightarrow> st \<Rightarrow> ((iid \<times> refid) \<times> st) option" where
  "newDirectiveInstance E did dir h s = do {
     let i = next_ptr s;
     let s = s\<lparr>next_ptr := Suc i\<rparr>;
     let (c, s) = withCancel (c_ctx s) s;
     let s = updInst i (\<lambda>_. zero_inst\<lparr>di_id := did, di_dir := dir,
               di_valueOpts := dir_valueOptions dir, di_ctx := c\<rparr>) s;
     (r, s) \<leftarrow> addReferenceLocked E i h False s;
     Some ((i, r), s)
   }"

text \<open>
  The loop \<^verbatim>\<open>for diIdx, di := range c.dir\<close>. The range expression is evaluated once, but its
  elements are read from the backing array while the loop runs, and \<^verbatim>\<open>removeLocked\<close> shifts that
  array in place (\<^verbatim>\<open>append(c.dir[:diIdx], c.dir[diIdx+1:]...)\<close>): \<open>arr\<close> is the array, its first
  cells are the current \<^verbatim>\<open>c.dir\<close> and the cells behind them keep what they held. The slice
  expression \<^verbatim>\<open>c.dir[diIdx+1:]\<close> in \<^verbatim>\<open>removeLocked\<close> panics when \<^verbatim>\<open>c.dir\<close> has become too short, after
  the instance was marked as released, its context cancelled and its timer stopped.
\<close>

datatype scan_result =
    ScanFound iid refid
  | ScanNone
  | ScanPanic

fun addDirectiveScan ::
    "env \<Rightarrow> directive \<Rightarrow> nat option \<Rightarrow> nat \<Rightarrow> nat \<Rightarrow> iid list \<Rightarrow> st \<Rightarrow> (scan_result \<times> st) option" where
  "addDirectiveScan E dir h 0 diIdx arr s = Some (ScanNone, s)"
| "addDirectiveScan E dir h (Suc n) diIdx arr s =
     (let di = arr ! diIdx in
      if \<not> di_released (heap_inst s di) \<and> env_isEquivalent E dir (di_dir (heap_inst s di)) then
        if dir_hasSuperceeds dir \<and> env_superceeds E dir (di_dir (heap_inst s di)) then
          if length (c_dir s) < Suc diIdx then Some (ScanPanic, markRemoved di s)
          else do {
            s \<leftarrow> removeLocked E di (Some diIdx) s;
            addDirectiveScan E dir h n (Suc diIdx) (c_dir s @ drop (length (c_dir s)) arr) s
          }
        else do {
          (r, s) \<leftarrow> addReferenceLocked E di h False s;
          Some (ScanFound di r, s)
        }
      else addDirectiveScan E dir h n (Suc diIdx) arr s)"

text \<open>The part after the loop: the new instance, the handlers, the attached resolvers.\<close>

definition addNewDirective ::
    "env \<Rightarrow> directive \<Rightarrow> nat option \<Rightarrow> st \<Rightarrow> ((iid \<times> refid) \<times> st) option" where
  "addNewDirective E dir h s = do {
     ((di, r), s) \<leftarrow> newDirectiveInstance E (c_dirID s) dir h s;
     let s = s\<lparr>c_dirID := c_dirID s + 1, c_dir := c_dir s @ [di], c_bcast := Suc (c_bcast s)\<rparr>;
     let (armed, s) = deferCheckStateChanged di s;
     (rs, s) \<leftarrow> callHandlers E di (c_hnd s) s;
     s \<leftarrow> (if di_released (heap_inst s di) then Some s
           else do {
             s \<leftarrow> attachAll E (map (Pair di) rs) s;
             let s = updInst di (di_ready_update (\<lambda>_. True)) s;
             handleIdleStateLocked E di s
           });
     s \<leftarrow> runDeferred E di armed s;
     Some ((di, r), s)
   }"

text \<open>\<^verbatim>\<open>AddDirective\<close>. The panic of the loop is the caller's; the deferred unlock runs.\<close>

definition AddDirective ::
    "env \<Rightarrow> directive \<Rightarrow> nat option \<Rightarrow> st \<Rightarrow> ((iid \<times> refid) outcome \<times> st) option" where
  "AddDirective E dir h s = do {
     (res, s) \<leftarrow> (if dir_hasEquiv dir then addDirectiveScan E dir h (length (c_dir s)) 0 (c_dir s) s
                  else Some (ScanNone, s));
     (case res of
        ScanFound di r \<Rightarrow> Some (Returned (di, r), s)
      | ScanPanic \<Rightarrow> Some (Panicked, s)
      | ScanNone \<Rightarrow> do { (p, s) \<leftarrow> addNewDirective E dir h s; Some (Returned p, s) })
   }"

section \<open>Adding and removing handlers\<close>

fun callHandlerOnAll :: "env \<Rightarrow> hndid \<Rightarrow> iid list \<Rightarrow> st \<Rightarrow> ((iid \<times> resolver) list \<times> st) option" where
  "callHandlerOnAll E h [] s = Some ([], s)"
| "callHandlerOnAll E h (di # dis) s =
     (if hnd_rel (heap_hnd s h) then callHandlerOnAll E h dis s
      else do {
        (res, s) \<leftarrow> callHandlerUnlocked E di h s;
        (rs, s) \<leftarrow> callHandlerOnAll E h dis s;
        Some (case res of Inl _ \<Rightarrow> rs | Inr nres \<Rightarrow> map (Pair di) nres @ rs, s)
      })"

definition addHandlerLocked :: "env \<Rightarrow> nat \<Rightarrow> st \<Rightarrow> (hndid \<times> st) option" where
  "addHandlerLocked E handler s = do {
     let (hnd, s) = newHandler handler s;
     let s = s\<lparr>c_hnd := c_hnd s @ [hnd]\<rparr>;
     (rs, s) \<leftarrow> callHandlerOnAll E hnd (c_dir s) s;
     s \<leftarrow> attachAll E rs s;
     Some (hnd, s)
   }"

text \<open>\<^verbatim>\<open>AddHandler\<close>; it never fails, and the result names the release function.\<close>

definition AddHandler :: "env \<Rightarrow> nat \<Rightarrow> st \<Rightarrow> (hndid \<times> st) option" where
  "AddHandler E handler s = addHandlerLocked E handler s"

definition removeHandlerLocked :: "env \<Rightarrow> hndid \<Rightarrow> st \<Rightarrow> (bool \<times> st) option" where
  "removeHandlerLocked E hnd s = do {
     let s = updHnd hnd (hnd_rel_update (\<lambda>_. True)) s;
     (case indexOf (\<lambda>h. h = hnd) (c_hnd s) of
        None \<Rightarrow> Some (False, s)
      | Some k \<Rightarrow> do {
          let s = s\<lparr>c_hnd := swapRemove k (c_hnd s)\<rparr>;
          s \<leftarrow> forEach (instRemoveHandlerLocked E hnd) (c_dir s) s;
          Some (True, s)
        })
   }"

text \<open>The release function that \<^verbatim>\<open>addHandlerLocked\<close> returns.\<close>

definition relHandler :: "env \<Rightarrow> hndid \<Rightarrow> st \<Rightarrow> st option" where
  "relHandler E hnd s =
     (if hnd_rel (heap_hnd s hnd) then Some s
      else do { (_, s) \<leftarrow> removeHandlerLocked E hnd s; Some s })"

section \<open>Listing\<close>

definition GetDirectives :: "st \<Rightarrow> iid list" where
  "GetDirectives s = c_dir s"

end
