(* ===== verification/Dir_Invariants.thy ===== *)
theory Dir_Invariants
  imports Dir_Controller
begin

text \<open>
  The invariants of the directive controller and the relation between the states before and
  after any of its operations. Callbacks run with the mutex unlocked, so the invariants have to
  hold whenever one is called, in the middle of an operation; \<open>goodX pun X Y s\<close> is the invariant
  with the exceptions that hold between such points: the idle flag of the instances in \<open>X\<close> and
  the state snapshot of the instances in \<open>Y\<close> may be out of date. The lemmas after the
  definitions say what each kind of write does to it.
\<close>

section \<open>The invariants\<close>

text \<open>The comment on \<^verbatim>\<open>refs\<close>: all weak references are at the beginning of the list.\<close>

definition weakFirst :: "st \<Rightarrow> refid list \<Rightarrow> bool" where
  "weakFirst s rs \<longleftrightarrow> sorted_wrt (\<lambda>a b. ref_weak (heap_ref s b) \<longrightarrow> ref_weak (heap_ref s a)) rs"

definition refsOk :: "st \<Rightarrow> iid \<Rightarrow> bool" where
  "refsOk s i \<longleftrightarrow> weakFirst s (di_refs (heap_inst s i)) \<and> distinct (di_refs (heap_inst s i))
     \<and> (\<forall>r \<in> set (di_refs (heap_inst s i)). r < next_ptr s \<and> ref_di (heap_ref s r) = i)"

definition resOk :: "st \<Rightarrow> iid \<Rightarrow> bool" where
  "resOk s i \<longleftrightarrow> distinct (di_res (heap_inst s i))
     \<and> (\<forall>r \<in> set (di_res (heap_inst s i)). r < next_ptr s \<and> res_di (heap_res s r) = i)"

definition capOk :: "st \<Rightarrow> iid \<Rightarrow> bool" where
  "capOk s i \<longleftrightarrow> (let o' = di_valueOpts (heap_inst s i) in
     MaxValueHardCap o' \<and> MaxValueCount o' \<noteq> 0
       \<longrightarrow> int (countValuesLocked s i) \<le> max 0 (MaxValueCount o'))"

definition queueOk :: "st \<Rightarrow> iid \<Rightarrow> bool" where
  "queueOk s i \<longleftrightarrow> (\<not> di_callingRefCbs (heap_inst s i) \<longrightarrow> di_refCbs (heap_inst s i) = [])"

text \<open>
  The idle flag: an idle instance is ready, and a ready one without running resolvers is idle. That an
  idle one has no running resolvers needs more (\<open>pun\<close>): no resolver is marked as not idle after its
  goroutine has returned.
\<close>

definition idleFlag :: "bool \<Rightarrow> bool \<Rightarrow> bool \<Rightarrow> nat \<Rightarrow> bool" where
  "idleFlag pun idle ready cnt \<longleftrightarrow> (idle \<longrightarrow> ready) \<and> (ready \<and> cnt = 0 \<longrightarrow> idle)
     \<and> (pun \<and> idle \<longrightarrow> cnt = 0)"

lemma idleFlag_exact [simp]: "idleFlag pun (cnt = 0 \<and> ready) ready cnt"
  "idleFlag pun (xs = [] \<and> ready) ready (length xs)" "idleFlag pun False False cnt"
  by (auto simp: idleFlag_def)

definition idleOk :: "bool \<Rightarrow> st \<Rightarrow> iid \<Rightarrow> bool" where
  "idleOk pun s i \<longleftrightarrow>
     idleFlag pun (di_idle (heap_inst s i)) (di_ready (heap_inst s i)) (countRunningResolversLocked s i)"

definition snapOk :: "st \<Rightarrow> iid \<Rightarrow> bool" where
  "snapOk s i \<longleftrightarrow> (\<forall>sn. di_snapshot (heap_inst s i) = Some sn \<longrightarrow>
     snap_vals sn = getResolverAttachedValsLocked s i
     \<and> (snap_idle sn \<longleftrightarrow> di_ready (heap_inst s i) \<and> di_idle (heap_inst s i)))"

text \<open>Every pointer that a struct holds was allocated, and what is not allocated is untouched.\<close>

definition ptrOk :: "st \<Rightarrow> bool" where
  "ptrOk s \<longleftrightarrow> (\<forall>r. res_di (heap_res s r) < next_ptr s \<and> ref_di (heap_ref s r) < next_ptr s)
     \<and> (\<forall>i \<ge> next_ptr s. \<not> di_callingRefCbs (heap_inst s i) \<and> \<not> di_stateChangedSkip (heap_inst s i))
     \<and> distinct (c_dir s) \<and> (\<forall>i \<in> set (c_dir s). i < next_ptr s)
     \<and> distinct (c_hnd s) \<and> (\<forall>h \<in> set (c_hnd s). h < next_ptr s)"

definition exitedOk :: "bool \<Rightarrow> st \<Rightarrow> bool" where
  "exitedOk pun s \<longleftrightarrow> (pun \<longrightarrow> (\<forall>r. res_exited (heap_res s r) \<longrightarrow> res_idle (heap_res s r)))"

definition instOk :: "st \<Rightarrow> iid \<Rightarrow> bool" where
  "instOk s i \<longleftrightarrow> refsOk s i \<and> resOk s i \<and> capOk s i \<and> queueOk s i"

definition goodX :: "bool \<Rightarrow> iid set \<Rightarrow> iid set \<Rightarrow> st \<Rightarrow> bool" where
  "goodX pun X Y s \<longleftrightarrow> ptrOk s \<and> exitedOk pun s \<and> (\<forall>i. instOk s i)
     \<and> (\<forall>i. i \<notin> X \<longrightarrow> idleOk pun s i) \<and> (\<forall>i. i \<notin> Y \<longrightarrow> snapOk s i)"

abbreviation good :: "bool \<Rightarrow> st \<Rightarrow> bool" where
  "good pun s \<equiv> goodX pun {} {} s"

text \<open>
  What no operation changes: the fields written once, the flags that are only ever set, and, for
  a call that returned, the two flags that are set while callbacks run.
\<close>

definition stable :: "st \<Rightarrow> st \<Rightarrow> bool" where
  "stable s s' \<longleftrightarrow> next_ptr s \<le> next_ptr s'
     \<and> (\<forall>r < next_ptr s. res_di (heap_res s' r) = res_di (heap_res s r)
          \<and> res_hnd (heap_res s' r) = res_hnd (heap_res s r))
     \<and> (\<forall>r < next_ptr s. ref_di (heap_ref s' r) = ref_di (heap_ref s r)
          \<and> ref_weak (heap_ref s' r) = ref_weak (heap_ref s r)
          \<and> ref_h (heap_ref s' r) = ref_h (heap_ref s r)
          \<and> (ref_released (heap_ref s r) \<longrightarrow> ref_released (heap_ref s' r)))
     \<and> (\<forall>i < next_ptr s. di_valueOpts (heap_inst s' i) = di_valueOpts (heap_inst s i)
          \<and> di_dir (heap_inst s' i) = di_dir (heap_inst s i)
          \<and> di_ctx (heap_inst s' i) = di_ctx (heap_inst s i)
          \<and> (di_released (heap_inst s i) \<longrightarrow> di_released (heap_inst s' i))
          \<and> (di_ready (heap_inst s i) \<longrightarrow> di_ready (heap_inst s' i)))
     \<and> (\<forall>h < next_ptr s. hnd_rel (heap_hnd s h) \<longrightarrow> hnd_rel (heap_hnd s' h))
     \<and> (\<forall>n. ctx_canceled s n \<longrightarrow> ctx_canceled s' n)
     \<and> (\<forall>i. di_callingRefCbs (heap_inst s' i) = di_callingRefCbs (heap_inst s i)
          \<and> di_stateChangedSkip (heap_inst s' i) = di_stateChangedSkip (heap_inst s i))"

lemma stable_refl [simp, intro!]: "stable s s"
  by (simp add: stable_def)

lemma stable_trans [trans]:
  assumes ab: "stable a b" and bc: "stable b c"
  shows "stable a c"
proof -
  have le: "next_ptr a \<le> next_ptr b" using ab by (simp add: stable_def)
  then have lt: "\<And>x. x < next_ptr a \<Longrightarrow> x < next_ptr b" by simp
  show ?thesis using ab bc lt unfolding stable_def by auto
qed

lemma stable_next: "stable s s' \<Longrightarrow> x < next_ptr s \<Longrightarrow> x < next_ptr s'"
  by (auto simp: stable_def)

lemma stable_res_di: "stable s s' \<Longrightarrow> r < next_ptr s \<Longrightarrow> res_di (heap_res s' r) = res_di (heap_res s r)"
  by (simp add: stable_def)

lemma stable_skip:
  "stable s s' \<Longrightarrow> di_stateChangedSkip (heap_inst s' i) = di_stateChangedSkip (heap_inst s i)"
  by (simp add: stable_def)

lemma goodX_mono: "goodX pun X Y s \<Longrightarrow> X \<subseteq> X' \<Longrightarrow> Y \<subseteq> Y' \<Longrightarrow> goodX pun X' Y' s"
  by (auto simp: goodX_def)

lemma good_goodX: "good pun s \<Longrightarrow> goodX pun X Y s"
  by (auto simp: goodX_def)

lemma goodX_res_di: "goodX pun X Y s \<Longrightarrow> res_di (heap_res s r) < next_ptr s"
  by (simp add: goodX_def ptrOk_def)

lemma goodX_ref_di: "goodX pun X Y s \<Longrightarrow> ref_di (heap_ref s r) < next_ptr s"
  by (simp add: goodX_def ptrOk_def)

lemma goodX_resD:
  "goodX pun X Y s \<Longrightarrow> r \<in> set (di_res (heap_inst s i)) \<Longrightarrow> r < next_ptr s \<and> res_di (heap_res s r) = i"
  by (auto simp: goodX_def instOk_def resOk_def)

lemma goodX_exited: "goodX pun X Y s \<Longrightarrow> pun \<Longrightarrow> res_exited (heap_res s r) \<Longrightarrow> res_idle (heap_res s r)"
  by (simp add: goodX_def exitedOk_def)

section \<open>What the invariants look at\<close>

text \<open>Two congruence rules: the invariants depend only on some of the fields.\<close>

lemma count_cong:
  assumes "di_res (heap_inst s' i) = di_res (heap_inst s i)"
    and "\<And>r. r \<in> set (di_res (heap_inst s i)) \<Longrightarrow> length (res_vals (heap_res s' r)) = length (res_vals (heap_res s r))"
  shows "countValuesLocked s' i = countValuesLocked s i"
  using assms by (simp add: countValuesLocked_def cong: map_cong)

lemma running_cong:
  assumes "di_res (heap_inst s' i) = di_res (heap_inst s i)"
    and "\<And>r. r \<in> set (di_res (heap_inst s i)) \<Longrightarrow>
           (\<not> res_idle (heap_res s' r) \<and> \<not> res_exited (heap_res s' r))
             = (\<not> res_idle (heap_res s r) \<and> \<not> res_exited (heap_res s r))"
  shows "countRunningResolversLocked s' i = countRunningResolversLocked s i"
  using assms by (simp add: countRunningResolversLocked_def cong: filter_cong)

lemma weakFirst_cong:
  "(\<And>r. r \<in> set rs \<Longrightarrow> ref_weak (heap_ref s' r) = ref_weak (heap_ref s r))
     \<Longrightarrow> weakFirst s' rs = weakFirst s rs"
  unfolding weakFirst_def by (induction rs) auto

lemma length_filter_mono:
  "(\<And>x. x \<in> set xs \<Longrightarrow> P x \<Longrightarrow> Q x) \<Longrightarrow> length (filter P xs) \<le> length (filter Q xs)"
  by (induction xs) auto

lemma running_mono:
  assumes "di_res (heap_inst s' i) = di_res (heap_inst s i)"
    and "\<And>r. r \<in> set (di_res (heap_inst s i)) \<Longrightarrow> \<not> res_idle (heap_res s r) \<and> \<not> res_exited (heap_res s r)
           \<Longrightarrow> \<not> res_idle (heap_res s' r) \<and> \<not> res_exited (heap_res s' r)"
  shows "countRunningResolversLocked s i \<le> countRunningResolversLocked s' i"
  using assms by (simp add: countRunningResolversLocked_def length_filter_mono)

lemma attached_cong:
  assumes "di_res (heap_inst s' i) = di_res (heap_inst s i)"
    and "\<And>r. r \<in> set (di_res (heap_inst s i)) \<Longrightarrow>
           map attached_pair (res_vals (heap_res s' r)) = map attached_pair (res_vals (heap_res s r))"
  shows "getResolverAttachedValsLocked s' i = getResolverAttachedValsLocked s i"
  using assms by (simp add: getResolverAttachedValsLocked_def cong: map_cong)

text \<open>The fields of an instance and of a resolver that the invariants read.\<close>

definition inst_core :: "inst \<Rightarrow> refid list \<times> resid list \<times> value_options \<times> bool \<times> callback_event list
    \<times> bool \<times> bool \<times> snapshot option \<times> bool" where
  "inst_core x = (di_refs x, di_res x, di_valueOpts x, di_callingRefCbs x, di_refCbs x, di_idle x,
     di_ready x, di_snapshot x, di_stateChangedSkip x)"

definition res_core :: "resolver \<Rightarrow> iid \<times> bool \<times> bool \<times> (u32 \<times> gvalue) list" where
  "res_core x = (res_di x, res_idle x, res_exited x, map attached_pair (res_vals x))"

definition ref_core :: "dir_ref \<Rightarrow> iid \<times> bool" where
  "ref_core x = (ref_di x, ref_weak x)"

lemma goodX_cong:
  assumes inst: "\<And>j. inst_core (heap_inst s' j) = inst_core (heap_inst s j)"
    and res: "\<And>r. res_core (heap_res s' r) = res_core (heap_res s r)"
    and ref: "\<And>r. ref_core (heap_ref s' r) = ref_core (heap_ref s r)"
    and rest: "next_ptr s' = next_ptr s" "c_dir s' = c_dir s" "c_hnd s' = c_hnd s"
  shows "goodX pun X Y s' = goodX pun X Y s"
proof -
  have i: "\<And>j. di_refs (heap_inst s' j) = di_refs (heap_inst s j)"
    "\<And>j. di_res (heap_inst s' j) = di_res (heap_inst s j)"
    "\<And>j. di_valueOpts (heap_inst s' j) = di_valueOpts (heap_inst s j)"
    "\<And>j. di_callingRefCbs (heap_inst s' j) = di_callingRefCbs (heap_inst s j)"
    "\<And>j. di_refCbs (heap_inst s' j) = di_refCbs (heap_inst s j)"
    "\<And>j. di_idle (heap_inst s' j) = di_idle (heap_inst s j)"
    "\<And>j. di_ready (heap_inst s' j) = di_ready (heap_inst s j)"
    "\<And>j. di_snapshot (heap_inst s' j) = di_snapshot (heap_inst s j)"
    "\<And>j. di_stateChangedSkip (heap_inst s' j) = di_stateChangedSkip (heap_inst s j)"
    using inst by (simp_all add: inst_core_def)
  have r: "\<And>r. res_di (heap_res s' r) = res_di (heap_res s r)"
    "\<And>r. res_idle (heap_res s' r) = res_idle (heap_res s r)"
    "\<And>r. res_exited (heap_res s' r) = res_exited (heap_res s r)"
    "\<And>r. map attached_pair (res_vals (heap_res s' r)) = map attached_pair (res_vals (heap_res s r))"
    using res by (simp_all add: res_core_def)
  have f: "\<And>r. ref_di (heap_ref s' r) = ref_di (heap_ref s r)"
    "\<And>r. ref_weak (heap_ref s' r) = ref_weak (heap_ref s r)"
    using ref by (simp_all add: ref_core_def)
  have len: "\<And>r. length (res_vals (heap_res s' r)) = length (res_vals (heap_res s r))"
    using r(4) by (metis length_map)
  have "\<And>j. countValuesLocked s' j = countValuesLocked s j"
    by (rule count_cong) (simp_all add: i len)
  moreover have "\<And>j. countRunningResolversLocked s' j = countRunningResolversLocked s j"
    by (rule running_cong) (simp_all add: i r)
  moreover have "\<And>j. getResolverAttachedValsLocked s' j = getResolverAttachedValsLocked s j"
    by (rule attached_cong) (simp_all add: i r)
  ultimately show ?thesis
    by (simp add: goodX_def ptrOk_def exitedOk_def instOk_def refsOk_def resOk_def capOk_def
        queueOk_def idleOk_def snapOk_def weakFirst_def i r f rest)
qed

section \<open>Writes that the invariants do not see\<close>

named_theorems unseen \<open>writes that the invariants do not see\<close>

lemma goodX_unseen_inst [unseen]:
  "goodX pun X Y (updInst i (di_destroyTimer_update f1) s) = goodX pun X Y s"
  "goodX pun X Y (updInst i (di_rels_update f2) s) = goodX pun X Y s"
  "goodX pun X Y (updInst i (di_idles_update f3) s) = goodX pun X Y s"
  "goodX pun X Y (updInst i (di_stateChanged_update f4) s) = goodX pun X Y s"
  "goodX pun X Y (updInst i (di_valCtr_update f5) s) = goodX pun X Y s"
  "goodX pun X Y (updInst i (di_full_update f6) s) = goodX pun X Y s"
  "goodX pun X Y (updInst i (di_released_update f7) s) = goodX pun X Y s"
  by (rule goodX_cong; simp add: inst_core_def)+

lemma goodX_unseen_res [unseen]:
  "goodX pun X Y (updRes r (res_err_update g1) s) = goodX pun X Y s"
  "goodX pun X Y (updRes r (res_ctx_update g2) s) = goodX pun X Y s"
  "goodX pun X Y (updRes r (res_rels_update g3) s) = goodX pun X Y s"
  "goodX pun X Y (updRes r (res_stopped_update g4) s) = goodX pun X Y s"
  "goodX pun X Y (updRes r (res_exitedCh_update g5) s) = goodX pun X Y s"
  by (rule goodX_cong; simp add: res_core_def)+

lemma goodX_unseen_ref [unseen]:
  "goodX pun X Y (updRef p (ref_released_update h1) s) = goodX pun X Y s"
  "goodX pun X Y (releaseRefs ps s) = goodX pun X Y s"
  by (rule goodX_cong; simp add: ref_core_def releaseRefs_def)+

lemma goodX_unseen_st [unseen]:
  "goodX pun X Y (s\<lparr>ctx_canceled := k1\<rparr>) = goodX pun X Y s"
  "goodX pun X Y (s\<lparr>chan_closed := k2\<rparr>) = goodX pun X Y s"
  "goodX pun X Y (s\<lparr>tasks := k3\<rparr>) = goodX pun X Y s"
  "goodX pun X Y (s\<lparr>event_log := k4\<rparr>) = goodX pun X Y s"
  "goodX pun X Y (s\<lparr>c_bcast := k5\<rparr>) = goodX pun X Y s"
  "goodX pun X Y (s\<lparr>c_dirID := k6\<rparr>) = goodX pun X Y s"
  "goodX pun X Y (updHnd h hf s) = goodX pun X Y s"
  "goodX pun X Y (cancelCtx c s) = goodX pun X Y s"
  "goodX pun X Y (cancelResolverCtx r s) = goodX pun X Y s"
  by (rule goodX_cong; simp add: res_core_def cancelCtx_def cancelResolverCtx_def
      split: list.split option.split)+

section \<open>Writes that the invariants do see\<close>

lemmas good_defs = goodX_def ptrOk_def exitedOk_def instOk_def refsOk_def resOk_def capOk_def
  queueOk_def idleOk_def snapOk_def weakFirst_def countValuesLocked_def
  countRunningResolversLocked_def getResolverAttachedValsLocked_def

lemma goodX_markStateChanged: "goodX pun X Y s \<Longrightarrow> goodX pun X (Y - {i}) (markStateChanged i s)"
  by (auto simp: good_defs markStateChanged_def Let_def)

lemma goodX_populate:
  "goodX pun X Y s \<Longrightarrow> goodX pun X (Y - {i}) (populateDirectiveStateSnapshotLocked i s)"
  by (auto simp: good_defs populateDirectiveStateSnapshotLocked_def Let_def)

lemma goodX_setIdle:
  "goodX pun X Y s \<Longrightarrow> goodX pun (X - {i}) (Y - {i}) (markStateChanged i (updInst i
     (di_idle_update (\<lambda>_. countRunningResolversLocked s i = 0 \<and> di_ready (heap_inst s i))) s))"
  by (auto simp: good_defs markStateChanged_def Let_def)

lemma goodX_sameIdle:
  "goodX pun X Y s \<Longrightarrow> di_idle (heap_inst s i) = (countRunningResolversLocked s i = 0 \<and> di_ready (heap_inst s i))
     \<Longrightarrow> goodX pun (X - {i}) Y s"
  by (auto simp: goodX_def idleOk_def idleFlag_def)

lemma good_setReady:
  assumes g: "good pun s"
  shows "goodX pun {i} {} (updInst i (di_ready_update (\<lambda>_. True)) s)" (is "goodX pun _ _ ?s")
proof -
  have "idleOk pun s i" using g by (simp add: goodX_def)
  then have "di_idle (heap_inst s i) \<Longrightarrow> di_ready (heap_inst s i)"
    unfolding idleOk_def idleFlag_def by blast
  moreover have "getResolverAttachedValsLocked ?s j = getResolverAttachedValsLocked s j" for j
    by (rule attached_cong) auto
  moreover have "snapOk s j" for j using g by (simp add: goodX_def)
  ultimately have "snapOk ?s j" for j
    unfolding snapOk_def by (cases "j = i"; simp; blast)
  moreover have "idleOk pun ?s j" if "j \<noteq> i" for j
    using g that by (simp add: goodX_def idleOk_def countRunningResolversLocked_def)
  moreover have "ptrOk ?s \<and> exitedOk pun ?s" using g by (auto simp: goodX_def ptrOk_def exitedOk_def)
  moreover have "instOk ?s j" for j
  proof -
    have "instOk s j" using g by (simp add: goodX_def)
    moreover have "weakFirst ?s rs = weakFirst s rs" for rs by (rule weakFirst_cong) simp
    moreover have "countValuesLocked ?s j = countValuesLocked s j" by (rule count_cong) auto
    ultimately show ?thesis
      by (auto simp: instOk_def refsOk_def resOk_def capOk_def queueOk_def Let_def)
  qed
  ultimately show ?thesis by (simp add: goodX_def)
qed

lemma goodX_skip:
  "goodX pun X Y s \<Longrightarrow> i < next_ptr s \<Longrightarrow> goodX pun X Y (updInst i (di_stateChangedSkip_update f) s)"
  by (auto simp: good_defs Let_def)

lemma goodX_startCalling:
  "goodX pun X Y s \<Longrightarrow> i < next_ptr s
     \<Longrightarrow> goodX pun X Y (updInst i (\<lambda>x. x\<lparr>di_callingRefCbs := True, di_refCbs := []\<rparr>) s)"
  by (auto simp: good_defs Let_def)

lemma goodX_stopCalling:
  "goodX pun X Y s \<Longrightarrow> di_refCbs (heap_inst s i) = []
     \<Longrightarrow> goodX pun X Y (updInst i (di_callingRefCbs_update (\<lambda>_. False)) s)"
  by (auto simp: good_defs Let_def)

lemma goodX_takeQueue: "goodX pun X Y s \<Longrightarrow> goodX pun X Y (updInst i (di_refCbs_update (\<lambda>_. [])) s)"
  by (auto simp: good_defs Let_def)

lemma goodX_enqueue:
  "goodX pun X Y s \<Longrightarrow> di_callingRefCbs (heap_inst s i) \<Longrightarrow> goodX pun X Y (updInst i (di_refCbs_update f) s)"
  by (auto simp: good_defs Let_def)

lemma goodX_next: "goodX pun X Y s \<Longrightarrow> goodX pun X Y (s\<lparr>next_ptr := Suc (next_ptr s)\<rparr>)"
  by (auto simp: good_defs Let_def less_Suc_eq)

subsection \<open>The list of references\<close>

lemma sorted_wrt_remove1: "sorted_wrt P xs \<Longrightarrow> sorted_wrt P (remove1 x xs)"
  by (induction xs) (auto dest: notin_set_remove1)

lemma goodX_setRefs:
  assumes g: "goodX pun X Y s" and rs: "weakFirst s rs" "distinct rs"
    "\<forall>r \<in> set rs. r < next_ptr s \<and> ref_di (heap_ref s r) = i"
  shows "goodX pun X Y (updInst i (di_refs_update (\<lambda>_. rs)) s)" (is "goodX pun X Y ?s")
proof -
  have w: "\<And>q. weakFirst ?s q = weakFirst s q" by (rule weakFirst_cong) simp
  have c: "\<And>j. countValuesLocked ?s j = countValuesLocked s j" by (rule count_cong) auto
  have n: "\<And>j. countRunningResolversLocked ?s j = countRunningResolversLocked s j"
    by (rule running_cong) auto
  have a: "\<And>j. getResolverAttachedValsLocked ?s j = getResolverAttachedValsLocked s j"
    by (rule attached_cong) auto
  show ?thesis using g rs
    unfolding goodX_def ptrOk_def exitedOk_def instOk_def refsOk_def resOk_def capOk_def
      queueOk_def idleOk_def snapOk_def w c n a by (auto simp: Let_def)
qed

lemma goodX_newRef:
  assumes g: "goodX pun X Y s" and i: "i < next_ptr s" and r: "r = next_ptr s"
    and ri: "ref_di ref = i"
  shows "goodX pun X Y (s\<lparr>next_ptr := Suc r, heap_ref := (heap_ref s)(r := ref)\<rparr>)" (is "goodX pun X Y ?s")
proof -
  have lt: "\<And>j q. q \<in> set (di_refs (heap_inst s j)) \<Longrightarrow> q < next_ptr s"
    using g by (auto simp: goodX_def instOk_def refsOk_def)
  have w: "\<And>j. weakFirst ?s (di_refs (heap_inst s j)) = weakFirst s (di_refs (heap_inst s j))"
    by (rule weakFirst_cong) (use lt r in fastforce)
  have c: "\<And>j. countValuesLocked ?s j = countValuesLocked s j" by (rule count_cong) auto
  have n: "\<And>j. countRunningResolversLocked ?s j = countRunningResolversLocked s j"
    by (rule running_cong) auto
  have a: "\<And>j. getResolverAttachedValsLocked ?s j = getResolverAttachedValsLocked s j"
    by (rule attached_cong) auto
  show ?thesis using g i ri
    unfolding goodX_def ptrOk_def exitedOk_def instOk_def refsOk_def resOk_def capOk_def
      queueOk_def idleOk_def snapOk_def r
    apply (simp only: c[unfolded r] n[unfolded r] a[unfolded r])
    using w by (auto simp: Let_def less_Suc_eq r)
qed

lemma goodX_addRef:
  assumes g: "goodX pun X Y s" and i: "i < next_ptr s" and r: "r = next_ptr s"
    and ref: "ref_di ref = i"
  shows "goodX pun X Y (updInst i (di_refs_update (\<lambda>_. if ref_weak ref
      then r # di_refs (heap_inst s i) else di_refs (heap_inst s i) @ [r]))
    (s\<lparr>next_ptr := Suc r, heap_ref := (heap_ref s)(r := ref)\<rparr>))"
proof (rule goodX_setRefs[OF goodX_newRef[OF g i r ref]])
  let ?s = "s\<lparr>next_ptr := Suc r, heap_ref := (heap_ref s)(r := ref)\<rparr>"
  let ?rs = "di_refs (heap_inst s i)"
  have ok: "weakFirst s ?rs" "distinct ?rs" "\<forall>q \<in> set ?rs. q < next_ptr s \<and> ref_di (heap_ref s q) = i"
    using g by (auto simp: goodX_def instOk_def refsOk_def)
  have "weakFirst ?s ?rs = weakFirst s ?rs" by (rule weakFirst_cong) (use ok(3) r in fastforce)
  then have w: "weakFirst ?s ?rs" using ok(1) by simp
  then show "weakFirst ?s (if ref_weak ref then r # ?rs else ?rs @ [r])"
    by (auto simp: weakFirst_def sorted_wrt_append)
  show "distinct (if ref_weak ref then r # ?rs else ?rs @ [r])"
    using ok(2,3) r by auto
  show "\<forall>q \<in> set (if ref_weak ref then r # ?rs else ?rs @ [r]).
      q < next_ptr ?s \<and> ref_di (heap_ref ?s q) = i"
    using ok(3) r ref by auto
qed

lemma goodX_removeRef:
  assumes "goodX pun X Y s"
  shows "goodX pun X Y (updInst i (\<lambda>x. x\<lparr>di_refs := removePtr r (di_refs x)\<rparr>) s)"
proof -
  have "goodX pun X Y (updInst i (di_refs_update (\<lambda>_. removePtr r (di_refs (heap_inst s i)))) s)"
    using assms by (intro goodX_setRefs)
      (auto simp: goodX_def instOk_def refsOk_def removePtr_def weakFirst_def sorted_wrt_remove1
        dest: notin_set_remove1)
  then show ?thesis by simp
qed

lemma goodX_clearRefs: "goodX pun X Y s \<Longrightarrow> goodX pun X Y (updInst i (di_refs_update (\<lambda>_. [])) s)"
  by (rule goodX_setRefs) (auto simp: weakFirst_def)

subsection \<open>The list of resolvers\<close>

lemma goodX_newRes:
  assumes g: "goodX pun X Y s" and r: "r = next_ptr s" and di: "res_di rr < next_ptr s"
    and ex: "res_exited rr \<longrightarrow> res_idle rr"
  shows "goodX pun X Y (s\<lparr>next_ptr := Suc r, heap_res := (heap_res s)(r := rr)\<rparr>)" (is "goodX pun X Y ?s")
proof -
  have lt: "\<And>j q. q \<in> set (di_res (heap_inst s j)) \<Longrightarrow> q \<noteq> r"
    using g r by (fastforce simp: goodX_def instOk_def resOk_def)
  have w: "\<And>q. weakFirst ?s q = weakFirst s q" by (rule weakFirst_cong) simp
  have c: "\<And>j. countValuesLocked ?s j = countValuesLocked s j" by (rule count_cong) (use lt in auto)
  have n: "\<And>j. countRunningResolversLocked ?s j = countRunningResolversLocked s j"
    by (rule running_cong) (use lt in auto)
  have a: "\<And>j. getResolverAttachedValsLocked ?s j = getResolverAttachedValsLocked s j"
    by (rule attached_cong) (use lt in auto)
  show ?thesis using g r di ex lt
    unfolding goodX_def ptrOk_def exitedOk_def instOk_def refsOk_def resOk_def capOk_def
      queueOk_def idleOk_def snapOk_def w c n a
    by (auto simp: Let_def less_Suc_eq)
qed

lemma goodX_setResList:
  assumes g: "goodX pun X Y s" and rs: "distinct rs"
    "\<forall>r \<in> set rs. r < next_ptr s \<and> res_di (heap_res s r) = i"
    and cap: "sum_list (map (\<lambda>r. length (res_vals (heap_res s r))) rs) \<le> countValuesLocked s i"
  shows "goodX pun (insert i X) (insert i Y) (updInst i (di_res_update (\<lambda>_. rs)) s)" (is "goodX pun _ _ ?s")
proof -
  have w: "\<And>q. weakFirst ?s q = weakFirst s q" by (rule weakFirst_cong) simp
  have c: "\<And>j. j \<noteq> i \<Longrightarrow> countValuesLocked ?s j = countValuesLocked s j" by (rule count_cong) auto
  have n: "\<And>j. j \<noteq> i \<Longrightarrow> countRunningResolversLocked ?s j = countRunningResolversLocked s j"
    by (rule running_cong) auto
  have a: "\<And>j. j \<noteq> i \<Longrightarrow> getResolverAttachedValsLocked ?s j = getResolverAttachedValsLocked s j"
    by (rule attached_cong) auto
  have cap': "capOk ?s i"
    using g cap by (auto simp: goodX_def instOk_def capOk_def Let_def countValuesLocked_def)
  have inst: "instOk ?s j" for j
  proof (cases "j = i")
    case True
    then show ?thesis using g rs cap'
      by (auto simp: goodX_def instOk_def refsOk_def resOk_def queueOk_def w)
  next
    case False
    then show ?thesis using g
      by (auto simp: goodX_def instOk_def refsOk_def resOk_def queueOk_def capOk_def Let_def w c)
  qed
  show ?thesis using g inst
    by (auto simp: goodX_def ptrOk_def exitedOk_def idleOk_def snapOk_def n a)
qed

lemma goodX_dropX: "goodX pun (insert i X) Y s \<Longrightarrow> idleOk pun s i \<Longrightarrow> goodX pun X Y s"
  by (auto simp: goodX_def)

lemma goodX_dropY: "goodX pun X (insert i Y) s \<Longrightarrow> snapOk s i \<Longrightarrow> goodX pun X Y s"
  by (auto simp: goodX_def)

lemma goodX_attach:
  assumes g: "goodX pun X Y s" and r: "r = next_ptr s" and i: "i < next_ptr s"
    and rr: "res_di rr = i" "res_idle rr" "res_vals rr = []"
  shows "goodX pun X Y (updInst i (\<lambda>x. x\<lparr>di_res := di_res x @ [r]\<rparr>)
    (s\<lparr>next_ptr := Suc r, heap_res := (heap_res s)(r := rr)\<rparr>))" (is "goodX pun X Y ?t")
proof -
  let ?s = "s\<lparr>next_ptr := Suc r, heap_res := (heap_res s)(r := rr)\<rparr>"
  let ?rs = "di_res (heap_inst s i)"
  have g1: "goodX pun X Y ?s" using goodX_newRes[OF g r] rr i by simp
  have lt: "\<forall>q \<in> set ?rs. q < next_ptr s \<and> res_di (heap_res s q) = i"
    using g by (auto simp: goodX_def instOk_def resOk_def)
  have d: "distinct ?rs" using g by (auto simp: goodX_def instOk_def resOk_def)
  have "goodX pun (insert i X) (insert i Y) (updInst i (di_res_update (\<lambda>_. ?rs @ [r])) ?s)"
  proof (rule goodX_setResList[OF g1])
    show "distinct (?rs @ [r])" using lt d r by auto
    show "\<forall>q \<in> set (?rs @ [r]). q < next_ptr ?s \<and> res_di (heap_res ?s q) = i"
      using lt rr(1) r by auto
    show "sum_list (map (\<lambda>q. length (res_vals (heap_res ?s q))) (?rs @ [r])) \<le> countValuesLocked ?s i"
      using rr by (simp add: countValuesLocked_def)
  qed
  then have g2: "goodX pun (insert i X) (insert i Y) ?t" by simp
  have ne: "\<And>q. q \<in> set ?rs \<Longrightarrow> q \<noteq> r" using lt r by auto
  have n: "countRunningResolversLocked ?t i = countRunningResolversLocked s i"
    using rr ne by (simp add: countRunningResolversLocked_def cong: filter_cong)
  have a: "getResolverAttachedValsLocked ?t i = getResolverAttachedValsLocked s i"
    using rr ne by (simp add: getResolverAttachedValsLocked_def cong: map_cong)
  have "i \<notin> X \<Longrightarrow> idleOk pun ?t i" using g n by (simp add: goodX_def idleOk_def)
  then have g3: "goodX pun X (insert i Y) ?t"
    using g2 by (cases "i \<in> X") (auto simp: insert_absorb intro: goodX_dropX)
  have "i \<notin> Y \<Longrightarrow> snapOk ?t i" using g a by (simp add: goodX_def snapOk_def)
  then show ?thesis using g3 by (cases "i \<in> Y") (auto simp: insert_absorb intro: goodX_dropY)
qed

lemma removeAt_split: "k < length xs \<Longrightarrow> xs = take k xs @ xs ! k # drop (Suc k) xs"
  by (rule id_take_nth_drop)

lemma goodX_removeRes:
  assumes g: "goodX pun X Y s" and k: "k < length (di_res (heap_inst s i))"
  shows "goodX pun (insert i X) (insert i Y) (updInst i (\<lambda>x. x\<lparr>di_res := removeAt k (di_res x)\<rparr>) s)"
proof -
  let ?rs = "di_res (heap_inst s i)"
  have ok: "distinct ?rs" "\<forall>q \<in> set ?rs. q < next_ptr s \<and> res_di (heap_res s q) = i"
    using g by (auto simp: goodX_def instOk_def resOk_def)
  have "sum_list (map (\<lambda>q. length (res_vals (heap_res s q))) (removeAt k ?rs))
      \<le> sum_list (map (\<lambda>q. length (res_vals (heap_res s q))) ?rs)"
    by (subst (2) removeAt_split[OF k]) (simp add: removeAt_def)
  then have "goodX pun (insert i X) (insert i Y) (updInst i (di_res_update (\<lambda>_. removeAt k ?rs)) s)"
    using ok set_removeAt_subset[of k ?rs]
    by (intro goodX_setResList[OF g]) (auto simp: distinct_removeAt countValuesLocked_def)
  then show ?thesis by simp
qed

lemma goodX_removeIdleRes:
  assumes g: "goodX pun X Y s" and k: "k < length (di_res (heap_inst s i))"
    and idle: "res_idle (heap_res s (di_res (heap_inst s i) ! k))"
  shows "goodX pun X (insert i Y) (updInst i (\<lambda>x. x\<lparr>di_res := removeAt k (di_res x)\<rparr>) s)"
    (is "goodX pun _ _ ?t")
proof -
  let ?rs = "di_res (heap_inst s i)"
  let ?P = "\<lambda>r. \<not> res_idle (heap_res s r) \<and> \<not> res_exited (heap_res s r)"
  have "length (filter ?P (removeAt k ?rs)) = length (filter ?P ?rs)"
    using idle by (subst (2) removeAt_split[OF k]) (simp add: removeAt_def)
  then have "i \<notin> X \<Longrightarrow> idleOk pun ?t i"
    using g by (simp add: goodX_def idleOk_def countRunningResolversLocked_def)
  then show ?thesis
    using goodX_removeRes[OF g k] by (cases "i \<in> X") (auto simp: insert_absorb intro: goodX_dropX)
qed

lemma goodX_removeEmptyRes:
  assumes g: "goodX pun X Y s" and k: "k < length (di_res (heap_inst s i))"
    and emp: "res_vals (heap_res s (di_res (heap_inst s i) ! k)) = []"
    and g2: "goodX pun X' (insert i Y) (updInst i (\<lambda>x. x\<lparr>di_res := removeAt k (di_res x)\<rparr>) s)"
  shows "goodX pun X' Y (updInst i (\<lambda>x. x\<lparr>di_res := removeAt k (di_res x)\<rparr>) s)"
    (is "goodX pun _ _ ?t")
proof -
  let ?rs = "di_res (heap_inst s i)"
  let ?f = "\<lambda>r. map attached_pair (res_vals (heap_res s r))"
  have "concat (map ?f (removeAt k ?rs)) = concat (map ?f ?rs)"
    using emp by (subst (2) removeAt_split[OF k]) (simp add: removeAt_def)
  then have "i \<notin> Y \<Longrightarrow> snapOk ?t i"
    using g by (simp add: goodX_def snapOk_def getResolverAttachedValsLocked_def)
  then show ?thesis using g2 by (cases "i \<in> Y") (auto simp: insert_absorb intro: goodX_dropY)
qed

subsection \<open>Idle and exited flags of a resolver\<close>

lemma goodX_updRes:
  assumes g: "goodX pun X Y s" and f: "res_di x = res_di (heap_res s r)"
    "res_vals x = res_vals (heap_res s r)"
    "pun \<and> res_exited x \<longrightarrow> res_idle x"
  shows "goodX pun (insert (res_di (heap_res s r)) X) Y (s\<lparr>heap_res := (heap_res s)(r := x)\<rparr>)" (is "goodX pun _ _ ?s")
proof -
  have w: "\<And>q. weakFirst ?s q = weakFirst s q" by (rule weakFirst_cong) simp
  have c: "\<And>j. countValuesLocked ?s j = countValuesLocked s j" by (rule count_cong) (use f in auto)
  have n: "j \<noteq> res_di (heap_res s r)
      \<Longrightarrow> countRunningResolversLocked ?s j = countRunningResolversLocked s j" for j
    by (rule running_cong) (use goodX_resD[OF g] in auto)
  have a: "\<And>j. getResolverAttachedValsLocked ?s j = getResolverAttachedValsLocked s j"
    by (rule attached_cong) (use f in auto)
  have "exitedOk pun ?s" using g f(3) by (auto simp: goodX_def exitedOk_def)
  moreover have "ptrOk ?s" using g f(1) by (auto simp: goodX_def ptrOk_def)
  moreover have "instOk ?s j" for j
    using g f(1) by (auto simp: goodX_def instOk_def refsOk_def resOk_def capOk_def queueOk_def w c)
  moreover have "idleOk pun ?s j" if "j \<notin> insert (res_di (heap_res s r)) X" for j
    using g that by (simp add: goodX_def idleOk_def n)
  moreover have "snapOk ?s j" if "j \<notin> Y" for j
    using g that by (simp add: goodX_def snapOk_def a)
  ultimately show ?thesis by (simp add: goodX_def)
qed

text \<open>Whether a resolver is counted as running.\<close>

definition running :: "resolver \<Rightarrow> bool" where
  "running x \<longleftrightarrow> \<not> res_idle x \<and> \<not> res_exited x"

lemma goodX_updRes_same:
  assumes g: "goodX pun X Y s" and f: "res_di x = res_di (heap_res s r)"
    "res_vals x = res_vals (heap_res s r)"
    "pun \<and> res_exited x \<longrightarrow> res_idle x"
    and same: "running x = running (heap_res s r) \<or> \<not> pun \<and> running x"
  shows "goodX pun X Y (s\<lparr>heap_res := (heap_res s)(r := x)\<rparr>)" (is "goodX pun _ _ ?s")
proof -
  let ?i = "res_di (heap_res s r)"
  have le: "countRunningResolversLocked s j \<le> countRunningResolversLocked ?s j" for j
    by (rule running_mono) (use same in \<open>auto simp: running_def\<close>)
  have n: "countRunningResolversLocked ?s j = countRunningResolversLocked s j"
    if "running x = running (heap_res s r)" for j
    by (rule running_cong) (use that in \<open>auto simp: running_def\<close>)
  have "idleOk pun ?s ?i" if "idleOk pun s ?i"
  proof (cases "running x = running (heap_res s r)")
    case True
    with that show ?thesis by (simp add: idleOk_def n)
  next
    case False
    then have "\<not> pun" using same by simp
    with that le[of ?i] show ?thesis by (simp add: idleOk_def idleFlag_def)
  qed
  then have "?i \<notin> X \<Longrightarrow> idleOk pun ?s ?i" using g by (simp add: goodX_def)
  then show ?thesis using goodX_updRes[OF g f]
    by (cases "?i \<in> X") (auto simp: insert_absorb intro: goodX_dropX)
qed

subsection \<open>Values\<close>

lemma goodX_updVals:
  assumes g: "goodX pun X Y s" and f: "res_di x = res_di (heap_res s r)"
    "res_idle x = res_idle (heap_res s r)"
    "res_exited x = res_exited (heap_res s r)"
    and cap: "capOk (s\<lparr>heap_res := (heap_res s)(r := x)\<rparr>) (res_di (heap_res s r))"
  shows "goodX pun X (insert (res_di (heap_res s r)) Y) (s\<lparr>heap_res := (heap_res s)(r := x)\<rparr>)" (is "goodX pun _ _ ?s")
proof -
  have w: "\<And>q. weakFirst ?s q = weakFirst s q" by (rule weakFirst_cong) simp
  have n: "\<And>j. countRunningResolversLocked ?s j = countRunningResolversLocked s j"
    by (rule running_cong) (use f in auto)
  have c: "j \<noteq> res_di (heap_res s r) \<Longrightarrow> countValuesLocked ?s j = countValuesLocked s j" for j
    by (rule count_cong) (use goodX_resD[OF g] in auto)
  have a: "j \<noteq> res_di (heap_res s r)
      \<Longrightarrow> getResolverAttachedValsLocked ?s j = getResolverAttachedValsLocked s j" for j
    by (rule attached_cong) (use goodX_resD[OF g] in auto)
  have cap': "capOk ?s j" for j
    using g cap by (cases "j = res_di (heap_res s r)") (auto simp: goodX_def instOk_def capOk_def c)
  show ?thesis using g f cap'
    unfolding goodX_def ptrOk_def exitedOk_def instOk_def refsOk_def resOk_def
      queueOk_def idleOk_def snapOk_def w n
    by (auto simp: a)
qed

lemma countValues_le:
  assumes "\<And>q. length (res_vals (heap_res s' q)) \<le> length (res_vals (heap_res s q))"
    and "di_res (heap_inst s' i) = di_res (heap_inst s i)"
  shows "countValuesLocked s' i \<le> countValuesLocked s i"
  using assms by (simp add: countValuesLocked_def sum_list_mono)

lemma goodX_lessVals:
  assumes g: "goodX pun X Y s" and f: "res_di x = res_di (heap_res s r)"
    "res_idle x = res_idle (heap_res s r)"
    "res_exited x = res_exited (heap_res s r)"
    and len: "length (res_vals x) \<le> length (res_vals (heap_res s r))"
  shows "goodX pun X (insert (res_di (heap_res s r)) Y) (s\<lparr>heap_res := (heap_res s)(r := x)\<rparr>)"
proof (rule goodX_updVals[OF g f])
  have "countValuesLocked (s\<lparr>heap_res := (heap_res s)(r := x)\<rparr>) (res_di (heap_res s r))
      \<le> countValuesLocked s (res_di (heap_res s r))"
    by (rule countValues_le) (use len in auto)
  then show "capOk (s\<lparr>heap_res := (heap_res s)(r := x)\<rparr>) (res_di (heap_res s r))"
    using g by (auto simp: goodX_def instOk_def capOk_def Let_def)
qed

lemma goodX_clearVals:
  assumes g: "goodX pun X Y s" and f: "res_di x = res_di (heap_res s r)"
    "res_idle x = res_idle (heap_res s r)"
    "res_exited x = res_exited (heap_res s r)"
    and emp: "map attached_pair (res_vals x)
        = map attached_pair (res_vals (heap_res s r))"
  shows "goodX pun X Y (s\<lparr>heap_res := (heap_res s)(r := x)\<rparr>)"
  by (subst goodX_cong[where s = s]) (use assms in \<open>auto simp: res_core_def\<close>)

lemma sum_list_update_one:
  "distinct xs \<Longrightarrow> sum_list (map (\<lambda>x. if x = a then f x + c else f x) xs)
     = sum_list (map f xs) + (if a \<in> set xs then c else (0 :: nat))"
  by (induction xs) auto

lemma goodX_addVal:
  assumes g: "goodX pun X Y s"
    and cap: "\<not> (MaxValueCount (di_valueOpts (heap_inst s (res_di (heap_res s r)))) \<noteq> 0
       \<and> int (countValuesLocked s (res_di (heap_res s r)))
           \<ge> MaxValueCount (di_valueOpts (heap_inst s (res_di (heap_res s r))))
       \<and> MaxValueHardCap (di_valueOpts (heap_inst s (res_di (heap_res s r)))))"
  shows "goodX pun X (insert (res_di (heap_res s r)) Y) (updRes r (\<lambda>x. x\<lparr>res_vals := res_vals x @ [v]\<rparr>) s)"
    (is "goodX pun _ _ ?s")
proof (rule goodX_updVals[OF g])
  let ?i = "res_di (heap_res s r)"
  let ?rs = "di_res (heap_inst s ?i)"
  have d: "distinct ?rs" using g by (auto simp: goodX_def instOk_def resOk_def)
  have "countValuesLocked ?s ?i
      = sum_list (map (\<lambda>q. if q = r then length (res_vals (heap_res s q)) + 1
          else length (res_vals (heap_res s q))) ?rs)"
    unfolding countValuesLocked_def by (intro arg_cong[where f = sum_list] map_cong) auto
  also have "\<dots> \<le> countValuesLocked s ?i + 1"
    by (simp add: sum_list_update_one[OF d] countValuesLocked_def)
  finally show "capOk ?s ?i" using cap by (auto simp: capOk_def Let_def)
qed auto

subsection \<open>The lists of the controller\<close>

lemma goodX_lists:
  assumes g: "goodX pun X Y s" and d: "distinct ds" "\<forall>i \<in> set ds. i < next_ptr s"
    and h: "distinct hs" "\<forall>x \<in> set hs. x < next_ptr s"
  shows "goodX pun X Y (s\<lparr>c_dir := ds, c_hnd := hs\<rparr>)" (is "goodX pun X Y ?s")
proof -
  have w: "\<And>q. weakFirst ?s q = weakFirst s q" by (rule weakFirst_cong) simp
  have c: "\<And>j. countValuesLocked ?s j = countValuesLocked s j" by (rule count_cong) auto
  have n: "\<And>j. countRunningResolversLocked ?s j = countRunningResolversLocked s j"
    by (rule running_cong) auto
  have a: "\<And>j. getResolverAttachedValsLocked ?s j = getResolverAttachedValsLocked s j"
    by (rule attached_cong) auto
  show ?thesis using g d h
    unfolding goodX_def ptrOk_def exitedOk_def instOk_def refsOk_def resOk_def capOk_def
      queueOk_def idleOk_def snapOk_def w c n a by simp
qed

lemma goodX_listsD:
  assumes "goodX pun X Y s"
  shows "distinct (c_dir s)" "\<forall>i \<in> set (c_dir s). i < next_ptr s"
    "distinct (c_hnd s)" "\<forall>h \<in> set (c_hnd s). h < next_ptr s"
  using assms by (auto simp: goodX_def ptrOk_def)

lemma goodX_dir:
  "goodX pun X Y s \<Longrightarrow> distinct ds \<Longrightarrow> \<forall>i \<in> set ds. i < next_ptr s \<Longrightarrow> goodX pun X Y (s\<lparr>c_dir := ds\<rparr>)"
  using goodX_lists[of pun X Y s ds "c_hnd s"] goodX_listsD[of pun X Y s] by simp

lemma goodX_hnd:
  "goodX pun X Y s \<Longrightarrow> distinct hs \<Longrightarrow> \<forall>h \<in> set hs. h < next_ptr s \<Longrightarrow> goodX pun X Y (s\<lparr>c_hnd := hs\<rparr>)"
  using goodX_lists[of pun X Y s "c_dir s" hs] goodX_listsD[of pun X Y s] by simp

lemma goodX_newInst:
  assumes g: "goodX pun X Y s" and i: "i = next_ptr s"
    and x: "di_refs x = []" "di_res x = []" "\<not> di_idle x" "\<not> di_ready x" "di_snapshot x = None"
      "di_refCbs x = []" "\<not> di_callingRefCbs x" "\<not> di_stateChangedSkip x"
  shows "goodX pun X Y (s\<lparr>next_ptr := Suc i, heap_inst := (heap_inst s)(i := x)\<rparr>)" (is "goodX pun X Y ?s")
proof -
  have w: "\<And>q. weakFirst ?s q = weakFirst s q" by (rule weakFirst_cong) simp
  have c: "\<And>j. j \<noteq> i \<Longrightarrow> countValuesLocked ?s j = countValuesLocked s j" by (rule count_cong) auto
  have n: "\<And>j. j \<noteq> i \<Longrightarrow> countRunningResolversLocked ?s j = countRunningResolversLocked s j"
    by (rule running_cong) auto
  have a: "\<And>j. j \<noteq> i \<Longrightarrow> getResolverAttachedValsLocked ?s j = getResolverAttachedValsLocked s j"
    by (rule attached_cong) auto
  have other: "j \<noteq> i \<Longrightarrow> instOk ?s j \<and> (j \<notin> X \<longrightarrow> idleOk pun ?s j) \<and> (j \<notin> Y \<longrightarrow> snapOk ?s j)" for j
    using g by (auto simp: goodX_def instOk_def refsOk_def resOk_def capOk_def Let_def queueOk_def
        idleOk_def snapOk_def w c n a less_Suc_eq i[symmetric])
  have new: "instOk ?s i \<and> idleOk pun ?s i \<and> snapOk ?s i"
    using x by (auto simp: instOk_def refsOk_def resOk_def capOk_def Let_def queueOk_def
        idleOk_def snapOk_def weakFirst_def countValuesLocked_def)
  have "ptrOk ?s" "exitedOk pun ?s"
    using g x by (auto simp: goodX_def ptrOk_def exitedOk_def i less_Suc_eq)
  then show ?thesis using other new unfolding goodX_def by metis
qed

section \<open>Writes and the relation between states\<close>

lemma stable_unseen [unseen]:
  "stable s0 (updInst i (di_destroyTimer_update f1) s) = stable s0 s"
  "stable s0 (updInst i (di_rels_update f2) s) = stable s0 s"
  "stable s0 (updInst i (di_idles_update f3) s) = stable s0 s"
  "stable s0 (updInst i (di_stateChanged_update f4) s) = stable s0 s"
  "stable s0 (updInst i (di_valCtr_update f5) s) = stable s0 s"
  "stable s0 (updInst i (di_full_update f6) s) = stable s0 s"
  "stable s0 (updInst i (di_idle_update f7) s) = stable s0 s"
  "stable s0 (updInst i (di_snapshot_update f8) s) = stable s0 s"
  "stable s0 (updInst i (di_refCbs_update f9) s) = stable s0 s"
  "stable s0 (updInst i (di_refs_update f10) s) = stable s0 s"
  "stable s0 (updInst i (di_res_update f11) s) = stable s0 s"
  "stable s0 (updInst i (\<lambda>x. x\<lparr>di_refs := f12 x\<rparr>) s) = stable s0 s"
  "stable s0 (updInst i (\<lambda>x. x\<lparr>di_res := f13 x\<rparr>) s) = stable s0 s"
  "stable s0 (markStateChanged i s) = stable s0 s"
  "stable s0 (populateDirectiveStateSnapshotLocked i s) = stable s0 s"
  by (auto simp: stable_def markStateChanged_def populateDirectiveStateSnapshotLocked_def)

lemma stable_unseen_res [unseen]:
  "stable s0 (updRes r (res_err_update g1) s) = stable s0 s"
  "stable s0 (updRes r (res_ctx_update g2) s) = stable s0 s"
  "stable s0 (updRes r (res_rels_update g3) s) = stable s0 s"
  "stable s0 (updRes r (res_stopped_update g4) s) = stable s0 s"
  "stable s0 (updRes r (res_exitedCh_update g5) s) = stable s0 s"
  "stable s0 (updRes r (res_idle_update g6) s) = stable s0 s"
  "stable s0 (updRes r (res_exited_update g7) s) = stable s0 s"
  "stable s0 (updRes r (res_vals_update g8) s) = stable s0 s"
  by (auto simp: stable_def)

lemma stable_unseen_st [unseen]:
  "stable s0 (s\<lparr>chan_closed := k2\<rparr>) = stable s0 s"
  "stable s0 (s\<lparr>tasks := k3\<rparr>) = stable s0 s"
  "stable s0 (s\<lparr>event_log := k4\<rparr>) = stable s0 s"
  "stable s0 (s\<lparr>c_bcast := k5\<rparr>) = stable s0 s"
  "stable s0 (s\<lparr>c_dirID := k6\<rparr>) = stable s0 s"
  "stable s0 (s\<lparr>c_dir := k7\<rparr>) = stable s0 s"
  "stable s0 (s\<lparr>c_hnd := k8\<rparr>) = stable s0 s"
  by (simp_all add: stable_def)

lemma stable_set:
  "stable s (updRef p (ref_released_update (\<lambda>_. True)) s)"
  "stable s (releaseRefs ps s)"
  "stable s (updInst i (di_released_update (\<lambda>_. True)) s)"
  "stable s (updInst i (di_ready_update (\<lambda>_. True)) s)"
  "stable s (updHnd h (hnd_rel_update (\<lambda>_. True)) s)"
  "stable s (cancelCtx c s)"
  "stable s (cancelResolverCtx r s)"
  "stable s (s\<lparr>next_ptr := Suc (next_ptr s)\<rparr>)"
  by (auto simp: stable_def releaseRefs_def cancelCtx_def cancelResolverCtx_def
      split: list.split option.split)

lemma stable_new:
  "r = next_ptr s \<Longrightarrow> stable s (s\<lparr>next_ptr := Suc r, heap_ref := (heap_ref s)(r := ref)\<rparr>)"
  "r = next_ptr s \<Longrightarrow> stable s (s\<lparr>next_ptr := Suc r, heap_res := (heap_res s)(r := rr)\<rparr>)"
  "h = next_ptr s \<Longrightarrow> stable s (s\<lparr>next_ptr := Suc h, heap_hnd := (heap_hnd s)(h := hh)\<rparr>)"
  by (auto simp: stable_def)

end
