(* ===== verification/Dir_Preserve.thy ===== *)
theory Dir_Preserve
  imports Dir_Invariants
begin

text \<open>
  Every operation of the controller preserves the invariants, whatever user code does meanwhile.
  The interface \<open>callback_env\<close> is what the proofs need of the environment: a callback (and all
  that happens while the mutex is unlocked) started in a good state ends in a good state, and
  changes nothing that is never changed. The lemmas follow the operations, inner ones first.
\<close>

text \<open>A resolver struct as \<^verbatim>\<open>newResolver\<close> makes it: idle, without values.\<close>

definition freshRes :: "iid \<Rightarrow> resolver \<Rightarrow> bool" where
  "freshRes i rr \<longleftrightarrow> res_di rr = i \<and> res_idle rr \<and> res_vals rr = []"

text \<open>An invariant of a loop that may run callbacks.\<close>

lemma forEach_inv:
  assumes "forEach f xs s = Some s'" and "I s"
    and "\<And>x t t'. x \<in> set xs \<Longrightarrow> I t \<Longrightarrow> f x t = Some t' \<Longrightarrow> I t'"
  shows "I s'"
  using assms by (induction xs arbitrary: s) (auto simp: bind_Some_iff)

locale callback_env =
  fixes E :: env and pun :: bool
  assumes run_good: "good pun s \<Longrightarrow> env_run E ev s = Some (out, s') \<Longrightarrow> good pun s' \<and> stable s s'"
    and handle_good: "good pun s \<Longrightarrow> env_handle E h i s = Some (res, s') \<Longrightarrow> good pun s' \<and> stable s s'"
begin

section \<open>Calling user code\<close>

lemma deliver_good: "good pun s \<Longrightarrow> deliver E ev s = Some (out, s') \<Longrightarrow> good pun s' \<and> stable s s'"
  using run_good[of "s\<lparr>event_log := event_log s @ [ev]\<rparr>" ev out s']
  by (simp add: deliver_def unseen) (auto simp: stable_def)

lemma callDirectly_good: "good pun s \<Longrightarrow> callDirectly E f s = Some (res, s') \<Longrightarrow> good pun s' \<and> stable s s'"
  by (auto simp: callDirectly_def bind_Some_iff dest: deliver_good)

lemma callbackEvent_call_good:
  "good pun s \<Longrightarrow> callbackEvent_call E i cb s = Some s' \<Longrightarrow> good pun s' \<and> stable s s'"
  by (cases cb) (auto split: if_splits dest: deliver_good)

lemma callAll_good: "good pun s \<Longrightarrow> callAll E i cbs s = Some s' \<Longrightarrow> good pun s' \<and> stable s s'"
proof (induction cbs arbitrary: s)
  case Nil
  then show ?case by simp
next
  case (Cons cb cbs)
  then obtain t where t: "callbackEvent_call E i cb s = Some t" "callAll E i cbs t = Some s'"
    by (auto simp: opt_simps)
  from callbackEvent_call_good[OF Cons.prems(1) t(1)] have "good pun t" "stable s t" by auto
  with Cons.IH[OF _ t(2)] show ?case using stable_trans by blast
qed

lemma drainCallbacks_good:
  assumes "drainCallbacks E i cbs s = Some s'"
    and "good pun s" and "di_callingRefCbs (heap_inst s i)" and "di_refCbs (heap_inst s i) = []"
  shows "good pun s' \<and> stable s s' \<and> di_refCbs (heap_inst s' i) = []"
proof -
  let ?P = "\<lambda>F i cbs s s'. F = E \<longrightarrow> good pun s \<longrightarrow> di_callingRefCbs (heap_inst s i)
    \<longrightarrow> di_refCbs (heap_inst s i) = [] \<longrightarrow> good pun s' \<and> stable s s' \<and> di_refCbs (heap_inst s' i) = []"
  have "?P E i cbs s s'"
  proof (rule drainCallbacks.raw_induct[of ?P, OF _ assms(1)], intro impI)
    fix rec :: "env \<Rightarrow> iid \<Rightarrow> callback_event list \<Rightarrow> st \<Rightarrow> st option" and F i cbs s y
    assume IH: "\<And>F i cbs s y. rec F i cbs s = Some y \<Longrightarrow> ?P F i cbs s y"
      and step: "(if cbs = [] then Some s else Option.bind (callAll F i cbs s) (\<lambda>s.
        rec F i (di_refCbs (heap_inst s i)) (updInst i (di_refCbs_update (\<lambda>_. [])) s))) = Some y"
      and F: "F = E" and g: "good pun s" "di_callingRefCbs (heap_inst s i)" "di_refCbs (heap_inst s i) = []"
    show "good pun y \<and> stable s y \<and> di_refCbs (heap_inst y i) = []"
    proof (cases "cbs = []")
      case True
      with step g show ?thesis by simp
    next
      case False
      with step F obtain t where t: "callAll E i cbs s = Some t"
        "rec E i (di_refCbs (heap_inst t i)) (updInst i (di_refCbs_update (\<lambda>_. [])) t) = Some y"
        by (auto simp: opt_simps)
      let ?t = "updInst i (di_refCbs_update (\<lambda>_. [])) t"
      have gt: "good pun t" "stable s t" using callAll_good[OF g(1) t(1)] by auto
      have "good pun ?t" using gt by (intro goodX_takeQueue)
      moreover have "di_callingRefCbs (heap_inst ?t i)" using gt(2) g(2) by (simp add: stable_def)
      ultimately have "good pun y \<and> stable ?t y \<and> di_refCbs (heap_inst y i) = []"
        using IH[OF t(2)] by simp
      moreover have "stable s ?t" using gt(2) by (simp add: unseen)
      ultimately show ?thesis using stable_trans by blast
    qed
  qed
  with assms show ?thesis by simp
qed

lemma callCallbackEventsLocked_good:
  assumes g: "good pun s" and i: "i < next_ptr s" and c: "callCallbackEventsLocked E i cbs s = Some s'"
  shows "good pun s' \<and> stable s s'"
proof -
  let ?q = "di_refCbs (heap_inst s i) @ cbs"
  let ?s = "updInst i (\<lambda>x. x\<lparr>di_callingRefCbs := True, di_refCbs := []\<rparr>) s"
  show ?thesis
  proof (cases "cbs = [] \<and> di_refCbs (heap_inst s i) = []")
    case True
    with c g show ?thesis by (simp add: callCallbackEventsLocked_def)
  next
    case ne: False
    show ?thesis
    proof (cases "di_callingRefCbs (heap_inst s i)")
      case True
      with c ne have "s' = updInst i (di_refCbs_update (\<lambda>_. ?q)) s"
        unfolding callCallbackEventsLocked_def Let_def if_not_P[OF ne] by simp
      with g True show ?thesis by (simp add: unseen goodX_enqueue)
    next
      case False
      with c ne obtain t where t: "drainCallbacks E i ?q ?s = Some t"
          "s' = updInst i (di_callingRefCbs_update (\<lambda>_. False)) t"
        unfolding callCallbackEventsLocked_def Let_def if_not_P[OF ne] by (auto simp: bind_Some_iff)
      have g': "good pun t" "stable ?s t" "di_refCbs (heap_inst t i) = []"
        using drainCallbacks_good[OF t(1) goodX_startCalling[OF g i]] by auto
      have "good pun s'" using g' by (simp add: t(2) goodX_stopCalling)
      moreover have "stable s s'" using g'(2) False i by (auto simp: stable_def t(2))
      ultimately show ?thesis ..
    qed
  qed
qed

lemmas callCallbacksLocked_good =
  callCallbackEventsLocked_good[folded callCallbacksLocked_def]

section \<open>The deferred check\<close>

lemma maybeCallStateChanged_good:
  assumes g: "good pun s" and i: "i < next_ptr s" and c: "maybeCallStateChanged E i s = Some s'"
  shows "good pun s' \<and> stable s s'"
proof (cases "di_stateChanged (heap_inst s i) = [] \<or> di_snapshot (heap_inst s i) \<noteq> None")
  case True
  with c g show ?thesis by (auto simp: maybeCallStateChanged_def)
next
  case False
  let ?s = "populateDirectiveStateSnapshotLocked i s"
  from False c obtain cbs where cbs: "callCallbacksLocked E i cbs ?s = Some s'"
    by (auto simp: maybeCallStateChanged_def Let_def split: if_splits)
  have "good pun ?s" using goodX_populate[OF g, of i] by simp
  moreover have st: "stable s ?s" by (simp add: unseen)
  ultimately have "good pun s' \<and> stable ?s s'"
    using callCallbacksLocked_good[OF _ _ cbs] stable_next[OF st i] by simp
  with st show ?thesis using stable_trans by blast
qed

text \<open>
  A function body between \<^verbatim>\<open>defer i.deferCheckStateChanged()()\<close> and its return: what holds of the
  body holds of the function.
\<close>

lemma deferred_good:
  assumes d: "deferCheckStateChanged i s = (armed, s1)" and i: "i < next_ptr s"
    and body: "good pun s2 \<and> stable s1 s2" and r: "runDeferred E i armed s2 = Some s3"
  shows "good pun s3 \<and> stable s s3"
proof (cases armed)
  case False
  with d r have "s1 = s" "s3 = s2" by (auto simp: deferCheckStateChanged_def runDeferred_def split: if_splits)
  with body show ?thesis by simp
next
  case True
  then have s1: "\<not> di_stateChangedSkip (heap_inst s i)"
      "s1 = updInst i (di_stateChangedSkip_update (\<lambda>_. True)) s"
    using d by (auto simp: deferCheckStateChanged_def split: if_splits)
  from True r obtain t where t: "maybeCallStateChanged E i s2 = Some t"
    "s3 = updInst i (di_stateChangedSkip_update (\<lambda>_. False)) t"
    by (auto simp: runDeferred_def opt_simps)
  have i2: "i < next_ptr s2" using body s1 i by (auto simp: stable_def)
  have gt: "good pun t" "stable s2 t" using maybeCallStateChanged_good[OF _ i2 t(1)] body by auto
  then have "good pun s3" using goodX_skip[of pun "{}" "{}" t i] stable_next[OF gt(2) i2] by (simp add: t(2))
  moreover have st: "stable s1 t" using body gt stable_trans by blast
  have "stable s s3" using st s1 i by (auto simp: t(2) stable_def)
  ultimately show ?thesis by simp
qed

lemma deferCheckStateChanged_good:
  assumes "goodX pun X Y s" and "i < next_ptr s" and "deferCheckStateChanged i s = (armed, s1)"
  shows "goodX pun X Y s1" "next_ptr s1 = next_ptr s"
  using assms by (auto simp: deferCheckStateChanged_def goodX_skip split: if_splits)

section \<open>Idle state and resolver contexts\<close>

lemma handleIdleStateLocked_good:
  assumes g: "goodX pun {i} Y s" and Y: "Y \<subseteq> {i}" and i: "i < next_ptr s"
    and c: "handleIdleStateLocked E i s = Some s'"
  shows "goodX pun {} Y s' \<and> stable s s' \<and> (good pun s' \<or> s' = s)"
proof -
  let ?idle = "countRunningResolversLocked s i = 0 \<and> di_ready (heap_inst s i)"
  show ?thesis
  proof (cases "di_idle (heap_inst s i) = ?idle")
    case True
    with c g show ?thesis using goodX_sameIdle[OF g, of i]
      by (simp add: handleIdleStateLocked_def)
  next
    case False
    obtain armed s1 where d: "deferCheckStateChanged i s = (armed, s1)" by fastforce
    let ?s2 = "markStateChanged i (updInst i (di_idle_update (\<lambda>_. ?idle)) s1)"
    from c False d obtain cbs t where
      t: "callCallbacksLocked E i cbs ?s2 = Some t \<or> t = ?s2" "runDeferred E i armed t = Some s'"
      by (auto simp: handleIdleStateLocked_def Let_def bind_Some_iff split: if_splits)
    have g1: "goodX pun {i} Y s1" "next_ptr s1 = next_ptr s"
      using deferCheckStateChanged_good[OF g i d] by auto
    have same: "countRunningResolversLocked s1 i = countRunningResolversLocked s i"
        "di_ready (heap_inst s1 i) = di_ready (heap_inst s i)"
      using d by (auto simp: deferCheckStateChanged_def countRunningResolversLocked_def split: if_splits)
    have "goodX pun ({i} - {i}) (Y - {i}) ?s2"
      using goodX_setIdle[OF g1(1), of i] unfolding same .
    moreover have "{i} - {i} = {}" "Y - {i} = {}" using Y by auto
    ultimately have g2: "good pun ?s2" by (simp only:)
    have st2: "stable s1 ?s2" by (simp add: unseen)
    have "i < next_ptr ?s2" using i g1(2) by (simp add: markStateChanged_def)
    then have "good pun t \<and> stable s1 t"
      using t(1) callCallbacksLocked_good[OF g2] g2 st2 stable_trans by blast
    then have "good pun s' \<and> stable s s'" using deferred_good[OF d i _ t(2)] by blast
    then show ?thesis using good_goodX by blast
  qed
qed

lemma setIdleLocked_good:
  assumes g: "goodX pun {} Y s" and Y: "Y \<subseteq> {res_di (heap_res s r)}"
    and ex: "idle \<or> \<not> pun \<or> \<not> res_exited (heap_res s r)"
    and c: "setIdleLocked E r idle s = Some s'"
  shows "goodX pun {} Y s' \<and> stable s s'"
proof (cases "res_idle (heap_res s r) = idle")
  case True
  with c g show ?thesis by (simp add: setIdleLocked_def)
next
  case False
  let ?s = "updRes r (res_idle_update (\<lambda>_. idle)) s"
  let ?i = "res_di (heap_res s r)"
  have g1: "goodX pun {?i} Y ?s" by (rule goodX_updRes[OF g]) (use ex in auto)
  have st: "stable s ?s" by (simp add: unseen)
  have i: "?i < next_ptr ?s" using goodX_res_di[OF g] by simp
  from c False have "handleIdleStateLocked E ?i ?s = Some s'" by (simp add: setIdleLocked_def Let_def)
  then have "goodX pun {} Y s' \<and> stable ?s s'" using handleIdleStateLocked_good[OF g1 Y i] by simp
  with st show ?thesis using stable_trans by blast
qed

text \<open>Stopping a resolver. Only a running one may be in a list that is out of date.\<close>

lemma updateContextLocked_stop_good:
  assumes g: "goodX pun X Y s" and Y: "Y \<subseteq> {res_di (heap_res s r)}" and X: "X \<subseteq> {res_di (heap_res s r)}"
    and idle: "res_idle (heap_res s r) \<Longrightarrow> X = {}"
    and c: "updateContextLocked E r False s = Some s'"
  shows "goodX pun {} Y s' \<and> stable s s'
    \<and> (good pun s' \<or> res_vals (heap_res s' r) = res_vals (heap_res s r))"
proof -
  let ?s = "cancelResolverCtx r s"
  let ?x = "(heap_res ?s r)\<lparr>res_exited := True\<rparr>"
  let ?t = "?s\<lparr>heap_res := (heap_res ?s)(r := ?x)\<rparr>"
  let ?i = "res_di (heap_res s r)"
  have eq: "res_di (heap_res ?s r) = ?i" "res_idle (heap_res ?s r) = res_idle (heap_res s r)"
      "res_vals (heap_res ?s r) = res_vals (heap_res s r)"
    by (auto simp: cancelResolverCtx_def cancelCtx_def split: option.split list.split)
  have g1: "goodX pun X Y ?s" using g by (simp add: unseen)
  have st1: "stable s ?s" by (rule stable_set)
  have i: "?i < next_ptr ?s" using goodX_res_di[OF g1, of r] eq by simp
  from c have c': "setIdleLocked E r True ?t = Some s'"
    by (simp add: updateContextLocked_def Let_def)
  show ?thesis
  proof (cases "res_idle (heap_res s r)")
    case True
    then have "goodX pun X Y ?t"
      by (intro goodX_updRes_same[OF g1]) (auto simp: eq running_def)
    moreover have "s' = ?t" using c' True eq by (simp add: setIdleLocked_def)
    moreover have "stable s ?t" using st1 by (simp add: unseen)
    ultimately show ?thesis using idle[OF True] by (simp add: eq)
  next
    case False
    let ?u = "?s\<lparr>heap_res := (heap_res ?s)(r := ?x\<lparr>res_idle := True\<rparr>)\<rparr>"
    have "goodX pun (insert ?i X) Y ?u"
      using goodX_updRes[OF g1, of "?x\<lparr>res_idle := True\<rparr>" r] eq by simp
    then have gu: "goodX pun {?i} Y ?u" using X by (auto elim: goodX_mono)
    have "updRes r (res_idle_update (\<lambda>_. True)) ?t = ?u" by simp
    with c' False eq have c'': "handleIdleStateLocked E ?i ?u = Some s'"
      by (simp add: setIdleLocked_def Let_def)
    have "stable s ?u" using st1 by (auto simp: stable_def eq)
    moreover have "goodX pun {} Y s' \<and> stable ?u s' \<and> (good pun s' \<or> s' = ?u)"
      by (rule handleIdleStateLocked_good[OF gu Y _ c'']) (use i in simp)
    moreover have "res_vals (heap_res ?u r) = res_vals (heap_res s r)" by (simp add: eq)
    ultimately have "goodX pun {} Y s'" "stable s s'"
        "good pun s' \<or> res_vals (heap_res s' r) = res_vals (heap_res s r)"
      using stable_trans by blast+
    then show ?thesis by blast
  qed
qed

lemma handleIdle_good:
  assumes "goodX pun {i} {} s" and "i < next_ptr s" and "handleIdleStateLocked E i s = Some s'"
  shows "good pun s' \<and> stable s s'"
  using handleIdleStateLocked_good[OF assms(1) _ assms(2,3)] by simp

lemma updateContextLocked_start_good:
  assumes g: "good pun s" and c: "updateContextLocked E r True s = Some s'"
  shows "good pun s' \<and> stable s s'"
proof -
  let ?s1 = "cancelResolverCtx r s"
  let ?n = "next_ptr ?s1"
  let ?s2 = "?s1\<lparr>next_ptr := Suc ?n\<rparr>"
  let ?x = "(heap_res ?s2 r)\<lparr>res_exitedCh := Some ?n, res_err := None, res_exited := False,
    res_stopped := False\<rparr>"
  let ?s3 = "?s2\<lparr>heap_res := (heap_res ?s2)(r := ?x)\<rparr>"
  show ?thesis
  proof (cases "s' = s")
    case True
    with g show ?thesis by simp
  next
    case False
    with c obtain t c' w where t: "setIdleLocked E r False ?s3 = Some t"
      and s': "s' = (let t1 = t\<lparr>next_ptr := Suc (next_ptr t)\<rparr>;
                         t2 = updRes r (res_ctx_update (\<lambda>_. Some c')) t1
                     in t2\<lparr>tasks := tasks t2 @ [w]\<rparr>)"
      by (auto simp: updateContextLocked_def withCancel_def Let_def bind_Some_iff split: if_splits)
    have g1: "good pun ?s1" using g by (simp add: unseen)
    have g2: "good pun ?s2" by (rule goodX_next[OF g1])
    have g3: "good pun ?s3"
      by (rule goodX_updRes_same[OF g2]) (use goodX_exited[OF g2] in \<open>auto simp: running_def\<close>)
    have st1: "stable s ?s1" by (rule stable_set)
    have st2: "stable ?s1 ?s2" by (rule stable_set)
    have st3: "stable ?s2 ?s3" by (auto simp: stable_def)
    have gt: "good pun t \<and> stable ?s3 t"
      by (rule setIdleLocked_good[OF g3 _ _ t]) auto
    have st4: "stable t (t\<lparr>next_ptr := Suc (next_ptr t)\<rparr>)" by (rule stable_set)
    let ?t1 = "t\<lparr>next_ptr := Suc (next_ptr t)\<rparr>"
    have "good pun (updRes r (res_ctx_update (\<lambda>_. Some c')) ?t1)"
      unfolding goodX_unseen_res by (rule goodX_next) (use gt in simp)
    then have "good pun s'" unfolding s' Let_def goodX_unseen_st .
    moreover have "stable t (updRes r (res_ctx_update (\<lambda>_. Some c')) ?t1)"
      unfolding stable_unseen_res by (rule st4)
    then have "stable t s'" unfolding s' Let_def stable_unseen_st .
    ultimately show ?thesis using st1 st2 st3 gt stable_trans by meson
  qed
qed

section \<open>The value cap\<close>

lemma handleFullStep_good:
  assumes g: "goodX pun {i} {} s" and r: "res_di (heap_res s r) = i"
    and c: "handleFullStep E r s = Some s'"
  shows "goodX pun {i} {} s' \<and> stable s s'"
proof -
  show ?thesis
  proof (cases "res_idle (heap_res s r)")
    case True
    with c g show ?thesis by (simp add: handleFullStep_def)
  next
    case run: False
    show ?thesis
    proof (cases "\<not> res_exited (heap_res s r) \<and> res_vals (heap_res s r) = []")
      case True
      let ?s = "updRes r (res_stopped_update (\<lambda>_. True)) s"
      have stop: "updateContextLocked E r False ?s = Some s'"
        using c run True by (simp add: handleFullStep_def)
      have g1: "goodX pun {i} {} ?s" unfolding goodX_unseen_res by (rule g)
      have "good pun s' \<and> stable ?s s'"
        using updateContextLocked_stop_good[OF g1 _ _ _ stop] run r by simp
      moreover have "stable s ?s" by (simp add: unseen)
      ultimately show ?thesis using good_goodX stable_trans by blast
    next
      case False
      with c run have s': "s' = updRes r (res_idle_update (\<lambda>_. True)) s"
        unfolding handleFullStep_def if_not_P[OF run] if_not_P[OF False] by simp
      have "goodX pun (insert (res_di (heap_res s r)) {i}) {} s'"
        unfolding s' by (rule goodX_updRes[OF g]) auto
      then show ?thesis by (simp add: r s' unseen)
    qed
  qed
qed

lemma handleFullLocked_good:
  assumes g: "good pun s" and i: "i < next_ptr s" and c: "handleFullLocked E i s = Some s'"
  shows "good pun s' \<and> stable s s'"
proof (cases "di_full (heap_inst s i)")
  case True
  with c g show ?thesis by (simp add: handleFullLocked_def)
next
  case False
  let ?s = "updInst i (di_full_update (\<lambda>_. True)) s"
  from False c obtain t where t: "forEach (handleFullStep E) (di_res (heap_inst s i)) ?s = Some t"
      "handleIdleStateLocked E i t = Some s'"
    by (auto simp: handleFullLocked_def bind_Some_iff)
  have "goodX pun {i} {} ?s \<and> stable s ?s" using g good_goodX by (auto simp: unseen)
  then have gt: "goodX pun {i} {} t \<and> stable s t"
  proof (rule forEach_inv[where I = "\<lambda>t. goodX pun {i} {} t \<and> stable s t", OF t(1)])
    fix r u u'
    assume r: "r \<in> set (di_res (heap_inst s i))" and u: "goodX pun {i} {} u \<and> stable s u"
      and st: "handleFullStep E r u = Some u'"
    have "res_di (heap_res u r) = i" using goodX_resD[OF g r] u stable_res_di by metis
    with handleFullStep_good[OF _ _ st] u show "goodX pun {i} {} u' \<and> stable s u'"
      using stable_trans by blast
  qed
  then have "good pun s' \<and> stable t s'" using handleIdle_good[OF _ _ t(2)] stable_next i by blast
  with gt show ?thesis using stable_trans by blast
qed

lemma handleNotFullLocked_good:
  assumes g: "good pun s" and i: "i < next_ptr s" and c: "handleNotFullLocked E i s = Some s'"
  shows "good pun s' \<and> stable s s'"
proof (cases "di_full (heap_inst s i)")
  case False
  with c g show ?thesis by (simp add: handleNotFullLocked_def)
next
  case True
  let ?s = "updInst i (di_full_update (\<lambda>_. False)) s"
  from True c have t: "forEach (handleNotFullStep E) (di_res (heap_inst s i)) ?s = Some s'"
    by (auto simp: handleNotFullLocked_def)
  have "good pun ?s \<and> stable s ?s" using g by (auto simp: unseen)
  then show ?thesis
  proof (rule forEach_inv[where I = "\<lambda>t. good pun t \<and> stable s t", OF t])
    fix r u u'
    assume u: "good pun u \<and> stable s u" and st: "handleNotFullStep E r u = Some u'"
    have "good pun u' \<and> stable u u'"
      using st u updateContextLocked_start_good by (auto simp: handleNotFullStep_def split: if_splits)
    with u show "good pun u' \<and> stable s u'" using stable_trans by blast
  qed
qed

lemma checkFullLocked_good:
  assumes "good pun s" and "i < next_ptr s" and c: "checkFullLocked E i s = Some s'"
  shows "good pun s' \<and> stable s s'"
proof -
  consider "s' = s" | "handleFullLocked E i s = Some s'" | "handleNotFullLocked E i s = Some s'"
    using c unfolding checkFullLocked_def Let_def by (metis option.inject)
  then show ?thesis
    using assms(1,2) handleFullLocked_good handleNotFullLocked_good stable_refl by cases blast+
qed

section \<open>Values\<close>

lemma addValueLocked_good:
  assumes g: "good pun s" and c: "addValueLocked E r val s = Some (res, s')"
  shows "good pun s' \<and> stable s s'"
proof -
  let ?i = "res_di (heap_res s r)"
  have i: "?i < next_ptr s" using goodX_res_di[OF g] .
  obtain armed s1 where d: "deferCheckStateChanged ?i s = (armed, s1)" by fastforce
  let ?opts = "di_valueOpts (heap_inst s1 ?i)"
  let ?full = "MaxValueCount ?opts \<noteq> 0 \<and> int (countValuesLocked s1 ?i) \<ge> MaxValueCount ?opts
     \<and> MaxValueHardCap ?opts"
  have g1: "good pun s1" and n1: "next_ptr s1 = next_ptr s"
    using deferCheckStateChanged_good[OF g i d] by auto
  have ri: "res_di (heap_res s1 r) = ?i"
    using d by (auto simp: deferCheckStateChanged_def split: if_splits)
  show ?thesis
  proof (cases ?full)
    case True
    then have "runDeferred E ?i armed s1 = Some s'"
      using c d unfolding addValueLocked_def Let_def by (auto simp: bind_Some_iff)
    with deferred_good[OF d i] g1 show ?thesis by blast
  next
    case False
    define vid where "vid = di_valCtr (heap_inst s1 ?i) + 1"
    let ?s2 = "updInst ?i (di_valCtr_update (\<lambda>_. vid)) s1"
    let ?v = "\<lparr>v_id = vid, v_val = val, v_removeCallbackCtr = 0, v_removeCallbacks = []\<rparr>"
    let ?s3 = "updRes r (\<lambda>x. x\<lparr>res_vals := res_vals x @ [?v]\<rparr>) ?s2"
    let ?s4 = "markStateChanged ?i ?s3"
    from False c d obtain t u cbs where
      t: "callCallbacksLocked E ?i cbs ?s4 = Some t" "checkFullLocked E ?i t = Some u"
        "runDeferred E ?i armed u = Some s'"
      unfolding addValueLocked_def Let_def prod.case vid_def by (auto simp: bind_Some_iff)
    have g2: "good pun ?s2" using g1 by (simp add: unseen)
    have ri2: "res_di (heap_res ?s2 r) = ?i" using ri by simp
    have cnt: "countValuesLocked ?s2 ?i = countValuesLocked s1 ?i" by (rule count_cong) auto
    have "goodX pun {} (insert ?i {}) ?s3"
      using goodX_addVal[OF g2, of r ?v] False unfolding ri2 cnt by simp
    from goodX_markStateChanged[OF this, of ?i] have g4: "good pun ?s4" by simp
    have st: "stable s1 ?s4" by (auto simp: unseen stable_def markStateChanged_def)
    have i4: "?i < next_ptr ?s4" using i n1 by (simp add: markStateChanged_def)
    have gt: "good pun t" "stable s1 t"
      using callCallbacksLocked_good[OF g4 i4 t(1)] st stable_trans by blast+
    have "?i < next_ptr t" using stable_next[OF gt(2)] i n1 by simp
    then have "good pun u \<and> stable s1 u"
      using checkFullLocked_good[OF gt(1) _ t(2)] gt(2) stable_trans by blast
    then show ?thesis using deferred_good[OF d i _ t(3)] by blast
  qed
qed

lemma onValuesRemovedLocked_good:
  assumes g: "goodX pun {} Y s" and Y: "Y \<subseteq> {i}" and i: "i < next_ptr s"
    and vals: "vals = [] \<Longrightarrow> Y = {}"
    and c: "onValuesRemovedLocked E i vals s = Some s'"
  shows "good pun s' \<and> stable s s'"
proof (cases "vals = []")
  case True
  with c g vals show ?thesis by (simp add: onValuesRemovedLocked_def)
next
  case False
  obtain armed s1 where d: "deferCheckStateChanged i s = (armed, s1)" by fastforce
  let ?s2 = "markStateChanged i s1"
  from False c d obtain cbs t u where
    t: "callCallbackEventsLocked E i cbs ?s2 = Some t" "checkFullLocked E i t = Some u"
      "runDeferred E i armed u = Some s'"
    unfolding onValuesRemovedLocked_def Let_def by (auto simp: bind_Some_iff)
  have g1: "goodX pun {} Y s1" and n1: "next_ptr s1 = next_ptr s"
    using deferCheckStateChanged_good[OF g i d] by auto
  have "Y - {i} = {}" using Y by auto
  with goodX_markStateChanged[OF g1, of i] have g2: "good pun ?s2" by (simp only:)
  have st: "stable s1 ?s2" by (simp add: unseen)
  have i2: "i < next_ptr ?s2" using i n1 by (simp add: markStateChanged_def)
  have gt: "good pun t" "stable s1 t"
    using callCallbackEventsLocked_good[OF g2 i2 t(1)] st stable_trans by blast+
  have "i < next_ptr t" using stable_next[OF gt(2)] i n1 by simp
  then have "good pun u \<and> stable s1 u"
    using checkFullLocked_good[OF gt(1) _ t(2)] gt(2) stable_trans by blast
  then show ?thesis using deferred_good[OF d i _ t(3)] by blast
qed

lemma removeValueLocked_good:
  assumes g: "good pun s" and c: "removeValueLocked E r vid s = Some (res, s')"
  shows "good pun s' \<and> stable s s'"
proof (cases "indexOf (\<lambda>v. v_id v = vid) (res_vals (heap_res s r))")
  case None
  with c g show ?thesis by (simp add: removeValueLocked_def)
next
  case (Some k)
  let ?i = "res_di (heap_res s r)"
  let ?x = "(heap_res s r)\<lparr>res_vals := removeAt k (res_vals (heap_res s r))\<rparr>"
  let ?s = "s\<lparr>heap_res := (heap_res s)(r := ?x)\<rparr>"
  have k: "k < length (res_vals (heap_res s r))" using indexOf_SomeD[OF Some] by simp
  from Some c have t: "onValuesRemovedLocked E ?i [res_vals (heap_res s r) ! k] ?s = Some s'"
    unfolding removeValueLocked_def Let_def by (auto simp: bind_Some_iff)
  have g1: "goodX pun {} {?i} ?s" by (rule goodX_lessVals[OF g]) (use k in auto)
  have st: "stable s ?s" by (auto simp: stable_def)
  have "good pun s' \<and> stable ?s s'"
    by (rule onValuesRemovedLocked_good[OF g1 _ _ _ t]) (use goodX_res_di[OF g] in auto)
  with st show ?thesis using stable_trans by blast
qed

section \<open>Resolvers\<close>

lemma removeResolverLocked_good:
  assumes g: "good pun s" and i: "i < next_ptr s" and k: "k < length (di_res (heap_inst s i))"
    and r: "di_res (heap_inst s i) ! k = r" and c: "removeResolverLocked E i (Some k) r s = Some s'"
  shows "good pun s' \<and> stable s s'"
proof -
  let ?s1 = "updInst i (\<lambda>x. x\<lparr>di_res := removeAt k (di_res x)\<rparr>) s"
  from c obtain t u cbs v where
    t: "updateContextLocked E r False ?s1 = Some t"
      "onValuesRemovedLocked E i (res_vals (heap_res t r)) (updRes r (res_vals_update (\<lambda>_. [])) t) = Some u"
      "callCallbacksLocked E i cbs (updRes r (res_rels_update (\<lambda>_. [])) u) = Some v"
      "handleIdleStateLocked E i v = Some s'"
    unfolding removeResolverLocked_def Let_def by (auto simp: bind_Some_iff)
  have ri: "res_di (heap_res s r) = i" and rn: "r < next_ptr s"
    using goodX_resD[OF g nth_mem[OF k]] r by auto
  define Y where "Y = (if res_vals (heap_res s r) = [] then {} else {i})"
  define X where "X = (if res_idle (heap_res s r) then {} else {i})"
  have gX: "goodX pun X {i} ?s1"
    using goodX_removeRes[OF g k] goodX_removeIdleRes[OF g k] r by (auto simp: X_def)
  have g1: "goodX pun X Y ?s1"
    using gX goodX_removeEmptyRes[OF g k, of X] r by (auto simp: Y_def)
  have st1: "stable s ?s1" by (simp add: unseen)
  have gt: "goodX pun {} Y t \<and> stable ?s1 t \<and> (good pun t \<or> res_vals (heap_res t r) = res_vals (heap_res ?s1 r))"
    by (rule updateContextLocked_stop_good[OF g1 _ _ _ t(1)]) (auto simp: X_def Y_def ri)
  have st2: "stable s t" using gt st1 stable_trans by blast
  have rit: "res_di (heap_res t r) = i" using stable_res_di[OF st2 rn] ri by simp
  let ?t = "updRes r (res_vals_update (\<lambda>_. [])) t"
  have stt: "stable t ?t" by (simp add: unseen)
  have gt2: "goodX pun {} (if res_vals (heap_res t r) = [] then {} else {i}) ?t"
  proof (cases "res_vals (heap_res t r) = []")
    case True
    then have "good pun t" using gt by (auto simp: Y_def split: if_splits)
    then have "good pun ?t" by (rule goodX_clearVals) (use True in auto)
    with True show ?thesis by simp
  next
    case False
    have "goodX pun {} Y t" "Y \<subseteq> {i}" using gt by (auto simp: Y_def)
    then have gy: "goodX pun {} {i} t" by (rule goodX_mono[OF _ subset_refl])
    have "goodX pun {} (insert (res_di (heap_res t r)) {i}) ?t"
      by (rule goodX_lessVals[OF gy]) auto
    with False rit show ?thesis by simp
  qed
  have "i < next_ptr ?t" using stable_next[OF st2 i] by simp
  then have gu: "good pun u \<and> stable ?t u"
    by (intro onValuesRemovedLocked_good[OF gt2 _ _ _ t(2)]) auto
  let ?u = "updRes r (res_rels_update (\<lambda>_. [])) u"
  have gu2: "good pun ?u" "stable u ?u" using gu by (simp_all add: unseen)
  have st3: "stable s ?u" using st2 stt gu gu2(2) stable_trans by meson
  have gv: "good pun v \<and> stable ?u v"
    using callCallbacksLocked_good[OF gu2(1) stable_next[OF st3 i] t(3)] .
  have st4: "stable s v" using st3 gv stable_trans by blast
  have "good pun s' \<and> stable v s'"
    using handleIdle_good[OF good_goodX stable_next[OF st4 i] t(4)] gv by blast
  with st4 show ?thesis using stable_trans by blast
qed

lemma removeResolverLocked_find_good:
  assumes g: "good pun s" and i: "i < next_ptr s" and c: "removeResolverLocked E i None r s = Some s'"
  shows "good pun s' \<and> stable s s'"
proof (cases "indexOf (\<lambda>x. x = r) (di_res (heap_inst s i))")
  case None
  with c g show ?thesis by (simp add: removeResolverLocked_def)
next
  case (Some k)
  then have "removeResolverLocked E i (Some k) r s = Some s'"
    using c by (simp add: removeResolverLocked_def)
  then show ?thesis using removeResolverLocked_good[OF g i] indexOf_SomeD[OF Some] by blast
qed

lemma attachStartResolverLocked_good:
  assumes g: "good pun s" and i: "i < next_ptr s"
    and rr: "res_di rr = i" "res_idle rr" "res_vals rr = []"
    and c: "attachStartResolverLocked E i rr s = Some (r, s')"
  shows "good pun s' \<and> stable s s'"
proof -
  let ?r = "next_ptr s"
  let ?s1 = "s\<lparr>next_ptr := Suc ?r, heap_res := (heap_res s)(?r := rr)\<rparr>"
  let ?s2 = "updInst i (\<lambda>x. x\<lparr>di_res := di_res x @ [?r]\<rparr>) ?s1"
  have g2: "good pun ?s2" using goodX_attach[OF g _ i rr, of ?r] by simp
  have "stable s ?s1" by (rule stable_new) simp
  then have st2: "stable s ?s2" unfolding stable_unseen .
  have r2: "res_idle (heap_res ?s2 ?r)" "res_di (heap_res ?s2 ?r) = i" using rr by simp_all
  show ?thesis
  proof (cases "di_full (heap_inst s i)")
    case True
    let ?s3 = "updRes ?r (res_idle_update (\<lambda>_. True)) ?s2"
    have u: "updateContextLocked E ?r False ?s3 = Some s'"
      using c True by (auto simp: attachStartResolverLocked_def Let_def bind_Some_iff)
    have eq: "?s3 = ?s2" using rr(2) by (intro st.equality) (auto simp: fun_eq_iff)
    have "good pun s' \<and> stable ?s2 s'"
      using updateContextLocked_stop_good[OF g2 _ _ _ u[unfolded eq]] by auto
    with st2 show ?thesis using stable_trans by blast
  next
    case False
    then obtain t where t: "updateContextLocked E ?r True ?s2 = Some t"
        "handleIdleStateLocked E i t = Some s'"
      using c by (auto simp: attachStartResolverLocked_def Let_def bind_Some_iff)
    have gt: "good pun t" "stable s t"
      using updateContextLocked_start_good[OF g2 t(1)] st2 stable_trans by blast+
    have "good pun s' \<and> stable t s'"
      using handleIdle_good[OF good_goodX stable_next[OF gt(2) i] t(2)] gt(1) by blast
    with gt(2) show ?thesis using stable_trans by blast
  qed
qed

lemma newCallback_good:
  assumes "good pun s" and "newCallback f s = (cb, s1)"
  shows "good pun s1 \<and> stable s s1"
  using assms goodX_next[of pun "{}" "{}" s] stable_set(8)[of s] by (auto simp: newCallback_def)

lemma attachStartSubResolverLocked_good:
  assumes g: "good pun s" and i: "i < next_ptr s"
    and c: "attachStartSubResolverLocked E i r sub cb s = Some (res, s')"
  shows "good pun s' \<and> stable s s'"
proof (cases "\<not> List.member (di_res (heap_inst s i)) r
     \<or> hnd_rel (heap_hnd s (res_hnd (heap_res s r))) \<or> di_released (heap_inst s i)")
  case True
  with c g show ?thesis unfolding attachStartSubResolverLocked_def by simp
next
  case False
  define rr s1 where "rr = (case cb of None \<Rightarrow> newResolver i (res_hnd (heap_res s r)) sub
      | Some f \<Rightarrow> (newResolver i (res_hnd (heap_res s r)) sub)\<lparr>res_rels := [fst (newCallback (Some f) s)]\<rparr>)"
    and "s1 = (case cb of None \<Rightarrow> s | Some f \<Rightarrow> snd (newCallback (Some f) s))"
  have rr: "res_di rr = i" "res_idle rr" "res_vals rr = []"
    by (auto simp: rr_def newResolver_def zero_res_def split: option.split)
  have g1: "good pun s1 \<and> stable s s1"
    using g newCallback_good[OF g] by (auto simp: s1_def split: option.split) (metis prod.collapse)+
  obtain x where "attachStartResolverLocked E i rr s1 = Some (x, s')"
    using c unfolding attachStartSubResolverLocked_def if_not_P[OF False]
    by (auto simp: rr_def s1_def newCallback_def Let_def bind_Some_iff split: option.splits)
  with attachStartResolverLocked_good[OF _ _ rr] g1 stable_next[OF _ i]
  have "good pun s' \<and> stable s1 s'" by blast
  with g1 show ?thesis using stable_trans by blast
qed

section \<open>Removing an instance\<close>

lemma removeAllResolvers_good:
  assumes "removeAllResolvers E i s = Some s'" and "good pun s" and "i < next_ptr s"
  shows "good pun s' \<and> stable s s' \<and> di_res (heap_inst s' i) = []"
proof -
  let ?P = "\<lambda>F i s s'. F = E \<longrightarrow> good pun s \<longrightarrow> i < next_ptr s
    \<longrightarrow> good pun s' \<and> stable s s' \<and> di_res (heap_inst s' i) = []"
  have "?P E i s s'"
  proof (rule removeAllResolvers.raw_induct[of ?P, OF _ assms(1)], intro impI)
    fix rec :: "env \<Rightarrow> iid \<Rightarrow> st \<Rightarrow> st option" and F i s y
    assume IH: "\<And>F i s y. rec F i s = Some y \<Longrightarrow> ?P F i s y"
      and step: "(if di_res (heap_inst s i) = [] then Some s else Option.bind
        (removeResolverLocked F i (Some (length (di_res (heap_inst s i)) - 1))
           (last (di_res (heap_inst s i))) s) (rec F i)) = Some y"
      and F: "F = E" and g: "good pun s" "i < next_ptr s"
    show "good pun y \<and> stable s y \<and> di_res (heap_inst y i) = []"
    proof (cases "di_res (heap_inst s i) = []")
      case True
      with step g show ?thesis by simp
    next
      case False
      let ?k = "length (di_res (heap_inst s i)) - 1"
      from False step F obtain t where
        t: "removeResolverLocked E i (Some ?k) (last (di_res (heap_inst s i))) s = Some t"
          "rec E i t = Some y"
        by (auto simp: bind_Some_iff)
      have "good pun t \<and> stable s t"
        using False by (intro removeResolverLocked_good[OF g _ _ t(1)]) (auto simp: last_conv_nth)
      moreover have "good pun y \<and> stable t y \<and> di_res (heap_inst y i) = []"
        using IH[OF t(2)] calculation stable_next g(2) by blast
      ultimately show ?thesis using stable_trans by blast
    qed
  qed
  with assms show ?thesis by simp
qed

lemma removeHandlerFrom_good:
  assumes "removeHandlerFrom E i h idx s = Some s'" and "good pun s" and "i < next_ptr s"
  shows "good pun s' \<and> stable s s'"
proof -
  let ?P = "\<lambda>F i h idx s s'. F = E \<longrightarrow> good pun s \<longrightarrow> i < next_ptr s \<longrightarrow> good pun s' \<and> stable s s'"
  have "?P E i h idx s s'"
  proof (rule removeHandlerFrom.raw_induct[of ?P, OF _ assms(1)], intro impI)
    fix rec :: "env \<Rightarrow> iid \<Rightarrow> hndid \<Rightarrow> nat \<Rightarrow> st \<Rightarrow> st option" and F i h idx s y
    assume IH: "\<And>F i h idx s y. rec F i h idx s = Some y \<Longrightarrow> ?P F i h idx s y"
      and step: "(if \<not> idx < length (di_res (heap_inst s i)) then Some s
        else let r = di_res (heap_inst s i) ! idx in
          if res_hnd (heap_res s r) = h
          then Option.bind (removeResolverLocked F i (Some idx) r s) (rec F i h idx)
          else rec F i h (Suc idx) s) = Some y"
      and F: "F = E" and g: "good pun s" "i < next_ptr s"
    let ?r = "di_res (heap_inst s i) ! idx"
    show "good pun y \<and> stable s y"
    proof (cases "idx < length (di_res (heap_inst s i))")
      case False
      with step g show ?thesis by simp
    next
      case idx: True
      show ?thesis
      proof (cases "res_hnd (heap_res s ?r) = h")
        case True
        with idx step F obtain t where
          t: "removeResolverLocked E i (Some idx) ?r s = Some t" "rec E i h idx t = Some y"
          by (auto simp: bind_Some_iff Let_def)
        have "good pun t \<and> stable s t" by (rule removeResolverLocked_good[OF g idx _ t(1)]) simp
        moreover have "good pun y \<and> stable t y" using IH[OF t(2)] calculation stable_next g(2) by blast
        ultimately show ?thesis using stable_trans by blast
      next
        case False
        with idx step F have "rec E i h (Suc idx) s = Some y" by (simp add: Let_def)
        with IH g show ?thesis by blast
      qed
    qed
  qed
  with assms show ?thesis by simp
qed

lemma markRemoved_good:
  assumes g: "good pun s"
  shows "good pun (markRemoved i s) \<and> stable s (markRemoved i s)"
proof -
  let ?s0 = "updInst i (\<lambda>x. x\<lparr>di_released := True, di_destroyTimer := None\<rparr>) s"
  have "good pun ?s0" by (subst goodX_cong[where s = s]) (use g in \<open>auto simp: inst_core_def\<close>)
  then have "good pun (markRemoved i s)" unfolding markRemoved_def goodX_unseen_st .
  moreover have "stable s ?s0" by (auto simp: stable_def)
  then have "stable s (markRemoved i s)" unfolding markRemoved_def using stable_set(6) by (rule stable_trans)
  ultimately show ?thesis ..
qed

lemma removeLocked_good:
  assumes g: "good pun s" and i: "i < next_ptr s" and c: "removeLocked E i k s = Some s'"
  shows "good pun s' \<and> stable s s' \<and> di_released (heap_inst s' i)"
proof -
  let ?s1 = "markRemoved i s"
  have g1: "good pun ?s1" and st1: "stable s ?s1" using markRemoved_good[OF g] by auto
  have i1: "i < next_ptr ?s1" using stable_next[OF st1 i] .
  have rel1: "di_released (heap_inst ?s1 i)" by (simp add: markRemoved_def cancelCtx_def split: list.split)
  define pos where "pos = (case k of Some k \<Rightarrow> Some k | None \<Rightarrow> indexOf (\<lambda>x. x = i) (c_dir ?s1))"
  show ?thesis
  proof (cases pos)
    case None
    then have "s' = ?s1" using c unfolding removeLocked_def Let_def pos_def by (simp split: option.splits)
    with g1 st1 rel1 show ?thesis by simp
  next
    case (Some p)
    let ?s2 = "?s1\<lparr>c_dir := removeAt p (c_dir ?s1), c_bcast := Suc (c_bcast ?s1)\<rparr>"
    let ?s3 = "updInst i (di_idles_update (\<lambda>_. [])) ?s2"
    obtain t where t: "removeAllResolvers E i ?s3 = Some t"
      and c2: "(let evs = disposeEvents t i; s = releaseRefs (di_refs (heap_inst t i)) t;
           s = updInst i (di_rels_update (\<lambda>_. [])) s in
         Option.bind (callCallbacksLocked E i evs s)
           (\<lambda>s. Some (updInst i (di_refs_update (\<lambda>_. [])) s))) = Some s'"
      using c Some unfolding removeLocked_def Let_def pos_def[symmetric]
      by (auto simp: bind_Some_iff)
    have "good pun (?s1\<lparr>c_dir := removeAt p (c_dir ?s1)\<rparr>)"
      by (rule goodX_dir[OF g1])
        (use goodX_listsD[OF g1] set_removeAt_subset[of p "c_dir ?s1"] distinct_removeAt in auto)
    then have "good pun (?s1\<lparr>c_dir := removeAt p (c_dir ?s1)\<rparr>\<lparr>c_bcast := Suc (c_bcast ?s1)\<rparr>)"
      unfolding goodX_unseen_st .
    then have g3: "good pun ?s3" unfolding goodX_unseen_inst by simp
    have "stable s (?s1\<lparr>c_dir := removeAt p (c_dir ?s1)\<rparr>\<lparr>c_bcast := Suc (c_bcast ?s1)\<rparr>)"
      using st1 unfolding stable_unseen_st .
    then have st3: "stable s ?s3" unfolding stable_unseen by simp
    have gt: "good pun t" "stable s t"
      using removeAllResolvers_good[OF t g3 stable_next[OF st3 i]] st3 stable_trans by blast+
    let ?t2 = "updInst i (di_rels_update (\<lambda>_. [])) (releaseRefs (di_refs (heap_inst t i)) t)"
    have gt2: "good pun ?t2" using gt(1) by (simp add: unseen)
    have st4: "stable s ?t2" using stable_trans[OF gt(2) stable_set(2)] by (simp add: stable_unseen)
    obtain u where u: "callCallbacksLocked E i (disposeEvents t i) ?t2 = Some u"
      and s': "s' = updInst i (di_refs_update (\<lambda>_. [])) u"
      using c2 unfolding Let_def by (auto simp: bind_Some_iff)
    have gu: "good pun u" "stable s u"
      using callCallbacksLocked_good[OF gt2 stable_next[OF st4 i] u] st4 stable_trans by blast+
    have "stable ?s1 (?s1\<lparr>c_dir := removeAt p (c_dir ?s1)\<rparr>\<lparr>c_bcast := Suc (c_bcast ?s1)\<rparr>)"
      unfolding stable_unseen_st by (rule stable_refl)
    then have "stable ?s1 ?s3" unfolding stable_unseen by simp
    also have "stable ?s3 t"
      using removeAllResolvers_good[OF t g3 stable_next[OF st3 i]] by blast
    also have "stable t ?t2" unfolding stable_unseen by (rule stable_set)
    also have "stable ?t2 u"
      using callCallbacksLocked_good[OF gt2 stable_next[OF st4 i] u] by blast
    finally have "stable ?s1 u" .
    then have "di_released (heap_inst u i)" using rel1 i1 by (simp add: stable_def)
    then show ?thesis using gu goodX_clearRefs[of pun "{}" "{}" u i] by (simp add: s' stable_unseen)
  qed
qed

lemma instRemoveHandlerLocked_good:
  "good pun s \<Longrightarrow> i < next_ptr s \<Longrightarrow> instRemoveHandlerLocked E h i s = Some s' \<Longrightarrow> good pun s' \<and> stable s s'"
  unfolding instRemoveHandlerLocked_def using removeHandlerFrom_good by blast

section \<open>References\<close>

lemma handleReferencedLocked_good:
  "good pun s \<Longrightarrow> good pun (handleReferencedLocked i s) \<and> stable s (handleReferencedLocked i s)"
  by (simp add: handleReferencedLocked_def unseen)

lemma addReferenceLocked_good:
  assumes g: "good pun s" and i: "i < next_ptr s" and c: "addReferenceLocked E i cb w s = Some (r, s')"
  shows "good pun s' \<and> stable s s' \<and> r = next_ptr s \<and> r < next_ptr s'"
proof -
  let ?r = "next_ptr s"
  let ?ref = "\<lparr>ref_released = False, ref_di = i, ref_weak = w, ref_h = cb\<rparr>"
  let ?s1 = "s\<lparr>next_ptr := Suc ?r, heap_ref := (heap_ref s)(?r := ?ref)\<rparr>"
  have g1: "good pun ?s1" by (rule goodX_newRef[OF g i]) simp_all
  have st1: "stable s ?s1" by (rule stable_new) simp
  have n1: "?r < next_ptr ?s1" by simp
  show ?thesis
  proof (cases "di_released (heap_inst s i)")
    case True
    let ?s2 = "updRef ?r (ref_released_update (\<lambda>_. True)) ?s1"
    have g2: "good pun ?s2" using g1 unfolding goodX_unseen_ref .
    have st12: "stable ?s1 ?s2" by (rule stable_set)
    have st2: "stable s ?s2" using st1 st12 by (rule stable_trans)
    have "r = ?r \<and> (s' = ?s2 \<or> (\<exists>evs. callCallbacksLocked E i evs ?s2 = Some s'))"
      using c True unfolding addReferenceLocked_def Let_def
      by (auto simp: bind_Some_iff split: if_splits)
    moreover have "s' = ?s2 \<or> good pun s' \<and> stable ?s2 s'"
      using calculation callCallbacksLocked_good[OF g2 stable_next[OF st2 i]] by blast
    ultimately have "r = ?r" "good pun s'" "stable ?s2 s'" using g2 by auto
    moreover have "stable ?s1 s'" using st12 \<open>stable ?s2 s'\<close> by (rule stable_trans)
    ultimately show ?thesis using st1 stable_trans stable_next[OF _ n1] by blast
  next
    case False
    define s2 where "s2 = updInst i (di_refs_update (\<lambda>_. if w then ?r # di_refs (heap_inst s i)
      else di_refs (heap_inst s i) @ [?r])) ?s1"
    have "good pun (updInst i (di_refs_update (\<lambda>_. if ref_weak ?ref then ?r # di_refs (heap_inst s i)
      else di_refs (heap_inst s i) @ [?r])) ?s1)"
      by (rule goodX_addRef[OF g i]) simp_all
    then have g2: "good pun s2" by (simp add: s2_def)
    have st12: "stable ?s1 s2" unfolding s2_def stable_unseen by (rule stable_refl)
    obtain s3 cbs where r: "r = ?r" and s3: "s3 = s2 \<or> s3 = handleReferencedLocked i s2"
      and t: "callCallbacksLocked E i cbs s3 = Some s'"
      using c False unfolding addReferenceLocked_def Let_def
      by (auto simp: bind_Some_iff s2_def split: if_splits)
    have g3: "good pun s3" "stable s2 s3" using s3 g2 handleReferencedLocked_good[OF g2] by auto
    have st13: "stable ?s1 s3" using st12 g3(2) by (rule stable_trans)
    have st3: "stable s s3" using st1 st13 by (rule stable_trans)
    have gs: "good pun s'" "stable s3 s'"
      using callCallbacksLocked_good[OF g3(1) stable_next[OF st3 i] t] by auto
    have "stable ?s1 s'" using st13 gs(2) by (rule stable_trans)
    then show ?thesis using r gs(1) st1 stable_trans stable_next[OF _ n1] by blast
  qed
qed

lemma handleUnreferencedLocked_good:
  assumes g: "good pun s" and i: "i < next_ptr s" and c: "handleUnreferencedLocked E i s = Some s'"
  shows "good pun s' \<and> stable s s'"
proof -
  consider "s' = s" | "removeLocked E i None s = Some s'"
    | (timer) "s' = updInst i (di_destroyTimer_update (\<lambda>_. Some (next_ptr s))) (s\<lparr>next_ptr := Suc (next_ptr s)\<rparr>)"
    using c unfolding handleUnreferencedLocked_def Let_def by (metis option.inject)
  then show ?thesis
  proof cases
    case timer
    show ?thesis using goodX_next[OF g] stable_set(8)[of s]
      unfolding timer goodX_unseen_inst stable_unseen by simp
  qed (use g removeLocked_good[OF g i] in auto)
qed

lemma destroyTimerFired_good:
  assumes g: "good pun s" and i: "i < next_ptr s" and c: "destroyTimerFired E i t s = Some s'"
  shows "good pun s' \<and> stable s s'"
proof -
  let ?s = "updInst i (di_destroyTimer_update (\<lambda>_. None)) s"
  consider "s' = s" | (fire) "removeLocked E i None ?s = Some s'"
    using c unfolding destroyTimerFired_def by (metis option.inject)
  then show ?thesis
  proof cases
    case fire
    have "good pun ?s" using g unfolding goodX_unseen_inst .
    moreover have st: "stable s ?s" unfolding stable_unseen by (rule stable_refl)
    ultimately have "good pun s' \<and> stable ?s s'"
      using removeLocked_good[OF _ stable_next[OF st i] fire] by blast
    with st show ?thesis using stable_trans by blast
  qed (use g in auto)
qed

lemma removeReferenceLocked_good:
  assumes g: "good pun s" and i: "i < next_ptr s" and c: "removeReferenceLocked E i r s = Some s'"
  shows "good pun s' \<and> stable s s'"
proof -
  let ?s1 = "updInst i (\<lambda>x. x\<lparr>di_refs := removePtr r (di_refs x)\<rparr>) s"
  let ?s2 = "updRef r (ref_released_update (\<lambda>_. True)) ?s1"
  have g2: "good pun ?s2" using goodX_removeRef[OF g, of i r] unfolding goodX_unseen_ref .
  have "stable s ?s1" unfolding stable_unseen by (rule stable_refl)
  then have st2: "stable s ?s2" using stable_set(1) by (rule stable_trans)
  consider "s' = s" | "s' = ?s2" | (unref) "handleUnreferencedLocked E i ?s2 = Some s'"
    using c unfolding removeReferenceLocked_def Let_def by (metis option.inject)
  then show ?thesis
  proof cases
    case unref
    have "good pun s' \<and> stable ?s2 s'"
      using handleUnreferencedLocked_good[OF g2 stable_next[OF st2 i] unref] .
    with st2 show ?thesis using stable_trans by blast
  qed (use g g2 st2 in auto)
qed

lemma Release_good:
  assumes g: "good pun s" and c: "Release E r s = Some s'"
  shows "good pun s' \<and> stable s s'"
proof (cases "ref_released (heap_ref s r)")
  case True
  with c g show ?thesis by (simp add: Release_def)
next
  case False
  let ?s = "updRef r (ref_released_update (\<lambda>_. True)) s"
  have g1: "good pun ?s" using g unfolding goodX_unseen_ref .
  have st: "stable s ?s" by (rule stable_set)
  have i: "ref_di (heap_ref s r) < next_ptr ?s" using goodX_ref_di[OF g] by simp
  have "removeReferenceLocked E (ref_di (heap_ref s r)) r ?s = Some s'"
    using c False by (simp add: Release_def)
  from removeReferenceLocked_good[OF g1 i this] st show ?thesis using stable_trans by blast
qed

section \<open>The exported operations of an instance\<close>

lemma AddDisposeCallback_good:
  assumes g: "good pun s" and c: "AddDisposeCallback E i f s = Some (res, s')"
  shows "good pun s' \<and> stable s s'"
proof (cases "di_released (heap_inst s i)")
  case True
  with c show ?thesis using callDirectly_good[OF g] by (simp add: AddDisposeCallback_def)
next
  case False
  with c show ?thesis using goodX_next[OF g] stable_set(8)[of s]
    by (auto simp: AddDisposeCallback_def newCallback_def Let_def)
      (subst goodX_cong[where s = "s\<lparr>next_ptr := Suc (next_ptr s)\<rparr>"],
        auto simp: inst_core_def, auto simp: stable_def)
qed

lemma AddIdleCallback_good:
  assumes g: "good pun s" and i: "i < next_ptr s" and c: "AddIdleCallback E i f s = Some (res, s')"
  shows "good pun s' \<and> stable s s'"
proof -
  obtain cb s1 where n: "newCallback f s = (cb, s1)" by fastforce
  let ?s2 = "updInst i (\<lambda>x. x\<lparr>di_idles := di_idles x @ [cb]\<rparr>) s1"
  obtain evs where t: "callCallbacksLocked E i evs ?s2 = Some s'"
    using c n unfolding AddIdleCallback_def Let_def by (auto simp: bind_Some_iff)
  have g1: "good pun s1" "stable s s1" using newCallback_good[OF g n] by auto
  have g2: "good pun ?s2" using g1(1) by (subst goodX_cong[where s = s1]) (auto simp: inst_core_def)
  have "stable s1 ?s2" by (auto simp: stable_def)
  with g1(2) have st2: "stable s ?s2" by (rule stable_trans)
  have "good pun s' \<and> stable ?s2 s'" using callCallbacksLocked_good[OF g2 stable_next[OF st2 i] t] .
  with st2 show ?thesis using stable_trans by blast
qed

lemma AddStateCallback_good:
  assumes g: "good pun s" and i: "i < next_ptr s" and c: "AddStateCallback E i f s = Some (res, s')"
  shows "good pun s' \<and> stable s s'"
proof -
  obtain cb s1 where n: "newCallback f s = (cb, s1)" by fastforce
  let ?s2 = "updInst i (\<lambda>x. x\<lparr>di_stateChanged := di_stateChanged x @ [cb]\<rparr>) s1"
  obtain sn s3 where d: "getDirectiveStateSnapshotLocked i ?s2 = (sn, s3)" by fastforce
  obtain evs where t: "callCallbacksLocked E i evs s3 = Some s'"
    using c n d unfolding AddStateCallback_def Let_def by (auto simp: bind_Some_iff)
  have g1: "good pun s1" "stable s s1" using newCallback_good[OF g n] by auto
  have g2: "good pun ?s2" using g1(1) by (subst goodX_cong[where s = s1]) (auto simp: inst_core_def)
  have "stable s1 ?s2" by (auto simp: stable_def)
  with g1(2) have st2: "stable s ?s2" by (rule stable_trans)
  have s3: "s3 = ?s2 \<or> s3 = populateDirectiveStateSnapshotLocked i ?s2"
    using d by (auto simp: getDirectiveStateSnapshotLocked_def Let_def split: if_splits)
  have "good pun (populateDirectiveStateSnapshotLocked i ?s2)" using goodX_populate[OF g2, of i] by simp
  then have g3: "good pun s3" using s3 g2 by auto
  have st3: "stable s s3" using s3 st2 by (auto simp: unseen)
  have "good pun s' \<and> stable s3 s'" using callCallbacksLocked_good[OF g3 stable_next[OF st3 i] t] .
  with st3 show ?thesis using stable_trans by blast
qed

lemma removeCallbacks_good:
  "good pun s \<Longrightarrow> good pun (removeReleaseCallbackLocked i p s) \<and> stable s (removeReleaseCallbackLocked i p s)"
  "good pun s \<Longrightarrow> good pun (removeIdleCallbackLocked i p s) \<and> stable s (removeIdleCallbackLocked i p s)"
  "good pun s \<Longrightarrow> good pun (removeStateCallbackLocked i p s) \<and> stable s (removeStateCallbackLocked i p s)"
  unfolding removeReleaseCallbackLocked_def removeIdleCallbackLocked_def removeStateCallbackLocked_def
  by (subst goodX_cong[where s = s]; auto simp: inst_core_def stable_def)+

lemma closed_good:
  assumes g: "good pun s" and i: "i < next_ptr s"
    and c: "removeLocked E i None (updInst i (di_released_update (\<lambda>_. True)) s) = Some s'"
  shows "good pun s' \<and> stable s s' \<and> di_released (heap_inst s' i)"
proof -
  let ?s = "updInst i (di_released_update (\<lambda>_. True)) s"
  have "good pun ?s" using g unfolding goodX_unseen_inst .
  moreover have st: "stable s ?s" by (rule stable_set)
  ultimately have "good pun s' \<and> stable ?s s' \<and> di_released (heap_inst s' i)"
    using removeLocked_good[OF _ stable_next[OF st i] c] by blast
  with st show ?thesis using stable_trans by blast
qed

lemma Close_good:
  "good pun s \<Longrightarrow> i < next_ptr s \<Longrightarrow> Close E i s = Some s'
     \<Longrightarrow> good pun s' \<and> stable s s' \<and> di_released (heap_inst s' i)"
  using closed_good by (auto simp: Close_def split: if_split_asm)

lemma CloseIfUnreferenced_good:
  "good pun s \<Longrightarrow> i < next_ptr s \<Longrightarrow> CloseIfUnreferenced E i w s = Some (b, s')
     \<Longrightarrow> good pun s' \<and> stable s s' \<and> b = di_released (heap_inst s' i)"
  using closed_good by (auto simp: CloseIfUnreferenced_def bind_Some_iff Let_def split: if_split_asm)

section \<open>Resolver handlers\<close>

lemma AddValue_good:
  "good pun s \<Longrightarrow> AddValue E r c val s = Some (res, s') \<Longrightarrow> good pun s' \<and> stable s s'"
  using addValueLocked_good by (auto simp: AddValue_def split: if_split_asm)

lemma RemoveValue_good:
  "good pun s \<Longrightarrow> RemoveValue E r c vid s = Some (res, s') \<Longrightarrow> good pun s' \<and> stable s s'"
  using removeValueLocked_good by (auto simp: RemoveValue_def split: if_split_asm)

lemma MarkIdle_good:
  assumes "good pun s" and "idle \<or> \<not> pun \<or> \<not> res_exited (heap_res s r) \<or> \<not> handlerCurrent r c s"
    and "MarkIdle E r c idle s = Some s'"
  shows "good pun s' \<and> stable s s'"
  using assms setIdleLocked_good[OF assms(1)] by (auto simp: MarkIdle_def split: if_split_asm)

lemma ClearValues_good:
  assumes g: "good pun s" and c: "ClearValues E r ctx s = Some (res, s')"
  shows "good pun s' \<and> stable s s'"
proof (cases "handlerCurrent r ctx s")
  case False
  with c g show ?thesis by (simp add: ClearValues_def)
next
  case True
  let ?i = "res_di (heap_res s r)"
  let ?vals = "res_vals (heap_res s r)"
  let ?s = "updRes r (res_vals_update (\<lambda>_. [])) s"
  have t: "onValuesRemovedLocked E ?i ?vals ?s = Some s'"
    using c True by (auto simp: ClearValues_def Let_def bind_Some_iff)
  have g1: "goodX pun {} (if ?vals = [] then {} else {?i}) ?s"
    using goodX_clearVals[OF g, of "(heap_res s r)\<lparr>res_vals := []\<rparr>" r]
      goodX_lessVals[OF g, of "(heap_res s r)\<lparr>res_vals := []\<rparr>" r] by auto
  have st: "stable s ?s" unfolding stable_unseen_res by (rule stable_refl)
  have "good pun s' \<and> stable ?s s'"
    by (rule onValuesRemovedLocked_good[OF g1 _ _ _ t]) (use goodX_res_di[OF g] in auto)
  with st show ?thesis using stable_trans by blast
qed

lemma addValueRemovedCallbackLocked_good:
  assumes g: "good pun s" and c: "addValueRemovedCallbackLocked r vid f s = (res, s')"
  shows "good pun s' \<and> stable s s'"
proof (cases "indexOf (\<lambda>v. v_id v = vid) (res_vals (heap_res s r))")
  case None
  with c g show ?thesis by (simp add: addValueRemovedCallbackLocked_def)
next
  case (Some k)
  let ?vs = "res_vals (heap_res s r)"
  obtain n cbs where s': "s' = updRes r (\<lambda>x. x\<lparr>res_vals := (res_vals x)[k := (?vs ! k)\<lparr>
      v_removeCallbackCtr := n, v_removeCallbacks := cbs\<rparr>]\<rparr>) s"
    using c Some by (auto simp: addValueRemovedCallbackLocked_def Let_def)
  have "k < length ?vs" using indexOf_SomeD[OF Some] by simp
  then have same: "map attached_pair (?vs[k := (?vs ! k)\<lparr>v_removeCallbackCtr := n,
      v_removeCallbacks := cbs\<rparr>]) = map attached_pair ?vs"
    by (simp add: map_update attached_pair_def list_update_same_conv)
  have "good pun s'" unfolding s' by (rule goodX_clearVals[OF g]) (use same in auto)
  moreover have "stable s s'" by (auto simp: s' stable_def)
  ultimately show ?thesis ..
qed

lemma releaseValueRemovedCallback_good:
  assumes g: "good pun s"
  shows "good pun (releaseValueRemovedCallback r vid cbid s) \<and> stable s (releaseValueRemovedCallback r vid cbid s)"
proof (cases "indexOf (\<lambda>v. v_id v = vid) (res_vals (heap_res s r))")
  case None
  with g show ?thesis by (simp add: releaseValueRemovedCallback_def)
next
  case (Some k)
  let ?vs = "res_vals (heap_res s r)"
  have k: "k < length ?vs" using indexOf_SomeD[OF Some] by simp
  have same: "map attached_pair (?vs[k := (?vs ! k)\<lparr>v_removeCallbacks := cbs\<rparr>])
      = map attached_pair ?vs" for cbs
    using k by (simp add: map_update attached_pair_def list_update_same_conv)
  have "good pun (updRes r (\<lambda>x. x\<lparr>res_vals := (res_vals x)[k := (?vs ! k)\<lparr>v_removeCallbacks := cbs\<rparr>]\<rparr>) s)" for cbs
    by (rule goodX_clearVals[OF g]) (use same in auto)
  then show ?thesis using g Some
    by (auto simp: releaseValueRemovedCallback_def Let_def stable_def split: option.split)
qed

lemma addResolverRemovedCallbackLocked_good:
  assumes g: "good pun s" and c: "addResolverRemovedCallbackLocked i r f s = (res, s')"
  shows "good pun s' \<and> stable s s'"
proof (cases "List.member (di_res (heap_inst s i)) r")
  case False
  with c g show ?thesis by (simp add: addResolverRemovedCallbackLocked_def)
next
  case True
  obtain cb s1 where n: "newCallback f s = (cb, s1)" by fastforce
  have s': "s' = updRes r (\<lambda>x. x\<lparr>res_rels := res_rels x @ [cb]\<rparr>) s1"
    using c True n by (auto simp: addResolverRemovedCallbackLocked_def Let_def)
  have g1: "good pun s1" "stable s s1" using newCallback_good[OF g n] by auto
  have "good pun s'" unfolding s' using g1(1) by (subst goodX_cong[where s = s1]) (auto simp: res_core_def)
  moreover have "stable s1 s'" by (auto simp: s' stable_def)
  ultimately show ?thesis using g1(2) stable_trans by blast
qed

lemma releaseResolverRemovedCallback_good:
  "good pun s \<Longrightarrow> good pun (releaseResolverRemovedCallback r p s) \<and> stable s (releaseResolverRemovedCallback r p s)"
  unfolding releaseResolverRemovedCallback_def
  by (subst goodX_cong[where s = s]; auto simp: res_core_def stable_def)

lemma call_if_missing_good:
  assumes "good pun t \<and> stable s t"
    and "(if found = None then callDirectly E f t else Some (Returned found, t)) = Some (res, s')"
  shows "good pun s' \<and> stable s s'"
  using assms callDirectly_good stable_trans by (fastforce split: if_split_asm)

lemma AddValueRemovedCallback_good:
  assumes g: "good pun s" and c: "AddValueRemovedCallback E r ctx vid cb s = Some (res, s')"
  shows "good pun s' \<and> stable s s'"
proof (cases cb)
  case None
  with c g show ?thesis by (simp add: AddValueRemovedCallback_def)
next
  case (Some f)
  obtain found t where t: "(if handlerCurrent r ctx s then addValueRemovedCallbackLocked r vid cb s
      else (None, s)) = (found, t)" by fastforce
  have "good pun t \<and> stable s t" using t g addValueRemovedCallbackLocked_good by (auto split: if_split_asm)
  moreover have "(if found = None then callDirectly E f t else Some (Returned found, t)) = Some (res, s')"
    using c t unfolding AddValueRemovedCallback_def Some by simp
  ultimately show ?thesis by (rule call_if_missing_good)
qed

lemma AddResolverRemovedCallback_good:
  assumes g: "good pun s" and c: "AddResolverRemovedCallback E r ctx cb s = Some (res, s')"
  shows "good pun s' \<and> stable s s'"
proof (cases cb)
  case None
  with c g show ?thesis by (simp add: AddResolverRemovedCallback_def)
next
  case (Some f)
  obtain found t where t: "(if handlerCurrent r ctx s
      then addResolverRemovedCallbackLocked (res_di (heap_res s r)) r cb s
      else (None, s)) = (found, t)" by fastforce
  have "good pun t \<and> stable s t" using t g addResolverRemovedCallbackLocked_good by (auto split: if_split_asm)
  moreover have "(if found = None then callDirectly E f t else Some (Returned found, t)) = Some (res, s')"
    using c t unfolding AddResolverRemovedCallback_def Some by simp
  ultimately show ?thesis by (rule call_if_missing_good)
qed

lemma AddResolver_good:
  assumes g: "good pun s" and c: "AddResolver E r ctx sub cb s = Some (res, s')"
  shows "good pun s' \<and> stable s s'"
proof -
  have call: "good pun s' \<and> stable s s'" if "good pun t \<and> stable s t"
    "(case cb of None \<Rightarrow> Some (Returned None, t) | Some f \<Rightarrow> callDirectly E f t) = Some (res, s')" for t
    using that callDirectly_good stable_trans by (fastforce split: option.splits)
  show ?thesis
  proof (cases sub)
    case None
    with c g call[of s] show ?thesis by (simp add: AddResolver_def)
  next
    case (Some sub')
    then obtain found t where t: "(if handlerCurrent r ctx s
         then attachStartSubResolverLocked E (res_di (heap_res s r)) r sub' cb s
         else Some (None, s)) = Some (found, t)"
      and c2: "(if found = None then (case cb of None \<Rightarrow> Some (Returned None, t)
          | Some f \<Rightarrow> callDirectly E f t)
        else Some (Returned found, t)) = Some (res, s')"
      using c unfolding AddResolver_def Let_def by (auto simp: bind_Some_iff)
    have "good pun t \<and> stable s t"
      using t g attachStartSubResolverLocked_good[OF g goodX_res_di[OF g]] by (auto split: if_split_asm)
    with c2 call show ?thesis by (auto split: if_split_asm)
  qed
qed

lemma releaseSubResolver_good:
  "good pun s \<Longrightarrow> i < next_ptr s \<Longrightarrow> releaseSubResolver E i sub s = Some s' \<Longrightarrow> good pun s' \<and> stable s s'"
  unfolding releaseSubResolver_def by (rule removeResolverLocked_find_good)

section \<open>The goroutine of a resolver\<close>

lemma exitTask_good: "good pun s \<Longrightarrow> good pun (exitTask k s) \<and> stable s (exitTask k s)"
  unfolding exitTask_def by (subst goodX_cong[where s = s]) (auto simp: stable_def)

lemma executeResolver_start_good:
  "good pun s \<Longrightarrow> good pun (executeResolver_start k s) \<and> stable s (executeResolver_start k s)"
  unfolding executeResolver_start_def by (simp add: unseen)

text \<open>
  Between \<^verbatim>\<open>r.r.exited = true\<close> and \<^verbatim>\<open>setIdleLocked(true)\<close> the resolver is exited and not idle;
  no callback runs there, because the state check is already deferred.
\<close>

lemma setErr_deferred:
  assumes "deferCheckStateChanged i s = (armed, s1)" and "res_di (heap_res s1 r) = i"
  shows "setErrLocked E r err (updRes r (res_exited_update (\<lambda>_. True)) s1)
     = Some (let x = (heap_res s1 r)\<lparr>res_exited := True, res_err := err\<rparr>;
                 t = s1\<lparr>heap_res := (heap_res s1)(r := x)\<rparr>
             in if res_err (heap_res s1 r) = err then t else markStateChanged i t)"
proof -
  have "di_stateChangedSkip (heap_inst s1 i) \<or> di_stateChanged (heap_inst s1 i) = []"
    using assms(1) by (auto simp: deferCheckStateChanged_def split: if_split_asm)
  then have "deferCheckStateChanged i (updRes r (res_exited_update (\<lambda>_. True)) s1)
      = (False, updRes r (res_exited_update (\<lambda>_. True)) s1)"
    by (simp add: deferCheckStateChanged_def)
  with assms(2) show ?thesis
    by (cases "heap_res s1 r") (auto simp: setErrLocked_def Let_def runDeferred_def)
qed

lemma executeResolver_return_good:
  assumes g: "good pun s" and c: "executeResolver_return E k err s = Some s'"
  shows "good pun s' \<and> stable s s'"
proof (cases "handlerCurrent (task_r (tasks s ! k)) (task_ctx (tasks s ! k)) s")
  case False
  with c have "s' = exitTask k s" by (simp add: executeResolver_return_def Let_def)
  with exitTask_good[OF g] show ?thesis by simp
next
  case True
  define r i where "r = task_r (tasks s ! k)" and "i = res_di (heap_res s r)"
  have i: "i < next_ptr s" using goodX_res_di[OF g] by (simp add: i_def)
  obtain armed s1 where d: "deferCheckStateChanged i s = (armed, s1)" by fastforce
  have g1: "good pun s1" "next_ptr s1 = next_ptr s" using deferCheckStateChanged_good[OF g i d] by auto
  have ri: "res_di (heap_res s1 r) = i"
    using d by (auto simp: deferCheckStateChanged_def i_def split: if_splits)
  define x where "x = (heap_res s1 r)\<lparr>res_exited := True, res_err := err\<rparr>"
  define M where "M = (if res_err (heap_res s1 r) = err then (\<lambda>t. t) else markStateChanged i)"
  let ?s3 = "M (s1\<lparr>heap_res := (heap_res s1)(r := x)\<rparr>)"
  have "setErrLocked E r err (updRes r (res_exited_update (\<lambda>_. True)) s1) = Some ?s3"
    unfolding setErr_deferred[OF d ri] by (simp add: x_def M_def Let_def)
  then obtain t u where t: "setIdleLocked E r True ?s3 = Some t"
    "runDeferred E i armed t = Some u" "s' = exitTask k u"
    using c True d unfolding executeResolver_return_def Let_def r_def[symmetric] i_def[symmetric]
    by (auto simp: bind_Some_iff)
  have Mg: "goodX pun X {} t \<Longrightarrow> goodX pun X {} (M t)" for X t
    using goodX_markStateChanged[of pun X "{}" t i] by (simp add: M_def)
  have M_simps: "heap_res (M t) = heap_res t" "M (t\<lparr>heap_res := h\<rparr>) = (M t)\<lparr>heap_res := h\<rparr>"
      "next_ptr (M t) = next_ptr t" "stable s0 (M t) = stable s0 t" for t h s0
    by (auto simp: M_def markStateChanged_def) (simp_all add: stable_unseen)
  have gt: "good pun t \<and> stable s1 t"
  proof (cases "res_idle (heap_res s1 r)")
    case True
    have g3: "good pun (s1\<lparr>heap_res := (heap_res s1)(r := x)\<rparr>)"
      by (rule goodX_updRes_same[OF g1(1)]) (use True in \<open>auto simp: x_def running_def\<close>)
    have tt: "t = ?s3" using t(1) True by (simp add: setIdleLocked_def M_simps x_def)
    have "stable s1 (s1\<lparr>heap_res := (heap_res s1)(r := x)\<rparr>)"
      by (auto simp: stable_def x_def)
    then show ?thesis using Mg[OF g3] unfolding tt M_simps(4) by blast
  next
    case False
    let ?u = "M (s1\<lparr>heap_res := (heap_res s1)(r := x\<lparr>res_idle := True\<rparr>)\<rparr>)"
    have "goodX pun (insert i {}) {} (s1\<lparr>heap_res := (heap_res s1)(r := x\<lparr>res_idle := True\<rparr>)\<rparr>)"
      using goodX_updRes[OF g1(1), of "x\<lparr>res_idle := True\<rparr>" r] ri by (simp add: x_def)
    then have gu: "goodX pun {i} {} ?u" by (rule Mg)
    have "handleIdleStateLocked E i ?u = Some t"
      using t(1) False ri by (simp add: setIdleLocked_def M_simps x_def Let_def)
    moreover have "i < next_ptr ?u" using i g1(2) by (simp add: M_simps)
    ultimately have "good pun t \<and> stable ?u t" using handleIdle_good[OF gu] by blast
    moreover have "stable s1 ?u" unfolding M_simps(4) by (auto simp: stable_def x_def)
    ultimately show ?thesis using stable_trans by blast
  qed
  have "good pun u \<and> stable s u" using deferred_good[OF d i gt t(2)] .
  with t(3) exitTask_good[of u k] show ?thesis using stable_trans by blast
qed

section \<open>Adding a directive\<close>

lemma callHandlerUnlocked_good:
  assumes "good pun s" and "callHandlerUnlocked E i h s = Some (res, s')"
  shows "good pun s' \<and> stable s s' \<and> (\<forall>rs. res = Inr rs \<longrightarrow> list_all (freshRes i) rs)"
proof -
  from assms(2) obtain res' where r: "env_handle E (hnd_h (heap_hnd s h)) i s = Some (res', s')"
      "res = (case res' of Inl e \<Rightarrow> Inl e | Inr rs \<Rightarrow> Inr (map (newResolver i h) rs))"
    by (auto simp: callHandlerUnlocked_def bind_Some_iff)
  have "list_all (freshRes i) (map (newResolver i h) rs)" for rs
    by (simp add: list_all_iff freshRes_def newResolver_def zero_res_def)
  with handle_good[OF assms(1) r(1)] r(2) show ?thesis by (auto split: sum.splits)
qed

lemma callHandlers_good:
  "good pun s \<Longrightarrow> callHandlers E i hs s = Some (rs, s')
     \<Longrightarrow> good pun s' \<and> stable s s' \<and> list_all (freshRes i) rs"
proof (induction hs arbitrary: s rs)
  case Nil
  then show ?case by simp
next
  case (Cons h hs)
  show ?case
  proof (cases "hnd_rel (heap_hnd s h)")
    case True
    with Cons show ?thesis by simp
  next
    case False
    with Cons.prems obtain res t rs' where
      t: "callHandlerUnlocked E i h s = Some (res, t)" "callHandlers E i hs t = Some (rs', s')"
        "rs = (case res of Inl _ \<Rightarrow> rs' | Inr nres \<Rightarrow> nres @ rs')"
      by (auto simp: bind_Some_iff)
    have "good pun t \<and> stable s t \<and> (\<forall>rs. res = Inr rs \<longrightarrow> list_all (freshRes i) rs)"
      using callHandlerUnlocked_good[OF Cons.prems(1) t(1)] .
    moreover have "good pun s' \<and> stable t s' \<and> list_all (freshRes i) rs'"
      using Cons.IH[OF _ t(2)] calculation by blast
    ultimately show ?thesis using stable_trans t(3) by (auto split: sum.split)
  qed
qed

lemma attachAll_good:
  "good pun s \<Longrightarrow> \<forall>(i, rr) \<in> set ps. i < next_ptr s \<and> freshRes i rr \<Longrightarrow> attachAll E ps s = Some s'
     \<Longrightarrow> good pun s' \<and> stable s s'"
proof (induction ps arbitrary: s)
  case Nil
  then show ?case by simp
next
  case (Cons p ps)
  obtain i rr where p: "p = (i, rr)" by fastforce
  with Cons.prems obtain r t where
    t: "attachStartResolverLocked E i rr s = Some (r, t)" "attachAll E ps t = Some s'"
    by (auto simp: bind_Some_iff)
  have gt: "good pun t" "stable s t"
    using attachStartResolverLocked_good[OF Cons.prems(1) _ _ _ _ t(1)] Cons.prems(2)
    by (auto simp: p freshRes_def)
  have "good pun s' \<and> stable t s'"
    using Cons.IH[OF gt(1) _ t(2)] Cons.prems(2) stable_next[OF gt(2)] by fastforce
  with gt(2) show ?case using stable_trans by blast
qed

lemma newDirectiveInstance_good:
  assumes g: "good pun s" and c: "newDirectiveInstance E did dir h s = Some ((i, r), s')"
  shows "good pun s' \<and> stable s s' \<and> i = next_ptr s \<and> i < next_ptr s'"
proof -
  let ?i = "next_ptr s"
  define x where "x = zero_inst\<lparr>di_id := did, di_dir := dir, di_valueOpts := dir_valueOptions dir,
    di_ctx := Suc ?i # c_ctx s\<rparr>"
  let ?s1 = "s\<lparr>next_ptr := Suc ?i, heap_inst := (heap_inst s)(?i := x)\<rparr>"
  let ?s2 = "s\<lparr>next_ptr := Suc (Suc ?i), heap_inst := (heap_inst s)(?i := x)\<rparr>"
  have s2: "?s1\<lparr>next_ptr := Suc (next_ptr ?s1)\<rparr> = ?s2"
    by (rule st.equality) simp_all
  have t: "addReferenceLocked E ?i h False ?s2 = Some (r, s')" and i: "i = ?i"
    using c by (auto simp: newDirectiveInstance_def withCancel_def Let_def bind_Some_iff x_def)
  have g1: "good pun ?s1" by (rule goodX_newInst[OF g]) (simp_all add: x_def zero_inst_def)
  have g2: "good pun ?s2" using goodX_next[OF g1] unfolding s2 .
  have "\<not> di_callingRefCbs (heap_inst s ?i) \<and> \<not> di_stateChangedSkip (heap_inst s ?i)"
    using g by (simp add: goodX_def ptrOk_def)
  then have st1: "stable s ?s1" by (auto simp: stable_def x_def zero_inst_def)
  have st2: "stable ?s1 ?s2" using stable_set(8)[of ?s1] unfolding s2 .
  have "good pun s' \<and> stable ?s2 s'" using addReferenceLocked_good[OF g2 _ t] by simp
  moreover have "?i < next_ptr ?s2" by simp
  ultimately show ?thesis using i st1 st2 stable_trans stable_next by meson
qed

lemma addNewDirective_good:
  assumes g: "good pun s" and c: "addNewDirective E dir h s = Some (res, s')"
  shows "good pun s' \<and> stable s s'"
proof -
  obtain i r s1 where n: "newDirectiveInstance E (c_dirID s) dir h s = Some ((i, r), s1)"
    using c unfolding addNewDirective_def by (auto simp: bind_Some_iff)
  have g1: "good pun s1" "stable s s1" "i = next_ptr s" "i < next_ptr s1"
    using newDirectiveInstance_good[OF g n] by auto
  let ?s2 = "s1\<lparr>c_dirID := c_dirID s1 + 1, c_dir := c_dir s1 @ [i], c_bcast := Suc (c_bcast s1)\<rparr>"
  obtain armed s3 where d: "deferCheckStateChanged i ?s2 = (armed, s3)" by fastforce
  obtain rs s4 s5 where t: "callHandlers E i (c_hnd s3) s3 = Some (rs, s4)"
    "(if di_released (heap_inst s4 i) then Some s4 else Option.bind (attachAll E (map (Pair i) rs) s4)
        (\<lambda>s. handleIdleStateLocked E i (updInst i (di_ready_update (\<lambda>_. True)) s))) = Some s5"
    "runDeferred E i armed s5 = Some s'"
    using c n d unfolding addNewDirective_def Let_def by (auto simp: bind_Some_iff)
  have "i \<notin> set (c_dir s1)"
  proof -
    have "c_dir s1 = c_dir s"
      using n unfolding newDirectiveInstance_def addReferenceLocked_def
      by (auto simp: withCancel_def Let_def bind_Some_iff callCallbacksLocked_def
          callCallbackEventsLocked_def getResolverAttachedValsLocked_def zero_inst_def
          handleReferencedLocked_def split: if_split_asm)
    then show ?thesis using goodX_listsD(2)[OF g] g1(3) by auto
  qed
  then have "good pun (s1\<lparr>c_dir := c_dir s1 @ [i]\<rparr>)"
    by (intro goodX_dir[OF g1(1)]) (use goodX_listsD[OF g1(1)] g1(4) in auto)
  then have g2: "good pun ?s2" by (subst goodX_cong[where s = "s1\<lparr>c_dir := c_dir s1 @ [i]\<rparr>"]) simp_all
  have st2: "stable s1 ?s2" by (simp add: stable_def)
  have i2: "i < next_ptr ?s2" using g1(4) by simp
  have g3: "good pun s3" "next_ptr s3 = next_ptr ?s2" using deferCheckStateChanged_good[OF g2 i2 d] by auto
  have g4: "good pun s4" "stable s3 s4" "list_all (freshRes i) rs" using callHandlers_good[OF g3(1) t(1)] by auto
  have i4: "i < next_ptr s4" using stable_next[OF g4(2)] g3(2) i2 by simp
  have g5: "good pun s5 \<and> stable s4 s5"
  proof (cases "di_released (heap_inst s4 i)")
    case True
    with t(2) g4(1) show ?thesis by simp
  next
    case False
    with t(2) obtain u where u: "attachAll E (map (Pair i) rs) s4 = Some u"
      "handleIdleStateLocked E i (updInst i (di_ready_update (\<lambda>_. True)) u) = Some s5"
      by (auto simp: bind_Some_iff)
    have gu: "good pun u" "stable s4 u"
      using attachAll_good[OF g4(1) _ u(1)] g4(3) i4 by (auto simp: list_all_iff)
    let ?u = "updInst i (di_ready_update (\<lambda>_. True)) u"
    have st: "stable s4 ?u" using stable_trans[OF gu(2) stable_set(4)] .
    have "good pun s5 \<and> stable ?u s5"
      using handleIdle_good[OF good_setReady[OF gu(1)] stable_next[OF st i4] u(2)] .
    with st show ?thesis using stable_trans by blast
  qed
  have "good pun s5 \<and> stable s3 s5" using g4(2) g5 stable_trans by blast
  then have "good pun s' \<and> stable ?s2 s'" using deferred_good[OF d i2 _ t(3)] by blast
  then show ?thesis using g1(2) st2 stable_trans by blast
qed

lemma addDirectiveScan_good:
  "good pun s \<Longrightarrow> n + idx \<le> length arr \<Longrightarrow> \<forall>x \<in> set arr. x < next_ptr s
     \<Longrightarrow> addDirectiveScan E dir h n idx arr s = Some (res, s') \<Longrightarrow> good pun s' \<and> stable s s'"
proof (induction n arbitrary: idx arr s)
  case 0
  then show ?case by simp
next
  case (Suc n)
  let ?di = "arr ! idx"
  have di: "?di < next_ptr s" using Suc.prems by simp
  show ?case
  proof (cases "\<not> di_released (heap_inst s ?di) \<and> env_isEquivalent E dir (di_dir (heap_inst s ?di))")
    case False
    have "addDirectiveScan E dir h n (Suc idx) arr s = Some (res, s')"
      using Suc.prems(4) unfolding addDirectiveScan.simps Let_def if_not_P[OF False] .
    with Suc.IH[of s "Suc idx" arr] Suc.prems show ?thesis by simp
  next
    case eq: True
    show ?thesis
    proof (cases "dir_hasSuperceeds dir \<and> env_superceeds E dir (di_dir (heap_inst s ?di))")
      case False
      then have "\<exists>r. addReferenceLocked E ?di h False s = Some (r, s')"
        using Suc.prems(4) unfolding addDirectiveScan.simps Let_def if_P[OF eq] if_not_P[OF False]
        by (auto simp: bind_Some_iff)
      then show ?thesis using addReferenceLocked_good[OF Suc.prems(1) di] by blast
    next
      case sup: True
      show ?thesis
      proof (cases "length (c_dir s) < Suc idx")
        case True
        then show ?thesis using markRemoved_good[OF Suc.prems(1), of ?di] Suc.prems(4) eq sup by (auto simp: Let_def)
      next
        case False
        then obtain t where t: "removeLocked E ?di (Some idx) s = Some t"
            "addDirectiveScan E dir h n (Suc idx) (c_dir t @ drop (length (c_dir t)) arr) t = Some (res, s')"
          using Suc.prems(4) unfolding addDirectiveScan.simps Let_def if_P[OF eq] if_P[OF sup]
          by (auto simp: bind_Some_iff)
        have gt: "good pun t" "stable s t" using removeLocked_good[OF Suc.prems(1) di t(1)] by auto
        have arr: "\<forall>x \<in> set (c_dir t @ drop (length (c_dir t)) arr). x < next_ptr t"
          using goodX_listsD(2)[OF gt(1)] Suc.prems(3) stable_next[OF gt(2)]
          by (auto dest: in_set_dropD)
        have "good pun s' \<and> stable t s'" using Suc.IH[OF gt(1) _ arr t(2)] Suc.prems(2) by simp
        with gt(2) show ?thesis using stable_trans by blast
      qed
    qed
  qed
qed

lemma AddDirective_good:
  assumes g: "good pun s" and c: "AddDirective E dir h s = Some (res, s')"
  shows "good pun s' \<and> stable s s'"
proof -
  obtain sr t where t: "(if dir_hasEquiv dir then addDirectiveScan E dir h (length (c_dir s)) 0 (c_dir s) s
      else Some (ScanNone, s)) = Some (sr, t)"
    and c2: "(case sr of ScanFound di r \<Rightarrow> Some (Returned (di, r), t) | ScanPanic \<Rightarrow> Some (Panicked, t)
      | ScanNone \<Rightarrow> Option.bind (addNewDirective E dir h t) (\<lambda>(p, s). Some (Returned p, s))) = Some (res, s')"
    using c unfolding AddDirective_def by (auto simp: bind_Some_iff)
  have gt: "good pun t" "stable s t"
    using t g addDirectiveScan_good[where n = "length (c_dir s)" and idx = 0,
        OF g _ goodX_listsD(2)[OF g]]
    by (auto split: if_split_asm)
  have "good pun s' \<and> stable t s'"
    using c2 gt(1) addNewDirective_good[OF gt(1)] by (auto simp: bind_Some_iff split: scan_result.splits)
  with gt(2) show ?thesis using stable_trans by blast
qed

section \<open>Adding and removing handlers\<close>

lemma callHandlerOnAll_good:
  "good pun s \<Longrightarrow> \<forall>i \<in> set dis. i < next_ptr s \<Longrightarrow> callHandlerOnAll E h dis s = Some (rs, s')
     \<Longrightarrow> good pun s' \<and> stable s s' \<and> (\<forall>(i, rr) \<in> set rs. i < next_ptr s' \<and> freshRes i rr)"
proof (induction dis arbitrary: s rs)
  case Nil
  then show ?case by simp
next
  case (Cons i dis)
  show ?case
  proof (cases "hnd_rel (heap_hnd s h)")
    case True
    with Cons show ?thesis by simp
  next
    case False
    with Cons.prems obtain res t rs' where
      t: "callHandlerUnlocked E i h s = Some (res, t)" "callHandlerOnAll E h dis t = Some (rs', s')"
        "rs = (case res of Inl _ \<Rightarrow> rs' | Inr nres \<Rightarrow> map (Pair i) nres @ rs')"
      by (auto simp: bind_Some_iff)
    have gt: "good pun t" "stable s t" "\<forall>rs. res = Inr rs \<longrightarrow> list_all (freshRes i) rs"
      using callHandlerUnlocked_good[OF Cons.prems(1) t(1)] by auto
    have gs: "good pun s'" "stable t s'" "\<forall>(i, rr) \<in> set rs'. i < next_ptr s' \<and> freshRes i rr"
      using Cons.IH[OF gt(1) _ t(2)] Cons.prems(2) stable_next[OF gt(2)] by auto
    have "i < next_ptr s'" using Cons.prems(2) stable_next gt(2) gs(2) by simp
    then show ?thesis using gt gs stable_trans t(3)
      by (auto simp: list_all_iff split: sum.splits)
  qed
qed

lemma AddHandler_good:
  assumes g: "good pun s" and c: "AddHandler E hh s = Some (res, s')"
  shows "good pun s' \<and> stable s s'"
proof -
  let ?h = "next_ptr s"
  let ?s1 = "s\<lparr>next_ptr := Suc ?h, heap_hnd := (heap_hnd s)(?h := \<lparr>hnd_rel = False, hnd_h = hh\<rparr>)\<rparr>"
  let ?s2 = "?s1\<lparr>c_hnd := c_hnd s @ [?h]\<rparr>"
  obtain rs t where t: "callHandlerOnAll E ?h (c_dir s) ?s2 = Some (rs, t)" "attachAll E rs t = Some s'"
    using c by (auto simp: AddHandler_def addHandlerLocked_def newHandler_def Let_def bind_Some_iff)
  have g0: "good pun (s\<lparr>next_ptr := Suc (next_ptr s)\<rparr>)" by (rule goodX_next[OF g])
  then have g1: "good pun ?s1" by (subst goodX_cong[where s = "s\<lparr>next_ptr := Suc (next_ptr s)\<rparr>"]) simp_all
  have g2: "good pun ?s2" by (rule goodX_hnd[OF g1]) (use goodX_listsD(3,4)[OF g] in auto)
  have st1: "stable s ?s1" by (rule stable_new) simp
  have st2: "stable s ?s2" using st1 unfolding stable_unseen_st .
  have lt: "\<forall>i \<in> set (c_dir s). i < next_ptr ?s2" using goodX_listsD(2)[OF g] by auto
  have gt: "good pun t" "stable ?s2 t" "\<forall>(i, rr) \<in> set rs. i < next_ptr t \<and> freshRes i rr"
    using callHandlerOnAll_good[OF g2 lt t(1)] by auto
  have "good pun s' \<and> stable t s'" using attachAll_good[OF gt(1) gt(3) t(2)] .
  then show ?thesis using st2 gt(2) stable_trans by blast
qed

lemma removeHandlerLocked_good:
  assumes g: "good pun s" and c: "removeHandlerLocked E h s = Some (res, s')"
  shows "good pun s' \<and> stable s s'"
proof -
  let ?s1 = "updHnd h (hnd_rel_update (\<lambda>_. True)) s"
  have g1: "good pun ?s1" using g unfolding goodX_unseen_st .
  have st1: "stable s ?s1" by (rule stable_set)
  show ?thesis
  proof (cases "indexOf (\<lambda>x. x = h) (c_hnd s)")
    case None
    with c g1 st1 show ?thesis by (simp add: removeHandlerLocked_def Let_def)
  next
    case (Some k)
    let ?s2 = "?s1\<lparr>c_hnd := swapRemove k (c_hnd s)\<rparr>"
    have k: "k < length (c_hnd s)" using indexOf_SomeD[OF Some] by simp
    have t: "forEach (instRemoveHandlerLocked E h) (c_dir s) ?s2 = Some s'"
      using c Some by (auto simp: removeHandlerLocked_def Let_def bind_Some_iff)
    have "good pun ?s2"
      by (rule goodX_hnd[OF g1])
        (use goodX_listsD(3,4)[OF g] k in \<open>auto simp: set_swapRemove distinct_swapRemove\<close>)
    moreover have "stable s ?s2" using st1 unfolding stable_unseen_st .
    ultimately show ?thesis
    proof (intro forEach_inv[where I = "\<lambda>t. good pun t \<and> stable s t", OF t])
      fix i u u'
      assume i: "i \<in> set (c_dir s)" and u: "good pun u \<and> stable s u"
        and st: "instRemoveHandlerLocked E h i u = Some u'"
      have "i < next_ptr u" using goodX_listsD(2)[OF g] i u stable_next by blast
      then have "good pun u' \<and> stable u u'" using instRemoveHandlerLocked_good u st by blast
      with u show "good pun u' \<and> stable s u'" using stable_trans by blast
    qed simp
  qed
qed

lemma relHandler_good:
  "good pun s \<Longrightarrow> relHandler E h s = Some s' \<Longrightarrow> good pun s' \<and> stable s s'"
  using removeHandlerLocked_good by (auto simp: relHandler_def bind_Some_iff split: if_split_asm)

end

end
