(* ===== verification/Dir_Runs.thy ===== *)
theory Dir_Runs
  imports Dir_Preserve
begin

text \<open>
  Runs of the directive controller. \<open>api_op\<close> is everything client code, resolvers and goroutines
  can do to the controller; \<open>exec_op\<close> runs one of them. A \<open>program\<close> says which operations happen
  while a callback or a handler runs (called from it, or by other goroutines, since the mutex is
  unlocked there); \<open>run_env P n\<close> is the environment of the program \<open>P\<close> in which callbacks nest at
  most \<open>n\<close> deep, a callback that needs more does not return. \<open>reachable\<close> are the states between
  the calls of a client that starts with \<^verbatim>\<open>NewController\<close>, after calls that returned and after calls
  that panicked.
\<close>

section \<open>Operations\<close>

datatype api_op =
    OpAddDirective directive "nat option"
  | OpAddHandler nat
  | OpRelHandler hndid
  | OpAddReference iid "nat option" bool
  | OpRelease refid
  | OpClose iid
  | OpCloseIfUnreferenced iid bool
  | OpTimer iid nat
  | OpAddDisposeCallback iid fnid
  | OpAddIdleCallback iid "fnid option"
  | OpAddStateCallback iid "fnid option"
  | OpRelDisposeCallback iid nat
  | OpRelIdleCallback iid nat
  | OpRelStateCallback iid nat
  | OpAddValue resid ctx gvalue
  | OpRemoveValue resid ctx u32
  | OpMarkIdle resid ctx bool
  | OpClearValues resid ctx
  | OpAddValueRemovedCallback resid ctx u32 "fnid option"
  | OpRelValueRemovedCallback resid u32 u32
  | OpAddResolverRemovedCallback resid ctx "fnid option"
  | OpRelResolverRemovedCallback resid nat
  | OpAddResolver resid ctx "nat option" "fnid option"
  | OpRelSubResolver iid resid
  | OpTaskAbort nat
  | OpTaskStart nat
  | OpTaskReturn nat "goerr option"

text \<open>
  An operation on an instance needs a pointer that was allocated, and a step of a goroutine that the
  goroutine is there; an operation that is not possible changes nothing. Only \<^verbatim>\<open>AddDirective\<close> and the
  operations that call a callback directly can panic; \<open>ran\<close> is an operation that cannot.
\<close>

definition onInst :: "iid \<Rightarrow> (st \<Rightarrow> st option) \<Rightarrow> st \<Rightarrow> st option" where
  "onInst i f s = (if i < next_ptr s then f s else Some s)"

definition ran :: "st option \<Rightarrow> (unit outcome \<times> st) option" where
  "ran m = map_option (Pair (Returned ())) m"

definition ended :: "('a outcome \<times> st) option \<Rightarrow> (unit outcome \<times> st) option" where
  "ended m = map_option (apfst (map_outcome (\<lambda>_. ()))) m"

fun exec_op :: "env \<Rightarrow> api_op \<Rightarrow> st \<Rightarrow> (unit outcome \<times> st) option" where
  "exec_op E (OpAddDirective dir h) s = ended (AddDirective E dir h s)"
| "exec_op E (OpAddHandler h) s = ran (map_option snd (AddHandler E h s))"
| "exec_op E (OpRelHandler h) s = ran (relHandler E h s)"
| "exec_op E (OpAddReference i h w) s = ran (onInst i (\<lambda>s. map_option snd (AddReference E i h w s)) s)"
| "exec_op E (OpRelease r) s = ran (Release E r s)"
| "exec_op E (OpClose i) s = ran (onInst i (Close E i) s)"
| "exec_op E (OpCloseIfUnreferenced i w) s =
     ran (onInst i (\<lambda>s. map_option snd (CloseIfUnreferenced E i w s)) s)"
| "exec_op E (OpTimer i t) s = ran (onInst i (destroyTimerFired E i t) s)"
| "exec_op E (OpAddDisposeCallback i f) s =
     (if i < next_ptr s then ended (AddDisposeCallback E i f s) else ran (Some s))"
| "exec_op E (OpAddIdleCallback i f) s = ran (onInst i (\<lambda>s. map_option snd (AddIdleCallback E i f s)) s)"
| "exec_op E (OpAddStateCallback i f) s = ran (onInst i (\<lambda>s. map_option snd (AddStateCallback E i f s)) s)"
| "exec_op E (OpRelDisposeCallback i p) s = ran (Some (removeReleaseCallbackLocked i p s))"
| "exec_op E (OpRelIdleCallback i p) s = ran (Some (removeIdleCallbackLocked i p s))"
| "exec_op E (OpRelStateCallback i p) s = ran (Some (removeStateCallbackLocked i p s))"
| "exec_op E (OpAddValue r c v) s = ran (map_option snd (AddValue E r c v s))"
| "exec_op E (OpRemoveValue r c vid) s = ran (map_option snd (RemoveValue E r c vid s))"
| "exec_op E (OpMarkIdle r c b) s = ran (MarkIdle E r c b s)"
| "exec_op E (OpClearValues r c) s = ran (map_option snd (ClearValues E r c s))"
| "exec_op E (OpAddValueRemovedCallback r c vid f) s = ended (AddValueRemovedCallback E r c vid f s)"
| "exec_op E (OpRelValueRemovedCallback r vid cbid) s = ran (Some (releaseValueRemovedCallback r vid cbid s))"
| "exec_op E (OpAddResolverRemovedCallback r c f) s = ended (AddResolverRemovedCallback E r c f s)"
| "exec_op E (OpRelResolverRemovedCallback r p) s = ran (Some (releaseResolverRemovedCallback r p s))"
| "exec_op E (OpAddResolver r c sub f) s = ended (AddResolver E r c sub f s)"
| "exec_op E (OpRelSubResolver i sub) s = ran (onInst i (releaseSubResolver E i sub) s)"
| "exec_op E (OpTaskAbort k) s = ran (Some (if executeResolver_canAbort k s then executeResolver_abort k s else s))"
| "exec_op E (OpTaskStart k) s = ran (Some (if executeResolver_canStart k s then executeResolver_start k s else s))"
| "exec_op E (OpTaskReturn k err) s =
     ran (if k < length (tasks s) \<and> task_pc (tasks s ! k) = TaskResolving
          then executeResolver_return E k err s else Some s)"

section \<open>Programs and reachable states\<close>

text \<open>
  What client code does while a callback or a handler runs; \<open>prog_allows\<close> are the operations it makes in
  a state at all, and \<open>prog_recovers\<close> the ones whose panic it recovers (or that another goroutine makes),
  so that what comes after them is still made.
\<close>

record program =
  prog_event :: "event \<Rightarrow> st \<Rightarrow> api_op list"
  prog_handle :: "nat \<Rightarrow> iid \<Rightarrow> st \<Rightarrow> api_op list"
  prog_resolvers :: "nat \<Rightarrow> iid \<Rightarrow> goerr + nat list"
  prog_isEquivalent :: "directive \<Rightarrow> directive \<Rightarrow> bool"
  prog_superceeds :: "directive \<Rightarrow> directive \<Rightarrow> bool"
  prog_allows :: "api_op \<Rightarrow> st \<Rightarrow> bool"
  prog_recovers :: "api_op \<Rightarrow> bool"

fun exec_ops :: "program \<Rightarrow> env \<Rightarrow> api_op list \<Rightarrow> st \<Rightarrow> (unit outcome \<times> st) option" where
  "exec_ops P E [] s = Some (Returned (), s)"
| "exec_ops P E (op # ops) s =
     (if \<not> prog_allows P op s then exec_ops P E ops s
      else do {
        (out, s) \<leftarrow> exec_op E op s;
        if out = Panicked \<and> \<not> prog_recovers P op then Some (Panicked, s) else exec_ops P E ops s
      })"

text \<open>A handler that panics, by itself or through an operation, has returned an error.\<close>

definition handled :: "program \<Rightarrow> nat \<Rightarrow> iid \<Rightarrow> unit outcome \<Rightarrow> goerr + nat list" where
  "handled P h i out = (case out of Panicked \<Rightarrow> Inl (GoErr ''panic'') | Returned _ \<Rightarrow> prog_resolvers P h i)"

primrec run_env :: "program \<Rightarrow> nat \<Rightarrow> env" where
  "run_env P 0 = \<lparr>
     env_run = (\<lambda>ev s. if prog_event P ev s = [] then Some (Returned (), s) else None),
     env_handle = (\<lambda>h i s. if prog_handle P h i s = [] then Some (prog_resolvers P h i, s) else None),
     env_isEquivalent = prog_isEquivalent P, env_superceeds = prog_superceeds P\<rparr>"
| "run_env P (Suc n) = \<lparr>
     env_run = (\<lambda>ev s. exec_ops P (run_env P n) (prog_event P ev s) s),
     env_handle = (\<lambda>h i s. map_option (apfst (handled P h i))
       (exec_ops P (run_env P n) (prog_handle P h i s) s)),
     env_isEquivalent = prog_isEquivalent P, env_superceeds = prog_superceeds P\<rparr>"

inductive reachable :: "program \<Rightarrow> st \<Rightarrow> bool" for P where
  reach_new: "reachable P NewController"
| reach_op: "reachable P s \<Longrightarrow> prog_allows P op s \<Longrightarrow> exec_op (run_env P n) op s = Some (out, s')
     \<Longrightarrow> reachable P s'"

lemma reachable_ops:
  "reachable P s \<Longrightarrow> exec_ops P (run_env P n) ops s = Some (out, s') \<Longrightarrow> reachable P s'"
  by (induction ops arbitrary: s) (auto simp: bind_Some_iff split: if_split_asm intro: reach_op)

text \<open>
  A client is punctual when no resolver is marked as not idle after its \<^verbatim>\<open>Resolve\<close> has returned, as long
  as it has the context of that call. (\<^verbatim>\<open>MarkIdle\<close> itself only checks the context.)
\<close>

definition punctual :: "program \<Rightarrow> bool" where
  "punctual P \<longleftrightarrow> (\<forall>r c s. prog_allows P (OpMarkIdle r c False) s
     \<longrightarrow> \<not> (handlerCurrent r c s \<and> res_exited (heap_res s r)))"

section \<open>Every run preserves the invariants\<close>

context callback_env
begin

lemma onInst_good:
  assumes "good pun s" and "onInst i f s = Some s'"
    and "i < next_ptr s \<Longrightarrow> f s = Some s' \<Longrightarrow> good pun s' \<and> stable s s'"
  shows "good pun s' \<and> stable s s'"
  using assms by (auto simp: onInst_def split: if_split_asm)

lemma executeResolver_abort_good:
  "good pun s \<Longrightarrow> good pun (executeResolver_abort k s) \<and> stable s (executeResolver_abort k s)"
  unfolding executeResolver_abort_def by (rule exitTask_good)

lemmas op_good = AddDirective_good[rotated] AddHandler_good[rotated] relHandler_good[rotated]
  Release_good[rotated] Close_good[rotated 2] CloseIfUnreferenced_good[rotated 2]
  destroyTimerFired_good[rotated 2] addReferenceLocked_good[rotated 2]
  AddDisposeCallback_good[rotated] AddIdleCallback_good[rotated 2] AddStateCallback_good[rotated 2]
  AddValue_good[rotated] RemoveValue_good[rotated] ClearValues_good[rotated]
  AddValueRemovedCallback_good[rotated] AddResolverRemovedCallback_good[rotated]
  AddResolver_good[rotated] releaseSubResolver_good[rotated 2]

lemmas step_good = removeCallbacks_good releaseValueRemovedCallback_good
  releaseResolverRemovedCallback_good executeResolver_abort_good executeResolver_start_good

lemma exec_op_good:
  assumes "good pun s" and "exec_op E op s = Some (out, s')"
    and "\<And>r c. pun \<Longrightarrow> op = OpMarkIdle r c False \<Longrightarrow> \<not> (handlerCurrent r c s \<and> res_exited (heap_res s r))"
  shows "good pun s' \<and> stable s s'"
  using assms
proof (cases op)
  case (OpTaskReturn k err)
  with assms executeResolver_return_good show ?thesis by (auto simp: ran_def split: if_split_asm)
next
  case (OpMarkIdle r c b)
  with assms(1,2) assms(3)[of r c] MarkIdle_good[of s b r c s'] show ?thesis by (cases b) (auto simp: ran_def)
qed (simp_all add: map_option_eq_Some onInst_def AddReference_def ran_def ended_def split: if_split_asm,
    (fast dest: op_good | clarsimp simp: step_good)+)

lemma exec_ops_good:
  assumes "good pun s" and "exec_ops P E ops s = Some (out, s')" and "pun \<longrightarrow> punctual P"
  shows "good pun s' \<and> stable s s'"
  using assms(1,2)
proof (induction ops arbitrary: s)
  case (Cons op ops)
  show ?case
  proof (cases "prog_allows P op s")
    case True
    then obtain o1 t where t: "exec_op E op s = Some (o1, t)"
      "(if o1 = Panicked \<and> \<not> prog_recovers P op then Some (Panicked, t) else exec_ops P E ops t) = Some (out, s')"
      using Cons.prems(2) by (auto simp: bind_Some_iff)
    have gt: "good pun t \<and> stable s t"
      by (rule exec_op_good[OF Cons.prems(1) t(1)]) (use True assms(3) in \<open>auto simp: punctual_def\<close>)
    show ?thesis using t(2) gt Cons.IH[of t] stable_trans by (auto split: if_split_asm)
  next
    case False
    then show ?thesis using Cons by simp
  qed
qed simp

end

lemma callback_env_run: "pun \<longrightarrow> punctual P \<Longrightarrow> callback_env (run_env P n) pun"
proof (induction n)
  case 0
  show ?case by unfold_locales (auto split: if_split_asm)
next
  case (Suc n)
  show ?case
    by unfold_locales (auto dest: callback_env.exec_ops_good[OF Suc.IH[OF Suc.prems] _ _ Suc.prems])
qed

interpretation run: callback_env "run_env P n" "pun \<and> punctual P" for P n pun
  by (rule callback_env_run) simp

lemma NewController_good: "good pun NewController"
  by (auto simp: good_defs Let_def NewController_def zero_inst_def zero_ref_def zero_res_def
      no_options_def plain_directive_def)

lemma run_op_good:
  assumes "good (pun \<and> punctual P) s" "prog_allows P op s" "exec_op (run_env P n) op s = Some (out, s')"
  shows "good (pun \<and> punctual P) s' \<and> stable s s'"
  by (rule run.exec_op_good[OF assms(1,3)]) (use assms(2) in \<open>auto simp: punctual_def\<close>)

lemma reachable_good: "reachable P s \<Longrightarrow> good (pun \<and> punctual P) s"
  by (induction rule: reachable.induct) (use NewController_good run_op_good in blast)+

lemma reachable_flags:
  "reachable P s \<Longrightarrow> \<not> di_callingRefCbs (heap_inst s i) \<and> \<not> di_stateChangedSkip (heap_inst s i)"
proof (induction rule: reachable.induct)
  case reach_new
  then show ?case by (simp add: NewController_def zero_inst_def)
next
  case (reach_op s op n out s')
  then have "stable s s'" using run_op_good[of False] reachable_good[of P s False] by blast
  with reach_op.IH show ?case by (simp add: stable_def)
qed

end
