(* ===== verification/Dir_Props.thy ===== *)
theory Dir_Props
  imports Dir_Runs
begin

text \<open>
  What holds of the directive controller in every state a client can reach, whatever its
  callbacks, handlers and other goroutines do, with the run that the witnesses look at.
\<close>

section \<open>A run to look at\<close>

text \<open>
  A directive with a hard cap of two values, one handler, and a callback that adds a weak
  reference while the first value is announced.
\<close>

definition demo_opts :: value_options where
  "demo_opts = \<lparr>MaxValueCount = 2, MaxValueHardCap = True, UnrefDisposeDur = 0,
     UnrefDisposeEmptyImmediate = False\<rparr>"

definition demo_dir :: directive where
  "demo_dir = (plain_directive 77)\<lparr>dir_valueOptions := demo_opts\<rparr>"

definition demo_prog :: program where
  "demo_prog = \<lparr>
     prog_event = (\<lambda>ev s. case ev of
         HandleValueAdded r i vid v \<Rightarrow> if r = 4 \<and> vid = 1 then [OpAddReference i (Some 9) True] else []
       | _ \<Rightarrow> []),
     prog_handle = (\<lambda>h i s. []), prog_resolvers = (\<lambda>h i. Inr [7]),
     prog_isEquivalent = (\<lambda>a b. False), prog_superceeds = (\<lambda>a b. False),
     prog_allows = (\<lambda>op s. case op of
         OpMarkIdle r c b \<Rightarrow> b \<or> \<not> (handlerCurrent r c s \<and> res_exited (heap_res s r))
       | _ \<Rightarrow> True),
     prog_recovers = (\<lambda>_. False)\<rparr>"

lemma demo_punctual: "punctual demo_prog"
  by (simp add: punctual_def demo_prog_def)

definition demo_ops :: "api_op list" where
  "demo_ops = [OpAddHandler 0, OpAddDirective demo_dir (Some 5), OpTaskStart 0,
     OpAddValue 5 [7, 3, 0] 100, OpAddValue 5 [7, 3, 0] 101, OpAddValue 5 [7, 3, 0] 102,
     OpAddStateCallback 2 (Some 6)]"

text \<open>What the witnesses look at in the last state of the run, evaluated once.\<close>

definition demo_obs where
  "demo_obs s = (event_log s, c_dir s, di_refs (heap_inst s 2), hasNonWeakRef s 2,
     di_res (heap_inst s 2), di_idle (heap_inst s 2), di_valueOpts (heap_inst s 2) = demo_opts,
     countValuesLocked s 2, di_valCtr (heap_inst s 2), di_snapshot (heap_inst s 2))"

lemma demo_run:
  "map_option (apsnd demo_obs) (exec_ops demo_prog (run_env demo_prog 3) demo_ops NewController) = Some
    (Returned (), [HandleValueAdded 4 2 1 100, HandleValueAdded 8 2 1 100, HandleValueAdded 8 2 2 101,
      HandleValueAdded 4 2 2 101, CallState 6 True [] [(1, 100), (2, 101)]],
     [2], [8, 4], True, [5], True, True, 2, 2,
     Some \<lparr>snap_idle = True, snap_errs = [], snap_vals = [(1, 100), (2, 101)]\<rparr>)"
  by code_simp

definition demo_state :: st where
  "demo_state = snd (the (exec_ops demo_prog (run_env demo_prog 3) demo_ops NewController))"

lemma demo_state_eq: "exec_ops demo_prog (run_env demo_prog 3) demo_ops NewController = Some (Returned (), demo_state)"
  using demo_run by (auto simp: demo_state_def)

lemma demo_reachable: "reachable demo_prog demo_state"
  using reachable_ops[OF reach_new demo_state_eq] .

lemma demo_facts:
  "event_log demo_state =
     [HandleValueAdded 4 2 1 100, HandleValueAdded 8 2 1 100, HandleValueAdded 8 2 2 101,
      HandleValueAdded 4 2 2 101, CallState 6 True [] [(1, 100), (2, 101)]]"
  "c_dir demo_state = [2]" "di_refs (heap_inst demo_state 2) = [8, 4]" "hasNonWeakRef demo_state 2"
  "di_res (heap_inst demo_state 2) = [5]" "di_idle (heap_inst demo_state 2)"
  "di_valueOpts (heap_inst demo_state 2) = demo_opts" "countValuesLocked demo_state 2 = 2"
  "di_valCtr (heap_inst demo_state 2) = 2" "di_snapshot (heap_inst demo_state 2)
     = Some \<lparr>snap_idle = True, snap_errs = [], snap_vals = [(1, 100), (2, 101)]\<rparr>"
  using demo_run by (simp_all add: demo_state_eq demo_obs_def)

section \<open>Properties of reachable states\<close>

text \<open>
  C1: a directive with a hard cap on its values never has more of them attached, over all its
  resolvers, than the cap allows.
\<close>

theorem hard_cap_never_exceeded:
  assumes "reachable P s"
    and "MaxValueHardCap (di_valueOpts (heap_inst s i))" and "0 < MaxValueCount (di_valueOpts (heap_inst s i))"
  shows "int (countValuesLocked s i) \<le> MaxValueCount (di_valueOpts (heap_inst s i))"
proof -
  have "capOk s i" using reachable_good[OF assms(1), of False] by (simp add: goodX_def instOk_def)
  with assms(2,3) show ?thesis by (simp add: capOk_def Let_def max_def split: if_split_asm)
qed

theorem hard_cap_never_exceeded_witness:
  "countValuesLocked demo_state 2 = 2 \<and> int (countValuesLocked demo_state 2) \<le> 2
     \<and> di_valCtr (heap_inst demo_state 2) = 2"
proof -
  have "int (countValuesLocked demo_state 2) \<le> MaxValueCount (di_valueOpts (heap_inst demo_state 2))"
    by (rule hard_cap_never_exceeded[OF demo_reachable]) (simp_all add: demo_facts demo_opts_def)
  then show ?thesis by (simp add: demo_facts demo_opts_def)
qed

text \<open>
  C2: the idle flag that idle callbacks are told about. In every reachable state a directive whose
  initial handlers were called and none of whose resolvers is running is marked idle, and one that is
  marked idle had its handlers called. That none of its resolvers is running then holds for punctual
  clients: those that do not call \<^verbatim>\<open>MarkIdle(false)\<close> for a resolver that has returned. For them the flag
  is exact.
\<close>

theorem idle_flag_exact:
  assumes "reachable P s"
  shows "(di_ready (heap_inst s i) \<and> (\<forall>r \<in> set (di_res (heap_inst s i)). res_idle (heap_res s r) \<or> res_exited (heap_res s r))
      \<longrightarrow> di_idle (heap_inst s i))
    \<and> (di_idle (heap_inst s i) \<longrightarrow> di_ready (heap_inst s i) \<and> (punctual P
      \<longrightarrow> (\<forall>r \<in> set (di_res (heap_inst s i)). res_idle (heap_res s r) \<or> res_exited (heap_res s r))))"
proof -
  have "idleOk (True \<and> punctual P) s i" using reachable_good[OF assms, of True] by (simp add: goodX_def)
  moreover have "countRunningResolversLocked s i = 0
      \<longleftrightarrow> (\<forall>r \<in> set (di_res (heap_inst s i)). res_idle (heap_res s r) \<or> res_exited (heap_res s r))"
    by (auto simp: countRunningResolversLocked_def filter_empty_conv)
  ultimately show ?thesis unfolding idleOk_def idleFlag_def by blast
qed

theorem idle_flag_exact_witness:
  "di_idle (heap_inst demo_state 2) \<and> di_ready (heap_inst demo_state 2)
     \<and> di_res (heap_inst demo_state 2) = [5]
     \<and> (res_idle (heap_res demo_state 5) \<or> res_exited (heap_res demo_state 5))"
proof -
  have "di_ready (heap_inst demo_state 2) \<and> (\<forall>r \<in> set (di_res (heap_inst demo_state 2)).
      res_idle (heap_res demo_state r) \<or> res_exited (heap_res demo_state r))"
    using idle_flag_exact[OF demo_reachable, of 2] demo_facts(6) demo_punctual by blast
  then show ?thesis by (simp add: demo_facts)
qed

text \<open>
  A client that is not punctual: a resolver whose \<^verbatim>\<open>Resolve\<close> failed is marked as not idle, which changes
  nothing yet. When it is restarted, because a value was removed and the directive is not full any more,
  \<^verbatim>\<open>setIdleLocked(false)\<close> finds nothing to change, and the directive stays marked as idle while its
  resolver runs.
\<close>

definition late_prog :: program where
  "late_prog = demo_prog\<lparr>prog_event := (\<lambda>ev s. []), prog_allows := (\<lambda>op s. True)\<rparr>"

definition late_dir :: directive where
  "late_dir = (plain_directive 77)\<lparr>dir_valueOptions := no_options\<lparr>MaxValueCount := 1\<rparr>\<rparr>"

definition late_ops :: "api_op list" where
  "late_ops = [OpAddHandler 0, OpAddDirective late_dir None, OpTaskStart 0, OpAddValue 5 [7, 3, 0] 100,
     OpTaskReturn 0 (Some (GoErr ''failed'')), OpMarkIdle 5 [7, 3, 0] False]"

definition late_inst :: inst where
  "late_inst = zero_inst\<lparr>di_ctx := [3, 0], di_dir := late_dir, di_valueOpts := dir_valueOptions late_dir,
     di_ready := True, di_refs := [4], di_res := [5], di_valCtr := 1, di_idle := True, di_full := True\<rparr>"

definition late_res :: resolver where
  "late_res = zero_res\<lparr>res_di := 2, res_hnd := 1, res_res := 7, res_err := Some (GoErr ''failed''),
     res_ctx := Some [7, 3, 0], res_exitedCh := Some 6,
     res_vals := [\<lparr>v_id = 1, v_val = 100, v_removeCallbackCtr = 0, v_removeCallbacks = []\<rparr>],
     res_idle := False, res_exited := True\<rparr>"

lemma late_run: "map_option (\<lambda>(out, s). (out, heap_inst s 2 = late_inst, heap_res s 5 = late_res, ref_h (heap_ref s 4)))
    (exec_ops late_prog (run_env late_prog 1) late_ops NewController) = Some (Returned (), True, True, None)"
  by code_simp

lemma late_restart:
  assumes "heap_inst s 2 = late_inst" "heap_res s 5 = late_res" "ref_h (heap_ref s 4) = None"
  shows "\<exists>t. exec_op E (OpRemoveValue 5 [7, 3, 0] 1) s = Some (Returned (), t) \<and> di_idle (heap_inst t 2)
    \<and> di_res (heap_inst t 2) = [5] \<and> \<not> res_idle (heap_res t 5) \<and> \<not> res_exited (heap_res t 5)"
  using assms
  by (simp add: ran_def RemoveValue_def handlerCurrent_def removeValueLocked_def late_res_def late_inst_def zero_res_def
      zero_inst_def onValuesRemovedLocked_def deferCheckStateChanged_def runDeferred_def markStateChanged_def live_ref_def valueRemovedEvents_def
      callCallbackEventsLocked_def checkFullLocked_def handleNotFullLocked_def handleNotFullStep_def countValuesLocked_def
      updateContextLocked_def cancelResolverCtx_def cancelCtx_def setIdleLocked_def withCancel_def late_dir_def
      no_options_def plain_directive_def removeAt_def Let_def)

lemma idle_while_running:
  "\<exists>P s i r. reachable P s \<and> di_idle (heap_inst s i) \<and> r \<in> set (di_res (heap_inst s i))
     \<and> \<not> res_idle (heap_res s r) \<and> \<not> res_exited (heap_res s r)"
proof -
  obtain s where s: "exec_ops late_prog (run_env late_prog 1) late_ops NewController = Some (Returned (), s)"
    "heap_inst s 2 = late_inst" "heap_res s 5 = late_res" "ref_h (heap_ref s 4) = None" using late_run by auto
  obtain t where t: "exec_op (run_env late_prog 1) (OpRemoveValue 5 [7, 3, 0] 1) s = Some (Returned (), t)"
    "di_idle (heap_inst t 2)" "di_res (heap_inst t 2) = [5]" "\<not> res_idle (heap_res t 5)" "\<not> res_exited (heap_res t 5)"
    using late_restart[OF s(2-4)] by blast
  have "reachable late_prog t"
    using reachable_ops[OF reach_new s(1)] _ t(1) by (rule reach_op) (simp add: late_prog_def)
  with t(2-5) show ?thesis by (intro exI[of _ late_prog] exI[of _ t] exI[of _ 2] exI[of _ 5]) simp
qed

text \<open>
  C3: the code decides whether an instance has a strong reference by looking at the last element
  of its list only; that is right in every reachable state, because weak references are always
  in front.
\<close>

theorem last_reference_decides:
  assumes "reachable P s"
  shows "hasNonWeakRef s i \<longleftrightarrow> (\<exists>r \<in> set (di_refs (heap_inst s i)). \<not> ref_weak (heap_ref s r))"
proof -
  have w: "weakFirst s (di_refs (heap_inst s i))"
    using reachable_good[OF assms, of False] by (simp add: goodX_def instOk_def refsOk_def)
  show ?thesis
  proof (cases "di_refs (heap_inst s i)" rule: rev_cases)
    case Nil
    then show ?thesis by (simp add: hasNonWeakRef_def)
  next
    case (snoc rs r)
    with w show ?thesis by (auto simp: hasNonWeakRef_def weakFirst_def sorted_wrt_append)
  qed
qed

theorem last_reference_decides_witness:
  "di_refs (heap_inst demo_state 2) = [8, 4] \<and> hasNonWeakRef demo_state 2
     \<and> (\<exists>r \<in> {8, 4}. \<not> ref_weak (heap_ref demo_state r))"
  using last_reference_decides[OF demo_reachable, of 2] by (simp add: demo_facts)

text \<open>
  C5: no callback is left behind and no flag stays set: when a call into the controller has
  returned, every instance has an empty callback queue, is not marked as calling callbacks, and
  does not suppress state changes.
\<close>

theorem no_callback_left_behind:
  assumes "reachable P s"
  shows "di_refCbs (heap_inst s i) = [] \<and> \<not> di_callingRefCbs (heap_inst s i)
    \<and> \<not> di_stateChangedSkip (heap_inst s i)"
  using reachable_flags[OF assms, of i] reachable_good[OF assms, of False]
  by (simp add: goodX_def instOk_def queueOk_def)

theorem no_callback_left_behind_witness:
  "di_refCbs (heap_inst demo_state 2) = [] \<and> event_log demo_state =
     [HandleValueAdded 4 2 1 100, HandleValueAdded 8 2 1 100, HandleValueAdded 8 2 2 101,
      HandleValueAdded 4 2 2 101, CallState 6 True [] [(1, 100), (2, 101)]]"
  using no_callback_left_behind[OF demo_reachable, of 2] by (simp add: demo_facts)

text \<open>
  C6: the cached state snapshot, which \<^verbatim>\<open>AddStateCallback\<close> hands out without recomputing it,
  always has the current values of the directive, in order, and the current idle state.
\<close>

theorem cached_snapshot_current:
  assumes "reachable P s" and "di_snapshot (heap_inst s i) = Some sn"
  shows "snap_vals sn = getResolverAttachedValsLocked s i
    \<and> (snap_idle sn \<longleftrightarrow> di_ready (heap_inst s i) \<and> di_idle (heap_inst s i))"
proof -
  have "snapOk s i" using reachable_good[OF assms(1), of False] by (simp add: goodX_def)
  with assms(2) show ?thesis by (simp add: snapOk_def)
qed

theorem cached_snapshot_current_witness:
  "di_snapshot (heap_inst demo_state 2)
       = Some \<lparr>snap_idle = True, snap_errs = [], snap_vals = [(1, 100), (2, 101)]\<rparr>
     \<and> getResolverAttachedValsLocked demo_state 2 = [(1, 100), (2, 101)]"
  using cached_snapshot_current[OF demo_reachable demo_facts(10)] by (simp add: demo_facts)

text \<open>
  C7: a resolver is attached to one instance only, the one it was made for, and only once; so is
  a reference; and the controller lists an instance or a handler only once.
\<close>

theorem attached_once:
  assumes "reachable P s"
  shows "distinct (di_res (heap_inst s i)) \<and> distinct (di_refs (heap_inst s i))
    \<and> (i \<noteq> j \<longrightarrow> set (di_res (heap_inst s i)) \<inter> set (di_res (heap_inst s j)) = {}
         \<and> set (di_refs (heap_inst s i)) \<inter> set (di_refs (heap_inst s j)) = {})
    \<and> distinct (c_dir s) \<and> distinct (c_hnd s)"
proof -
  have "refsOk s i" "refsOk s j" "resOk s i" "resOk s j" "ptrOk s"
    using reachable_good[OF assms, of False] by (auto simp: goodX_def instOk_def)
  then show ?thesis unfolding refsOk_def resOk_def ptrOk_def by fastforce
qed

theorem attached_once_witness:
  "distinct (di_refs (heap_inst demo_state 2)) \<and> di_refs (heap_inst demo_state 2) = [8, 4]
     \<and> c_dir demo_state = [2] \<and> distinct (c_dir demo_state)"
  using attached_once[OF demo_reachable, of 2 2] by (simp add: demo_facts)

end
