(* ===== verification/Version.thy ===== *)
theory Version
  imports Cb_Prelude "HOL-Library.Char_ord" "HOL-Library.List_Lexorder" "HOL-Library.Product_Lexorder"
begin

text \<open>
  Controller versions (\<^verbatim>\<open>controller/version.go\<close>): parsing, comparing, and the order they are
  compared by. Go strings are byte strings, here lists of characters, compared byte by byte.
\<close>

section \<open>What the code uses of the standard library\<close>

text \<open>\<^verbatim>\<open>strings.Split(s, sep)\<close> for a separator of one byte.\<close>

fun split :: "char \<Rightarrow> string \<Rightarrow> string list" where
  "split d [] = [[]]"
| "split d (c # cs) = (if c = d then [] # split d cs
     else case split d cs of [] \<Rightarrow> [[c]] | p # ps \<Rightarrow> (c # p) # ps)"

text \<open>\<^verbatim>\<open>strings.IndexAny(s, chars)\<close> followed by \<^verbatim>\<open>s[:idx]\<close> if there is an index.\<close>

definition beforeAny :: "char set \<Rightarrow> string \<Rightarrow> string" where
  "beforeAny cs s = takeWhile (\<lambda>c. c \<notin> cs) s"

text \<open>
  \<^verbatim>\<open>strconv.ParseUint(s, 10, 64)\<close> for a non-empty string: the bytes are read from the left, a byte
  that is no digit is a syntax error, a value of \<^term>\<open>2 ^ 64\<close> or more a range error.
\<close>

definition digit_of :: "char \<Rightarrow> nat option" where
  "digit_of c = (if 48 \<le> (of_char c :: nat) \<and> (of_char c :: nat) \<le> 57 then Some (of_char c - 48) else None)"

fun parseUint :: "nat \<Rightarrow> string \<Rightarrow> goerr + nat" where
  "parseUint n [] = Inr n"
| "parseUint n (c # cs) = (case digit_of c of
     None \<Rightarrow> Inl (GoErr ''invalid syntax'')
   | Some d \<Rightarrow> if 2 ^ 64 \<le> n * 10 + d then Inl (GoErr ''value out of range'')
               else parseUint (n * 10 + d) cs)"

text \<open>\<^verbatim>\<open>strings.Compare\<close>.\<close>

definition compareStr :: "string \<Rightarrow> string \<Rightarrow> int" where
  "compareStr a b = (if a = b then 0 else if a < b then -1 else 1)"

section \<open>Versions\<close>

datatype version = Version (v_value: string) (v_major: u64) (v_minor: u64) (v_patch: u64)

definition parseVersionPart :: "string \<Rightarrow> goerr + u64" where
  "parseVersionPart part =
     (if part = [] then Inl (GoErr ''version part is empty'')
      else map_sum id of_nat (parseUint 0 part))"

definition ParseVersion :: "string \<Rightarrow> goerr + version" where
  "ParseVersion value =
     (let base = beforeAny {CHR ''-'', CHR ''+''} value;
          parts = split (CHR ''.'') base in
      if length parts \<noteq> 3 then Inl (GoErr ''version must be major.minor.patch'')
      else case parseVersionPart (parts ! 0) of Inl e \<Rightarrow> Inl e
      | Inr major \<Rightarrow> (case parseVersionPart (parts ! 1) of Inl e \<Rightarrow> Inl e
      | Inr minor \<Rightarrow> (case parseVersionPart (parts ! 2) of Inl e \<Rightarrow> Inl e
      | Inr patch \<Rightarrow> Inr (Version value major minor patch))))"

text \<open>\<^verbatim>\<open>MustParseVersion\<close>; \<^term>\<open>None\<close> is the panic.\<close>

definition MustParseVersion :: "string \<Rightarrow> version option" where
  "MustParseVersion value = (case ParseVersion value of Inl _ \<Rightarrow> None | Inr v \<Rightarrow> Some v)"

definition version_String :: "version \<Rightarrow> string" where
  "version_String v = v_value v"

definition compareVersion :: "version \<Rightarrow> version \<Rightarrow> int" where
  "compareVersion a b =
     (if v_major a \<noteq> v_major b then (if v_major a > v_major b then 1 else -1)
      else if v_minor a \<noteq> v_minor b then (if v_minor a > v_minor b then 1 else -1)
      else if v_patch a \<noteq> v_patch b then (if v_patch a > v_patch b then 1 else -1)
      else compareStr (v_value a) (v_value b))"

definition GT :: "version \<Rightarrow> version \<Rightarrow> bool" where
  "GT v other \<longleftrightarrow> compareVersion v other > 0"

definition GTE :: "version \<Rightarrow> version \<Rightarrow> bool" where
  "GTE v other \<longleftrightarrow> compareVersion v other \<ge> 0"

section \<open>The order of versions\<close>

text \<open>The order on versions as the comparison of a key, and the comparison function read off it.\<close>

definition version_key :: "version \<Rightarrow> u64 \<times> u64 \<times> u64 \<times> string" where
  "version_key v = (v_major v, v_minor v, v_patch v, v_value v)"

lemma version_key_inj: "version_key a = version_key b \<longleftrightarrow> a = b"
  by (cases a; cases b) (auto simp: version_key_def)

instantiation version :: linorder
begin

definition less_eq_version :: "version \<Rightarrow> version \<Rightarrow> bool" where
  "a \<le> b \<longleftrightarrow> version_key a \<le> version_key b"

definition less_version :: "version \<Rightarrow> version \<Rightarrow> bool" where
  "a < b \<longleftrightarrow> version_key a < version_key b"

instance
  by standard (auto simp: less_eq_version_def less_version_def version_key_inj[symmetric])

end

lemma compareVersion_key:
  "compareVersion a b = (if a = b then 0 else if a < b then -1 else 1)"
proof (cases a; cases b)
  fix va ma na pa vb mb nb pb
  assume "a = Version va ma na pa" "b = Version vb mb nb pb"
  then show ?thesis
    by (auto simp: compareVersion_def compareStr_def less_version_def version_key_def)
qed

lemma GT_iff: "GT a b \<longleftrightarrow> b < a"
  by (auto simp: GT_def compareVersion_key)

lemma GTE_iff: "GTE a b \<longleftrightarrow> b \<le> a"
  by (auto simp: GTE_def compareVersion_key)

section \<open>Parsing decimal numbers\<close>

lemma parseUint_bound: "parseUint n s = Inr m \<Longrightarrow> n < 2 ^ 64 \<Longrightarrow> m < 2 ^ 64"
  by (induction n s rule: parseUint.induct) (auto split: option.splits if_split_asm)

lemma parseUint_append:
  "parseUint n (s @ t) = (case parseUint n s of Inl e \<Rightarrow> Inl e | Inr m \<Rightarrow> parseUint m t)"
  by (induction n s rule: parseUint.induct) (auto split: option.splits)

text \<open>The decimal digits of a number, as \<^verbatim>\<open>strconv.FormatUint\<close> writes them.\<close>

fun showNat :: "nat \<Rightarrow> string" where
  "showNat n = (if n < 10 then [char_of (48 + n)] else showNat (n div 10) @ [char_of (48 + n mod 10)])"

declare showNat.simps [simp del]

lemma digit_of_char [simp]: "d < 10 \<Longrightarrow> digit_of (char_of (48 + d)) = Some d"
  by (simp add: digit_of_def)

lemma parseUint_showNat: "n < 2 ^ 64 \<Longrightarrow> parseUint 0 (showNat n) = Inr n"
proof (induction n rule: showNat.induct)
  case (1 n)
  show ?case
  proof (cases "n < 10")
    case True
    then show ?thesis by (subst showNat.simps) simp
  next
    case False
    have "n div 10 < 2 ^ 64" using "1.prems" by linarith
    with 1 False have IH: "parseUint 0 (showNat (n div 10)) = Inr (n div 10)" by simp
    have "n div 10 * 10 + n mod 10 = n" by simp
    with False "1.prems" show ?thesis
      by (subst showNat.simps) (simp add: parseUint_append IH del: mult_div_mod_eq)
  qed
qed

lemma showNat_digits: "c \<in> set (showNat n) \<Longrightarrow> \<exists>d < 10. c = char_of (48 + d :: nat)"
proof (induction n rule: showNat.induct)
  case (1 n)
  then show ?case by (subst (asm) (2) showNat.simps) (auto split: if_split_asm intro: exI[of _ "n mod 10"])
qed

lemma showNat_ne [simp]: "showNat n \<noteq> []"
  by (subst showNat.simps) simp

lemma digit_char_ne:
  "d < 10 \<Longrightarrow> char_of (48 + d :: nat) \<noteq> CHR ''.''" "d < 10 \<Longrightarrow> char_of (48 + d :: nat) \<noteq> CHR ''-''"
  "d < 10 \<Longrightarrow> char_of (48 + d :: nat) \<noteq> CHR ''+''"
proof -
  have *: "char_of (48 + d) = c \<Longrightarrow> d < 10 \<Longrightarrow> 48 \<le> (of_char c :: nat) \<and> (of_char c :: nat) \<le> 57" for c and d :: nat
    by auto
  show "d < 10 \<Longrightarrow> char_of (48 + d :: nat) \<noteq> CHR ''.''" using *[of d "CHR ''.''"] by auto
  show "d < 10 \<Longrightarrow> char_of (48 + d :: nat) \<noteq> CHR ''-''" using *[of d "CHR ''-''"] by auto
  show "d < 10 \<Longrightarrow> char_of (48 + d :: nat) \<noteq> CHR ''+''" using *[of d "CHR ''+''"] by auto
qed

section \<open>Splitting\<close>

lemma split_ne [simp]: "split d s \<noteq> []"
  by (cases s) (auto split: list.split)

lemma split_no_sep: "d \<notin> set s \<Longrightarrow> split d s = [s]"
  by (induction s) auto

lemma split_append: "d \<notin> set s \<Longrightarrow> split d (s @ d # t) = s # split d t"
  by (induction s) auto

text \<open>Joining with the separator is the inverse of splitting.\<close>

fun join :: "char \<Rightarrow> string list \<Rightarrow> string" where
  "join d [] = []"
| "join d [p] = p"
| "join d (p # q # ps) = p @ d # join d (q # ps)"

lemma join_split: "join d (split d s) = s"
proof (induction s)
  case Nil
  then show ?case by simp
next
  case (Cons c cs)
  then show ?case
    by (cases "split d cs" rule: list.exhaust; cases "tl (split d cs)") auto
qed

lemma split_parts: "p \<in> set (split d s) \<Longrightarrow> d \<notin> set p"
  by (induction s arbitrary: p) (auto split: list.splits if_split_asm)

section \<open>Which strings are versions\<close>

text \<open>A part of a version: a non-empty string of digits whose value fits 64 bits.\<close>

definition decimal :: "string \<Rightarrow> nat \<Rightarrow> bool" where
  "decimal p n \<longleftrightarrow> p \<noteq> [] \<and> parseUint 0 p = Inr n"

lemma parseVersionPart_iff:
  "parseVersionPart p = Inr w \<longleftrightarrow> (\<exists>n. decimal p n \<and> w = of_nat n)"
  by (auto simp: parseVersionPart_def decimal_def split: if_split_asm)
    (cases "parseUint 0 p"; auto)+

lemma decimal_lt: "decimal p n \<Longrightarrow> n < 2 ^ 64"
  by (auto simp: decimal_def dest: parseUint_bound)

lemma decimal_showNat: "n < 2 ^ 64 \<Longrightarrow> decimal (showNat n) n"
  by (simp add: decimal_def parseUint_showNat)

lemma length3_iff: "length xs = 3 \<longleftrightarrow> (\<exists>a b c. xs = [a, b, c])"
  by (auto simp: numeral_3_eq_3 length_Suc_conv)

lemma split3_iff:
  "split d s = [a, b, c] \<longleftrightarrow> d \<notin> set a \<and> d \<notin> set b \<and> d \<notin> set c \<and> s = a @ d # b @ d # c"
proof
  assume s: "split d s = [a, b, c]"
  then have "d \<notin> set a" "d \<notin> set b" "d \<notin> set c" using split_parts[of _ d s] by auto
  with s join_split[of d s] show "d \<notin> set a \<and> d \<notin> set b \<and> d \<notin> set c \<and> s = a @ d # b @ d # c" by simp
qed (auto simp: split_append split_no_sep)

lemma ParseVersion_iff:
  "ParseVersion s = Inr v \<longleftrightarrow> (\<exists>a b c x y z. beforeAny {CHR ''-'', CHR ''+''} s = a @ ''.'' @ b @ ''.'' @ c
     \<and> CHR ''.'' \<notin> set a \<and> CHR ''.'' \<notin> set b \<and> CHR ''.'' \<notin> set c
     \<and> decimal a x \<and> decimal b y \<and> decimal c z
     \<and> v = Version s (of_nat x) (of_nat y) (of_nat z))" (is "?L \<longleftrightarrow> ?R")
proof
  assume L: ?L
  let ?base = "beforeAny {CHR ''-'', CHR ''+''} s"
  obtain a b c where p: "split (CHR ''.'') ?base = [a, b, c]"
    using L by (auto simp: ParseVersion_def Let_def length3_iff split: if_split_asm)
  with L obtain x y z where "parseVersionPart a = Inr x" "parseVersionPart b = Inr y"
      "parseVersionPart c = Inr z" "v = Version s x y z"
    by (auto simp: ParseVersion_def Let_def split: sum.splits)
  with p show ?R unfolding split3_iff parseVersionPart_iff by auto blast
next
  assume ?R
  then obtain a b c x y z where "split (CHR ''.'') (beforeAny {CHR ''-'', CHR ''+''} s) = [a, b, c]"
    "decimal a x" "decimal b y" "decimal c z" "v = Version s (of_nat x) (of_nat y) (of_nat z)"
    unfolding split3_iff by auto
  moreover have "\<And>p n. decimal p n \<Longrightarrow> parseVersionPart p = Inr (of_nat n)"
    unfolding parseVersionPart_iff by blast
  ultimately show ?L by (simp add: ParseVersion_def Let_def)
qed

lemma beforeAny_append: "set s \<inter> cs = {} \<Longrightarrow> beforeAny cs (s @ t) = s @ beforeAny cs t"
  unfolding beforeAny_def by (rule takeWhile_append2) auto

lemma showNat_plain: "set (showNat n) \<inter> {CHR ''-'', CHR ''+'', CHR ''.''} = {}"
  using showNat_digits digit_char_ne by fastforce

text \<open>The definitions, to parse a given text by simplification.\<close>

lemmas parse_simps = MustParseVersion_def ParseVersion_def beforeAny_def parseVersionPart_def
  digit_of_def Let_def

section \<open>Properties\<close>

text \<open>\<^verbatim>\<open>compareVersion\<close> is a three-way comparison of a total order, and \<^verbatim>\<open>GT\<close> and \<^verbatim>\<open>GTE\<close> are its parts.\<close>

lemma compareVersion_total_order:
  "(compareVersion a b = 0 \<longleftrightarrow> a = b) \<and> compareVersion b a = - compareVersion a b
     \<and> (GTE a b \<longleftrightarrow> \<not> GT b a) \<and> (GT a b \<or> GT b a \<or> a = b)
     \<and> (\<not> (GTE a b \<and> GTE b c) \<or> GTE a c) \<and> (\<not> (GT a b \<and> GTE b c) \<or> GT a c)"
  by (auto simp: compareVersion_key GT_iff GTE_iff)

text \<open>
  Parsing accepts exactly the strings whose part before the first \<^verbatim>\<open>-\<close> or \<^verbatim>\<open>+\<close> is three
  non-empty decimal numbers below \<^term>\<open>2 ^ 64\<close> with two dots between them; the numbers are the
  fields, without wrap-around, and the whole string is kept.
\<close>

theorem ParseVersion_exact:
  "ParseVersion s = Inr v \<longleftrightarrow> v_value v = s
     \<and> (\<exists>a b c. beforeAny {CHR ''-'', CHR ''+''} s = a @ ''.'' @ b @ ''.'' @ c
          \<and> CHR ''.'' \<notin> set a \<and> CHR ''.'' \<notin> set b \<and> CHR ''.'' \<notin> set c
          \<and> decimal a (unat (v_major v)) \<and> decimal b (unat (v_minor v)) \<and> decimal c (unat (v_patch v)))"
  (is "_ \<longleftrightarrow> ?R")
proof -
  have n: "decimal p n \<Longrightarrow> unat (of_nat n :: u64) = n" for p n
    using decimal_lt by (simp add: unsigned_of_nat take_bit_nat_eq_self)
  show ?thesis
  proof
    assume "ParseVersion s = Inr v"
    then show ?R unfolding ParseVersion_iff using n by auto blast
  next
    assume R: ?R
    then obtain a b c where abc: "beforeAny {CHR ''-'', CHR ''+''} s = a @ ''.'' @ b @ ''.'' @ c
        \<and> CHR ''.'' \<notin> set a \<and> CHR ''.'' \<notin> set b \<and> CHR ''.'' \<notin> set c
        \<and> decimal a (unat (v_major v)) \<and> decimal b (unat (v_minor v)) \<and> decimal c (unat (v_patch v))"
      by blast
    moreover have "v = Version s (of_nat (unat (v_major v))) (of_nat (unat (v_minor v)))
        (of_nat (unat (v_patch v)))"
      using R by (cases v) simp
    ultimately show "ParseVersion s = Inr v" unfolding ParseVersion_iff by blast
  qed
qed

text \<open>
  C39: a printed version is parsed back: the three numbers with dots between them, and any suffix
  that starts with \<^verbatim>\<open>-\<close> or \<^verbatim>\<open>+\<close> or is empty, give exactly these numbers.
\<close>

theorem ParseVersion_print:
  assumes "suffix = [] \<or> hd suffix \<in> {CHR ''-'', CHR ''+''}"
  shows "ParseVersion (showNat (unat a) @ ''.'' @ showNat (unat b) @ ''.'' @ showNat (unat c) @ suffix)
    = Inr (Version (showNat (unat a) @ ''.'' @ showNat (unat b) @ ''.'' @ showNat (unat c) @ suffix) a b c)"
proof -
  let ?cs = "{CHR ''-'', CHR ''+''}"
  have cut: "beforeAny ?cs suffix = []" using assms by (cases suffix) (auto simp: beforeAny_def)
  have plain: "set (showNat n) \<inter> ?cs = {}" "CHR ''.'' \<notin> set (showNat n)" for n
    using showNat_plain[of n] by auto
  have dot: "beforeAny ?cs (CHR ''.'' # t) = CHR ''.'' # beforeAny ?cs t" for t
    by (simp add: beforeAny_def)
  have base: "beforeAny ?cs (showNat (unat a) @ ''.'' @ showNat (unat b) @ ''.'' @ showNat (unat c) @ suffix)
      = showNat (unat a) @ ''.'' @ showNat (unat b) @ ''.'' @ showNat (unat c)"
    by (simp add: beforeAny_append[OF plain(1)] dot cut)
  have "decimal (showNat (unat w)) (unat w)" for w :: u64
    using unsigned_less[of w] by (intro decimal_showNat) simp
  moreover have "of_nat (unat w) = w" for w :: u64 by simp
  ultimately show ?thesis unfolding ParseVersion_iff base using plain(2) by metis
qed

theorem ParseVersion_print_witness:
  "ParseVersion ''1.20.300-rc1'' = Inr (Version ''1.20.300-rc1'' 1 20 300)"
proof -
  have "showNat 1 = ''1''" by code_simp
  moreover have "showNat 20 = ''20''" by code_simp
  moreover have "showNat 300 = ''300''" by code_simp
  ultimately show ?thesis using ParseVersion_print[of "''-rc1''" 1 20 300] by simp
qed

section \<open>The precedence of semantic versions\<close>

text \<open>
  Semantic versioning, clause 11: the three numbers are compared as numbers, from the left; with the same
  numbers a pre-release comes before the release, and pre-releases are compared by their identifiers,
  numbers as numbers and before other identifiers, the others by their bytes, and fewer identifiers before
  more. What follows \<^verbatim>\<open>+\<close> does not count.
\<close>

definition numbers :: "version \<Rightarrow> nat list" where
  "numbers v = [unat (v_major v), unat (v_minor v), unat (v_patch v)]"

definition preRelease :: "string \<Rightarrow> string option" where
  "preRelease s = (case dropWhile (\<lambda>c. c \<notin> {CHR ''-'', CHR ''+''}) s of
     [] \<Rightarrow> None | c # t \<Rightarrow> if c = CHR ''-'' then Some (takeWhile (\<lambda>c. c \<noteq> CHR ''+'') t) else None)"

fun numberOf :: "nat \<Rightarrow> string \<Rightarrow> nat option" where
  "numberOf n [] = Some n"
| "numberOf n (c # cs) = (case digit_of c of None \<Rightarrow> None | Some d \<Rightarrow> numberOf (n * 10 + d) cs)"

definition identLess :: "string \<Rightarrow> string \<Rightarrow> bool" where
  "identLess p q = (case (numberOf 0 p, numberOf 0 q) of
     (Some m, Some n) \<Rightarrow> m < n | (Some _, None) \<Rightarrow> True | (None, Some _) \<Rightarrow> False | (None, None) \<Rightarrow> p < q)"

fun identsLess :: "string list \<Rightarrow> string list \<Rightarrow> bool" where
  "identsLess ps [] \<longleftrightarrow> False"
| "identsLess [] (q # qs) \<longleftrightarrow> True"
| "identsLess (p # ps) (q # qs) \<longleftrightarrow> identLess p q \<or> (\<not> identLess q p \<and> identsLess ps qs)"

definition semverLess :: "version \<Rightarrow> version \<Rightarrow> bool" where
  "semverLess a b =
     (if numbers a \<noteq> numbers b then (numbers a, numbers b) \<in> lexord {(m, n). m < n}
      else (case (preRelease (v_value a), preRelease (v_value b)) of
          (None, _) \<Rightarrow> False
        | (Some _, None) \<Rightarrow> True
        | (Some p, Some q) \<Rightarrow> identsLess (split (CHR ''.'') p) (split (CHR ''.'') q)))"

lemma numbers_less: "numbers a \<noteq> numbers b \<Longrightarrow> semverLess a b \<longleftrightarrow> v_major a < v_major b
    \<or> v_major a = v_major b \<and> (v_minor a < v_minor b \<or> v_minor a = v_minor b \<and> v_patch a < v_patch b)"
  by (auto simp: semverLess_def numbers_def word_less_nat_alt word_unat_eq_iff)

lemma numbers_eq: "numbers a = numbers b \<longleftrightarrow> v_major a = v_major b \<and> v_minor a = v_minor b \<and> v_patch a = v_patch b"
  by (simp add: numbers_def word_unat_eq_iff)

lemma ParseVersion_value: "ParseVersion s = Inr a \<Longrightarrow> v_value a = s"
  by (simp add: ParseVersion_exact)

text \<open>A pre-release has the numbers of its release.\<close>

lemma ParseVersion_suffix:
  assumes "ParseVersion (t @ ''-'' @ p) = Inr a" "ParseVersion t = Inr b" "set t \<inter> {CHR ''-'', CHR ''+''} = {}"
  shows "numbers a = numbers b" "preRelease (v_value b) = None" "preRelease (v_value a) \<noteq> None"
proof -
  have same: "beforeAny {CHR ''-'', CHR ''+''} (t @ ''-'' @ p) = beforeAny {CHR ''-'', CHR ''+''} t"
    using beforeAny_append[OF assms(3), of "''-'' @ p"] beforeAny_append[OF assms(3), of "[]"]
    by (simp add: beforeAny_def[of _ "[]"] beforeAny_def[of _ "CHR ''-'' # p"])
  show "numbers a = numbers b"
    using assms(1,2) unfolding ParseVersion_def same
    by (auto simp: Let_def numbers_def split: if_split_asm sum.splits)
  have none: "dropWhile (\<lambda>c. c \<notin> {CHR ''-'', CHR ''+''}) t = []" using assms(3) by (auto simp: dropWhile_eq_Nil_conv)
  show "preRelease (v_value b) = None" unfolding preRelease_def ParseVersion_value[OF assms(2)] none by simp
  have some: "dropWhile (\<lambda>c. c \<notin> {CHR ''-'', CHR ''+''}) (t @ ''-'' @ p) = CHR ''-'' # p"
    using assms(3) by (subst dropWhile_append2) auto
  show "preRelease (v_value a) \<noteq> None" unfolding preRelease_def ParseVersion_value[OF assms(1)] some by simp
qed

lemma not_append_less: "\<not> t @ u < (t :: string)"
  by (induction t) auto

lemma compareStr_prefix: "compareStr (t @ x # p) t = 1"
  by (simp add: compareStr_def not_append_less)

text \<open>
  C38: which order \<^verbatim>\<open>compareVersion\<close> is, for versions that were parsed. Versions with different numbers are
  compared by the precedence of semantic versions, that is by the first number in which they differ, as
  numbers. Versions with the same numbers are compared by the bytes of their texts, which for a
  pre-release and its release is the opposite of that precedence: the pre-release is greater.
\<close>

theorem compareVersion_semver:
  assumes "ParseVersion s = Inr a" "ParseVersion t = Inr b"
  shows "compareVersion a b = (if numbers a = numbers b then compareStr s t else if semverLess b a then 1 else -1)
    \<and> (set t \<inter> {CHR ''-'', CHR ''+''} = {} \<and> s = t @ ''-'' @ p \<longrightarrow> compareVersion a b = 1 \<and> semverLess a b)"
proof -
  have v: "v_value a = s" "v_value b = t" using assms by (auto dest: ParseVersion_value)
  have c: "compareVersion a b = (if numbers a = numbers b then compareStr s t else if semverLess b a then 1 else -1)"
  proof (cases "numbers a = numbers b")
    case True
    then show ?thesis by (simp add: compareVersion_def numbers_eq v)
  next
    case False
    then show ?thesis using numbers_less[of b a] by (auto simp: compareVersion_def numbers_eq v)
  qed
  moreover have "compareVersion a b = 1 \<and> semverLess a b"
    if "set t \<inter> {CHR ''-'', CHR ''+''} = {}" "s = t @ ''-'' @ p"
    using ParseVersion_suffix[OF assms(1)[unfolded that(2)] assms(2) that(1)] c that(2)
    by (auto simp: semverLess_def compareStr_prefix)
  ultimately show ?thesis by blast
qed

theorem compareVersion_semver_witness:
  "ParseVersion ''1.10.0-rc1'' = Inr (Version ''1.10.0-rc1'' 1 10 0) \<and> ParseVersion ''1.10.0'' = Inr (Version ''1.10.0'' 1 10 0)
   \<and> compareVersion (Version ''1.10.0-rc1'' 1 10 0) (Version ''1.10.0'' 1 10 0) = 1
   \<and> semverLess (Version ''1.10.0-rc1'' 1 10 0) (Version ''1.10.0'' 1 10 0)
   \<and> compareVersion (Version ''1.10.0'' 1 10 0) (Version ''1.9.7'' 1 9 7) = 1"
proof -
  have p: "ParseVersion ''1.10.0-rc1'' = Inr (Version ''1.10.0-rc1'' 1 10 0)"
    "ParseVersion ''1.10.0'' = Inr (Version ''1.10.0'' 1 10 0)" "ParseVersion ''1.9.7'' = Inr (Version ''1.9.7'' 1 9 7)"
    by (simp_all add: parse_simps)
  have "compareVersion (Version ''1.10.0-rc1'' 1 10 0) (Version ''1.10.0'' 1 10 0) = 1
      \<and> semverLess (Version ''1.10.0-rc1'' 1 10 0) (Version ''1.10.0'' 1 10 0)"
    using compareVersion_semver[OF p(1,2), of "''rc1''"] by simp
  moreover have "compareVersion (Version ''1.10.0'' 1 10 0) (Version ''1.9.7'' 1 9 7) = 1"
    using compareVersion_semver[OF p(2,3), of "[]"] by (simp add: numbers_less numbers_eq)
  ultimately show ?thesis using p by simp
qed

text \<open>
  The order ignores what a pre-release is: \<^verbatim>\<open>1.0.0-alpha\<close> is parsed like \<^verbatim>\<open>1.0.0\<close> and is greater
  than it, and than \<^verbatim>\<open>1.0.0-beta\<close> nothing but the text decides, where semantic versions put a
  pre-release before its release.
\<close>

theorem prerelease_is_greater:
  "\<exists>a b. MustParseVersion ''1.0.0-alpha'' = Some a \<and> MustParseVersion ''1.0.0'' = Some b \<and> GT a b"
proof -
  have "MustParseVersion ''1.0.0-alpha'' = Some (Version ''1.0.0-alpha'' 1 0 0)"
    by (simp add: parse_simps)
  moreover have "MustParseVersion ''1.0.0'' = Some (Version ''1.0.0'' 1 0 0)"
    by (simp add: parse_simps)
  moreover have "GT (Version ''1.0.0-alpha'' 1 0 0) (Version ''1.0.0'' 1 0 0)" by code_simp
  ultimately show ?thesis by blast
qed

end
