(* ===== verification/ConfigSet.thy ===== *)
theory ConfigSet
  imports Cb_Prelude "HOL-Library.AList"
begin

text \<open>
  Config sets: named controller configurations with revisions, in the three forms the code has
  (\<^verbatim>\<open>controller/configset\<close>, its \<^verbatim>\<open>proto\<close> and its \<^verbatim>\<open>json\<close> packages). A Go map is an association list with
  distinct keys whose order is the order a \<^verbatim>\<open>range\<close> over it happens to take; \<^term>\<open>None\<close> as a map is the
  nil map, and \<^term>\<open>None\<close> as a value a nil interface or pointer. Configuration objects, their
  equality and their encoders are code outside the repository and parameters here.
\<close>

section \<open>Go maps\<close>

type_synonym 'a gomap = "(string \<times> 'a) list"

definition mapSet :: "string \<Rightarrow> 'a \<Rightarrow> 'a gomap \<Rightarrow> 'a gomap" where
  "mapSet k v m = AList.update k v m"

lemma map_of_mapSet [simp]: "map_of (mapSet k v m) = (map_of m)(k \<mapsto> v)"
  by (auto simp: mapSet_def update_conv' fun_eq_iff)

lemma mapSet_new: "map_of m k = None \<Longrightarrow> mapSet k v m = m @ [(k, v)]"
  unfolding mapSet_def by (induction m) (auto split: if_split_asm)

lemma distinct_mapSet [simp]: "distinct (map fst m) \<Longrightarrow> distinct (map fst (mapSet k v m))"
  unfolding mapSet_def by (rule distinct_update)

section \<open>Config sets\<close>

text \<open>\<^verbatim>\<open>configset.ControllerConfig\<close>: a revision and a configuration object.\<close>

record 'c cconf =
  cc_rev :: u64
  cc_config :: 'c

type_synonym 'c config_set = "'c cconf option gomap"

text \<open>
  The loops of \<^verbatim>\<open>ConfigSet.Equal\<close>; \<^term>\<open>None\<close> is the panic of a method call on a nil interface.
\<close>

fun equalLoop :: "('c \<Rightarrow> 'c \<Rightarrow> bool) \<Rightarrow> 'c config_set \<Rightarrow> 'c config_set \<Rightarrow> bool option" where
  "equalLoop eqc [] os = Some True"
| "equalLoop eqc ((k, v) # c) os =
     (case map_of os k of
        None \<Rightarrow> Some False
      | Some None \<Rightarrow> None
      | Some (Some ov) \<Rightarrow> (case v of
          None \<Rightarrow> None
        | Some v \<Rightarrow> if \<not> eqc (cc_config ov) (cc_config v) then Some False
                   else if cc_rev ov \<noteq> cc_rev v then Some False
                   else equalLoop eqc c os))"

definition ConfigSet_Equal ::
    "('c \<Rightarrow> 'c \<Rightarrow> bool) \<Rightarrow> 'c config_set option \<Rightarrow> 'c config_set option \<Rightarrow> bool option" where
  "ConfigSet_Equal eqc c os =
     (case (c, os) of
        (Some c, Some os) \<Rightarrow> (case equalLoop eqc c os of
            None \<Rightarrow> None
          | Some b \<Rightarrow> Some (b \<and> list_all (\<lambda>(k, _). map_of c k \<noteq> None) os))
      | _ \<Rightarrow> Some False)"

text \<open>
  One iteration of the loops of \<^verbatim>\<open>MergeConfigSets\<close> and of \<^verbatim>\<open>MergeConfigSetMaps\<close>; a nil value that is
  in the output already counts as revision 0 there.
\<close>

definition rev_of :: "'c cconf option \<Rightarrow> u64" where
  "rev_of v = (case v of None \<Rightarrow> 0 | Some c \<Rightarrow> cc_rev c)"

definition mergeEntry :: "string \<times> 'c cconf option \<Rightarrow> 'c config_set \<Rightarrow> 'c config_set" where
  "mergeEntry kv out = (case kv of (k, v) \<Rightarrow>
     (case v of
        None \<Rightarrow> out
      | Some c \<Rightarrow> (case map_of out k of
          Some existing \<Rightarrow> if rev_of existing > cc_rev c then out else mapSet k v out
        | None \<Rightarrow> mapSet k v out)))"

definition mergeInto :: "'c config_set \<Rightarrow> 'c config_set list \<Rightarrow> 'c config_set" where
  "mergeInto out sets = fold (\<lambda>set out. fold mergeEntry set out) sets out"

definition MergeConfigSets :: "'c config_set list \<Rightarrow> 'c config_set" where
  "MergeConfigSets sets = mergeInto [] sets"

section \<open>The protobuf form\<close>

text \<open>\<^verbatim>\<open>configset_proto.ControllerConfig\<close>: the identifier, the revision and the encoded config.\<close>

record pconf =
  pc_id :: string
  pc_rev :: u64
  pc_data :: string

definition ErrControllerConfigIdEmpty :: goerr where
  "ErrControllerConfigIdEmpty = GoErr ''controller config id empty''"

text \<open>
  The methods of configuration objects, their constructors and the JSON checker, which are not
  part of the repository: \<open>lookupCtor\<close> is what a \<^verbatim>\<open>LoadConfigConstructorByID\<close> directive resolves to.
\<close>

record 'c config_env =
  ce_id :: "'c \<Rightarrow> string"
  ce_marshalJSON :: "'c \<Rightarrow> goerr + string"
  ce_marshalVT :: "'c \<Rightarrow> goerr + string"
  ce_unmarshalJSON :: "'c \<Rightarrow> string \<Rightarrow> goerr + 'c"
  ce_unmarshalVT :: "'c \<Rightarrow> string \<Rightarrow> goerr + 'c"
  ce_lookupCtor :: "string \<Rightarrow> goerr + 'c"
  ce_parseBytes :: "string \<Rightarrow> goerr option"

definition NewControllerConfig :: "'c config_env \<Rightarrow> 'c cconf \<Rightarrow> bool \<Rightarrow> goerr + pconf" where
  "NewControllerConfig W c useJson =
     (case (if useJson then ce_marshalJSON W (cc_config c) else ce_marshalVT W (cc_config c)) of
        Inl e \<Rightarrow> Inl e
      | Inr d \<Rightarrow> Inr \<lparr>pc_id = ce_id W (cc_config c), pc_rev = cc_rev c, pc_data = d\<rparr>)"

text \<open>\<^verbatim>\<open>(*ControllerConfig).Validate\<close>, the getters of a nil pointer giving the zero values.\<close>

definition pconf_Validate :: "'c config_env \<Rightarrow> pconf option \<Rightarrow> goerr option" where
  "pconf_Validate W c = (case c of
      None \<Rightarrow> Some ErrControllerConfigIdEmpty
    | Some c \<Rightarrow>
        if pc_id c = [] then Some ErrControllerConfigIdEmpty
        else case pc_data c of [] \<Rightarrow> None
          | b # _ \<Rightarrow> if b = CHR ''{'' then ce_parseBytes W (pc_data c) else None)"

text \<open>\<^verbatim>\<open>errors.WithMessage(err, msg)\<close>: an error of its own, whose text starts with the message.\<close>

definition WithMessage :: "goerr \<Rightarrow> string \<Rightarrow> goerr" where
  "WithMessage e msg = GoErr (msg @ '': '' @ (case e of Canceled \<Rightarrow> ''context canceled''
    | DirectiveDisposed \<Rightarrow> ''directive disposed'' | GoErr m \<Rightarrow> m))"

definition pconf_Resolve :: "'c config_env \<Rightarrow> pconf option \<Rightarrow> goerr + 'c cconf" where
  "pconf_Resolve W c = (case c of
      None \<Rightarrow> Inl ErrControllerConfigIdEmpty
    | Some c \<Rightarrow>
        if pc_id c = [] then Inl ErrControllerConfigIdEmpty
        else case ce_lookupCtor W (pc_id c) of
          Inl e \<Rightarrow> Inl (if e = Canceled then e else WithMessage e ''resolve config object'')
        | Inr cf \<Rightarrow> (case (case pc_data c of [] \<Rightarrow> Inr cf
              | b # _ \<Rightarrow> if b = CHR ''{'' then ce_unmarshalJSON W cf (pc_data c)
                        else ce_unmarshalVT W cf (pc_data c)) of
            Inl e \<Rightarrow> Inl e
          | Inr cf \<Rightarrow> Inr \<lparr>cc_rev = pc_rev c, cc_config = cf\<rparr>))"

text \<open>
  The loops over a map that stop at the first error, as \<^verbatim>\<open>NewConfigSetMap\<close>, \<^verbatim>\<open>ConfigSetMap.Resolve\<close> and
  \<^verbatim>\<open>ConfigSetMap.Validate\<close> have them.
\<close>

fun traverseMap :: "('a \<Rightarrow> goerr + 'b) \<Rightarrow> 'a gomap \<Rightarrow> 'b gomap \<Rightarrow> goerr + 'b gomap" where
  "traverseMap f [] acc = Inr acc"
| "traverseMap f ((k, v) # m) acc = (case f v of Inl e \<Rightarrow> Inl e
     | Inr w \<Rightarrow> traverseMap f m (mapSet k w acc))"

definition NewConfigSetMap :: "'c config_env \<Rightarrow> 'c cconf gomap option \<Rightarrow> bool \<Rightarrow> goerr + pconf gomap option" where
  "NewConfigSetMap W c useJson = (case c of None \<Rightarrow> Inr None
    | Some c \<Rightarrow> map_sum id Some (traverseMap (\<lambda>v. NewControllerConfig W v useJson) c []))"

definition ConfigSetMap_Resolve :: "'c config_env \<Rightarrow> pconf option gomap option \<Rightarrow> goerr + 'c cconf gomap option" where
  "ConfigSetMap_Resolve W c = (case c of None \<Rightarrow> Inr None
    | Some c \<Rightarrow> map_sum id Some (traverseMap (pconf_Resolve W) c []))"

fun ConfigSetMap_Validate :: "'c config_env \<Rightarrow> pconf option gomap \<Rightarrow> (string \<times> goerr) option" where
  "ConfigSetMap_Validate W [] = None"
| "ConfigSetMap_Validate W ((k, v) # m) = (case pconf_Validate W v of
     Some e \<Rightarrow> Some (k, e)
   | None \<Rightarrow> ConfigSetMap_Validate W m)"

definition MergeConfigSetMaps :: "'c cconf option gomap option \<Rightarrow> 'c cconf option gomap list
    \<Rightarrow> 'c cconf option gomap option" where
  "MergeConfigSetMaps out sets = map_option (\<lambda>out. mergeInto out sets) out"

definition ApplyConfig_map ::
    "'c config_env \<Rightarrow> pconf option gomap \<Rightarrow> string \<Rightarrow> 'c \<Rightarrow> u64 \<Rightarrow> bool
      \<Rightarrow> (goerr + pconf) \<times> pconf option gomap" where
  "ApplyConfig_map W c ident conf revn useJson =
     (case NewControllerConfig W \<lparr>cc_rev = revn, cc_config = conf\<rparr> useJson of
        Inl e \<Rightarrow> (Inl e, c)
      | Inr pc \<Rightarrow> (Inr pc, mapSet ident (Some pc) c))"

section \<open>The JSON form of a protobuf config\<close>

text \<open>
  The JSON writer and reader are library code: an object is the list of its fields, a value of
  \<^verbatim>\<open>config\<close> either a string or an object given by its text. \<open>enc\<close> and \<open>dec\<close> are
  \<^verbatim>\<open>base64.RawStdEncoding\<close>.
\<close>

datatype json_value = JString string | JUint u64 | JObject string | JNull | JOther

text \<open>The outcome of writing: the text, an error set in the writer, or a panic.\<close>

datatype 'a written = Written 'a | WriteError goerr | WritePanic

definition MarshalProtoJSON ::
    "(string \<Rightarrow> string) \<Rightarrow> 'c config_env \<Rightarrow> (string \<Rightarrow> bool) \<Rightarrow> pconf
      \<Rightarrow> (string \<times> json_value) list written" where
  "MarshalProtoJSON enc W HasField c =
     (let f1 = (if pc_id c \<noteq> [] \<or> HasField ''id'' then [(''id'', JString (pc_id c))] else []);
          f2 = (if pc_rev c \<noteq> 0 \<or> HasField ''rev'' then [(''rev'', JUint (pc_rev c))] else []) in
      if pc_data c \<noteq> [] \<or> HasField ''config'' then
        (if pc_data c = [] then WritePanic
         else if hd (pc_data c) = CHR ''{'' \<and> last (pc_data c) = CHR ''}'' then
           (case ce_parseBytes W (pc_data c) of
              Some e \<Rightarrow> WriteError e
            | None \<Rightarrow> Written (f1 @ f2 @ [(''config'', JObject (pc_data c))]))
         else Written (f1 @ f2 @ [(''config'', JString (enc (pc_data c)))]))
      else Written (f1 @ f2))"

text \<open>One field in the loop of \<^verbatim>\<open>UnmarshalProtoJSON\<close>; a value of the wrong kind is an error.\<close>

definition unmarshalField ::
    "(string \<Rightarrow> goerr + string) \<Rightarrow> string \<times> json_value \<Rightarrow> pconf \<Rightarrow> goerr + pconf" where
  "unmarshalField dec kv c = (case kv of (key, v) \<Rightarrow>
     if key = ''id'' then (case v of JString s \<Rightarrow> Inr (c\<lparr>pc_id := s\<rparr>) | _ \<Rightarrow> Inl (GoErr ''expect string''))
     else if key = ''rev'' \<or> key = ''revision'' then
       (case v of JUint n \<Rightarrow> Inr (c\<lparr>pc_rev := n\<rparr>) | _ \<Rightarrow> Inl (GoErr ''expect uint64''))
     else if key = ''config'' then
       (case v of JNull \<Rightarrow> Inr c
        | JString s \<Rightarrow> map_sum id (\<lambda>d. c\<lparr>pc_data := d\<rparr>) (dec s)
        | JObject t \<Rightarrow> Inr (c\<lparr>pc_data := t\<rparr>)
        | _ \<Rightarrow> Inl (GoErr ''invalid json value for config''))
     else Inr c)"

fun UnmarshalProtoJSON ::
    "(string \<Rightarrow> goerr + string) \<Rightarrow> (string \<times> json_value) list \<Rightarrow> pconf \<Rightarrow> goerr + pconf" where
  "UnmarshalProtoJSON dec [] c = Inr c"
| "UnmarshalProtoJSON dec (f # fs) c = (case unmarshalField dec f c of Inl e \<Rightarrow> Inl e
     | Inr c \<Rightarrow> UnmarshalProtoJSON dec fs c)"

section \<open>The JSON form of a config set\<close>

text \<open>\<^verbatim>\<open>configset_json.ControllerConfig\<close>: revision, config identifier and pending config text.\<close>

record jconf =
  jc_rev :: u64
  jc_id :: string
  jc_config :: "string option"

text \<open>\<^verbatim>\<open>(*Config).Resolve\<close> of a config that is not nil.\<close>

definition jsonConfig_Resolve :: "'c config_env \<Rightarrow> string \<Rightarrow> string \<Rightarrow> goerr + 'c" where
  "jsonConfig_Resolve W pending configID = (case ce_lookupCtor W configID of
      Inl e \<Rightarrow> Inl (WithMessage e ''resolve config object'')
    | Inr cf \<Rightarrow> ce_unmarshalJSON W cf pending)"

text \<open>\<^verbatim>\<open>(*ControllerConfig).Resolve\<close>; a nil pointer gives a nil result without an error.\<close>

definition jconf_Resolve :: "'c config_env \<Rightarrow> jconf option \<Rightarrow> goerr + 'c cconf option" where
  "jconf_Resolve W c = (case c of None \<Rightarrow> Inr None
    | Some c \<Rightarrow>
        if jc_id c = [] then Inl (GoErr ''config id was not specified'')
        else case jsonConfig_Resolve W (case jc_config c of None \<Rightarrow> [] | Some t \<Rightarrow> t) (jc_id c) of
          Inl e \<Rightarrow> Inl e
        | Inr conf \<Rightarrow> Inr (Some \<lparr>cc_rev = jc_rev c, cc_config = conf\<rparr>))"

text \<open>\<^verbatim>\<open>(ConfigSet).Resolve\<close>; \<^term>\<open>None\<close> is the panic of \<^verbatim>\<open>cc.GetRev()\<close> on a nil result.\<close>

fun jsonResolveLoop :: "'c config_env \<Rightarrow> jconf option gomap \<Rightarrow> 'c cconf gomap \<Rightarrow> (goerr + 'c cconf gomap) option" where
  "jsonResolveLoop W [] acc = Some (Inr acc)"
| "jsonResolveLoop W ((k, v) # m) acc = (case jconf_Resolve W v of
     Inl e \<Rightarrow> Some (Inl e)
   | Inr None \<Rightarrow> None
   | Inr (Some cc) \<Rightarrow> jsonResolveLoop W m (mapSet k cc acc))"

definition jsonConfigSet_Resolve :: "'c config_env \<Rightarrow> jconf option gomap option \<Rightarrow> (goerr + 'c cconf gomap) option" where
  "jsonConfigSet_Resolve W c = (case c of None \<Rightarrow> Some (Inl (GoErr ''configset was nil''))
    | Some c \<Rightarrow> jsonResolveLoop W c [])"

text \<open>
  The loop of \<^verbatim>\<open>UnmarshalYAML\<close> over the parsed set: existing entries are kept unless they may be
  overwritten, and the identifiers that were added are returned, also with an error.
\<close>

fun unmarshalYAMLLoop ::
    "'c config_env \<Rightarrow> bool \<Rightarrow> jconf option gomap \<Rightarrow> 'c cconf option gomap \<Rightarrow> string list
      \<Rightarrow> (string list \<times> goerr option) \<times> 'c cconf option gomap" where
  "unmarshalYAMLLoop W overwrite [] ocs added = ((added, None), ocs)"
| "unmarshalYAMLLoop W overwrite ((ident, cconf) # cs) ocs added =
     (if map_of ocs ident \<noteq> None \<and> \<not> overwrite then unmarshalYAMLLoop W overwrite cs ocs added
      else case jconf_Resolve W cconf of
        Inl e \<Rightarrow> ((added, Some e), ocs)
      | Inr cfg \<Rightarrow> unmarshalYAMLLoop W overwrite cs (mapSet ident cfg ocs) (added @ [ident]))"

definition UnmarshalYAML_set where
  "UnmarshalYAML_set W cs ocs overwrite = unmarshalYAMLLoop W overwrite cs ocs []"

section \<open>Debug values\<close>

text \<open>\<^verbatim>\<open>config.MergeDebugVals\<close>.\<close>

definition MergeDebugVals :: "string list gomap \<Rightarrow> string list gomap list \<Rightarrow> string list gomap" where
  "MergeDebugVals to froms = fold (\<lambda>f to. fold (\<lambda>(k, v) to.
     mapSet k ((case map_of to k of None \<Rightarrow> [] | Some o' \<Rightarrow> o') @ v) to) f to) froms to"

section \<open>Loops over maps\<close>

lemma traverseMap_iff:
  "traverseMap f m acc = Inr r \<longleftrightarrow> (\<forall>(k, v) \<in> set m. \<exists>w. f v = Inr w)
     \<and> r = fold (\<lambda>(k, v) acc. mapSet k (case f v of Inr w \<Rightarrow> w) acc) m acc"
  by (induction f m acc rule: traverseMap.induct) (auto split: sum.splits)

lemma fold_mapSet:
  "distinct (map fst m) \<Longrightarrow> map_of (fold (\<lambda>(k, v) acc. mapSet k (g v) acc) m acc) k
     = (case map_of m k of None \<Rightarrow> map_of acc k | Some v \<Rightarrow> Some (g v))"
proof (induction m arbitrary: acc)
  case Nil
  then show ?case by simp
next
  case (Cons kv m)
  obtain j v where kv: "kv = (j, v)" by fastforce
  have "j = k \<Longrightarrow> map_of m k = None" using Cons.prems by (simp add: kv map_of_eq_None_iff)
  with Cons show ?case by (auto simp: kv split: option.split)
qed

section \<open>Equality\<close>

lemma equalLoop_eq:
  assumes "\<forall>(k, v) \<in> set c. v \<noteq> None" and "\<forall>(k, v) \<in> set os. v \<noteq> None"
  shows "equalLoop eqc c os = Some (\<forall>(k, v) \<in> set c. \<exists>w o'. map_of os k = Some (Some o')
    \<and> v = Some w \<and> eqc (cc_config o') (cc_config w) \<and> cc_rev o' = cc_rev w)"
  using assms
proof (induction c)
  case Nil
  then show ?case by simp
next
  case (Cons kv c)
  obtain k v where kv: "kv = (k, Some v)" using Cons.prems(1) by (cases kv) auto
  have "map_of os k = Some o' \<Longrightarrow> o' \<noteq> None" for o'
    using Cons.prems(2) by (auto dest: map_of_SomeD)
  with Cons kv show ?case by (auto split: option.splits)
qed

text \<open>Two config sets agree: the same keys, and at each key the same revision and equal configs.\<close>

definition sameConfigs :: "('c \<Rightarrow> 'c \<Rightarrow> bool) \<Rightarrow> 'c config_set \<Rightarrow> 'c config_set \<Rightarrow> bool" where
  "sameConfigs eqc c os \<longleftrightarrow> dom (map_of c) = dom (map_of os)
     \<and> (\<forall>k v w. map_of c k = Some (Some v) \<and> map_of os k = Some (Some w)
          \<longrightarrow> eqc (cc_config w) (cc_config v) \<and> cc_rev w = cc_rev v)"

text \<open>
  On maps without nil values \<^verbatim>\<open>Equal\<close> does not panic and decides whether the two sets agree,
  in whatever order the maps are iterated; the nil set is equal to nothing, not even to itself.
\<close>

theorem ConfigSet_Equal_decides:
  assumes "\<forall>(k, v) \<in> set c. v \<noteq> None" and "\<forall>(k, v) \<in> set os. v \<noteq> None" and d: "distinct (map fst c)"
  shows "ConfigSet_Equal eqc (Some c) (Some os) = Some (sameConfigs eqc c os)
    \<and> ConfigSet_Equal eqc None x = Some False \<and> ConfigSet_Equal eqc x None = Some False"
proof -
  have val: "map_of m k = Some v \<Longrightarrow> \<forall>(k, v) \<in> set m. v \<noteq> None \<Longrightarrow> \<exists>w. v = Some w" for m k and v :: "'a cconf option"
    by (cases v) (auto dest: map_of_SomeD)
  have mem: "(k, v) \<in> set c \<longleftrightarrow> map_of c k = Some v" for k v
    using d by (simp add: map_of_eq_Some_iff)
  have keys: "list_all (\<lambda>(k, _). map_of c k \<noteq> None) os \<longleftrightarrow> dom (map_of os) \<subseteq> dom (map_of c)"
    by (auto simp: list_all_iff dom_map_of_conv_image_fst map_of_eq_None_iff) force+
  have "(\<forall>(k, v) \<in> set c. \<exists>w o'. map_of os k = Some (Some o') \<and> v = Some w
      \<and> eqc (cc_config o') (cc_config w) \<and> cc_rev o' = cc_rev w)
      \<longleftrightarrow> dom (map_of c) \<subseteq> dom (map_of os)
        \<and> (\<forall>k v w. map_of c k = Some (Some v) \<and> map_of os k = Some (Some w)
             \<longrightarrow> eqc (cc_config w) (cc_config v) \<and> cc_rev w = cc_rev v)" (is "?A \<longleftrightarrow> ?B")
  proof
    assume A: ?A
    have "dom (map_of c) \<subseteq> dom (map_of os)"
    proof
      fix k assume "k \<in> dom (map_of c)"
      then obtain v where "(k, v) \<in> set c" by (auto simp: mem)
      with A show "k \<in> dom (map_of os)" by fastforce
    qed
    moreover have "eqc (cc_config w) (cc_config v) \<and> cc_rev w = cc_rev v"
      if v: "map_of c k = Some (Some v)" and w: "map_of os k = Some (Some w)" for k v w
    proof -
      have "(k, Some v) \<in> set c" using v by (simp add: mem)
      with A obtain w' o' where "map_of os k = Some (Some o')" "Some v = Some w'"
        "eqc (cc_config o') (cc_config w')" "cc_rev o' = cc_rev w'" by blast
      with w show ?thesis by simp
    qed
    ultimately show ?B by blast
  next
    assume B: ?B
    show ?A
    proof (clarify)
      fix k v assume kv: "(k, v) \<in> set c"
      then have ck: "map_of c k = Some v" by (simp add: mem)
      then have "k \<in> dom (map_of os)" using B by blast
      then obtain o' where o': "map_of os k = Some o'" by blast
      obtain w where "v = Some w" using val[OF ck assms(1)] by blast
      with val[OF o' assms(2)] o' B kv
      show "\<exists>w o'. map_of os k = Some (Some o') \<and> v = Some w
        \<and> eqc (cc_config o') (cc_config w) \<and> cc_rev o' = cc_rev w"
        by (auto simp: mem)
    qed
  qed
  then have "ConfigSet_Equal eqc (Some c) (Some os) = Some (sameConfigs eqc c os)"
    using equalLoop_eq[OF assms(1,2)] keys by (auto simp: ConfigSet_Equal_def sameConfigs_def)
  then show ?thesis by (simp add: ConfigSet_Equal_def split: option.split)
qed

theorem ConfigSet_Equal_decides_witness:
  "ConfigSet_Equal (=) (Some [(''a'', Some \<lparr>cc_rev = 1, cc_config = True\<rparr>), (''b'', Some \<lparr>cc_rev = 2, cc_config = False\<rparr>)])
     (Some [(''b'', Some \<lparr>cc_rev = 2, cc_config = False\<rparr>), (''a'', Some \<lparr>cc_rev = 1, cc_config = True\<rparr>)]) = Some True"
proof -
  let ?a = "(''a'', Some \<lparr>cc_rev = 1, cc_config = True\<rparr>)" and ?b = "(''b'', Some \<lparr>cc_rev = 2, cc_config = False\<rparr>)"
  have "sameConfigs (=) [?a, ?b] [?b, ?a]" by (auto simp: sameConfigs_def split: if_split_asm)
  moreover have "ConfigSet_Equal (=) (Some [?a, ?b]) (Some [?b, ?a]) = Some (sameConfigs (=) [?a, ?b] [?b, ?a])"
    using ConfigSet_Equal_decides[of "[?a, ?b]" "[?b, ?a]" "(=)"] by simp
  ultimately show ?thesis by simp
qed

section \<open>Merging\<close>

text \<open>The entries of a key over the sets that are merged, in order, without the nil ones.\<close>

definition entriesOf :: "string \<Rightarrow> 'c config_set list \<Rightarrow> 'c cconf list" where
  "entriesOf k sets = concat (map (\<lambda>set. case map_of set k of Some (Some c) \<Rightarrow> [c] | _ \<Rightarrow> []) sets)"

text \<open>One step at a key, and what a set does at a key.\<close>

definition keepNewer :: "'c cconf \<Rightarrow> 'c cconf option option \<Rightarrow> 'c cconf option option" where
  "keepNewer c b = (case b of None \<Rightarrow> Some (Some c)
     | Some e \<Rightarrow> if rev_of e > cc_rev c then b else Some (Some c))"

lemma map_of_mergeEntry:
  "map_of (mergeEntry (k, v) out) j = (case v of Some c \<Rightarrow> if j = k then keepNewer c (map_of out j) else map_of out j
     | None \<Rightarrow> map_of out j)"
  by (auto simp: mergeEntry_def keepNewer_def split: option.split)

lemma map_of_mergeSet:
  "distinct (map fst m) \<Longrightarrow> map_of (fold mergeEntry m out) k
     = (case map_of m k of Some (Some c) \<Rightarrow> keepNewer c (map_of out k) | _ \<Rightarrow> map_of out k)"
proof (induction m arbitrary: out)
  case Nil
  then show ?case by simp
next
  case (Cons kv m)
  obtain j v where kv: "kv = (j, v)" by fastforce
  have "j = k \<Longrightarrow> map_of m k = None" using Cons.prems by (simp add: kv map_of_eq_None_iff)
  with Cons show ?case by (auto simp: kv map_of_mergeEntry split: option.split)
qed

lemma map_of_mergeInto:
  "list_all (\<lambda>m. distinct (map fst m)) sets
     \<Longrightarrow> map_of (mergeInto out sets) k = fold keepNewer (entriesOf k sets) (map_of out k)"
proof (induction sets arbitrary: out)
  case Nil
  then show ?case by (simp add: mergeInto_def entriesOf_def)
next
  case (Cons m sets)
  then show ?case
    by (auto simp: mergeInto_def entriesOf_def map_of_mergeSet split: option.split)
qed

text \<open>The last of the entries with the greatest revision.\<close>

definition newest :: "'c cconf list \<Rightarrow> 'c cconf \<Rightarrow> bool" where
  "newest cs d \<longleftrightarrow> (\<exists>ys zs. cs = ys @ d # zs \<and> (\<forall>x \<in> set ys. cc_rev x \<le> cc_rev d)
     \<and> (\<forall>x \<in> set zs. cc_rev x < cc_rev d))"

lemma newest_snoc:
  assumes b: "newest cs b"
  shows "newest (cs @ [e]) (if cc_rev b > cc_rev e then b else e)"
proof -
  obtain ys zs where bs: "cs = ys @ b # zs" "\<forall>x \<in> set ys. cc_rev x \<le> cc_rev b"
      "\<forall>x \<in> set zs. cc_rev x < cc_rev b"
    using b by (auto simp: newest_def)
  show ?thesis
  proof (cases "cc_rev b > cc_rev e")
    case True
    then show ?thesis unfolding newest_def
      using bs by (intro exI[of _ ys] exI[of _ "zs @ [e]"]) auto
  next
    case False
    then have "\<forall>x \<in> set cs. cc_rev x \<le> cc_rev e"
      using bs by (auto intro: order.trans less_imp_le)
    with False show ?thesis unfolding newest_def by (intro exI[of _ cs] exI[of _ "[]"]) auto
  qed
qed

lemma keepNewer_fold:
  "cs \<noteq> [] \<Longrightarrow> \<exists>d. fold keepNewer cs None = Some (Some d) \<and> newest cs d"
proof (induction cs rule: rev_induct)
  case Nil
  then show ?case by simp
next
  case (snoc e cs)
  show ?case
  proof (cases "cs = []")
    case True
    then show ?thesis by (auto simp: keepNewer_def newest_def Cons_eq_append_conv)
  next
    case False
    with snoc.IH obtain b where b: "fold keepNewer cs None = Some (Some b)" "newest cs b" by blast
    then have "fold keepNewer (cs @ [e]) None
        = Some (Some (if cc_rev b > cc_rev e then b else e))"
      by (simp add: keepNewer_def[of e] rev_of_def)
    with newest_snoc[OF b(2), of e] show ?thesis by blast
  qed
qed

text \<open>
  Merging keeps, at each key, the entry with the greatest revision, the last one of equal
  revisions; nil entries count as absent, and the order in which the maps are iterated is
  irrelevant.
\<close>

theorem MergeConfigSets_newest:
  assumes "list_all (\<lambda>m. distinct (map fst m)) sets"
  shows "if entriesOf k sets = [] then map_of (MergeConfigSets sets) k = None
    else (\<exists>d. map_of (MergeConfigSets sets) k = Some (Some d) \<and> newest (entriesOf k sets) d)"
proof (cases "entriesOf k sets = []")
  case True
  with map_of_mergeInto[OF assms, of "[]" k] show ?thesis by (simp add: MergeConfigSets_def)
next
  case False
  with keepNewer_fold[OF False] map_of_mergeInto[OF assms, of "[]" k]
  show ?thesis by (simp add: MergeConfigSets_def)
qed

theorem MergeConfigSets_newest_witness:
  "\<exists>d. map_of (MergeConfigSets [[(''a'', Some \<lparr>cc_rev = 2, cc_config = (1 :: nat)\<rparr>)],
       [(''a'', Some \<lparr>cc_rev = 2, cc_config = 2\<rparr>), (''b'', None)], [(''a'', Some \<lparr>cc_rev = 1, cc_config = 3\<rparr>)]]) ''a''
     = Some (Some d) \<and> newest [\<lparr>cc_rev = 2, cc_config = 1\<rparr>, \<lparr>cc_rev = 2, cc_config = 2\<rparr>, \<lparr>cc_rev = 1, cc_config = 3\<rparr>] d"
proof -
  let ?sets = "[[(''a'', Some \<lparr>cc_rev = 2, cc_config = (1 :: nat)\<rparr>)],
       [(''a'', Some \<lparr>cc_rev = 2, cc_config = 2\<rparr>), (''b'', None)], [(''a'', Some \<lparr>cc_rev = 1, cc_config = 3\<rparr>)]]"
  have "entriesOf ''a'' ?sets
      = [\<lparr>cc_rev = 2, cc_config = 1\<rparr>, \<lparr>cc_rev = 2, cc_config = 2\<rparr>, \<lparr>cc_rev = 1, cc_config = 3\<rparr>]"
    by (simp add: entriesOf_def)
  with MergeConfigSets_newest[of ?sets "''a''"] show ?thesis by simp
qed

section \<open>Encoding and decoding\<close>

text \<open>
  What \<^verbatim>\<open>MarshalProtoJSON\<close> writes, \<^verbatim>\<open>UnmarshalProtoJSON\<close> reads back into the same config,
  whether the config is JSON text or binary, provided only that base64 decodes what it encoded.
\<close>

theorem proto_json_roundtrip:
  assumes "MarshalProtoJSON enc W HasField c = Written fs" and "\<forall>d. dec (enc d) = Inr d"
  shows "UnmarshalProtoJSON dec fs \<lparr>pc_id = [], pc_rev = 0, pc_data = []\<rparr> = Inr c"
  using assms
  by (cases c) (auto simp: MarshalProtoJSON_def Let_def unmarshalField_def
      split: if_split_asm option.splits)

definition demo_config_env :: "string config_env" where
  "demo_config_env = \<lparr>ce_id = (\<lambda>c. ''demo''), ce_marshalJSON = Inr, ce_marshalVT = Inr,
     ce_unmarshalJSON = (\<lambda>c s. Inr s), ce_unmarshalVT = (\<lambda>c s. Inr s),
     ce_lookupCtor = (\<lambda>i. if i = ''demo'' then Inr [] else Inl (GoErr ''not found'')),
     ce_parseBytes = (\<lambda>s. None)\<rparr>"

theorem proto_json_roundtrip_witness:
  "UnmarshalProtoJSON Inr [(''id'', JString ''demo''), (''rev'', JUint 7), (''config'', JObject ''{}'')]
     \<lparr>pc_id = [], pc_rev = 0, pc_data = []\<rparr> = Inr \<lparr>pc_id = ''demo'', pc_rev = 7, pc_data = ''{}''\<rparr>"
  by (rule proto_json_roundtrip[where enc = "\<lambda>x. x" and W = demo_config_env and HasField = "\<lambda>_. False"])
    (simp_all add: MarshalProtoJSON_def demo_config_env_def)

definition codecs_ok :: "'c config_env \<Rightarrow> 'c \<Rightarrow> bool \<Rightarrow> bool" where
  "codecs_ok W c useJson \<longleftrightarrow> (\<exists>z d. ce_id W c \<noteq> [] \<and> ce_lookupCtor W (ce_id W c) = Inr z
     \<and> (if useJson then ce_marshalJSON W c else ce_marshalVT W c) = Inr d
     \<and> (d = [] \<longrightarrow> z = c) \<and> (d \<noteq> [] \<longrightarrow> (hd d = CHR ''{'') = useJson
          \<and> (if useJson then ce_unmarshalJSON W z d else ce_unmarshalVT W z d) = Inr c))"

lemma pconf_roundtrip:
  assumes "codecs_ok W (cc_config c) useJson"
  shows "\<exists>pc. NewControllerConfig W c useJson = Inr pc \<and> pconf_Resolve W (Some pc) = Inr c"
proof -
  obtain z d where c: "ce_id W (cc_config c) \<noteq> []" "ce_lookupCtor W (ce_id W (cc_config c)) = Inr z"
    "(if useJson then ce_marshalJSON W (cc_config c) else ce_marshalVT W (cc_config c)) = Inr d"
    "d = [] \<longrightarrow> z = cc_config c" "d \<noteq> [] \<longrightarrow> (hd d = CHR ''{'') = useJson
       \<and> (if useJson then ce_unmarshalJSON W z d else ce_unmarshalVT W z d) = Inr (cc_config c)"
    using assms by (auto simp: codecs_ok_def)
  let ?pc = "\<lparr>pc_id = ce_id W (cc_config c), pc_rev = cc_rev c, pc_data = d\<rparr>"
  have "NewControllerConfig W c useJson = Inr ?pc" using c(3) by (simp add: NewControllerConfig_def)
  moreover have "pconf_Resolve W (Some ?pc) = Inr c"
    using c by (cases d; cases useJson; cases c) (auto simp: pconf_Resolve_def)
  ultimately show ?thesis by blast
qed

text \<open>
  Resolving the entries of a config set that were written from configuration objects gives
  the same set back, with the same revisions, if the objects' own encoders do, an object's
  identifier finds its constructor, a binary encoding never starts with an opening brace, and an
  empty encoding is that of the constructed object.
\<close>

theorem ConfigSet_proto_roundtrip:
  assumes ok: "\<forall>(k, c) \<in> set cs. codecs_ok W (cc_config c) useJson" and d: "distinct (map fst cs)"
  shows "\<exists>pcs out. NewConfigSetMap W (Some cs) useJson = Inr (Some pcs)
    \<and> ConfigSetMap_Resolve W (Some (map (\<lambda>(k, pc). (k, Some pc)) pcs)) = Inr (Some out)
    \<and> map_of out = map_of cs"
proof -
  let ?f = "\<lambda>c. NewControllerConfig W c useJson"
  let ?g = "\<lambda>c. case ?f c of Inr w \<Rightarrow> w"
  define pcs where "pcs = fold (\<lambda>(k, v) acc. mapSet k (?g v) acc) cs []"
  have f: "\<forall>(k, c) \<in> set cs. ?f c = Inr (?g c) \<and> pconf_Resolve W (Some (?g c)) = Inr c"
    using ok pconf_roundtrip by fastforce
  have pcs: "NewConfigSetMap W (Some cs) useJson = Inr (Some pcs)"
  proof -
    have "traverseMap ?f cs [] = Inr pcs" unfolding traverseMap_iff pcs_def using f by fastforce
    then show ?thesis by (simp add: NewConfigSetMap_def)
  qed
  have dist: "distinct (map fst pcs)"
  proof -
    have "distinct (map fst acc) \<Longrightarrow> distinct (map fst (fold (\<lambda>(k, v) acc. mapSet k (?g v) acc) cs acc))" for acc
      by (induction cs arbitrary: acc) (auto simp: split_beta)
    then show ?thesis by (simp add: pcs_def)
  qed
  have pm: "map_of pcs k = map_option ?g (map_of cs k)" for k
    unfolding pcs_def fold_mapSet[OF d] by (simp split: option.split)
  let ?ps = "map (\<lambda>(k, pc). (k, Some pc)) pcs"
  define out where "out = fold (\<lambda>(k, v) acc. mapSet k (case pconf_Resolve W v of Inr w \<Rightarrow> w) acc) ?ps []"
  have decoded: "pconf_Resolve W (Some pc) = Inr c" if "map_of pcs k = Some pc" "map_of cs k = Some c" for k pc c
    using that f pm[of k] by (auto dest: map_of_SomeD)
  have all: "\<forall>(k, v) \<in> set ?ps. \<exists>w. pconf_Resolve W v = Inr w"
  proof (clarsimp)
    fix k pc assume "(k, pc) \<in> set pcs"
    then have "map_of pcs k = Some pc" using dist by simp
    then show "\<exists>w. pconf_Resolve W (Some pc) = Inr w" using decoded pm[of k] by fastforce
  qed
  have "ConfigSetMap_Resolve W (Some ?ps) = Inr (Some out)"
  proof -
    have "traverseMap (pconf_Resolve W) ?ps [] = Inr out" unfolding traverseMap_iff out_def using all by blast
    then show ?thesis by (simp add: ConfigSetMap_Resolve_def)
  qed
  moreover have "map_of out k = map_of cs k" for k
  proof -
    have dp: "distinct (map fst ?ps)" using dist by (simp add: comp_def split_beta)
    have m: "map_of ?ps k = map_option Some (map_of pcs k)" by (simp add: map_of_map)
    show ?thesis
      unfolding out_def fold_mapSet[OF dp] m using decoded[of k] pm[of k]
      by (cases "map_of cs k") auto
  qed
  ultimately show ?thesis using pcs by blast
qed

theorem ConfigSet_proto_roundtrip_witness:
  "\<exists>pcs out. NewConfigSetMap demo_config_env (Some [(''k'', \<lparr>cc_rev = 3, cc_config = ''{1}''\<rparr>)]) True = Inr (Some pcs)
    \<and> ConfigSetMap_Resolve demo_config_env (Some (map (\<lambda>(k, pc). (k, Some pc)) pcs)) = Inr (Some out)
    \<and> map_of out = map_of [(''k'', \<lparr>cc_rev = 3, cc_config = ''{1}''\<rparr>)]"
  by (rule ConfigSet_proto_roundtrip) (auto simp: codecs_ok_def demo_config_env_def)

section \<open>Panics\<close>

lemma jsonResolveLoop_panic:
  "jsonResolveLoop W m acc = None \<longleftrightarrow>
     (\<exists>m1 k m2. m = m1 @ (k, None) # m2 \<and> (\<forall>(k, v) \<in> set m1. \<exists>cc. jconf_Resolve W v = Inr (Some cc)))"
proof (induction m arbitrary: acc)
  case Nil
  then show ?case by simp
next
  case (Cons kv m)
  obtain k v where kv: "kv = (k, v)" by fastforce
  consider (null) "v = None" | (err) e where "jconf_Resolve W v = Inl e" "v \<noteq> None"
    | (ok) cc where "jconf_Resolve W v = Inr (Some cc)" "v \<noteq> None"
  proof (cases v)
    case (Some c)
    have "jconf_Resolve W v \<noteq> Inr None"
      by (simp add: Some jconf_Resolve_def split: sum.split)
    with Some ok err show thesis by (cases "jconf_Resolve W v") auto
  qed (rule null)
  then show ?case
  proof cases
    case null
    then show ?thesis by (auto simp: kv jconf_Resolve_def intro: exI[of _ "[]"])
  next
    case err
    then show ?thesis by (auto simp: kv Cons_eq_append_conv)
  next
    case ok
    then show ?thesis using Cons.IH by (fastforce simp: kv Cons_eq_append_conv)
  qed
qed

text \<open>
  Resolving a JSON config set panics exactly if it reaches an entry that is null, that is, if
  there is one and every entry iterated before it resolves; a null entry is what the JSON text
  \<^verbatim>\<open>{"key": null}\<close> is parsed to.
\<close>

theorem json_resolve_panics_iff_null:
  "jsonConfigSet_Resolve W (Some m) = None \<longleftrightarrow>
     (\<exists>m1 k m2. m = m1 @ (k, None) # m2 \<and> list_all (\<lambda>(k, v). \<exists>cc. jconf_Resolve W v = Inr (Some cc)) m1)"
  unfolding jsonConfigSet_Resolve_def by (simp add: jsonResolveLoop_panic list_all_iff)

end
