(* ===== verification/ConfigSetController.thy ===== *)
theory ConfigSetController
  imports ConfigSet
begin

text \<open>
  The config set controller (\<^verbatim>\<open>controller/configset/controller\<close>): the set of running controllers,
  the references that keep them running, its garbage-collecting loop, and the goroutine that runs
  one controller with its current configuration. Every definition is a section of code that runs
  under the mutexes it takes; goroutines are records that later definitions step. Pointers are
  natural numbers from one counter; \<^term>\<open>None\<close> as the result of a whole operation is a panic.
\<close>

section \<open>State\<close>

text \<open>A \<^verbatim>\<open>configset.ControllerConfig\<close>: configs are compared by identity, revisions by value.\<close>

record sconf =
  sc_ptr :: nat
  sc_rev :: u64

text \<open>
  Errors are compared by identity as well: \<^verbatim>\<open>context.Canceled\<close>, or a pointer with the error that it
  points to.
\<close>

datatype cerr = CtxCanceled | CErr nat goerr

definition cerr_val :: "cerr \<Rightarrow> goerr" where
  "cerr_val e = (case e of CtxCanceled \<Rightarrow> Canceled | CErr _ g \<Rightarrow> g)"

text \<open>\<^verbatim>\<open>runningControllerState\<close>.\<close>

record rcstate =
  rs_id :: string
  rs_err :: "cerr option"
  rs_conf :: "sconf option"
  rs_ctrl :: "nat option"

text \<open>\<^verbatim>\<open>runningController\<close>; \<open>rc_restart\<close> says whether the channel \<^verbatim>\<open>confRestartCh\<close> has its one element.\<close>

record running =
  rc_key :: string
  rc_conf :: sconf
  rc_restart :: bool
  rc_state :: rcstate
  rc_refs :: "nat list"
  rc_prev :: rcstate

text \<open>
  \<^verbatim>\<open>runningControllerRef\<close>; \<open>rr_persistent\<close> is the identifier that \<^verbatim>\<open>relInternalCallback\<close> deletes, if
  the reference has one, and \<open>rr_released\<close> says that \<^verbatim>\<open>relOnce\<close> was used.
\<close>

record rref =
  rr_id :: string
  rr_persistent :: "u32 option"
  rr_cbs :: "nat list"
  rr_rc :: "nat option"
  rr_released :: bool

text \<open>
  Where the goroutine of \<^verbatim>\<open>runningController.Execute\<close> is, with its local variable \<^verbatim>\<open>conf\<close>: not begun,
  at the top of its loop, waiting after a config that is invalid, in the inner loop (with a
  directive to watch, or without one after an error), or gone.
\<close>

datatype run_pc = RunStart | RunTop sconf | RunInvalid sconf | RunWatch sconf bool | RunDone

record run =
  run_rc :: nat
  run_canceled :: bool
  run_pc :: run_pc

text \<open>
  \<^verbatim>\<open>Controller\<close> with the heap of its objects: \<open>cs_wake\<close> is the element of the wake channel,
  \<open>cs_exec\<close> the map \<^verbatim>\<open>execControllers\<close> of the loop, which holds the number of a goroutine in
  \<open>cs_runs\<close>, \<open>cs_dels\<close> the goroutines that will run \<^verbatim>\<open>relInternalCallback\<close>, and \<open>cs_log\<close> the states
  that callbacks were told.
\<close>

record csc =
  cs_wake :: bool
  cs_controllers :: "nat gomap"
  cs_prefCtr :: u32
  cs_prefs :: "(u32 \<times> nat) list"
  cs_exec :: "nat gomap"
  cs_runs :: "run list"
  cs_dels :: "u32 list"
  cs_rc :: "nat \<Rightarrow> running"
  cs_rr :: "nat \<Rightarrow> rref"
  cs_next :: nat
  cs_log :: "(nat \<times> rcstate) list"

definition empty_state :: "string \<Rightarrow> rcstate" where
  "empty_state k = \<lparr>rs_id = k, rs_err = None, rs_conf = None, rs_ctrl = None\<rparr>"

definition newRunningController :: "string \<Rightarrow> sconf \<Rightarrow> running" where
  "newRunningController key conf = \<lparr>rc_key = key, rc_conf = conf, rc_restart = False,
     rc_state = empty_state key, rc_refs = [], rc_prev = empty_state []\<rparr>"

definition newRunningControllerRef :: "string \<Rightarrow> nat option \<Rightarrow> rref" where
  "newRunningControllerRef ident rc = \<lparr>rr_id = ident, rr_persistent = None, rr_cbs = [], rr_rc = rc,
     rr_released = False\<rparr>"

definition NewConfigSetController :: csc where
  "NewConfigSetController = \<lparr>cs_wake = False, cs_controllers = [], cs_prefCtr = 0, cs_prefs = [],
     cs_exec = [], cs_runs = [], cs_dels = [], cs_rc = (\<lambda>_. newRunningController [] \<lparr>sc_ptr = 0, sc_rev = 0\<rparr>),
     cs_rr = (\<lambda>_. newRunningControllerRef [] None), cs_next = 0, cs_log = []\<rparr>"

abbreviation updRC :: "nat \<Rightarrow> (running \<Rightarrow> running) \<Rightarrow> csc \<Rightarrow> csc" where
  "updRC p f s \<equiv> s\<lparr>cs_rc := (cs_rc s)(p := f (cs_rc s p))\<rparr>"

abbreviation updRR :: "nat \<Rightarrow> (rref \<Rightarrow> rref) \<Rightarrow> csc \<Rightarrow> csc" where
  "updRR p f s \<equiv> s\<lparr>cs_rr := (cs_rr s)(p := f (cs_rr s p))\<rparr>"

definition wake :: "csc \<Rightarrow> csc" where
  "wake s = s\<lparr>cs_wake := True\<rparr>"

section \<open>References\<close>

definition refPushState :: "rcstate \<Rightarrow> nat \<Rightarrow> csc \<Rightarrow> csc" where
  "refPushState st r s = s\<lparr>cs_log := cs_log s @ map (\<lambda>cb. (cb, st)) (rr_cbs (cs_rr s r))\<rparr>"

definition rcstate_Equals :: "rcstate \<Rightarrow> rcstate \<Rightarrow> bool" where
  "rcstate_Equals a b \<longleftrightarrow> a = b"

definition pushState :: "nat \<Rightarrow> rcstate \<Rightarrow> csc \<Rightarrow> csc" where
  "pushState p st s =
     (if rcstate_Equals (rc_prev (cs_rc s p)) st then s
      else fold (refPushState st) (rc_refs (cs_rc s p)) (updRC p (rc_prev_update (\<lambda>_. st)) s))"

definition rc_AddReference :: "nat \<Rightarrow> nat \<Rightarrow> csc \<Rightarrow> csc" where
  "rc_AddReference p r s = updRC p (\<lambda>x. x\<lparr>rc_refs := rc_refs x @ [r]\<rparr>) s"

text \<open>\<^verbatim>\<open>setRunningController\<close> of a reference whose controller is another one.\<close>

definition setRunningController :: "nat \<Rightarrow> nat \<Rightarrow> rcstate \<Rightarrow> csc \<Rightarrow> bool \<times> csc" where
  "setRunningController r p st s =
     (if rr_rc (cs_rr s r) \<noteq> Some p
      then (True, refPushState st r (updRR r (rr_rc_update (\<lambda>_. Some p)) s))
      else (False, s))"

definition ApplyReference :: "nat \<Rightarrow> nat \<Rightarrow> csc \<Rightarrow> csc" where
  "ApplyReference p r s =
     (if rr_rc (cs_rr s r) = Some p then s
      else let (updated, s) = setRunningController r p (rc_state (cs_rc s p)) s in
        if updated then rc_AddReference p r s else s)"

definition DelReference :: "nat \<Rightarrow> nat \<Rightarrow> csc \<Rightarrow> csc" where
  "DelReference p r s =
     (let s = (case indexOf (\<lambda>x. x = r) (rc_refs (cs_rc s p)) of
          None \<Rightarrow> s
        | Some k \<Rightarrow> updRC p (\<lambda>x. x\<lparr>rc_refs := swapRemove k (rc_refs x)\<rparr>) s) in
      if rc_refs (cs_rc s p) = [] then wake s else s)"

text \<open>\<^verbatim>\<open>runningControllerRef.Release\<close>, and the goroutine it starts for a persistent reference.\<close>

definition ref_Release :: "nat \<Rightarrow> csc \<Rightarrow> csc" where
  "ref_Release r s =
     (if rr_released (cs_rr s r) then s
      else let s = updRR r (rr_released_update (\<lambda>_. True)) s;
               s = (case rr_rc (cs_rr s r) of None \<Rightarrow> s | Some p \<Rightarrow> DelReference p r s) in
        case rr_persistent (cs_rr s r) of None \<Rightarrow> s | Some i \<Rightarrow> s\<lparr>cs_dels := cs_dels s @ [i]\<rparr>)"

definition relInternalCallback :: "nat \<Rightarrow> csc \<Rightarrow> csc" where
  "relInternalCallback k s =
     (if k < length (cs_dels s)
      then s\<lparr>cs_prefs := filter (\<lambda>(i, _). i \<noteq> cs_dels s ! k) (cs_prefs s), cs_dels := removeAt k (cs_dels s)\<rparr>
      else s)"

definition ref_GetState :: "nat \<Rightarrow> csc \<Rightarrow> rcstate" where
  "ref_GetState r s = (case rr_rc (cs_rr s r) of None \<Rightarrow> empty_state (rr_id (cs_rr s r))
     | Some p \<Rightarrow> rc_state (cs_rc s p))"

text \<open>
  \<^verbatim>\<open>runningControllerRef.AddStateCallback\<close>: the state is read through \<^verbatim>\<open>r.rc\<close>, and a method of a nil
  \<^verbatim>\<open>runningController\<close> panics when it locks the mutex.
\<close>

definition AddStateCallback_ref :: "nat \<Rightarrow> nat \<Rightarrow> csc \<Rightarrow> csc option" where
  "AddStateCallback_ref r cb s =
     (let s = updRR r (\<lambda>x. x\<lparr>rr_cbs := rr_cbs x @ [cb]\<rparr>) s in
      case rr_rc (cs_rr s r) of None \<Rightarrow> None
      | Some p \<Rightarrow> Some (s\<lparr>cs_log := cs_log s @ [(cb, rc_state (cs_rc s p))]\<rparr>))"

section \<open>Operations of the controller\<close>

definition rc_ApplyConfig :: "nat \<Rightarrow> sconf \<Rightarrow> csc \<Rightarrow> bool \<times> csc" where
  "rc_ApplyConfig p conf s =
     (if sc_rev (rc_conf (cs_rc s p)) \<ge> sc_rev conf then (False, s)
      else (True, updRC p (\<lambda>x. x\<lparr>rc_conf := conf, rc_restart := True\<rparr>) s))"

definition PushControllerConfig :: "string \<Rightarrow> sconf \<Rightarrow> csc \<Rightarrow> nat \<times> csc" where
  "PushControllerConfig key conf s =
     (let (p, s) = (case map_of (cs_controllers s) key of
          Some existing \<Rightarrow>
            (let (changed, s) = rc_ApplyConfig existing conf s in
             (existing, if changed then wake s else s))
        | None \<Rightarrow>
            (let p = cs_next s;
                 s = s\<lparr>cs_next := Suc p, cs_rc := (cs_rc s)(p := newRunningController key conf),
                       cs_controllers := mapSet key p (cs_controllers s)\<rparr>;
                 s = wake s;
                 s = fold (ApplyReference p)
                       (filter (\<lambda>r. rr_id (cs_rr s r) = key) (map snd (cs_prefs s))) s
             in (p, s)));
          r = cs_next s;
          s = s\<lparr>cs_next := Suc r, cs_rr := (cs_rr s)(r := newRunningControllerRef key (Some p))\<rparr>
      in (r, rc_AddReference p r s))"

definition AddConfigSetReference :: "string \<Rightarrow> csc \<Rightarrow> nat \<times> csc" where
  "AddConfigSetReference key s =
     (let i = cs_prefCtr s;
          r = cs_next s;
          ref = (newRunningControllerRef key None)\<lparr>rr_persistent := Some i\<rparr>;
          s = s\<lparr>cs_prefCtr := i + 1, cs_next := Suc r, cs_rr := (cs_rr s)(r := ref),
                cs_prefs := AList.update i r (cs_prefs s)\<rparr> in
      case map_of (cs_controllers s) key of
        Some rc \<Rightarrow> (r, ApplyReference rc r s)
      | None \<Rightarrow> (r, s))"

section \<open>The loop of the controller\<close>

definition cancelRun :: "nat \<Rightarrow> csc \<Rightarrow> csc" where
  "cancelRun n s = s\<lparr>cs_runs := (cs_runs s)[n := (cs_runs s ! n)\<lparr>run_canceled := True\<rparr>]\<rparr>"

definition mapDelete :: "string \<Rightarrow> 'a gomap \<Rightarrow> 'a gomap" where
  "mapDelete k m = filter (\<lambda>(k', _). k' \<noteq> k) m"

text \<open>The first loop of an iteration, over the controllers that are executing.\<close>

definition gcStep :: "string \<times> nat \<Rightarrow> csc \<Rightarrow> csc" where
  "gcStep e s = (case e of (k, n) \<Rightarrow>
     (let (ok, s) = (case map_of (cs_controllers s) k of
          None \<Rightarrow> (False, s)
        | Some p \<Rightarrow> if rc_refs (cs_rc s p) = []
                    then (False, s\<lparr>cs_controllers := mapDelete k (cs_controllers s)\<rparr>)
                    else (True, s)) in
      if ok then s
      else let s = cancelRun n s in s\<lparr>cs_exec := mapDelete k (cs_exec s)\<rparr>))"

text \<open>The second loop: controllers that are not executing are started.\<close>

definition startStep :: "string \<times> nat \<Rightarrow> csc \<Rightarrow> csc" where
  "startStep e s = (case e of (k, p) \<Rightarrow>
     if map_of (cs_exec s) k = None
     then s\<lparr>cs_exec := mapSet k (length (cs_runs s)) (cs_exec s),
            cs_runs := cs_runs s @ [\<lparr>run_rc = p, run_canceled = False, run_pc = RunStart\<rparr>]\<rparr>
     else s)"

text \<open>One iteration of \<^verbatim>\<open>ExecLoop\<close>, which needs the element of the wake channel.\<close>

definition Execute_iteration :: "csc \<Rightarrow> csc" where
  "Execute_iteration s =
     (if \<not> cs_wake s then s
      else let s = s\<lparr>cs_wake := False\<rparr>;
               s = fold gcStep (cs_exec s) s
           in fold startStep (cs_controllers s) s)"

text \<open>What \<^verbatim>\<open>Execute\<close> does after its context was cancelled.\<close>

definition exitStep :: "string \<times> nat \<Rightarrow> csc \<Rightarrow> csc" where
  "exitStep e s = (case e of (k, p) \<Rightarrow>
     (let s = s\<lparr>cs_controllers := mapDelete k (cs_controllers s)\<rparr> in
      case map_of (cs_exec s) k of None \<Rightarrow> s
      | Some n \<Rightarrow> (let s = cancelRun n s in s\<lparr>cs_exec := mapDelete k (cs_exec s)\<rparr>)))"

definition Execute_exit :: "csc \<Rightarrow> csc" where
  "Execute_exit s = fold exitStep (cs_controllers s) s"

section \<open>Running one controller\<close>

text \<open>The closure \<^verbatim>\<open>clearState\<close>.\<close>

definition clearState :: "nat \<Rightarrow> sconf \<Rightarrow> cerr option \<Rightarrow> csc \<Rightarrow> csc" where
  "clearState p conf err s =
     (let st = (rc_state (cs_rc s p))\<lparr>rs_ctrl := None, rs_err := err, rs_conf := Some conf\<rparr> in
      pushState p st (updRC p (rc_state_update (\<lambda>_. st)) s))"

text \<open>
  What can happen to the goroutine: it begins; it goes on from the top, where adding the directive
  gives an error (with the address that the error wrapping it gets) or not; its context is done; it takes the element of \<^verbatim>\<open>confRestartCh\<close>; the directive was
  disposed; or a value arrives, \<^term>\<open>None\<close> being the nil value.
\<close>

datatype run_event = EvBegin | EvTop "(cerr \<times> nat) option" | EvCtxDone | EvRestart | EvDisposed
  | EvValue "(cerr option \<times> nat option) option"

definition setPc :: "nat \<Rightarrow> run_pc \<Rightarrow> csc \<Rightarrow> csc" where
  "setPc n pc s = s\<lparr>cs_runs := (cs_runs s)[n := (cs_runs s ! n)\<lparr>run_pc := pc\<rparr>]\<rparr>"

text \<open>The end of the outer loop's body, after the inner loop was left.\<close>

definition run_leave :: "nat \<Rightarrow> csc \<Rightarrow> csc" where
  "run_leave n s =
     (let p = run_rc (cs_runs s ! n);
          conf = rc_conf (cs_rc s p);
          st = rc_state (cs_rc s p);
          s = (if rs_ctrl st \<noteq> None \<or> rs_conf st \<noteq> Some conf
               then let st = st\<lparr>rs_ctrl := None, rs_conf := Some conf\<rparr> in
                 pushState p st (updRC p (rc_state_update (\<lambda>_. st)) s)
               else s)
      in setPc n (RunTop conf) s)"

text \<open>
  One step of \<^verbatim>\<open>runningController.Execute\<close>; an event that cannot happen where the goroutine is
  changes nothing. \<open>validate\<close> is the \<^verbatim>\<open>Validate\<close> of the directive for a config.
\<close>

definition run_step :: "(sconf \<Rightarrow> cerr option) \<Rightarrow> run_event \<Rightarrow> nat \<Rightarrow> csc \<Rightarrow> csc" where
  "run_step validate ev n s =
     (let r = cs_runs s ! n; p = run_rc r in
      if \<not> n < length (cs_runs s) then s
      else case run_pc r of
        RunDone \<Rightarrow> s
      | RunStart \<Rightarrow> (case ev of EvBegin \<Rightarrow> setPc n (RunTop (rc_conf (cs_rc s p))) s | _ \<Rightarrow> s)
      | RunTop conf \<Rightarrow> (case ev of
          EvTop execErr \<Rightarrow>
            (if run_canceled r then setPc n RunDone s
             else case validate conf of
               Some err \<Rightarrow> setPc n (RunInvalid conf) (clearState p conf (Some err) s)
             | None \<Rightarrow>
                 (let s = clearState p conf None s in
                  case execErr of
                    None \<Rightarrow> setPc n (RunWatch conf True) s
                  | Some (err, q) \<Rightarrow> if err = CtxCanceled then setPc n RunDone s
                      else setPc n (RunWatch conf False)
                             (clearState p conf (Some (CErr q (WithMessage (cerr_val err) ''exec controller''))) s)))
        | _ \<Rightarrow> s)
      | RunInvalid conf \<Rightarrow> (case ev of
          EvCtxDone \<Rightarrow> if run_canceled r then setPc n RunDone s else s
        | EvRestart \<Rightarrow> if rc_restart (cs_rc s p)
                       then setPc n (RunTop conf) (updRC p (rc_restart_update (\<lambda>_. False)) s) else s
        | _ \<Rightarrow> s)
      | RunWatch conf watching \<Rightarrow> (case ev of
          EvCtxDone \<Rightarrow> if run_canceled r then run_leave n s else s
        | EvRestart \<Rightarrow> if rc_restart (cs_rc s p)
                       then run_leave n (updRC p (rc_restart_update (\<lambda>_. False)) s) else s
        | EvDisposed \<Rightarrow> if watching then run_leave n s else s
        | EvValue v \<Rightarrow>
            (if \<not> watching then s
             else case v of None \<Rightarrow> clearState p conf None s
             | Some (err, ctrl) \<Rightarrow>
                (let st = (rc_state (cs_rc s p))\<lparr>rs_err := err, rs_ctrl := ctrl, rs_conf := Some conf\<rparr> in
                 pushState p st (updRC p (rc_state_update (\<lambda>_. st)) s)))
        | _ \<Rightarrow> s))"

section \<open>The directive resolvers\<close>

text \<open>
  \<^verbatim>\<open>applyConfigSetResolver\<close> and \<^verbatim>\<open>lookupConfigSetResolver\<close>: the references they hold with the
  value that was emitted for each. The callback that a reference is given is numbered like the
  reference, and \<open>resolverCallback\<close> is what it does with the handler's \<^verbatim>\<open>AddValue\<close> result.
\<close>

record cs_resolver =
  csr_refs :: "(nat \<times> u32) list"

datatype handler_call = HRemoveValue u32 | HAddValue rcstate

text \<open>\<open>existing\<close> are the keys of the references catalogued before the loop.\<close>

fun apply_Resolve :: "(string \<times> sconf) list \<Rightarrow> string set \<Rightarrow> cs_resolver \<Rightarrow> csc \<Rightarrow> (cs_resolver \<times> csc) option" where
  "apply_Resolve [] existing x s = Some (x, s)"
| "apply_Resolve ((k, v) # confSet) existing x s =
     (if k = [] \<or> k \<in> existing then apply_Resolve confSet existing x s
      else let (r, s) = PushControllerConfig k v s;
               x = x\<lparr>csr_refs := csr_refs x @ [(r, 0)]\<rparr> in
        Option.bind (AddStateCallback_ref r r s) (apply_Resolve confSet existing x))"

fun lookup_Resolve :: "string list \<Rightarrow> string set \<Rightarrow> cs_resolver \<Rightarrow> csc \<Rightarrow> (cs_resolver \<times> csc) option" where
  "lookup_Resolve [] existing x s = Some (x, s)"
| "lookup_Resolve (k # ks) existing x s =
     (if k = [] \<or> k \<in> existing then lookup_Resolve ks existing x s
      else let (r, s) = AddConfigSetReference k s;
               x = x\<lparr>csr_refs := csr_refs x @ [(r, 0)]\<rparr> in
        Option.bind (AddStateCallback_ref r r s) (lookup_Resolve ks existing x))"

definition existingKeys :: "cs_resolver \<Rightarrow> csc \<Rightarrow> string set" where
  "existingKeys x s = (\<lambda>(r, _). rr_id (cs_rr s r)) ` set (csr_refs x)"

definition resolverCallback :: "nat \<Rightarrow> rcstate \<Rightarrow> u32 option \<Rightarrow> cs_resolver \<Rightarrow> cs_resolver \<times> handler_call list" where
  "resolverCallback r st accepted x =
     (case map_of (csr_refs x) r of
        None \<Rightarrow> (x, [])
      | Some v \<Rightarrow>
          (x\<lparr>csr_refs := AList.update r (case accepted of None \<Rightarrow> 0 | Some i \<Rightarrow> i) (csr_refs x)\<rparr>,
           (if v \<noteq> 0 then [HRemoveValue v] else []) @ [HAddValue st]))"

definition waitCleanupRefs :: "cs_resolver \<Rightarrow> csc \<Rightarrow> cs_resolver \<times> csc" where
  "waitCleanupRefs x s = (x\<lparr>csr_refs := []\<rparr>, fold (\<lambda>(r, _). ref_Release r) (csr_refs x) s)"

section \<open>Runs of the controller\<close>

text \<open>One atomic step of anything that runs; \<open>validate\<close> as in \<^const>\<open>run_step\<close>.\<close>

inductive cs_step :: "(sconf \<Rightarrow> cerr option) \<Rightarrow> csc \<Rightarrow> csc \<Rightarrow> bool" for V where
  cs_push: "cs_step V s (snd (PushControllerConfig key conf s))"
| cs_addref: "cs_step V s (snd (AddConfigSetReference key s))"
| cs_release: "r < cs_next s \<Longrightarrow> cs_step V s (ref_Release r s)"
| cs_del: "cs_step V s (relInternalCallback k s)"
| cs_callback: "r < cs_next s \<Longrightarrow> AddStateCallback_ref r cb s = Some s' \<Longrightarrow> cs_step V s s'"
| cs_iter: "cs_step V s (Execute_iteration s)"
| cs_exit: "cs_step V s (Execute_exit s)"
| cs_run: "cs_step V s (run_step V ev n s)"

inductive cs_reach :: "(sconf \<Rightarrow> cerr option) \<Rightarrow> csc \<Rightarrow> csc \<Rightarrow> bool" for V s0 where
  cs_refl: "cs_reach V s0 s0"
| cs_next: "cs_reach V s0 s \<Longrightarrow> cs_step V s s' \<Longrightarrow> cs_reach V s0 s'"

section \<open>What the operations leave alone\<close>

named_theorems cs_frame \<open>fields that an operation does not write\<close>

text \<open>The part of the state that telling callbacks and writing a controller's state leave alone.\<close>

definition cs_core where
  "cs_core s = (cs_wake s, cs_controllers s, cs_prefCtr s, cs_prefs s, cs_exec s, cs_runs s, cs_dels s,
     cs_rr s, cs_next s, (\<lambda>p. (rc_key (cs_rc s p), rc_conf (cs_rc s p), rc_restart (cs_rc s p), rc_refs (cs_rc s p))))"

lemma refPushState_core [simp]: "cs_core (refPushState st r s) = cs_core s"
  by (simp add: refPushState_def cs_core_def)

lemma fold_refPushState_core [simp]: "cs_core (fold (refPushState st) rs s) = cs_core s"
  by (induction rs arbitrary: s) auto

lemma pushState_core [simp]: "cs_core (pushState p st s) = cs_core s"
  by (auto simp: pushState_def) (auto simp: cs_core_def fun_eq_iff)

lemma clearState_core [simp]: "cs_core (clearState p conf err s) = cs_core s"
  by (auto simp: clearState_def Let_def) (auto simp: cs_core_def fun_eq_iff)

lemma cs_core_fields:
  assumes "cs_core s' = cs_core s"
  shows "cs_wake s' = cs_wake s" "cs_controllers s' = cs_controllers s" "cs_prefCtr s' = cs_prefCtr s"
    "cs_prefs s' = cs_prefs s" "cs_exec s' = cs_exec s" "cs_runs s' = cs_runs s" "cs_dels s' = cs_dels s"
    "cs_rr s' = cs_rr s" "cs_next s' = cs_next s" "rc_refs (cs_rc s' p) = rc_refs (cs_rc s p)"
    "rc_conf (cs_rc s' p) = rc_conf (cs_rc s p)" "rc_restart (cs_rc s' p) = rc_restart (cs_rc s p)"
  using assms by (auto simp: cs_core_def fun_eq_iff)

lemmas core_simps [simp] =
  cs_core_fields[OF refPushState_core] cs_core_fields[OF pushState_core] cs_core_fields[OF clearState_core]

section \<open>The invariant\<close>

text \<open>
  \<open>attachedOk\<close>: a reference that is not released is in the list of the controller it points to;
  \<open>prefsOk\<close>: a persistent reference points to the controller of its key, if there is one;
  \<open>execOk\<close>: a key that executes belongs to a controller, and its goroutine is that controller's,
  not cancelled, and no other key's.
\<close>

definition attachedOk :: "csc \<Rightarrow> bool" where
  "attachedOk s \<longleftrightarrow> (\<forall>r p. r < cs_next s \<and> \<not> rr_released (cs_rr s r) \<and> rr_rc (cs_rr s r) = Some p
     \<longrightarrow> r \<in> set (rc_refs (cs_rc s p)))"

definition prefsOk :: "csc \<Rightarrow> bool" where
  "prefsOk s \<longleftrightarrow> (\<forall>(i, r) \<in> set (cs_prefs s). r < cs_next s
     \<and> (\<forall>p. map_of (cs_controllers s) (rr_id (cs_rr s r)) = Some p \<longrightarrow> rr_rc (cs_rr s r) = Some p))"

definition execOk :: "csc \<Rightarrow> bool" where
  "execOk s \<longleftrightarrow> distinct (map fst (cs_exec s)) \<and> distinct (map snd (cs_exec s))
     \<and> (\<forall>(k, n) \<in> set (cs_exec s). n < length (cs_runs s) \<and> \<not> run_canceled (cs_runs s ! n)
          \<and> map_of (cs_controllers s) k = Some (run_rc (cs_runs s ! n)))"

definition ptrsOk :: "csc \<Rightarrow> bool" where
  "ptrsOk s \<longleftrightarrow> distinct (map fst (cs_controllers s)) \<and> distinct (map snd (cs_controllers s))
     \<and> (\<forall>(k, p) \<in> set (cs_controllers s). p < cs_next s)
     \<and> (\<forall>r p. rr_rc (cs_rr s r) = Some p \<longrightarrow> p < cs_next s \<and> r < cs_next s)"

definition csOk :: "csc \<Rightarrow> bool" where
  "csOk s \<longleftrightarrow> attachedOk s \<and> prefsOk s \<and> execOk s \<and> ptrsOk s"

lemma csOk_cong:
  assumes "cs_controllers s' = cs_controllers s" "cs_prefs s' = cs_prefs s" "cs_exec s' = cs_exec s"
    "cs_runs s' = cs_runs s" "cs_next s' = cs_next s"
    "\<And>r. rr_id (cs_rr s' r) = rr_id (cs_rr s r)" "\<And>r. rr_rc (cs_rr s' r) = rr_rc (cs_rr s r)"
    "\<And>r. rr_released (cs_rr s' r) = rr_released (cs_rr s r)"
    "\<And>p. rc_refs (cs_rc s' p) = rc_refs (cs_rc s p)"
  shows "csOk s' = csOk s"
  unfolding csOk_def attachedOk_def prefsOk_def execOk_def ptrsOk_def assms ..

lemma csOk_core: "cs_core s' = cs_core s \<Longrightarrow> csOk s' = csOk s"
  by (rule csOk_cong) (simp_all add: cs_core_fields[of s' s])

lemma NewConfigSetController_ok: "csOk NewConfigSetController"
  by (simp add: csOk_def attachedOk_def prefsOk_def execOk_def ptrsOk_def NewConfigSetController_def
      newRunningControllerRef_def)

lemma wake_ok [simp]: "csOk (wake s) = csOk s"
  by (rule csOk_cong) (simp_all add: wake_def)

subsection \<open>References\<close>

lemma ApplyReference_core:
  "cs_core (ApplyReference p r s) = (if rr_rc (cs_rr s r) = Some p then cs_core s
     else cs_core (rc_AddReference p r (updRR r (rr_rc_update (\<lambda>_. Some p)) s)))"
  by (auto simp: ApplyReference_def setRunningController_def Let_def rc_AddReference_def)
    (auto simp: cs_core_def refPushState_def fun_eq_iff)

lemma rc_AddReference_ok:
  "csOk s \<Longrightarrow> csOk (rc_AddReference p r s)"
  by (auto simp: csOk_def attachedOk_def prefsOk_def execOk_def ptrsOk_def rc_AddReference_def)

text \<open>Attaching a reference to a controller; the persistent ones of that key may only gain by it.\<close>

lemma attach_ok:
  assumes "attachedOk s" "execOk s" "ptrsOk s" "p < cs_next s" "r < cs_next s"
  shows "attachedOk (ApplyReference p r s)" "execOk (ApplyReference p r s)" "ptrsOk (ApplyReference p r s)"
proof -
  let ?t = "rc_AddReference p r (updRR r (rr_rc_update (\<lambda>_. Some p)) s)"
  have "attachedOk ?t" "execOk ?t" "ptrsOk ?t"
    using assms by (auto simp: attachedOk_def execOk_def ptrsOk_def rc_AddReference_def)
  moreover have "cs_core s' = cs_core t \<Longrightarrow> attachedOk s' = attachedOk t \<and> execOk s' = execOk t \<and> ptrsOk s' = ptrsOk t"
    for s' t :: csc
    unfolding attachedOk_def execOk_def ptrsOk_def using cs_core_fields[of s' t] by simp
  ultimately show "attachedOk (ApplyReference p r s)" "execOk (ApplyReference p r s)" "ptrsOk (ApplyReference p r s)"
    using ApplyReference_core[of p r s] assms by (metis (full_types))+
qed

lemma ApplyReference_fields [simp]:
  "cs_controllers (ApplyReference p r s) = cs_controllers s" "cs_next (ApplyReference p r s) = cs_next s"
  "cs_prefs (ApplyReference p r s) = cs_prefs s" "cs_exec (ApplyReference p r s) = cs_exec s"
  "cs_wake (ApplyReference p r s) = cs_wake s" "cs_runs (ApplyReference p r s) = cs_runs s"
  "rr_id (cs_rr (ApplyReference p r s) q) = rr_id (cs_rr s q)"
  "rr_released (cs_rr (ApplyReference p r s) q) = rr_released (cs_rr s q)"
  "rr_rc (cs_rr (ApplyReference p r s) q) = (if q = r then Some p else rr_rc (cs_rr s q))"
  "rc_conf (cs_rc (ApplyReference p r s) q) = rc_conf (cs_rc s q)"
  "rc_restart (cs_rc (ApplyReference p r s) q) = rc_restart (cs_rc s q)"
  by (auto simp: ApplyReference_def setRunningController_def Let_def rc_AddReference_def refPushState_def)

lemma fold_ApplyReference:
  assumes "attachedOk s" "execOk s" "ptrsOk s" "p < cs_next s" "\<forall>r\<in>set rs. r < cs_next s"
  shows "attachedOk (fold (ApplyReference p) rs s) \<and> execOk (fold (ApplyReference p) rs s)
    \<and> ptrsOk (fold (ApplyReference p) rs s)
    \<and> cs_controllers (fold (ApplyReference p) rs s) = cs_controllers s
    \<and> cs_next (fold (ApplyReference p) rs s) = cs_next s
    \<and> cs_prefs (fold (ApplyReference p) rs s) = cs_prefs s
    \<and> cs_exec (fold (ApplyReference p) rs s) = cs_exec s
    \<and> cs_runs (fold (ApplyReference p) rs s) = cs_runs s
    \<and> cs_wake (fold (ApplyReference p) rs s) = cs_wake s
    \<and> (\<forall>q. rr_id (cs_rr (fold (ApplyReference p) rs s) q) = rr_id (cs_rr s q)
         \<and> rr_rc (cs_rr (fold (ApplyReference p) rs s) q) = (if q \<in> set rs then Some p else rr_rc (cs_rr s q))
         \<and> rc_conf (cs_rc (fold (ApplyReference p) rs s) q) = rc_conf (cs_rc s q))"
  using assms
proof (induction rs arbitrary: s)
  case Nil
  then show ?case by simp
next
  case (Cons r rs)
  then show ?case using attach_ok[OF Cons.prems(1-4), of r] Cons.IH[of "ApplyReference p r s"] by auto
qed

lemma newRef_ok:
  assumes ok: "csOk s" and p: "p < cs_next s" and r: "r = cs_next s" and f: "rr_rc f = Some p"
  shows "csOk (rc_AddReference p r (s\<lparr>cs_next := Suc r, cs_rr := (cs_rr s)(r := f)\<rparr>))"
  using assms by (fastforce simp: csOk_def attachedOk_def prefsOk_def execOk_def ptrsOk_def
      rc_AddReference_def less_Suc_eq)

lemma DelReference_ok:
  assumes ok: "csOk s" and rel: "rr_released (cs_rr s r)"
  shows "csOk (DelReference p r s)"
proof (cases "indexOf (\<lambda>x. x = r) (rc_refs (cs_rc s p))")
  case None
  with ok show ?thesis by (simp add: DelReference_def Let_def)
next
  case (Some k)
  let ?rs = "rc_refs (cs_rc s p)"
  have k: "k < length ?rs" "?rs ! k = r" using indexOf_SomeD[OF Some] by auto
  have keep: "q \<in> set (swapRemove k ?rs)" if "q \<in> set ?rs" "q \<noteq> r" for q
  proof -
    have "q \<in># mset ?rs - {# r #}" using that by (simp add: in_diff_count)
    then show ?thesis using mset_swapRemove[OF k(1)] k(2) by (metis set_mset_mset)
  qed
  define t where "t = updRC p (\<lambda>x. x\<lparr>rc_refs := swapRemove k (rc_refs x)\<rparr>) s"
  have "csOk t"
    using ok rel keep by (auto simp: t_def csOk_def attachedOk_def prefsOk_def execOk_def ptrsOk_def)
  moreover have "DelReference p r s = (if rc_refs (cs_rc t p) = [] then wake t else t)"
    using Some by (simp add: DelReference_def Let_def t_def)
  ultimately show ?thesis by simp
qed

lemma ref_Release_ok: "csOk s \<Longrightarrow> csOk (ref_Release r s)"
proof -
  assume ok: "csOk s"
  let ?s = "updRR r (rr_released_update (\<lambda>_. True)) s"
  have s1: "csOk ?s" using ok by (auto simp: csOk_def attachedOk_def prefsOk_def execOk_def ptrsOk_def)
  have "csOk (DelReference p r ?s)" for p by (rule DelReference_ok[OF s1]) simp
  moreover have "csOk (t\<lparr>cs_dels := d\<rparr>) = csOk t" for t d by (rule csOk_cong) simp_all
  ultimately show ?thesis using ok s1 by (auto simp: ref_Release_def Let_def split: option.split)
qed

lemma relInternalCallback_ok: "csOk s \<Longrightarrow> csOk (relInternalCallback k s)"
  by (auto simp: relInternalCallback_def csOk_def attachedOk_def prefsOk_def execOk_def ptrsOk_def)

lemma AddStateCallback_ref_ok: "AddStateCallback_ref r cb s = Some s' \<Longrightarrow> csOk s' = csOk s"
  by (rule csOk_cong) (auto simp: AddStateCallback_ref_def Let_def split: option.splits if_split_asm)

subsection \<open>Pushing\<close>

lemma rc_ApplyConfig_ok [simp]: "csOk (snd (rc_ApplyConfig p conf s)) = csOk s"
  by (rule csOk_cong) (simp_all add: rc_ApplyConfig_def)

text \<open>The part of \<^verbatim>\<open>PushControllerConfig\<close> that makes a new controller and attaches the references that wait for it.\<close>

definition pushNew :: "string \<Rightarrow> sconf \<Rightarrow> csc \<Rightarrow> csc" where
  "pushNew key conf s =
     (let p = cs_next s;
          s = wake (s\<lparr>cs_next := Suc p, cs_rc := (cs_rc s)(p := newRunningController key conf),
                      cs_controllers := mapSet key p (cs_controllers s)\<rparr>)
      in fold (ApplyReference p) (filter (\<lambda>r. rr_id (cs_rr s r) = key) (map snd (cs_prefs s))) s)"

lemma pushNew_ok:
  assumes ok: "csOk s" and new: "map_of (cs_controllers s) key = None"
  shows "csOk (pushNew key conf s) \<and> map_of (cs_controllers (pushNew key conf s)) key = Some (cs_next s)
    \<and> cs_next s < cs_next (pushNew key conf s)"
proof -
  let ?p = "cs_next s"
  let ?s1 = "wake (s\<lparr>cs_next := Suc ?p, cs_rc := (cs_rc s)(?p := newRunningController key conf),
    cs_controllers := mapSet key ?p (cs_controllers s)\<rparr>)"
  let ?rs = "filter (\<lambda>r. rr_id (cs_rr ?s1 r) = key) (map snd (cs_prefs ?s1))"
  have old: "attachedOk s" "prefsOk s" "execOk s" "ptrsOk s" using ok by (auto simp: csOk_def)
  have fresh: "rr_rc (cs_rr s r) \<noteq> Some ?p" for r using old(4) by (auto simp: ptrsOk_def)
  have key: "key \<notin> fst ` set (cs_controllers s)" using new by (simp add: map_of_eq_None_iff)
  have a: "attachedOk ?s1"
    using old(1) fresh old(4) by (auto simp: attachedOk_def wake_def ptrsOk_def less_Suc_eq)
  have e: "execOk ?s1"
    using old(3) new by (fastforce simp: execOk_def wake_def)
  have t: "ptrsOk ?s1"
    using old(4) key new by (fastforce simp: ptrsOk_def wake_def mapSet_new less_Suc_eq)
  have p: "?p < cs_next ?s1" by (simp add: wake_def)
  have rs: "\<forall>r\<in>set ?rs. r < cs_next ?s1"
    using old(2) by (force simp: prefsOk_def wake_def)
  define u where "u = fold (ApplyReference ?p) ?rs ?s1"
  have u: "attachedOk u" "execOk u" "ptrsOk u" "cs_controllers u = cs_controllers ?s1"
    "cs_next u = cs_next ?s1" "cs_prefs u = cs_prefs ?s1"
    "\<And>q. rr_id (cs_rr u q) = rr_id (cs_rr ?s1 q)"
    "\<And>q. rr_rc (cs_rr u q) = (if q \<in> set ?rs then Some ?p else rr_rc (cs_rr ?s1 q))"
    using fold_ApplyReference[OF a e t p rs] by (simp_all add: u_def)
  have "prefsOk u"
    unfolding prefsOk_def
  proof (clarify, intro conjI allI impI)
    fix i r assume "(i, r) \<in> set (cs_prefs u)"
    then have r: "(i, r) \<in> set (cs_prefs s)" using u(6) by (simp add: wake_def)
    then have "r < cs_next s" using old(2) by (auto simp: prefsOk_def)
    then show "r < cs_next u" using u(5) by (simp add: wake_def)
    fix q assume q: "map_of (cs_controllers u) (rr_id (cs_rr u r)) = Some q"
    show "rr_rc (cs_rr u r) = Some q"
    proof (cases "rr_id (cs_rr s r) = key")
      case True
      then have "r \<in> set ?rs" using r by (force simp: wake_def)
      moreover have "q = ?p" using q True u(4,7) by (simp add: wake_def)
      ultimately show ?thesis using u(8) by simp
    next
      case False
      then have "r \<notin> set ?rs" by (auto simp: wake_def)
      moreover have "map_of (cs_controllers s) (rr_id (cs_rr s r)) = Some q"
        using q False u(4,7) by (simp add: wake_def)
      ultimately show ?thesis using u(8) r old(2) by (fastforce simp: prefsOk_def wake_def)
    qed
  qed
  moreover have "pushNew key conf s = u"
    unfolding pushNew_def Let_def u_def by simp
  ultimately show ?thesis using u by (simp add: csOk_def wake_def)
qed

text \<open>\<^verbatim>\<open>PushControllerConfig\<close> as the update or the creation, and then the new reference.\<close>

lemma PushControllerConfig_split:
  "PushControllerConfig key conf s =
     (let (p, s) = (case map_of (cs_controllers s) key of
          Some existing \<Rightarrow> (let (changed, s) = rc_ApplyConfig existing conf s in
             (existing, if changed then wake s else s))
        | None \<Rightarrow> (cs_next s, pushNew key conf s));
          r = cs_next s
      in (r, rc_AddReference p r
           (s\<lparr>cs_next := Suc r, cs_rr := (cs_rr s)(r := newRunningControllerRef key (Some p))\<rparr>)))"
  by (simp add: PushControllerConfig_def pushNew_def Let_def split: option.splits)

lemma ptrsOk_controller: "csOk s \<Longrightarrow> map_of (cs_controllers s) k = Some p \<Longrightarrow> p < cs_next s"
  by (auto simp: csOk_def ptrsOk_def dest: map_of_SomeD)

lemma PushControllerConfig_ok:
  assumes ok: "csOk s"
  shows "csOk (snd (PushControllerConfig key conf s))"
proof (cases "map_of (cs_controllers s) key")
  case None
  with pushNew_ok[OF ok None, of conf] show ?thesis
    by (auto simp: PushControllerConfig_split Let_def newRunningControllerRef_def intro!: newRef_ok)
next
  case (Some p)
  obtain ch t where t: "rc_ApplyConfig p conf s = (ch, t)" by (cases "rc_ApplyConfig p conf s")
  define u where "u = (if ch then wake t else t)"
  have "csOk t" using rc_ApplyConfig_ok[of p conf s] ok t by simp
  then have u: "csOk u" by (simp add: u_def)
  have "cs_next u = cs_next s"
    using t by (auto simp: u_def rc_ApplyConfig_def wake_def split: if_splits)
  then have "p < cs_next u" using ptrsOk_controller[OF ok Some] by simp
  then show ?thesis using u newRef_ok[OF u, of p "cs_next u" "newRunningControllerRef key (Some p)"]
    by (simp add: PushControllerConfig_split Some t u_def newRunningControllerRef_def Let_def)
qed

lemma set_update: "e \<in> set (AList.update k v m) \<Longrightarrow> e = (k, v) \<or> e \<in> set m"
  by (induction m) (auto split: if_split_asm)

lemma AddConfigSetReference_ok:
  assumes ok: "csOk s"
  shows "csOk (snd (AddConfigSetReference key s))"
proof -
  define r where "r = cs_next s"
  define t where "t = s\<lparr>cs_prefCtr := cs_prefCtr s + 1, cs_next := Suc r,
    cs_rr := (cs_rr s)(r := (newRunningControllerRef key None)\<lparr>rr_persistent := Some (cs_prefCtr s)\<rparr>),
    cs_prefs := AList.update (cs_prefCtr s) r (cs_prefs s)\<rparr>"
  have old: "attachedOk s" "prefsOk s" "execOk s" "ptrsOk s" using ok by (auto simp: csOk_def)
  have unused: "rr_rc (cs_rr s r) = None"
    using old(4) by (cases "rr_rc (cs_rr s r)") (auto simp: ptrsOk_def r_def)
  have a: "attachedOk t" using old(1)
    by (auto simp: attachedOk_def t_def newRunningControllerRef_def r_def)
  have e: "execOk t" using old(3) by (simp add: execOk_def t_def)
  have p: "ptrsOk t" using old(4)
    by (fastforce simp: ptrsOk_def t_def newRunningControllerRef_def r_def)
  have pr: "prefsOk (s\<lparr>cs_next := Suc r\<rparr>)" using old(2) by (fastforce simp: prefsOk_def r_def)
  show ?thesis
  proof (cases "map_of (cs_controllers s) key")
    case None
    then have "prefsOk t" using old(2)
      by (fastforce simp: prefsOk_def t_def newRunningControllerRef_def r_def dest: set_update)
    then show ?thesis using a e p None
      by (simp add: AddConfigSetReference_def Let_def csOk_def t_def r_def)
  next
    case (Some q)
    have q: "q < cs_next t" using ptrsOk_controller[OF ok Some] by (simp add: t_def r_def)
    have "prefsOk (ApplyReference q r t)" using old(2) Some
      by (fastforce simp: prefsOk_def t_def newRunningControllerRef_def r_def dest: set_update)
    moreover have "r < cs_next t" by (simp add: t_def)
    ultimately have "csOk (ApplyReference q r t)"
      using attach_ok[OF a e p q, of r] by (simp add: csOk_def)
    then show ?thesis using Some by (simp add: AddConfigSetReference_def Let_def t_def r_def)
  qed
qed

subsection \<open>The loop\<close>

lemma map_of_mapDelete [simp]: "map_of (mapDelete k m) k' = (if k' = k then None else map_of m k')"
  unfolding mapDelete_def by (induction m) auto

lemma set_mapDelete [simp]: "set (mapDelete k m) = {e \<in> set m. fst e \<noteq> k}"
  by (auto simp: mapDelete_def)

lemma distinct_mapDelete [simp]:
  "distinct (map f m) \<Longrightarrow> distinct (map f (mapDelete k m))"
  by (simp add: mapDelete_def distinct_map_filter)

text \<open>Forgetting a key that executes: its controller and its goroutine go together.\<close>

lemma execOk_other:
  assumes "execOk s" "(k, n) \<in> set (cs_exec s)" "(k', m) \<in> set (cs_exec s)" "k' \<noteq> k"
  shows "m \<noteq> n"
  using assms unfolding execOk_def distinct_map inj_on_def by (metis fst_conv snd_conv)

lemma forget_ok:
  assumes ok: "csOk s" and n: "map_of (cs_exec s) k = Some n"
  shows "csOk ((cancelRun n (s\<lparr>cs_controllers := mapDelete k (cs_controllers s)\<rparr>))\<lparr>cs_exec := mapDelete k (cs_exec s)\<rparr>)"
proof -
  have e: "execOk s" using ok by (simp add: csOk_def)
  have other: "m \<noteq> n" if "(k', m) \<in> set (cs_exec s)" "k' \<noteq> k" for k' m
    using execOk_other[OF e map_of_SomeD[OF n] that] .
  have keep: "(cs_runs s)[n := x] ! m = cs_runs s ! m" if "(k', m) \<in> set (cs_exec s)" "k' \<noteq> k" for k' m x
    using other[OF that] by (metis nth_list_update_neq)
  show ?thesis
    using ok keep
    by (auto simp: csOk_def attachedOk_def prefsOk_def execOk_def ptrsOk_def cancelRun_def split_def)
qed

text \<open>Whether the loop forgets a key.\<close>

definition idleKey :: "csc \<Rightarrow> string \<Rightarrow> bool" where
  "idleKey s k = (case map_of (cs_controllers s) k of None \<Rightarrow> True | Some p \<Rightarrow> rc_refs (cs_rc s p) = [])"

lemma gcStep_eq:
  assumes ok: "csOk s" and n: "map_of (cs_exec s) k = Some n"
  shows "gcStep (k, n) s = (if idleKey s k
    then (cancelRun n (s\<lparr>cs_controllers := mapDelete k (cs_controllers s)\<rparr>))\<lparr>cs_exec := mapDelete k (cs_exec s)\<rparr>
    else s)"
proof -
  have "map_of (cs_controllers s) k = Some (run_rc (cs_runs s ! n))"
    using ok map_of_SomeD[OF n] by (auto simp: csOk_def execOk_def)
  then show ?thesis by (simp add: gcStep_def Let_def cancelRun_def idleKey_def)
qed

lemma fold_gcStep:
  assumes "csOk s" "\<forall>(k, n)\<in>set es. map_of (cs_exec s) k = Some n" "distinct (map fst es)"
  defines "gone \<equiv> \<lambda>k. k \<in> fst ` set es \<and> idleKey s k"
  shows "csOk (fold gcStep es s) \<and> cs_rc (fold gcStep es s) = cs_rc s
    \<and> length (cs_runs (fold gcStep es s)) = length (cs_runs s)
    \<and> (\<forall>k. map_of (cs_controllers (fold gcStep es s)) k = (if gone k then None else map_of (cs_controllers s) k))
    \<and> (\<forall>k. map_of (cs_exec (fold gcStep es s)) k = (if gone k then None else map_of (cs_exec s) k))
    \<and> (\<forall>m < length (cs_runs s). run_canceled (cs_runs (fold gcStep es s) ! m)
         \<longleftrightarrow> run_canceled (cs_runs s ! m) \<or> (\<exists>k. (k, m) \<in> set es \<and> idleKey s k))"
  using assms(1-3) unfolding gone_def
proof (induction es arbitrary: s)
  case Nil
  then show ?case by simp
next
  case (Cons e es)
  obtain k n where e: "e = (k, n)" by (cases e)
  define t where "t = gcStep (k, n) s"
  have n: "map_of (cs_exec s) k = Some n" using Cons.prems(2) e by simp
  have t: "t = (if idleKey s k then (cancelRun n (s\<lparr>cs_controllers := mapDelete k (cs_controllers s)\<rparr>))
    \<lparr>cs_exec := mapDelete k (cs_exec s)\<rparr> else s)"
    unfolding t_def by (rule gcStep_eq[OF Cons.prems(1) n])
  have ok: "csOk t" using forget_ok[OF Cons.prems(1) n] Cons.prems(1) t by simp
  have k: "k' \<noteq> k" if "(k', m) \<in> set es" for k' m using Cons.prems(3) e that by force
  have es: "\<forall>(k', m)\<in>set es. map_of (cs_exec t) k' = Some m"
    using Cons.prems(2) k t by (auto simp: cancelRun_def)
  have d: "distinct (map fst es)" using Cons.prems(3) by simp
  have idle: "idleKey t k' = idleKey s k'" if "k' \<noteq> k" for k'
    using that t by (auto simp: idleKey_def cancelRun_def split: option.split)
  have idle': "(k', m) \<in> set es \<Longrightarrow> idleKey t k' = idleKey s k'" for k' m using k idle by blast
  have nlt: "n < length (cs_runs s)" using Cons.prems(1) map_of_SomeD[OF n] by (auto simp: csOk_def execOk_def)
  have runs: "\<forall>m < length (cs_runs s). run_canceled (cs_runs t ! m)
      \<longleftrightarrow> run_canceled (cs_runs s ! m) \<or> (m = n \<and> idleKey s k)"
    using t nlt by (auto simp: cancelRun_def nth_list_update)
  have fs: "cs_rc t = cs_rc s" "length (cs_runs t) = length (cs_runs s)"
    "\<And>k'. map_of (cs_controllers t) k' = (if k' = k \<and> idleKey s k then None else map_of (cs_controllers s) k')"
    "\<And>k'. map_of (cs_exec t) k' = (if k' = k \<and> idleKey s k then None else map_of (cs_exec s) k')"
    using t by (auto simp: cancelRun_def)
  have m: "k' \<in> fst ` set es \<Longrightarrow> idleKey t k' = idleKey s k'" for k' using idle' by force
  have kk: "k \<notin> fst ` set es" using k by force
  show ?case
    using Cons.IH[OF ok es d] fs runs idle' m kk unfolding e by (auto simp flip: t_def)
qed

lemma startStep_ok:
  assumes ok: "csOk s" and p: "map_of (cs_controllers s) k = Some p"
  shows "csOk (startStep (k, p) s)"
proof (cases "map_of (cs_exec s) k")
  case None
  then show ?thesis using ok p
    by (fastforce simp: startStep_def csOk_def attachedOk_def prefsOk_def execOk_def ptrsOk_def mapSet_new
        nth_append map_of_eq_None_iff)
qed (use ok in \<open>simp add: startStep_def\<close>)

lemma fold_startStep:
  assumes "csOk s" "\<forall>(k, p)\<in>set cs. map_of (cs_controllers s) k = Some p"
  shows "csOk (fold startStep cs s) \<and> cs_rc (fold startStep cs s) = cs_rc s
    \<and> cs_controllers (fold startStep cs s) = cs_controllers s
    \<and> length (cs_runs s) \<le> length (cs_runs (fold startStep cs s))
    \<and> (\<forall>m < length (cs_runs s). cs_runs (fold startStep cs s) ! m = cs_runs s ! m)
    \<and> (\<forall>k n. map_of (cs_exec s) k = Some n \<longrightarrow> map_of (cs_exec (fold startStep cs s)) k = Some n)
    \<and> (\<forall>k. k \<notin> fst ` set cs \<longrightarrow> map_of (cs_exec (fold startStep cs s)) k = map_of (cs_exec s) k)
    \<and> (\<forall>k \<in> fst ` set cs. map_of (cs_exec (fold startStep cs s)) k \<noteq> None)"
  using assms
proof (induction cs arbitrary: s)
  case Nil
  then show ?case by simp
next
  case (Cons e cs)
  obtain k p where e: "e = (k, p)" by (cases e)
  define t where "t = startStep (k, p) s"
  have p: "map_of (cs_controllers s) k = Some p" using Cons.prems(2) e by simp
  have ok: "csOk t" unfolding t_def by (rule startStep_ok[OF Cons.prems(1) p])
  have fs: "cs_rc t = cs_rc s" "cs_controllers t = cs_controllers s" "length (cs_runs s) \<le> length (cs_runs t)"
    "\<forall>m < length (cs_runs s). cs_runs t ! m = cs_runs s ! m"
    "\<forall>k n. map_of (cs_exec s) k = Some n \<longrightarrow> map_of (cs_exec t) k = Some n"
    "\<forall>k'. k' \<noteq> k \<longrightarrow> map_of (cs_exec t) k' = map_of (cs_exec s) k'" "\<exists>n. map_of (cs_exec t) k = Some n"
    unfolding t_def by (auto simp: startStep_def nth_append map_of_mapSet)
  have "\<forall>(k, p)\<in>set cs. map_of (cs_controllers t) k = Some p" using Cons.prems(2) fs(2) by auto
  from Cons.IH[OF ok this] fs show ?case unfolding e by (auto simp flip: t_def)
qed

lemma cs_wake_ok [simp]: "csOk (s\<lparr>cs_wake := b\<rparr>) = csOk s"
  by (rule csOk_cong) simp_all

lemma csOk_distinct: "csOk s \<Longrightarrow> distinct (map fst (cs_controllers s)) \<and> distinct (map fst (cs_exec s))"
  by (simp add: csOk_def ptrsOk_def execOk_def)

lemma csOk_exec:
  assumes "csOk s" "map_of (cs_exec s) k = Some n"
  shows "n < length (cs_runs s) \<and> \<not> run_canceled (cs_runs s ! n)
    \<and> map_of (cs_controllers s) k = Some (run_rc (cs_runs s ! n))"
  using assms(1) map_of_SomeD[OF assms(2)] by (auto simp: csOk_def execOk_def)

text \<open>
  What one iteration does: the keys that are executing and have no reference are forgotten and their
  goroutines cancelled; then every controller left has a goroutine, the old one if it had one.
\<close>

lemma iteration_spec:
  assumes ok: "csOk s" and w: "cs_wake s"
  defines "t \<equiv> Execute_iteration s"
  defines "gone \<equiv> \<lambda>k. map_of (cs_exec s) k \<noteq> None \<and> idleKey s k"
  shows "csOk t" "cs_rc t = cs_rc s"
    "map_of (cs_controllers t) k = (if gone k then None else map_of (cs_controllers s) k)"
    "gone k \<Longrightarrow> map_of (cs_exec t) k = None"
    "map_of (cs_exec s) k = Some n \<Longrightarrow> \<not> gone k \<Longrightarrow> map_of (cs_exec t) k = Some n"
    "map_of (cs_exec s) k = Some n \<Longrightarrow> run_canceled (cs_runs t ! n) = gone k"
    "map_of (cs_controllers t) k \<noteq> None \<Longrightarrow> map_of (cs_exec t) k \<noteq> None"
proof -
  let ?s = "s\<lparr>cs_wake := False\<rparr>"
  define u where "u = fold gcStep (cs_exec s) ?s"
  have idle: "idleKey ?s k' = idleKey s k'" for k' by (simp add: idleKey_def split: option.split)
  have d: "distinct (map fst (cs_exec s))" using csOk_distinct[OF ok] by simp
  have es: "\<forall>(k, n)\<in>set (cs_exec s). map_of (cs_exec ?s) k = Some n" using d by auto
  have fst: "k' \<in> fst ` set (cs_exec s) \<longleftrightarrow> map_of (cs_exec s) k' \<noteq> None" for k'
    by (simp add: map_of_eq_None_iff)
  have u: "csOk u" "cs_rc u = cs_rc s" "length (cs_runs u) = length (cs_runs s)"
    "\<And>k. map_of (cs_controllers u) k = (if gone k then None else map_of (cs_controllers s) k)"
    "\<And>k. map_of (cs_exec u) k = (if gone k then None else map_of (cs_exec s) k)"
    "\<And>m. m < length (cs_runs s) \<Longrightarrow> run_canceled (cs_runs u ! m)
       \<longleftrightarrow> run_canceled (cs_runs s ! m) \<or> (\<exists>k. map_of (cs_exec s) k = Some m \<and> idleKey s k)"
    using fold_gcStep[of ?s "cs_exec s"] ok es d
    by (simp_all add: gone_def idle fst flip: u_def)
  have t: "t = fold startStep (cs_controllers u) u"
    using w by (simp add: t_def u_def Execute_iteration_def Let_def)
  have cs: "\<forall>(k, p)\<in>set (cs_controllers u). map_of (cs_controllers u) k = Some p"
    using csOk_distinct[OF u(1)] by auto
  note st = fold_startStep[OF u(1) cs, folded t]
  show "csOk t" "cs_rc t = cs_rc s" using st u(2) by simp_all
  show "map_of (cs_controllers t) k = (if gone k then None else map_of (cs_controllers s) k)"
    using st u(4) by simp
  show "map_of (cs_exec t) k = None" if "gone k"
  proof -
    have "k \<notin> fst ` set (cs_controllers u)" using u(4)[of k] that by (simp add: map_of_eq_None_iff)
    then show ?thesis using st u(5)[of k] that by simp
  qed
  show "map_of (cs_exec t) k = Some n" if "map_of (cs_exec s) k = Some n" "\<not> gone k"
    using st u(5)[of k] that by simp
  show "run_canceled (cs_runs t ! n) = gone k" if n: "map_of (cs_exec s) k = Some n"
  proof -
    have k: "k' = k" if "map_of (cs_exec s) k' = Some n" for k'
      using execOk_other[of s k n k' n] ok map_of_SomeD[OF n] map_of_SomeD[OF that] by (auto simp: csOk_def)
    then have "(\<exists>k. map_of (cs_exec s) k = Some n \<and> idleKey s k) = gone k"
      unfolding gone_def using n by (metis option.distinct(1))
    moreover have "run_canceled (cs_runs t ! n) = run_canceled (cs_runs u ! n)"
      using csOk_exec[OF ok n] st u(3) by simp
    ultimately show ?thesis using csOk_exec[OF ok n] u(6)[of n] by simp
  qed
  show "map_of (cs_exec t) k \<noteq> None" if "map_of (cs_controllers t) k \<noteq> None"
    using st that by (metis map_of_eq_None_iff)
qed

lemma Execute_iteration_ok: "csOk s \<Longrightarrow> csOk (Execute_iteration s)"
  using iteration_spec(1)[of s] by (cases "cs_wake s") (simp_all add: Execute_iteration_def)

lemma exitStep_ok:
  assumes ok: "csOk s"
  shows "csOk (exitStep e s)"
proof (cases e)
  case (Pair k p)
  show ?thesis
  proof (cases "map_of (cs_exec s) k")
    case None
    then have "k \<notin> fst ` set (cs_exec s)" by (simp add: map_of_eq_None_iff)
    then show ?thesis using ok Pair None
      by (fastforce simp: exitStep_def csOk_def attachedOk_def prefsOk_def execOk_def ptrsOk_def)
  next
    case (Some n)
    then show ?thesis using forget_ok[OF ok Some] Pair by (simp add: exitStep_def Let_def cancelRun_def)
  qed
qed

lemma Execute_exit_ok: "csOk s \<Longrightarrow> csOk (Execute_exit s)"
proof -
  have "csOk s \<Longrightarrow> csOk (fold exitStep es s)" for es
    by (induction es arbitrary: s) (auto intro: exitStep_ok)
  then show "csOk s \<Longrightarrow> csOk (Execute_exit s)" by (simp add: Execute_exit_def)
qed

subsection \<open>Running a controller\<close>

lemma csOk_clearState [simp]: "csOk (clearState p conf err s) = csOk s"
  by (rule csOk_core) simp

lemma csOk_pushState [simp]: "csOk (pushState p st s) = csOk s"
  by (rule csOk_core) simp

lemma csOk_updRC:
  "(\<And>x. rc_refs (f x) = rc_refs x) \<Longrightarrow> csOk (updRC p f s) = csOk s"
  by (rule csOk_cong) simp_all

lemma csOk_setPc [simp]: "csOk (setPc n pc s) = csOk s"
proof -
  define xs where "xs = (cs_runs s)[n := (cs_runs s ! n)\<lparr>run_pc := pc\<rparr>]"
  have *: "xs ! m = (if m = n \<and> n < length (cs_runs s) then (cs_runs s ! n)\<lparr>run_pc := pc\<rparr> else cs_runs s ! m)" for m
    unfolding xs_def by (cases "n < length (cs_runs s)") (auto simp: nth_list_update list_update_beyond)
  then have "run_rc (xs ! m) = run_rc (cs_runs s ! m)" "run_canceled (xs ! m) = run_canceled (cs_runs s ! m)" for m
    by simp_all
  moreover have "length xs = length (cs_runs s)" by (simp add: xs_def)
  ultimately show ?thesis
    by (simp add: csOk_def attachedOk_def prefsOk_def execOk_def ptrsOk_def setPc_def flip: xs_def)
qed

lemma run_leave_ok [simp]: "csOk (run_leave n s) = csOk s"
  by (simp add: run_leave_def Let_def csOk_updRC)

lemma run_step_ok [simp]: "csOk (run_step V ev n s) = csOk s"
  by (auto simp: run_step_def Let_def csOk_updRC split: run_pc.split run_event.split option.split)

lemma cs_step_ok: "cs_step V s s' \<Longrightarrow> csOk s \<Longrightarrow> csOk s'"
  by (induction rule: cs_step.induct)
    (simp_all add: PushControllerConfig_ok AddConfigSetReference_ok ref_Release_ok relInternalCallback_ok
      AddStateCallback_ref_ok Execute_iteration_ok Execute_exit_ok)

lemma cs_reach_ok: "cs_reach V NewConfigSetController s \<Longrightarrow> csOk s"
  by (induction rule: cs_reach.induct) (auto intro: cs_step_ok NewConfigSetController_ok)

section \<open>References keep controllers running\<close>

text \<open>
  C8: in every state the controller can get into, one iteration of \<^verbatim>\<open>Execute\<close> after a wake-up brings
  the goroutines in line with the references. A key that is executing stays, with the goroutine it
  had and not cancelled, if its controller has a reference, and is deleted with its goroutine
  cancelled if it has none; a key that is not yet executing stays and is started; and afterwards
  exactly the controllers execute.
\<close>

theorem Execute_iteration_reconciles:
  assumes "cs_reach V NewConfigSetController s" "cs_wake s"
  shows "let t = Execute_iteration s in
    (case map_of (cs_exec s) k of
       None \<Rightarrow> map_of (cs_controllers t) k = map_of (cs_controllers s) k
     | Some n \<Rightarrow> (\<exists>p. map_of (cs_controllers s) k = Some p \<and>
         (if rc_refs (cs_rc s p) = []
          then map_of (cs_controllers t) k = None \<and> run_canceled (cs_runs t ! n)
          else map_of (cs_controllers t) k = Some p \<and> map_of (cs_exec t) k = Some n
            \<and> \<not> run_canceled (cs_runs t ! n))))
    \<and> (case map_of (cs_controllers t) k of
         None \<Rightarrow> map_of (cs_exec t) k = None
       | Some p \<Rightarrow> (\<exists>n. map_of (cs_exec t) k = Some n \<and> run_rc (cs_runs t ! n) = p
           \<and> \<not> run_canceled (cs_runs t ! n)))"
proof -
  define t where "t = Execute_iteration s"
  have ok: "csOk s" by (rule cs_reach_ok[OF assms(1)])
  note it = iteration_spec[OF ok assms(2), folded t_def]
  have idle: "idleKey s k = (rc_refs (cs_rc s p) = [])" if "map_of (cs_controllers s) k = Some p" for p
    using that by (simp add: idleKey_def)
  have first: "case map_of (cs_exec s) k of
       None \<Rightarrow> map_of (cs_controllers t) k = map_of (cs_controllers s) k
     | Some n \<Rightarrow> (\<exists>p. map_of (cs_controllers s) k = Some p \<and>
         (if rc_refs (cs_rc s p) = []
          then map_of (cs_controllers t) k = None \<and> run_canceled (cs_runs t ! n)
          else map_of (cs_controllers t) k = Some p \<and> map_of (cs_exec t) k = Some n
            \<and> \<not> run_canceled (cs_runs t ! n)))"
  proof (cases "map_of (cs_exec s) k")
    case None
    then show ?thesis using it(3)[of k] by simp
  next
    case (Some n)
    then show ?thesis using csOk_exec[OF ok Some] it(3)[of k] it(5)[OF Some] it(6)[OF Some] idle by auto
  qed
  have second: "case map_of (cs_controllers t) k of
         None \<Rightarrow> map_of (cs_exec t) k = None
       | Some p \<Rightarrow> (\<exists>n. map_of (cs_exec t) k = Some n \<and> run_rc (cs_runs t ! n) = p
           \<and> \<not> run_canceled (cs_runs t ! n))"
    using it(7)[of k] csOk_exec[OF it(1), of k]
    by (cases "map_of (cs_exec t) k"; cases "map_of (cs_controllers t) k") auto
  from first second show ?thesis unfolding t_def Let_def by (rule conjI)
qed

text \<open>Two pushes of one key, the loop, and the release of the first reference.\<close>

definition cs_demo :: csc where
  "cs_demo = (let (r1, s) = PushControllerConfig ''a'' \<lparr>sc_ptr = 1, sc_rev = 1\<rparr> NewConfigSetController;
     s = Execute_iteration s;
     (r2, s) = PushControllerConfig ''b'' \<lparr>sc_ptr = 2, sc_rev = 1\<rparr> s in
     ref_Release r1 s)"

lemma cs_demo_reach: "cs_reach V NewConfigSetController cs_demo"
  unfolding cs_demo_def Let_def case_prod_beta
  by (rule cs_next[OF cs_next[OF cs_next[OF cs_next[OF cs_refl cs_push] cs_iter] cs_push] cs_release]) code_simp

lemma cs_demo_facts:
  "cs_wake cs_demo \<and> map_of (cs_controllers cs_demo) ''a'' = Some 0 \<and> map_of (cs_exec cs_demo) ''a'' = Some 0
    \<and> rc_refs (cs_rc cs_demo 0) = [] \<and> map_of (cs_controllers cs_demo) ''b'' = Some 2
    \<and> rr_rc (cs_rr cs_demo 3) = Some 2 \<and> \<not> rr_released (cs_rr cs_demo 3) \<and> rr_id (cs_rr cs_demo 3) = ''b''
    \<and> cs_next cs_demo = 4"
  by code_simp

lemma Execute_iteration_reconciles_witness:
  "cs_wake cs_demo \<and> map_of (cs_controllers (Execute_iteration cs_demo)) ''a'' = None
    \<and> run_canceled (cs_runs (Execute_iteration cs_demo) ! 0)
    \<and> map_of (cs_controllers (Execute_iteration cs_demo)) ''b'' = Some 2
    \<and> map_of (cs_exec (Execute_iteration cs_demo)) ''b'' \<noteq> None"
proof -
  have "map_of (cs_exec cs_demo) ''b'' = None" by code_simp
  then show ?thesis
    using Execute_iteration_reconciles[OF cs_demo_reach[of "\<lambda>_. None"], of "''a''"]
      Execute_iteration_reconciles[OF cs_demo_reach[of "\<lambda>_. None"], of "''b''"] cs_demo_facts
    by (auto simp: Let_def)
qed

text \<open>A live reference of a key, whose controller is the one that the key stands for.\<close>

definition held :: "csc \<Rightarrow> nat \<Rightarrow> nat \<Rightarrow> bool" where
  "held s r p \<longleftrightarrow> r < cs_next s \<and> \<not> rr_released (cs_rr s r) \<and> rr_rc (cs_rr s r) = Some p
     \<and> map_of (cs_controllers s) (rr_id (cs_rr s r)) = Some p"

lemma held_core: "cs_core s' = cs_core s \<Longrightarrow> held s' r p = held s r p"
  using cs_core_fields[of s' s] by (simp add: held_def)

lemma held_frame:
  assumes "cs_controllers s' = cs_controllers s" "cs_next s' = cs_next s" "cs_rr s' = cs_rr s"
  shows "held s' r p = held s r p"
  using assms by (simp add: held_def)

lemma held_Push:
  assumes ok: "csOk s" and h: "held s r p"
  shows "held (snd (PushControllerConfig key conf s)) r p"
proof (cases "map_of (cs_controllers s) key")
  case (Some q)
  then show ?thesis using h
    by (auto simp: PushControllerConfig_split Let_def rc_ApplyConfig_def wake_def rc_AddReference_def held_def)
next
  case None
  let ?p = "cs_next s"
  let ?s1 = "wake (s\<lparr>cs_next := Suc ?p, cs_rc := (cs_rc s)(?p := newRunningController key conf),
    cs_controllers := mapSet key ?p (cs_controllers s)\<rparr>)"
  let ?rs = "filter (\<lambda>r. rr_id (cs_rr ?s1 r) = key) (map snd (cs_prefs ?s1))"
  have rr: "cs_rr (fold (ApplyReference ?p) rs t) r = cs_rr t r" if "r \<notin> set rs" for rs t
    using that
    by (induction rs arbitrary: t)
      (auto simp: ApplyReference_def setRunningController_def rc_AddReference_def refPushState_def Let_def)
  have fs: "cs_controllers (fold (ApplyReference ?p) rs t) = cs_controllers t
    \<and> cs_next (fold (ApplyReference ?p) rs t) = cs_next t" for rs t
    by (induction rs arbitrary: t) auto
  have "rr_id (cs_rr s r) \<noteq> key" using h None by (auto simp: held_def)
  then have "r \<notin> set ?rs" by (simp add: wake_def)
  moreover have "pushNew key conf s = fold (ApplyReference ?p) ?rs ?s1"
    by (simp add: pushNew_def Let_def)
  ultimately have "cs_rr (pushNew key conf s) r = cs_rr s r"
    and "cs_controllers (pushNew key conf s) = mapSet key ?p (cs_controllers s)"
    and "cs_next (pushNew key conf s) = Suc ?p"
    using rr[of ?rs ?s1] fs[of ?rs ?s1] by (simp_all add: wake_def)
  then show ?thesis using h None \<open>rr_id (cs_rr s r) \<noteq> key\<close>
    by (simp add: PushControllerConfig_split Let_def rc_AddReference_def held_def)
qed

lemma held_AddConfigSetReference: "held s r p \<Longrightarrow> held (snd (AddConfigSetReference key s)) r p"
  by (auto simp: AddConfigSetReference_def Let_def held_def split: option.split)

lemma held_Release:
  assumes "held s r p" "q \<noteq> r"
  shows "held (ref_Release q s) r p"
  using assms
  by (auto simp: ref_Release_def DelReference_def wake_def Let_def held_def split: option.split)

lemma held_iteration:
  assumes ok: "csOk s" and h: "held s r p"
  shows "held (Execute_iteration s) r p"
proof (cases "cs_wake s")
  case True
  have "r \<in> set (rc_refs (cs_rc s p))" using ok h by (auto simp: csOk_def attachedOk_def held_def)
  then have "\<not> idleKey s (rr_id (cs_rr s r))" using h by (auto simp: idleKey_def held_def)
  then have "map_of (cs_controllers (Execute_iteration s)) (rr_id (cs_rr s r)) = Some p"
    using iteration_spec(3)[OF ok True] h by (simp add: held_def)
  moreover have "cs_rr (fold gcStep es t) = cs_rr t \<and> cs_next (fold gcStep es t) = cs_next t" for es t
    by (induction es arbitrary: t) (auto simp: gcStep_def cancelRun_def Let_def split: option.split)
  moreover have "cs_rr (fold startStep es t) = cs_rr t \<and> cs_next (fold startStep es t) = cs_next t" for es t
    by (induction es arbitrary: t) (auto simp: startStep_def)
  ultimately show ?thesis using h by (simp add: held_def Execute_iteration_def Let_def True)
qed (use h in \<open>simp add: Execute_iteration_def\<close>)

lemma held_run_step: "held (run_step V ev n s) r p = held s r p"
proof -
  have pc: "held (setPc n pc t) r p = held t r p" for pc t by (rule held_frame) (simp_all add: setPc_def)
  have cl: "held (clearState q conf err t) r p = held t r p" for q conf err t
    by (rule held_core) simp
  have pu: "held (pushState q st t) r p = held t r p" for q st t by (rule held_core) simp
  have up: "held (updRC q f t) r p = held t r p" for q f t by (rule held_frame) simp_all
  have lv: "held (run_leave n t) r p = held t r p" for t
    by (simp add: run_leave_def Let_def pc pu up)
  show ?thesis
    by (auto simp: run_step_def Let_def pc cl pu up lv split: run_pc.split run_event.split option.split)
qed

text \<open>
  C9: a controller that has a live reference is never taken away. In every state the controller can
  get into, whatever happens next, apart from the release of that reference and the end of \<^verbatim>\<open>Execute\<close>,
  leaves the reference attached to the same running controller and that controller under its key.
\<close>

theorem referenced_controller_stays:
  assumes "cs_reach V NewConfigSetController s" "held s r p" "cs_step V s s'"
    "s' \<noteq> ref_Release r s" "s' \<noteq> Execute_exit s"
  shows "held s' r p \<and> r \<in> set (rc_refs (cs_rc s' p))"
proof -
  have ok: "csOk s" by (rule cs_reach_ok[OF assms(1)])
  have "held s' r p" using assms(3,2,4,5)
  proof cases
    case (cs_release q)
    then show ?thesis using assms(2,4) held_Release by metis
  next
    case (cs_del k)
    then show ?thesis using assms(2) by (simp add: relInternalCallback_def held_def)
  next
    case (cs_callback q cb)
    then show ?thesis using assms(2)
      by (auto simp: AddStateCallback_ref_def Let_def held_def split: option.splits if_split_asm)
  qed (use ok assms(2,5) in \<open>simp_all add: held_Push held_AddConfigSetReference held_iteration held_run_step\<close>)
  moreover have "csOk s'" by (rule cs_step_ok[OF assms(3) ok])
  ultimately show ?thesis by (auto simp: csOk_def attachedOk_def held_def)
qed

lemma referenced_controller_stays_witness:
  "held cs_demo 3 2 \<and> held (Execute_iteration cs_demo) 3 2"
proof -
  have "held cs_demo 3 2" using cs_demo_facts by (simp add: held_def)
  moreover have "rr_released (cs_rr (ref_Release 3 cs_demo) 3) \<and> \<not> rr_released (cs_rr (Execute_iteration cs_demo) 3)"
    by code_simp
  moreover have "length (cs_controllers (Execute_iteration cs_demo)) = 1 \<and> cs_controllers (Execute_exit cs_demo) = []"
    by code_simp
  ultimately show ?thesis
    using referenced_controller_stays[OF cs_demo_reach _ cs_iter[of "\<lambda>_. None"], of 3 2]
    by (metis length_0_conv zero_neq_one)
qed

section \<open>Which config runs\<close>

text \<open>The steps that are not the goroutine's own leave its place alone.\<close>

definition pcOf :: "csc \<Rightarrow> nat \<Rightarrow> run_pc option" where
  "pcOf s n = (if n < length (cs_runs s) then Some (run_pc (cs_runs s ! n)) else None)"

lemma pcOf_runs: "cs_runs s' = cs_runs s \<Longrightarrow> pcOf s' n = pcOf s n"
  by (simp add: pcOf_def)

lemma pcOf_cancelRun [simp]: "pcOf (cancelRun m s) n = pcOf s n"
  by (cases "m < length (cs_runs s)") (auto simp: pcOf_def cancelRun_def nth_list_update list_update_beyond)

lemma pcOf_setPc [simp]:
  "pcOf (setPc m pc s) n = (if n = m \<and> n < length (cs_runs s) then Some pc else pcOf s n)"
  by (cases "m < length (cs_runs s)") (auto simp: pcOf_def setPc_def nth_list_update list_update_beyond)

lemma runs_run_leave [simp]: "cs_runs (setPc n pc s) = (cs_runs s)[n := (cs_runs s ! n)\<lparr>run_pc := pc\<rparr>]"
  by (simp add: setPc_def)

lemma runs_fold:
  assumes "\<And>e t. cs_runs (f e t) = cs_runs t"
  shows "cs_runs (fold f es s) = cs_runs s"
  using assms by (induction es arbitrary: s) auto

lemma pcOf_fold:
  assumes "\<And>e t. pcOf t n = Some pc \<Longrightarrow> pcOf (f e t) n = Some pc"
  shows "pcOf s n = Some pc \<Longrightarrow> pcOf (fold f es s) n = Some pc"
  using assms by (induction es arbitrary: s) auto

lemma runs_Push [simp]: "cs_runs (snd (PushControllerConfig key conf s)) = cs_runs s"
  by (auto simp: PushControllerConfig_def rc_ApplyConfig_def wake_def rc_AddReference_def Let_def
      runs_fold[of "ApplyReference _"] split: option.split)

lemma runs_AddConfigSetReference [simp]: "cs_runs (snd (AddConfigSetReference key s)) = cs_runs s"
  by (auto simp: AddConfigSetReference_def Let_def split: option.split)

lemma runs_Release [simp]: "cs_runs (ref_Release r s) = cs_runs s"
  by (auto simp: ref_Release_def DelReference_def wake_def Let_def split: option.split)

lemma pcOf_simps [simp]:
  "pcOf (clearState p conf err s) n = pcOf s n" "pcOf (pushState p st s) n = pcOf s n"
  "pcOf (updRC p f s) n = pcOf s n" "pcOf (s\<lparr>cs_controllers := c\<rparr>) n = pcOf s n"
  "pcOf (s\<lparr>cs_exec := x\<rparr>) n = pcOf s n" "pcOf (s\<lparr>cs_wake := b\<rparr>) n = pcOf s n"
  "pcOf (snd (PushControllerConfig key conf s)) n = pcOf s n"
  "pcOf (snd (AddConfigSetReference key s)) n = pcOf s n" "pcOf (ref_Release r s) n = pcOf s n"
  "pcOf (relInternalCallback k s) n = pcOf s n"
  by (rule pcOf_runs; simp add: relInternalCallback_def)+

lemma pcOf_other_step:
  assumes "cs_step V s s'" "\<And>ev. s' \<noteq> run_step V ev n s" "pcOf s n = Some pc"
  shows "pcOf s' n = Some pc"
  using assms(1)
proof cases
  case cs_iter
  have "pcOf (gcStep e t) n = Some pc" if "pcOf t n = Some pc" for e t
    using that by (auto simp: gcStep_def Let_def split: option.split prod.split)
  moreover have "pcOf (startStep e t) n = Some pc" if "pcOf t n = Some pc" for e t
    using that by (auto simp: startStep_def pcOf_def nth_append split: prod.split if_splits)
  ultimately show ?thesis using assms(3)
    by (simp add: cs_iter Execute_iteration_def Let_def pcOf_fold)
next
  case cs_exit
  have "pcOf (exitStep e t) n = Some pc" if "pcOf t n = Some pc" for e t
    using that by (auto simp: exitStep_def Let_def split: option.split prod.split)
  then show ?thesis using assms(3) by (simp add: cs_exit Execute_exit_def pcOf_fold)
next
  case (cs_run ev m)
  have m: "m \<noteq> n" using cs_run assms(2) by metis
  then have lv: "pcOf (run_leave m t) n = pcOf t n" for t
    by (simp add: run_leave_def Let_def)
  show ?thesis using assms(3) m
    by (auto simp: cs_run run_step_def Let_def lv split: run_pc.split run_event.split option.split)
next
  case (cs_callback r cb)
  then have "cs_runs s' = cs_runs s"
    by (auto simp: AddStateCallback_ref_def Let_def split: option.splits)
  then have "pcOf s' n = pcOf s n" by (rule pcOf_runs)
  then show ?thesis using assms(3) by simp
qed (use assms(3) in simp_all)

text \<open>
  Once the goroutine of a running controller has found its config invalid, no other config ever
  runs in it: whatever is pushed and however often it is restarted, it stays at that config, at the
  top of its loop or waiting, until its context ends. The restart re-enters the loop with the local
  variable \<^verbatim>\<open>conf\<close> that it had, which only the end of the loop's body would have read again.
\<close>

theorem invalid_config_never_replaced:
  assumes "cs_reach V s t" "pcOf s n = Some (RunInvalid conf)" "V conf \<noteq> None"
  shows "pcOf t n \<in> {Some (RunInvalid conf), Some (RunTop conf), Some RunDone}"
  using assms
proof (induction rule: cs_reach.induct)
  case cs_refl
  then show ?case by simp
next
  case (cs_next t t')
  then have t: "pcOf t n \<in> {Some (RunInvalid conf), Some (RunTop conf), Some RunDone}" by blast
  show ?case
  proof (cases "\<exists>ev. t' = run_step V ev n t")
    case True
    then obtain ev where "t' = run_step V ev n t" by blast
    then show ?thesis using t assms(3)
      by (cases ev) (auto simp: run_step_def Let_def pcOf_def[of t] split: if_splits option.split)
  next
    case False
    then show ?thesis using t pcOf_other_step[OF cs_next.hyps(2)] by fastforce
  qed
qed

text \<open>
  The goroutine of a pushed config that does not validate; a corrected config is pushed and taken
  from the channel, and still the old one is tried again.
\<close>

definition cs_invalid :: csc where
  "cs_invalid = (let V = (\<lambda>c. if sc_ptr c = 1 then Some (CErr 0 (GoErr ''bad'')) else None);
     (r1, s) = PushControllerConfig ''a'' \<lparr>sc_ptr = 1, sc_rev = 1\<rparr> NewConfigSetController;
     s = Execute_iteration s;
     s = run_step V EvBegin 0 s in
     run_step V (EvTop None) 0 s)"

definition cs_corrected :: csc where
  "cs_corrected = (let V = (\<lambda>c. if sc_ptr c = 1 then Some (CErr 0 (GoErr ''bad'')) else None);
     s = snd (PushControllerConfig ''a'' \<lparr>sc_ptr = 2, sc_rev = 2\<rparr> cs_invalid) in
     run_step V EvRestart 0 s)"

lemma invalid_config_never_replaced_witness:
  "pcOf cs_corrected 0 = Some (RunTop \<lparr>sc_ptr = 1, sc_rev = 1\<rparr>)
    \<and> rc_conf (cs_rc cs_corrected 0) = \<lparr>sc_ptr = 2, sc_rev = 2\<rparr>"
proof -
  let ?V = "\<lambda>c. if sc_ptr c = 1 then Some (CErr 0 (GoErr ''bad'')) else None :: cerr option"
  have r: "cs_reach ?V cs_invalid cs_corrected"
    unfolding cs_corrected_def Let_def by (rule cs_next[OF cs_next[OF cs_refl cs_push] cs_run])
  have i: "pcOf cs_invalid 0 = Some (RunInvalid \<lparr>sc_ptr = 1, sc_rev = 1\<rparr>)"
    and f: "rc_conf (cs_rc cs_corrected 0) = \<lparr>sc_ptr = 2, sc_rev = 2\<rparr>
      \<and> (case pcOf cs_corrected 0 of Some (RunTop _) \<Rightarrow> True | _ \<Rightarrow> False)" by code_simp+
  show ?thesis using invalid_config_never_replaced[OF r i] f by auto
qed

text \<open>
  A controller whose references are all gone may run for ever. A push that is released before
  the loop's first wake-up leaves a controller without references, which the loop, seeing that it
  does not execute, starts; no wake-up is pending then.
\<close>

theorem released_before_start_runs:
  "let (r, s) = PushControllerConfig ''a'' conf NewConfigSetController;
       t = Execute_iteration (ref_Release r s)
   in map_of (cs_controllers t) ''a'' = Some 0 \<and> rc_refs (cs_rc t 0) = []
     \<and> map_of (cs_exec t) ''a'' = Some 0 \<and> \<not> run_canceled (cs_runs t ! 0) \<and> \<not> cs_wake t"
  by (simp add: PushControllerConfig_def NewConfigSetController_def Execute_iteration_def ref_Release_def
      DelReference_def wake_def rc_AddReference_def newRunningControllerRef_def newRunningController_def
      gcStep_def startStep_def mapSet_def Let_def swapRemove_def)

text \<open>
  A reference of \<^verbatim>\<open>AddConfigSetReference\<close> that is released in the moment before its goroutine
  has deleted it is attached to a controller that is pushed then, and keeps it: after every real
  reference is released the loop finds that reference still counted.
\<close>

theorem released_persistent_reference_keeps:
  "let (q, s) = AddConfigSetReference ''a'' NewConfigSetController;
       s = ref_Release q s;
       (r, s) = PushControllerConfig ''a'' conf s;
       t = ref_Release r (Execute_iteration (relInternalCallback 0 s))
   in rr_released (cs_rr t q) \<and> rr_released (cs_rr t r) \<and> cs_dels t = []
     \<and> rc_refs (cs_rc t 1) = [q] \<and> Execute_iteration t = t \<and> map_of (cs_controllers t) ''a'' = Some 1"
  by (simp add: AddConfigSetReference_def PushControllerConfig_def NewConfigSetController_def
      Execute_iteration_def ref_Release_def relInternalCallback_def ApplyReference_def setRunningController_def
      refPushState_def DelReference_def wake_def rc_AddReference_def newRunningControllerRef_def
      newRunningController_def gcStep_def startStep_def mapSet_def Let_def swapRemove_def
      removeAt_def)

text \<open>
  The resolver of \<^verbatim>\<open>LookupConfigSet\<close> panics exactly when it has to make a reference for a key that no
  controller has: the reference it adds has no controller, and adding its callback asks a nil
  controller for its state. Keys are taken in order and the empty and the known ones are skipped.
\<close>

theorem lookup_Resolve_panics_iff:
  "lookup_Resolve ks existing x s = None
     \<longleftrightarrow> (\<exists>k \<in> set ks. k \<noteq> [] \<and> k \<notin> existing \<and> map_of (cs_controllers s) k = None)"
proof (induction ks arbitrary: x s)
  case Nil
  then show ?case by simp
next
  case (Cons k ks)
  have c: "cs_controllers (snd (AddConfigSetReference k s)) = cs_controllers s"
    by (auto simp: AddConfigSetReference_def Let_def split: option.split)
  show ?case
  proof (cases "map_of (cs_controllers s) k")
    case None
    then have "AddStateCallback_ref r r (snd (AddConfigSetReference k s)) = None"
      if "r = fst (AddConfigSetReference k s)" for r
      using that by (simp add: AddStateCallback_ref_def AddConfigSetReference_def newRunningControllerRef_def Let_def)
    then show ?thesis using None Cons.IH by (auto simp: Let_def case_prod_beta)
  next
    case (Some p)
    let ?r = "fst (AddConfigSetReference k s)" and ?t = "snd (AddConfigSetReference k s)"
    have "rr_rc (cs_rr ?t ?r) = Some p"
      using Some by (simp add: AddConfigSetReference_def Let_def)
    then obtain u where u: "AddStateCallback_ref ?r ?r ?t = Some u" "cs_controllers u = cs_controllers s"
      using c by (auto simp: AddStateCallback_ref_def Let_def)
    then show ?thesis using Some Cons.IH[of _ u] Cons.IH[of x s]
      by (auto simp: Let_def case_prod_beta)
  qed
qed

end
