(* ===== verification/Bus_Events.thy ===== *)
theory Bus_Events
  imports Cb_Prelude "HOL-Library.AList"
begin

text \<open>
  What a directive instance tells the holder of a reference, and the handlers it tells it to
  (\<^verbatim>\<open>directive.ReferenceHandler\<close>, \<^verbatim>\<open>CallbackHandler\<close>, \<^verbatim>\<open>TypedCallbackHandler\<close>, \<^verbatim>\<open>LogHandler\<close>). The calls
  come one at a time: a stream of events. The locale \<open>ref_client\<close> is the contract of a handler that
  keeps an invariant between the values that are present and its own state; the bus helpers that
  watch and collect values interpret it.
\<close>

section \<open>Streams of events\<close>

datatype 'v ref_event = Added u32 'v | Removed u32 'v | Disposed

text \<open>The values present: added and not yet removed.\<close>

definition dropId :: "u32 \<Rightarrow> (u32 \<times> 'v) list \<Rightarrow> (u32 \<times> 'v) list" where
  "dropId i cur = filter (\<lambda>(j, _). j \<noteq> i) cur"

fun present_from :: "(u32 \<times> 'v) list \<Rightarrow> 'v ref_event list \<Rightarrow> (u32 \<times> 'v) list" where
  "present_from cur [] = cur"
| "present_from cur (Added i v # es) = present_from (cur @ [(i, v)]) es"
| "present_from cur (Removed i v # es) = present_from (dropId i cur) es"
| "present_from cur (Disposed # es) = present_from cur es"

text \<open>
  What a directive instance promises: identifiers are not zero and are not given to two values that
  are present together, what is removed is present, and nothing follows the disposal.
\<close>

fun stream_from :: "(u32 \<times> 'v) list \<Rightarrow> 'v ref_event list \<Rightarrow> bool" where
  "stream_from cur [] \<longleftrightarrow> True"
| "stream_from cur (Added i v # es) \<longleftrightarrow> i \<noteq> 0 \<and> i \<notin> fst ` set cur \<and> stream_from (cur @ [(i, v)]) es"
| "stream_from cur (Removed i v # es) \<longleftrightarrow> (i, v) \<in> set cur \<and> stream_from (dropId i cur) es"
| "stream_from cur (Disposed # es) \<longleftrightarrow> es = []"

abbreviation present :: "'v ref_event list \<Rightarrow> (u32 \<times> 'v) list" where
  "present es \<equiv> present_from [] es"

abbreviation stream :: "'v ref_event list \<Rightarrow> bool" where
  "stream es \<equiv> stream_from [] es"

definition disposed_in :: "'v ref_event list \<Rightarrow> bool" where
  "disposed_in es \<longleftrightarrow> Disposed \<in> set es"

text \<open>The values of one type; \<open>cast\<close> is the type assertion.\<close>

definition typed :: "('v \<Rightarrow> 't option) \<Rightarrow> (u32 \<times> 'v) list \<Rightarrow> (u32 \<times> 't) list" where
  "typed cast cur = List.map_filter (\<lambda>(i, v). map_option (Pair i) (cast v)) cur"

lemma set_dropId [simp]: "set (dropId i cur) = {e \<in> set cur. fst e \<noteq> i}"
  by (auto simp: dropId_def)

lemma distinct_dropId [simp]: "distinct (map fst cur) \<Longrightarrow> distinct (map fst (dropId i cur))"
  by (simp add: dropId_def distinct_map_filter)

lemma dropId_Nil [simp]: "dropId i [] = []"
  by (simp add: dropId_def)

lemma dropId_append [simp]: "dropId i (a @ b) = dropId i a @ dropId i b"
  by (simp add: dropId_def)

lemma dropId_absent: "i \<notin> fst ` set cur \<Longrightarrow> dropId i cur = cur"
  by (force simp: dropId_def filter_id_conv)

lemma mset_dropId: "mset (dropId i cur) = filter_mset (\<lambda>e. fst e \<noteq> i) (mset cur)"
  by (simp add: dropId_def case_prod_beta)

lemma delete_dropId: "AList.delete i cur = dropId i cur"
  by (induction cur) (auto simp: dropId_def)

lemma map_of_dropId [simp]: "map_of (dropId i m) j = (if j = i then None else map_of m j)"
  by (induction m) (auto simp: dropId_def)

lemma update_fresh: "i \<notin> fst ` set m \<Longrightarrow> AList.update i v m = m @ [(i, v)]"
  by (induction m) auto

lemma typed_Nil [simp]: "typed cast [] = []"
  by (simp add: typed_def map_filter_simps)

lemma typed_snoc [simp]:
  "typed cast (cur @ [(i, v)]) = typed cast cur @ (case cast v of None \<Rightarrow> [] | Some t \<Rightarrow> [(i, t)])"
  by (simp add: typed_def List.map_filter_def split: option.split)

lemma set_typed [simp]: "set (typed cast cur) = {(i, t). \<exists>v. (i, v) \<in> set cur \<and> cast v = Some t}"
  by (force simp: typed_def map_filter_def)

lemma typed_dropId [simp]: "typed cast (dropId i cur) = dropId i (typed cast cur)"
  by (induction cur) (auto simp: typed_def dropId_def map_filter_simps split: option.split)

lemma distinct_typed [simp]: "distinct (map fst cur) \<Longrightarrow> distinct (map fst (typed cast cur))"
proof (induction cur)
  case (Cons e cur)
  have "fst ` set (typed cast cur) \<subseteq> fst ` set cur" by force
  with Cons show ?case by (cases e; cases "cast (snd e)") (auto simp: typed_def map_filter_simps)
qed simp

lemma key_unique: "distinct (map fst xs) \<Longrightarrow> e \<in> set xs \<Longrightarrow> e' \<in> set xs \<Longrightarrow> fst e' = fst e \<Longrightarrow> e' = e"
  by (metis distinct_map inj_onD)

lemma typed_other:
  assumes "distinct (map fst cur)" "(i, v) \<in> set cur" "cast v = None"
  shows "i \<notin> fst ` set (typed cast cur)"
proof
  assume "i \<in> fst ` set (typed cast cur)"
  then obtain t w where "(i, w) \<in> set cur" "cast w = Some t" by auto
  then show False using eq_key_imp_eq_value[OF assms(1), of i v w] assms(2,3) by simp
qed

text \<open>Removing the one entry of a key from a multiset of entries.\<close>

lemma mset_remove_key:
  assumes "distinct (map fst xs)" "e \<in> set xs"
  shows "filter_mset (\<lambda>e'. fst e' \<noteq> fst e) (mset xs) = mset xs - {# e #}"
proof -
  have "filter (\<lambda>e'. fst e' \<noteq> fst e) xs = filter (\<lambda>e'. e \<noteq> e') xs"
    by (rule filter_cong) (auto dest: key_unique[OF assms])
  also have "\<dots> = remove1 e xs"
    using assms(1) by (simp add: distinct_remove1_removeAll removeAll_filter_not_eq distinct_map)
  finally show ?thesis by (metis mset_filter mset_remove1)
qed

section \<open>Handlers\<close>

text \<open>
  \<^verbatim>\<open>directive.ReferenceHandler\<close> as its three methods on a state that holds whatever they write.
\<close>

record ('v, 's) ref_handler =
  HandleValueAdded :: "u32 \<Rightarrow> 'v \<Rightarrow> 's \<Rightarrow> 's"
  HandleValueRemoved :: "u32 \<Rightarrow> 'v \<Rightarrow> 's \<Rightarrow> 's"
  HandleInstanceDisposed :: "'s \<Rightarrow> 's"

fun deliver :: "('v, 's) ref_handler \<Rightarrow> 'v ref_event \<Rightarrow> 's \<Rightarrow> 's" where
  "deliver h (Added i v) s = HandleValueAdded h i v s"
| "deliver h (Removed i v) s = HandleValueRemoved h i v s"
| "deliver h Disposed s = HandleInstanceDisposed h s"

definition deliverAll :: "('v, 's) ref_handler \<Rightarrow> 'v ref_event list \<Rightarrow> 's \<Rightarrow> 's" where
  "deliverAll h es s = fold (deliver h) es s"

text \<open>\<^verbatim>\<open>directive.CallbackHandler\<close>; a nil callback is \<^term>\<open>None\<close>.\<close>

definition NewCallbackHandler ::
    "(u32 \<Rightarrow> 'v \<Rightarrow> 's \<Rightarrow> 's) option \<Rightarrow> (u32 \<Rightarrow> 'v \<Rightarrow> 's \<Rightarrow> 's) option \<Rightarrow> ('s \<Rightarrow> 's) option
      \<Rightarrow> ('v, 's) ref_handler" where
  "NewCallbackHandler valCb removedCb disposeCb = \<lparr>
     HandleValueAdded = (\<lambda>i v s. case valCb of None \<Rightarrow> s | Some cb \<Rightarrow> cb i v s),
     HandleValueRemoved = (\<lambda>i v s. case removedCb of None \<Rightarrow> s | Some cb \<Rightarrow> cb i v s),
     HandleInstanceDisposed = (\<lambda>s. case disposeCb of None \<Rightarrow> s | Some cb \<Rightarrow> cb s)\<rparr>"

text \<open>\<^verbatim>\<open>directive.TypedCallbackHandler\<close>: other types go to \<^verbatim>\<open>unknownTypeHandler\<close>.\<close>

definition NewTypedCallbackHandler ::
    "('v \<Rightarrow> 't option) \<Rightarrow> (u32 \<Rightarrow> 't \<Rightarrow> 's \<Rightarrow> 's) option \<Rightarrow> (u32 \<Rightarrow> 't \<Rightarrow> 's \<Rightarrow> 's) option
      \<Rightarrow> ('s \<Rightarrow> 's) option \<Rightarrow> ('v, 's) ref_handler option \<Rightarrow> ('v, 's) ref_handler" where
  "NewTypedCallbackHandler cast valCb removedCb disposeCb unknown = \<lparr>
     HandleValueAdded = (\<lambda>i v s. case cast v of
         Some t \<Rightarrow> (case valCb of None \<Rightarrow> s | Some cb \<Rightarrow> cb i t s)
       | None \<Rightarrow> (case unknown of None \<Rightarrow> s | Some u \<Rightarrow> HandleValueAdded u i v s)),
     HandleValueRemoved = (\<lambda>i v s. case cast v of
         Some t \<Rightarrow> (case removedCb of None \<Rightarrow> s | Some cb \<Rightarrow> cb i t s)
       | None \<Rightarrow> (case unknown of None \<Rightarrow> s | Some u \<Rightarrow> HandleValueRemoved u i v s)),
     HandleInstanceDisposed = (\<lambda>s. let s = (case disposeCb of None \<Rightarrow> s | Some cb \<Rightarrow> cb s) in
       case unknown of None \<Rightarrow> s | Some u \<Rightarrow> HandleInstanceDisposed u s)\<rparr>"

text \<open>\<^verbatim>\<open>directive.LogHandler\<close>: the lines it logs are not state; the base handler may be nil.\<close>

definition NewLogHandler :: "('v, 's) ref_handler option \<Rightarrow> ('v, 's) ref_handler" where
  "NewLogHandler base = \<lparr>
     HandleValueAdded = (\<lambda>i v s. case base of None \<Rightarrow> s | Some h \<Rightarrow> HandleValueAdded h i v s),
     HandleValueRemoved = (\<lambda>i v s. case base of None \<Rightarrow> s | Some h \<Rightarrow> HandleValueRemoved h i v s),
     HandleInstanceDisposed = (\<lambda>s. case base of None \<Rightarrow> s | Some h \<Rightarrow> HandleInstanceDisposed h s)\<rparr>"

lemma deliverAll_simps [simp]:
  "deliverAll h [] s = s" "deliverAll h (e # es) s = deliverAll h es (deliver h e s)"
  by (simp_all add: deliverAll_def)

text \<open>The loop \<^verbatim>\<open>for _, err := range errs { if err != nil { ... } }\<close> that takes the first error.\<close>

fun firstErr :: "goerr option list \<Rightarrow> goerr option" where
  "firstErr [] = None"
| "firstErr (None # errs) = firstErr errs"
| "firstErr (Some e # errs) = Some e"

section \<open>The contract of a handler\<close>

text \<open>
  A handler with its start state that keeps \<open>Inv\<close> between the values present and its state as long as
  the directive lives, and leaves \<open>Fin\<close> when the directive is disposed.
\<close>

locale ref_client =
  fixes h :: "('v, 's) ref_handler" and init :: 's
    and Inv :: "(u32 \<times> 'v) list \<Rightarrow> 's \<Rightarrow> bool" and Fin :: "(u32 \<times> 'v) list \<Rightarrow> 's \<Rightarrow> bool"
  assumes init: "Inv [] init"
    and added: "distinct (map fst cur) \<Longrightarrow> 0 \<notin> fst ` set cur \<Longrightarrow> Inv cur s \<Longrightarrow> i \<noteq> 0 \<Longrightarrow> i \<notin> fst ` set cur
      \<Longrightarrow> Inv (cur @ [(i, v)]) (HandleValueAdded h i v s)"
    and removed: "distinct (map fst cur) \<Longrightarrow> 0 \<notin> fst ` set cur \<Longrightarrow> Inv cur s \<Longrightarrow> (i, v) \<in> set cur
      \<Longrightarrow> Inv (dropId i cur) (HandleValueRemoved h i v s)"
    and disposed: "distinct (map fst cur) \<Longrightarrow> 0 \<notin> fst ` set cur \<Longrightarrow> Inv cur s
      \<Longrightarrow> Fin cur (HandleInstanceDisposed h s)"
begin

lemma deliverAll_from:
  assumes "distinct (map fst cur)" "0 \<notin> fst ` set cur" "Inv cur s" "stream_from cur es"
  shows "if disposed_in es then Fin (present_from cur es) (deliverAll h es s)
    else Inv (present_from cur es) (deliverAll h es s)"
  using assms
proof (induction cur es arbitrary: s rule: stream_from.induct)
  case (2 cur i v es)
  then show ?case using 2(1)[of "HandleValueAdded h i v s"] added[of cur s i v]
    by (simp add: disposed_in_def)
next
  case (3 cur i v es)
  have "0 \<notin> fst ` set (dropId i cur)" using 3(3) by auto
  with 3 show ?case using 3(1)[of "HandleValueRemoved h i v s"] removed[of cur s i v]
    by (simp add: disposed_in_def)
qed (auto simp: disposed_in_def disposed)

theorem deliverAll_Inv:
  "stream es \<Longrightarrow> \<not> disposed_in es \<Longrightarrow> Inv (present es) (deliverAll h es init)"
  using deliverAll_from[of "[]" init es] init by simp

theorem deliverAll_Fin:
  "stream es \<Longrightarrow> disposed_in es \<Longrightarrow> Fin (present es) (deliverAll h es init)"
  using deliverAll_from[of "[]" init es] init by simp

end

text \<open>Other steps between the events, which keep the invariant.\<close>

context ref_client
begin

lemma mixed_from:
  assumes "distinct (map fst cur)" "0 \<notin> fst ` set cur" "Inv cur s"
    "stream_from cur (List.map_filter ev es)" "\<not> disposed_in (List.map_filter ev es)"
    "\<And>e s. step e s = (case ev e of Some r \<Rightarrow> deliver h r s | None \<Rightarrow> other e s)"
    "\<And>cur e s. Inv cur s \<Longrightarrow> Inv cur (other e s)"
  shows "Inv (present_from cur (List.map_filter ev es)) (fold step es s)"
  using assms(1-5)
proof (induction es arbitrary: cur s)
  case Nil
  then show ?case by (simp add: map_filter_simps)
next
  case (Cons e es)
  show ?case
  proof (cases "ev e")
    case None
    then have "step e s = other e s" using assms(6)[of e s] by simp
    then show ?thesis using Cons None assms(7) by (simp add: map_filter_simps)
  next
    case (Some r)
    then have st: "step e s = deliver h r s" using assms(6)[of e s] by simp
    show ?thesis
    proof (cases r)
      case (Added i v)
      then show ?thesis
        using Some st Cons.prems Cons.IH[of "cur @ [(i, v)]" "step e s"] added[OF Cons.prems(1-3), of i v]
        by (simp add: map_filter_simps disposed_in_def)
    next
      case (Removed i v)
      have "0 \<notin> fst ` set (dropId i cur)" using Cons.prems(2) by auto
      then show ?thesis
        using Some Removed st Cons.prems Cons.IH[of "dropId i cur" "step e s"]
          removed[OF Cons.prems(1-3), of i v]
        by (simp add: map_filter_simps disposed_in_def)
    next
      case Disposed
      then show ?thesis using Some Cons.prems(5) by (simp add: map_filter_simps disposed_in_def)
    qed
  qed
qed

end

text \<open>A log handler in front of a client is a client with the same invariant.\<close>

lemma ref_client_log:
  "ref_client h init Inv Fin \<Longrightarrow> ref_client (NewLogHandler (Some h)) init Inv Fin"
  by (simp add: ref_client_def NewLogHandler_def)

end
