(* ===== verification/BusWatch.thy ===== *)
theory BusWatch
  imports Bus_Events
begin

text \<open>
  The helpers of \<^verbatim>\<open>bus/watch.go\<close> that add a directive and watch its values: one selected value told to
  a callback, to a channel, or to an effect with a release function; a value selected by the caller;
  an effect per value. Each is a handler of the events of a reference (\<^theory_text>\<open>Bus_Events\<close>) over a record of
  the variables its closures share. Go iterates over a map in no fixed order: where the code takes
  the first entry of such an iteration the order is a parameter \<open>ord\<close>.
\<close>

section \<open>Watching one value: \<^verbatim>\<open>ExecOneOffWatchCb\<close>\<close>

text \<open>
  \<^verbatim>\<open>currValueID\<close>, \<^verbatim>\<open>vals\<close>, what the callback writes (\<open>w_env\<close>), and a log of its calls with what it
  returned. The callback may be nil; \<^term>\<open>None\<close> as its argument stands for nil.
\<close>

record ('t, 'c) watch =
  w_curr :: u32
  w_vals :: "(u32 \<times> 't) list"
  w_env :: 'c
  w_calls :: "((u32 \<times> 't) option \<times> bool) list"

type_synonym ('t, 'c) watch_cb = "(u32 \<times> 't) option \<Rightarrow> 'c \<Rightarrow> bool \<times> 'c"

definition watch_init :: "'c \<Rightarrow> ('t, 'c) watch" where
  "watch_init c = \<lparr>w_curr = 0, w_vals = [], w_env = c, w_calls = []\<rparr>"

definition callCb :: "('t, 'c) watch_cb \<Rightarrow> (u32 \<times> 't) option \<Rightarrow> ('t, 'c) watch \<Rightarrow> bool \<times> ('t, 'c) watch" where
  "callCb cb v s = (let (ok, c) = cb v (w_env s) in (ok, s\<lparr>w_env := c, w_calls := w_calls s @ [(v, ok)]\<rparr>))"

definition watchAdded :: "('t, 'c) watch_cb option \<Rightarrow> u32 \<Rightarrow> 't \<Rightarrow> ('t, 'c) watch \<Rightarrow> ('t, 'c) watch" where
  "watchAdded cb vid val s =
     (let s = s\<lparr>w_vals := AList.update vid val (w_vals s)\<rparr> in
      if w_curr s \<noteq> 0 then s
      else let s = s\<lparr>w_curr := vid\<rparr> in
        case cb of None \<Rightarrow> s
        | Some f \<Rightarrow> (let (ok, s) = callCb f (Some (vid, val)) s in
            if ok then s else s\<lparr>w_vals := AList.delete vid (w_vals s), w_curr := 0\<rparr>))"

text \<open>The loop that looks for the next value after the current one was removed.\<close>

fun tryNext :: "('t, 'c) watch_cb option \<Rightarrow> (u32 \<times> 't) list \<Rightarrow> ('t, 'c) watch \<Rightarrow> ('t, 'c) watch" where
  "tryNext cb [] s = s"
| "tryNext cb ((i, v) # rest) s =
     (let s = s\<lparr>w_curr := i\<rparr> in
      case cb of None \<Rightarrow> s
      | Some f \<Rightarrow> (let (ok, s) = callCb f (Some (i, v)) s in
          if ok then s
          else tryNext cb rest (s\<lparr>w_curr := 0, w_vals := AList.delete i (w_vals s)\<rparr>)))"

definition watchRemoved ::
    "('t, 'c) watch_cb option \<Rightarrow> ((u32 \<times> 't) list \<Rightarrow> (u32 \<times> 't) list) \<Rightarrow> u32 \<Rightarrow> ('t, 'c) watch \<Rightarrow> ('t, 'c) watch" where
  "watchRemoved cb ord vid s =
     (let s = s\<lparr>w_vals := AList.delete vid (w_vals s)\<rparr> in
      if w_curr s \<noteq> vid then s
      else let s = tryNext cb (ord (w_vals s)) (s\<lparr>w_curr := 0\<rparr>) in
        case cb of None \<Rightarrow> s
        | Some f \<Rightarrow> if w_curr s = 0 then snd (callCb f None s) else s)"

definition watchDisposed :: "('t, 'c) watch_cb option \<Rightarrow> ('t, 'c) watch \<Rightarrow> ('t, 'c) watch" where
  "watchDisposed cb s =
     (if w_curr s = 0 then s
      else let s = s\<lparr>w_curr := 0\<rparr> in
        case cb of None \<Rightarrow> s | Some f \<Rightarrow> snd (callCb f None s))"

definition ExecOneOffWatchCb ::
    "('v \<Rightarrow> 't option) \<Rightarrow> ('t, 'c) watch_cb option \<Rightarrow> ((u32 \<times> 't) list \<Rightarrow> (u32 \<times> 't) list)
      \<Rightarrow> ('v, ('t, 'c) watch) ref_handler" where
  "ExecOneOffWatchCb cast cb ord = NewCallbackHandler
     (Some (\<lambda>i v s. case cast v of None \<Rightarrow> s | Some t \<Rightarrow> watchAdded cb i t s))
     (Some (\<lambda>i v s. case cast v of None \<Rightarrow> s | Some t \<Rightarrow> watchRemoved cb ord i s))
     (Some (watchDisposed cb))"

text \<open>
  What the receiver of the calls knows to be selected: the last value it accepted, unless it was told
  nil since.
\<close>

definition shown :: "((u32 \<times> 't) option \<times> bool) list \<Rightarrow> (u32 \<times> 't) option" where
  "shown calls = fold (\<lambda>(v, ok) acc. if ok \<or> v = None then v else acc) calls None"

definition selected :: "('t, 'c) watch \<Rightarrow> (u32 \<times> 't) option" where
  "selected s = (if w_curr s = 0 then None else map_option (Pair (w_curr s)) (map_of (w_vals s) (w_curr s)))"

lemma shown_snoc [simp]:
  "shown (calls @ [(v, ok)]) = (if ok \<or> v = None then v else shown calls)"
  by (simp add: shown_def)

lemma shown_Nil [simp]: "shown [] = None"
  by (simp add: shown_def)

lemma shown_single [simp]: "shown [(v, ok)] = (if ok then v else None)"
  by (simp add: shown_def)

text \<open>The invariant between the values of the type \<open>T\<close> that are present and the variables.\<close>

definition watchInv :: "(u32 \<times> 't) list \<Rightarrow> ('t, 'c) watch \<Rightarrow> bool" where
  "watchInv ts s \<longleftrightarrow> distinct (map fst (w_vals s)) \<and> set (w_vals s) \<subseteq> set ts
     \<and> (\<forall>e \<in> set ts. e \<in> set (w_vals s) \<or> (Some e, False) \<in> set (w_calls s))
     \<and> (w_curr s = 0 \<longrightarrow> w_vals s = []) \<and> (w_curr s \<noteq> 0 \<longrightarrow> w_curr s \<in> fst ` set (w_vals s))"

text \<open>With a callback, what it was told is what is selected.\<close>

definition toldInv :: "('t, 'c) watch_cb option \<Rightarrow> ('t, 'c) watch \<Rightarrow> bool" where
  "toldInv cb s \<longleftrightarrow> (cb \<noteq> None \<longrightarrow> shown (w_calls s) = selected s) \<and> (cb = None \<longrightarrow> w_calls s = [])"

lemma watchAdded_inv:
  assumes inv: "watchInv ts s" "toldInv cb s" and new: "i \<noteq> 0" "i \<notin> fst ` set ts"
  shows "watchInv (ts @ [(i, t)]) (watchAdded cb i t s) \<and> toldInv cb (watchAdded cb i t s)"
proof -
  have i: "i \<notin> fst ` set (w_vals s)" using inv(1) new(2) by (auto simp: watchInv_def)
  then have upd: "AList.update i t (w_vals s) = w_vals s @ [(i, t)]" "map_of (w_vals s) i = None"
    by (simp_all add: update_fresh map_of_eq_None_iff)
  show ?thesis
  proof (cases "w_curr s = 0")
    case False
    then show ?thesis using inv i new
      by (auto simp: watchAdded_def upd watchInv_def toldInv_def selected_def map_add_def split: option.splits)
  next
    case True
    then have "w_vals s = []" using inv(1) by (simp add: watchInv_def)
    then show ?thesis using inv True new
      by (auto simp: watchAdded_def callCb_def watchInv_def toldInv_def selected_def Let_def split: option.splits prod.splits)
  qed
qed

text \<open>
  The loop takes the first value, in the order of the iteration, that the callback does not reject,
  and drops the ones it rejects.
\<close>

definition loopInv :: "('t, 'c) watch_cb option \<Rightarrow> (u32 \<times> 't) list \<Rightarrow> (u32 \<times> 't) list \<Rightarrow> ('t, 'c) watch \<Rightarrow> bool" where
  "loopInv cb ts xs s \<longleftrightarrow> distinct (map fst xs) \<and> distinct (map fst (w_vals s)) \<and> set (w_vals s) = set xs
     \<and> 0 \<notin> fst ` set xs \<and> w_curr s = 0 \<and> set xs \<subseteq> set ts
     \<and> (\<forall>e \<in> set ts. e \<in> set xs \<or> (Some e, False) \<in> set (w_calls s)) \<and> (cb = None \<longrightarrow> w_calls s = [])"

lemma loopInv_step:
  assumes "loopInv (Some f) ts ((i, v) # rest) s"
  shows "loopInv (Some f) ts rest (s\<lparr>w_env := c, w_calls := w_calls s @ [(Some (i, v), False)],
    w_curr := 0, w_vals := AList.delete i (w_vals s)\<rparr>)"
proof -
  have i: "i \<notin> fst ` set rest" "set (w_vals s) = insert (i, v) (set rest)"
    using assms by (auto simp: loopInv_def)
  then have "set (dropId i (w_vals s)) = set rest" by auto
  then show ?thesis using assms by (auto simp: loopInv_def delete_dropId simp del: set_dropId)
qed

lemma loopInv_stop:
  assumes "loopInv cb ts ((i, v) # rest) s" "calls = w_calls s \<or> calls = w_calls s @ [(Some (i, v), True)]"
  shows "watchInv ts (s\<lparr>w_curr := i, w_env := c, w_calls := calls\<rparr>)"
    and "selected (s\<lparr>w_curr := i, w_env := c, w_calls := calls\<rparr>) = Some (i, v)"
proof -
  have "(i, v) \<in> set (w_vals s)" "i \<noteq> 0" using assms(1) by (auto simp: loopInv_def)
  moreover have "distinct (map fst (w_vals s))" using assms(1) by (simp add: loopInv_def)
  ultimately show "watchInv ts (s\<lparr>w_curr := i, w_env := c, w_calls := calls\<rparr>)"
    "selected (s\<lparr>w_curr := i, w_env := c, w_calls := calls\<rparr>) = Some (i, v)"
    using assms by (auto simp: loopInv_def watchInv_def selected_def intro: rev_image_eqI)
qed

lemma tryNext_inv:
  assumes "loopInv cb ts xs s"
  shows "watchInv ts (tryNext cb xs s) \<and> (cb = None \<longrightarrow> w_calls (tryNext cb xs s) = [])
    \<and> (w_curr (tryNext cb xs s) \<noteq> 0 \<longrightarrow> toldInv cb (tryNext cb xs s))"
  using assms
proof (induction cb xs s rule: tryNext.induct)
  case (1 cb s)
  then show ?case by (auto simp: loopInv_def watchInv_def)
next
  case (2 cb i v rest s)
  show ?case
  proof (cases cb)
    case None
    have eq: "s\<lparr>w_curr := i, w_env := w_env s, w_calls := w_calls s\<rparr> = s\<lparr>w_curr := i\<rparr>" by simp
    have "w_calls s = []" using 2(2) None by (simp add: loopInv_def)
    then show ?thesis using None loopInv_stop[OF 2(2) disjI1[OF refl], of "w_env s", unfolded eq]
      by (simp add: toldInv_def)
  next
    case (Some f)
    obtain ok c where f: "f (Some (i, v)) (w_env s) = (ok, c)" by fastforce
    show ?thesis
    proof (cases ok)
      case True
      then show ?thesis
        using Some f loopInv_stop[OF 2(2), of "w_calls s @ [(Some (i, v), True)]" c]
        by (simp add: callCb_def toldInv_def Let_def)
    next
      case False
      then show ?thesis
        using 2(1)[OF refl Some _ refl, of False] loopInv_step[of f ts i v rest s c] 2(2) Some f
        by (simp add: callCb_def Let_def)
    qed
  qed
qed

lemma watchInv_calls: "watchInv us t \<Longrightarrow> watchInv us (t\<lparr>w_env := c, w_calls := w_calls t @ x\<rparr>)"
  by (auto simp: watchInv_def)

lemma watchRemoved_inv:
  assumes inv: "watchInv ts s" "toldInv cb s" and d: "distinct (map fst ts)" "0 \<notin> fst ` set ts"
    and ord: "\<And>xs. mset (ord xs) = mset xs"
  shows "watchInv (dropId i ts) (watchRemoved cb ord i s) \<and> toldInv cb (watchRemoved cb ord i s)"
proof -
  let ?ws = "dropId i (w_vals s)"
  let ?u = "s\<lparr>w_vals := ?ws, w_curr := 0\<rparr>"
  show ?thesis
  proof (cases "w_curr s = i")
    case False
    then show ?thesis using inv
      by (auto simp: watchRemoved_def delete_dropId watchInv_def toldInv_def selected_def
          split: option.splits)
  next
    case True
    have m: "set (ord ?ws) = set ?ws" "distinct (map fst (ord ?ws))"
      using ord[of ?ws] inv(1) mset_eq_setD[OF ord] mset_map mset_eq_imp_distinct_iff
      by (blast, metis distinct_dropId watchInv_def)
    have "loopInv cb (dropId i ts) (ord ?ws) ?u"
      using inv d(2) m by (auto simp: loopInv_def watchInv_def toldInv_def)
    note lp = tryNext_inv[OF this]
    define t where "t = tryNext cb (ord ?ws) ?u"
    have r: "watchRemoved cb ord i s = (case cb of None \<Rightarrow> t
        | Some f \<Rightarrow> if w_curr t = 0 then snd (callCb f None t) else t)"
      using True by (simp add: watchRemoved_def delete_dropId t_def Let_def split: option.split)
    show ?thesis using lp unfolding r t_def[symmetric]
      by (cases cb; cases "w_curr t = 0")
        (auto simp: callCb_def toldInv_def watchInv_calls selected_def Let_def split: prod.split)
  qed
qed

text \<open>An order of iteration is a permutation.\<close>

definition map_order :: "('a list \<Rightarrow> 'a list) \<Rightarrow> bool" where
  "map_order ord \<longleftrightarrow> (\<forall>xs. mset (ord xs) = mset xs)"

interpretation watch: ref_client "ExecOneOffWatchCb cast cb ord" "watch_init c"
  "\<lambda>cur s. map_order ord \<longrightarrow> watchInv (typed cast cur) s \<and> toldInv cb s"
  "\<lambda>cur s. map_order ord \<longrightarrow> w_curr s = 0 \<and> (cb \<noteq> None \<longrightarrow> shown (w_calls s) = None)"
  for cast :: "'v \<Rightarrow> 't option" and cb :: "('t, 'c) watch_cb option" and ord c
proof (unfold_locales, goal_cases)
  case 1
  show ?case by (simp add: watchInv_def toldInv_def watch_init_def selected_def)
next
  case (2 cur s i v)
  have "i \<notin> fst ` set (typed cast cur)" using 2(5) by force
  with 2 show ?case
    by (auto simp: ExecOneOffWatchCb_def NewCallbackHandler_def watchAdded_inv split: option.split)
next
  case (3 cur s i v)
  have "0 \<notin> fst ` set (typed cast cur)" using 3(2) by force
  moreover have "dropId i (typed cast cur) = typed cast cur" if "cast v = None"
    using typed_other[of cur i v cast] 3 that by (simp add: dropId_absent)
  ultimately show ?case using 3
    by (auto simp: ExecOneOffWatchCb_def NewCallbackHandler_def watchRemoved_inv map_order_def
        split: option.split)
next
  case (4 cur s)
  then show ?case
    by (auto simp: ExecOneOffWatchCb_def NewCallbackHandler_def watchDisposed_def toldInv_def callCb_def
        selected_def Let_def split: option.split prod.split)
qed

text \<open>
  Watching one value keeps the callback informed. For every stream of events of a reference,
  every callback and every order in which the map is iterated: while the directive lives, what the
  callback was last told, leaving out the values it rejected, is the value that is selected; that
  value is present and of the asked type; and when none is selected, every present value of that type
  has been offered and rejected. After the disposal the last thing it was told is nil.
\<close>

theorem ExecOneOffWatchCb_told:
  fixes cast :: "'v \<Rightarrow> 't option"
  assumes "stream es" "map_order ord"
    and s_def: "s = deliverAll (ExecOneOffWatchCb cast (Some f) ord) es (watch_init c)"
  shows "if disposed_in es then shown (w_calls s) = None
    else shown (w_calls s) = selected s
      \<and> (case selected s of
           Some (i, t) \<Rightarrow> (\<exists>v. (i, v) \<in> set (present es) \<and> cast v = Some t)
         | None \<Rightarrow> (\<forall>i v t. (i, v) \<in> set (present es) \<longrightarrow> cast v = Some t
             \<longrightarrow> (Some (i, t), False) \<in> set (w_calls s)))"
proof (cases "disposed_in es")
  case True
  then show ?thesis using watch.deliverAll_Fin[OF assms(1), of ord cast "Some f" c] assms(2)
    by (simp add: s_def)
next
  case False
  have inv: "watchInv (typed cast (present es)) s" "toldInv (Some f) s"
    using watch.deliverAll_Inv[OF assms(1) False, of ord cast "Some f" c] assms(2) by (simp_all add: s_def)
  show ?thesis
  proof (cases "w_curr s = 0")
    case True
    then have "selected s = None" "w_vals s = []" using inv(1) by (auto simp: selected_def watchInv_def)
    then show ?thesis using False inv by (fastforce simp: watchInv_def toldInv_def)
  next
    case c: False
    then obtain t where t: "map_of (w_vals s) (w_curr s) = Some t" "(w_curr s, t) \<in> set (w_vals s)"
      using inv(1) by (fastforce simp: watchInv_def)
    then have "(w_curr s, t) \<in> set (typed cast (present es))" using inv(1) by (auto simp: watchInv_def)
    then show ?thesis using False inv(2) c t(1) by (auto simp: selected_def toldInv_def)
  qed
qed

text \<open>Two values, the first rejected, a third, and the removal of the selected one.\<close>

lemma ExecOneOffWatchCb_told_witness:
  "(let es = [Added 1 (10::nat), Added 2 20, Added 3 30, Removed 2 20];
        cb = (\<lambda>v c. (v \<noteq> Some (1, 10), c + 1));
        s = deliverAll (ExecOneOffWatchCb Some (Some cb) rev) es (watch_init (0::nat)) in
    shown (w_calls s) = selected s \<and> selected s = Some (3, 30))"
proof -
  let ?es = "[Added 1 (10::nat), Added 2 20, Added 3 30, Removed 2 20]"
  let ?s = "deliverAll (ExecOneOffWatchCb Some (Some (\<lambda>v c. (v \<noteq> Some (1, 10), c + 1))) rev) ?es (watch_init (0::nat))"
  have st: "stream ?es" "\<not> disposed_in ?es" by (simp_all add: dropId_def disposed_in_def)
  have ord: "map_order rev" by (simp add: map_order_def)
  have "selected ?s = Some (3, 30)" by code_simp
  with ExecOneOffWatchCb_told[OF st(1) ord refl, of Some "\<lambda>v c. (v \<noteq> Some (1, 10), c + 1)" "0::nat"] st(2)
  show ?thesis by (simp add: Let_def)
qed

section \<open>Callbacks built on it\<close>

text \<open>
  What every call of the callback keeps, the handler keeps; \<open>Q\<close> relates what the callback writes with
  the log of its calls.
\<close>

lemma handler_keeps:
  assumes keep: "\<And>v c calls. Q c calls \<Longrightarrow> Q (snd (f v c)) (calls @ [(v, fst (f v c))])"
    and q: "Q (w_env s) (w_calls s)"
  shows "Q (w_env (deliver (ExecOneOffWatchCb cast (Some f) ord) e s))
    (w_calls (deliver (ExecOneOffWatchCb cast (Some f) ord) e s))"
proof -
  have call: "Q (w_env (snd (callCb f v t))) (w_calls (snd (callCb f v t)))" if "Q (w_env t) (w_calls t)" for v t
    using keep[OF that, of v] by (simp add: callCb_def split_beta)
  have loop: "Q (w_env (tryNext (Some f) xs t)) (w_calls (tryNext (Some f) xs t))"
    if "Q (w_env t) (w_calls t)" for xs t
    using that
  proof (induction xs arbitrary: t)
    case (Cons x xs)
    then show ?case using call[of "t\<lparr>w_curr := fst x\<rparr>" "Some x"]
      by (cases x) (auto simp: Let_def split_beta intro!: Cons.IH)
  qed simp
  show ?thesis
  proof (cases e)
    case (Added i v)
    show ?thesis using q call[of "s\<lparr>w_vals := x, w_curr := y\<rparr>" for x y]
      by (auto simp: Added ExecOneOffWatchCb_def NewCallbackHandler_def watchAdded_def Let_def split_beta
          split: option.split)
  next
    case (Removed i v)
    show ?thesis using q call loop
      by (auto simp: Removed ExecOneOffWatchCb_def NewCallbackHandler_def watchRemoved_def Let_def
          split: option.split)
  next
    case Disposed
    then show ?thesis using q call[of "s\<lparr>w_curr := 0\<rparr>"]
      by (auto simp: ExecOneOffWatchCb_def NewCallbackHandler_def watchDisposed_def Let_def split: option.split)
  qed
qed

lemma handler_keeps_all:
  assumes "\<And>v c calls. Q c calls \<Longrightarrow> Q (snd (f v c)) (calls @ [(v, fst (f v c))])"
    and "Q (w_env s) (w_calls s)"
  shows "Q (w_env (deliverAll (ExecOneOffWatchCb cast (Some f) ord) es s))
    (w_calls (deliverAll (ExecOneOffWatchCb cast (Some f) ord) es s))"
  using assms(2)
  by (induction es arbitrary: s) (auto intro!: handler_keeps[of Q f] assms(1))

text \<open>
  \<^verbatim>\<open>ExecOneOffWatchCtr\<close> and \<^verbatim>\<open>ExecOneOffWatchRoutine\<close>: the value, or the zero value, is stored in a
  container or made the state of a routine.
\<close>

definition storeCb :: "'t \<Rightarrow> ('t, 't) watch_cb" where
  "storeCb emp v _ = (True, case v of None \<Rightarrow> emp | Some (_, t) \<Rightarrow> t)"

definition ExecOneOffWatchCtr where
  "ExecOneOffWatchCtr cast emp ord = ExecOneOffWatchCb cast (Some (storeCb emp)) ord"

definition ExecOneOffWatchRoutine where
  "ExecOneOffWatchRoutine cast emp ord = ExecOneOffWatchCb cast (Some (storeCb emp)) ord"

text \<open>
  \<^verbatim>\<open>ExecOneOffWatchCh\<close>: a channel that holds one value. The loop of its callback sends, or else takes
  out what is there and tries again.
\<close>

function sendLatest :: "'a \<Rightarrow> 'a option \<Rightarrow> 'a option" where
  "sendLatest v ch = (case ch of None \<Rightarrow> Some v | Some _ \<Rightarrow> sendLatest v None)"
  by pat_completeness auto
termination
  by (relation "measure (\<lambda>(_, ch). case ch of None \<Rightarrow> 0 | Some _ \<Rightarrow> 1)") auto

declare sendLatest.simps [simp del]

lemma sendLatest_eq [simp]: "sendLatest v ch = Some v"
  by (cases ch) (simp_all add: sendLatest.simps)

record 't watch_chan =
  ch_buf :: "(u32 \<times> 't) option option"
  ch_got :: "(u32 \<times> 't) option list"

definition chanCb :: "('t, 't watch_chan) watch_cb" where
  "chanCb v c = (True, c\<lparr>ch_buf := sendLatest v (ch_buf c)\<rparr>)"

definition ExecOneOffWatchCh where
  "ExecOneOffWatchCh cast ord = ExecOneOffWatchCb cast (Some chanCb) ord"

text \<open>A receive from the channel, which does nothing while it is empty.\<close>

definition receive :: "('t, 't watch_chan) watch \<Rightarrow> ('t, 't watch_chan) watch" where
  "receive s = (case ch_buf (w_env s) of None \<Rightarrow> s
     | Some v \<Rightarrow> s\<lparr>w_env := \<lparr>ch_buf = None, ch_got = ch_got (w_env s) @ [v]\<rparr>\<rparr>)"

text \<open>Events of the reference and receives, in any interleaving.\<close>

fun chanRun where
  "chanRun cast ord [] s = s"
| "chanRun cast ord (None # es) s = chanRun cast ord es (receive s)"
| "chanRun cast ord (Some e # es) s = chanRun cast ord es (deliver (ExecOneOffWatchCh cast ord) e s)"

definition chanInv :: "'t watch_chan \<Rightarrow> ((u32 \<times> 't) option \<times> bool) list \<Rightarrow> bool" where
  "chanInv c calls \<longleftrightarrow>
     last (None # ch_got c @ (case ch_buf c of None \<Rightarrow> [] | Some v \<Rightarrow> [v])) = shown calls"

text \<open>
  A channel of size one is enough. However receives interleave with the events, the last value
  that was received, or the one that waits in the channel, is what the callback was last told; so a
  receiver that drains the channel has the current value.
\<close>

theorem ExecOneOffWatchCh_latest:
  "let s = chanRun cast ord es (watch_init \<lparr>ch_buf = None, ch_got = []\<rparr>) in
    last (None # ch_got (w_env s) @ (case ch_buf (w_env s) of None \<Rightarrow> [] | Some v \<Rightarrow> [v])) = shown (w_calls s)"
proof -
  have keep: "chanInv (snd (chanCb v c)) (calls @ [(v, fst (chanCb v c))])" if "chanInv c calls" for v c calls
    by (simp add: chanInv_def chanCb_def)
  have "chanInv (w_env (chanRun cast ord es s)) (w_calls (chanRun cast ord es s))"
    if "chanInv (w_env s) (w_calls s)" for s
    using that
  proof (induction cast ord es s rule: chanRun.induct)
    case (2 cast ord es s)
    have "chanInv (w_env (receive s)) (w_calls (receive s))"
      using 2(2) by (cases "ch_buf (w_env s)") (auto simp: receive_def chanInv_def)
    then show ?case using 2(1) by simp
  next
    case (3 cast ord e es s)
    have "chanInv (w_env (deliver (ExecOneOffWatchCh cast ord) e s))
        (w_calls (deliver (ExecOneOffWatchCh cast ord) e s))"
      unfolding ExecOneOffWatchCh_def by (rule handler_keeps[of chanInv chanCb, OF keep 3(2)])
    then show ?case using 3(1) by simp
  qed simp
  then show ?thesis by (simp add: chanInv_def watch_init_def)
qed

text \<open>
  \<^verbatim>\<open>ExecOneOffWatchLatestCb\<close>: the loop that receives from that channel. Between the events of the
  reference come iterations of the loop, which receive and call the callback, and the cancellation of
  the context; the call has returned once the first component is there, and the reference is released.
\<close>

datatype 'v latest_event = LtRef "'v ref_event" | LtLoop | LtCancel

fun latestRun where
  "latestRun cast ord valCb [] s = (None, s)"
| "latestRun cast ord valCb (LtCancel # es) s = (Some Canceled, s)"
| "latestRun cast ord valCb (LtRef e # es) s = latestRun cast ord valCb es (deliver (ExecOneOffWatchCh cast ord) e s)"
| "latestRun cast ord valCb (LtLoop # es) s =
     (case ch_buf (w_env s) of None \<Rightarrow> latestRun cast ord valCb es s
      | Some v \<Rightarrow> (case valCb of None \<Rightarrow> latestRun cast ord valCb es (receive s)
          | Some f \<Rightarrow> (case f v of Some e \<Rightarrow> (Some e, receive s) | None \<Rightarrow> latestRun cast ord valCb es (receive s))))"

definition ExecOneOffWatchLatestCb where
  "ExecOneOffWatchLatestCb cast ord initCb valCb es s =
     (case initCb of Some (Some e) \<Rightarrow> (Some e, s) | _ \<Rightarrow> latestRun cast ord valCb es s)"

text \<open>Unless it has returned, the loop is a receiver, so the callback was last told what the channel held.\<close>

fun latestEvents :: "'v latest_event list \<Rightarrow> 'v ref_event option list" where
  "latestEvents [] = []"
| "latestEvents (LtRef e # es) = Some e # latestEvents es"
| "latestEvents (LtLoop # es) = None # latestEvents es"
| "latestEvents (LtCancel # es) = latestEvents es"

lemma latestRun_chanRun:
  "fst (latestRun cast ord valCb es s) = None
   \<Longrightarrow> snd (latestRun cast ord valCb es s) = chanRun cast ord (latestEvents es) s"
  by (induction cast ord valCb es s rule: latestRun.induct)
    (auto simp: receive_def split: option.splits)

lemma chan_got_deliver:
  "ch_got (w_env (deliver (ExecOneOffWatchCh cast ord) e s)) = ch_got (w_env s)"
  unfolding ExecOneOffWatchCh_def
  by (rule handler_keeps[of "\<lambda>c _. ch_got c = ch_got (w_env s)" chanCb]) (simp_all add: chanCb_def)

text \<open>It returns an error only when canceled or with the error of the callback at its last call.\<close>

lemma latestRun_error:
  assumes "fst (latestRun cast ord (Some f) es s) = Some e" "list_all (\<lambda>v. f v = None) (ch_got (w_env s))"
  shows "(LtCancel \<in> set es \<and> e = Canceled)
    \<or> (ch_got (w_env (snd (latestRun cast ord (Some f) es s))) \<noteq> []
       \<and> f (last (ch_got (w_env (snd (latestRun cast ord (Some f) es s))))) = Some e)"
  using assms
proof (induction cast ord "Some f" es s rule: latestRun.induct)
  case (3 cast ord r es s)
  have "ch_got (w_env (deliver (ExecOneOffWatchCh cast ord) r s)) = ch_got (w_env s)"
    by (rule chan_got_deliver)
  then show ?case using 3 by simp
next
  case (4 cast ord es s)
  show ?case
  proof (cases "ch_buf (w_env s)")
    case None
    then show ?thesis using 4 by auto
  next
    case (Some v)
    show ?thesis
    proof (cases "f v")
      case None
      then show ?thesis using Some 4(3)[OF Some refl None] 4(4,5) by (auto simp: receive_def)
    qed (use Some 4(4) in \<open>auto simp: receive_def\<close>)
  qed
qed auto

text \<open>
  \<^verbatim>\<open>ExecOneOffWatchEffect\<close>: the effect of the selected value, released before the next. \<open>eff\<close> says
  whether the effect returns a release function.
\<close>

datatype 't effect_call = Effect u32 't | Release u32

record 't effects =
  ef_curr :: "u32 option"
  ef_log :: "'t effect_call list"

definition effectCb :: "(u32 \<Rightarrow> 't \<Rightarrow> bool) \<Rightarrow> ('t, 't effects) watch_cb" where
  "effectCb eff v c =
     (let c = (case ef_curr c of None \<Rightarrow> c | Some i \<Rightarrow> \<lparr>ef_curr = None, ef_log = ef_log c @ [Release i]\<rparr>) in
      (True, case v of None \<Rightarrow> c
        | Some (i, t) \<Rightarrow> \<lparr>ef_curr = (if eff i t then Some i else None), ef_log = ef_log c @ [Effect i t]\<rparr>))"

definition ExecOneOffWatchEffect where
  "ExecOneOffWatchEffect cast eff ord = ExecOneOffWatchCb cast (Some (effectCb eff)) ord"

text \<open>The effects of a log that are not released yet.\<close>

definition alive :: "(u32 \<Rightarrow> 't \<Rightarrow> bool) \<Rightarrow> 't effect_call list \<Rightarrow> (u32 \<times> 't) list" where
  "alive eff log = fold (\<lambda>e live. case e of
     Effect i t \<Rightarrow> (if eff i t then live @ [(i, t)] else live) | Release i \<Rightarrow> dropId i live) log []"

lemma alive_snoc [simp]:
  "alive eff (log @ [Effect i t]) = alive eff log @ (if eff i t then [(i, t)] else [])"
  "alive eff (log @ [Release i]) = dropId i (alive eff log)"
  "alive eff [] = []"
  by (simp_all add: alive_def)

definition effectInv :: "(u32 \<Rightarrow> 't \<Rightarrow> bool) \<Rightarrow> 't effects \<Rightarrow> ((u32 \<times> 't) option \<times> bool) list \<Rightarrow> bool" where
  "effectInv eff c calls \<longleftrightarrow>
     alive eff (ef_log c) = (case shown calls of None \<Rightarrow> [] | Some (i, t) \<Rightarrow> if eff i t then [(i, t)] else [])
     \<and> ef_curr c = (case shown calls of None \<Rightarrow> None | Some (i, t) \<Rightarrow> if eff i t then Some i else None)"

text \<open>
  The effect of one value. At any time at most one effect is in force, that of the value the
  callback was last told, if its function returned a release; every other was released; and none is
  left after the directive was disposed.
\<close>

theorem ExecOneOffWatchEffect_one:
  "let s = deliverAll (ExecOneOffWatchEffect cast eff ord) es (watch_init \<lparr>ef_curr = None, ef_log = []\<rparr>) in
    alive eff (ef_log (w_env s)) =
      (case shown (w_calls s) of None \<Rightarrow> [] | Some (i, t) \<Rightarrow> if eff i t then [(i, t)] else [])"
proof -
  have keep: "effectInv eff (snd (effectCb eff v c)) (calls @ [(v, fst (effectCb eff v c))])"
    if "effectInv eff c calls" for v c calls
    using that by (auto simp: effectInv_def effectCb_def dropId_def Let_def append_eq_Cons_conv
        simp flip: append_assoc split: option.splits if_splits)
  have "effectInv eff (w_env (deliverAll (ExecOneOffWatchEffect cast eff ord) es s))
      (w_calls (deliverAll (ExecOneOffWatchEffect cast eff ord) es s))"
    if "effectInv eff (w_env s) (w_calls s)" for s
    unfolding ExecOneOffWatchEffect_def by (rule handler_keeps_all[OF keep that])
  then show ?thesis by (simp add: effectInv_def watch_init_def)
qed

section \<open>A value selected by the caller: \<^verbatim>\<open>ExecOneOffWatchSelectCb\<close>\<close>

text \<open>
  \<^verbatim>\<open>slices.SortFunc\<close>: Go sorts slices of at most 12 elements by insertion, moving an element to the
  left while it compares less than its left neighbour; longer ones by an algorithm \<open>big\<close> that is a
  parameter.
\<close>

fun insertLeft :: "('a \<Rightarrow> 'a \<Rightarrow> int) \<Rightarrow> 'a \<Rightarrow> 'a list \<Rightarrow> 'a list" where
  "insertLeft cmp x [] = [x]"
| "insertLeft cmp x (y # ys) = (if cmp x y < 0 then y # insertLeft cmp x ys else x # y # ys)"

definition insertionSort :: "('a \<Rightarrow> 'a \<Rightarrow> int) \<Rightarrow> 'a list \<Rightarrow> 'a list" where
  "insertionSort cmp xs = rev (fold (insertLeft cmp) xs [])"

definition SortFunc :: "(('a \<Rightarrow> 'a \<Rightarrow> int) \<Rightarrow> 'a list \<Rightarrow> 'a list) \<Rightarrow> ('a \<Rightarrow> 'a \<Rightarrow> int) \<Rightarrow> 'a list \<Rightarrow> 'a list" where
  "SortFunc big cmp xs = (if length xs \<le> 12 then insertionSort cmp xs else big cmp xs)"

text \<open>The comparison \<^verbatim>\<open>int(a.GetValueID() - b.GetValueID())\<close> of two \<^verbatim>\<open>uint32\<close>, where \<^verbatim>\<open>int\<close> has 64 bits.\<close>

definition idCmp :: "u32 \<times> 't \<Rightarrow> u32 \<times> 't \<Rightarrow> int" where
  "idCmp a b = uint (fst a - fst b)"

record 't select =
  sl_vals :: "(u32 \<times> 't) list"
  sl_curr :: u32
  sl_calls :: "(u32 \<times> 't) option list"

definition select_init :: "'t select" where
  "select_init = \<lparr>sl_vals = [], sl_curr = 0, sl_calls = []\<rparr>"

text \<open>The value at the index that \<^verbatim>\<open>selectValue\<close> returns (0 if it is nil), if it is one of the slice.\<close>

definition pick :: "((u32 \<times> 't) list \<Rightarrow> int) option \<Rightarrow> (u32 \<times> 't) list \<Rightarrow> (u32 \<times> 't) option" where
  "pick selectValue vals =
     (if vals = [] then None
      else let idx = (case selectValue of None \<Rightarrow> 0 | Some sel \<Rightarrow> sel vals) in
        if 0 \<le> idx \<and> idx < int (length vals) then Some (vals ! nat idx) else None)"

definition selectNextValue :: "((u32 \<times> 't) list \<Rightarrow> int) option \<Rightarrow> 't select \<Rightarrow> 't select" where
  "selectNextValue selectValue s =
     (case pick selectValue (sl_vals s) of
        None \<Rightarrow> if sl_curr s \<noteq> 0 then s\<lparr>sl_curr := 0, sl_calls := sl_calls s @ [None]\<rparr> else s
      | Some (i, v) \<Rightarrow> if i \<noteq> sl_curr s
          then s\<lparr>sl_curr := i, sl_calls := sl_calls s @ [Some (i, v)]\<rparr> else s)"

definition ExecOneOffWatchSelectCb where
  "ExecOneOffWatchSelectCb cast big selectValue = NewTypedCallbackHandler cast
     (Some (\<lambda>i t s. selectNextValue selectValue (s\<lparr>sl_vals := SortFunc big idCmp (sl_vals s @ [(i, t)])\<rparr>)))
     (Some (\<lambda>i t s. selectNextValue selectValue (s\<lparr>sl_vals := dropId i (sl_vals s)\<rparr>)))
     (Some (\<lambda>s. let s = s\<lparr>sl_vals := []\<rparr> in
        if sl_curr s \<noteq> 0 then s\<lparr>sl_curr := 0, sl_calls := sl_calls s @ [None]\<rparr> else s))
     None"

definition sort_ok :: "(('a \<Rightarrow> 'a \<Rightarrow> int) \<Rightarrow> 'a list \<Rightarrow> 'a list) \<Rightarrow> bool" where
  "sort_ok big \<longleftrightarrow> (\<forall>cmp xs. mset (big cmp xs) = mset xs)"

lemma mset_insertLeft [simp]: "mset (insertLeft cmp x xs) = add_mset x (mset xs)"
  by (induction xs) auto

lemma mset_insertionSort [simp]: "mset (insertionSort cmp xs) = mset xs"
proof -
  have "mset (fold (insertLeft cmp) xs acc) = mset xs + mset acc" for acc
    by (induction xs arbitrary: acc) auto
  then show ?thesis by (simp add: insertionSort_def)
qed

lemma mset_SortFunc: "sort_ok big \<Longrightarrow> mset (SortFunc big cmp xs) = mset xs"
  by (simp add: SortFunc_def sort_ok_def)

text \<open>A comparison that is never negative moves nothing.\<close>

lemma insertionSort_never_less:
  assumes "\<And>x y. \<not> cmp x y < 0"
  shows "insertionSort cmp xs = xs"
proof -
  have "insertLeft cmp x ys = x # ys" for x ys using assms by (cases ys) auto
  then have "fold (insertLeft cmp) xs acc = rev xs @ acc" for acc
    by (induction xs arbitrary: acc) auto
  then show ?thesis by (simp add: insertionSort_def)
qed

lemma idCmp_never_less: "\<not> idCmp a b < 0"
  by (simp add: idCmp_def)

text \<open>
  The calls as announcements: no two in a row have one identifier (0 for nil), counting the start as
  nil, and the last one is the selection.
\<close>

definition selId :: "(u32 \<times> 't) option \<Rightarrow> u32" where
  "selId v = (case v of None \<Rightarrow> 0 | Some (i, _) \<Rightarrow> i)"

fun noRepeat :: "u32 \<Rightarrow> (u32 \<times> 't) option list \<Rightarrow> bool" where
  "noRepeat prev [] \<longleftrightarrow> True"
| "noRepeat prev (v # vs) \<longleftrightarrow> selId v \<noteq> prev \<and> noRepeat (selId v) vs"

lemma noRepeat_snoc:
  "noRepeat p (vs @ [v]) \<longleftrightarrow> noRepeat p vs \<and> selId v \<noteq> (if vs = [] then p else selId (last vs))"
  by (induction vs arbitrary: p) auto

definition announced :: "'t select \<Rightarrow> (u32 \<times> 't) option" where
  "announced s = (if sl_calls s = [] then None else last (sl_calls s))"

definition selectInv :: "((u32 \<times> 't) list \<Rightarrow> int) option \<Rightarrow> (u32 \<times> 't) list \<Rightarrow> 't select \<Rightarrow> bool" where
  "selectInv selectValue ts s \<longleftrightarrow> mset (sl_vals s) = mset ts \<and> sl_curr s = selId (announced s)
     \<and> announced s = pick selectValue (sl_vals s) \<and> noRepeat 0 (sl_calls s)"

lemma announced_snoc [simp]: "announced (s\<lparr>sl_curr := i, sl_calls := cs @ [v]\<rparr>) = v"
  by (simp add: announced_def)

lemma announced_vals [simp]: "announced (s\<lparr>sl_vals := vals\<rparr>) = announced s"
  by (simp add: announced_def)

lemma pick_mem: "pick selectValue vals = Some e \<Longrightarrow> e \<in> set vals"
  by (auto simp: pick_def Let_def split: if_splits)

lemma noRepeat_announce:
  assumes "noRepeat 0 (sl_calls s)" "selId v \<noteq> selId (announced s)"
  shows "noRepeat 0 (sl_calls s @ [v])"
  using assms by (auto simp: noRepeat_snoc announced_def selId_def)

text \<open>Values keep their identifier, so a selection with the same identifier is the same value.\<close>

lemma selectNextValue_inv:
  assumes m: "mset (sl_vals s) = mset ts" and c: "sl_curr s = selId (announced s)"
    and nr: "noRepeat 0 (sl_calls s)" and z: "0 \<notin> fst ` set ts"
    and an: "\<And>e. announced s = Some e \<Longrightarrow> fst e \<noteq> 0"
    and same: "\<And>e e'. announced s = Some e \<Longrightarrow> e' \<in> set ts \<Longrightarrow> fst e' = fst e \<Longrightarrow> e' = e"
  shows "selectInv selectValue ts (selectNextValue selectValue s)"
proof (cases "pick selectValue (sl_vals s)")
  case None
  have "announced s = None" if "sl_curr s = 0"
    using that c an by (cases "announced s") (auto simp: selId_def)
  moreover have "noRepeat 0 (sl_calls s @ [None])" if "sl_curr s \<noteq> 0"
    using noRepeat_announce[OF nr, of None] that c by (simp add: selId_def)
  ultimately show ?thesis using None m c nr by (simp add: selectNextValue_def selectInv_def selId_def)
next
  case (Some e)
  obtain i v where e: "e = (i, v)" by fastforce
  have mem: "(i, v) \<in> set ts" using pick_mem[OF Some] m e by (metis set_mset_mset)
  then have i: "i \<noteq> 0" using z by force
  have "announced s = Some (i, v)" if "sl_curr s = i"
    using that c i same[OF _ mem] by (cases "announced s") (auto simp: selId_def)
  moreover have "noRepeat 0 (sl_calls s @ [Some (i, v)])" if "sl_curr s \<noteq> i"
    using noRepeat_announce[OF nr, of "Some (i, v)"] that c by (simp add: selId_def)
  ultimately show ?thesis using Some e m c nr by (auto simp: selectNextValue_def selectInv_def selId_def)
qed

lemma selectInv_step:
  assumes inv: "selectInv selectValue ts s" and d: "distinct (map fst ts)" "0 \<notin> fst ` set ts"
    and us: "mset vals = mset us" "0 \<notin> fst ` set us"
    and eq: "\<And>e e'. e \<in> set ts \<Longrightarrow> e' \<in> set us \<Longrightarrow> fst e' = fst e \<Longrightarrow> e' = e"
  shows "selectInv selectValue us (selectNextValue selectValue (s\<lparr>sl_vals := vals\<rparr>))"
proof (rule selectNextValue_inv)
  have an: "e \<in> set ts" if "announced s = Some e" for e
    using inv that pick_mem by (metis selectInv_def set_mset_mset)
  show "fst e \<noteq> 0" if "announced (s\<lparr>sl_vals := vals\<rparr>) = Some e" for e
    using an[of e] that d(2) by (metis announced_vals image_eqI)
  show "e' = e" if "announced (s\<lparr>sl_vals := vals\<rparr>) = Some e" "e' \<in> set us" "fst e' = fst e" for e e'
    using eq an[of e] that by simp
qed (use inv us in \<open>simp_all add: selectInv_def\<close>)

interpretation select: ref_client "ExecOneOffWatchSelectCb cast big selectValue" select_init
  "\<lambda>cur s. sort_ok big \<longrightarrow> selectInv selectValue (typed cast cur) s"
  "\<lambda>cur s. sort_ok big \<longrightarrow> announced s = None \<and> noRepeat 0 (sl_calls s)"
  for cast :: "'v \<Rightarrow> 't option" and big selectValue
proof (unfold_locales, goal_cases)
  case 1
  show ?case by (simp add: selectInv_def select_init_def announced_def pick_def selId_def)
next
  case (2 cur s i v)
  let ?ts = "typed cast cur"
  have ts: "distinct (map fst ?ts)" "0 \<notin> fst ` set ?ts" "i \<notin> fst ` set ?ts" using 2 by force+
  show ?case
  proof (cases "cast v")
    case (Some t)
    have "selectInv selectValue (?ts @ [(i, t)])
        (selectNextValue selectValue (s\<lparr>sl_vals := SortFunc big idCmp (sl_vals s @ [(i, t)])\<rparr>))"
      if "sort_ok big"
    proof (rule selectInv_step)
      show "selectInv selectValue ?ts s" using 2(3) that by simp
      then show "mset (SortFunc big idCmp (sl_vals s @ [(i, t)])) = mset (?ts @ [(i, t)])"
        using that by (simp add: mset_SortFunc selectInv_def)
      show "e' = e" if "e \<in> set ?ts" "e' \<in> set (?ts @ [(i, t)])" "fst e' = fst e" for e e'
        using that(2)
      proof (cases "e' = (i, t)")
        case True
        then show ?thesis using that(1,3) ts(3) by (metis fst_conv image_eqI)
      qed (use that key_unique[OF ts(1) that(1)] in auto)
    qed (use ts 2(4) in auto)
    then show ?thesis using Some by (simp add: ExecOneOffWatchSelectCb_def NewTypedCallbackHandler_def)
  qed (use 2 in \<open>simp add: ExecOneOffWatchSelectCb_def NewTypedCallbackHandler_def\<close>)
next
  case (3 cur s i v)
  let ?ts = "typed cast cur"
  have ts: "distinct (map fst ?ts)" "0 \<notin> fst ` set ?ts" using 3 by force+
  show ?case
  proof (cases "cast v")
    case None
    then have "dropId i ?ts = ?ts" by (rule dropId_absent[OF typed_other[OF 3(1,4)]])
    then show ?thesis using None 3(3)
      by (simp add: ExecOneOffWatchSelectCb_def NewTypedCallbackHandler_def)
  next
    case (Some t)
    have "selectInv selectValue (dropId i ?ts) (selectNextValue selectValue (s\<lparr>sl_vals := dropId i (sl_vals s)\<rparr>))"
      if "sort_ok big"
    proof (rule selectInv_step)
      show "selectInv selectValue ?ts s" using 3(3) that by simp
      then show "mset (dropId i (sl_vals s)) = mset (dropId i ?ts)"
        by (simp add: mset_dropId selectInv_def)
      show "e' = e" if "e \<in> set ?ts" "e' \<in> set (dropId i ?ts)" "fst e' = fst e" for e e'
        using that key_unique[OF ts(1) that(1)] by simp
    qed (use ts in auto)
    then show ?thesis using Some by (simp add: ExecOneOffWatchSelectCb_def NewTypedCallbackHandler_def)
  qed
next
  case (4 cur s)
  have "noRepeat 0 (sl_calls s @ [None])" if "selectInv selectValue (typed cast cur) s" "sl_curr s \<noteq> 0"
    using that noRepeat_announce[of s None] by (simp add: selectInv_def selId_def)
  moreover have "announced s = None" if "selectInv selectValue (typed cast cur) s" "sl_curr s = 0"
  proof (rule ccontr)
    assume "announced s \<noteq> None"
    then obtain i t where e: "announced s = Some (i, t)" by auto
    then have "(i, t) \<in> set (sl_vals s)" using that(1) pick_mem[of selectValue] by (simp add: selectInv_def)
    then have "(i, t) \<in> set (typed cast cur)" using that(1) by (metis selectInv_def set_mset_mset)
    then obtain v where "(i, v) \<in> set cur" by auto
    moreover have "i = 0" using that e by (simp add: selectInv_def selId_def)
    ultimately show False using 4(2) by (metis fst_conv image_eqI)
  qed
  moreover have "noRepeat 0 (sl_calls s)" if "selectInv selectValue (typed cast cur) s"
    using that by (simp add: selectInv_def)
  moreover have "HandleInstanceDisposed (ExecOneOffWatchSelectCb cast big selectValue) s
    = (if sl_curr s = 0 then s\<lparr>sl_vals := []\<rparr>
       else s\<lparr>sl_vals := [], sl_curr := 0, sl_calls := sl_calls s @ [None]\<rparr>)"
    by (simp add: ExecOneOffWatchSelectCb_def NewTypedCallbackHandler_def Let_def)
  ultimately show ?case using 4(3) by (simp del: typed_dropId)
qed

text \<open>
  The order of the slice. Go sorts a slice of at most twelve elements by insertion, and the comparison is
  never negative, so as long as there are not more values the slice stays in the order of their arrival.
\<close>

definition neverMoreThan :: "nat \<Rightarrow> ('v \<Rightarrow> 't option) \<Rightarrow> 'v ref_event list \<Rightarrow> bool" where
  "neverMoreThan m cast es \<longleftrightarrow> (\<forall>n. length (typed cast (present (take n es))) \<le> m)"

lemma selectNextValue_vals [simp]: "sl_vals (selectNextValue selectValue s) = sl_vals s"
  by (auto simp: selectNextValue_def split: option.split)

lemma SortFunc_idCmp: "length xs \<le> 12 \<Longrightarrow> SortFunc big idCmp xs = xs"
  by (simp add: SortFunc_def insertionSort_never_less[OF idCmp_never_less])

lemma select_order:
  assumes "stream_from cur es" "\<not> disposed_in es" "distinct (map fst cur)" "sl_vals s = typed cast cur"
    "\<And>n. length (typed cast (present_from cur (take n es))) \<le> 12"
  shows "sl_vals (deliverAll (ExecOneOffWatchSelectCb cast big selectValue) es s) = typed cast (present_from cur es)"
  using assms
proof (induction cur es arbitrary: s rule: stream_from.induct)
  case (2 cur i v es)
  have "length (typed cast (present_from (cur @ [(i, v)]) (take n es))) \<le> 12" for n
    using 2(6)[of "Suc n"] by simp
  moreover have "length (typed cast (cur @ [(i, v)])) \<le> 12" using 2(6)[of "Suc 0"] by simp
  ultimately show ?case using 2
    by (cases "cast v") (auto simp: ExecOneOffWatchSelectCb_def NewTypedCallbackHandler_def disposed_in_def SortFunc_idCmp)
next
  case (3 cur i v es)
  have "length (typed cast (present_from (dropId i cur) (take n es))) \<le> 12" for n
    using 3(6)[of "Suc n"] by simp
  moreover have "dropId i (typed cast cur) = typed cast cur" if "cast v = None"
    using 3(2,4) that by (intro dropId_absent[OF typed_other]) auto
  ultimately show ?case using 3
    by (cases "cast v") (auto simp: ExecOneOffWatchSelectCb_def NewTypedCallbackHandler_def disposed_in_def)
qed (auto simp: disposed_in_def)

text \<open>
  C36: a value selected by the caller. Whatever \<^verbatim>\<open>selectValue\<close> returns (also -1, or an index outside the
  slice), after every event the last announcement is what it picks from the slice, which has each of the
  values present once; it was announced when it changed, and never twice in a row; after the disposal nil
  was announced. The slice is not sorted by the identifiers: as long as there were never more than twelve
  values it is in the order of their arrival, so that without \<^verbatim>\<open>selectValue\<close> the first that arrived is
  announced, and not the one with the lowest identifier.
\<close>

theorem ExecOneOffWatchSelectCb_follows:
  assumes "stream es" "sort_ok big"
    and s_def: "s = deliverAll (ExecOneOffWatchSelectCb cast big selectValue) es select_init"
  shows "noRepeat 0 (sl_calls s) \<and> (if disposed_in es then announced s = None
    else announced s = pick selectValue (sl_vals s) \<and> mset (sl_vals s) = mset (typed cast (present es))
      \<and> (neverMoreThan 12 cast es \<longrightarrow> sl_vals s = typed cast (present es)))"
proof -
  have "sl_vals s = typed cast (present es)" if "neverMoreThan 12 cast es" "\<not> disposed_in es"
    unfolding s_def by (rule select_order[OF assms(1) that(2)])
      (use that(1) in \<open>simp_all add: neverMoreThan_def select_init_def typed_def map_filter_simps\<close>)
  then show ?thesis
    using select.deliverAll_Inv[OF assms(1), of big selectValue cast]
      select.deliverAll_Fin[OF assms(1), of big cast selectValue] assms(2)
    by (cases "disposed_in es") (simp_all add: s_def selectInv_def)
qed

lemma ExecOneOffWatchSelectCb_follows_witness:
  "(let s = deliverAll (ExecOneOffWatchSelectCb Some (\<lambda>_ xs. xs) (Some (\<lambda>vs. int (length vs) - 1)))
      [Added 5 (50::nat), Added 3 30, Removed 3 30] select_init
    in announced s = Some (5, 50) \<and> sl_calls s = [Some (5, 50), Some (3, 30), Some (5, 50)]
      \<and> noRepeat 0 (sl_calls s))"
proof -
  let ?es = "[Added 5 (50::nat), Added 3 30, Removed 3 30]"
  let ?s = "deliverAll (ExecOneOffWatchSelectCb Some (\<lambda>_ xs. xs) (Some (\<lambda>vs. int (length vs) - 1))) ?es select_init"
  have "stream ?es" "sort_ok (\<lambda>_ xs. xs)" by (simp_all add: sort_ok_def)
  note th = ExecOneOffWatchSelectCb_follows[OF this refl, of Some "Some (\<lambda>vs. int (length vs) - 1)"]
  have "announced ?s = Some (5, 50) \<and> sl_calls ?s = [Some (5, 50), Some (3, 30), Some (5, 50)]" by code_simp
  then show ?thesis using th by (simp add: Let_def)
qed

text \<open>
  Without \<^verbatim>\<open>selectValue\<close> the value with the lowest identifier should be selected, but the first of
  the slice is the one that came first: the comparison by which the slice is sorted subtracts
  unsigned numbers and is never negative. With the values 2 and 1 in this order, 2 is selected.
\<close>

theorem nil_select_not_lowest:
  "(let s = deliverAll (ExecOneOffWatchSelectCb Some big None) [Added 2 (20::nat), Added 1 10] select_init
    in sl_vals s = [(2, 20), (1, 10)] \<and> announced s = Some (2, 20))
   \<and> SortFunc big idCmp (take 12 xs) = take 12 (xs :: (u32 \<times> nat) list)"
  by (simp add: ExecOneOffWatchSelectCb_def NewTypedCallbackHandler_def selectNextValue_def select_init_def
      pick_def announced_def SortFunc_def insertionSort_never_less[OF idCmp_never_less] Let_def)

section \<open>An effect per value: \<^verbatim>\<open>ExecWatchEffect\<close>\<close>

text \<open>
  The map \<^verbatim>\<open>valRels\<close>, here only its keys, and the log. The iteration order at the disposal is \<open>ord\<close>.
\<close>

record 't watch_effects =
  we_rels :: "(u32 \<times> unit) list"
  we_log :: "'t effect_call list"

definition we_init :: "'t watch_effects" where
  "we_init = \<lparr>we_rels = [], we_log = []\<rparr>"

definition effectAdded :: "(u32 \<Rightarrow> 't \<Rightarrow> bool) \<Rightarrow> u32 \<Rightarrow> 't \<Rightarrow> 't watch_effects \<Rightarrow> 't watch_effects" where
  "effectAdded eff vid t s =
     (let s = s\<lparr>we_log := we_log s @ [Effect vid t]\<rparr> in
      if eff vid t then s\<lparr>we_rels := AList.update vid () (we_rels s)\<rparr> else s)"

definition effectRemoved :: "u32 \<Rightarrow> 't watch_effects \<Rightarrow> 't watch_effects" where
  "effectRemoved vid s =
     (case map_of (we_rels s) vid of None \<Rightarrow> s
      | Some _ \<Rightarrow> s\<lparr>we_rels := AList.delete vid (we_rels s), we_log := we_log s @ [Release vid]\<rparr>)"

definition effectDisposed ::
    "((u32 \<times> unit) list \<Rightarrow> (u32 \<times> unit) list) \<Rightarrow> 't watch_effects \<Rightarrow> 't watch_effects" where
  "effectDisposed ord s = fold (\<lambda>(k, _) s. let s = s\<lparr>we_log := we_log s @ [Release k]\<rparr> in
     s\<lparr>we_rels := AList.delete k (we_rels s)\<rparr>) (ord (we_rels s)) s"

definition ExecWatchEffect where
  "ExecWatchEffect cast eff ord = NewCallbackHandler
     (Some (\<lambda>i v s. case cast v of None \<Rightarrow> s | Some t \<Rightarrow> effectAdded eff i t s))
     (Some (\<lambda>i v s. case cast v of None \<Rightarrow> s | Some _ \<Rightarrow> effectRemoved i s))
     (Some (effectDisposed ord))"

text \<open>Releases never come without an effect before them.\<close>

fun released_ok :: "(u32 \<Rightarrow> 't \<Rightarrow> bool) \<Rightarrow> (u32 \<times> 't) list \<Rightarrow> 't effect_call list \<Rightarrow> bool" where
  "released_ok eff live [] \<longleftrightarrow> True"
| "released_ok eff live (Effect i t # log) \<longleftrightarrow>
     i \<notin> fst ` set live \<and> released_ok eff (if eff i t then live @ [(i, t)] else live) log"
| "released_ok eff live (Release i # log) \<longleftrightarrow> i \<in> fst ` set live \<and> released_ok eff (dropId i live) log"

lemma alive_from:
  "fold (\<lambda>e live. case e of Effect i t \<Rightarrow> (if eff i t then live @ [(i, t)] else live)
     | Release i \<Rightarrow> dropId i live) (log @ [e]) live
   = (case e of Effect i t \<Rightarrow> (\<lambda>l. if eff i t then l @ [(i, t)] else l) | Release i \<Rightarrow> dropId i)
       (fold (\<lambda>e live. case e of Effect i t \<Rightarrow> (if eff i t then live @ [(i, t)] else live)
     | Release i \<Rightarrow> dropId i live) log live)"
  by (cases e) simp_all

lemma released_ok_snoc [simp]:
  "released_ok eff [] (log @ [Effect i t]) \<longleftrightarrow> released_ok eff [] log \<and> i \<notin> fst ` set (alive eff log)"
  "released_ok eff [] (log @ [Release i]) \<longleftrightarrow> released_ok eff [] log \<and> i \<in> fst ` set (alive eff log)"
proof -
  have "released_ok eff live (log @ [e]) \<longleftrightarrow> released_ok eff live log
    \<and> (case e of Effect i t \<Rightarrow> i \<notin> fst ` set (fold (\<lambda>e live. case e of Effect i t \<Rightarrow> (if eff i t then live @ [(i, t)] else live)
         | Release i \<Rightarrow> dropId i live) log live)
       | Release i \<Rightarrow> i \<in> fst ` set (fold (\<lambda>e live. case e of Effect i t \<Rightarrow> (if eff i t then live @ [(i, t)] else live)
         | Release i \<Rightarrow> dropId i live) log live))" for e live
    by (induction eff live log rule: released_ok.induct) (cases e; simp)+
  then show "released_ok eff [] (log @ [Effect i t]) \<longleftrightarrow> released_ok eff [] log \<and> i \<notin> fst ` set (alive eff log)"
    "released_ok eff [] (log @ [Release i]) \<longleftrightarrow> released_ok eff [] log \<and> i \<in> fst ` set (alive eff log)"
    by (simp_all add: alive_def)
qed

definition weInv :: "(u32 \<Rightarrow> 't \<Rightarrow> bool) \<Rightarrow> (u32 \<times> 't) list \<Rightarrow> 't watch_effects \<Rightarrow> bool" where
  "weInv eff ts s \<longleftrightarrow> released_ok eff [] (we_log s) \<and> alive eff (we_log s) = filter (\<lambda>(i, t). eff i t) ts
     \<and> map fst (we_rels s) = map fst (alive eff (we_log s))"

lemma map_fst_dropId: "map fst (dropId i xs) = filter (\<lambda>j. j \<noteq> i) (map fst xs)"
  by (induction xs) (auto simp: dropId_def)

lemma weInv_added:
  assumes inv: "weInv eff ts s" and i: "i \<notin> fst ` set ts"
  shows "weInv eff (ts @ [(i, t)]) (effectAdded eff i t s)"
proof -
  have al: "i \<notin> fst ` set (alive eff (we_log s))" using inv i by (force simp: weInv_def)
  then have "i \<notin> fst ` set (we_rels s)" using inv by (metis list.set_map weInv_def)
  then show ?thesis using inv al by (simp add: weInv_def effectAdded_def update_fresh)
qed

lemma weInv_removed:
  assumes inv: "weInv eff ts s" and d: "distinct (map fst ts)" and i: "(i, t) \<in> set ts"
  shows "weInv eff (dropId i ts) (effectRemoved i s)"
proof -
  have f: "filter (\<lambda>(i, t). eff i t) (dropId i ts) = dropId i (filter (\<lambda>(i, t). eff i t) ts)"
    by (induction ts) (auto simp: dropId_def)
  have keys: "fst ` set (we_rels s) = fst ` set (alive eff (we_log s))"
    using inv by (metis list.set_map weInv_def)
  show ?thesis
  proof (cases "map_of (we_rels s) i")
    case None
    then have "i \<notin> fst ` set (alive eff (we_log s))" using keys by (simp add: map_of_eq_None_iff)
    then have "dropId i (alive eff (we_log s)) = alive eff (we_log s)" by (rule dropId_absent)
    then show ?thesis using inv None f by (simp add: weInv_def effectRemoved_def)
  next
    case (Some u)
    then have "i \<in> fst ` set (alive eff (we_log s))" using keys map_of_SomeD[OF Some] by force
    then show ?thesis using inv Some f
      by (simp add: weInv_def effectRemoved_def delete_dropId map_fst_dropId)
  qed
qed

lemma weInv_disposed:
  assumes "released_ok eff [] (we_log s)" "distinct ks" "set ks = fst ` set (alive eff (we_log s))"
  shows "let u = fold (\<lambda>k s. let s = s\<lparr>we_log := we_log s @ [Release k]\<rparr> in
      s\<lparr>we_rels := AList.delete k (we_rels s)\<rparr>) ks s
    in released_ok eff [] (we_log u) \<and> alive eff (we_log u) = []"
  using assms
proof (induction ks arbitrary: s)
  case (Cons k ks)
  let ?s = "s\<lparr>we_log := we_log s @ [Release k], we_rels := AList.delete k (we_rels s)\<rparr>"
  have "set ks = fst ` set (alive eff (we_log ?s))" using Cons.prems by force
  moreover have "released_ok eff [] (we_log ?s)" using Cons.prems by auto
  ultimately show ?case using Cons.IH[of ?s] Cons.prems(2) by (simp add: Let_def)
qed simp

interpretation effects: ref_client "ExecWatchEffect cast eff ord" we_init
  "\<lambda>cur s. weInv eff (typed cast cur) s"
  "\<lambda>cur s. map_order ord \<longrightarrow> released_ok eff [] (we_log s) \<and> alive eff (we_log s) = []"
  for cast :: "'v \<Rightarrow> 't option" and eff ord
proof (unfold_locales, goal_cases)
  case 1
  show ?case by (simp add: weInv_def we_init_def)
next
  case (2 cur s i v)
  have "i \<notin> fst ` set (typed cast cur)" using 2(5) by force
  with 2 show ?case
    by (auto simp: ExecWatchEffect_def NewCallbackHandler_def weInv_added split: option.split)
next
  case (3 cur s i v)
  show ?case
  proof (cases "cast v")
    case None
    then have "dropId i (typed cast cur) = typed cast cur" by (rule dropId_absent[OF typed_other[OF 3(1,4)]])
    then show ?thesis using 3(3) None by (simp add: ExecWatchEffect_def NewCallbackHandler_def)
  next
    case (Some t)
    then have "(i, t) \<in> set (typed cast cur)" using 3(4) by auto
    then show ?thesis using Some weInv_removed[OF 3(3) distinct_typed[OF 3(1)]]
      by (simp add: ExecWatchEffect_def NewCallbackHandler_def)
  qed
next
  case (4 cur s)
  have eq: "effectDisposed ord s = fold (\<lambda>k s. let s = s\<lparr>we_log := we_log s @ [Release k]\<rparr> in
      s\<lparr>we_rels := AList.delete k (we_rels s)\<rparr>) (map fst (ord (we_rels s))) s"
    unfolding effectDisposed_def fold_map by (rule fold_cong) (auto simp: fun_eq_iff)
  show ?case
  proof
    assume "map_order ord"
    then have m: "mset (ord (we_rels s)) = mset (we_rels s)" by (simp add: map_order_def)
    then have "mset (map fst (ord (we_rels s))) = mset (map fst (we_rels s))" by (metis mset_map)
    moreover have "distinct (map fst (we_rels s))" using 4 by (simp add: weInv_def distinct_map_filter)
    ultimately have "distinct (map fst (ord (we_rels s)))"
      "set (map fst (ord (we_rels s))) = fst ` set (alive eff (we_log s))"
      using 4(3) mset_eq_imp_distinct_iff mset_eq_setD by (metis, metis list.set_map weInv_def)
    then show "released_ok eff [] (we_log (HandleInstanceDisposed (ExecWatchEffect cast eff ord) s))
      \<and> alive eff (we_log (HandleInstanceDisposed (ExecWatchEffect cast eff ord) s)) = []"
      using weInv_disposed[of eff s "map fst (ord (we_rels s))"] 4(3) eq
      by (simp add: ExecWatchEffect_def NewCallbackHandler_def weInv_def Let_def)
  qed
qed

text \<open>
  An effect per value. While the directive lives exactly the present values of the type whose
  effect returned a release function are in force; every release answers an effect that is in force;
  and the disposal releases them all, each once, in whatever order the map is iterated.
\<close>

theorem ExecWatchEffect_balanced:
  assumes "stream es" "map_order ord"
    and s_def: "s = deliverAll (ExecWatchEffect cast eff ord) es we_init"
  shows "released_ok eff [] (we_log s) \<and> alive eff (we_log s) =
    (if disposed_in es then [] else filter (\<lambda>(i, t). eff i t) (typed cast (present es)))"
  using effects.deliverAll_Inv[OF assms(1), of eff cast ord]
    effects.deliverAll_Fin[OF assms(1), of ord eff cast] assms(2)
  by (cases "disposed_in es") (simp_all add: s_def weInv_def)

lemma ExecWatchEffect_balanced_witness:
  "(let s = deliverAll (ExecWatchEffect Some (\<lambda>i t. t \<noteq> (20::nat)) rev)
      [Added 1 10, Added 2 20, Added 3 30, Removed 1 10, Added 4 40, Disposed] we_init
    in released_ok (\<lambda>i t. t \<noteq> 20) [] (we_log s) \<and> alive (\<lambda>i t. t \<noteq> 20) (we_log s) = []
      \<and> we_log s = [Effect 1 10, Effect 2 20, Effect 3 30, Release 1, Effect 4 40, Release 4, Release 3])"
proof -
  let ?es = "[Added 1 10, Added 2 20, Added 3 30, Removed 1 10, Added 4 40, Disposed :: nat ref_event]"
  let ?s = "deliverAll (ExecWatchEffect Some (\<lambda>i t. t \<noteq> (20::nat)) rev) ?es we_init"
  have "stream ?es" "map_order (rev :: (u32 \<times> unit) list \<Rightarrow> _)" "disposed_in ?es"
    by (simp_all add: map_order_def disposed_in_def dropId_def)
  note th = ExecWatchEffect_balanced[OF this(1,2) refl, of "\<lambda>i t. t \<noteq> 20" Some] this(3)
  have "we_log ?s = [Effect 1 10, Effect 2 20, Effect 3 30, Release 1, Effect 4 40, Release 4, Release 3]"
    by code_simp
  then show ?thesis using th by (simp add: Let_def)
qed

end
