(* ===== verification/BusXfrmEffect.thy ===== *)
theory BusXfrmEffect
  imports BusWatch
begin

text \<open>
  The effects of transformed values (\<^verbatim>\<open>ExecWatchTransformEffect\<close> and
  \<^verbatim>\<open>ExecOneOffWatchTransformEffect\<close>). The transformations run as jobs beside the reports of the
  reference, so the first is a step relation.
\<close>

section \<open>\<^verbatim>\<open>ExecWatchTransformEffect\<close>\<close>

text \<open>
  A job of \<^verbatim>\<open>wrapTransform\<close> for one value: in the transformation, with its result before the effect is
  called, and with the number of the release function before the lock is taken.
\<close>

datatype 'e xjob = InTransform | BeforeEffect 'e | BeforeLock nat

text \<open>
  The maps \<^verbatim>\<open>vals\<close> and \<^verbatim>\<open>rels\<close>, the running jobs with the value each was made for, the keys whose job
  returned nil, the effects called, the release functions obtained and those called.
\<close>

record ('t, 'e) xeffect =
  xe_vals :: "(u32 \<times> 't) list"
  xe_rels :: "(u32 \<times> nat) list"
  xe_jobs :: "(u32 \<times> 't \<times> 'e xjob) list"
  xe_done :: "u32 list"
  xe_effects :: "(u32 \<times> 'e) list"
  xe_issued :: nat
  xe_released :: "nat list"

definition xe_init :: "('t, 'e) xeffect" where
  "xe_init = \<lparr>xe_vals = [], xe_rels = [], xe_jobs = [], xe_done = [], xe_effects = [], xe_issued = 0, xe_released = []\<rparr>"

text \<open>The callback of \<^verbatim>\<open>ExecWatchEffect\<close>, and what it returns to be called when the value goes.\<close>

definition xeAdded :: "u32 \<Rightarrow> 't \<Rightarrow> ('t, 'e) xeffect \<Rightarrow> ('t, 'e) xeffect" where
  "xeAdded i t s = s\<lparr>xe_vals := AList.update i t (xe_vals s)\<rparr>"

definition xeRemoved :: "u32 \<Rightarrow> ('t, 'e) xeffect \<Rightarrow> ('t, 'e) xeffect" where
  "xeRemoved i s =
     (let s = s\<lparr>xe_vals := dropId i (xe_vals s)\<rparr> in
      case map_of (xe_rels s) i of None \<Rightarrow> s
      | Some r \<Rightarrow> s\<lparr>xe_rels := dropId i (xe_rels s), xe_released := xe_released s @ [r]\<rparr>)"

text \<open>The steps of a job. \<open>transform\<close> gives an error, nothing, or a value; \<open>eff\<close> says whether there is a release function.\<close>

definition jobSet :: "u32 \<Rightarrow> 't \<Rightarrow> 'e xjob \<Rightarrow> ('t, 'e) xeffect \<Rightarrow> ('t, 'e) xeffect" where
  "jobSet i t pc s = s\<lparr>xe_jobs := (i, t, pc) # dropId i (xe_jobs s)\<rparr>"

definition jobEnd :: "bool \<Rightarrow> u32 \<Rightarrow> ('t, 'e) xeffect \<Rightarrow> ('t, 'e) xeffect" where
  "jobEnd isNil i s = s\<lparr>xe_jobs := dropId i (xe_jobs s), xe_done := (if isNil then i # xe_done s else xe_done s)\<rparr>"

definition jobTransform :: "(u32 \<Rightarrow> 't \<Rightarrow> goerr + 'e option) \<Rightarrow> u32 \<Rightarrow> 't \<Rightarrow> ('t, 'e) xeffect \<Rightarrow> ('t, 'e) xeffect" where
  "jobTransform transform i t s = (case transform i t of
      Inl _ \<Rightarrow> jobEnd False i s
    | Inr None \<Rightarrow> jobEnd True i s
    | Inr (Some out) \<Rightarrow> jobSet i t (BeforeEffect out) s)"

definition jobEffect :: "(u32 \<Rightarrow> 'e \<Rightarrow> bool) \<Rightarrow> bool \<Rightarrow> u32 \<Rightarrow> 't \<Rightarrow> 'e \<Rightarrow> ('t, 'e) xeffect \<Rightarrow> ('t, 'e) xeffect" where
  "jobEffect eff canceled i t out s =
     (if canceled then jobEnd False i s
      else let s = s\<lparr>xe_effects := xe_effects s @ [(i, out)]\<rparr> in
        if eff i out then jobSet i t (BeforeLock (xe_issued s)) (s\<lparr>xe_issued := xe_issued s + 1\<rparr>)
        else jobEnd True i s)"

definition jobLock :: "bool \<Rightarrow> u32 \<Rightarrow> 't \<Rightarrow> nat \<Rightarrow> ('t, 'e) xeffect \<Rightarrow> ('t, 'e) xeffect" where
  "jobLock canceled i t r s =
     (if canceled then jobEnd False i (s\<lparr>xe_released := xe_released s @ [r]\<rparr>)
      else if map_of (xe_vals s) i = Some t then jobEnd True i (s\<lparr>xe_rels := AList.update i r (xe_rels s)\<rparr>)
      else jobEnd True i (s\<lparr>xe_released := xe_released s @ [r]\<rparr>))"

text \<open>
  What can happen: values come and go as a directive reports them; the keyed routines start a job for a
  present value that has none and whose job has not succeeded (after an error it is tried again), and a
  job makes its steps, at each of which its context may be over.
\<close>

inductive xeStep :: "(u32 \<Rightarrow> 't \<Rightarrow> goerr + 'e option) \<Rightarrow> (u32 \<Rightarrow> 'e \<Rightarrow> bool)
    \<Rightarrow> ('t, 'e) xeffect \<Rightarrow> ('t, 'e) xeffect \<Rightarrow> bool" for transform eff where
  added: "i \<notin> fst ` set (xe_vals s) \<Longrightarrow> i \<notin> fst ` set (xe_jobs s) \<Longrightarrow> i \<notin> set (xe_done s)
    \<Longrightarrow> xeStep transform eff s (xeAdded i t s)"
| removed: "i \<in> fst ` set (xe_vals s) \<Longrightarrow> xeStep transform eff s (xeRemoved i s)"
| start: "map_of (xe_vals s) i = Some t \<Longrightarrow> i \<notin> fst ` set (xe_jobs s) \<Longrightarrow> i \<notin> set (xe_done s)
    \<Longrightarrow> xeStep transform eff s (jobSet i t InTransform s)"
| transformed: "(i, t, InTransform) \<in> set (xe_jobs s) \<Longrightarrow> xeStep transform eff s (jobTransform transform i t s)"
| effect: "(i, t, BeforeEffect out) \<in> set (xe_jobs s) \<Longrightarrow> xeStep transform eff s (jobEffect eff canceled i t out s)"
| locked: "(i, t, BeforeLock r) \<in> set (xe_jobs s) \<Longrightarrow> xeStep transform eff s (jobLock canceled i t r s)"

abbreviation ExecWatchTransformEffect where
  "ExecWatchTransformEffect transform eff \<equiv> (xeStep transform eff)\<^sup>*\<^sup>*"

text \<open>The release functions that the jobs still hold.\<close>

definition jobRels :: "(u32 \<times> 't \<times> 'e xjob) list \<Rightarrow> nat multiset" where
  "jobRels jobs = mset (List.map_filter (\<lambda>(_, _, pc). case pc of BeforeLock r \<Rightarrow> Some r | _ \<Rightarrow> None) jobs)"

definition pcRel :: "'e xjob \<Rightarrow> nat multiset" where
  "pcRel pc = (case pc of BeforeLock r \<Rightarrow> {#r#} | _ \<Rightarrow> {#})"

lemma pcRel_simps [simp]:
  "pcRel InTransform = {#}" "pcRel (BeforeEffect e) = {#}" "pcRel (BeforeLock r) = {#r#}"
  by (simp_all add: pcRel_def)

lemma jobRels_Cons [simp]: "jobRels [] = {#}" "jobRels ((i, t, pc) # jobs) = pcRel pc + jobRels jobs"
  by (simp_all add: jobRels_def map_filter_simps split: xjob.split)

lemma jobRels_drop:
  "distinct (map fst jobs) \<Longrightarrow> (i, t, pc) \<in> set jobs \<Longrightarrow> jobRels jobs = pcRel pc + jobRels (dropId i jobs)"
proof (induction jobs)
  case (Cons j jobs)
  obtain i' t' pc' where j: "j = (i', t', pc')" by (cases j)
  show ?case
  proof (cases "i' = i")
    case True
    then have "dropId i jobs = jobs" using Cons.prems(1) j by (intro dropId_absent) simp
    moreover have "pc' = pc" using Cons.prems True j by force
    ultimately show ?thesis using True j by (simp add: dropId_def)
  next
    case False
    then show ?thesis using Cons j by (simp add: dropId_def)
  qed
qed simp

definition xeInv :: "('t, 'e) xeffect \<Rightarrow> bool" where
  "xeInv s \<longleftrightarrow> distinct (map fst (xe_vals s)) \<and> distinct (map fst (xe_rels s)) \<and> distinct (map fst (xe_jobs s))
     \<and> fst ` set (xe_rels s) \<subseteq> fst ` set (xe_vals s) \<and> fst ` set (xe_rels s) \<subseteq> set (xe_done s)
     \<and> fst ` set (xe_jobs s) \<inter> set (xe_done s) = {}
     \<and> mset (xe_released s) + mset (map snd (xe_rels s)) + jobRels (xe_jobs s) = mset [0..<xe_issued s]"

lemma issue: "mset_set {0..<Suc n} = add_mset n (mset_set {0..<n})"
  by (simp add: atLeastLessThanSuc)

lemma distinct_part: "mset xs + M = mset ys \<Longrightarrow> distinct ys \<Longrightarrow> distinct xs \<and> set xs \<subseteq> set ys"
proof -
  assume m: "mset xs + M = mset ys" and d: "distinct ys"
  obtain zs where "M = mset zs" by (metis ex_mset)
  then have e: "mset (xs @ zs) = mset ys" using m by simp
  then have "distinct (xs @ zs)" using d mset_eq_imp_distinct_iff by blast
  moreover have "set (xs @ zs) = set ys" using e by (rule mset_eq_setD)
  ultimately show ?thesis by auto
qed

lemma xeInv_init: "xeInv xe_init"
  by (simp add: xeInv_def xe_init_def)

lemma xeInv_job:
  assumes "xeInv s" "(i, t, pc) \<in> set (xe_jobs s)"
  shows "i \<notin> set (xe_done s)" "i \<notin> fst ` set (xe_rels s)" "distinct (map fst (xe_jobs s))"
    "mset (xe_released s) + mset (map snd (xe_rels s)) + (pcRel pc + jobRels (dropId i (xe_jobs s))) = mset [0..<xe_issued s]"
proof -
  show d: "distinct (map fst (xe_jobs s))" using assms(1) by (simp add: xeInv_def)
  show dn: "i \<notin> set (xe_done s)" using assms by (force simp: xeInv_def)
  then show "i \<notin> fst ` set (xe_rels s)" using assms(1) by (auto simp: xeInv_def)
  show "mset (xe_released s) + mset (map snd (xe_rels s)) + (pcRel pc + jobRels (dropId i (xe_jobs s))) = mset [0..<xe_issued s]"
    using assms(1) jobRels_drop[OF d assms(2)] by (simp add: xeInv_def)
qed

lemma keys_dropId: "fst ` set (dropId i xs) = fst ` set xs - {i}"
  by auto

lemma xeInv_removed:
  assumes "xeInv s"
  shows "xeInv (xeRemoved i s)"
proof (cases "map_of (xe_rels s) i")
  case None
  then have i: "i \<notin> fst ` set (xe_rels s)" by (simp add: map_of_eq_None_iff)
  have "fst ` set (xe_rels s) \<subseteq> fst ` set (xe_vals s)" using assms by (simp add: xeInv_def)
  with i have "fst ` set (xe_rels s) \<subseteq> fst ` set (dropId i (xe_vals s))" unfolding keys_dropId by blast
  then show ?thesis using assms None by (simp add: xeInv_def xeRemoved_def del: set_dropId)
next
  case (Some r)
  have d: "distinct (map fst (xe_rels s))" using assms by (simp add: xeInv_def)
  have "mset (dropId i (xe_rels s)) = mset (xe_rels s) - {# (i, r) #}"
    using mset_remove_key[OF d map_of_SomeD[OF Some]] by (simp add: mset_dropId)
  then have "mset (xe_rels s) = add_mset (i, r) (mset (dropId i (xe_rels s)))"
    using map_of_SomeD[OF Some] by simp
  then have "mset (map snd (xe_rels s)) = add_mset r (mset (map snd (dropId i (xe_rels s))))"
    by (metis (no_types, lifting) image_mset_add_mset mset_map snd_conv)
  moreover have "fst ` set (xe_rels s) \<subseteq> fst ` set (xe_vals s)" "fst ` set (xe_rels s) \<subseteq> set (xe_done s)"
    using assms by (simp_all add: xeInv_def)
  then have "fst ` set (dropId i (xe_rels s)) \<subseteq> fst ` set (dropId i (xe_vals s))"
      "fst ` set (dropId i (xe_rels s)) \<subseteq> set (xe_done s)" unfolding keys_dropId by blast+
  ultimately show ?thesis using assms Some by (simp add: xeInv_def xeRemoved_def del: set_dropId)
qed

lemma xeInv_step: "xeStep transform eff s s' \<Longrightarrow> xeInv s \<Longrightarrow> xeInv s'"
proof (induction rule: xeStep.induct)
  case (added i s t)
  then have "AList.update i t (xe_vals s) = xe_vals s @ [(i, t)]" by (intro update_fresh)
  then show ?case using added by (auto simp: xeInv_def xeAdded_def)
next
  case (removed i s)
  then show ?case by (intro xeInv_removed)
next
  case (start s i t)
  then show ?case by (auto simp: xeInv_def jobSet_def dropId_absent)
next
  case (transformed i t s)
  note job = xeInv_job[OF transformed(2,1)]
  show ?case
    using transformed(2) job by (auto simp: xeInv_def jobTransform_def jobEnd_def jobSet_def split: sum.split option.split)
next
  case (effect i t out s canceled)
  note job = xeInv_job[OF effect(2,1)]
  show ?case
    using effect(2) job by (auto simp: xeInv_def jobEffect_def jobEnd_def jobSet_def Let_def issue ac_simps)
next
  case (locked i t r s canceled)
  note job = xeInv_job[OF locked(2,1)]
  have upd: "AList.update i r (xe_rels s) = xe_rels s @ [(i, r)]" using job(2) by (rule update_fresh)
  have "i \<in> fst ` set (xe_vals s)" if "map_of (xe_vals s) i = Some t" using map_of_SomeD[OF that] by force
  then show ?case
    using locked(2) job by (auto simp: xeInv_def jobLock_def jobEnd_def upd ac_simps)
qed

lemma xeInv_reach: "ExecWatchTransformEffect transform eff xe_init s \<Longrightarrow> xeInv s"
  by (induction rule: rtranclp_induct) (use xeInv_init xeInv_step in blast)+

text \<open>
  C23: the effects of transformed values are released once. However the jobs, their retries and
  cancellations interleave with values that come and go, no release function is called twice, one that
  is kept belongs to a present value, and when no job runs the functions that were not called are
  exactly those kept; so when the values are gone too all were called once.
\<close>

theorem ExecWatchTransformEffect_released:
  assumes "ExecWatchTransformEffect transform eff xe_init s"
  shows "distinct (xe_released s) \<and> set (xe_released s) \<subseteq> {0..<xe_issued s}
    \<and> fst ` set (xe_rels s) \<subseteq> fst ` set (xe_vals s)
    \<and> (xe_jobs s = [] \<longrightarrow> set (xe_released s) = {0..<xe_issued s} - snd ` set (xe_rels s))
    \<and> (xe_jobs s = [] \<and> xe_vals s = [] \<longrightarrow> set (xe_released s) = {0..<xe_issued s})"
proof -
  have inv: "xeInv s" using assms by (rule xeInv_reach)
  then have m: "mset (xe_released s @ map snd (xe_rels s)) + jobRels (xe_jobs s) = mset [0..<xe_issued s]"
    by (simp add: xeInv_def)
  then have "distinct (xe_released s @ map snd (xe_rels s))
      \<and> set (xe_released s @ map snd (xe_rels s)) \<subseteq> set [0..<xe_issued s]"
    by (rule distinct_part) simp
  moreover have "set (xe_released s @ map snd (xe_rels s)) = set [0..<xe_issued s]" if "xe_jobs s = []"
    using m that by (metis add.right_neutral jobRels_Cons(1) mset_eq_setD)
  moreover have "xe_rels s = []" if "xe_vals s = []" using inv that by (simp add: xeInv_def)
  ultimately show ?thesis using inv by (auto simp: xeInv_def)
qed

lemma xeStep_to: "ExecWatchTransformEffect transform eff s t \<Longrightarrow> xeStep transform eff t u \<Longrightarrow> v = u
  \<Longrightarrow> ExecWatchTransformEffect transform eff s v"
  by (simp add: rtranclp.rtrancl_into_rtrancl)

theorem ExecWatchTransformEffect_released_witness:
  "distinct [0::nat] \<and> ExecWatchTransformEffect (\<lambda>_ v. Inr (Some (v + 1))) (\<lambda>_ _. True) (xe_init :: (nat, nat) xeffect)
     \<lparr>xe_vals = [], xe_rels = [], xe_jobs = [], xe_done = [7], xe_effects = [(7, 43)], xe_issued = 1, xe_released = [0]\<rparr>"
proof -
  let ?tr = "\<lambda>_ v. Inr (Some (v + 1))" and ?e = "\<lambda>_ _. True"
  let ?R = "ExecWatchTransformEffect ?tr ?e"
  let ?s = "\<lparr>xe_vals = [], xe_rels = [], xe_jobs = [], xe_done = [7], xe_effects = [(7, 43)], xe_issued = 1,
    xe_released = [0]\<rparr> :: (nat, nat) xeffect"
  let ?s1 = "xe_init\<lparr>xe_vals := [(7::u32, 42::nat)]\<rparr> :: (nat, nat) xeffect"
  let ?s2 = "?s1\<lparr>xe_jobs := [(7, 42, InTransform)]\<rparr>" and ?s3 = "?s1\<lparr>xe_jobs := [(7, 42, BeforeEffect 43)]\<rparr>"
  let ?s4 = "?s1\<lparr>xe_jobs := [(7, 42, BeforeLock 0)], xe_effects := [(7, 43)], xe_issued := 1\<rparr>"
  let ?s5 = "?s4\<lparr>xe_vals := []\<rparr>"
  have "?R xe_init ?s1" by (rule xeStep_to[OF rtranclp.rtrancl_refl added[of 7 _ _ _ 42]]) (simp_all add: xeAdded_def xe_init_def)
  then have "?R xe_init ?s2" by (rule xeStep_to[OF _ start[of _ 7 42]]) (simp_all add: jobSet_def xe_init_def)
  then have "?R xe_init ?s3" by (rule xeStep_to[OF _ transformed[of 7 42]]) (simp_all add: jobTransform_def jobSet_def dropId_def xe_init_def)
  then have "?R xe_init ?s4" by (rule xeStep_to[OF _ effect[of 7 42 43 _ _ _ False]]) (simp_all add: jobEffect_def jobSet_def dropId_def xe_init_def)
  then have "?R xe_init ?s5" by (rule xeStep_to[OF _ removed[of 7]]) (simp_all add: xeRemoved_def dropId_def xe_init_def)
  then have R: "?R xe_init ?s" by (rule xeStep_to[OF _ locked[of 7 42 0 _ _ _ False]]) (simp_all add: jobLock_def jobEnd_def dropId_def xe_init_def)
  then show ?thesis using ExecWatchTransformEffect_released[OF R] by simp
qed

section \<open>\<^verbatim>\<open>ExecOneOffWatchTransformEffect\<close>\<close>

text \<open>
  The slice \<^verbatim>\<open>xfrmVals\<close>, the identifier of the value in effect (0 if there is none), whether its
  effect returned a release function, and the calls made. An effect may be called with nil.
\<close>

datatype 'e ot_call = OtEffect "(u32 \<times> 'e) option" | OtRelease

record 'e oneeffect =
  ot_vals :: "(u32 \<times> 'e) list"
  ot_effectVal :: u32
  ot_effectRel :: bool
  ot_log :: "'e ot_call list"

definition ot_init :: "'e oneeffect" where
  "ot_init = \<lparr>ot_vals = [], ot_effectVal = 0, ot_effectRel = False, ot_log = []\<rparr>"

definition maybeCallEffect ::
    "((u32 \<times> 'e) list \<Rightarrow> int) option \<Rightarrow> ((u32 \<times> 'e) option \<Rightarrow> bool) \<Rightarrow> 'e oneeffect \<Rightarrow> 'e oneeffect" where
  "maybeCallEffect selectValue eff s =
     (let sel = pick selectValue (ot_vals s) in
      if selId sel = ot_effectVal s then s
      else s\<lparr>ot_effectVal := selId sel, ot_effectRel := eff sel,
        ot_log := ot_log s @ (if ot_effectRel s then [OtRelease] else []) @ [OtEffect sel]\<rparr>)"

text \<open>The callback for a transformed value, and the release function that it returns, which is never nil.\<close>

definition otAdded where
  "otAdded big selectValue eff i e s =
     maybeCallEffect selectValue eff (s\<lparr>ot_vals := SortFunc big idCmp (ot_vals s @ [(i, e)])\<rparr>)"

definition otRemoved :: "u32 \<Rightarrow> 'e \<Rightarrow> 'e oneeffect \<Rightarrow> 'e oneeffect" where
  "otRemoved i e s = (case indexOf (\<lambda>x. x = (i, e)) (ot_vals s) of None \<Rightarrow> s
     | Some k \<Rightarrow>
         let s = s\<lparr>ot_vals := removeAt k (ot_vals s)\<rparr> in
         if ot_effectVal s = i
         then s\<lparr>ot_effectVal := 0, ot_effectRel := False,
                ot_log := ot_log s @ (if ot_effectRel s then [OtRelease] else [])\<rparr>
         else s)"

datatype 'e ot_event = OtAdd u32 'e | OtRemove u32 'e

fun otStep where
  "otStep big selectValue eff (OtAdd i e) s = otAdded big selectValue eff i e s"
| "otStep big selectValue eff (OtRemove i e) s = otRemoved i e s"

text \<open>
  The events are the effects of \<^const>\<open>ExecWatchTransformEffect\<close> (with an effect that always returns a release
  function) and the calls of these functions.
\<close>

definition ExecOneOffWatchTransformEffect where
  "ExecOneOffWatchTransformEffect big selectValue eff es = fold (otStep big selectValue eff) es ot_init"

definition effectsWithRel :: "((u32 \<times> 'e) option \<Rightarrow> bool) \<Rightarrow> 'e ot_call list \<Rightarrow> nat" where
  "effectsWithRel eff log = length (filter (\<lambda>c. case c of OtEffect v \<Rightarrow> eff v | OtRelease \<Rightarrow> False) log)"

definition releaseCalls :: "'e ot_call list \<Rightarrow> nat" where
  "releaseCalls log = length (filter (\<lambda>c. c = OtRelease) log)"

lemma calls_simps [simp]:
  "effectsWithRel eff [] = 0" "releaseCalls [] = 0"
  "effectsWithRel eff (log @ log') = effectsWithRel eff log + effectsWithRel eff log'"
  "releaseCalls (log @ log') = releaseCalls log + releaseCalls log'"
  "effectsWithRel eff [OtEffect v] = (if eff v then 1 else 0)" "effectsWithRel eff [OtRelease] = 0"
  "releaseCalls [OtEffect v] = 0" "releaseCalls [OtRelease] = 1"
  by (simp_all add: effectsWithRel_def releaseCalls_def)

text \<open>
  The one-off effect of transformed values has at most one effect in force: at any time the effects
  with a release function outnumber the releases by one if one is in force and not at all otherwise,
  and the value in effect is not zero only if the last effect called was for it.
\<close>

theorem ExecOneOffWatchTransformEffect_one:
  "let s = ExecOneOffWatchTransformEffect big selectValue eff es in
    effectsWithRel eff (ot_log s) = releaseCalls (ot_log s) + (if ot_effectRel s then 1 else 0)
    \<and> (ot_effectVal s \<noteq> 0 \<longrightarrow> (\<exists>log e. ot_log s = log @ [OtEffect (Some (ot_effectVal s, e))]))"
proof -
  let ?I = "\<lambda>s. effectsWithRel eff (ot_log s) = releaseCalls (ot_log s) + (if ot_effectRel s then 1 else 0)
    \<and> (ot_effectVal s \<noteq> 0 \<longrightarrow> (\<exists>log e. ot_log s = log @ [OtEffect (Some (ot_effectVal s, e))]))"
  have "?I (maybeCallEffect selectValue eff t)" if "?I t" for t
    using that by (cases "pick selectValue (ot_vals t)") (auto simp: maybeCallEffect_def selId_def Let_def)
  then have "?I (otStep big selectValue eff ev t)" if "?I t" for ev t
    using that by (cases ev) (auto simp: otAdded_def otRemoved_def Let_def split: option.split)
  then have "?I (fold (otStep big selectValue eff) es ot_init)"
    by (intro fold_invariant[where Q = "\<lambda>_. True" and P = ?I]) (auto simp: ot_init_def)
  then show ?thesis by (simp add: ExecOneOffWatchTransformEffect_def Let_def)
qed

text \<open>
  When the value in effect goes, no other is selected, although one is there; and an effect is called
  with nil when \<^verbatim>\<open>selectValue\<close> selects nothing any more.
\<close>

theorem transform_effect_not_reselected:
  "(let s = ExecOneOffWatchTransformEffect big None (\<lambda>_. True) [OtAdd 1 (10::nat), OtAdd 2 20, OtRemove 1 10] in
     ot_vals s = [(2, 20)] \<and> ot_effectVal s = 0 \<and> ot_log s = [OtEffect (Some (1, 10)), OtRelease])
   \<and> ot_log (ExecOneOffWatchTransformEffect big (Some (\<lambda>vals. if length vals = 1 then 0 else - 1)) (\<lambda>_. True)
        [OtAdd 1 (10::nat), OtAdd 2 20]) = [OtEffect (Some (1, 10)), OtRelease, OtEffect None]"
  by (simp add: ExecOneOffWatchTransformEffect_def otAdded_def otRemoved_def maybeCallEffect_def pick_def selId_def
      ot_init_def SortFunc_def insertionSort_never_less[OF idCmp_never_less] Let_def)

end
