(* ===== verification/BusOneOff.thy ===== *)
theory BusOneOff
  imports Bus_Events
begin

text \<open>
  The helpers of \<^verbatim>\<open>bus/oneoff.go\<close> and \<^verbatim>\<open>bus/wait.go\<close> that add a directive and wait for one value. The
  state is the record of the variables that the closures share; the reference's events, the idle
  callback and the iterations of the waiting loop are separate critical sections under one lock,
  and come in any order. Error lists may have nil entries (\<^term>\<open>None\<close>), as in the code.
\<close>

section \<open>Idle callbacks\<close>

text \<open>\<^verbatim>\<open>ExecIdleCallback\<close>: whether to wait, and an error.\<close>

type_synonym idle_cb = "bool \<Rightarrow> goerr option list \<Rightarrow> bool \<times> goerr option"

definition WaitWhenIdle :: "bool \<Rightarrow> idle_cb" where
  "WaitWhenIdle ignoreErrors isIdle errs =
     (if ignoreErrors then (True, None)
      else case firstErr errs of Some err \<Rightarrow> (False, Some err) | None \<Rightarrow> (True, None))"

definition ReturnWhenIdle :: idle_cb where
  "ReturnWhenIdle isIdle errs =
     (if \<not> isIdle then (True, None)
      else case firstErr errs of Some err \<Rightarrow> (False, Some err) | None \<Rightarrow> (False, None))"

definition ReturnIfIdle :: "bool \<Rightarrow> idle_cb" where
  "ReturnIfIdle returnIfIdle = (if returnIfIdle then ReturnWhenIdle else WaitWhenIdle False)"

section \<open>\<^verbatim>\<open>ExecOneOffWithFilter\<close>\<close>

text \<open>
  The variables \<^verbatim>\<open>val\<close>, \<^verbatim>\<open>resErr\<close>, \<^verbatim>\<open>idle\<close> and \<^verbatim>\<open>wait\<close>, and how often the dispose callback was called.
\<close>

record 'v oneoff =
  oo_val :: "(u32 \<times> 'v) option"
  oo_err :: "goerr option"
  oo_idle :: bool
  oo_wait :: bool
  oo_disposed :: nat

definition oneoff_init :: "'v oneoff" where
  "oneoff_init = \<lparr>oo_val = None, oo_err = None, oo_idle = False, oo_wait = False, oo_disposed = 0\<rparr>"

text \<open>A filter returns whether the value is taken, and an error.\<close>

type_synonym 'v one_filter = "u32 \<Rightarrow> 'v \<Rightarrow> bool \<times> goerr option"

definition oneoffAdded :: "'v one_filter option \<Rightarrow> u32 \<Rightarrow> 'v \<Rightarrow> 'v oneoff \<Rightarrow> 'v oneoff" where
  "oneoffAdded filterCb i v s =
     (if oo_val s = None \<and> oo_err s = None then
        case filterCb of
          None \<Rightarrow> s\<lparr>oo_val := Some (i, v)\<rparr>
        | Some f \<Rightarrow> (let (ok, err) = f i v; s = s\<lparr>oo_err := err\<rparr> in
            if ok \<and> err = None then s\<lparr>oo_val := Some (i, v)\<rparr> else s)
      else s)"

definition oneoffRemoved :: "bool \<Rightarrow> u32 \<Rightarrow> 'v \<Rightarrow> 'v oneoff \<Rightarrow> 'v oneoff" where
  "oneoffRemoved hasDispose i v s =
     (if \<not> hasDispose then s
      else case oo_val s of
        Some (j, _) \<Rightarrow> if j = i then s\<lparr>oo_disposed := oo_disposed s + 1\<rparr> else s
      | None \<Rightarrow> s)"

definition oneoffDisposed :: "bool \<Rightarrow> 'v oneoff \<Rightarrow> 'v oneoff" where
  "oneoffDisposed hasDispose s =
     (let s = (if oo_err s = None then s\<lparr>oo_err := Some DirectiveDisposed\<rparr> else s) in
      if hasDispose then s\<lparr>oo_disposed := oo_disposed s + 1\<rparr> else s)"

definition oneoff_handler :: "'v one_filter option \<Rightarrow> bool \<Rightarrow> ('v, 'v oneoff) ref_handler" where
  "oneoff_handler filterCb hasDispose = NewCallbackHandler
     (Some (oneoffAdded filterCb)) (Some (oneoffRemoved hasDispose)) (Some (oneoffDisposed hasDispose))"

text \<open>A nil idle callback is replaced by one that waits and returns resolver errors.\<close>

definition oneoffIdle :: "idle_cb option \<Rightarrow> bool \<Rightarrow> goerr option list \<Rightarrow> 'v oneoff \<Rightarrow> 'v oneoff" where
  "oneoffIdle idleCb isIdle errs s =
     (let cb = (case idleCb of None \<Rightarrow> WaitWhenIdle False | Some cb \<Rightarrow> cb);
          (wait, err) = cb isIdle errs in
      s\<lparr>oo_idle := isIdle, oo_wait := wait, oo_err := err\<rparr>)"

text \<open>
  One iteration of the waiting loop: it returns the value with the reference, or an error (possibly
  nil) after it released the reference, or waits for a broadcast or the end of the context.
\<close>

datatype 'v oo_result = OoValue u32 'v | OoNone "goerr option" | OoWait

definition oneoffCheck :: "'v oneoff \<Rightarrow> 'v oo_result" where
  "oneoffCheck s = (case oo_val s of
       Some (i, v) \<Rightarrow> OoValue i v
     | None \<Rightarrow> if oo_err s \<noteq> None \<or> (oo_idle s \<and> \<not> oo_wait s) then OoNone (oo_err s) else OoWait)"

text \<open>After \<^verbatim>\<open>OoWait\<close>, if the context is done.\<close>

definition oneoffCanceled :: "'v oo_result" where
  "oneoffCanceled = OoNone (Some Canceled)"

text \<open>The sections that run until the loop returns.\<close>

datatype 'v oo_event = OoRef "'v ref_event" | OoIdle bool "goerr option list"

fun oneoffStep where
  "oneoffStep filterCb idleCb hasDispose (OoRef e) s = deliver (oneoff_handler filterCb hasDispose) e s"
| "oneoffStep filterCb idleCb hasDispose (OoIdle isIdle errs) s = oneoffIdle idleCb isIdle errs s"

definition ExecOneOffWithFilter where
  "ExecOneOffWithFilter idleCb hasDispose filterCb es =
     fold (oneoffStep filterCb idleCb hasDispose) es oneoff_init"

definition ExecOneOff where
  "ExecOneOff idleCb hasDispose es = ExecOneOffWithFilter idleCb hasDispose None es"

section \<open>Typed and transforming variants\<close>

definition typedFilter :: "('v \<Rightarrow> 't option) \<Rightarrow> 't one_filter option \<Rightarrow> 'v one_filter" where
  "typedFilter cast filterCb i v = (case cast v of
       None \<Rightarrow> (False, None)
     | Some t \<Rightarrow> (case filterCb of Some f \<Rightarrow> f i t | None \<Rightarrow> (True, None)))"

text \<open>The type assertion on the returned value panics if it fails (\<^term>\<open>None\<close>).\<close>

definition ExecOneOffWithFilterTyped where
  "ExecOneOffWithFilterTyped cast idleCb hasDispose filterCb es =
     (case oneoffCheck (ExecOneOffWithFilter idleCb hasDispose (Some (typedFilter cast filterCb)) es) of
        OoValue i v \<Rightarrow> map_option (OoValue i) (cast v)
      | OoNone err \<Rightarrow> Some (OoNone err)
      | OoWait \<Rightarrow> Some OoWait)"

definition ExecOneOffTyped where
  "ExecOneOffTyped cast idleCb hasDispose es = ExecOneOffWithFilterTyped cast idleCb hasDispose None es"

text \<open>
  \<^verbatim>\<open>ExecOneOffWithXfrm\<close>: the filter transforms and keeps the last value it transformed, here with the
  attached value that it came from.
\<close>

definition xfrmFilter :: "(u32 \<Rightarrow> 'v \<Rightarrow> 'x \<times> bool \<times> goerr option) \<Rightarrow> 'v one_filter" where
  "xfrmFilter xfrmCb i v = (let (_, ok, err) = xfrmCb i v in
     if \<not> ok \<or> err \<noteq> None then (False, err) else (True, None))"

definition ExecOneOffWithXfrm where
  "ExecOneOffWithXfrm xfrmCb idleCb hasDispose es =
     (case oneoffCheck (ExecOneOffWithFilter idleCb hasDispose (Some (xfrmFilter xfrmCb)) es) of
        OoValue i v \<Rightarrow> OoValue i (fst (xfrmCb i v), v)
      | OoNone err \<Rightarrow> OoNone err
      | OoWait \<Rightarrow> OoWait)"

text \<open>\<^verbatim>\<open>ExecOneOffWithXfrmTyped\<close> is the same over the typed filter.\<close>

definition ExecOneOffWithXfrmTyped where
  "ExecOneOffWithXfrmTyped cast xfrmCb idleCb hasDispose es =
     (case ExecOneOffWithFilterTyped cast idleCb hasDispose (Some (xfrmFilter xfrmCb)) es of
        None \<Rightarrow> None
      | Some (OoValue i t) \<Rightarrow> Some (OoValue i (fst (xfrmCb i t), t))
      | Some (OoNone err) \<Rightarrow> Some (OoNone err)
      | Some OoWait \<Rightarrow> Some OoWait)"

text \<open>\<^verbatim>\<open>ExecWaitValue\<close>; the check callback may be nil.\<close>

definition waitFilter :: "('v \<Rightarrow> 't option) \<Rightarrow> ('t \<Rightarrow> bool \<times> goerr option) option \<Rightarrow> 'v one_filter" where
  "waitFilter cast checkCb i v = (case cast v of
       None \<Rightarrow> (False, None)
     | Some t \<Rightarrow> (case checkCb of None \<Rightarrow> (True, None) | Some f \<Rightarrow> f t))"

definition ExecWaitValue where
  "ExecWaitValue cast checkCb idleCb hasDispose es =
     (case oneoffCheck (ExecOneOffWithFilter idleCb hasDispose (Some (waitFilter cast checkCb)) es) of
        OoValue i v \<Rightarrow> map_option (OoValue i) (cast v)
      | OoNone err \<Rightarrow> Some (OoNone err)
      | OoWait \<Rightarrow> Some OoWait)"

section \<open>The value that is returned\<close>

text \<open>The values added, in order, and whether a filter takes one.\<close>

fun addedVals :: "'v oo_event list \<Rightarrow> (u32 \<times> 'v) list" where
  "addedVals [] = []"
| "addedVals (OoRef (Added i v) # es) = (i, v) # addedVals es"
| "addedVals (_ # es) = addedVals es"

definition takes :: "'v one_filter option \<Rightarrow> u32 \<times> 'v \<Rightarrow> bool" where
  "takes filterCb e = (case filterCb of None \<Rightarrow> True | Some f \<Rightarrow> f (fst e) (snd e) = (True, None))"

lemma oneoffStep_val:
  "oo_val (oneoffStep filterCb idleCb dsp e s) =
     (case e of OoRef (Added i v) \<Rightarrow>
        if oo_val s = None \<and> oo_err s = None \<and> takes filterCb (i, v) then Some (i, v) else oo_val s
      | _ \<Rightarrow> oo_val s)"
  by (cases e; (rename_tac r, case_tac r)?)
    (auto simp: oneoff_handler_def NewCallbackHandler_def oneoffAdded_def oneoffRemoved_def oneoffDisposed_def
      oneoffIdle_def takes_def Let_def split: option.split prod.split)

text \<open>An event that brings no error: neither the disposal nor an idle state that is turned into one.\<close>

definition quiet :: "idle_cb option \<Rightarrow> 'v oo_event \<Rightarrow> bool" where
  "quiet idleCb e = (case e of
     OoIdle isIdle errs \<Rightarrow> snd ((case idleCb of None \<Rightarrow> WaitWhenIdle False | Some cb \<Rightarrow> cb) isIdle errs) = None
   | OoRef Disposed \<Rightarrow> False | _ \<Rightarrow> True)"

definition noFilterErr :: "'v one_filter option \<Rightarrow> bool" where
  "noFilterErr filterCb \<longleftrightarrow> (case filterCb of None \<Rightarrow> True | Some f \<Rightarrow> \<forall>i v. snd (f i v) = None)"

lemma oneoffStep_err:
  assumes "quiet idleCb e" "oo_err s = None" "noFilterErr filterCb"
  shows "oo_err (oneoffStep filterCb idleCb dsp e s) = None"
  using assms
  by (cases e; (rename_tac r, case_tac r)?)
    (auto simp: quiet_def noFilterErr_def oneoff_handler_def NewCallbackHandler_def oneoffAdded_def
      oneoffRemoved_def oneoffIdle_def Let_def case_prod_beta split: option.splits)

lemma addedVals_append [simp]: "addedVals (es @ fs) = addedVals es @ addedVals fs"
  by (induction es rule: addedVals.induct) auto

lemma find_append: "find P (xs @ ys) = (case find P xs of None \<Rightarrow> find P ys | Some x \<Rightarrow> Some x)"
  by (induction xs) auto

lemma oneoff_snoc [simp]:
  "ExecOneOffWithFilter idleCb dsp filterCb (es @ [e])
     = oneoffStep filterCb idleCb dsp e (ExecOneOffWithFilter idleCb dsp filterCb es)"
  "ExecOneOffWithFilter idleCb dsp filterCb [] = oneoff_init"
  by (simp_all add: ExecOneOffWithFilter_def)

lemma oneoff_val_taken:
  "oo_val (ExecOneOffWithFilter idleCb dsp filterCb es) = Some (i, v)
    \<Longrightarrow> (i, v) \<in> set (addedVals es) \<and> takes filterCb (i, v)"
proof (induction es rule: rev_induct)
  case Nil
  then show ?case by (simp add: oneoff_init_def)
next
  case (snoc e es)
  then show ?case
    by (cases e; (rename_tac r, case_tac r)?)
      (auto simp: oneoffStep_val simp del: oneoffStep.simps split: if_splits)
qed

lemma oneoffCheck_value: "oneoffCheck s = OoValue i v \<longleftrightarrow> oo_val s = Some (i, v)"
  by (auto simp: oneoffCheck_def split: option.splits)

text \<open>
  A one-off value is one that was added and that the filter takes, whatever else happens and in
  whatever order.
\<close>

theorem ExecOneOffWithFilter_value:
  assumes "oneoffCheck (ExecOneOffWithFilter idleCb dsp filterCb es) = OoValue i v"
  shows "(i, v) \<in> set (addedVals es) \<and> takes filterCb (i, v)"
  using assms by (simp add: oneoffCheck_value oneoff_val_taken)

lemma ExecOneOffWithFilter_value_witness:
  "oneoffCheck (ExecOneOffWithFilter None False (Some (\<lambda>_ v. (v > 5, None)))
     [OoRef (Added 1 (3::nat)), OoIdle False [], OoRef (Added 2 7)]) = OoValue 2 7
   \<and> takes (Some (\<lambda>_ v. (v > 5, None))) (2::u32, 7::nat)"
proof -
  have "oneoffCheck (ExecOneOffWithFilter None False (Some (\<lambda>_ v. (v > 5, None)))
     [OoRef (Added 1 (3::nat)), OoIdle False [], OoRef (Added 2 7)]) = OoValue 2 7" by code_simp
  with ExecOneOffWithFilter_value[OF this] show ?thesis by simp
qed

text \<open>
  C29: without errors the loop returns the first value that the filter takes as soon as there is one:
  no filter and no idle callback returns an error and the directive is not disposed. Without such a
  value it returns nil exactly when the directive is idle and the idle callback said not to wait.
\<close>

theorem ExecOneOffWithFilter_first:
  assumes "list_all (quiet idleCb) es" "noFilterErr filterCb"
  shows "oneoffCheck (ExecOneOffWithFilter idleCb dsp filterCb es) =
    (case find (takes filterCb) (addedVals es) of
       Some (i, v) \<Rightarrow> OoValue i v
     | None \<Rightarrow> if oo_idle (ExecOneOffWithFilter idleCb dsp filterCb es)
                  \<and> \<not> oo_wait (ExecOneOffWithFilter idleCb dsp filterCb es)
               then OoNone None else OoWait)"
proof -
  have "oo_err (ExecOneOffWithFilter idleCb dsp filterCb es) = None
    \<and> oo_val (ExecOneOffWithFilter idleCb dsp filterCb es) = find (takes filterCb) (addedVals es)"
    using assms(1)
  proof (induction es rule: rev_induct)
    case Nil
    then show ?case by (simp add: oneoff_init_def)
  next
    case (snoc e es)
    let ?s = "ExecOneOffWithFilter idleCb dsp filterCb es"
    have "oo_err (oneoffStep filterCb idleCb dsp e ?s) = None"
      using snoc oneoffStep_err[of idleCb e ?s filterCb dsp] assms(2) by simp
    moreover have "oo_val (oneoffStep filterCb idleCb dsp e ?s) = find (takes filterCb) (addedVals (es @ [e]))"
      using snoc
      by (cases e; (rename_tac r, case_tac r)?)
        (auto simp: oneoffStep_val find_append simp del: oneoffStep.simps split: option.splits)
    ultimately show ?case by (simp del: oneoffStep.simps)
  qed
  then show ?thesis by (auto simp: oneoffCheck_def split: option.split)
qed

lemma ExecOneOffWithFilter_first_witness:
  "oneoffCheck (ExecOneOffWithFilter (Some ReturnWhenIdle) True None
     [OoIdle False [], OoRef (Added 4 (1::nat)), OoRef (Added 5 2), OoIdle True [None]]) = OoValue 4 1"
  by (subst ExecOneOffWithFilter_first)
    (simp_all add: quiet_def noFilterErr_def ReturnWhenIdle_def takes_def)

text \<open>
  An error of the filter is lost. The idle callback, which is first called when it is added, after
  the values of an existing directive have been filtered, overwrites the error with its own, here with
  nil; the loop then goes on waiting, or returns no value and no error, and a later value is taken.
\<close>

theorem oneoff_filter_error_lost:
  "let filterCb = Some (\<lambda>i v. if i = 1 then (False, Some (GoErr ''filter'')) else (True, None));
       es = [OoRef (Added 1 v), OoIdle True []]
   in oneoffCheck (ExecOneOffWithFilter None dsp filterCb [OoRef (Added 1 v)]) = OoNone (Some (GoErr ''filter''))
    \<and> oneoffCheck (ExecOneOffWithFilter None dsp filterCb es) = OoWait
    \<and> oneoffCheck (ExecOneOffWithFilter (Some ReturnWhenIdle) dsp filterCb es) = OoNone None
    \<and> oneoffCheck (ExecOneOffWithFilter None dsp filterCb (es @ [OoRef (Added 2 w)])) = OoValue 2 w"
  by (simp add: ExecOneOffWithFilter_def oneoff_init_def oneoff_handler_def NewCallbackHandler_def
      oneoffAdded_def oneoffIdle_def oneoffCheck_def WaitWhenIdle_def ReturnWhenIdle_def)

text \<open>
  The type assertion on a one-off value never panics, since the filter has made it before: the
  typed variants, and the wait for a value, return a value of the asked type that was added, or the
  outcome of the wait.
\<close>

theorem typed_oneoff_never_panics:
  "ExecOneOffWithFilterTyped cast idleCb dsp filterCb es \<noteq> None
   \<and> ExecWaitValue cast checkCb idleCb dsp es \<noteq> None
   \<and> ExecOneOffWithXfrmTyped cast xfrmCb idleCb dsp es \<noteq> None"
proof -
  have taken: "takes (Some flt) (i, v)"
    if "oneoffCheck (ExecOneOffWithFilter idleCb dsp (Some flt) es) = OoValue i v" for flt i v
    using that by (simp add: oneoffCheck_value oneoff_val_taken)
  have t: "cast v \<noteq> None" if "takes (Some (typedFilter cast f)) (i, v)" for f and i :: u32 and v
    using that by (auto simp: takes_def typedFilter_def split: option.splits)
  have w: "cast v \<noteq> None" if "takes (Some (waitFilter cast f)) (i, v)" for f and i :: u32 and v
    using that by (auto simp: takes_def waitFilter_def split: option.splits)
  have ft: "ExecOneOffWithFilterTyped cast idleCb dsp f es \<noteq> None" for f
    using taken t by (fastforce simp: ExecOneOffWithFilterTyped_def split: oo_result.split)
  moreover have "ExecWaitValue cast checkCb idleCb dsp es \<noteq> None"
    using taken w by (fastforce simp: ExecWaitValue_def split: oo_result.split)
  moreover have "ExecOneOffWithXfrmTyped cast xfrmCb idleCb dsp es \<noteq> None"
    using ft by (auto simp: ExecOneOffWithXfrmTyped_def split: option.split oo_result.split)
  ultimately show ?thesis by blast
qed

end
