(* ===== verification/BusCollect.thy ===== *)
theory BusCollect
  imports Bus_Events "HOL-Library.Sublist"
begin

text \<open>
  The helpers of \<^verbatim>\<open>bus/multi.go\<close> that collect the values of a directive: once until it is idle, or
  with a callback that is told whenever the collection changes. As in the one-off helpers the state
  is the record of the variables that the closures share, and each critical section is a step.
\<close>

section \<open>Collecting values once: \<^verbatim>\<open>ExecCollectValuesWithFilter\<close>\<close>

text \<open>
  \<open>co_dispose\<close> counts the calls of \<^verbatim>\<open>valDisposeCb\<close>, \<open>co_disposed\<close> is the flag that lets only the first
  one pass.
\<close>

record 't collect =
  co_vals :: "'t list"
  co_ids :: "u32 list"
  co_err :: "goerr option"
  co_idle :: bool
  co_returned :: bool
  co_disposed :: bool
  co_dispose :: nat

definition collect_init :: "'t collect" where
  "collect_init = \<lparr>co_vals = [], co_ids = [], co_err = None, co_idle = False, co_returned = False,
     co_disposed = False, co_dispose = 0\<rparr>"

definition valDisposeCallback :: "'t collect \<Rightarrow> 't collect" where
  "valDisposeCallback s =
     (if co_disposed s then s else s\<lparr>co_disposed := True, co_dispose := co_dispose s + 1\<rparr>)"

type_synonym 't col_filter = "'t \<Rightarrow> bool \<times> goerr option"

definition collectAdded :: "'t col_filter option \<Rightarrow> u32 \<Rightarrow> 't \<Rightarrow> 't collect \<Rightarrow> 't collect" where
  "collectAdded filterCb i t s =
     (let append = (\<lambda>s. if co_returned s then s
            else s\<lparr>co_vals := co_vals s @ [t], co_ids := co_ids s @ [i]\<rparr>) in
      case filterCb of
        None \<Rightarrow> append s
      | Some f \<Rightarrow> (case f t of
            (_, Some err) \<Rightarrow> if \<not> co_returned s \<and> co_err s = None then s\<lparr>co_err := Some err\<rparr> else s
          | (ok, None) \<Rightarrow> if ok then append s else s))"

definition collectRemoved :: "u32 \<Rightarrow> 't collect \<Rightarrow> 't collect" where
  "collectRemoved i s =
     (case indexOf (\<lambda>j. j = i) (co_ids s) of
        None \<Rightarrow> s
      | Some k \<Rightarrow> if co_returned s then valDisposeCallback s
                  else s\<lparr>co_ids := swapRemove k (co_ids s), co_vals := swapRemove k (co_vals s)\<rparr>)"

definition collectDisposed :: "'t collect \<Rightarrow> 't collect" where
  "collectDisposed s =
     (if co_returned s then valDisposeCallback s
      else if co_err s = None then s\<lparr>co_err := Some DirectiveDisposed\<rparr> else s)"

definition collect_handler :: "('v \<Rightarrow> 't option) \<Rightarrow> 't col_filter option \<Rightarrow> ('v, 't collect) ref_handler" where
  "collect_handler cast filterCb = NewCallbackHandler
     (Some (\<lambda>i v s. case cast v of None \<Rightarrow> s | Some t \<Rightarrow> collectAdded filterCb i t s))
     (Some (\<lambda>i v s. case cast v of None \<Rightarrow> s | Some _ \<Rightarrow> collectRemoved i s))
     (Some collectDisposed)"

definition collectIdle :: "bool \<Rightarrow> goerr option list \<Rightarrow> 't collect \<Rightarrow> 't collect" where
  "collectIdle isIdle errs s = s\<lparr>co_idle := isIdle, co_err := firstErr errs\<rparr>"

text \<open>
  One iteration of the waiting loop: the values with an error, after the reference was released; the
  values with the reference; or it waits for a broadcast or the end of the context.
\<close>

datatype 't collect_result = CoError "'t list" goerr | CoValues "'t list" | CoWait

definition collectCheck :: "bool \<Rightarrow> 't collect \<Rightarrow> 't collect_result \<times> 't collect" where
  "collectCheck waitOne s =
     (let returnVals = co_err s = None \<and> co_idle s \<and> (\<not> waitOne \<or> co_vals s \<noteq> []);
          s = s\<lparr>co_returned := co_err s \<noteq> None \<or> returnVals\<rparr> in
      (case co_err s of Some err \<Rightarrow> CoError (co_vals s) err
       | None \<Rightarrow> if returnVals then CoValues (co_vals s) else CoWait, s))"

datatype 'v co_event = CoRef "'v ref_event" | CoIdle bool "goerr option list"

fun collectStep where
  "collectStep cast filterCb (CoRef e) s = deliver (collect_handler cast filterCb) e s"
| "collectStep cast filterCb (CoIdle isIdle errs) s = collectIdle isIdle errs s"

definition collectRun where
  "collectRun cast filterCb es s = fold (collectStep cast filterCb) es s"

text \<open>
  The whole call: sections before each iteration of the loop, until an iteration returns. What is left
  of the sections runs afterwards, with the callbacks still registered at the reference.
\<close>

fun ExecCollectValuesWithFilter where
  "ExecCollectValuesWithFilter cast filterCb waitOne [] s = (CoWait, s)"
| "ExecCollectValuesWithFilter cast filterCb waitOne (es # rest) s =
     (case collectCheck waitOne (collectRun cast filterCb es s) of
        (CoWait, s) \<Rightarrow> ExecCollectValuesWithFilter cast filterCb waitOne rest s
      | (r, s) \<Rightarrow> (r, s))"

definition ExecCollectValues where
  "ExecCollectValues cast waitOne ess s = ExecCollectValuesWithFilter cast None waitOne ess s"

section \<open>What is collected\<close>

definition passes :: "'t col_filter option \<Rightarrow> 't \<Rightarrow> bool" where
  "passes filterCb t = (case filterCb of None \<Rightarrow> True | Some f \<Rightarrow> f t = (True, None))"

definition collectInv :: "'t col_filter option \<Rightarrow> (u32 \<times> 't) list \<Rightarrow> 't collect \<Rightarrow> bool" where
  "collectInv filterCb ts s \<longleftrightarrow> \<not> co_returned s \<and> length (co_ids s) = length (co_vals s)
     \<and> mset (zip (co_ids s) (co_vals s)) = mset (filter (\<lambda>(_, t). passes filterCb t) ts)"

lemma swapRemove_zip:
  assumes "k < length xs" "length xs = length ys"
  shows "zip (swapRemove k xs) (swapRemove k ys) = swapRemove k (zip xs ys)"
proof -
  have "xs \<noteq> []" "ys \<noteq> []" using assms by auto
  then have "last (zip xs ys) = (last xs, last ys)"
    using assms(2) by (simp add: last_conv_nth)
  moreover have "zip (butlast as) (butlast bs) = butlast (zip as bs)" if "length as = length bs" for as :: "'a list" and bs :: "'b list"
    using that by (induction as bs rule: list_induct2) auto
  ultimately show ?thesis using assms by (simp add: swapRemove_def zip_update)
qed

lemma collectInv_added:
  "collectInv filterCb ts s \<Longrightarrow> collectInv filterCb (ts @ [(i, t)]) (collectAdded filterCb i t s)"
  by (cases filterCb)
    (auto simp: collectInv_def collectAdded_def passes_def Let_def case_prod_beta prod_eq_iff split: option.split)

lemma collectInv_removed:
  assumes inv: "collectInv filterCb ts s" and d: "distinct (map fst ts)" and i: "(i, t) \<in> set ts"
  shows "collectInv filterCb (dropId i ts) (collectRemoved i s)"
proof -
  let ?z = "zip (co_ids s) (co_vals s)" and ?f = "filter (\<lambda>(_, t). passes filterCb t)"
  have z: "mset ?z = mset (?f ts)" "length (co_ids s) = length (co_vals s)" "\<not> co_returned s"
    using inv by (simp_all add: collectInv_def)
  have fd: "?f (dropId i ts) = dropId i (?f ts)" by (induction ts) (auto simp: dropId_def)
  have ids: "set (co_ids s) = fst ` set (?f ts)"
    using z(1,2) by (metis list.set_map map_fst_zip mset_eq_setD)
  show ?thesis
  proof (cases "indexOf (\<lambda>j. j = i) (co_ids s)")
    case None
    then have "i \<notin> fst ` set (?f ts)" using ids by (auto simp: indexOf_None_iff)
    then have "dropId i (?f ts) = ?f ts" by (rule dropId_absent)
    then show ?thesis using inv None fd by (simp add: collectInv_def collectRemoved_def)
  next
    case (Some k)
    have k: "k < length (co_ids s)" "co_ids s ! k = i" using indexOf_SomeD[OF Some] by auto
    have "distinct (map fst (?f ts))" using d by (simp add: distinct_map_filter)
    then have dz: "distinct (map fst ?z)" using z(1) by (metis mset_eq_imp_distinct_iff mset_map)
    have "?z ! k \<in> set ?z" using k(1) z(2) by (intro nth_mem) simp
    moreover have "fst (?z ! k) = i" using k z(2) by simp
    ultimately have "mset ?z - {# ?z ! k #} = filter_mset (\<lambda>e. fst e \<noteq> i) (mset ?z)"
      using mset_remove_key[OF dz] by metis
    then have "mset (swapRemove k ?z) = mset (dropId i (?f ts))"
      using mset_swapRemove[of k ?z] k(1) z by (simp add: mset_dropId)
    then show ?thesis using Some k(1) z fd
      by (simp add: collectInv_def collectRemoved_def swapRemove_zip)
  qed
qed

fun refEvents :: "'v co_event list \<Rightarrow> 'v ref_event list" where
  "refEvents [] = []"
| "refEvents (CoRef e # es) = e # refEvents es"
| "refEvents (CoIdle _ _ # es) = refEvents es"

interpretation collect: ref_client "collect_handler cast filterCb" collect_init
  "\<lambda>cur s. collectInv filterCb (typed cast cur) s" "\<lambda>cur s. True"
  for cast :: "'v \<Rightarrow> 't option" and filterCb
proof (unfold_locales, goal_cases)
  case 1
  show ?case by (simp add: collectInv_def collect_init_def)
next
  case (2 cur s i v)
  then show ?case
    by (auto simp: collect_handler_def NewCallbackHandler_def collectInv_added split: option.split)
next
  case (3 cur s i v)
  show ?case
  proof (cases "cast v")
    case None
    then have "dropId i (typed cast cur) = typed cast cur" by (rule dropId_absent[OF typed_other[OF 3(1,4)]])
    then show ?thesis using 3(3) None by (simp add: collect_handler_def NewCallbackHandler_def)
  next
    case (Some t)
    then have "(i, t) \<in> set (typed cast cur)" using 3(4) by auto
    then show ?thesis using Some collectInv_removed[OF 3(3) distinct_typed[OF 3(1)]]
      by (simp add: collect_handler_def NewCallbackHandler_def)
  qed
qed simp

text \<open>Idle callbacks between the events do not touch what is collected.\<close>

definition refEvent :: "'v co_event \<Rightarrow> 'v ref_event option" where
  "refEvent e = (case e of CoRef r \<Rightarrow> Some r | CoIdle _ _ \<Rightarrow> None)"

lemma refEvents_filter: "refEvents es = List.map_filter refEvent es"
  by (induction es rule: refEvents.induct) (simp_all add: map_filter_simps refEvent_def)

lemma collectRun_inv:
  assumes "stream (refEvents es)" "\<not> disposed_in (refEvents es)"
  shows "collectInv filterCb (typed cast (present (refEvents es))) (collectRun cast filterCb es collect_init)"
proof -
  have "collectInv filterCb (typed cast (present (List.map_filter refEvent es)))
      (fold (collectStep cast filterCb) es collect_init)"
  proof (rule collect.mixed_from)
    show "collectStep cast filterCb e s = (case refEvent e of
        Some r \<Rightarrow> deliver (collect_handler cast filterCb) r s
      | None \<Rightarrow> (case e of CoIdle b errs \<Rightarrow> collectIdle b errs s | _ \<Rightarrow> s))" for e s
      by (cases e) (simp_all add: refEvent_def)
  qed (use assms collect.init in \<open>auto simp: refEvents_filter collectInv_def collectIdle_def split: co_event.splits\<close>)
  then show ?thesis by (simp add: refEvents_filter collectRun_def)
qed

lemma collectRun_append: "collectRun cast f (es @ fs) s = collectRun cast f fs (collectRun cast f es s)"
  by (simp add: collectRun_def)

lemma refEvents_append [simp]: "refEvents (es @ fs) = refEvents es @ refEvents fs"
  by (induction es rule: refEvents.induct) auto

lemma stream_from_append1: "stream_from cur (es @ fs) \<Longrightarrow> stream_from cur es"
  by (induction cur es rule: stream_from.induct) auto

lemma collectRun_returned [simp]: "co_returned (collectRun cast f es s) = co_returned s"
proof -
  have "co_returned (collectStep cast f e t) = co_returned t" for e t
    by (cases e; (rename_tac r, case_tac r)?)
      (auto simp: collect_handler_def NewCallbackHandler_def collectAdded_def collectRemoved_def
        collectDisposed_def valDisposeCallback_def collectIdle_def Let_def split: option.split prod.split)
  then show ?thesis by (induction es arbitrary: s) (auto simp: collectRun_def)
qed

text \<open>Iterations that wait leave the state as it is, so the iteration that returns sees the sections before it.\<close>

lemma Exec_flat:
  assumes "ExecCollectValuesWithFilter cast f waitOne ess s = (r, t)" "r \<noteq> CoWait" "\<not> co_returned s"
  shows "\<exists>es. prefix es (concat ess) \<and> collectCheck waitOne (collectRun cast f es s) = (r, t)"
  using assms
proof (induction cast f waitOne ess s rule: ExecCollectValuesWithFilter.induct)
  case (2 cast f waitOne es rest s)
  let ?u = "collectRun cast f es s"
  show ?case
  proof (cases "fst (collectCheck waitOne ?u) = CoWait")
    case True
    then have wait: "collectCheck waitOne ?u = (CoWait, ?u)"
      using 2(4) collectRun_returned[of cast f es s]
      by (cases ?u) (auto simp: collectCheck_def Let_def split: option.splits if_splits)
    then have e: "ExecCollectValuesWithFilter cast f waitOne rest ?u = (r, t)" using 2(2) by simp
    obtain fs where "prefix fs (concat rest)" "collectCheck waitOne (collectRun cast f fs ?u) = (r, t)"
      using 2(1)[OF wait[symmetric] refl e 2(3)] 2(4) by auto
    then show ?thesis by (intro exI[of _ "es @ fs"]) (simp add: collectRun_append)
  next
    case False
    then have "collectCheck waitOne ?u = (r, t)"
      using 2(2) by (cases "collectCheck waitOne ?u") (auto split: collect_result.splits)
    then show ?thesis by (intro exI[of _ es]) simp
  qed
qed simp

lemma map_snd_filter: "map snd (filter (\<lambda>(_, t). P t) xs) = filter P (map snd xs)"
  by (induction xs) auto

lemma indexOf_mem: "indexOf (\<lambda>j. j = i) xs = Some k \<Longrightarrow> i \<in> set xs"
  by (induction xs arbitrary: k) (auto split: if_splits)

text \<open>
  C27: collected values. Whatever sections come between the iterations of the loop, when the call
  returns values, at the section after which it returns the directive is idle, and the values are
  exactly those present there that have the type and pass the filter, each once; with \<^verbatim>\<open>waitOne\<close> there
  is at least one.
\<close>

theorem ExecCollectValues_present:
  assumes "ExecCollectValuesWithFilter cast filterCb waitOne ess collect_init = (CoValues vals, t)"
    "stream (refEvents (concat ess))" "\<not> disposed_in (refEvents (concat ess))"
  shows "\<exists>es. prefix es (concat ess) \<and> co_idle (collectRun cast filterCb es collect_init)
    \<and> mset vals = mset (filter (passes filterCb) (map snd (typed cast (present (refEvents es)))))
    \<and> (waitOne \<longrightarrow> vals \<noteq> [])"
proof -
  obtain es where es: "prefix es (concat ess)"
    "collectCheck waitOne (collectRun cast filterCb es collect_init) = (CoValues vals, t)"
    using Exec_flat[OF assms(1)] by (auto simp: collect_init_def)
  let ?s = "collectRun cast filterCb es collect_init"
  obtain fs where fs: "concat ess = es @ fs" using es(1) by (auto simp: prefix_def)
  have "collectInv filterCb (typed cast (present (refEvents es))) ?s"
    using assms(2,3) stream_from_append1[of "[]" "refEvents es" "refEvents fs"]
    by (intro collectRun_inv) (auto simp: fs disposed_in_def)
  then have m: "mset (zip (co_ids ?s) (co_vals ?s))
      = mset (filter (\<lambda>(_, t). passes filterCb t) (typed cast (present (refEvents es))))"
    and l: "length (co_ids ?s) = length (co_vals ?s)" by (simp_all add: collectInv_def)
  have "mset (co_vals ?s) = image_mset snd (mset (zip (co_ids ?s) (co_vals ?s)))"
    using l by (simp flip: mset_map)
  also have "\<dots> = mset (map snd (filter (\<lambda>(_, t). passes filterCb t) (typed cast (present (refEvents es)))))"
    unfolding m by (simp only: mset_map)
  finally have "mset (co_vals ?s)
      = mset (filter (passes filterCb) (map snd (typed cast (present (refEvents es)))))"
    by (simp only: map_snd_filter)
  then show ?thesis using es by (auto simp: collectCheck_def Let_def split: option.splits if_splits)
qed

lemma ExecCollectValues_present_witness:
  "fst (ExecCollectValuesWithFilter Some (Some (\<lambda>v. (v > 5, None))) True
     [[CoRef (Added 1 (7::nat))], [CoRef (Added 2 3), CoRef (Added 3 9), CoRef (Removed 1 7)], [CoIdle True []]]
     collect_init) = CoValues [9]
   \<and> (\<exists>es. mset [9::nat] = mset (filter (passes (Some (\<lambda>v. (v > 5, None)))) (map snd (typed Some (present es)))))"
proof -
  let ?ess = "[[CoRef (Added 1 (7::nat))], [CoRef (Added 2 3), CoRef (Added 3 9), CoRef (Removed 1 7)], [CoIdle True []]]"
  let ?r = "ExecCollectValuesWithFilter Some (Some (\<lambda>v. (v > 5, None))) True ?ess collect_init"
  have "fst ?r = CoValues [9]" by code_simp
  then have r: "?r = (CoValues [9], snd ?r)" by (metis prod.collapse)
  have "stream (refEvents (concat ?ess))" "\<not> disposed_in (refEvents (concat ?ess))"
    by (simp_all add: dropId_def disposed_in_def)
  from ExecCollectValues_present[OF r this] obtain es where
    "mset [9::nat] = mset (filter (passes (Some (\<lambda>v. (v > 5, None)))) (map snd (typed Some (present (refEvents es)))))"
    by blast
  with \<open>fst ?r = CoValues [9]\<close> show ?thesis by (intro conjI exI[of _ "refEvents es"])
qed

definition invalidates :: "('v \<Rightarrow> 't option) \<Rightarrow> u32 list \<Rightarrow> 'v co_event \<Rightarrow> bool" where
  "invalidates cast ids e = (case e of
     CoRef (Removed i v) \<Rightarrow> cast v \<noteq> None \<and> i \<in> set ids | CoRef Disposed \<Rightarrow> True | _ \<Rightarrow> False)"

text \<open>
  After the values were returned the slice that was returned does not change, and the dispose
  callback is called at most once: when the first of the returned values is removed or the directive
  is disposed.
\<close>

theorem collect_dispose_once:
  assumes "co_returned s" "\<not> co_disposed s"
  shows "let t = collectRun cast filterCb es s in
    co_vals t = co_vals s \<and> co_dispose t = co_dispose s + (if list_ex (invalidates cast (co_ids s)) es then 1 else 0)"
proof -
  have step: "co_returned (collectStep cast filterCb e u) \<and> co_ids (collectStep cast filterCb e u) = co_ids u
    \<and> co_vals (collectStep cast filterCb e u) = co_vals u
    \<and> co_disposed (collectStep cast filterCb e u) = (co_disposed u \<or> invalidates cast (co_ids u) e)
    \<and> co_dispose (collectStep cast filterCb e u)
        = co_dispose u + (if invalidates cast (co_ids u) e \<and> \<not> co_disposed u then 1 else 0)"
    if "co_returned u" for e u
    using that indexOf_None_iff[of _ "co_ids u"] indexOf_mem[of _ "co_ids u"]
    by (cases e; (rename_tac r, case_tac r)?)
      (auto simp: collect_handler_def NewCallbackHandler_def collectAdded_def collectRemoved_def
        collectDisposed_def valDisposeCallback_def collectIdle_def invalidates_def Let_def
        split: option.split prod.split)
  have "co_vals (collectRun cast filterCb es u) = co_vals u
    \<and> co_dispose (collectRun cast filterCb es u)
        = co_dispose u + (if list_ex (invalidates cast (co_ids u)) es \<and> \<not> co_disposed u then 1 else 0)"
    if "co_returned u" for u
    using that
  proof (induction es arbitrary: u)
    case (Cons e es)
    then show ?case using step[OF Cons.prems, of e] Cons.IH[of "collectStep cast filterCb e u"]
      by (auto simp: collectRun_def)
  qed (simp add: collectRun_def)
  then show ?thesis using assms by (simp add: Let_def)
qed

lemma collect_dispose_once_witness:
  "(let s = snd (collectCheck False (collectRun Some None [CoRef (Added 1 (7::nat)), CoIdle True []] collect_init));
        t = collectRun Some None [CoRef (Added 2 8), CoRef (Removed 1 7), CoRef Disposed] s
    in co_vals t = [7] \<and> co_dispose t = 1)"
proof -
  let ?s = "snd (collectCheck False (collectRun Some None [CoRef (Added 1 (7::nat)), CoIdle True []] collect_init))"
  have "co_returned ?s" "\<not> co_disposed ?s" by code_simp+
  note th = collect_dispose_once[OF this, of Some None "[CoRef (Added 2 8), CoRef (Removed 1 7), CoRef Disposed]"]
  have "co_vals ?s = [7] \<and> co_dispose ?s = 0 \<and> co_ids ?s = [1]" by code_simp
  then show ?thesis using th by (simp add: Let_def invalidates_def)
qed

text \<open>
  The documented error of a filter is lost when the idle callback runs after it, as it does when it
  is added: the values are returned as if the filter had only left the value out.
\<close>

theorem collect_filter_error_lost:
  "let filterCb = Some (\<lambda>t. if t = 1 then (False, Some (GoErr ''filter'')) else (True, None)) in
    fst (ExecCollectValuesWithFilter Some filterCb False
      [[CoRef (Added 1 (1::nat))], [CoIdle True []]] collect_init) = CoError [] (GoErr ''filter'')
    \<and> fst (ExecCollectValuesWithFilter Some filterCb False
      [[CoRef (Added 1 1), CoIdle True []]] collect_init) = CoValues []"
  by code_simp

section \<open>Watching a collection: \<^verbatim>\<open>ExecCollectValuesWatchWithFilter\<close>\<close>

text \<open>
  The variables of the closures, and the goroutine that calls the callback: it is before its critical
  section, in the callback with what it was called with, at the \<^verbatim>\<open>select\<close>, or gone. \<open>cw_bcast\<close> counts
  the broadcasts: a wait channel is the number at which it was taken, and is closed when the number has
  grown. \<open>cw_calls\<close> are the calls of the callback that have ended, \<open>cw_error\<close> is what \<^verbatim>\<open>errorCb\<close> was
  called with, \<open>cw_ctxDone\<close> whether the context is cancelled.
\<close>

datatype 't cw_pc =
    CwTop
  | CwCalling "goerr option list" "'t list" nat
  | CwSelect nat
  | CwExited

record 't colwatch =
  cw_vals :: "'t list"
  cw_ids :: "u32 list"
  cw_errs :: "goerr option list"
  cw_idle :: bool
  cw_emitted :: bool
  cw_pending :: bool
  cw_bcast :: nat
  cw_pc :: "'t cw_pc"
  cw_calls :: "(goerr option list \<times> 't list) list"
  cw_error :: "goerr option"
  cw_ctxDone :: bool

definition colwatch_init :: "'t colwatch" where
  "colwatch_init = \<lparr>cw_vals = [], cw_ids = [], cw_errs = [], cw_idle = False, cw_emitted = False,
     cw_pending = False, cw_bcast = 0, cw_pc = CwTop, cw_calls = [], cw_error = None, cw_ctxDone = False\<rparr>"

text \<open>\<^verbatim>\<open>errorsEqual\<close> compares the texts of two error slices.\<close>

fun errorsEqual :: "(goerr \<Rightarrow> string) \<Rightarrow> goerr option list \<Rightarrow> goerr option list \<Rightarrow> bool" where
  "errorsEqual txt [] [] \<longleftrightarrow> True"
| "errorsEqual txt (a # as) (b # bs) \<longleftrightarrow>
     map_option txt a = map_option txt b \<and> errorsEqual txt as bs"
| "errorsEqual txt _ _ \<longleftrightarrow> False"

text \<open>\<^verbatim>\<open>pendingEmit = true; broadcast()\<close>.\<close>

definition requestEmit :: "'t colwatch \<Rightarrow> 't colwatch" where
  "requestEmit s = s\<lparr>cw_pending := True, cw_bcast := Suc (cw_bcast s)\<rparr>"

definition scheduleEmitIfReady :: "bool \<Rightarrow> 't colwatch \<Rightarrow> 't colwatch" where
  "scheduleEmitIfReady waitIdle s = (if \<not> waitIdle \<or> cw_emitted s then requestEmit s else s)"

definition colwatchAdded :: "bool \<Rightarrow> 't col_filter option \<Rightarrow> u32 \<Rightarrow> 't \<Rightarrow> 't colwatch \<Rightarrow> 't colwatch" where
  "colwatchAdded waitIdle filterCb i t s =
     (let append = (\<lambda>s. scheduleEmitIfReady waitIdle (s\<lparr>cw_vals := cw_vals s @ [t], cw_ids := cw_ids s @ [i]\<rparr>)) in
      case filterCb of
        None \<Rightarrow> append s
      | Some f \<Rightarrow> (case f t of
            (_, Some err) \<Rightarrow> if cw_errs s = [] then requestEmit (s\<lparr>cw_errs := [Some err]\<rparr>) else s
          | (ok, None) \<Rightarrow> if ok then append s else s))"

definition colwatchRemoved :: "bool \<Rightarrow> u32 \<Rightarrow> 't colwatch \<Rightarrow> 't colwatch" where
  "colwatchRemoved waitIdle i s =
     (case indexOf (\<lambda>j. j = i) (cw_ids s) of
        None \<Rightarrow> s
      | Some k \<Rightarrow> scheduleEmitIfReady waitIdle
          (s\<lparr>cw_ids := swapRemove k (cw_ids s), cw_vals := swapRemove k (cw_vals s)\<rparr>))"

definition colwatchDisposed :: "'t colwatch \<Rightarrow> 't colwatch" where
  "colwatchDisposed s =
     (if cw_errs s = [] then requestEmit (s\<lparr>cw_errs := [Some DirectiveDisposed]\<rparr>) else s)"

definition colwatch_handler ::
    "('v \<Rightarrow> 't option) \<Rightarrow> bool \<Rightarrow> 't col_filter option \<Rightarrow> ('v, 't colwatch) ref_handler" where
  "colwatch_handler cast waitIdle filterCb = NewCallbackHandler
     (Some (\<lambda>i v s. case cast v of None \<Rightarrow> s | Some t \<Rightarrow> colwatchAdded waitIdle filterCb i t s))
     (Some (\<lambda>i v s. case cast v of None \<Rightarrow> s | Some _ \<Rightarrow> colwatchRemoved waitIdle i s))
     (Some colwatchDisposed)"

text \<open>The idle callback, which is released when the goroutine ends.\<close>

definition colwatchIdle :: "(goerr \<Rightarrow> string) \<Rightarrow> bool \<Rightarrow> goerr option list \<Rightarrow> 't colwatch \<Rightarrow> 't colwatch" where
  "colwatchIdle txt isIdle errs s =
     (if cw_pc s = CwExited then s
      else let wasIdle = cw_idle s; s = s\<lparr>cw_idle := isIdle\<rparr> in
        if \<not> errorsEqual txt (cw_errs s) errs then requestEmit (s\<lparr>cw_errs := errs\<rparr>)
        else if \<not> wasIdle \<and> cw_idle s \<and> \<not> cw_emitted s then requestEmit s else s)"

text \<open>
  The next step of the goroutine: the critical section, which takes the wait channel and the pending emit,
  with the values only if there are no errors; the callback, whose error ends it; the \<^verbatim>\<open>select\<close>, which
  passes only when its channel is closed. At the \<^verbatim>\<open>select\<close> it may also find its context done.
\<close>

definition colwatchTurn :: "(goerr option list \<Rightarrow> 't list \<Rightarrow> goerr option) \<Rightarrow> 't colwatch \<Rightarrow> 't colwatch" where
  "colwatchTurn callback s =
     (case cw_pc s of
        CwTop \<Rightarrow>
          let currErr = cw_errs s; shouldEmit = cw_pending s; waitCh = cw_bcast s; s = s\<lparr>cw_pending := False\<rparr> in
          if shouldEmit
          then s\<lparr>cw_emitted := True, cw_pc := CwCalling currErr (if currErr = [] then cw_vals s else []) waitCh\<rparr>
          else s\<lparr>cw_pc := CwSelect waitCh\<rparr>
      | CwCalling errs vals waitCh \<Rightarrow>
          let s = s\<lparr>cw_calls := cw_calls s @ [(errs, vals)]\<rparr> in
          (case callback errs vals of
             Some err \<Rightarrow> s\<lparr>cw_error := Some err, cw_pc := CwExited\<rparr>
           | None \<Rightarrow> s\<lparr>cw_pc := CwSelect waitCh\<rparr>)
      | CwSelect waitCh \<Rightarrow> if waitCh < cw_bcast s then s\<lparr>cw_pc := CwTop\<rparr> else s
      | CwExited \<Rightarrow> s)"

definition colwatchLeave :: "'t colwatch \<Rightarrow> 't colwatch" where
  "colwatchLeave s = (case cw_pc s of
     CwSelect _ \<Rightarrow> if cw_ctxDone s then s\<lparr>cw_pc := CwExited\<rparr> else s | _ \<Rightarrow> s)"

datatype 'v cw_event = CwRef "'v ref_event" | CwIdle bool "goerr option list" | CwTurn | CwCtxDone | CwLeave

fun colwatchStep where
  "colwatchStep cast txt waitIdle filterCb callback (CwRef e) s = deliver (colwatch_handler cast waitIdle filterCb) e s"
| "colwatchStep cast txt waitIdle filterCb callback (CwIdle isIdle errs) s = colwatchIdle txt isIdle errs s"
| "colwatchStep cast txt waitIdle filterCb callback CwTurn s = colwatchTurn callback s"
| "colwatchStep cast txt waitIdle filterCb callback CwCtxDone s = s\<lparr>cw_ctxDone := True\<rparr>"
| "colwatchStep cast txt waitIdle filterCb callback CwLeave s = colwatchLeave s"

definition ExecCollectValuesWatchWithFilter where
  "ExecCollectValuesWatchWithFilter cast txt waitIdle filterCb callback es =
     fold (colwatchStep cast txt waitIdle filterCb callback) es colwatch_init"

definition ExecCollectValuesWatch where
  "ExecCollectValuesWatch cast txt waitIdle callback es =
     ExecCollectValuesWatchWithFilter cast txt waitIdle None callback es"


text \<open>The collection kept for the callback is the one of \<^const>\<open>collectInv\<close>.\<close>

definition cwInv :: "'t col_filter option \<Rightarrow> (u32 \<times> 't) list \<Rightarrow> 't colwatch \<Rightarrow> bool" where
  "cwInv filterCb ts s \<longleftrightarrow> collectInv filterCb ts (collect_init\<lparr>co_vals := cw_vals s, co_ids := cw_ids s\<rparr>)"

lemma cwInv_same: "cw_vals t = cw_vals s \<Longrightarrow> cw_ids t = cw_ids s \<Longrightarrow> cwInv filterCb ts t = cwInv filterCb ts s"
  by (simp add: cwInv_def)

lemma cwInv_added:
  assumes "cwInv filterCb ts s"
  shows "cwInv filterCb (ts @ [(i, t)]) (colwatchAdded waitIdle filterCb i t s)"
  using assms
  by (cases filterCb)
    (auto simp: cwInv_def collectInv_def collect_init_def colwatchAdded_def scheduleEmitIfReady_def requestEmit_def passes_def
      Let_def case_prod_beta prod_eq_iff split: option.split)

lemma cwInv_removed:
  assumes "cwInv filterCb ts s" "distinct (map fst ts)" "(i, t) \<in> set ts"
  shows "cwInv filterCb (dropId i ts) (colwatchRemoved waitIdle i s)"
  using collectInv_removed[OF assms(1)[unfolded cwInv_def] assms(2,3)]
  by (auto simp: cwInv_def colwatchRemoved_def collectRemoved_def scheduleEmitIfReady_def requestEmit_def collect_init_def
      split: option.splits)

interpretation colwatch: ref_client "colwatch_handler cast waitIdle filterCb" colwatch_init
  "\<lambda>cur s. cwInv filterCb (typed cast cur) s" "\<lambda>cur s. True"
  for cast :: "'v \<Rightarrow> 't option" and waitIdle filterCb
proof (unfold_locales, goal_cases)
  case 1
  show ?case by (simp add: cwInv_def collectInv_def collect_init_def colwatch_init_def)
next
  case (2 cur s i v)
  then show ?case
    by (auto simp: colwatch_handler_def NewCallbackHandler_def cwInv_added split: option.split)
next
  case (3 cur s i v)
  show ?case
  proof (cases "cast v")
    case None
    then have "dropId i (typed cast cur) = typed cast cur" by (rule dropId_absent[OF typed_other[OF 3(1,4)]])
    then show ?thesis using 3(3) None by (simp add: colwatch_handler_def NewCallbackHandler_def)
  next
    case (Some t)
    then have "(i, t) \<in> set (typed cast cur)" using 3(4) by auto
    then show ?thesis using Some cwInv_removed[OF 3(3) distinct_typed[OF 3(1)]]
      by (simp add: colwatch_handler_def NewCallbackHandler_def)
  qed
qed simp




lemmas cw_step_defs = colwatch_handler_def NewCallbackHandler_def colwatchAdded_def colwatchRemoved_def
  colwatchDisposed_def colwatchIdle_def colwatchTurn_def colwatchLeave_def scheduleEmitIfReady_def requestEmit_def

lemma errorsEqual_Nil [simp]: "errorsEqual txt [] errs \<longleftrightarrow> errs = []" "errorsEqual txt errs [] \<longleftrightarrow> errs = []"
  by (cases errs; simp)+






definition cwBlocked :: "'t colwatch \<Rightarrow> bool" where
  "cwBlocked s \<longleftrightarrow> cw_pc s = CwSelect (cw_bcast s) \<and> \<not> cw_pending s \<or> cw_pc s = CwExited"

lemma turn_blocked [simp]: "cwBlocked s \<Longrightarrow> colwatchTurn callback s = s"
  by (auto simp: cwBlocked_def colwatchTurn_def)





definition noIdleOrErr :: "'t col_filter option \<Rightarrow> ('v \<Rightarrow> 't option) \<Rightarrow> 'v cw_event \<Rightarrow> bool" where
  "noIdleOrErr filterCb cast e = (case e of
     CwIdle isIdle errs \<Rightarrow> \<not> isIdle \<and> errs = []
   | CwRef Disposed \<Rightarrow> False
   | CwRef (Added i v) \<Rightarrow> (case (cast v, filterCb) of (Some t, Some f) \<Rightarrow> snd (f t) = None | _ \<Rightarrow> True)
   | _ \<Rightarrow> True)"

text \<open>
  With \<^verbatim>\<open>waitIdle\<close> nothing is emitted before the directive was idle or an error came up: without
  either, the callback was not called.
\<close>

theorem colwatch_waits_for_idle:
  assumes "list_all (noIdleOrErr filterCb cast) es"
  shows "cw_calls (ExecCollectValuesWatchWithFilter cast txt True filterCb callback es) = []"
proof -
  let ?I = "\<lambda>s. cw_calls s = [] \<and> \<not> cw_emitted s \<and> \<not> cw_pending s \<and> cw_errs s = [] \<and> \<not> cw_idle s
    \<and> (\<forall>errs vals n. cw_pc s \<noteq> CwCalling errs vals n)"
  have step: "?I (colwatchStep cast txt True filterCb callback e s)"
    if "?I s" "noIdleOrErr filterCb cast e" for e s
  proof (cases e)
    case (CwRef r)
    then show ?thesis using that
      by (cases r) (auto simp: noIdleOrErr_def cw_step_defs Let_def split: option.splits prod.splits)
  qed (use that in \<open>auto simp: noIdleOrErr_def cw_step_defs Let_def split: cw_pc.split\<close>)
  have "?I (fold (colwatchStep cast txt True filterCb callback) es colwatch_init)"
    using assms step
    by (intro fold_invariant[where Q = "noIdleOrErr filterCb cast" and P = ?I])
      (auto simp: list_all_iff colwatch_init_def)
  then show ?thesis by (simp add: ExecCollectValuesWatchWithFilter_def)
qed

lemma colwatch_waits_for_idle_witness:
  "cw_calls (ExecCollectValuesWatchWithFilter Some (\<lambda>_. []) True None (\<lambda>_ _. None)
     [CwRef (Added 1 (7::nat)), CwTurn, CwIdle False [], CwTurn, CwRef (Removed 1 7), CwTurn]) = []"
  by (rule colwatch_waits_for_idle) (simp add: noIdleOrErr_def)

end
