(* ===== verification/BusHandlers.thy ===== *)
theory BusHandlers
  imports Bus_Events
begin

text \<open>
  The reference handlers that hand values on to a resolver's handler: \<^verbatim>\<open>bus.PassThruHandler\<close>,
  \<^verbatim>\<open>bus.TransformHandler\<close> and the handlers inside \<^verbatim>\<open>directive.TransformResolver\<close> and
  \<^verbatim>\<open>TypedTransformResolver\<close>. The target is what \<^verbatim>\<open>directive.ValueHandler\<close> promises: values with
  identifiers that are not zero and never given twice; whether a value is accepted, and under which
  identifier, is the parameter \<open>alloc\<close>.
\<close>

section \<open>The target of the values\<close>

text \<open>The values set, and every identifier that was given.\<close>

record 'v sink =
  sk_vals :: "(u32 \<times> 'v) list"
  sk_used :: "u32 list"

definition sink_init :: "'v sink" where
  "sink_init = \<lparr>sk_vals = [], sk_used = []\<rparr>"

type_synonym 'v alloc = "'v sink \<Rightarrow> 'v \<Rightarrow> u32 option"

definition alloc_ok :: "'v alloc \<Rightarrow> bool" where
  "alloc_ok alloc \<longleftrightarrow> (\<forall>k v i. alloc k v = Some i \<longrightarrow> i \<noteq> 0 \<and> i \<notin> set (sk_used k))"

definition AddValue :: "'v alloc \<Rightarrow> 'v \<Rightarrow> 'v sink \<Rightarrow> u32 option \<times> 'v sink" where
  "AddValue alloc v k = (case alloc k v of None \<Rightarrow> (None, k)
     | Some i \<Rightarrow> (Some i, \<lparr>sk_vals = sk_vals k @ [(i, v)], sk_used = i # sk_used k\<rparr>))"

definition RemoveValue :: "u32 \<Rightarrow> 'v sink \<Rightarrow> 'v sink" where
  "RemoveValue i k = k\<lparr>sk_vals := dropId i (sk_vals k)\<rparr>"

definition ClearValues :: "'v sink \<Rightarrow> 'v sink" where
  "ClearValues k = k\<lparr>sk_vals := []\<rparr>"

text \<open>
  A target that accepts the values of \<open>accept\<close>, as long as it has identifiers: there are one less than
  two to the power of 32.
\<close>

definition alloc_law :: "('v \<Rightarrow> bool) \<Rightarrow> 'v alloc \<Rightarrow> bool" where
  "alloc_law accept alloc \<longleftrightarrow> alloc_ok alloc \<and> (\<forall>k v. \<not> accept v \<longrightarrow> alloc k v = None)
     \<and> (\<forall>k v. accept v \<and> length (sk_used k) < 2 ^ 32 - 1 \<longrightarrow> alloc k v \<noteq> None)"

text \<open>Giving the first free identifier is such an allocation.\<close>

definition firstFree :: "('v \<Rightarrow> bool) \<Rightarrow> 'v alloc" where
  "firstFree accept k v =
     (if accept v then List.find (\<lambda>i. i \<noteq> 0 \<and> i \<notin> set (sk_used k)) (map of_nat [1..<length (sk_used k) + 2])
      else None)"

lemma firstFree_ok: "alloc_ok (firstFree accept)"
  by (auto simp: alloc_ok_def firstFree_def find_Some_iff split: if_splits)

lemma firstFree_law: "alloc_law accept (firstFree accept)"
proof -
  have "firstFree accept k v \<noteq> None" if v: "accept v" and small: "length (sk_used k) < 2 ^ 32 - 1" for k v
  proof -
    let ?n = "length (sk_used k)" and ?w = "of_nat :: nat \<Rightarrow> u32"
    have word: "unat (?w m) = m" if "m \<in> {1..<?n + 2}" for m
      using that small by (simp add: unat_of_nat take_bit_nat_eq_self)
    then have "inj_on ?w {1..<?n + 2}" by (metis inj_onI)
    then have "card (?w ` {1..<?n + 2}) = ?n + 1" by (simp add: card_image)
    then have "\<not> ?w ` {1..<?n + 2} \<subseteq> set (sk_used k)"
      using card_mono[of "set (sk_used k)" "?w ` {1..<?n + 2}"] card_length[of "sk_used k"] by auto
    then obtain m where m: "m \<in> {1..<?n + 2}" "?w m \<notin> set (sk_used k)" by blast
    then have "?w m \<noteq> 0" using word[of m] by (metis atLeastLessThan_iff not_one_le_zero unat_0)
    moreover have "?w m \<in> set (map ?w [1..<?n + 2])" using m(1) by (simp only: set_map set_upt imageI)
    ultimately have "List.find (\<lambda>i. i \<noteq> 0 \<and> i \<notin> set (sk_used k)) (map ?w [1..<?n + 2]) \<noteq> None"
      unfolding find_None_iff using m(2) by blast
    then show ?thesis using v by (simp only: firstFree_def if_True not_False_eq_True)
  qed
  then show ?thesis by (auto simp: alloc_law_def firstFree_ok) (auto simp: firstFree_def)
qed

section \<open>\<^verbatim>\<open>PassThruHandler\<close> and \<^verbatim>\<open>TransformHandler\<close>\<close>

text \<open>
  The map \<^verbatim>\<open>idMapping\<close> from the identifiers of the directive to those of the target, which entries never
  leave, and the number of calls of the dispose callback. \<open>ph_acc\<close> remembers for the present values
  under which identifier each was accepted; the code does not have it.
\<close>

record 'v passthru =
  ph_map :: "(u32 \<times> u32) list"
  ph_sink :: "'v sink"
  ph_disposed :: nat
  ph_acc :: "u32 \<Rightarrow> u32 option"

definition passthru_init :: "'v passthru" where
  "passthru_init = \<lparr>ph_map = [], ph_sink = sink_init, ph_disposed = 0, ph_acc = (\<lambda>_. None)\<rparr>"

definition handOn :: "'v alloc \<Rightarrow> u32 \<Rightarrow> 'v \<Rightarrow> 'v passthru \<Rightarrow> 'v passthru" where
  "handOn alloc i v s =
     (case AddValue alloc v (ph_sink s) of
        (None, k) \<Rightarrow> s\<lparr>ph_sink := k\<rparr>
      | (Some j, k) \<Rightarrow> s\<lparr>ph_sink := k, ph_map := AList.update i j (ph_map s), ph_acc := (ph_acc s)(i := Some j)\<rparr>)"

definition handBack :: "u32 \<Rightarrow> 'v passthru \<Rightarrow> 'v passthru" where
  "handBack i s =
     (let s = s\<lparr>ph_acc := (ph_acc s)(i := None)\<rparr> in
      case map_of (ph_map s) i of None \<Rightarrow> s
      | Some j \<Rightarrow> s\<lparr>ph_sink := RemoveValue j (ph_sink s)\<rparr>)"

definition handBackAll ::
    "((u32 \<times> u32) list \<Rightarrow> (u32 \<times> u32) list) \<Rightarrow> bool \<Rightarrow> bool \<Rightarrow> 'v passthru \<Rightarrow> 'v passthru" where
  "handBackAll ord hasHandler hasDispose s =
     (let s = (if hasHandler then s\<lparr>ph_sink := fold (\<lambda>(_, j). RemoveValue j) (ord (ph_map s)) (ph_sink s)\<rparr> else s) in
      if hasDispose then s\<lparr>ph_disposed := ph_disposed s + 1\<rparr> else s)"

text \<open>The handler may be nil.\<close>

definition NewPassThruHandler ::
    "'v alloc option \<Rightarrow> ((u32 \<times> u32) list \<Rightarrow> (u32 \<times> u32) list) \<Rightarrow> bool \<Rightarrow> ('v, 'v passthru) ref_handler" where
  "NewPassThruHandler handler ord hasDispose = \<lparr>
     HandleValueAdded = (\<lambda>i v s. case handler of None \<Rightarrow> s | Some alloc \<Rightarrow> handOn alloc i v s),
     HandleValueRemoved = (\<lambda>i v s. case handler of None \<Rightarrow> s | Some _ \<Rightarrow> handBack i s),
     HandleInstanceDisposed = handBackAll ord (handler \<noteq> None) hasDispose\<rparr>"

text \<open>
  What \<^verbatim>\<open>TransformHandler\<close> hands on: the transformed value, or, if there is no transformation, the
  method value \<^verbatim>\<open>v.GetValue\<close> (the call is missing in the code).
\<close>

datatype 'w emitted = Emitted 'w | MethodValue u32

definition NewTransformHandler ::
    "'w emitted alloc option \<Rightarrow> (u32 \<Rightarrow> 'v \<Rightarrow> 'w option) option \<Rightarrow> ((u32 \<times> u32) list \<Rightarrow> (u32 \<times> u32) list) \<Rightarrow> bool
      \<Rightarrow> ('v, 'w emitted passthru) ref_handler" where
  "NewTransformHandler handler xfrm ord hasDispose = \<lparr>
     HandleValueAdded = (\<lambda>i v s. case handler of None \<Rightarrow> s
       | Some alloc \<Rightarrow> (case xfrm of
           Some f \<Rightarrow> (case f i v of None \<Rightarrow> s | Some w \<Rightarrow> handOn alloc i (Emitted w) s)
         | None \<Rightarrow> handOn alloc i (MethodValue i) s)),
     HandleValueRemoved = (\<lambda>i v s. case handler of None \<Rightarrow> s | Some _ \<Rightarrow> handBack i s),
     HandleInstanceDisposed = handBackAll ord (handler \<noteq> None) hasDispose\<rparr>"

text \<open>
  The target mirrors the values that are present and were accepted, in order; \<open>g\<close> is what a value is
  handed on as.
\<close>

definition mirror :: "(u32 \<Rightarrow> 'v \<Rightarrow> 'w) \<Rightarrow> (u32 \<Rightarrow> u32 option) \<Rightarrow> (u32 \<times> 'v) list \<Rightarrow> (u32 \<times> 'w) list" where
  "mirror g acc cur = List.map_filter (\<lambda>(i, v). map_option (\<lambda>j. (j, g i v)) (acc i)) cur"

definition mirrorInv :: "(u32 \<Rightarrow> 'v \<Rightarrow> 'w) \<Rightarrow> (u32 \<Rightarrow> 'v \<Rightarrow> bool) \<Rightarrow> (u32 \<times> 'v) list \<Rightarrow> 'w passthru \<Rightarrow> bool" where
  "mirrorInv g taken cur s \<longleftrightarrow> sk_vals (ph_sink s) = mirror g (ph_acc s) cur
     \<and> (\<forall>i j. ph_acc s i = Some j \<longrightarrow> map_of (ph_map s) i = Some j \<and> i \<in> fst ` set cur)
     \<and> (\<forall>i j. map_of (ph_map s) i = Some j \<longrightarrow> j \<in> set (sk_used (ph_sink s)))
     \<and> inj_on (map_of (ph_map s)) (dom (map_of (ph_map s))) \<and> ph_disposed s = 0
     \<and> (length (sk_used (ph_sink s)) < 2 ^ 32 - 1 \<longrightarrow> (\<forall>(i, v) \<in> set cur. taken i v \<longleftrightarrow> ph_acc s i \<noteq> None))"

lemma mirror_Nil [simp]: "mirror g acc [] = []"
  by (simp add: mirror_def map_filter_simps)

lemma mirror_Cons:
  "mirror g acc ((i, v) # cur) = (case acc i of None \<Rightarrow> [] | Some j \<Rightarrow> [(j, g i v)]) @ mirror g acc cur"
  by (simp add: mirror_def map_filter_simps split: option.split)

lemma mirror_append: "mirror g acc (xs @ ys) = mirror g acc xs @ mirror g acc ys"
  by (induction xs) (auto simp: mirror_Cons)

lemma mirror_cong: "(\<And>i. i \<in> fst ` set cur \<Longrightarrow> acc i = acc' i) \<Longrightarrow> mirror g acc cur = mirror g acc' cur"
  by (induction cur) (auto simp: mirror_Cons)

text \<open>Then the target holds the values that are taken.\<close>

lemma mirrorInv_vals:
  assumes "mirrorInv g taken cur s" "length (sk_used (ph_sink s)) < 2 ^ 32 - 1"
  shows "map snd (sk_vals (ph_sink s)) = map (\<lambda>(i, v). g i v) (filter (\<lambda>(i, v). taken i v) cur)"
proof -
  have "map snd (mirror g acc cur) = map (\<lambda>(i, v). g i v) (filter (\<lambda>(i, v). taken i v) cur)"
    if "\<forall>(i, v) \<in> set cur. taken i v \<longleftrightarrow> acc i \<noteq> None" for acc
    using that by (induction cur) (auto simp: mirror_Cons split: option.splits)
  then show ?thesis using assms by (simp add: mirrorInv_def)
qed

lemma mirror_drop:
  assumes "\<And>i'. i' \<noteq> i \<Longrightarrow> acc i' \<noteq> Some j" "acc i = None \<or> acc i = Some j"
  shows "dropId j (mirror g acc cur) = mirror g (acc(i := None)) (dropId i cur)"
proof (induction cur)
  case (Cons e cur)
  obtain i' v where e: "e = (i', v)" by fastforce
  have c: "dropId i (e # cur) = (if i' = i then dropId i cur else e # dropId i cur)"
    by (simp add: dropId_def e)
  show ?case
  proof (cases "i' = i")
    case True
    then show ?thesis using Cons assms(2) c by (auto simp: mirror_Cons e) (simp_all add: dropId_def)
  next
    case False
    have "dropId j (case acc i' of None \<Rightarrow> [] | Some k \<Rightarrow> [(k, g i' v)]) = (case acc i' of None \<Rightarrow> [] | Some k \<Rightarrow> [(k, g i' v)])"
      using assms(1)[OF False] by (cases "acc i'") (auto simp: dropId_def)
    then show ?thesis using Cons c False by (simp add: mirror_Cons e)
  qed
qed simp

lemma mirror_handOn:
  assumes inv: "mirrorInv g taken cur s" and law: "alloc_law accept alloc" and i: "i \<notin> fst ` set cur"
    and t: "taken i v \<longleftrightarrow> accept (g i v)"
  shows "mirrorInv g taken (cur @ [(i, v)]) (handOn alloc i (g i v) s)"
proof -
  have acc: "ph_acc s i = None" using inv i by (cases "ph_acc s i") (auto simp: mirrorInv_def)
  have ok: "alloc_ok alloc" using law by (simp add: alloc_law_def)
  show ?thesis
  proof (cases "alloc (ph_sink s) (g i v)")
    case None
    then have "length (sk_used (ph_sink s)) < 2 ^ 32 - 1 \<Longrightarrow> \<not> taken i v"
      using law t by (metis alloc_law_def)
    then show ?thesis using inv acc None
      by (auto simp: mirrorInv_def handOn_def AddValue_def mirror_append mirror_Cons)
  next
    case (Some j)
    then have t: "taken i v" using law t by (metis alloc_law_def option.simps(3))
    have j: "j \<notin> set (sk_used (ph_sink s))" using ok Some by (auto simp: alloc_ok_def)
    have "mirror g ((ph_acc s)(i := Some j)) cur = mirror g (ph_acc s) cur"
      using i by (intro mirror_cong) auto
    moreover have "map_of (ph_map s) i' \<noteq> Some j" for i' using inv j by (auto simp: mirrorInv_def)
    then have "inj_on ((map_of (ph_map s))(i \<mapsto> j)) (insert i (dom (map_of (ph_map s))))"
      using inv by (auto simp: mirrorInv_def inj_on_def)
    moreover have "i' \<noteq> i" if "(i', w) \<in> set cur" for i' w using i that by force
    ultimately show ?thesis using inv Some t
      by (auto simp: mirrorInv_def handOn_def AddValue_def mirror_append mirror_Cons update_conv')
  qed
qed

lemma mirror_reject:
  "mirrorInv g taken cur s \<Longrightarrow> i \<notin> fst ` set cur \<Longrightarrow> \<not> taken i v \<Longrightarrow> mirrorInv g taken (cur @ [(i, v)]) s"
  by (cases "ph_acc s i") (auto simp: mirrorInv_def mirror_append mirror_Cons)

lemma mirror_handBack:
  assumes inv: "mirrorInv g taken cur s"
  shows "mirrorInv g taken (dropId i cur) (handBack i s)"
proof -
  let ?acc = "(ph_acc s)(i := None)"
  have rest: "ph_acc s i' = Some j \<Longrightarrow> i' \<noteq> i \<Longrightarrow> i' \<in> fst ` set (dropId i cur)" for i' j
    using inv by (force simp: mirrorInv_def)
  have tk: "\<forall>(j, w) \<in> set (dropId i cur). taken j w \<longleftrightarrow> ?acc j \<noteq> None"
    if "length (sk_used (ph_sink s)) < 2 ^ 32 - 1"
    using inv that by (fastforce simp: mirrorInv_def)
  show ?thesis
  proof (cases "map_of (ph_map s) i")
    case None
    then have "ph_acc s i = None" using inv by (cases "ph_acc s i") (auto simp: mirrorInv_def)
    moreover have "mirror g ?acc (dropId i cur) = mirror g (ph_acc s) cur"
      using calculation by (induction cur) (auto simp: mirror_Cons dropId_def)
    ultimately show ?thesis using inv None rest tk by (auto simp: mirrorInv_def handBack_def simp del: set_dropId)
  next
    case (Some j)
    have "ph_acc s i' \<noteq> Some j" if "i' \<noteq> i" for i'
      using inv Some that by (auto simp: mirrorInv_def inj_on_def dom_def)
    moreover have "ph_acc s i = None \<or> ph_acc s i = Some j"
      using inv Some by (cases "ph_acc s i") (auto simp: mirrorInv_def)
    ultimately have "dropId j (mirror g (ph_acc s) cur) = mirror g ?acc (dropId i cur)"
      by (rule mirror_drop)
    then show ?thesis using inv Some rest tk
      by (auto simp: mirrorInv_def handBack_def RemoveValue_def simp del: set_dropId)
  qed
qed

lemma sk_vals_RemoveValues:
  "set (sk_vals (fold (\<lambda>(_, j). RemoveValue j) m k)) = {e \<in> set (sk_vals k). fst e \<notin> snd ` set m}"
  by (induction m arbitrary: k) (auto simp: RemoveValue_def)

lemma not_in_Nil: "(\<And>e. e \<notin> set xs) \<Longrightarrow> xs = []"
  by (cases xs) auto

lemma mirror_handBackAll:
  assumes inv: "mirrorInv g taken cur s" and ord: "\<And>xs. mset (ord xs) = mset xs"
  shows "sk_vals (ph_sink (handBackAll ord True dispose s)) = []"
    and "ph_disposed (handBackAll ord True dispose s) = (if dispose then 1 else 0)"
proof -
  have "set (ord (ph_map s)) = set (ph_map s)" using ord by (metis set_mset_mset)
  moreover have "fst e \<in> snd ` set (ph_map s)" if "e \<in> set (sk_vals (ph_sink s))" for e
  proof -
    have "e \<in> set (mirror g (ph_acc s) cur)" using inv that by (simp add: mirrorInv_def)
    then obtain i where "ph_acc s i = Some (fst e)" by (auto simp: mirror_def map_filter_def split: if_splits)
    then have "map_of (ph_map s) i = Some (fst e)" using inv by (simp add: mirrorInv_def)
    from map_of_SomeD[OF this] show ?thesis by force
  qed
  ultimately have none: "e \<notin> set (sk_vals (fold (\<lambda>(_, j). RemoveValue j) (ord (ph_map s)) (ph_sink s)))" for e
    unfolding sk_vals_RemoveValues by blast
  have "sk_vals (fold (\<lambda>(_, j). RemoveValue j) (ord (ph_map s)) (ph_sink s)) = []"
    by (rule not_in_Nil) (rule none)
  then show "sk_vals (ph_sink (handBackAll ord True dispose s)) = []"
    by (simp add: handBackAll_def Let_def)
  show "ph_disposed (handBackAll ord True dispose s) = (if dispose then 1 else 0)"
    using inv by (simp add: handBackAll_def mirrorInv_def Let_def)
qed

definition map_perm :: "('a list \<Rightarrow> 'a list) \<Rightarrow> bool" where
  "map_perm ord \<longleftrightarrow> (\<forall>xs. mset (ord xs) = mset xs)"

interpretation passthru: ref_client "NewPassThruHandler (Some alloc) ord dispose" passthru_init
  "\<lambda>cur s. alloc_law accept alloc \<longrightarrow> mirrorInv (\<lambda>_ v. v) (\<lambda>_. accept) cur s"
  "\<lambda>cur s. alloc_law accept alloc \<and> map_perm ord \<longrightarrow> sk_vals (ph_sink s) = [] \<and> ph_disposed s = (if dispose then 1 else 0)"
  for accept and alloc :: "'v alloc" and ord dispose
proof (unfold_locales, goal_cases)
  case 1
  show ?case by (simp add: mirrorInv_def passthru_init_def sink_init_def)
next
  case (2 cur s i v)
  then show ?case using mirror_handOn[of "\<lambda>_ v. v" "\<lambda>_. accept" cur s accept alloc i v]
    by (simp add: NewPassThruHandler_def)
next
  case (3 cur s i v)
  then show ?case using mirror_handBack[of "\<lambda>_ v. v" "\<lambda>_. accept" cur s i] by (simp add: NewPassThruHandler_def)
next
  case (4 cur s)
  then show ?case using mirror_handBackAll[of "\<lambda>_ v. v" "\<lambda>_. accept" cur s ord dispose]
    by (auto simp: NewPassThruHandler_def map_perm_def)
qed

text \<open>With a transformation, what is handed on is the transformed value.\<close>

definition takesXfrm :: "(u32 \<Rightarrow> 'v \<Rightarrow> 'w option) \<Rightarrow> ('w emitted \<Rightarrow> bool) \<Rightarrow> u32 \<Rightarrow> 'v \<Rightarrow> bool" where
  "takesXfrm f accept i v \<longleftrightarrow> (case f i v of None \<Rightarrow> False | Some w \<Rightarrow> accept (Emitted w))"

interpretation transform: ref_client "NewTransformHandler (Some alloc) (Some f) ord dispose" passthru_init
  "\<lambda>cur s. alloc_law accept alloc \<longrightarrow> mirrorInv (\<lambda>i v. Emitted (the (f i v))) (takesXfrm f accept) cur s"
  "\<lambda>cur s. alloc_law accept alloc \<and> map_perm ord \<longrightarrow> sk_vals (ph_sink s) = [] \<and> ph_disposed s = (if dispose then 1 else 0)"
  for accept and alloc :: "'w emitted alloc" and f :: "u32 \<Rightarrow> 'v \<Rightarrow> 'w option" and ord dispose
proof (unfold_locales, goal_cases)
  case 1
  show ?case by (simp add: mirrorInv_def passthru_init_def sink_init_def)
next
  case (2 cur s i v)
  show ?case
  proof (cases "f i v")
    case None
    then show ?thesis using 2 mirror_reject[of _ "takesXfrm f accept" cur s i v]
      by (simp add: NewTransformHandler_def takesXfrm_def)
  next
    case (Some w)
    then show ?thesis
      using 2 mirror_handOn[of "\<lambda>i v. Emitted (the (f i v))" "takesXfrm f accept" cur s accept alloc i v]
      by (simp add: NewTransformHandler_def takesXfrm_def)
  qed
next
  case (3 cur s i v)
  then show ?case using mirror_handBack[of _ "takesXfrm f accept" cur s i] by (simp add: NewTransformHandler_def)
next
  case (4 cur s)
  then show ?case using mirror_handBackAll[of _ "takesXfrm f accept" cur s ord dispose]
    by (auto simp: NewTransformHandler_def map_perm_def)
qed

section \<open>What the handlers guarantee\<close>

text \<open>
  C35: A pass-through handler keeps the target equal to the directive: after any sequence of reports the
  target holds exactly the present values that it accepts, in the order of the directive (as long as it
  has identifiers left); once the directive is disposed the target is empty and the dispose callback
  has been called once.
\<close>

theorem PassThruHandler_mirrors:
  assumes "stream es" "alloc_law accept alloc" "map_perm ord"
    and s_def: "s = deliverAll (NewPassThruHandler (Some alloc) ord dispose) es passthru_init"
    and small: "length (sk_used (ph_sink s)) < 2 ^ 32 - 1"
  shows "if disposed_in es then sk_vals (ph_sink s) = [] \<and> ph_disposed s = (if dispose then 1 else 0)
    else map snd (sk_vals (ph_sink s)) = filter accept (map snd (present es)) \<and> ph_disposed s = 0"
proof (cases "disposed_in es")
  case True
  then show ?thesis using passthru.deliverAll_Fin[OF assms(1), of accept alloc ord dispose] assms by simp
next
  case False
  then have "mirrorInv (\<lambda>_ v. v) (\<lambda>_. accept) (present es) s"
    using passthru.deliverAll_Inv[OF assms(1), of accept alloc ord dispose] assms by simp
  moreover from mirrorInv_vals[OF this small]
  have "map snd (sk_vals (ph_sink s)) = filter accept (map snd (present es))"
    by (simp add: filter_map o_def case_prod_beta')
  ultimately show ?thesis using False by (simp add: mirrorInv_def)
qed

theorem PassThruHandler_mirrors_witness:
  "map snd (sk_vals (ph_sink (deliverAll (NewPassThruHandler (Some (firstFree even)) (\<lambda>m. m) True)
      [Added 1 (10::nat), Added 2 11, Added 3 12, Removed 1 10] passthru_init))) = [12]"
proof -
  let ?es = "[Added 1 (10::nat), Added 2 11, Added 3 12, Removed 1 10]"
  let ?s = "deliverAll (NewPassThruHandler (Some (firstFree even)) (\<lambda>m. m) True) ?es passthru_init"
  have "length (sk_used (ph_sink ?s)) = 2" by code_simp
  then have small: "length (sk_used (ph_sink ?s)) < 2 ^ 32 - 1" by simp
  have es: "stream ?es" "\<not> disposed_in ?es" "filter even (map snd (present ?es)) = [12]" by code_simp+
  have "map_perm (\<lambda>m. m)" by (simp add: map_perm_def)
  from PassThruHandler_mirrors[OF es(1) firstFree_law this refl small] es(2,3) show ?thesis by (simp only: if_False)
qed

text \<open>
  A transform handler keeps the target equal to the transformed values of the directive: it holds
  the images of exactly those present values that the transformation lets through and the target
  accepts, in order, and nothing is left after the directive is disposed.
\<close>

theorem TransformHandler_mirrors:
  assumes "stream es" "alloc_law accept alloc" "map_perm ord"
    and s_def: "s = deliverAll (NewTransformHandler (Some alloc) (Some f) ord dispose) es passthru_init"
    and small: "length (sk_used (ph_sink s)) < 2 ^ 32 - 1"
  shows "if disposed_in es then sk_vals (ph_sink s) = [] \<and> ph_disposed s = (if dispose then 1 else 0)
    else map snd (sk_vals (ph_sink s))
        = filter accept (map Emitted (List.map_filter (\<lambda>(i, v). f i v) (present es))) \<and> ph_disposed s = 0"
proof (cases "disposed_in es")
  case True
  then show ?thesis using transform.deliverAll_Fin[OF assms(1), of accept alloc ord f dispose] assms by simp
next
  case False
  then have inv: "mirrorInv (\<lambda>i v. Emitted (the (f i v))) (takesXfrm f accept) (present es) s"
    using transform.deliverAll_Inv[OF assms(1), of accept alloc f ord dispose] assms by simp
  have "map (\<lambda>(i, v). Emitted (the (f i v))) (filter (\<lambda>(i, v). takesXfrm f accept i v) cur)
      = filter accept (map Emitted (List.map_filter (\<lambda>(i, v). f i v) cur))" for cur
    by (induction cur) (auto simp: map_filter_simps takesXfrm_def split: option.splits)
  then show ?thesis using False inv mirrorInv_vals[OF inv small] by (simp add: mirrorInv_def)
qed

theorem TransformHandler_mirrors_witness:
  "map snd (sk_vals (ph_sink (deliverAll (NewTransformHandler (Some (firstFree (\<lambda>w. w \<noteq> Emitted 13)))
      (Some (\<lambda>i v. if even v then Some (v + 1) else None)) (\<lambda>m. m) False)
      [Added 1 (10::nat), Added 2 11, Added 3 12] passthru_init))) = [Emitted 11]"
proof -
  let ?es = "[Added 1 (10::nat), Added 2 11, Added 3 12]"
  let ?f = "\<lambda>(i::u32) v. if even v then Some (v + 1) else None" and ?a = "\<lambda>w. w \<noteq> Emitted (13::nat)"
  let ?s = "deliverAll (NewTransformHandler (Some (firstFree ?a)) (Some ?f) (\<lambda>m. m) False) ?es passthru_init"
  have "length (sk_used (ph_sink ?s)) = 1" by code_simp
  then have small: "length (sk_used (ph_sink ?s)) < 2 ^ 32 - 1" by simp
  have es: "stream ?es" "\<not> disposed_in ?es"
      "filter ?a (map Emitted (List.map_filter (\<lambda>(i, v). ?f i v) (present ?es))) = [Emitted 11]" by code_simp+
  have "map_perm (\<lambda>m. m)" by (simp add: map_perm_def)
  from TransformHandler_mirrors[OF es(1) firstFree_law this refl small] es(2,3) show ?thesis by (simp only: if_False)
qed

text \<open>
  Without a transformation the handler does not act like a pass-through handler, as its
  documentation says: it hands on the method value of the reported value instead of the value.
\<close>

theorem nil_transform_emits_method:
  "sk_vals (ph_sink (deliverAll (NewTransformHandler (Some alloc) None ord dispose) [Added i (v::'v)] passthru_init))
   = (case alloc sink_init (MethodValue i :: 'v emitted) of None \<Rightarrow> [] | Some j \<Rightarrow> [(j, MethodValue i)])"
  by (simp add: deliverAll_def NewTransformHandler_def handOn_def AddValue_def passthru_init_def sink_init_def split: option.split)

end
