(* ===== verification/Resolvers.thy ===== *)
theory Resolvers
  imports BusHandlers
begin

text \<open>
  The resolvers that a controller builds from a function or a container (directory \<^verbatim>\<open>directive\<close>): values,
  getters, access functions, keyed getters, reference counts, retries, watched containers and unique
  lists and maps. What the outside does in between (the answers of getters, the removal of a value by
  the directive, releases, the end of the context) is a list of rounds or steps given to the
  definition. A result \<^term>\<open>None\<close> means that the call has not returned yet; \<^term>\<open>Some None\<close> is a nil error.
\<close>

type_synonym resolve_result = "goerr option option"

section \<open>Values, getters and functions\<close>

text \<open>\<^verbatim>\<open>ValueResolver.Resolve\<close>: \<^verbatim>\<open>CountValues(false)\<close> counts the values of this resolver.\<close>

definition ValueResolver_Resolve :: "'v alloc \<Rightarrow> 'v list \<Rightarrow> 'v sink \<Rightarrow> resolve_result \<times> 'v sink" where
  "ValueResolver_Resolve alloc vals k =
     (let existing = length (sk_vals k) in
      if existing = length vals then (Some None, k)
      else let k = (if existing \<noteq> 0 then ClearValues k else k) in
        (Some None, fold (\<lambda>v k. snd (AddValue alloc v k)) vals k))"

text \<open>\<^verbatim>\<open>GetterResolver.Resolve\<close>; the getter may be nil.\<close>

definition GetterResolver_Resolve :: "'v alloc \<Rightarrow> (goerr + 'v) option \<Rightarrow> 'v sink \<Rightarrow> resolve_result \<times> 'v sink" where
  "GetterResolver_Resolve alloc getter k =
     (let k = ClearValues k in
      case getter of None \<Rightarrow> (Some None, k)
      | Some (Inl e) \<Rightarrow> (Some (Some e), k)
      | Some (Inr v) \<Rightarrow> (Some None, snd (AddValue alloc v k)))"

definition FuncResolver_Resolve :: "('h \<Rightarrow> resolve_result \<times> 'h) option \<Rightarrow> 'h \<Rightarrow> resolve_result \<times> 'h" where
  "FuncResolver_Resolve fn h = (case fn of None \<Rightarrow> (Some None, h) | Some f \<Rightarrow> f h)"

definition FuncHandler_HandleDirective :: "('i \<Rightarrow> 'r list \<times> goerr option) option \<Rightarrow> 'i \<Rightarrow> 'r list \<times> goerr option" where
  "FuncHandler_HandleDirective fn di = (case fn of None \<Rightarrow> ([], None) | Some f \<Rightarrow> f di)"

text \<open>
  \<^verbatim>\<open>NewErrChIdleCallback\<close>: the errors go to a channel, of which \<open>cap\<close> is the capacity; what does not fit
  is dropped.
\<close>

definition ErrChIdleCallback :: "nat \<Rightarrow> bool \<Rightarrow> bool \<Rightarrow> goerr option list \<Rightarrow> goerr list \<Rightarrow> goerr list" where
  "ErrChIdleCallback cap waitIdle isIdle errs ch =
     (if waitIdle \<and> \<not> isIdle then ch
      else fold (\<lambda>err ch. case err of None \<Rightarrow> ch
        | Some e \<Rightarrow> (if e \<noteq> Canceled \<and> length ch < cap then ch @ [e] else ch)) errs ch)"

lemma ErrChIdleCallback_one:
  "ErrChIdleCallback (Suc 0) False isIdle errs []
   = (case filter (\<lambda>e. e \<noteq> Canceled) (List.map_filter id errs) of [] \<Rightarrow> [] | e # _ \<Rightarrow> [e])"
proof -
  let ?step = "\<lambda>err ch. case err of None \<Rightarrow> ch
    | Some e \<Rightarrow> (if e \<noteq> Canceled \<and> length ch < Suc 0 then ch @ [e] else ch)"
  have full: "fold ?step errs [e] = [e]" for e :: goerr and errs
    by (induction errs) (auto split: option.split)
  have "fold ?step errs [] = (case filter (\<lambda>e. e \<noteq> Canceled) (List.map_filter id errs) of [] \<Rightarrow> [] | e # _ \<Rightarrow> [e])"
  proof (induction errs)
    case (Cons err errs)
    show ?case
    proof (cases err)
      case (Some e)
      then show ?thesis using full[of errs e] Cons by (cases "e = Canceled") (auto simp: map_filter_simps)
    qed (use Cons in \<open>simp add: map_filter_simps\<close>)
  qed (simp add: map_filter_simps)
  then show ?thesis by (simp add: ErrChIdleCallback_def)
qed

section \<open>\<^verbatim>\<open>AccessResolver\<close>\<close>

text \<open>
  The values set, the callbacks registered on them, and the release functions that were called, each
  named by the number of the release functions obtained before it.
\<close>

record 'v access =
  ac_sink :: "'v sink"
  ac_cbs :: "(u32 \<times> nat) list"
  ac_released :: "nat list"
  ac_issued :: nat

definition access_init :: "'v access" where
  "access_init = \<lparr>ac_sink = sink_init, ac_cbs = [], ac_released = [], ac_issued = 0\<rparr>"

text \<open>Removing values calls the callbacks that are registered on them.\<close>

definition acRemove :: "u32 \<Rightarrow> 'v access \<Rightarrow> 'v access" where
  "acRemove i s = s\<lparr>ac_sink := RemoveValue i (ac_sink s), ac_cbs := dropId i (ac_cbs s),
     ac_released := ac_released s @ map snd (filter (\<lambda>(j, _). j = i) (ac_cbs s))\<rparr>"

definition acClear :: "'v access \<Rightarrow> 'v access" where
  "acClear s = s\<lparr>ac_sink := ClearValues (ac_sink s), ac_cbs := [],
     ac_released := ac_released s @ map snd (ac_cbs s)\<rparr>"

definition acRel :: "nat option \<Rightarrow> 'v access \<Rightarrow> 'v access" where
  "acRel rel s = (case rel of None \<Rightarrow> s | Some t \<Rightarrow> s\<lparr>ac_released := ac_released s @ [t]\<rparr>)"

text \<open>\<^verbatim>\<open>AddValueRemovedCallback\<close>: a value that is gone already has the callback called at once.\<close>

definition acAddCb :: "u32 \<Rightarrow> nat option \<Rightarrow> 'v access \<Rightarrow> 'v access" where
  "acAddCb i rel s = (case rel of None \<Rightarrow> s
     | Some t \<Rightarrow> (if i \<in> fst ` set (sk_vals (ac_sink s)) then s\<lparr>ac_cbs := ac_cbs s @ [(i, t)]\<rparr> else acRel rel s))"

definition acDelCb :: "u32 \<Rightarrow> nat option \<Rightarrow> 'v access \<Rightarrow> 'v access" where
  "acDelCb i rel s = (case rel of None \<Rightarrow> s | Some t \<Rightarrow> s\<lparr>ac_cbs := filter (\<lambda>e. e \<noteq> (i, t)) (ac_cbs s)\<rparr>)"

text \<open>
  One round of the loop as the outside answers it: whether the context is canceled at its start, what
  the getter returns (with or without a release function), whether the directive removes the value
  before and after the callback is registered, and whether the wait ends with the context or with the
  call of \<^verbatim>\<open>released\<close>.
\<close>

record 'v access_round =
  ar_canceled :: bool
  ar_get :: "goerr + 'v"
  ar_rel :: bool
  ar_gone :: bool
  ar_removed :: bool
  ar_done :: bool

definition acIssue :: "bool \<Rightarrow> 'v access \<Rightarrow> nat option \<times> 'v access" where
  "acIssue has s = (if has then (Some (ac_issued s), s\<lparr>ac_issued := ac_issued s + 1\<rparr>) else (None, s))"

definition accessRound :: "'v alloc \<Rightarrow> 'v \<Rightarrow> 'v access_round \<Rightarrow> 'v access \<Rightarrow> resolve_result \<times> 'v access" where
  "accessRound alloc emp r s =
     (let s = acClear s in
      if ar_canceled r then (Some (Some Canceled), s)
      else let (rel, s) = acIssue (ar_rel r) s in
        case ar_get r of
          Inl e \<Rightarrow> (Some (Some e), acRel rel s)
        | Inr v \<Rightarrow>
            if v = emp then (Some None, acRel rel s)
            else (case AddValue alloc v (ac_sink s) of
                (None, k) \<Rightarrow> (Some None, acRel rel (s\<lparr>ac_sink := k\<rparr>))
              | (Some i, k) \<Rightarrow>
                  let s = s\<lparr>ac_sink := k\<rparr>;
                      s = (if ar_gone r then acRemove i s else s);
                      s = acAddCb i rel s;
                      s = (if ar_removed r then acRemove i s else s);
                      s = acRel rel (acDelCb i rel s)
                  in (if ar_done r then (Some (Some Canceled), s) else (None, s))))"

fun AccessResolver_loop :: "'v alloc \<Rightarrow> 'v \<Rightarrow> 'v access_round list \<Rightarrow> 'v access \<Rightarrow> resolve_result \<times> 'v access" where
  "AccessResolver_loop alloc emp [] s = (None, s)"
| "AccessResolver_loop alloc emp (r # rs) s =
     (case accessRound alloc emp r s of
        (Some res, s) \<Rightarrow> (Some res, s) | (None, s) \<Rightarrow> AccessResolver_loop alloc emp rs s)"

definition AccessResolver_Resolve ::
    "'v alloc \<Rightarrow> 'v \<Rightarrow> 'v access_round list option \<Rightarrow> 'v access \<Rightarrow> resolve_result \<times> 'v access" where
  "AccessResolver_Resolve alloc emp getter s =
     (case getter of None \<Rightarrow> (Some None, s) | Some rs \<Rightarrow> AccessResolver_loop alloc emp rs s)"

definition undisturbed :: "'v access_round \<Rightarrow> bool" where
  "undisturbed r \<longleftrightarrow> \<not> ar_gone r \<and> \<not> ar_removed r"

definition releasedAll :: "'v access \<Rightarrow> bool" where
  "releasedAll s \<longleftrightarrow> ac_cbs s = [] \<and> ac_released s = [0..<ac_issued s]"

lemma accessRound_releases:
  "undisturbed r \<Longrightarrow> releasedAll s \<Longrightarrow> releasedAll (snd (accessRound alloc emp r s))"
  by (auto simp: accessRound_def undisturbed_def releasedAll_def acClear_def acIssue_def acRel_def acAddCb_def
      acDelCb_def AddValue_def Let_def split: sum.splits option.splits if_splits)

lemma access_loop_releases:
  "list_all undisturbed rs \<Longrightarrow> releasedAll s \<Longrightarrow> releasedAll (snd (AccessResolver_loop alloc emp rs s))"
proof (induction rs arbitrary: s)
  case (Cons r rs)
  then show ?case using accessRound_releases[of r s alloc emp]
    by (cases "accessRound alloc emp r s") (auto split: option.split)
qed simp

text \<open>
  C40: an access resolver calls every release function that it obtained exactly once, in the order it
  obtained them, through all its rounds and on every way out (error, empty value, refused value,
  canceled context), if the directive removes no value while the resolver waits.
\<close>

theorem AccessResolver_releases_once:
  assumes "list_all undisturbed rs"
  shows "ac_released (snd (AccessResolver_Resolve alloc emp (Some rs) access_init))
    = [0..<ac_issued (snd (AccessResolver_Resolve alloc emp (Some rs) access_init))]"
  using access_loop_releases[OF assms, of access_init alloc emp]
  by (simp add: AccessResolver_Resolve_def releasedAll_def access_init_def)

theorem AccessResolver_releases_once_witness:
  "(let r = \<lparr>ar_canceled = False, ar_get = Inr 5, ar_rel = True, ar_gone = False, ar_removed = False, ar_done = False\<rparr>;
        s = snd (AccessResolver_Resolve (firstFree (\<lambda>_. True)) (0::nat)
              (Some [r, r\<lparr>ar_get := Inr 0\<rparr>]) access_init)
    in ac_issued s = 2 \<and> ac_released s = [0..<2])"
proof -
  let ?r = "\<lparr>ar_canceled = False, ar_get = Inr 5, ar_rel = True, ar_gone = False, ar_removed = False, ar_done = False\<rparr>"
  let ?s = "snd (AccessResolver_Resolve (firstFree (\<lambda>_. True)) (0::nat)
      (Some [?r, ?r\<lparr>ar_get := Inr 0\<rparr>]) access_init)"
  have "ac_issued ?s = 2" by code_simp
  moreover have "ac_released ?s = [0..<ac_issued ?s]"
    by (rule AccessResolver_releases_once) (simp add: undisturbed_def)
  ultimately show ?thesis by (simp only: Let_def)
qed

text \<open>
  When the directive removes the value while the resolver waits, the callback calls the release
  function and the resolver calls it again.
\<close>

theorem AccessResolver_double_release:
  "(let r = \<lparr>ar_canceled = False, ar_get = Inr v, ar_rel = True, ar_gone = False, ar_removed = True, ar_done = True\<rparr>;
        res = AccessResolver_Resolve (firstFree (\<lambda>_. True)) emp (Some [r]) access_init
    in v \<noteq> emp \<longrightarrow> fst res = Some (Some Canceled) \<and> ac_released (snd res) = [0, 0])"
  by (simp add: AccessResolver_Resolve_def accessRound_def acClear_def acIssue_def acRel_def acAddCb_def
      acDelCb_def acRemove_def AddValue_def firstFree_def access_init_def sink_init_def ClearValues_def Let_def)

section \<open>\<^verbatim>\<open>KeyedGetterResolver\<close>\<close>

text \<open>
  The atomic \<^verbatim>\<open>valID\<close> of the round, whether its broadcast came, and the calls of \<^verbatim>\<open>relVal\<close>.
\<close>

record 'v kgetter =
  kg_sink :: "'v sink"
  kg_valID :: u32
  kg_bcast :: bool
  kg_rels :: nat
  kg_idle :: bool

definition kgetter_init :: "'v kgetter" where
  "kgetter_init = \<lparr>kg_sink = sink_init, kg_valID = 0, kg_bcast = False, kg_rels = 0, kg_idle = False\<rparr>"

text \<open>The release callback given to the getter.\<close>

definition kgRelease :: "'v kgetter \<Rightarrow> 'v kgetter" where
  "kgRelease s =
     (let old = kg_valID s; s = s\<lparr>kg_valID := 0\<rparr> in
      if old \<noteq> 0 then s\<lparr>kg_sink := RemoveValue old (kg_sink s), kg_bcast := True\<rparr> else s)"

definition kgRelVal :: "bool \<Rightarrow> 'v kgetter \<Rightarrow> 'v kgetter" where
  "kgRelVal has s = (if has then s\<lparr>kg_rels := kg_rels s + 1\<rparr> else s)"

text \<open>
  One round: the answer of the getter, and how often the release callback is called before and after
  the value is published, and whether the context ends.
\<close>

record 'v kgetter_round =
  kr_get :: "goerr + 'v"
  kr_rel :: bool
  kr_early :: nat
  kr_late :: nat
  kr_done :: bool

definition kgetterRound :: "'v alloc \<Rightarrow> 'v \<Rightarrow> 'v kgetter_round \<Rightarrow> 'v kgetter \<Rightarrow> resolve_result \<times> bool \<times> 'v kgetter" where
  "kgetterRound alloc emp r s =
     (let s = s\<lparr>kg_sink := ClearValues (kg_sink s), kg_bcast := False, kg_valID := 0\<rparr>;
          s = (kgRelease ^^ kr_early r) s
      in case kr_get r of
           Inl e \<Rightarrow> (Some (Some e), False, kgRelVal (kr_rel r) s)
         | Inr v \<Rightarrow>
             if v = emp then (Some None, False, s)
             else (case AddValue alloc v (kg_sink s) of
                 (None, k) \<Rightarrow> (Some None, False, kgRelVal (kr_rel r) (s\<lparr>kg_sink := k, kg_valID := 0\<rparr>))
               | (Some i, k) \<Rightarrow>
                   if kg_valID s = 0 then
                     let s = s\<lparr>kg_sink := k, kg_valID := i, kg_idle := True\<rparr>;
                         s = (kgRelease ^^ kr_late r) s
                     in if \<not> kr_done r \<and> \<not> kg_bcast s then (None, False, s)
                        else let s = kgRelVal (kr_rel r) (s\<lparr>kg_valID := 0\<rparr>)
                          in (if kr_done r then (Some (Some Canceled), False, s) else (None, True, s))
                   else (None, True, kgRelVal (kr_rel r) (s\<lparr>kg_sink := RemoveValue i k, kg_valID := 0\<rparr>))))"

text \<open>The second component of a round says whether the loop goes on to the next.\<close>

fun KeyedGetterResolver_Resolve where
  "KeyedGetterResolver_Resolve alloc emp [] s = (None, s)"
| "KeyedGetterResolver_Resolve alloc emp (r # rs) s =
     (let (res, again, s) = kgetterRound alloc emp r s in
      if again then KeyedGetterResolver_Resolve alloc emp rs s else (res, s))"

text \<open>
  A release that comes before the value is published does nothing, since \<^verbatim>\<open>valID\<close> is zero then; so the
  branch for values that were already released is never taken.
\<close>

lemma kgRelease_zero: "kg_valID s = 0 \<Longrightarrow> (kgRelease ^^ n) s = s"
proof (induction n)
  case (Suc n)
  then show ?case by (simp add: kgRelease_def Let_def)
qed simp

lemma kgetterRound_early: "kgetterRound alloc emp (r\<lparr>kr_early := n\<rparr>) s = kgetterRound alloc emp r s"
proof -
  have early: "(kgRelease ^^ m) (s\<lparr>kg_sink := ClearValues (kg_sink s), kg_bcast := False, kg_valID := 0\<rparr>)
      = s\<lparr>kg_sink := ClearValues (kg_sink s), kg_bcast := False, kg_valID := 0\<rparr>" for m
    by (rule kgRelease_zero) simp
  have others: "kr_get (r\<lparr>kr_early := n\<rparr>) = kr_get r" "kr_rel (r\<lparr>kr_early := n\<rparr>) = kr_rel r"
      "kr_late (r\<lparr>kr_early := n\<rparr>) = kr_late r" "kr_done (r\<lparr>kr_early := n\<rparr>) = kr_done r"
    by simp_all
  show ?thesis unfolding kgetterRound_def Let_def early others ..
qed

text \<open>
  A release that the getter of a keyed getter resolver calls before it returns is lost: whatever the
  rounds, the call behaves as if nothing had been released, and a value released in this way stays
  emitted although the code has a branch for it.
\<close>

theorem KeyedGetterResolver_early_release_lost:
  "KeyedGetterResolver_Resolve alloc emp (map (\<lambda>r. r\<lparr>kr_early := f r\<rparr>) rs) s
   = KeyedGetterResolver_Resolve alloc emp rs s"
proof (induction rs arbitrary: s)
  case (Cons r rs)
  show ?case using kgetterRound_early[of alloc emp "f r" r s] Cons by (simp add: Let_def split: prod.split)
qed simp

section \<open>\<^verbatim>\<open>RefCountResolver\<close> and \<^verbatim>\<open>KeyedRefCountResolver\<close>\<close>

text \<open>
  What the resolvers do with a value of the container: \<open>build\<close> is \<^verbatim>\<open>buildValue\<close>, which may be nil and
  whose value may be nil. The result is \<^term>\<open>None\<close> until the context given by \<^verbatim>\<open>Access\<close> ends, which
  \<open>done\<close> says.
\<close>

record 'v refcount =
  rt_sink :: "'v sink"
  rt_idle :: bool
  rt_refs :: int

definition RefCountResolver_access ::
    "'v alloc \<Rightarrow> ('t \<Rightarrow> 'v option) \<Rightarrow> ('t \<Rightarrow> goerr + 'v option) option \<Rightarrow> bool \<Rightarrow> 't \<Rightarrow> 'v refcount
      \<Rightarrow> resolve_result \<times> 'v refcount" where
  "RefCountResolver_access alloc toValue build ctxDone tval s =
     (case (case build of None \<Rightarrow> Inr (toValue tval) | Some f \<Rightarrow> f tval) of
        Inl e \<Rightarrow> (Some (Some e), s)
      | Inr val \<Rightarrow>
          let s = (case val of None \<Rightarrow> s | Some v \<Rightarrow> s\<lparr>rt_sink := snd (AddValue alloc v (rt_sink s))\<rparr>);
              s = s\<lparr>rt_idle := True\<rparr>
          in (if ctxDone then (Some (Some Canceled), s\<lparr>rt_sink := ClearValues (rt_sink s)\<rparr>) else (None, s)))"

definition KeyedRefCountResolver_Resolve ::
    "'v alloc \<Rightarrow> 't \<Rightarrow> ('t \<Rightarrow> 'v) \<Rightarrow> ('t \<Rightarrow> goerr + 'v option) option \<Rightarrow> bool \<Rightarrow> 't \<Rightarrow> 'v refcount
      \<Rightarrow> resolve_result \<times> 'v refcount" where
  "KeyedRefCountResolver_Resolve alloc emp toValue build ctxDone data s =
     (let s = s\<lparr>rt_refs := rt_refs s + 1\<rparr>;
          (res, s) =
            (case (case build of Some f \<Rightarrow> f data
                | None \<Rightarrow> Inr (if data \<noteq> emp then Some (toValue data) else None)) of
               Inl e \<Rightarrow> (Some (Some e), s)
             | Inr None \<Rightarrow> (Some None, s)
             | Inr (Some v) \<Rightarrow>
                 (case AddValue alloc v (rt_sink s) of
                    (None, k) \<Rightarrow> (Some None, s\<lparr>rt_sink := k\<rparr>)
                  | (Some _, k) \<Rightarrow>
                      let s = s\<lparr>rt_sink := k, rt_idle := True\<rparr>
                      in (if ctxDone then (Some (Some Canceled), s\<lparr>rt_sink := ClearValues (rt_sink s)\<rparr>) else (None, s))))
      in (if res = None then (res, s) else (res, s\<lparr>rt_refs := rt_refs s - 1\<rparr>)))"

text \<open>The reference to the key is held exactly while the call runs.\<close>

lemma KeyedRefCountResolver_refs:
  "rt_refs (snd (KeyedRefCountResolver_Resolve alloc emp toValue build ctxDone data s))
   = rt_refs s + (if fst (KeyedRefCountResolver_Resolve alloc emp toValue build ctxDone data s) = None then 1 else 0)"
  by (auto simp: KeyedRefCountResolver_Resolve_def Let_def split: option.splits sum.splits prod.splits)

section \<open>\<^verbatim>\<open>RetryResolver\<close>\<close>

text \<open>
  Each round is the result of the wrapped resolver and whether the context is over when it returns and
  during the backoff. The backoff counts the calls of \<^verbatim>\<open>NextBackOff\<close> since its reset.
\<close>

fun RetryResolver_Resolve :: "(goerr option \<times> bool \<times> bool) list \<Rightarrow> nat \<Rightarrow> resolve_result \<times> nat" where
  "RetryResolver_Resolve [] backoff = (None, backoff)"
| "RetryResolver_Resolve ((err, over, overWait) # rs) backoff =
     (case err of None \<Rightarrow> (Some None, 0)
      | Some _ \<Rightarrow>
          if over then (Some (Some Canceled), backoff)
          else if overWait then (Some (Some Canceled), backoff + 1)
          else RetryResolver_Resolve rs (backoff + 1))"

definition failedRound :: "goerr option \<times> bool \<times> bool \<Rightarrow> bool" where
  "failedRound r \<longleftrightarrow> fst r \<noteq> None \<and> \<not> fst (snd r) \<and> \<not> snd (snd r)"

text \<open>
  The retrying resolver never gives an error of the wrapped resolver on: it returns nil exactly
  when a round succeeds before the context is over, context.Canceled when the context is over first, and
  otherwise goes on, one backoff per failed round; after a success the backoff is reset.
\<close>

theorem RetryResolver_result:
  "RetryResolver_Resolve rs n =
     (case dropWhile failedRound rs of
        [] \<Rightarrow> (None, n + length rs)
      | (None, _) # _ \<Rightarrow> (Some None, 0)
      | (Some _, over, _) # rest \<Rightarrow>
          (Some (Some Canceled), n + (length rs - length rest) - (if over then 1 else 0)))"
proof (induction rs arbitrary: n)
  case (Cons r rs)
  obtain err over overWait where r: "r = (err, over, overWait)" by (cases r)
  define D where "D = dropWhile failedRound rs"
  have le: "length D \<le> length rs" by (simp add: D_def length_dropWhile_le)
  show ?case
  proof (cases "failedRound r")
    case True
    then have "RetryResolver_Resolve (r # rs) n = RetryResolver_Resolve rs (n + 1)"
      by (auto simp: r failedRound_def)
    moreover have "dropWhile failedRound (r # rs) = D" using True by (simp add: D_def)
    ultimately show ?thesis using le
      by (simp only: Cons[of "n + 1"] D_def [symmetric]) (auto split: list.splits option.splits)
  qed (cases err; auto simp: r failedRound_def)
qed simp

section \<open>\<^verbatim>\<open>WatchableResolver\<close> and \<^verbatim>\<open>WatchableTransformResolver\<close>\<close>

text \<open>
  \<^verbatim>\<open>WatchChanges\<close> calls the callback with each new value of the container and returns its first error,
  or the error of the context; \<^verbatim>\<open>io.EOF\<close> of the callback ends the call without an error.
\<close>

record 'v watchable =
  wt_sink :: "'v sink"
  wt_valID :: u32

definition watchable_init :: "'v watchable" where
  "watchable_init = \<lparr>wt_sink = sink_init, wt_valID = 0\<rparr>"

datatype cb_err = CbEOF | CbErr goerr

definition wtDrop :: "'v watchable \<Rightarrow> 'v watchable" where
  "wtDrop s = (if wt_valID s \<noteq> 0 then s\<lparr>wt_sink := RemoveValue (wt_valID s) (wt_sink s), wt_valID := 0\<rparr> else s)"

definition wtAdd :: "'v alloc \<Rightarrow> 'v \<Rightarrow> 'v watchable \<Rightarrow> cb_err option \<times> 'v watchable" where
  "wtAdd alloc v s = (case AddValue alloc v (wt_sink s) of
      (None, k) \<Rightarrow> (Some CbEOF, s\<lparr>wt_sink := k, wt_valID := 0\<rparr>)
    | (Some i, k) \<Rightarrow> (None, s\<lparr>wt_sink := k, wt_valID := i\<rparr>))"

definition watchableChanged :: "'v alloc \<Rightarrow> 'v \<Rightarrow> 'v \<Rightarrow> 'v watchable \<Rightarrow> cb_err option \<times> 'v watchable" where
  "watchableChanged alloc emp v s =
     (let s = wtDrop s in if v \<noteq> emp then wtAdd alloc v s else (None, s))"

definition watchableXfrmChanged ::
    "'v alloc \<Rightarrow> 't \<Rightarrow> ('t \<Rightarrow> goerr + 'v option) \<Rightarrow> 't \<Rightarrow> 'v watchable \<Rightarrow> cb_err option \<times> 'v watchable" where
  "watchableXfrmChanged alloc emp xfrm v s =
     (let s = wtDrop s in
      if v \<noteq> emp then (case xfrm v of
          Inl e \<Rightarrow> (Some (CbErr e), s)
        | Inr None \<Rightarrow> (None, s)
        | Inr (Some w) \<Rightarrow> wtAdd alloc w s)
      else (None, s))"

fun WatchChanges :: "('t \<Rightarrow> 's \<Rightarrow> cb_err option \<times> 's) \<Rightarrow> 't list \<Rightarrow> goerr option \<Rightarrow> 's \<Rightarrow> resolve_result \<times> 's" where
  "WatchChanges cb [] ctxErr s = (map_option Some ctxErr, s)"
| "WatchChanges cb (v # vs) ctxErr s =
     (case cb v s of
        (None, s) \<Rightarrow> WatchChanges cb vs ctxErr s
      | (Some CbEOF, s) \<Rightarrow> (Some None, s)
      | (Some (CbErr e), s) \<Rightarrow> (Some (Some e), s))"

definition WatchableResolver_Resolve where
  "WatchableResolver_Resolve alloc emp vs ctxErr k =
     WatchChanges (watchableChanged alloc emp) vs ctxErr \<lparr>wt_sink = ClearValues k, wt_valID = 0\<rparr>"

definition WatchableTransformResolver_Resolve where
  "WatchableTransformResolver_Resolve alloc emp xfrm vs ctxErr k =
     WatchChanges (watchableXfrmChanged alloc emp xfrm) vs ctxErr \<lparr>wt_sink = ClearValues k, wt_valID = 0\<rparr>"

text \<open>What the target should hold after the value \<open>v\<close>.\<close>

definition shownOf :: "'t \<Rightarrow> ('t \<Rightarrow> goerr + 'v option) \<Rightarrow> 't \<Rightarrow> 'v list" where
  "shownOf emp xfrm v = (if v = emp then [] else case xfrm v of Inr (Some w) \<Rightarrow> [w] | _ \<Rightarrow> [])"

definition wtInv :: "'v watchable \<Rightarrow> bool" where
  "wtInv s \<longleftrightarrow> (if wt_valID s = 0 then sk_vals (wt_sink s) = []
     else \<exists>w. sk_vals (wt_sink s) = [(wt_valID s, w)])"

lemma wtInv_drop: "wtInv s \<Longrightarrow> sk_vals (wt_sink (wtDrop s)) = [] \<and> wt_valID (wtDrop s) = 0"
  by (auto simp: wtInv_def wtDrop_def RemoveValue_def dropId_def split: if_splits)

lemma watchableXfrmChanged_shows:
  assumes "alloc_ok alloc" "wtInv s"
  shows "wtInv (snd (watchableXfrmChanged alloc emp xfrm v s))
    \<and> (fst (watchableXfrmChanged alloc emp xfrm v s) = None
        \<longrightarrow> map snd (sk_vals (wt_sink (snd (watchableXfrmChanged alloc emp xfrm v s)))) = shownOf emp xfrm v)
    \<and> (fst (watchableXfrmChanged alloc emp xfrm v s) \<noteq> None
        \<longrightarrow> sk_vals (wt_sink (snd (watchableXfrmChanged alloc emp xfrm v s))) = [])"
proof -
  obtain t where t: "wtDrop s = t" "sk_vals (wt_sink t) = []" "wt_valID t = 0"
    using wtInv_drop[OF assms(2)] by blast
  have nz: "alloc k w = Some i \<Longrightarrow> i \<noteq> 0" for k w i using assms(1) by (simp add: alloc_ok_def)
  show ?thesis
  proof (cases "v = emp")
    case True
    then show ?thesis using t by (simp add: watchableXfrmChanged_def shownOf_def wtInv_def)
  next
    case False
    show ?thesis
    proof (cases "xfrm v")
      case (Inr w)
      then show ?thesis using t False nz
        by (cases w; cases "alloc (wt_sink t) (the w)")
          (simp_all add: watchableXfrmChanged_def wtAdd_def AddValue_def shownOf_def wtInv_def)
    qed (use t False in \<open>simp add: watchableXfrmChanged_def shownOf_def wtInv_def\<close>)
  qed
qed

lemma watchableChanged_as_xfrm:
  "watchableChanged alloc emp v s = watchableXfrmChanged alloc emp (\<lambda>v. Inr (Some v)) v s"
  by (simp add: watchableChanged_def watchableXfrmChanged_def Let_def)

lemma WatchChanges_shows:
  assumes "alloc_ok alloc" "wtInv s" "map snd (sk_vals (wt_sink s)) = shownOf emp xfrm v"
    and "WatchChanges (watchableXfrmChanged alloc emp xfrm) vs ctxErr s = (res, s')"
  shows "(res = None \<longrightarrow> map snd (sk_vals (wt_sink s')) = shownOf emp xfrm (last (v # vs)))
    \<and> (sk_vals (wt_sink s') \<noteq> [] \<longrightarrow> map snd (sk_vals (wt_sink s')) = shownOf emp xfrm (last (v # vs)))"
  using assms(2-)
proof (induction vs arbitrary: s v)
  case (Cons u vs)
  note step = watchableXfrmChanged_shows[OF assms(1) Cons.prems(1), of emp xfrm u]
  show ?case
  proof (cases "watchableXfrmChanged alloc emp xfrm u s")
    case (Pair e t)
    show ?thesis
    proof (cases e)
      case None
      then show ?thesis using Cons.IH[of t u] Cons.prems(3) step Pair by simp
    next
      case (Some c)
      then show ?thesis using Cons.prems(3) step Pair by (cases c) auto
    qed
  qed
qed auto

text \<open>
  A watched container is mirrored: while the call has not returned the target holds exactly the image
  of the container's latest value, or nothing if that value is empty or the transformation drops it,
  and whenever it holds anything it is that image.
\<close>

theorem WatchableTransformResolver_latest:
  assumes "alloc_ok alloc"
    and "WatchableTransformResolver_Resolve alloc emp xfrm vs ctxErr k = (res, s)"
  shows "(res = None \<longrightarrow> map snd (sk_vals (wt_sink s)) = shownOf emp xfrm (last (emp # vs)))
    \<and> (sk_vals (wt_sink s) \<noteq> [] \<longrightarrow> map snd (sk_vals (wt_sink s)) = shownOf emp xfrm (last (emp # vs)))"
  using assms(2) unfolding WatchableTransformResolver_Resolve_def
  by (rule WatchChanges_shows[OF assms(1), rotated 2]) (simp_all add: wtInv_def ClearValues_def shownOf_def)

theorem WatchableTransformResolver_latest_witness:
  "\<exists>s. WatchableTransformResolver_Resolve (firstFree (\<lambda>_. True)) (0::nat)
       (\<lambda>v. if v = 9 then Inr None else Inr (Some (v + 100))) [3, 9, 4] None sink_init = (None, s)
     \<and> map snd (sk_vals (wt_sink s)) = [104]"
proof -
  let ?x = "\<lambda>v::nat. if v = 9 then Inr None else Inr (Some (v + 100))"
  let ?r = "WatchableTransformResolver_Resolve (firstFree (\<lambda>_. True)) 0 ?x [3, 9, 4] None sink_init"
  have f: "fst ?r = None" by code_simp
  obtain s where r: "?r = (None, s)" by (rule that, rule prod_eqI) (use f in simp_all)
  have l: "last [0, 3, 9, 4 :: nat] = 4" by simp
  have "map snd (sk_vals (wt_sink s)) = shownOf 0 ?x (last [0, 3, 9, 4])"
    by (rule conjunct1[OF WatchableTransformResolver_latest[OF firstFree_ok r], THEN mp, OF refl])
  also have "\<dots> = [104]" unfolding l by (simp add: shownOf_def)
  finally show ?thesis using r by (intro exI[of _ s] conjI)
qed

lemma WatchableResolver_as_transform:
  "WatchableResolver_Resolve alloc emp vs ctxErr k
   = WatchableTransformResolver_Resolve alloc emp (\<lambda>v. Inr (Some v)) vs ctxErr k"
proof -
  have "watchableChanged alloc emp = watchableXfrmChanged alloc emp (\<lambda>v. Inr (Some v))"
    by (intro ext) (rule watchableChanged_as_xfrm)
  then show ?thesis by (simp add: WatchableResolver_Resolve_def WatchableTransformResolver_Resolve_def)
qed

end
