(* ===== verification/ResolverXfrm.thy ===== *)
theory ResolverXfrm
  imports BusHandlers
begin

text \<open>
  The resolvers that hand on what they are told of, transformed: \<^verbatim>\<open>TransformResolver\<close> and
  \<^verbatim>\<open>TypedTransformResolver\<close>, which add a directive of their own, and the unique list and map
  resolvers, which are told of changed keys.
\<close>

section \<open>\<^verbatim>\<open>TransformResolver\<close>\<close>

text \<open>
  The map \<^verbatim>\<open>addedVals\<close>, the channel of the error, the idle flag given to the handler, and the release
  functions: the number obtained, and those that were called. An entry of \<^verbatim>\<open>addedVals\<close> holds an
  identifier and the number of its release function, if it has one.
\<close>

record 'v xresolver =
  xr_sink :: "'v sink"
  xr_added :: "(u32 \<times> (u32 \<times> nat option)) list"
  xr_errCh :: "goerr option"
  xr_idle :: bool
  xr_released :: "nat list"
  xr_issued :: nat

definition xr_init :: "'v sink \<Rightarrow> 'v xresolver" where
  "xr_init k = \<lparr>xr_sink = k, xr_added = [], xr_errCh = None, xr_idle = False, xr_released = [], xr_issued = 0\<rparr>"

definition pushErr :: "goerr \<Rightarrow> 'v xresolver \<Rightarrow> 'v xresolver" where
  "pushErr e s = (case xr_errCh s of None \<Rightarrow> s\<lparr>xr_errCh := Some e\<rparr> | Some _ \<Rightarrow> s)"

definition xrel :: "nat option \<Rightarrow> 'v xresolver \<Rightarrow> 'v xresolver" where
  "xrel r s = (case r of None \<Rightarrow> s | Some t \<Rightarrow> s\<lparr>xr_released := xr_released s @ [t]\<rparr>)"

text \<open>The result of the transformation: the value, whether there is a release function, \<^verbatim>\<open>ok\<close> and the error.\<close>

record 'w xresult =
  xv_val :: 'w
  xv_rel :: bool
  xv_ok :: bool
  xv_err :: "goerr option"

definition xissue :: "bool \<Rightarrow> 'v xresolver \<Rightarrow> nat option \<times> 'v xresolver" where
  "xissue has s = (if has then (Some (xr_issued s), s\<lparr>xr_issued := xr_issued s + 1\<rparr>) else (None, s))"

text \<open>The entry of an accepted value has the identifier of the target as its key and that of the source in it.\<close>

definition xemit :: "'w alloc \<Rightarrow> u32 \<Rightarrow> 'w \<Rightarrow> nat option \<Rightarrow> 'w xresolver \<Rightarrow> 'w xresolver" where
  "xemit alloc i w r s =
     (case AddValue alloc w (xr_sink s) of
        (Some j, k) \<Rightarrow> s\<lparr>xr_sink := k, xr_added := AList.update j (i, r) (xr_added s)\<rparr>
      | (None, k) \<Rightarrow> xrel r (s\<lparr>xr_sink := k\<rparr>))"

definition xadd :: "'w alloc \<Rightarrow> u32 \<Rightarrow> 'w xresult \<Rightarrow> 'w xresolver \<Rightarrow> 'w xresolver" where
  "xadd alloc i x s =
     (let (r, s) = xissue (xv_rel x) s in
      case xv_err x of
        Some e \<Rightarrow> xrel r (pushErr e s)
      | None \<Rightarrow> (if \<not> xv_ok x then xrel r s else xemit alloc i (xv_val x) r s))"

definition xremove :: "u32 \<Rightarrow> 'w xresolver \<Rightarrow> 'w xresolver" where
  "xremove i s =
     (case map_of (xr_added s) i of None \<Rightarrow> s
      | Some (j, r) \<Rightarrow> xrel r (s\<lparr>xr_added := AList.delete i (xr_added s), xr_sink := RemoveValue j (xr_sink s)\<rparr>))"

text \<open>\<open>ord\<close> is the order in which the map is visited.\<close>

definition xdispose ::
    "((u32 \<times> (u32 \<times> nat option)) list \<Rightarrow> (u32 \<times> (u32 \<times> nat option)) list) \<Rightarrow> 'w xresolver \<Rightarrow> 'w xresolver" where
  "xdispose ord s = fold (\<lambda>(j, (_, r)) s. (xrel r s)\<lparr>xr_added := AList.delete j (xr_added s)\<rparr>)
     (ord (xr_added s)) (pushErr DirectiveDisposed s)"

text \<open>Without a transformation the value itself is emitted if it has the type.\<close>

definition TransformResolver_handler where
  "TransformResolver_handler alloc xfrm cast ord = NewCallbackHandler
     (Some (\<lambda>i v s. case xfrm of
         Some f \<Rightarrow> xadd alloc i (f i v) s
       | None \<Rightarrow> (case cast v of None \<Rightarrow> s | Some w \<Rightarrow> xemit alloc i w None s)))
     (Some (\<lambda>i _. xremove i))
     (Some (xdispose ord))"

definition TypedTransformResolver_handler where
  "TypedTransformResolver_handler alloc xfrm cast ord unknown = NewTypedCallbackHandler cast
     (Some (\<lambda>i t s. xadd alloc i (xfrm i t) s))
     (Some (\<lambda>i _. xremove i))
     (Some (xdispose ord)) unknown"

text \<open>The idle callback.\<close>

definition xidle :: "bool \<Rightarrow> goerr option list \<Rightarrow> 'w xresolver \<Rightarrow> 'w xresolver" where
  "xidle isIdle errs s = (case firstErr errs of Some e \<Rightarrow> pushErr e s | None \<Rightarrow> s\<lparr>xr_idle := isIdle\<rparr>)"

datatype 'v xevent = XeRef "'v ref_event" | XeIdle bool "goerr option list"

fun xstep where
  "xstep h (XeRef e) s = deliver h e s"
| "xstep h (XeIdle isIdle errs) s = xidle isIdle errs s"

text \<open>
  The end of \<^verbatim>\<open>Resolve\<close>: the select takes the error of the channel or the end of the context (\<open>pick\<close>
  says which one if both are there); then the idle callback and the reference are released and the
  values are cleared. The call goes on (\<^term>\<open>None\<close>) while neither is there.
\<close>

definition xfinish :: "bool \<Rightarrow> bool \<Rightarrow> 'w xresolver \<Rightarrow> goerr option \<times> 'w xresolver" where
  "xfinish ctxDone pick s =
     (case (ctxDone, xr_errCh s) of
        (False, None) \<Rightarrow> (None, s)
      | (_, err) \<Rightarrow> ((if ctxDone \<and> (pick \<or> err = None) then Some Canceled else err),
          s\<lparr>xr_sink := ClearValues (xr_sink s)\<rparr>))"

text \<open>\<open>addErr\<close> is the error of \<^verbatim>\<open>AddDirective\<close>.\<close>

definition TransformResolver_Resolve where
  "TransformResolver_Resolve addErr alloc xfrm cast ord es ctxDone pick k =
     (case addErr of Some e \<Rightarrow> (Some e, xr_init k)
      | None \<Rightarrow> xfinish ctxDone pick (fold (xstep (TransformResolver_handler alloc xfrm cast ord)) es (xr_init k)))"

definition TypedTransformResolver_Resolve where
  "TypedTransformResolver_Resolve addErr alloc xfrm cast ord unknown es ctxDone pick k =
     (case xfrm of
        None \<Rightarrow> (Some (GoErr ''xfrm cannot be nil for TypedTransformResolver''), xr_init k)
      | Some f \<Rightarrow> (case addErr of Some e \<Rightarrow> (Some e, xr_init k)
          | None \<Rightarrow> xfinish ctxDone pick
              (fold (xstep (TypedTransformResolver_handler alloc f cast ord unknown)) es (xr_init k))))"

subsection \<open>The release functions\<close>

text \<open>The release functions that are still in the map.\<close>

definition heldRels :: "(u32 \<times> (u32 \<times> nat option)) list \<Rightarrow> nat multiset" where
  "heldRels m = mset (List.map_filter (\<lambda>e. snd (snd e)) m)"

lemma heldRels_simps [simp]:
  "heldRels [] = {#}"
  "heldRels ((j, (i, None)) # m) = heldRels m"
  "heldRels ((j, (i, Some t)) # m) = add_mset t (heldRels m)"
  by (simp_all add: heldRels_def map_filter_simps)

lemma heldRels_append: "heldRels (m @ m') = heldRels m + heldRels m'"
  by (induction m) (auto simp: heldRels_def List.map_filter_def)

lemma heldRels_perm: "mset m = mset m' \<Longrightarrow> heldRels m = heldRels m'"
  by (simp add: heldRels_def List.map_filter_def)

definition relOf :: "nat option \<Rightarrow> nat multiset" where
  "relOf r = (case r of None \<Rightarrow> {#} | Some t \<Rightarrow> {#t#})"

lemma heldRels_snoc: "heldRels (m @ [(j, (i, r))]) = heldRels m + relOf r"
  by (cases r) (simp_all add: relOf_def heldRels_append)

lemma heldRels_delete:
  assumes "distinct (map fst m)" "map_of m j = Some (i, r)"
  shows "heldRels m = heldRels (AList.delete j m) + relOf r"
  using assms
proof (induction m)
  case (Cons e m)
  obtain j' i' r' where e: "e = (j', (i', r'))" by (cases e)
  show ?case
  proof (cases "j' = j")
    case True
    then have "AList.delete j m = m" using Cons.prems(1) e by (simp add: delete_dropId dropId_absent)
    then show ?thesis using True e Cons.prems by (cases r) (simp_all add: relOf_def)
  next
    case False
    then show ?thesis using e Cons by (cases r') simp_all
  qed
qed simp

definition xrInv :: "'w xresolver \<Rightarrow> bool" where
  "xrInv s \<longleftrightarrow> distinct (map fst (xr_added s)) \<and> fst ` set (xr_added s) \<subseteq> set (sk_used (xr_sink s))
     \<and> mset (xr_released s) + heldRels (xr_added s) = mset [0..<xr_issued s]"

lemma xrInv_xrel: "xrInv (xrel r s) \<longleftrightarrow> distinct (map fst (xr_added s))
    \<and> fst ` set (xr_added s) \<subseteq> set (sk_used (xr_sink s))
    \<and> mset (xr_released s) + heldRels (xr_added s) + relOf r = mset [0..<xr_issued s]"
  by (cases r) (auto simp: xrInv_def xrel_def relOf_def ac_simps)

lemma pushErr_simps [simp]:
  "xr_sink (pushErr e s) = xr_sink s" "xr_added (pushErr e s) = xr_added s"
  "xr_released (pushErr e s) = xr_released s" "xr_issued (pushErr e s) = xr_issued s"
  by (simp_all add: pushErr_def split: option.split)

lemma xrInv_xemit:
  assumes ok: "alloc_ok alloc" and inv: "distinct (map fst (xr_added s))"
    "fst ` set (xr_added s) \<subseteq> set (sk_used (xr_sink s))"
    "mset (xr_released s) + heldRels (xr_added s) + relOf r = mset [0..<xr_issued s]"
  shows "xrInv (xemit alloc i w r s)"
proof (cases "alloc (xr_sink s) w")
  case None
  then show ?thesis using inv by (simp add: xemit_def AddValue_def xrInv_xrel)
next
  case (Some j)
  then have fresh: "j \<notin> fst ` set (xr_added s)" using ok inv(2) by (auto simp: alloc_ok_def)
  then have upd: "AList.update j (i, r) (xr_added s) = xr_added s @ [(j, (i, r))]" by (rule update_fresh)
  show ?thesis using Some inv fresh
    by (auto simp: xemit_def AddValue_def xrInv_def upd heldRels_snoc ac_simps)
qed

lemma xrInv_xadd: "alloc_ok alloc \<Longrightarrow> xrInv s \<Longrightarrow> xrInv (xadd alloc i x s)"
  by (auto simp: xadd_def xissue_def Let_def xrInv_xrel split: option.split intro!: xrInv_xemit)
    (auto simp: xrInv_def relOf_def)

lemma xrInv_xremove:
  assumes "xrInv s"
  shows "xrInv (xremove i s)"
proof (cases "map_of (xr_added s) i")
  case (Some e)
  obtain j r where e: "e = (j, r)" by (cases e)
  have "heldRels (xr_added s) = heldRels (AList.delete i (xr_added s)) + relOf r"
    using assms Some e by (intro heldRels_delete) (simp_all add: xrInv_def)
  moreover have "fst ` set (AList.delete i (xr_added s)) \<subseteq> fst ` set (xr_added s)"
    by (auto simp: delete_dropId)
  moreover have "xremove i s
      = xrel r (s\<lparr>xr_added := AList.delete i (xr_added s), xr_sink := RemoveValue j (xr_sink s)\<rparr>)"
    using Some e by (simp add: xremove_def)
  ultimately show ?thesis using assms
    by (simp only: xrInv_xrel) (auto simp: xrInv_def RemoveValue_def distinct_delete add.assoc)
qed (use assms in \<open>simp add: xremove_def\<close>)

lemma xdispose_fold:
  assumes "distinct (map fst m)" "xrInv s" "mset m = mset (xr_added s)"
  shows "let t = fold (\<lambda>(j, (_, r)) s. (xrel r s)\<lparr>xr_added := AList.delete j (xr_added s)\<rparr>) m s
    in xrInv t \<and> xr_added t = []"
  using assms
proof (induction m arbitrary: s)
  case (Cons e m)
  obtain j i r where e: "e = (j, (i, r))" by (cases e)
  let ?t = "(xrel r s)\<lparr>xr_added := AList.delete j (xr_added s)\<rparr>"
  have d: "distinct (map fst (xr_added s))" using Cons.prems(2) by (simp add: xrInv_def)
  have "(j, (i, r)) \<in> set (xr_added s)" using Cons.prems(3) e by (metis list.set_intros(1) mset_eq_setD)
  then have m: "map_of (xr_added s) j = Some (i, r)" using d by simp
  have held: "heldRels (xr_added s) = heldRels (AList.delete j (xr_added s)) + relOf r"
    using d m by (rule heldRels_delete)
  have "mset (AList.delete j (xr_added s)) = filter_mset (\<lambda>e. fst e \<noteq> j) (mset (e # m))"
    using Cons.prems(3) by (simp add: delete_dropId mset_dropId)
  also have "\<dots> = mset m" using Cons.prems(1) e by (force simp: filter_mset_eq_conv)
  finally have rest: "mset m = mset (xr_added ?t)" by simp
  have "fst ` set (AList.delete j (xr_added s)) \<subseteq> fst ` set (xr_added s)" by (auto simp: delete_dropId)
  then have "xrInv ?t" using Cons.prems(2) held
    by (cases r) (auto simp: xrInv_def xrel_def relOf_def distinct_delete)
  then show ?case using Cons.IH[of ?t] Cons.prems(1) rest e by simp
qed (simp add: Let_def)

lemma xrInv_xdispose:
  assumes "map_perm ord" "xrInv s"
  shows "xrInv (xdispose ord s) \<and> xr_added (xdispose ord s) = []"
proof -
  have p: "mset (ord (xr_added s)) = mset (xr_added s)" using assms(1) by (simp add: map_perm_def)
  then have "distinct (map fst (ord (xr_added s)))"
    using assms(2) by (metis mset_eq_imp_distinct_iff mset_map xrInv_def)
  moreover have "xrInv (pushErr DirectiveDisposed s)" using assms(2) by (simp add: xrInv_def)
  ultimately show ?thesis using xdispose_fold[of "ord (xr_added s)" "pushErr DirectiveDisposed s"] p
    by (simp add: xdispose_def Let_def)
qed

lemma xrInv_step:
  assumes "alloc_ok alloc" "map_perm ord" "xrInv s"
  shows "xrInv (xstep (TransformResolver_handler alloc xfrm cast ord) e s)"
proof (cases e)
  case (XeRef r)
  have "xrInv (xemit alloc i w None s)" for i w
    using assms(1,3) by (intro xrInv_xemit) (simp_all add: xrInv_def relOf_def)
  then show ?thesis using assms XeRef xrInv_xadd xrInv_xremove conjunct1[OF xrInv_xdispose]
    by (cases r) (auto simp: TransformResolver_handler_def NewCallbackHandler_def split: option.split)
next
  case (XeIdle b errs)
  then show ?thesis using assms(3) by (auto simp: xidle_def xrInv_def split: option.split)
qed

text \<open>
  C34: the transforming resolver never calls a release function twice and never loses one before its
  directive ends: at any time the functions called and those in the map are together all that were
  obtained, and after the directive was disposed all were called.
\<close>

theorem TransformResolver_releases:
  assumes "alloc_ok alloc" "map_perm ord"
    and "s = fold (xstep (TransformResolver_handler alloc xfrm cast ord)) es (xr_init k)"
  shows "mset (xr_released s) + heldRels (xr_added s) = mset [0..<xr_issued s]
    \<and> (es \<noteq> [] \<and> last es = XeRef Disposed \<longrightarrow> mset (xr_released s) = mset [0..<xr_issued s])"
proof -
  have keep: "xrInv (fold (xstep (TransformResolver_handler alloc xfrm cast ord)) es' (xr_init k))" for es'
    by (rule fold_invariant[where Q = "\<lambda>_. True"]) (simp_all add: xrInv_step assms(1,2), simp add: xrInv_def xr_init_def)
  have "heldRels (xr_added s) = {#}" if "es \<noteq> []" "last es = XeRef Disposed"
  proof -
    have "es = butlast es @ [XeRef Disposed]" using that by (metis append_butlast_last_id)
    then have "s = xstep (TransformResolver_handler alloc xfrm cast ord) (XeRef Disposed)
        (fold (xstep (TransformResolver_handler alloc xfrm cast ord)) (butlast es) (xr_init k))"
      using assms(3) by (metis fold_append fold_simps(1,2) o_apply)
    then have "s = xdispose ord (fold (xstep (TransformResolver_handler alloc xfrm cast ord)) (butlast es) (xr_init k))"
      by (simp add: TransformResolver_handler_def NewCallbackHandler_def)
    then show ?thesis using xrInv_xdispose[OF assms(2) keep[of "butlast es"]] by simp
  qed
  then show ?thesis using keep[of es] assms(3) by (auto simp: xrInv_def)
qed

theorem TransformResolver_releases_witness:
  "\<exists>s :: nat xresolver. mset (xr_released s) + heldRels (xr_added s) = mset [0..<xr_issued s]
    \<and> xr_issued s = 2 \<and> xr_released s = [1]"
proof -
  let ?f = "\<lambda>(i::u32) v. \<lparr>xv_val = v + 1, xv_rel = True, xv_ok = even v, xv_err = None\<rparr>"
  let ?s = "fold (xstep (TransformResolver_handler (firstFree (\<lambda>_. True)) (Some ?f) (\<lambda>_. None) (\<lambda>m. m)))
    [XeRef (Added 5 (10::nat)), XeRef (Added 6 11), XeIdle True []] (xr_init sink_init)"
  have "xr_issued ?s = 2" "xr_released ?s = [1]" by code_simp+
  moreover have "map_perm (\<lambda>m. m)" by (simp add: map_perm_def)
  ultimately show ?thesis using TransformResolver_releases[OF firstFree_ok _ refl] by blast
qed

text \<open>
  The map is keyed by the identifiers of the target, but a removal looks for the identifier of the
  source. When they differ, a removed value stays in the target.
\<close>

theorem TransformResolver_stale_value:
  "let s = fold (xstep (TransformResolver_handler (firstFree (\<lambda>_. True)) None Some ord))
       [XeRef (Added 5 v), XeRef (Removed 5 v)] (xr_init sink_init)
   in sk_vals (xr_sink s) = [(1, v)]"
  by (simp add: TransformResolver_handler_def NewCallbackHandler_def xemit_def xremove_def AddValue_def firstFree_def
      xr_init_def sink_init_def Let_def)

text \<open>When the context is canceled, the release functions in the map are never called.\<close>

theorem TransformResolver_cancel_leak:
  "let f = \<lambda>(i::u32) v. \<lparr>xv_val = v, xv_rel = True, xv_ok = True, xv_err = None\<rparr>;
       (res, s) = TransformResolver_Resolve None (firstFree (\<lambda>_. True)) (Some f) cast ord [XeRef (Added 1 v)] True pick sink_init
   in res = Some Canceled \<and> xr_issued s = 1 \<and> xr_released s = [] \<and> sk_vals (xr_sink s) = []"
  by (simp add: TransformResolver_Resolve_def TransformResolver_handler_def NewCallbackHandler_def xadd_def xissue_def
      xemit_def xfinish_def AddValue_def firstFree_def xr_init_def sink_init_def ClearValues_def Let_def)

section \<open>Unique lists and maps\<close>

text \<open>
  The callback that the keyed list or map calls for each key that was added, changed or removed; the map
  \<^verbatim>\<open>valueIds\<close> holds the identifiers of the values emitted. \<^verbatim>\<open>NewUniqueListResolver\<close> and
  \<^verbatim>\<open>NewUniqueMapResolver\<close> give the same callback, and so do the two constructors with a transformation.
  The containers (package \<^verbatim>\<open>unique\<close> of another repository) call it with a key that is new when it is
  added and known when it changes or goes.
\<close>

record ('k, 'v) unique =
  uq_ids :: "('k \<times> u32) list"
  uq_sink :: "'v sink"

definition unique_init :: "('k, 'v) unique" where
  "unique_init = \<lparr>uq_ids = [], uq_sink = sink_init\<rparr>"

definition uqAdd :: "'v alloc \<Rightarrow> 'k \<Rightarrow> 'v \<Rightarrow> ('k, 'v) unique \<Rightarrow> ('k, 'v) unique" where
  "uqAdd alloc k v s = (case AddValue alloc v (uq_sink s) of
      (Some i, t) \<Rightarrow> \<lparr>uq_ids = AList.update k i (uq_ids s), uq_sink = t\<rparr>
    | (None, t) \<Rightarrow> s\<lparr>uq_sink := t\<rparr>)"

definition uqDrop :: "'k \<Rightarrow> ('k, 'v) unique \<Rightarrow> ('k, 'v) unique" where
  "uqDrop k s = (case map_of (uq_ids s) k of None \<Rightarrow> s
    | Some i \<Rightarrow> \<lparr>uq_ids = AList.delete k (uq_ids s), uq_sink = RemoveValue i (uq_sink s)\<rparr>)"

definition uniqueChanged :: "'v alloc \<Rightarrow> 'k \<Rightarrow> 'v \<Rightarrow> bool \<Rightarrow> bool \<Rightarrow> ('k, 'v) unique \<Rightarrow> ('k, 'v) unique" where
  "uniqueChanged alloc k v added removed s =
     (if added then uqAdd alloc k v s
      else let s = uqDrop k s in (if removed then s else uqAdd alloc k v s))"

definition uniqueXfrmChanged ::
    "'w alloc \<Rightarrow> ('k \<Rightarrow> 'v \<Rightarrow> 'w option) \<Rightarrow> 'k \<Rightarrow> 'v \<Rightarrow> bool \<Rightarrow> bool \<Rightarrow> ('k, 'w) unique \<Rightarrow> ('k, 'w) unique" where
  "uniqueXfrmChanged alloc xfrm k v added removed s =
     (let emit = \<lambda>s. (case xfrm k v of Some w \<Rightarrow> uqAdd alloc k w s | None \<Rightarrow> s) in
      if added then emit s
      else let s = uqDrop k s in (if removed then s else emit s))"

lemma uniqueChanged_as_xfrm:
  "uniqueChanged alloc k v = uniqueXfrmChanged alloc (\<lambda>_ v. Some v) k v"
  by (intro ext) (simp add: uniqueChanged_def uniqueXfrmChanged_def Let_def)

text \<open>The changes of a keyed container, and its contents.\<close>

datatype change = KeyAdded | KeyChanged | KeyRemoved

fun changes :: "('k \<rightharpoonup> 'v) \<Rightarrow> ('k \<times> 'v \<times> change) list \<Rightarrow> bool" where
  "changes cur [] \<longleftrightarrow> True"
| "changes cur ((k, v, c) # cs) \<longleftrightarrow> (c = KeyAdded \<longleftrightarrow> cur k = None)
     \<and> changes (cur(k := (if c = KeyRemoved then None else Some v))) cs"

fun contents :: "('k \<rightharpoonup> 'v) \<Rightarrow> ('k \<times> 'v \<times> change) list \<Rightarrow> ('k \<rightharpoonup> 'v)" where
  "contents cur [] = cur"
| "contents cur ((k, v, c) # cs) = contents (cur(k := (if c = KeyRemoved then None else Some v))) cs"

definition applyChanges where
  "applyChanges cb cs s = fold (\<lambda>(k, v, c). cb k v (c = KeyAdded) (c = KeyRemoved)) cs s"

text \<open>The four resolvers after some changes of their container.\<close>

definition NewUniqueListResolver where
  "NewUniqueListResolver alloc cs = applyChanges (uniqueChanged alloc) cs unique_init"

definition NewUniqueListXfrmResolver where
  "NewUniqueListXfrmResolver alloc xfrm cs = applyChanges (uniqueXfrmChanged alloc xfrm) cs unique_init"

definition NewUniqueMapResolver where
  "NewUniqueMapResolver alloc cs = applyChanges (uniqueChanged alloc) cs unique_init"

definition NewUniqueMapXfrmResolver where
  "NewUniqueMapXfrmResolver alloc xfrm cs = applyChanges (uniqueXfrmChanged alloc xfrm) cs unique_init"

text \<open>The contract of a client of such a container.\<close>

locale keyed_client =
  fixes cb :: "'k \<Rightarrow> 'v \<Rightarrow> bool \<Rightarrow> bool \<Rightarrow> 's \<Rightarrow> 's" and Inv :: "('k \<rightharpoonup> 'v) \<Rightarrow> 's \<Rightarrow> bool"
  assumes added: "Inv cur s \<Longrightarrow> cur k = None \<Longrightarrow> Inv (cur(k \<mapsto> v)) (cb k v True False s)"
    and changed: "Inv cur s \<Longrightarrow> cur k \<noteq> None \<Longrightarrow> Inv (cur(k \<mapsto> v)) (cb k v False False s)"
    and removed: "Inv cur s \<Longrightarrow> cur k \<noteq> None \<Longrightarrow> Inv (cur(k := None)) (cb k v False True s)"
begin

lemma applyChanges_Inv: "changes cur cs \<Longrightarrow> Inv cur s \<Longrightarrow> Inv (contents cur cs) (applyChanges cb cs s)"
proof (induction cur cs arbitrary: s rule: changes.induct)
  case (2 cur k v c cs)
  then show ?case using added[of cur s k v] changed[of cur s k v] removed[of cur s k v]
    by (cases c) (simp_all add: applyChanges_def fun_upd_def)
qed (simp add: applyChanges_def)

end

text \<open>
  The target holds exactly one value per emitted key, the image of what the key has now; as long as the
  target has identifiers, every key whose image it accepts is emitted.
\<close>

definition uqInv :: "('w \<Rightarrow> bool) \<Rightarrow> ('k \<Rightarrow> 'v \<Rightarrow> 'w option) \<Rightarrow> ('k \<rightharpoonup> 'v) \<Rightarrow> ('k, 'w) unique \<Rightarrow> bool" where
  "uqInv accept xfrm cur s \<longleftrightarrow>
     set (sk_vals (uq_sink s)) = {(i, w). \<exists>k v. map_of (uq_ids s) k = Some i \<and> cur k = Some v \<and> xfrm k v = Some w}
     \<and> (\<forall>k i. map_of (uq_ids s) k = Some i \<longrightarrow> i \<in> set (sk_used (uq_sink s))
          \<and> (\<exists>v w. cur k = Some v \<and> xfrm k v = Some w \<and> accept w))
     \<and> (\<forall>k k' i. map_of (uq_ids s) k = Some i \<and> map_of (uq_ids s) k' = Some i \<longrightarrow> k' = k)
     \<and> (length (sk_used (uq_sink s)) < 2 ^ 32 - 1 \<longrightarrow>
          (\<forall>k v w. cur k = Some v \<and> xfrm k v = Some w \<and> accept w \<longrightarrow> map_of (uq_ids s) k \<noteq> None))"

text \<open>A key that is not emitted may take any contents that are not to be emitted.\<close>

lemma uqInv_silent:
  assumes "uqInv accept xfrm cur s" "map_of (uq_ids s) k = None"
    and "length (sk_used (uq_sink s)) < 2 ^ 32 - 1 \<Longrightarrow> \<forall>v w. n = Some v \<and> xfrm k v = Some w \<longrightarrow> \<not> accept w"
  shows "uqInv accept xfrm (cur(k := n)) s"
proof -
  have same: "map_of (uq_ids s) k' = Some i \<Longrightarrow> (cur(k := n)) k' = cur k'" for k' i using assms(2) by auto
  then have "{(i, w). \<exists>k' v. map_of (uq_ids s) k' = Some i \<and> (cur(k := n)) k' = Some v \<and> xfrm k' v = Some w}
      = {(i, w). \<exists>k' v. map_of (uq_ids s) k' = Some i \<and> cur k' = Some v \<and> xfrm k' v = Some w}"
    by (intro Collect_cong) (auto simp del: fun_upd_apply)
  then show ?thesis using assms same unfolding uqInv_def by (auto split: if_splits)
qed

lemma uqInv_drop:
  assumes "uqInv accept xfrm cur s"
  shows "uqInv accept xfrm (cur(k := None)) (uqDrop k s) \<and> map_of (uq_ids (uqDrop k s)) k = None"
proof (cases "map_of (uq_ids s) k")
  case None
  then show ?thesis using assms uqInv_silent[of accept xfrm cur s k None]
    by (simp add: uqDrop_def)
next
  case (Some i)
  then show ?thesis using assms unfolding uqInv_def uqDrop_def
    by (auto simp: RemoveValue_def delete_conv' split: if_splits) (metis option.inject)+
qed

lemma uqInv_add:
  assumes inv: "uqInv accept xfrm cur s" and law: "alloc_law accept alloc"
    and k: "map_of (uq_ids s) k = None" "cur k = None"
  shows "uqInv accept xfrm (cur(k \<mapsto> v)) (case xfrm k v of Some w \<Rightarrow> uqAdd alloc k w s | None \<Rightarrow> s)"
proof (cases "xfrm k v")
  case None
  then show ?thesis using uqInv_silent[OF inv k(1), of "Some v"] by simp
next
  case (Some w)
  show ?thesis
  proof (cases "alloc (uq_sink s) w")
    case None
    then have "length (sk_used (uq_sink s)) < 2 ^ 32 - 1 \<Longrightarrow> \<not> accept w"
      using law by (metis alloc_law_def)
    then show ?thesis using uqInv_silent[OF inv k(1), of "Some v"] Some None
      by (simp add: uqAdd_def AddValue_def)
  next
    case (Some i)
    have i: "i \<notin> set (sk_used (uq_sink s))" and acc: "accept w"
      using Some law unfolding alloc_law_def alloc_ok_def by (blast, metis option.simps(3))
    show ?thesis using inv k \<open>xfrm k v = Some w\<close> Some i acc unfolding uqInv_def uqAdd_def AddValue_def
      by (auto simp: update_conv' split: if_splits) (metis option.distinct(1))+
  qed
qed

text \<open>So there is an injective assignment of identifiers to the accepted keys, which gives the values.\<close>

lemma uqInv_idOf:
  assumes "uqInv accept xfrm cur s" "length (sk_used (uq_sink s)) < 2 ^ 32 - 1"
  shows "\<exists>idOf. dom idOf = {k. \<exists>v w. cur k = Some v \<and> xfrm k v = Some w \<and> accept w} \<and> inj_on idOf (dom idOf)
    \<and> set (sk_vals (uq_sink s)) = {(i, w). \<exists>k v. idOf k = Some i \<and> cur k = Some v \<and> xfrm k v = Some w}"
proof -
  have inv:
      "set (sk_vals (uq_sink s)) = {(i, w). \<exists>k v. map_of (uq_ids s) k = Some i \<and> cur k = Some v \<and> xfrm k v = Some w}"
      "\<And>k i. map_of (uq_ids s) k = Some i \<Longrightarrow> \<exists>v w. cur k = Some v \<and> xfrm k v = Some w \<and> accept w"
      "\<And>k k' i. map_of (uq_ids s) k = Some i \<Longrightarrow> map_of (uq_ids s) k' = Some i \<Longrightarrow> k' = k"
      "\<And>k v w. cur k = Some v \<Longrightarrow> xfrm k v = Some w \<Longrightarrow> accept w \<Longrightarrow> map_of (uq_ids s) k \<noteq> None"
    using assms unfolding uqInv_def by blast+
  have "inj_on (map_of (uq_ids s)) (dom (map_of (uq_ids s)))"
    using inv(3) by (auto simp: inj_on_def dom_def)
  moreover have "dom (map_of (uq_ids s)) = {k. \<exists>v w. cur k = Some v \<and> xfrm k v = Some w \<and> accept w}"
    using inv(2,4) by blast
  ultimately show ?thesis using inv(1) by blast
qed

interpretation unique: keyed_client "uniqueXfrmChanged alloc xfrm"
  "\<lambda>cur s. alloc_law accept alloc \<longrightarrow> uqInv accept xfrm cur s"
  for alloc :: "'w alloc" and xfrm :: "'k \<Rightarrow> 'v \<Rightarrow> 'w option" and accept
proof (unfold_locales, goal_cases)
  case (1 cur s k v)
  then have "map_of (uq_ids s) k = None" if "alloc_law accept alloc"
    using that by (cases "map_of (uq_ids s) k") (fastforce simp: uqInv_def)+
  then show ?case using 1 uqInv_add[of accept xfrm cur s alloc k v] by (simp add: uniqueXfrmChanged_def)
next
  case (2 cur s k v)
  then show ?case
    using uqInv_drop[of accept xfrm cur s k] uqInv_add[of accept xfrm "cur(k := None)" "uqDrop k s" alloc k v]
    by (simp add: uniqueXfrmChanged_def)
next
  case (3 cur s k v)
  then show ?case using uqInv_drop[of accept xfrm cur s k] by (simp add: uniqueXfrmChanged_def)
qed

text \<open>
  C33: a unique list or map resolver keeps its target equal to the container: whatever keys come, change
  and go, the values emitted are exactly the accepted images of the present contents, one under its own
  identifier for each key, and no stale version of a changed key is left.
\<close>

theorem UniqueXfrmResolver_refines:
  assumes "changes Map.empty cs" "alloc_law accept alloc"
    and s_def: "s = NewUniqueListXfrmResolver alloc xfrm cs"
    and small: "length (sk_used (uq_sink s)) < 2 ^ 32 - 1"
  shows "\<exists>idOf. dom idOf = {k. \<exists>v w. contents Map.empty cs k = Some v \<and> xfrm k v = Some w \<and> accept w}
    \<and> inj_on idOf (dom idOf)
    \<and> set (sk_vals (uq_sink s))
        = {(i, w). \<exists>k v. idOf k = Some i \<and> contents Map.empty cs k = Some v \<and> xfrm k v = Some w}"
proof -
  have "uqInv accept xfrm Map.empty unique_init" by (simp add: uqInv_def unique_init_def sink_init_def)
  then have "uqInv accept xfrm (contents Map.empty cs) s"
    using unique.applyChanges_Inv[OF assms(1), of accept alloc xfrm unique_init] assms(2) s_def
    by (simp add: NewUniqueListXfrmResolver_def)
  then show ?thesis using small by (rule uqInv_idOf)
qed

theorem UniqueXfrmResolver_refines_witness:
  "sk_vals (uq_sink (NewUniqueListXfrmResolver (firstFree (\<lambda>_. True)) (\<lambda>k v. if v = 0 then None else Some (k + v))
     [(10::nat, 1, KeyAdded), (20, 2, KeyAdded), (10, 5, KeyChanged), (20, 2, KeyRemoved)])) = [(3, 15::nat)]
   \<and> (\<exists>idOf :: nat \<rightharpoonup> u32. dom idOf = {10} \<and> inj_on idOf (dom idOf))"
proof -
  let ?cs = "[(10::nat, 1::nat, KeyAdded), (20, 2, KeyAdded), (10, 5, KeyChanged), (20, 2, KeyRemoved)]"
  let ?x = "\<lambda>k v::nat. if v = 0 then None else Some (k + v)"
  let ?s = "NewUniqueListXfrmResolver (firstFree (\<lambda>_. True)) ?x ?cs"
  have v: "sk_vals (uq_sink ?s) = [(3, 15)]" "length (sk_used (uq_sink ?s)) = 3" by code_simp+
  then have small: "length (sk_used (uq_sink ?s)) < 2 ^ 32 - 1" by simp
  have cs: "changes Map.empty ?cs" by simp
  obtain idOf :: "nat \<rightharpoonup> u32" where i: "dom idOf = {k. \<exists>v w. contents Map.empty ?cs k = Some v \<and> ?x k v = Some w \<and> True}"
      "inj_on idOf (dom idOf)"
    using UniqueXfrmResolver_refines[OF cs firstFree_law refl small] by (elim exE conjE) (rule that; assumption)
  have "dom idOf = {10}" unfolding i(1) by auto
  with v(1) i(2) show ?thesis by (intro conjI exI[of _ idOf])
qed

lemma UniqueResolver_as_xfrm:
  "NewUniqueListResolver alloc cs = NewUniqueListXfrmResolver alloc (\<lambda>_ v. Some v) cs"
  "NewUniqueMapResolver alloc cs = NewUniqueListXfrmResolver alloc (\<lambda>_ v. Some v) cs"
  "NewUniqueMapXfrmResolver alloc xfrm cs = NewUniqueListXfrmResolver alloc xfrm cs"
  by (simp_all add: NewUniqueListResolver_def NewUniqueMapResolver_def NewUniqueListXfrmResolver_def
      NewUniqueMapXfrmResolver_def applyChanges_def uniqueChanged_as_xfrm)

end
