(* ===== verification/FactoryResolver.thy ===== *)
theory FactoryResolver
  imports Version BusOneOff BusHandlers
begin

text \<open>
  The registry of controller factories (\<^verbatim>\<open>controller/resolver/static\<close>), the resolvers of the
  directives that look factories up (\<^verbatim>\<open>controller/resolver\<close>), and when those directives are equivalent.
\<close>

section \<open>The static resolver\<close>

text \<open>A factory: its configuration identifier, its version and the object.\<close>

record 'f factory =
  fa_configID :: string
  fa_version :: version
  fa_obj :: 'f

text \<open>
  The map of factories and the number of broadcasts: a wait channel is the number at the time it was
  taken, and is closed once the number is higher.
\<close>

record 'f static_resolver =
  sr_factories :: "(string \<times> 'f factory) list"
  sr_bcast :: nat

definition AddFactory :: "'f factory \<Rightarrow> 'f static_resolver \<Rightarrow> 'f static_resolver" where
  "AddFactory factory r =
     (let add = r\<lparr>sr_factories := AList.update (fa_configID factory) factory (sr_factories r), sr_bcast := sr_bcast r + 1\<rparr>
      in case map_of (sr_factories r) (fa_configID factory) of
           None \<Rightarrow> add
         | Some existing \<Rightarrow> (if GTE (fa_version existing) (fa_version factory) then r else add))"

definition NewResolver :: "'f factory list \<Rightarrow> 'f static_resolver" where
  "NewResolver factories = fold AddFactory factories \<lparr>sr_factories = [], sr_bcast = 0\<rparr>"

definition GetFactories :: "'f static_resolver \<Rightarrow> 'f factory list" where
  "GetFactories r = sort_key fa_configID (map snd (sr_factories r))"

text \<open>The constructor of configurations is the factory under its configuration identifier.\<close>

definition GetConfigCtorByID :: "string \<Rightarrow> 'f static_resolver \<Rightarrow> (string \<times> 'f factory) option" where
  "GetConfigCtorByID cid r =
     map_option (\<lambda>f. (fa_configID f, f)) (List.find (\<lambda>f. fa_configID f = cid) (map snd (sr_factories r)))"

definition GetFactoryMatchingConfig :: "string \<Rightarrow> 'f static_resolver \<Rightarrow> 'f factory option" where
  "GetFactoryMatchingConfig cid r = map_of (sr_factories r) cid"

definition GetFactoryMatchingConfigWatch :: "string \<Rightarrow> 'f static_resolver \<Rightarrow> 'f factory option \<times> nat option" where
  "GetFactoryMatchingConfigWatch cid r = (case map_of (sr_factories r) cid of
     Some f \<Rightarrow> (Some f, None) | None \<Rightarrow> (None, Some (sr_bcast r)))"

text \<open>The factory that counts for an identifier: the first of those with the highest version.\<close>

definition isBest :: "string \<Rightarrow> 'f factory list \<Rightarrow> 'f factory \<Rightarrow> bool" where
  "isBest cid fs f \<longleftrightarrow> fa_configID f = cid
     \<and> (\<exists>ys zs. fs = ys @ f # zs \<and> (\<forall>g \<in> set ys. fa_configID g = cid \<longrightarrow> fa_version g < fa_version f)
          \<and> (\<forall>g \<in> set zs. fa_configID g = cid \<longrightarrow> fa_version g \<le> fa_version f))"

definition srInv :: "'f factory list \<Rightarrow> 'f static_resolver \<Rightarrow> bool" where
  "srInv fs r \<longleftrightarrow> distinct (map fst (sr_factories r)) \<and> (\<forall>(c, f) \<in> set (sr_factories r). fa_configID f = c)
     \<and> (\<forall>cid. case map_of (sr_factories r) cid of
          None \<Rightarrow> \<forall>g \<in> set fs. fa_configID g \<noteq> cid | Some f \<Rightarrow> isBest cid fs f)"

lemma isBest_skip:
  "isBest cid fs f \<Longrightarrow> (fa_configID g = cid \<Longrightarrow> fa_version g \<le> fa_version f) \<Longrightarrow> isBest cid (fs @ [g]) f"
proof -
  assume best: "isBest cid fs f" and g: "fa_configID g = cid \<Longrightarrow> fa_version g \<le> fa_version f"
  then obtain ys zs where "fs = ys @ f # zs" "\<forall>g \<in> set ys. fa_configID g = cid \<longrightarrow> fa_version g < fa_version f"
      "\<forall>g \<in> set zs. fa_configID g = cid \<longrightarrow> fa_version g \<le> fa_version f" "fa_configID f = cid"
    by (auto simp: isBest_def)
  then show ?thesis using g unfolding isBest_def by (intro conjI exI[of _ ys] exI[of _ "zs @ [g]"]) auto
qed

lemma isBest_new:
  assumes "fa_configID g = cid" "\<forall>h \<in> set fs. fa_configID h = cid \<longrightarrow> fa_version h < fa_version g"
  shows "isBest cid (fs @ [g]) g"
  using assms unfolding isBest_def by (intro conjI exI[of _ fs] exI[of _ "[]"]) auto

lemma isBest_max:
  assumes "isBest cid fs f" "h \<in> set fs" "fa_configID h = cid"
  shows "fa_version h \<le> fa_version f"
proof -
  obtain ys zs where "fs = ys @ f # zs" "\<forall>g \<in> set ys. fa_configID g = cid \<longrightarrow> fa_version g < fa_version f"
      "\<forall>g \<in> set zs. fa_configID g = cid \<longrightarrow> fa_version g \<le> fa_version f"
    using assms(1) by (auto simp: isBest_def)
  then show ?thesis using assms(2,3) by (auto intro: less_imp_le)
qed

lemma mem_alist_update: "(c, x) \<in> set (AList.update k v m) \<Longrightarrow> (c, x) = (k, v) \<or> (c, x) \<in> set m"
  by (induction m) (auto split: if_splits)

lemma srInv_AddFactory:
  assumes inv: "srInv fs r"
  shows "srInv (fs @ [g]) (AddFactory g r)"
proof -
  let ?c = "fa_configID g"
  note look = inv[unfolded srInv_def, THEN conjunct2, THEN conjunct2, rule_format]
  have keep: "case map_of (sr_factories r) cid of
      None \<Rightarrow> \<forall>h \<in> set (fs @ [g]). fa_configID h \<noteq> cid | Some f \<Rightarrow> isBest cid (fs @ [g]) f"
    if "cid \<noteq> ?c" for cid
    using look[of cid] that by (auto split: option.splits intro: isBest_skip)
  have upd: "srInv (fs @ [g]) (r\<lparr>sr_factories := AList.update ?c g (sr_factories r), sr_bcast := n\<rparr>)"
    if "isBest ?c (fs @ [g]) g" for n
  proof -
    have "(case map_of (AList.update ?c g (sr_factories r)) cid of
        None \<Rightarrow> \<forall>h \<in> set (fs @ [g]). fa_configID h \<noteq> cid | Some f \<Rightarrow> isBest cid (fs @ [g]) f)" for cid
      using that keep[of cid] by (cases "cid = ?c") (auto simp: update_conv')
    moreover have "\<forall>(c, f) \<in> set (AList.update ?c g (sr_factories r)). fa_configID f = c"
      using inv by (auto simp: srInv_def dest!: mem_alist_update)
    ultimately show ?thesis using inv by (simp add: srInv_def distinct_update)
  qed
  show ?thesis
  proof (cases "map_of (sr_factories r) ?c")
    case None
    then have "isBest ?c (fs @ [g]) g" using look[of ?c] by (auto intro: isBest_new)
    then show ?thesis using None upd by (simp add: AddFactory_def)
  next
    case (Some f)
    then have best: "isBest ?c fs f" using look[of ?c] by simp
    show ?thesis
    proof (cases "fa_version g \<le> fa_version f")
      case True
      have "isBest ?c (fs @ [g]) f" using best True by (rule isBest_skip)
      then have "case map_of (sr_factories r) cid of
          None \<Rightarrow> \<forall>h \<in> set (fs @ [g]). fa_configID h \<noteq> cid | Some f \<Rightarrow> isBest cid (fs @ [g]) f" for cid
        using Some keep[of cid] by (cases "cid = ?c") simp_all
      then show ?thesis using inv True Some by (simp add: AddFactory_def GTE_iff srInv_def)
    next
      case False
      have "fa_version h < fa_version g" if "h \<in> set fs" "fa_configID h = ?c" for h
        using isBest_max[OF best that] False by simp
      then have "isBest ?c (fs @ [g]) g" by (auto intro: isBest_new)
      then show ?thesis using Some False upd by (simp add: AddFactory_def GTE_iff)
    qed
  qed
qed

lemma srInv_NewResolver: "srInv fs (NewResolver fs)"
proof (induction fs rule: rev_induct)
  case Nil
  then show ?case by (simp add: srInv_def NewResolver_def)
next
  case (snoc g fs)
  then show ?case using srInv_AddFactory[of fs "NewResolver fs" g] by (simp add: NewResolver_def)
qed

text \<open>
  C30: the static resolver keeps for each configuration identifier the first of the factories with the
  highest version that were added, in whatever order they came; both lookups find it, and only
  identifiers without a factory find none.
\<close>

theorem StaticResolver_highest:
  "(case GetFactoryMatchingConfig cid (NewResolver fs) of
      None \<Rightarrow> GetConfigCtorByID cid (NewResolver fs) = None \<and> list_all (\<lambda>g. fa_configID g \<noteq> cid) fs
    | Some f \<Rightarrow> GetConfigCtorByID cid (NewResolver fs) = Some (cid, f) \<and> isBest cid fs f)"
proof -
  have inv: "srInv fs (NewResolver fs)" by (rule srInv_NewResolver)
  then have ids: "fa_configID f = c" if "(c, f) \<in> set (sr_factories (NewResolver fs))" for c f
    using that by (auto simp: srInv_def)
  have find: "List.find (\<lambda>f. fa_configID f = cid) (map snd m) = map_of m cid"
    if "\<And>c f. (c, f) \<in> set m \<Longrightarrow> fa_configID f = c" for m :: "(string \<times> 'a factory) list"
    using that
  proof (induction m)
    case (Cons e m)
    have "fa_configID (snd e) = fst e" using Cons.prems[of "fst e" "snd e"] by simp
    moreover have "List.find (\<lambda>f. fa_configID f = cid) (map snd m) = map_of m cid"
      using Cons.prems by (intro Cons.IH) simp
    ultimately show ?case by (cases e) simp
  qed simp
  have "case map_of (sr_factories (NewResolver fs)) cid of
      None \<Rightarrow> \<forall>g \<in> set fs. fa_configID g \<noteq> cid | Some f \<Rightarrow> isBest cid fs f"
    using inv by (simp add: srInv_def)
  then show ?thesis using find[OF ids]
    by (auto simp: GetFactoryMatchingConfig_def GetConfigCtorByID_def list_all_iff isBest_def split: option.splits)
qed

text \<open>The list of factories is the contents of the map, in the order of the identifiers.\<close>

lemma GetFactories_sorted:
  "sorted (map fa_configID (GetFactories r)) \<and> mset (GetFactories r) = mset (map snd (sr_factories r))"
  by (simp add: GetFactories_def)

section \<open>\<^verbatim>\<open>LoadFactoryByConfigResolver\<close>\<close>

text \<open>
  The resolver as a machine beside the registry: it looks up, waits for a broadcast after the number it
  took, holds an accepted value until its context ends, or is done. With no watcher it looks up once.
\<close>

datatype load_pc = Look | WaitFor nat | Holding u32 | LoadDone

record 'f load =
  ld_reg :: "'f static_resolver"
  ld_sink :: "'f factory sink"
  ld_pc :: load_pc

datatype 'f load_event = Register "'f factory" | Turn | CtxDone

fun loadTurn :: "'f factory alloc \<Rightarrow> bool \<Rightarrow> string \<Rightarrow> 'f load \<Rightarrow> 'f load" where
  "loadTurn alloc watcher cid s =
     (case ld_pc s of
        Look \<Rightarrow>
          (let (f, waitCh) = (if watcher then GetFactoryMatchingConfigWatch cid (ld_reg s)
               else (GetFactoryMatchingConfig cid (ld_reg s), None)) in
           case f of
             Some fac \<Rightarrow> (case AddValue alloc fac (ld_sink s) of
                 (Some i, k) \<Rightarrow> s\<lparr>ld_sink := k, ld_pc := Holding i\<rparr>
               | (None, k) \<Rightarrow> s\<lparr>ld_sink := k, ld_pc := LoadDone\<rparr>)
           | None \<Rightarrow> (case waitCh of None \<Rightarrow> s\<lparr>ld_pc := LoadDone\<rparr> | Some n \<Rightarrow> s\<lparr>ld_pc := WaitFor n\<rparr>))
      | WaitFor n \<Rightarrow> (if n < sr_bcast (ld_reg s) then s\<lparr>ld_pc := Look\<rparr> else s)
      | _ \<Rightarrow> s)"

fun loadStep :: "'f factory alloc \<Rightarrow> bool \<Rightarrow> string \<Rightarrow> 'f load_event \<Rightarrow> 'f load \<Rightarrow> 'f load" where
  "loadStep alloc watcher cid (Register f) s = s\<lparr>ld_reg := AddFactory f (ld_reg s)\<rparr>"
| "loadStep alloc watcher cid Turn s = loadTurn alloc watcher cid s"
| "loadStep alloc watcher cid CtxDone s =
     (case ld_pc s of
        Holding i \<Rightarrow> s\<lparr>ld_sink := RemoveValue i (ld_sink s), ld_pc := LoadDone\<rparr>
      | WaitFor n \<Rightarrow> s\<lparr>ld_pc := LoadDone\<rparr>
      | _ \<Rightarrow> s)"

definition LoadFactoryByConfig_run where
  "LoadFactoryByConfig_run alloc watcher cid es reg =
     fold (loadStep alloc watcher cid) es \<lparr>ld_reg = reg, ld_sink = sink_init, ld_pc = Look\<rparr>"

text \<open>A waiting resolver has not missed a factory: if there is one now, a broadcast came since.\<close>

definition loadInv :: "('f factory \<Rightarrow> bool) \<Rightarrow> string \<Rightarrow> 'f load \<Rightarrow> bool" where
  "loadInv accept cid s \<longleftrightarrow> (case ld_pc s of
       Look \<Rightarrow> sk_vals (ld_sink s) = [] \<and> sk_used (ld_sink s) = []
     | WaitFor n \<Rightarrow> sk_vals (ld_sink s) = [] \<and> sk_used (ld_sink s) = [] \<and> n \<le> sr_bcast (ld_reg s)
         \<and> (map_of (sr_factories (ld_reg s)) cid \<noteq> None \<longrightarrow> n < sr_bcast (ld_reg s))
     | Holding i \<Rightarrow> \<exists>f. sk_vals (ld_sink s) = [(i, f)] \<and> accept f
     | LoadDone \<Rightarrow> True)"

lemma AddFactory_bcast: "sr_bcast r \<le> sr_bcast (AddFactory f r)"
    "map_of (sr_factories (AddFactory f r)) cid \<noteq> map_of (sr_factories r) cid \<Longrightarrow> sr_bcast r < sr_bcast (AddFactory f r)"
  by (auto simp: AddFactory_def Let_def split: option.split)

lemma loadInv_step:
  assumes "alloc_law accept alloc" "loadInv accept cid s"
  shows "loadInv accept cid (loadStep alloc True cid e s)"
proof (cases e)
  case (Register f)
  note mono = AddFactory_bcast(1)[of "ld_reg s" f] AddFactory_bcast(2)[of f "ld_reg s" cid]
  show ?thesis
    using assms(2) mono Register by (cases "ld_pc s") (auto simp: loadInv_def)
next
  case Turn
  show ?thesis
  proof (cases "ld_pc s")
    case Look
    have acc: "accept f" if "alloc k f = Some i" for k f i
      using assms(1) that unfolding alloc_law_def by (metis option.simps(3))
    show ?thesis using assms(2) Turn Look acc
      by (auto simp: loadInv_def GetFactoryMatchingConfigWatch_def AddValue_def split: option.split)
  next
    case (WaitFor n)
    then show ?thesis using assms(2) Turn by (auto simp: loadInv_def)
  qed (use assms(2) Turn in \<open>auto simp: loadInv_def\<close>)
next
  case CtxDone
  then show ?thesis using assms(2) by (cases "ld_pc s") (auto simp: loadInv_def)
qed

text \<open>
  C31: no wakeup is lost. Whenever factories are registered between the steps of the resolver that loads a
  factory for a configuration, as soon as the registry has a matching factory two more turns of the
  resolver, if it still waits, are enough to emit exactly that factory when it is accepted.
\<close>

theorem LoadFactory_no_lost_wakeup:
  assumes "alloc_law accept alloc"
    and s_def: "s = LoadFactoryByConfig_run alloc True cid es reg"
    and f: "GetFactoryMatchingConfig cid (ld_reg s) = Some f" "accept f"
    and pending: "ld_pc s = Look \<or> (\<exists>n. ld_pc s = WaitFor n)"
  shows "\<exists>i. sk_vals (ld_sink (loadTurn alloc True cid (loadTurn alloc True cid s))) = [(i, f)]"
proof -
  have "loadInv accept cid (fold (loadStep alloc True cid) es t)" if "loadInv accept cid t" for t
    by (rule fold_invariant[where Q = "\<lambda>_. True"]) (simp_all add: that loadInv_step[OF assms(1)])
  then have inv: "loadInv accept cid s"
    by (simp add: s_def LoadFactoryByConfig_run_def loadInv_def sink_init_def)
  have free: "sk_vals (ld_sink s) = []" "sk_used (ld_sink s) = []"
    using inv pending by (auto simp: loadInv_def)
  obtain i where i: "alloc (ld_sink s) f = Some i"
    using assms(1) f(2) free(2) by (force simp: alloc_law_def)
  have emit: "sk_vals (ld_sink (loadTurn alloc True cid (s\<lparr>ld_pc := Look\<rparr>))) = [(i, f)]
      \<and> ld_pc (loadTurn alloc True cid (s\<lparr>ld_pc := Look\<rparr>)) = Holding i"
    using f(1) free i by (simp add: GetFactoryMatchingConfig_def GetFactoryMatchingConfigWatch_def AddValue_def)
  show ?thesis
  proof (cases "ld_pc s")
    case Look
    then have "s\<lparr>ld_pc := Look\<rparr> = s" by simp
    then show ?thesis using emit by simp
  next
    case (WaitFor n)
    then have "loadTurn alloc True cid s = s\<lparr>ld_pc := Look\<rparr>"
      using inv f(1) by (auto simp: loadInv_def GetFactoryMatchingConfig_def)
    then show ?thesis using emit by simp
  qed (use pending in auto)
qed

theorem LoadFactory_no_lost_wakeup_witness:
  "\<exists>i. sk_vals (ld_sink (loadTurn (firstFree (\<lambda>_. True)) True ''a'' (loadTurn (firstFree (\<lambda>_. True)) True ''a''
      (LoadFactoryByConfig_run (firstFree (\<lambda>_. True)) True ''a''
        [Turn, Register \<lparr>fa_configID = ''a'', fa_version = Version ''1.0.0'' 1 0 0, fa_obj = (7::nat)\<rparr>]
        (NewResolver []))))) = [(i, \<lparr>fa_configID = ''a'', fa_version = Version ''1.0.0'' 1 0 0, fa_obj = 7\<rparr>)]"
proof (rule LoadFactory_no_lost_wakeup[OF firstFree_law refl])
  let ?f = "\<lparr>fa_configID = ''a'', fa_version = Version ''1.0.0'' 1 0 0, fa_obj = (7::nat)\<rparr>"
  let ?s = "LoadFactoryByConfig_run (firstFree (\<lambda>_. True)) True ''a'' [Turn, Register ?f] (NewResolver [])"
  show "GetFactoryMatchingConfig ''a'' (ld_reg ?s) = Some ?f"
    by (simp add: LoadFactoryByConfig_run_def NewResolver_def GetFactoryMatchingConfigWatch_def
        GetFactoryMatchingConfig_def AddFactory_def)
  show "ld_pc ?s = Look \<or> (\<exists>n. ld_pc ?s = WaitFor n)"
    by (simp add: LoadFactoryByConfig_run_def NewResolver_def GetFactoryMatchingConfigWatch_def AddFactory_def)
qed simp

section \<open>The other lookups\<close>

text \<open>\<^verbatim>\<open>LoadConfigConstructorByIDResolver.Resolve\<close>.\<close>

definition LoadConfigConstructor_Resolve ::
    "(string \<times> 'f factory) alloc \<Rightarrow> string \<Rightarrow> 'f static_resolver \<Rightarrow> (string \<times> 'f factory) sink
      \<Rightarrow> goerr option \<times> (string \<times> 'f factory) sink" where
  "LoadConfigConstructor_Resolve alloc cid r k = (case GetConfigCtorByID cid r of
     None \<Rightarrow> (None, k) | Some ctor \<Rightarrow> (None, snd (AddValue alloc ctor k)))"

text \<open>
  \<^verbatim>\<open>ExLoadFactoryByConfig\<close> on the result of \<^verbatim>\<open>ExecOneOff\<close> with no idle callback: the value is asserted to
  be a factory. A nil value would panic.
\<close>

datatype 'a ex_result = ExOk 'a | ExErr goerr | ExWait | ExPanic

definition ExLoadFactoryByConfig :: "('v \<Rightarrow> 'f option) \<Rightarrow> 'v oo_event list \<Rightarrow> 'f ex_result" where
  "ExLoadFactoryByConfig asFactory es = (case oneoffCheck (ExecOneOff None False es) of
     OoWait \<Rightarrow> ExWait
   | OoNone (Some e) \<Rightarrow> ExErr e
   | OoNone None \<Rightarrow> ExPanic
   | OoValue _ v \<Rightarrow> (case asFactory v of Some f \<Rightarrow> ExOk f
       | None \<Rightarrow> ExErr (GoErr ''load factory by config returned unexpected type'')))"

lemma oneoff_wait:
  "\<not> oo_wait (ExecOneOff None d es) \<Longrightarrow> oo_idle (ExecOneOff None d es) \<Longrightarrow> oo_err (ExecOneOff None d es) \<noteq> None"
proof -
  let ?I = "\<lambda>s. oo_idle s \<and> \<not> oo_wait s \<longrightarrow> oo_err s \<noteq> None"
  have "?I (oneoffStep None None d e s)" if "?I s" for e and s :: "'a oneoff"
  proof (cases e)
    case (OoRef r)
    then show ?thesis using that
      by (cases r) (auto simp: oneoff_handler_def NewCallbackHandler_def oneoffAdded_def oneoffRemoved_def
          oneoffDisposed_def Let_def split: option.splits)
  qed (auto simp: oneoffIdle_def WaitWhenIdle_def Let_def split: option.splits if_splits)
  then have "?I (fold (oneoffStep None None d) es oneoff_init)"
    by (intro fold_invariant[where Q = "\<lambda>_. True" and P = ?I]) (auto simp: oneoff_init_def)
  then show "\<not> oo_wait (ExecOneOff None d es) \<Longrightarrow> oo_idle (ExecOneOff None d es) \<Longrightarrow> oo_err (ExecOneOff None d es) \<noteq> None"
    by (simp add: ExecOneOff_def ExecOneOffWithFilter_def)
qed

text \<open>
  Loading a factory for a configuration never panics: without an idle callback the one-off call has
  no way to return without a value and without an error.
\<close>

theorem ExLoadFactoryByConfig_no_panic: "ExLoadFactoryByConfig asFactory es \<noteq> ExPanic"
  using oneoff_wait[of False es]
  by (cases "oo_wait (ExecOneOff None False es)") (auto simp: ExLoadFactoryByConfig_def oneoffCheck_def split: option.splits oo_result.splits if_splits)

text \<open>
  \<^verbatim>\<open>loadWithConfigResolver.Resolve\<close>: \<open>look\<close> is the resolver's own lookup, \<open>ex\<close> the outcome of loading the
  factory with a directive, \<open>addErr\<close> the error of adding the directive that executes the controller. It
  fails with an error, waits, or ends with nil: with the error emitted as a value and the factory's
  reference (if there is one) released, or with the controller running and the references released in
  the background.
\<close>

datatype 'f load_outcome = LoadErr goerr | LoadWaits | LoadPanics | LoadFailed goerr bool | LoadRuns 'f bool

definition loadWithConfig_Resolve :: "(goerr + 'f option) \<Rightarrow> 'f ex_result \<Rightarrow> goerr option \<Rightarrow> 'f load_outcome" where
  "loadWithConfig_Resolve look ex addErr =
     (let run = \<lambda>f hasRef. (case addErr of Some e \<Rightarrow> LoadFailed e hasRef | None \<Rightarrow> LoadRuns f hasRef) in
      case look of
        Inl e \<Rightarrow> LoadErr e
      | Inr (Some f) \<Rightarrow> run f False
      | Inr None \<Rightarrow> (case ex of ExErr e \<Rightarrow> LoadErr e | ExWait \<Rightarrow> LoadWaits | ExPanic \<Rightarrow> LoadPanics | ExOk f \<Rightarrow> run f True))"

section \<open>The directives\<close>

text \<open>
  Configurations are compared by \<open>eqc\<close> (\<^verbatim>\<open>EqualsConfig\<close>) and validated by \<open>validate\<close>; a directive of
  another type is no equivalent.
\<close>

datatype ('c, 'f) load_directive =
  LoadConfigConstructorByID string
| LoadControllerWithConfig "'c option"
| LoadFactoryByConfig "'c option"
| ExecController "'f factory option" "'c option"

definition loadConfigConstructorByID_Validate :: "string \<Rightarrow> goerr option" where
  "loadConfigConstructorByID_Validate cid = (if cid = [] then Some (GoErr ''config ID cannot be empty'') else None)"

definition loadControllerWithConfig_Validate :: "('c \<Rightarrow> goerr option) \<Rightarrow> 'c option \<Rightarrow> goerr option" where
  "loadControllerWithConfig_Validate validate c = (case c of
     None \<Rightarrow> Some (GoErr ''config cannot be nil'') | Some c \<Rightarrow> validate c)"

definition loadFactoryByConfig_Validate :: "'c option \<Rightarrow> goerr option" where
  "loadFactoryByConfig_Validate c = (if c = None then Some (GoErr ''config cannot be nil'') else None)"

definition execController_Validate :: "('c \<Rightarrow> goerr option) \<Rightarrow> 'f factory option \<Rightarrow> 'c option \<Rightarrow> goerr option" where
  "execController_Validate validate f c = (case (f, c) of
     (Some _, Some c) \<Rightarrow> validate c | _ \<Rightarrow> Some (GoErr ''config and factory cannot be nil''))"

definition dirValidate :: "('c \<Rightarrow> goerr option) \<Rightarrow> ('c, 'f) load_directive \<Rightarrow> goerr option" where
  "dirValidate validate d = (case d of
     LoadConfigConstructorByID cid \<Rightarrow> loadConfigConstructorByID_Validate cid
   | LoadControllerWithConfig c \<Rightarrow> loadControllerWithConfig_Validate validate c
   | LoadFactoryByConfig c \<Rightarrow> loadFactoryByConfig_Validate c
   | ExecController f c \<Rightarrow> execController_Validate validate f c)"

definition loadConfigConstructorByID_IsEquivalent :: "string \<Rightarrow> ('c, 'f) load_directive \<Rightarrow> bool" where
  "loadConfigConstructorByID_IsEquivalent cid other = (case other of LoadConfigConstructorByID ot \<Rightarrow> ot = cid | _ \<Rightarrow> False)"

definition loadControllerWithConfig_IsEquivalent ::
    "('c option \<Rightarrow> 'c option \<Rightarrow> bool) \<Rightarrow> 'c option \<Rightarrow> ('c, 'f) load_directive \<Rightarrow> bool" where
  "loadControllerWithConfig_IsEquivalent eqc c other = (case other of LoadControllerWithConfig c' \<Rightarrow> eqc c c' | _ \<Rightarrow> False)"

definition loadFactoryByConfig_IsEquivalent ::
    "('c option \<Rightarrow> 'c option \<Rightarrow> bool) \<Rightarrow> 'c option \<Rightarrow> ('c, 'f) load_directive \<Rightarrow> bool" where
  "loadFactoryByConfig_IsEquivalent eqc c other = (case other of LoadFactoryByConfig c' \<Rightarrow> eqc c c' | _ \<Rightarrow> False)"

definition execController_IsEquivalent ::
    "('c option \<Rightarrow> 'c option \<Rightarrow> bool) \<Rightarrow> 'f factory option \<Rightarrow> 'c option \<Rightarrow> ('c, 'f) load_directive \<Rightarrow> bool" where
  "execController_IsEquivalent eqc f c other = (case other of
     ExecController otherf c' \<Rightarrow> map_option fa_configID otherf = map_option fa_configID f \<and> eqc c c' | _ \<Rightarrow> False)"

definition dirIsEquivalent :: "('c option \<Rightarrow> 'c option \<Rightarrow> bool) \<Rightarrow> ('c, 'f) load_directive \<Rightarrow> ('c, 'f) load_directive \<Rightarrow> bool" where
  "dirIsEquivalent eqc d other = (case d of
     LoadConfigConstructorByID cid \<Rightarrow> loadConfigConstructorByID_IsEquivalent cid other
   | LoadControllerWithConfig c \<Rightarrow> loadControllerWithConfig_IsEquivalent eqc c other
   | LoadFactoryByConfig c \<Rightarrow> loadFactoryByConfig_IsEquivalent eqc c other
   | ExecController f c \<Rightarrow> execController_IsEquivalent eqc f c other)"

definition execController_Superceeds :: "'f factory option \<Rightarrow> ('c, 'f) load_directive \<Rightarrow> bool" where
  "execController_Superceeds f other = (case other of
     ExecController otherf _ \<Rightarrow> (case (f, otherf) of (Some f, Some g) \<Rightarrow> GT (fa_version f) (fa_version g) | _ \<Rightarrow> False)
   | _ \<Rightarrow> False)"

text \<open>The other directives supersede nothing.\<close>

definition dirSuperceeds :: "('c, 'f) load_directive \<Rightarrow> ('c, 'f) load_directive \<Rightarrow> bool" where
  "dirSuperceeds d other = (case d of ExecController f _ \<Rightarrow> execController_Superceeds f other | _ \<Rightarrow> False)"

lemmas dirIsEquivalent_simps = dirIsEquivalent_def loadConfigConstructorByID_IsEquivalent_def
  loadControllerWithConfig_IsEquivalent_def loadFactoryByConfig_IsEquivalent_def execController_IsEquivalent_def

lemma dirSuperceeds_iff:
  "dirSuperceeds d e \<longleftrightarrow> (\<exists>f c g c'. d = ExecController (Some f) c \<and> e = ExecController (Some g) c'
     \<and> fa_version g < fa_version f)"
proof (cases d)
  case (ExecController f c)
  show ?thesis
  proof (cases e)
    case (ExecController g c')
    then show ?thesis using \<open>d = ExecController f c\<close> by (cases f; cases g) (simp_all add: dirSuperceeds_def execController_Superceeds_def GT_iff)
  qed (simp_all add: dirSuperceeds_def execController_Superceeds_def ExecController split: option.split)
qed (simp_all add: dirSuperceeds_def execController_Superceeds_def)

text \<open>
  With configurations compared by an equivalence, equivalence of the loading directives is one, and
  superseding is a strict order that never holds in both directions, so of two equivalent directives
  one takes the place of the other at most.
\<close>

theorem load_directives_equiv:
  assumes "equivp eqc"
  shows "equivp (dirIsEquivalent eqc :: ('c, 'f) load_directive \<Rightarrow> _)
    \<and> (dirSuperceeds d e \<and> dirSuperceeds e e' \<longrightarrow> dirSuperceeds d e')
    \<and> (dirSuperceeds d e \<longrightarrow> \<not> dirSuperceeds e (d :: ('c, 'f) load_directive))"
proof -
  note eqc = equivp_reflp[OF assms] equivp_symp[OF assms] equivp_transp[OF assms]
  have "equivp (dirIsEquivalent eqc :: ('c, 'f) load_directive \<Rightarrow> _)"
  proof (rule equivpI)
    show "reflp (dirIsEquivalent eqc :: ('c, 'f) load_directive \<Rightarrow> _)"
      using eqc(1) by (auto simp: reflp_def dirIsEquivalent_simps split: load_directive.split)
    show "symp (dirIsEquivalent eqc :: ('c, 'f) load_directive \<Rightarrow> _)"
      using eqc(2) by (auto simp: symp_def dirIsEquivalent_simps split: load_directive.splits)
    show "transp (dirIsEquivalent eqc :: ('c, 'f) load_directive \<Rightarrow> _)"
    proof (rule transpI)
      fix a b c :: "('c, 'f) load_directive"
      assume "dirIsEquivalent eqc a b" "dirIsEquivalent eqc b c"
      then show "dirIsEquivalent eqc a c"
        by (cases a; cases b; cases c; simp add: dirIsEquivalent_simps; blast intro: eqc(3))
    qed
  qed
  moreover have "dirSuperceeds d e \<and> dirSuperceeds e e' \<longrightarrow> dirSuperceeds d e'"
    by (auto simp: dirSuperceeds_iff)
  moreover have "dirSuperceeds d e \<longrightarrow> \<not> dirSuperceeds e d"
    by (auto simp: dirSuperceeds_iff)
  ultimately show ?thesis by blast
qed

theorem load_directives_equiv_witness:
  "equivp (dirIsEquivalent (=) :: (nat, nat) load_directive \<Rightarrow> _)"
  by (rule conjunct1[OF load_directives_equiv[OF identity_equivp]])

end
