(* ===== verification/InmemBus.thy ===== *)
theory InmemBus
  imports Cb_Prelude
begin

text \<open>
  The in-memory bus (\<^verbatim>\<open>bus/inmem\<close>): which controllers are attached, and which of them have a handler
  registered with the directive controller. The code holds the mutex around each operation, so the
  operations happen one at a time; the execution of a controller lies between two of them.
\<close>

section \<open>Attached controllers\<close>

text \<open>
  An attached controller with the number of its handler, the handlers registered with the directive
  controller, the number of the next one, and the broadcasts.
\<close>

record 'c bus =
  bs_controllers :: "('c \<times> nat) list"
  bs_handlers :: "nat list"
  bs_next :: nat
  bs_bcast :: nat

definition NewBus :: "'c bus" where
  "NewBus = \<lparr>bs_controllers = [], bs_handlers = [], bs_next = 0, bs_bcast = 0\<rparr>"

definition GetControllers :: "'c bus \<Rightarrow> 'c list" where
  "GetControllers b = map fst (bs_controllers b)"

text \<open>\<open>addErr\<close> is the error of \<^verbatim>\<open>AddHandler\<close>.\<close>

definition addController :: "goerr option \<Rightarrow> 'c \<Rightarrow> 'c bus \<Rightarrow> goerr option \<times> 'c bus" where
  "addController addErr c b = (case addErr of Some e \<Rightarrow> (Some e, b)
     | None \<Rightarrow> (None, \<lparr>bs_controllers = bs_controllers b @ [(c, bs_next b)], bs_handlers = bs_handlers b @ [bs_next b],
         bs_next = bs_next b + 1, bs_bcast = bs_bcast b + 1\<rparr>))"

definition removeController :: "'c \<Rightarrow> 'c bus \<Rightarrow> 'c bus" where
  "removeController c b = (case indexOf (\<lambda>ci. fst ci = c) (bs_controllers b) of
     None \<Rightarrow> b
   | Some k \<Rightarrow> b\<lparr>bs_controllers := swapRemove k (bs_controllers b),
       bs_handlers := remove1 (snd (bs_controllers b ! k)) (bs_handlers b), bs_bcast := bs_bcast b + 1\<rparr>)"

text \<open>How \<^verbatim>\<open>Execute\<close> of a controller ends; a panic may be with an error, which is wrapped.\<close>

datatype exec_end = Returned "goerr option" | Panicked "goerr option"

definition handleControllerPanic :: "(goerr \<Rightarrow> goerr) \<Rightarrow> exec_end \<Rightarrow> goerr option" where
  "handleControllerPanic wrap r = (case r of
     Returned err \<Rightarrow> err
   | Panicked (Some e) \<Rightarrow> Some (wrap e)
   | Panicked None \<Rightarrow> Some (GoErr ''controller paniced''))"

text \<open>\<^verbatim>\<open>ExecuteController\<close>: the call adds the controller, and its end removes it if there was an error.\<close>

definition ExecuteController_end :: "(goerr \<Rightarrow> goerr) \<Rightarrow> 'c \<Rightarrow> exec_end \<Rightarrow> 'c bus \<Rightarrow> goerr option \<times> 'c bus" where
  "ExecuteController_end wrap c r b =
     (let err = handleControllerPanic wrap r in (err, if err \<noteq> None then removeController c b else b))"

definition ExecuteController :: "(goerr \<Rightarrow> goerr) \<Rightarrow> goerr option \<Rightarrow> 'c \<Rightarrow> exec_end \<Rightarrow> 'c bus \<Rightarrow> goerr option \<times> 'c bus" where
  "ExecuteController wrap addErr c r b =
     (case addController addErr c b of (Some e, b) \<Rightarrow> (Some e, b) | (None, b) \<Rightarrow> ExecuteController_end wrap c r b)"

text \<open>
  \<^verbatim>\<open>AddController\<close>: on an error the controller is closed; otherwise it runs in the background, where its
  end with an error removes it and calls the callback, and the function returned removes it too.
\<close>

definition AddController :: "goerr option \<Rightarrow> 'c \<Rightarrow> 'c bus \<Rightarrow> goerr option \<times> bool \<times> 'c bus" where
  "AddController addErr c b = (case addController addErr c b of (Some e, b) \<Rightarrow> (Some e, True, b) | (None, b) \<Rightarrow> (None, False, b))"

definition AddController_end :: "(goerr \<Rightarrow> goerr) \<Rightarrow> 'c \<Rightarrow> exec_end \<Rightarrow> 'c bus \<Rightarrow> goerr option \<times> 'c bus" where
  "AddController_end wrap c r b =
     (let err = handleControllerPanic wrap r in (err, if err \<noteq> None then removeController c b else b))"

definition RemoveController :: "'c \<Rightarrow> 'c bus \<Rightarrow> 'c bus" where
  "RemoveController c b = removeController c b"

section \<open>What the bus keeps\<close>

definition busInv :: "'c bus \<Rightarrow> bool" where
  "busInv b \<longleftrightarrow> mset (bs_handlers b) = mset (map snd (bs_controllers b)) \<and> distinct (bs_handlers b)
     \<and> (\<forall>n \<in> set (bs_handlers b). n < bs_next b)"

lemma busInv_add: "busInv b \<Longrightarrow> busInv (snd (addController addErr c b))"
  by (force simp: busInv_def addController_def split: option.split)

lemma mset_removeController:
  "mset (map snd (bs_controllers b)) = mset (bs_handlers b)
   \<Longrightarrow> mset (map snd (bs_controllers (removeController c b))) = mset (bs_handlers (removeController c b))"
  "mset (GetControllers (removeController c b)) = mset (GetControllers b) - {#c#}"
proof -
  let ?rm = "removeController c b"
  have some: "bs_controllers b ! k \<in># mset (bs_controllers b)
      \<and> mset (bs_controllers ?rm) = mset (bs_controllers b) - {# bs_controllers b ! k #} \<and> fst (bs_controllers b ! k) = c"
    if "indexOf (\<lambda>ci. fst ci = c) (bs_controllers b) = Some k" for k
    using indexOf_SomeD[OF that] that by (simp add: removeController_def mset_swapRemove)
  show "mset (map snd (bs_controllers b)) = mset (bs_handlers b)
    \<Longrightarrow> mset (map snd (bs_controllers ?rm)) = mset (bs_handlers ?rm)"
  proof (cases "indexOf (\<lambda>ci. fst ci = c) (bs_controllers b)")
    case (Some k)
    assume eq: "mset (map snd (bs_controllers b)) = mset (bs_handlers b)"
    have "mset (map snd (bs_controllers ?rm)) = mset (map snd (bs_controllers b)) - {# snd (bs_controllers b ! k) #}"
      using some[OF Some] by (simp add: image_mset_Diff)
    then show ?thesis using Some eq by (simp add: removeController_def)
  qed (simp add: removeController_def)
  show "mset (GetControllers ?rm) = mset (GetControllers b) - {#c#}"
  proof (cases "indexOf (\<lambda>ci. fst ci = c) (bs_controllers b)")
    case None
    then have "c \<notin># mset (GetControllers b)" by (auto simp: indexOf_None_iff GetControllers_def)
    then show ?thesis using None by (simp add: removeController_def diff_single_trivial)
  next
    case (Some k)
    then show ?thesis using some[OF Some] by (simp add: GetControllers_def image_mset_Diff)
  qed
qed

lemma busInv_remove: "busInv b \<Longrightarrow> busInv (removeController c b)"
  using mset_removeController(1)[of b c] set_remove1_subset
  by (fastforce simp: busInv_def removeController_def split: option.split)

lemma mset_addController:
  "mset (GetControllers (snd (addController addErr c b)))
   = mset (GetControllers b) + (if addErr = None then {#c#} else {#})"
  by (auto simp: addController_def GetControllers_def split: option.split)

text \<open>Operations in any order, those of the ends of executions among them.\<close>

datatype 'c bus_op = BusAdd "goerr option" 'c | BusEnd 'c exec_end | BusRemove 'c

fun busStep :: "(goerr \<Rightarrow> goerr) \<Rightarrow> 'c bus_op \<Rightarrow> 'c bus \<Rightarrow> 'c bus" where
  "busStep wrap (BusAdd addErr c) b = snd (addController addErr c b)"
| "busStep wrap (BusEnd c r) b = snd (AddController_end wrap c r b)"
| "busStep wrap (BusRemove c) b = RemoveController c b"

text \<open>How often a controller is attached: once for each time it was added and not yet removed.\<close>

fun attachedTimes :: "'c \<Rightarrow> 'c bus_op list \<Rightarrow> nat \<Rightarrow> nat" where
  "attachedTimes c [] n = n"
| "attachedTimes c (BusAdd addErr d # ops) n = attachedTimes c ops (if d = c \<and> addErr = None then n + 1 else n)"
| "attachedTimes c (BusEnd d r # ops) n = attachedTimes c ops (if d = c \<and> r \<noteq> Returned None then n - 1 else n)"
| "attachedTimes c (BusRemove d # ops) n = attachedTimes c ops (if d = c then n - 1 else n)"

text \<open>
  C14: after any sequence of additions, removals and ends of executions the directive controller has
  exactly the handlers of the attached controllers, each once, and a controller is attached as often
  as it was added and not removed; a removal never touches another controller.
\<close>

theorem Bus_handlers_match:
  "let b = fold (busStep wrap) ops NewBus in
    mset (bs_handlers b) = mset (map snd (bs_controllers b)) \<and> distinct (bs_handlers b)
    \<and> count (mset (GetControllers b)) c = attachedTimes c ops 0"
proof -
  have inv: "busInv (fold (busStep wrap) ops b)" if "busInv b" for b :: "'a bus"
  proof (rule fold_invariant[where Q = "\<lambda>_. True"])
    fix op and b :: "'a bus"
    assume "busInv b"
    then show "busInv (busStep wrap op b)"
      by (cases op) (auto simp: AddController_end_def RemoveController_def Let_def busInv_add busInv_remove)
  qed (use that in auto)
  have ended: "handleControllerPanic wrap r = None \<longleftrightarrow> r = Returned None" for r
    by (auto simp: handleControllerPanic_def split: exec_end.split option.split)
  have "count (mset (GetControllers (fold (busStep wrap) ops b))) c = attachedTimes c ops (count (mset (GetControllers b)) c)"
    for b
  proof (induction ops arbitrary: b)
    case (Cons op ops)
    show ?case
    proof (cases op)
      case (BusAdd addErr d)
      then show ?thesis using Cons[of "busStep wrap op b"] by (simp add: mset_addController)
    next
      case (BusEnd d r)
      then show ?thesis using Cons[of "busStep wrap op b"] ended[of r]
        by (auto simp: AddController_end_def mset_removeController(2) Let_def)
    next
      case (BusRemove d)
      then show ?thesis using Cons[of "busStep wrap op b"]
        by (simp add: RemoveController_def mset_removeController(2))
    qed
  qed simp
  from this[of NewBus] inv[of NewBus] show ?thesis
    by (simp add: Let_def busInv_def NewBus_def GetControllers_def)
qed

end
