(* ===== verification/Loader.thy ===== *)
theory Loader
  imports InmemBus BusHandlers
begin

text \<open>
  Loading controllers (\<^verbatim>\<open>controller/loader\<close>): the resolver that constructs a controller once and executes
  it on the bus, with a backoff after each error, and the call that waits until a controller runs.
\<close>

section \<open>\<^verbatim>\<open>execControllerValue\<close>\<close>

text \<open>The timestamps have no effect but for whether there is a retry.\<close>

record 'c exec_value =
  ev_retry :: bool
  ev_ctrl :: "'c option"
  ev_err :: "goerr option"

section \<open>The resolver of \<^verbatim>\<open>ExecController\<close>\<close>

text \<open>
  The variables \<^verbatim>\<open>ci\<close> and \<^verbatim>\<open>lastErr\<close>, the bus, the values emitted, how often the controller was
  constructed and closed, and whether a callback is registered that removes and closes it.
\<close>

record 'c loader =
  lo_bus :: "'c bus"
  lo_sink :: "'c exec_value sink"
  lo_ci :: "'c option"
  lo_lastErr :: "goerr option"
  lo_constructs :: nat
  lo_closes :: nat
  lo_cb :: bool

definition loader_init :: "'c bus \<Rightarrow> 'c loader" where
  "loader_init b = \<lparr>lo_bus = b, lo_sink = sink_init, lo_ci = None, lo_lastErr = None,
     lo_constructs = 0, lo_closes = 0, lo_cb = False\<rparr>"

text \<open>
  One pass of the loop as the outside answers it: the backoff (\<^term>\<open>None\<close> is \<^verbatim>\<open>backoff.Stop\<close>) and whether
  the context ends during the wait, the result of the constructor (which may be nil), the error of
  adding the controller to the bus and the end of its execution, whether the context is over by then,
  and whether the value (or the resolver, if the value was refused) is gone when the callback is registered.
\<close>

record 'c loader_round =
  lr_backoff :: "nat option"
  lr_waitDone :: bool
  lr_construct :: "goerr + 'c option"
  lr_addErr :: "goerr option"
  lr_end :: exec_end
  lr_ctxDone :: bool
  lr_gone :: bool

definition closeCi :: "'c loader \<Rightarrow> 'c loader" where
  "closeCi s = (case lo_ci s of None \<Rightarrow> s | Some _ \<Rightarrow> s\<lparr>lo_closes := lo_closes s + 1\<rparr>)"

definition removeCi :: "'c loader \<Rightarrow> 'c loader" where
  "removeCi s = (case lo_ci s of None \<Rightarrow> s | Some c \<Rightarrow> s\<lparr>lo_bus := RemoveController c (lo_bus s)\<rparr>)"

definition emit :: "'c exec_value alloc \<Rightarrow> 'c exec_value \<Rightarrow> 'c loader \<Rightarrow> u32 option \<times> 'c loader" where
  "emit alloc v s = (let (i, k) = AddValue alloc v (lo_sink s) in (i, s\<lparr>lo_sink := k\<rparr>))"

text \<open>The wait of the backoff. \<^term>\<open>Some\<close> is the result of the call, which ends.\<close>

definition backoffWait :: "(goerr \<Rightarrow> goerr) \<Rightarrow> 'c exec_value alloc \<Rightarrow> 'c loader_round \<Rightarrow> 'c loader
    \<Rightarrow> goerr option \<times> 'c loader" where
  "backoffWait wrap alloc r s =
     (case lo_lastErr s of
        None \<Rightarrow> (None, s)
      | Some e \<Rightarrow>
          (case lr_backoff r of
             None \<Rightarrow> (Some (wrap e), closeCi s)
           | Some d \<Rightarrow>
               if d = 0 then (None, s)
               else let (vid, s) = emit alloc \<lparr>ev_retry = True, ev_ctrl = None, ev_err = Some e\<rparr> s in
                 if lr_waitDone r then (Some Canceled, closeCi s)
                 else (None, case vid of None \<Rightarrow> s | Some i \<Rightarrow> s\<lparr>lo_sink := RemoveValue i (lo_sink s)\<rparr>)))"

text \<open>Constructing the controller: done, failed so that the loop goes on, or ended.\<close>

datatype construct_result = Constructed | TryAgain | GaveUp goerr

definition construct :: "'c loader_round \<Rightarrow> 'c loader \<Rightarrow> construct_result \<times> 'c loader" where
  "construct r s =
     (case lo_ci s of
        Some _ \<Rightarrow> (Constructed, s)
      | None \<Rightarrow> (case lr_construct r of
            Inl e \<Rightarrow> (TryAgain, s\<lparr>lo_lastErr := Some e\<rparr>)
          | Inr None \<Rightarrow> (GaveUp (GoErr ''controller construct returned nil''), s\<lparr>lo_lastErr := None\<rparr>)
          | Inr (Some c) \<Rightarrow> (Constructed, s\<lparr>lo_ci := Some c, lo_lastErr := None, lo_constructs := lo_constructs s + 1\<rparr>)))"

text \<open>The controller is executed; then the call ends or the loop goes on (\<^term>\<open>None\<close>).\<close>

definition execute :: "(goerr \<Rightarrow> goerr) \<Rightarrow> 'c exec_value alloc \<Rightarrow> 'c loader_round \<Rightarrow> 'c loader
    \<Rightarrow> goerr option option \<times> 'c loader" where
  "execute wrap alloc r s =
     (case lo_ci s of
        None \<Rightarrow> (None, s)
      | Some c \<Rightarrow>
          let (_, s) = emit alloc \<lparr>ev_retry = False, ev_ctrl = Some c, ev_err = None\<rparr> s;
              (execErr, b) = ExecuteController wrap (lr_addErr r) c (lr_end r) (lo_bus s);
              s = s\<lparr>lo_bus := b\<rparr>;
              s = (if execErr \<noteq> None \<and> (\<not> lr_ctxDone r \<or> execErr \<noteq> Some Canceled) then s\<lparr>lo_lastErr := execErr\<rparr> else s)
          in
          if lr_ctxDone r then (Some (Some Canceled), closeCi (removeCi (s\<lparr>lo_sink := ClearValues (lo_sink s)\<rparr>)))
          else if execErr \<noteq> None then (None, s)
          else (Some None, if lr_gone r then closeCi (removeCi s) else s\<lparr>lo_cb := True\<rparr>))"

definition loaderRound :: "(goerr \<Rightarrow> goerr) \<Rightarrow> 'c exec_value alloc \<Rightarrow> 'c loader_round \<Rightarrow> 'c loader
    \<Rightarrow> goerr option option \<times> 'c loader" where
  "loaderRound wrap alloc r s =
     (case backoffWait wrap alloc r (s\<lparr>lo_sink := ClearValues (lo_sink s)\<rparr>) of
        (Some e, s) \<Rightarrow> (Some (Some e), s)
      | (None, s) \<Rightarrow> (case construct r s of
            (TryAgain, s) \<Rightarrow> (None, s)
          | (GaveUp e, s) \<Rightarrow> (Some (Some e), s)
          | (Constructed, s) \<Rightarrow> execute wrap alloc r s))"

fun Loader_Resolve :: "(goerr \<Rightarrow> goerr) \<Rightarrow> 'c exec_value alloc \<Rightarrow> 'c loader_round list \<Rightarrow> 'c loader
    \<Rightarrow> goerr option option \<times> 'c loader" where
  "Loader_Resolve wrap alloc [] s = (None, s)"
| "Loader_Resolve wrap alloc (r # rs) s =
     (case loaderRound wrap alloc r s of (Some res, s) \<Rightarrow> (Some res, s) | (None, s) \<Rightarrow> Loader_Resolve wrap alloc rs s)"

text \<open>The callback that is registered when the controller's execution ended without an error.\<close>

definition loaderRemoved :: "'c loader \<Rightarrow> 'c loader" where
  "loaderRemoved s = (if lo_cb s then closeCi (removeCi (s\<lparr>lo_cb := False\<rparr>)) else s)"

text \<open>
  Between the passes the bus is as it was and nothing was closed. What holds when the call has ended:
  after an error the controller, if there is one, was closed once and is not on the bus; after
  success it is on the bus and will be removed and closed, or was.
\<close>

definition loaderInv :: "'c bus \<Rightarrow> 'c loader \<Rightarrow> bool" where
  "loaderInv b s \<longleftrightarrow> mset (GetControllers (lo_bus s)) = mset (GetControllers b) \<and> lo_closes s = 0 \<and> \<not> lo_cb s
     \<and> lo_constructs s = (if lo_ci s = None then 0 else 1)
     \<and> (\<forall>c. lo_ci s = Some c \<longrightarrow> c \<notin> set (GetControllers b))"

definition loaderOut :: "'c bus \<Rightarrow> goerr option option \<Rightarrow> 'c loader \<Rightarrow> bool" where
  "loaderOut b res s \<longleftrightarrow> lo_constructs s = (if lo_ci s = None then 0 else 1)
     \<and> (case res of
          None \<Rightarrow> loaderInv b s
        | Some (Some e) \<Rightarrow> mset (GetControllers (lo_bus s)) = mset (GetControllers b) \<and> \<not> lo_cb s
            \<and> lo_closes s = (if lo_ci s = None then 0 else 1)
        | Some None \<Rightarrow> (\<exists>c. lo_ci s = Some c \<and>
            (if lo_cb s then mset (GetControllers (lo_bus s)) = add_mset c (mset (GetControllers b)) \<and> lo_closes s = 0
             else mset (GetControllers (lo_bus s)) = mset (GetControllers b) \<and> lo_closes s = 1)))"

lemma mset_ExecuteController:
  "mset (GetControllers (snd (ExecuteController wrap addErr c r b)))
   = mset (GetControllers b) + (if fst (ExecuteController wrap addErr c r b) = None then {#c#} else {#})"
proof (cases addErr)
  case None
  obtain b' where b': "addController None c b = (None, b')" by (simp add: addController_def)
  have "mset (GetControllers b') = add_mset c (mset (GetControllers b))"
    using mset_addController[of None c b] b' by simp
  then show ?thesis using None b'
    by (auto simp: ExecuteController_def ExecuteController_end_def mset_removeController(2) Let_def)
qed (simp add: ExecuteController_def addController_def)

lemma emit_simps [simp]:
  "lo_bus (snd (emit alloc v s)) = lo_bus s" "lo_ci (snd (emit alloc v s)) = lo_ci s"
  "lo_lastErr (snd (emit alloc v s)) = lo_lastErr s" "lo_constructs (snd (emit alloc v s)) = lo_constructs s"
  "lo_closes (snd (emit alloc v s)) = lo_closes s" "lo_cb (snd (emit alloc v s)) = lo_cb s"
  by (simp_all add: emit_def split_beta)

lemma closeCi_simps [simp]:
  "lo_bus (closeCi s) = lo_bus s" "lo_ci (closeCi s) = lo_ci s" "lo_constructs (closeCi s) = lo_constructs s"
  "lo_cb (closeCi s) = lo_cb s" "lo_closes (closeCi s) = lo_closes s + (if lo_ci s = None then 0 else 1)"
  by (simp_all add: closeCi_def split: option.split)

lemma removeCi_simps [simp]:
  "lo_ci (removeCi s) = lo_ci s" "lo_constructs (removeCi s) = lo_constructs s"
  "lo_cb (removeCi s) = lo_cb s" "lo_closes (removeCi s) = lo_closes s"
  by (simp_all add: removeCi_def split: option.split)

lemma removeCi_bus:
  "mset (GetControllers (lo_bus (removeCi s)))
   = mset (GetControllers (lo_bus s)) - (case lo_ci s of None \<Rightarrow> {#} | Some c \<Rightarrow> {#c#})"
  by (simp add: removeCi_def RemoveController_def mset_removeController(2) split: option.split)

lemma backoffWait_inv:
  assumes "loaderInv b s"
  shows "case backoffWait wrap alloc r s of (None, t) \<Rightarrow> loaderInv b t | (Some e, t) \<Rightarrow> loaderOut b (Some (Some e)) t"
  using assms
  by (auto simp: backoffWait_def loaderInv_def loaderOut_def split_beta Let_def split: option.split)

lemma construct_inv:
  assumes "loaderInv b s" "\<And>c. lr_construct r = Inr (Some c) \<Longrightarrow> c \<notin> set (GetControllers b)"
  shows "case construct r s of (GaveUp e, t) \<Rightarrow> loaderOut b (Some (Some e)) t | (_, t) \<Rightarrow> loaderInv b t"
  using assms by (auto simp: construct_def loaderInv_def loaderOut_def split: option.split sum.split)

lemma execute_out:
  assumes "loaderInv b s"
  shows "loaderOut b (fst (execute wrap alloc r s)) (snd (execute wrap alloc r s))"
proof (cases "lo_ci s")
  case None
  then show ?thesis using assms by (simp add: execute_def loaderOut_def loaderInv_def)
next
  case (Some c)
  let ?v = "\<lparr>ev_retry = False, ev_ctrl = Some c, ev_err = None\<rparr>"
  obtain vid t where vt: "emit alloc ?v s = (vid, t)" by fastforce
  then have t: "lo_bus t = lo_bus s" "lo_ci t = Some c" "lo_constructs t = lo_constructs s"
      "lo_closes t = lo_closes s" "lo_cb t = lo_cb s"
    using emit_simps[of alloc ?v s] Some by simp_all
  obtain err b' where x: "ExecuteController wrap (lr_addErr r) c (lr_end r) (lo_bus t) = (err, b')" by fastforce
  have b': "mset (GetControllers b') = mset (GetControllers b) + (if err = None then {#c#} else {#})"
    using mset_ExecuteController[of wrap "lr_addErr r" c "lr_end r" "lo_bus t"] x t assms by (simp add: loaderInv_def)
  have c: "c \<notin># mset (GetControllers b)" using assms Some by (simp add: loaderInv_def)
  show ?thesis using assms Some vt x t b' c
    by (auto simp: execute_def loaderOut_def loaderInv_def removeCi_bus Let_def diff_single_trivial)
qed

lemma Loader_Resolve_out:
  assumes "loaderInv b s" "list_all (\<lambda>r. \<forall>c. lr_construct r = Inr (Some c) \<longrightarrow> c \<notin> set (GetControllers b)) rs"
  shows "loaderOut b (fst (Loader_Resolve wrap alloc rs s)) (snd (Loader_Resolve wrap alloc rs s))"
  using assms
proof (induction rs arbitrary: s)
  case Nil
  then show ?case by (simp add: loaderOut_def loaderInv_def)
next
  case (Cons r rs)
  let ?s = "s\<lparr>lo_sink := ClearValues (lo_sink s)\<rparr>"
  have inv: "loaderInv b ?s" using Cons.prems(1) by (simp add: loaderInv_def)
  note w = backoffWait_inv[OF inv, of wrap alloc r]
  have round: "loaderOut b (fst (loaderRound wrap alloc r s)) (snd (loaderRound wrap alloc r s))"
  proof (cases "backoffWait wrap alloc r ?s")
    case (Pair e t)
    show ?thesis
    proof (cases e)
      case None
      then have "loaderInv b t" using w Pair by simp
      then have c: "case construct r t of (GaveUp e, u) \<Rightarrow> loaderOut b (Some (Some e)) u | (_, u) \<Rightarrow> loaderInv b u"
        by (rule construct_inv) (use Cons.prems(2) in auto)
      have "loaderOut b None u" if "loaderInv b u" for u using that by (simp add: loaderOut_def loaderInv_def)
      then show ?thesis using None Pair c execute_out[of b _ wrap alloc r]
        by (auto simp: loaderRound_def split: prod.splits construct_result.splits)
    qed (use Pair w in \<open>simp add: loaderRound_def\<close>)
  qed
  show ?case
  proof (cases "fst (loaderRound wrap alloc r s)")
    case None
    then have "loaderInv b (snd (loaderRound wrap alloc r s))" using round by (simp add: loaderOut_def)
    then show ?thesis using None Cons.IH Cons.prems(2) by (simp add: split_beta)
  qed (use round in \<open>simp add: split_beta\<close>)
qed

text \<open>
  C10: the loader looks after the controller that it constructs: however often construction and execution
  fail and are tried again, a controller is constructed once at most; when the call ends with an error
  it was closed exactly once and is not on the bus, and when it ends without one it is on the bus until
  the value or the resolver is removed, which takes it off the bus and closes it exactly once.
\<close>

theorem Loader_controller_lifecycle:
  assumes "list_all (\<lambda>r. \<forall>c. lr_construct r = Inr (Some c) \<longrightarrow> c \<notin> set (GetControllers b)) rs"
    and "Loader_Resolve wrap alloc rs (loader_init b) = (res, s)"
  shows "lo_constructs s \<le> 1
    \<and> (case res of
         None \<Rightarrow> mset (GetControllers (lo_bus s)) = mset (GetControllers b) \<and> lo_closes s = 0
       | Some (Some e) \<Rightarrow> mset (GetControllers (lo_bus s)) = mset (GetControllers b) \<and> lo_closes s = lo_constructs s
       | Some None \<Rightarrow> mset (GetControllers (lo_bus (loaderRemoved s))) = mset (GetControllers b)
           \<and> lo_closes (loaderRemoved s) = 1 \<and> lo_constructs s = 1
           \<and> (lo_cb s \<longrightarrow> lo_closes s = 0 \<and> the (lo_ci s) \<in> set (GetControllers (lo_bus s))))"
proof -
  have "loaderInv b (loader_init b)" by (simp add: loaderInv_def loader_init_def)
  then have "loaderOut b res s" using Loader_Resolve_out[OF _ assms(1), of "loader_init b" wrap alloc] assms(2) by simp
  moreover have "c \<in> set (GetControllers (lo_bus s))"
    if "mset (GetControllers (lo_bus s)) = add_mset c (mset (GetControllers b))" for c
    using that by (metis set_mset_mset union_single_eq_member)
  ultimately show ?thesis
    by (auto simp: loaderOut_def loaderInv_def loaderRemoved_def removeCi_bus split: option.splits if_splits)
qed

definition exampleRound :: "nat loader_round" where
  "exampleRound = \<lparr>lr_backoff = Some 100, lr_waitDone = False, lr_construct = Inr (Some 7), lr_addErr = None,
     lr_end = Returned None, lr_ctxDone = False, lr_gone = False\<rparr>"

theorem Loader_controller_lifecycle_witness:
  "\<exists>s. Loader_Resolve (\<lambda>e. e) (firstFree (\<lambda>_. True))
      [exampleRound\<lparr>lr_construct := Inl (GoErr ''x'')\<rparr>, exampleRound\<lparr>lr_end := Panicked None\<rparr>, exampleRound]
      (loader_init NewBus) = (Some None, s)
    \<and> lo_closes (loaderRemoved s) = 1 \<and> GetControllers (lo_bus (loaderRemoved s)) = []"
proof -
  let ?rs = "[exampleRound\<lparr>lr_construct := Inl (GoErr ''x'')\<rparr>, exampleRound\<lparr>lr_end := Panicked None\<rparr>, exampleRound]"
  let ?r = "Loader_Resolve (\<lambda>e. e) (firstFree (\<lambda>_. True)) ?rs (loader_init NewBus)"
  have f: "fst ?r = Some None" by code_simp
  obtain s where r: "?r = (Some None, s)" by (rule that, rule prod_eqI) (use f in simp_all)
  have "list_all (\<lambda>r. \<forall>c. lr_construct r = Inr (Some c) \<longrightarrow> c \<notin> set (GetControllers NewBus)) ?rs"
    by (simp add: GetControllers_def NewBus_def)
  from Loader_controller_lifecycle[OF this r]
  have "lo_closes (loaderRemoved s) = 1" "mset (GetControllers (lo_bus (loaderRemoved s))) = mset (GetControllers (NewBus :: nat bus))"
    by simp_all
  then show ?thesis using r by (simp add: GetControllers_def NewBus_def)
qed

section \<open>\<^verbatim>\<open>WaitExecControllerRunning\<close>\<close>

text \<open>
  The channel of size one, which always holds the latest value, whether the sub-context is over, and the
  calls of the dispose callback. A value of another type is \<^term>\<open>None\<close>.
\<close>

record 'c waitexec =
  we_ch :: "'c exec_value option"
  we_done :: bool
  we_disposes :: nat

datatype 'c wait_event = WeAdded "'c exec_value option" | WeDisposed | WeCtxDone | WeLoop bool

datatype 'c wait_result = WrController 'c | WrError goerr | WrWaits

fun WaitExecControllerRunning :: "'c wait_event list \<Rightarrow> 'c waitexec \<Rightarrow> 'c wait_result \<times> 'c waitexec" where
  "WaitExecControllerRunning [] s = (WrWaits, s)"
| "WaitExecControllerRunning (WeAdded v # es) s =
     WaitExecControllerRunning es (case v of None \<Rightarrow> s | Some x \<Rightarrow> s\<lparr>we_ch := Some x\<rparr>)"
| "WaitExecControllerRunning (WeDisposed # es) s =
     WaitExecControllerRunning es (s\<lparr>we_done := True, we_disposes := we_disposes s + 1\<rparr>)"
| "WaitExecControllerRunning (WeCtxDone # es) s = WaitExecControllerRunning es (s\<lparr>we_done := True\<rparr>)"
| "WaitExecControllerRunning (WeLoop pickDone # es) s =
     (if we_done s \<and> (pickDone \<or> we_ch s = None) then (WrError Canceled, s)
      else case we_ch s of
        None \<Rightarrow> WaitExecControllerRunning es s
      | Some v \<Rightarrow>
          let s = s\<lparr>we_ch := None\<rparr> in
          case ev_err v of Some e \<Rightarrow> (WrError e, s)
          | None \<Rightarrow> (case ev_ctrl v of Some c \<Rightarrow> (WrController c, s) | None \<Rightarrow> WaitExecControllerRunning es s))"

definition WaitExecControllerRunningTyped :: "('c \<Rightarrow> 't option) \<Rightarrow> 'c wait_event list \<Rightarrow> 'c waitexec \<Rightarrow> 't wait_result" where
  "WaitExecControllerRunningTyped cast es s = (case fst (WaitExecControllerRunning es s) of
     WrController c \<Rightarrow> (case cast c of Some t \<Rightarrow> WrController t
       | None \<Rightarrow> WrError (GoErr ''exec controller constructed unexpected controller type''))
   | WrError e \<Rightarrow> WrError e
   | WrWaits \<Rightarrow> WrWaits)"

lemma WaitExecControllerRunning_result:
  "fst (WaitExecControllerRunning es s) = WrController c
   \<Longrightarrow> (\<exists>v. (WeAdded (Some v) \<in> set es \<or> we_ch s = Some v) \<and> ev_ctrl v = Some c \<and> ev_err v = None)"
  by (induction es s rule: WaitExecControllerRunning.induct)
    (fastforce split: if_splits option.splits simp: Let_def)+

end
