(* ===== verification/Bridge.thy ===== *)
theory Bridge
  imports ResolverXfrm
begin

text \<open>
  The bridge between buses (\<^verbatim>\<open>bus/bridge\<close>): which directives are handed to the target bus, and the
  resolver that hands the target's values back.
\<close>

section \<open>\<^verbatim>\<open>BusBridge\<close>\<close>

text \<open>Whether there is a target, and the directives that are being bridged. The filter may be nil.\<close>

record 'd bridge =
  br_target :: bool
  br_seen :: "'d list"

definition NewBusBridge :: "bool \<Rightarrow> 'd bridge" where
  "NewBusBridge target = \<lparr>br_target = target, br_seen = []\<rparr>"

definition SetDirectiveBridgeTarget :: "bool \<Rightarrow> 'd bridge \<Rightarrow> 'd bridge" where
  "SetDirectiveBridgeTarget target b = b\<lparr>br_target := target\<rparr>"

text \<open>The result is the directive to be resolved on the target, if any, and the error of the filter.\<close>

definition BusBridge_HandleDirective :: "('d \<Rightarrow> bool \<times> goerr option) option \<Rightarrow> 'd \<Rightarrow> 'd bridge
    \<Rightarrow> 'd option \<times> goerr option \<times> 'd bridge" where
  "BusBridge_HandleDirective filterFn dir b =
     (if \<not> br_target b then (None, None, b)
      else let (process, err) = (case filterFn of None \<Rightarrow> (True, None) | Some f \<Rightarrow> f dir) in
        if err \<noteq> None \<or> \<not> process then (None, err, b)
        else if dir \<in> set (br_seen b) then (None, None, b)
        else (Some dir, None, b\<lparr>br_seen := dir # br_seen b\<rparr>))"

text \<open>The dispose callback of the directive.\<close>

definition bridgeDisposed :: "'d \<Rightarrow> 'd bridge \<Rightarrow> 'd bridge" where
  "bridgeDisposed dir b = b\<lparr>br_seen := removeAll dir (br_seen b)\<rparr>"

text \<open>A directive that is bridged is not bridged again before it was disposed, so bridges never loop.\<close>

lemma bridge_once:
  assumes "fst (BusBridge_HandleDirective filterFn dir b) = Some d"
  shows "d = dir \<and> dir \<notin> set (br_seen b) \<and> dir \<in> set (br_seen (snd (snd (BusBridge_HandleDirective filterFn dir b))))"
  using assms by (auto simp: BusBridge_HandleDirective_def Let_def split: if_splits prod.splits option.splits)

section \<open>\<^verbatim>\<open>BusBridgeResolver\<close>\<close>

text \<open>
  The values of the target are emitted under identifiers kept in \<^verbatim>\<open>vmap\<close>, from which removed entries
  go: the map of the values and the sink are those of \<^typ>\<open>(u32, 'v) unique\<close>, keyed by the target's
  identifiers. When the target's directive is disposed the sub-context ends.
\<close>

record 'v bridge_resolver =
  bx_state :: "(u32, 'v) unique"
  bx_done :: bool

definition bridge_handler :: "'v alloc \<Rightarrow> ('v, 'v bridge_resolver) ref_handler" where
  "bridge_handler alloc = NewCallbackHandler
     (Some (\<lambda>i v s. s\<lparr>bx_state := uqAdd alloc i v (bx_state s)\<rparr>))
     (Some (\<lambda>i _ s. s\<lparr>bx_state := uqDrop i (bx_state s)\<rparr>))
     (Some (\<lambda>s. s\<lparr>bx_done := True\<rparr>))"

text \<open>
  \<open>given\<close> says that target and directive are not nil, \<open>addErr\<close> is the error of \<^verbatim>\<open>AddDirective\<close>. The result
  is \<^term>\<open>None\<close> while neither context is over.
\<close>

definition BusBridgeResolver_Resolve :: "bool \<Rightarrow> goerr option \<Rightarrow> 'v alloc \<Rightarrow> 'v ref_event list \<Rightarrow> bool
    \<Rightarrow> 'v bridge_resolver \<Rightarrow> goerr option option \<times> 'v bridge_resolver" where
  "BusBridgeResolver_Resolve given addErr alloc es ctxDone s =
     (if \<not> given then (Some None, s)
      else case addErr of Some e \<Rightarrow> (Some (Some e), s)
        | None \<Rightarrow> let s = deliverAll (bridge_handler alloc) es s in
            (if ctxDone \<or> bx_done s then Some None else None, s))"

definition bridge_init :: "'v bridge_resolver" where
  "bridge_init = \<lparr>bx_state = unique_init, bx_done = False\<rparr>"

lemma map_of_snoc: "i \<notin> fst ` set cur \<Longrightarrow> map_of (cur @ [(i, v)]) = (map_of cur)(i \<mapsto> v)"
  by (induction cur) auto

interpretation bridge: ref_client "bridge_handler alloc" bridge_init
  "\<lambda>cur s. alloc_law accept alloc \<longrightarrow> uqInv accept (\<lambda>_. Some) (map_of cur) (bx_state s) \<and> \<not> bx_done s"
  "\<lambda>cur s. alloc_law accept alloc \<longrightarrow> uqInv accept (\<lambda>_. Some) (map_of cur) (bx_state s) \<and> bx_done s"
  for alloc :: "'v alloc" and accept
proof (unfold_locales, goal_cases)
  case 1
  show ?case by (simp add: uqInv_def bridge_init_def unique_init_def sink_init_def)
next
  case (2 cur s i v)
  show ?case
  proof
    assume law: "alloc_law accept alloc"
    have inv: "uqInv accept (\<lambda>_. Some) (map_of cur) (bx_state s)" "\<not> bx_done s" using 2 law by auto
    have k: "map_of cur i = None" using 2 by (simp add: map_of_eq_None_iff)
    have "map_of (uq_ids (bx_state s)) i = None"
      using inv(1) k by (cases "map_of (uq_ids (bx_state s)) i") (fastforce simp: uqInv_def)+
    from uqInv_add[OF inv(1) law this k, of v]
    show "uqInv accept (\<lambda>_. Some) (map_of (cur @ [(i, v)])) (bx_state (HandleValueAdded (bridge_handler alloc) i v s))
      \<and> \<not> bx_done (HandleValueAdded (bridge_handler alloc) i v s)"
      using inv(2) map_of_snoc[of i cur v] 2 by (simp add: bridge_handler_def NewCallbackHandler_def)
  qed
next
  case (3 cur s i v)
  have "map_of (dropId i cur) = (map_of cur)(i := None)" by (rule ext) simp
  then show ?case using 3 uqInv_drop[of accept "\<lambda>_. Some" "map_of cur" "bx_state s" i]
    by (simp add: bridge_handler_def NewCallbackHandler_def)
next
  case (4 cur s)
  then show ?case by (simp add: bridge_handler_def NewCallbackHandler_def)
qed

text \<open>
  C32: the bridge mirrors the target's directive: after any reports, exactly the accepted values present on
  the target are emitted, each under an identifier of its own, until the bridge ends; but when the
  target's directive is disposed the bridge ends without an error and the values it had emitted stay.
\<close>

theorem BusBridgeResolver_mirrors:
  assumes "stream es" "alloc_law accept alloc"
    and r: "BusBridgeResolver_Resolve True None alloc es ctxDone bridge_init = (res, s)"
    and small: "length (sk_used (uq_sink (bx_state s))) < 2 ^ 32 - 1"
  shows "(res = Some None \<longleftrightarrow> ctxDone \<or> disposed_in es)
    \<and> (\<exists>idOf. dom idOf = {i. \<exists>v. map_of (present es) i = Some v \<and> accept v} \<and> inj_on idOf (dom idOf)
        \<and> set (sk_vals (uq_sink (bx_state s))) = {(j, v). \<exists>i. idOf i = Some j \<and> map_of (present es) i = Some v})"
proof -
  have s: "s = deliverAll (bridge_handler alloc) es bridge_init" and res: "res = (if ctxDone \<or> bx_done s then Some None else None)"
    using r by (auto simp: BusBridgeResolver_Resolve_def Let_def)
  have "uqInv accept (\<lambda>_. Some) (map_of (present es)) (bx_state s) \<and> (bx_done s \<longleftrightarrow> disposed_in es)"
    using bridge.deliverAll_Fin[OF assms(1), of accept alloc] bridge.deliverAll_Inv[OF assms(1), of accept alloc]
      assms(2) s by (cases "disposed_in es") simp_all
  then have inv: "uqInv accept (\<lambda>_. Some) (map_of (present es)) (bx_state s)" and d: "bx_done s \<longleftrightarrow> disposed_in es"
    by simp_all
  show ?thesis using uqInv_idOf[OF inv small] res d by simp
qed

theorem BusBridgeResolver_mirrors_witness:
  "\<exists>s. BusBridgeResolver_Resolve True None (firstFree (\<lambda>_. True)) [Added 4 (1::nat), Added 5 2, Removed 4 1, Disposed] False
      bridge_init = (Some None, s) \<and> snd ` set (sk_vals (uq_sink (bx_state s))) = {2}"
proof -
  let ?es = "[Added 4 (1::nat), Added 5 2, Removed 4 1, Disposed]"
  let ?r = "BusBridgeResolver_Resolve True None (firstFree (\<lambda>_. True)) ?es False bridge_init"
  have f: "length (sk_used (uq_sink (bx_state (snd ?r)))) = 2" by code_simp
  have small: "length (sk_used (uq_sink (bx_state (snd ?r)))) < 2 ^ 32 - 1" unfolding f by simp
  have es: "stream ?es" "disposed_in ?es" "present ?es = [(5, 2)]" by code_simp+
  have r: "?r = (fst ?r, snd ?r)" by (rule prod.collapse[symmetric])
  note m = BusBridgeResolver_mirrors[OF es(1) firstFree_law r small]
  have 1: "fst ?r = Some None" using conjunct1[OF m] es(2) by blast
  obtain idOf :: "u32 \<rightharpoonup> u32" where d: "dom idOf = {i. \<exists>v. map_of (present ?es) i = Some v \<and> True}"
      and v: "set (sk_vals (uq_sink (bx_state (snd ?r)))) = {(j, v). \<exists>i. idOf i = Some j \<and> map_of (present ?es) i = Some v}"
    using conjunct2[OF m] by (elim exE conjE) (rule that; assumption)
  have "5 \<in> dom idOf" unfolding d es(3) by simp
  then have "snd ` set (sk_vals (uq_sink (bx_state (snd ?r)))) = {2}" unfolding v es(3) by (force split: if_splits)
  with 1 r show ?thesis by (metis (no_types, lifting))
qed

end
