(* ===== verification/Plugin.thy ===== *)
theory Plugin
  imports InmemBus FactoryResolver
begin

text \<open>
  Plugins (\<^verbatim>\<open>plugin\<close>), factories attached to a bus (\<^verbatim>\<open>bus/factory.go\<close>) and the standard bus (\<^verbatim>\<open>core\<close>).
\<close>

section \<open>\<^verbatim>\<open>StaticPluginFactory\<close>\<close>

text \<open>Whether the factory's context is canceled, and the controllers to be removed before unloading.\<close>

record 'c plugin_factory =
  pf_canceled :: bool
  pf_preUnload :: "'c list"

definition NewStaticPluginFactory :: "'c plugin_factory" where
  "NewStaticPluginFactory = \<lparr>pf_canceled = False, pf_preUnload = []\<rparr>"

text \<open>\<open>result\<close> is what the wrapped factory constructs.\<close>

definition StaticPluginFactory_Construct :: "goerr + 'c \<Rightarrow> 'c plugin_factory \<Rightarrow> (goerr + 'c) \<times> 'c plugin_factory" where
  "StaticPluginFactory_Construct result f = (case result of
     Inl e \<Rightarrow> (Inl e, f) | Inr c \<Rightarrow> (Inr c, f\<lparr>pf_preUnload := pf_preUnload f @ [c]\<rparr>))"

definition StaticPluginFactory_Close :: "'c plugin_factory \<Rightarrow> 'c bus \<Rightarrow> 'c plugin_factory \<times> 'c bus" where
  "StaticPluginFactory_Close f b =
     (\<lparr>pf_canceled = True, pf_preUnload = []\<rparr>, fold RemoveController (pf_preUnload f) b)"

section \<open>\<^verbatim>\<open>plugin.Resolver\<close>\<close>

text \<open>
  The factories that were handed out, each by its number in the list, those whose \<^verbatim>\<open>Close\<close> is in
  \<^verbatim>\<open>preUnload\<close>, and the registry.
\<close>

record ('c, 'f) plugin_resolver =
  pr_static :: "'f static_resolver"
  pr_factories :: "'c plugin_factory list"
  pr_preUnload :: "nat list"

definition plugin_NewResolver :: "'f factory list \<Rightarrow> ('c, 'f) plugin_resolver" where
  "plugin_NewResolver fs = \<lparr>pr_static = NewResolver fs, pr_factories = [], pr_preUnload = []\<rparr>"

definition pluginID :: "string \<Rightarrow> string \<Rightarrow> string" where
  "pluginID binaryID binaryVersion =
     ''controllerbus/hot/plugin/'' @ binaryID @ ''/'' @ binaryVersion @ ''/static-resolver''"

definition plugin_GetConfigCtorByID :: "string \<Rightarrow> ('c, 'f) plugin_resolver \<Rightarrow> (string \<times> 'f factory) option" where
  "plugin_GetConfigCtorByID cid r = GetConfigCtorByID cid (pr_static r)"

text \<open>A factory that is found is wrapped anew with each lookup.\<close>

definition plugin_GetFactory :: "string \<Rightarrow> ('c, 'f) plugin_resolver \<Rightarrow> ('f factory \<times> nat) option \<times> ('c, 'f) plugin_resolver" where
  "plugin_GetFactory cid r = (case GetFactoryMatchingConfig cid (pr_static r) of
     None \<Rightarrow> (None, r)
   | Some f \<Rightarrow> (Some (f, length (pr_factories r)),
       r\<lparr>pr_factories := pr_factories r @ [NewStaticPluginFactory], pr_preUnload := pr_preUnload r @ [length (pr_factories r)]\<rparr>))"

definition closeFactory :: "nat \<Rightarrow> ('c, 'f) plugin_resolver \<times> 'c bus \<Rightarrow> ('c, 'f) plugin_resolver \<times> 'c bus" where
  "closeFactory n = (\<lambda>(r, b). let (f, b) = StaticPluginFactory_Close (pr_factories r ! n) b in
     (r\<lparr>pr_factories := (pr_factories r)[n := f]\<rparr>, b))"

definition PrePluginUnload :: "('c, 'f) plugin_resolver \<Rightarrow> 'c bus \<Rightarrow> ('c, 'f) plugin_resolver \<times> 'c bus" where
  "PrePluginUnload r b = (let (r, b) = fold closeFactory (pr_preUnload r) (r, b) in (r\<lparr>pr_preUnload := []\<rparr>, b))"

text \<open>What happens with a plugin that is loaded: lookups, constructions with factories it gave, and other users of the bus.\<close>

datatype 'c plugin_op = PluginLookup string | PluginConstruct nat "goerr + 'c" | PluginBus "'c bus_op"

fun pluginStep :: "(goerr \<Rightarrow> goerr) \<Rightarrow> 'c plugin_op \<Rightarrow> ('c, 'f) plugin_resolver \<times> 'c bus \<Rightarrow> ('c, 'f) plugin_resolver \<times> 'c bus" where
  "pluginStep wrap (PluginLookup cid) (r, b) = (snd (plugin_GetFactory cid r), b)"
| "pluginStep wrap (PluginConstruct n result) (r, b) =
     (if n < length (pr_factories r)
      then (r\<lparr>pr_factories := (pr_factories r)[n := snd (StaticPluginFactory_Construct result (pr_factories r ! n))]\<rparr>, b)
      else (r, b))"
| "pluginStep wrap (PluginBus op) (r, b) = (r, busStep wrap op b)"

text \<open>The controllers that the factories hold, and the invariant: every factory is to be closed, once.\<close>

definition pluginHolds :: "('c, 'f) plugin_resolver \<Rightarrow> 'c list" where
  "pluginHolds r = concat (map pf_preUnload (pr_factories r))"

definition pluginInv :: "('c, 'f) plugin_resolver \<Rightarrow> bool" where
  "pluginInv r \<longleftrightarrow> pr_preUnload r = [0..<length (pr_factories r)] \<and> list_all (\<lambda>f. \<not> pf_canceled f) (pr_factories r)"

lemma pluginInv_step: "pluginInv r \<Longrightarrow> pluginInv (fst (pluginStep wrap op (r, b)))"
proof (cases op)
  case (PluginLookup cid)
  then show "pluginInv r \<Longrightarrow> ?thesis"
    by (auto simp: pluginInv_def plugin_GetFactory_def NewStaticPluginFactory_def split: option.split)
next
  case (PluginConstruct n result)
  then show "pluginInv r \<Longrightarrow> ?thesis"
    by (auto simp: pluginInv_def StaticPluginFactory_Construct_def list_all_length nth_list_update split: sum.split)
qed simp

lemma fold_closeFactory:
  assumes "n \<le> length (pr_factories r)"
  shows "fold closeFactory [0..<n] (r, b) =
    (r\<lparr>pr_factories := replicate n \<lparr>pf_canceled = True, pf_preUnload = []\<rparr> @ drop n (pr_factories r)\<rparr>,
     fold RemoveController (concat (map pf_preUnload (take n (pr_factories r)))) b)"
  using assms
proof (induction n)
  case (Suc n)
  then have n: "n < length (pr_factories r)" by simp
  have "(replicate n x @ drop n (pr_factories r))[n := x] = replicate (Suc n) x @ drop (Suc n) (pr_factories r)" for x
    using n by (simp add: list_update_append Cons_nth_drop_Suc[OF n, symmetric] replicate_app_Cons_same)
  moreover have "take (Suc n) (pr_factories r) = take n (pr_factories r) @ [pr_factories r ! n]"
    using n by (rule take_Suc_conv_app_nth)
  ultimately show ?case using Suc n
    by (simp add: closeFactory_def StaticPluginFactory_Close_def nth_append Let_def)
qed simp

lemma mset_fold_RemoveController:
  "mset (GetControllers (fold RemoveController cs b)) = mset (GetControllers b) - mset cs"
  by (induction cs arbitrary: b) (simp_all add: RemoveController_def mset_removeController(2))

text \<open>
  C24: unloading a plugin removes its controllers: whatever was looked up and constructed before, after
  \<^verbatim>\<open>PrePluginUnload\<close> the context of every factory handed out is canceled, no factory holds a controller
  any more, and of the bus exactly the controllers constructed with them are gone.
\<close>

theorem PrePluginUnload_removes:
  assumes "fold (pluginStep wrap) ops (plugin_NewResolver fs, b0) = (r, b)"
    and "PrePluginUnload r b = (r', b')"
  shows "list_all pf_canceled (pr_factories r') \<and> pluginHolds r' = [] \<and> pr_preUnload r' = []
    \<and> length (pr_factories r') = length (pr_factories r)
    \<and> mset (GetControllers b') = mset (GetControllers b) - mset (pluginHolds r)"
proof -
  have "pluginInv (fst (fold (pluginStep wrap) ops (r, b)))" if "pluginInv r" for r :: "('a, 'b) plugin_resolver" and b
    using that
  proof (induction ops arbitrary: r b)
    case (Cons op ops)
    have "pluginInv (fst (pluginStep wrap op (r, b)))" using Cons.prems by (rule pluginInv_step)
    then show ?case using Cons.IH[of "fst (pluginStep wrap op (r, b))" "snd (pluginStep wrap op (r, b))"] by simp
  qed simp
  from this[of "plugin_NewResolver fs" b0] have inv: "pr_preUnload r = [0..<length (pr_factories r)]"
    using assms(1) by (simp add: pluginInv_def plugin_NewResolver_def)
  have "r' = r\<lparr>pr_factories := replicate (length (pr_factories r)) \<lparr>pf_canceled = True, pf_preUnload = []\<rparr>, pr_preUnload := []\<rparr>"
      "b' = fold RemoveController (pluginHolds r) b"
    using assms(2) fold_closeFactory[of "length (pr_factories r)" r b] inv
    by (simp_all add: PrePluginUnload_def pluginHolds_def)
  then show ?thesis
    by (simp add: mset_fold_RemoveController pluginHolds_def list_all_length concat_eq_Nil_conv)
qed

theorem PrePluginUnload_removes_witness:
  "\<exists>r' b'. PrePluginUnload
      (\<lparr>pr_static = NewResolver [], pr_factories = [], pr_preUnload = []\<rparr> :: (nat, nat) plugin_resolver)
      (snd (addController None 3 NewBus)) = (r', b') \<and> GetControllers b' = [3]"
proof -
  let ?r = "plugin_NewResolver [] :: (nat, nat) plugin_resolver" and ?b = "snd (addController None 3 NewBus)"
  obtain r' b' where u: "PrePluginUnload ?r ?b = (r', b')" by fastforce
  have "fold (pluginStep id) [PluginBus (BusAdd None 3)] (?r, NewBus) = (?r, ?b)" by simp
  from PrePluginUnload_removes[OF this u] have "mset (GetControllers b') = {#3#}"
    by (simp add: pluginHolds_def plugin_NewResolver_def addController_def GetControllers_def NewBus_def)
  then show ?thesis using u by (auto simp: plugin_NewResolver_def)
qed

text \<open>A controller that a factory constructs after it was closed is not removed any more.\<close>

theorem late_construct_stays:
  "let (f, b) = StaticPluginFactory_Close (NewStaticPluginFactory :: nat plugin_factory) NewBus;
       (c, f) = StaticPluginFactory_Construct (Inr 7) f;
       b = snd (addController None 7 b)
   in pf_canceled f \<and> pf_preUnload f = [7] \<and> GetControllers b = [7]"
  by (simp add: StaticPluginFactory_Close_def NewStaticPluginFactory_def StaticPluginFactory_Construct_def
      addController_def GetControllers_def NewBus_def)

section \<open>\<^verbatim>\<open>StaticPlugin\<close>\<close>

record ('b, 'f) static_plugin =
  spl_binaryID :: string
  spl_binaryVersion :: string
  spl_factories :: "'b \<Rightarrow> 'f factory list"

definition NewPluginResolver :: "'b \<Rightarrow> ('b, 'f) static_plugin \<Rightarrow> string \<times> ('c, 'f) plugin_resolver" where
  "NewPluginResolver b p = (pluginID (spl_binaryID p) (spl_binaryVersion p), plugin_NewResolver (spl_factories p b))"

section \<open>\<^verbatim>\<open>BusFactory\<close>\<close>

text \<open>A configuration has the type of the factory if \<open>cast\<close> gives it.\<close>

record ('cfg, 'conf, 'c) bus_factory =
  bf_configID :: string
  bf_version :: version
  bf_cast :: "'cfg \<Rightarrow> 'conf option"
  bf_new :: "'conf \<Rightarrow> goerr + 'c"

definition BusFactory_Construct :: "('cfg \<Rightarrow> string) \<Rightarrow> ('cfg, 'conf, 'c) bus_factory \<Rightarrow> 'cfg \<Rightarrow> goerr + 'c" where
  "BusFactory_Construct getID f cc = (case bf_cast f cc of
     Some conf \<Rightarrow> bf_new f conf
   | None \<Rightarrow> (if bf_configID f = getID cc then Inl (GoErr ''config has correct config id but incorrect go type'')
       else Inl (GoErr (''config has unexpected id: expected '' @ bf_configID f @ '' got '' @ getID cc))))"

section \<open>\<^verbatim>\<open>NewCoreBus\<close>\<close>

text \<open>
  The configuration, and the options that change it (a nil option is \<^term>\<open>None\<close>). The custom resolver is
  what \<open>fctor\<close> makes of the registry.
\<close>

record ('f, 'r) core_config =
  cc_ctor :: "('f static_resolver \<Rightarrow> goerr + 'r) option"
  cc_factories :: "'f factory list"

type_synonym ('f, 'r) core_option = "('f, 'r) core_config \<Rightarrow> goerr + ('f, 'r) core_config"

definition WithControllerFactories :: "'f factory list \<Rightarrow> ('f, 'r) core_option" where
  "WithControllerFactories fs c = Inr (c\<lparr>cc_factories := cc_factories c @ fs\<rparr>)"

definition WithFactoryResolverCtor :: "('f static_resolver \<Rightarrow> goerr + 'r) option \<Rightarrow> ('f, 'r) core_option" where
  "WithFactoryResolverCtor ctor c = Inr (c\<lparr>cc_ctor := ctor\<rparr>)"

fun applyOptions :: "('f, 'r) core_option option list \<Rightarrow> ('f, 'r) core_config \<Rightarrow> goerr + ('f, 'r) core_config" where
  "applyOptions [] c = Inr c"
| "applyOptions (None # opts) c = applyOptions opts c"
| "applyOptions (Some opt # opts) c = (case opt c of Inl e \<Rightarrow> Inl e | Inr c \<Rightarrow> applyOptions opts c)"

text \<open>The controllers of the standard bus: the loader, and the resolver of factories.\<close>

datatype ('f, 'r) core_ctrl = LoaderCtrl | ResolverCtrl "'f static_resolver + 'r"

definition NewCoreBus :: "('f, 'r) core_option option list \<Rightarrow> 'f factory \<Rightarrow> goerr option \<Rightarrow> goerr option
    \<Rightarrow> goerr + ('f, 'r) core_ctrl bus \<times> 'f static_resolver" where
  "NewCoreBus opts configsetFactory loaderErr resolverErr =
     (case applyOptions opts \<lparr>cc_ctor = None, cc_factories = []\<rparr> of
        Inl e \<Rightarrow> Inl e
      | Inr conf \<Rightarrow>
          (case addController loaderErr LoaderCtrl NewBus of
             (Some e, _) \<Rightarrow> Inl e
           | (None, b) \<Rightarrow>
               let sr = AddFactory configsetFactory (NewResolver (cc_factories conf)) in
               case (case cc_ctor conf of None \<Rightarrow> Inr (Inl sr) | Some fctor \<Rightarrow> map_sum id Inr (fctor sr)) of
                 Inl e \<Rightarrow> Inl e
               | Inr fres \<Rightarrow> (case addController resolverErr (ResolverCtrl fres) b of
                     (Some e, _) \<Rightarrow> Inl e | (None, b) \<Rightarrow> Inr (b, sr))))"

text \<open>The standard bus has the loader and the resolver of factories, and the registry knows all factories given.\<close>

lemma NewCoreBus_controllers:
  assumes "NewCoreBus opts cs lerr rerr = Inr (b, sr)"
  shows "\<exists>conf fres. applyOptions opts \<lparr>cc_ctor = None, cc_factories = []\<rparr> = Inr conf
    \<and> GetControllers b = [LoaderCtrl, ResolverCtrl fres]
    \<and> sr = NewResolver (cc_factories conf @ [cs]) \<and> (cc_ctor conf = None \<longrightarrow> fres = Inl sr)"
  using assms
  by (auto simp: NewCoreBus_def addController_def GetControllers_def NewBus_def NewResolver_def Let_def
      split: sum.splits option.splits)

end
