(* ===== verification/Exec.thy ===== *)
theory Exec
  imports ConfigSet Loader
begin

text \<open>
  Executing controllers with status reports (\<^verbatim>\<open>controller/exec\<close>): one configuration, or a request with a
  set of them. Both calls add a directive whose callbacks send each value through one of two channels
  of size one, and report a status for what they receive. The parser of YAML and the lookup of
  configuration constructors are code outside the repository and parameters here.
\<close>

section \<open>Responses\<close>

datatype cstatus = UNKNOWN | CONFIGURING | RUNNING | ERROR

definition cstatus_String :: "cstatus \<Rightarrow> string" where
  "cstatus_String s = ''ControllerStatus_'' @ (case s of UNKNOWN \<Rightarrow> ''UNKNOWN'' | CONFIGURING \<Rightarrow> ''CONFIGURING''
     | RUNNING \<Rightarrow> ''RUNNING'' | ERROR \<Rightarrow> ''ERROR'')"

text \<open>\<^verbatim>\<open>ExecControllerResponse\<close>; \<^verbatim>\<open>Reset\<close> gives the zero values.\<close>

record 'i resp =
  rp_id :: string
  rp_status :: cstatus
  rp_info :: "'i option"
  rp_error :: string

definition resp_Reset :: "'i resp" where
  "resp_Reset = \<lparr>rp_id = [], rp_status = UNKNOWN, rp_info = None, rp_error = []\<rparr>"

definition errorText :: "goerr \<Rightarrow> string" where
  "errorText e = (case e of Canceled \<Rightarrow> ''context canceled'' | DirectiveDisposed \<Rightarrow> ''directive disposed'' | GoErr m \<Rightarrow> m)"

definition ErrAllControllersFailed :: goerr where
  "ErrAllControllersFailed = GoErr ''all controller configurations failed''"

definition resp_GetError :: "'i resp \<Rightarrow> goerr option" where
  "resp_GetError r = (if rp_status r \<noteq> ERROR then None
     else if rp_error r \<noteq> [] then Some (GoErr (rp_error r)) else Some ErrAllControllersFailed)"

definition FormatLogString :: "'i resp \<Rightarrow> string" where
  "FormatLogString r = joinWith '': ''
     ((if rp_id r \<noteq> [] then [rp_id r] else [])
      @ (if rp_status r \<noteq> UNKNOWN then [cstatus_String (rp_status r)] else [])
      @ (case resp_GetError r of None \<Rightarrow> [] | Some e \<Rightarrow> [errorText e]))"

section \<open>The two channels\<close>

text \<open>
  The value callbacks of the directive are called one after the other; each converts its value
  (\<open>conv\<close>), returns if there is nothing to send, and otherwise blocks until its channel has room. The
  loop takes from either channel that has an element.
\<close>

datatype 'a pick = PkAdded 'a | PkRemoved 'a

fun pickValue :: "'a pick \<Rightarrow> 'a" where
  "pickValue (PkAdded v) = v"
| "pickValue (PkRemoved v) = v"

fun isAdded :: "'a pick \<Rightarrow> bool" where
  "isAdded (PkAdded v) = True"
| "isAdded (PkRemoved v) = False"

record ('v, 'a) pipe =
  pi_todo :: "'v pick list"
  pi_added :: "'a option"
  pi_removed :: "'a option"
  pi_picked :: "'a pick list"

inductive pickStep :: "('v \<Rightarrow> 'a option) \<Rightarrow> ('v, 'a) pipe \<Rightarrow> ('v, 'a) pipe \<Rightarrow> bool" for conv where
  skip: "pi_todo p = v # vs \<Longrightarrow> conv (pickValue v) = None \<Longrightarrow> pickStep conv p (p\<lparr>pi_todo := vs\<rparr>)"
| sendAdded: "pi_todo p = PkAdded v # vs \<Longrightarrow> conv v = Some a \<Longrightarrow> pi_added p = None
    \<Longrightarrow> pickStep conv p (p\<lparr>pi_todo := vs, pi_added := Some a\<rparr>)"
| sendRemoved: "pi_todo p = PkRemoved v # vs \<Longrightarrow> conv v = Some a \<Longrightarrow> pi_removed p = None
    \<Longrightarrow> pickStep conv p (p\<lparr>pi_todo := vs, pi_removed := Some a\<rparr>)"
| takeAdded: "pi_added p = Some a
    \<Longrightarrow> pickStep conv p (p\<lparr>pi_added := None, pi_picked := pi_picked p @ [PkAdded a]\<rparr>)"
| takeRemoved: "pi_removed p = Some a
    \<Longrightarrow> pickStep conv p (p\<lparr>pi_removed := None, pi_picked := pi_picked p @ [PkRemoved a]\<rparr>)"

definition pipe_init :: "'v pick list \<Rightarrow> ('v, 'a) pipe" where
  "pipe_init vs = \<lparr>pi_todo = vs, pi_added = None, pi_removed = None, pi_picked = []\<rparr>"

text \<open>What the loop may see of the given callbacks, when all of them are through.\<close>

definition seen :: "('v \<Rightarrow> 'a option) \<Rightarrow> 'v pick list \<Rightarrow> 'a pick list \<Rightarrow> bool" where
  "seen conv vs ps \<longleftrightarrow> (pickStep conv)\<^sup>*\<^sup>* (pipe_init vs) \<lparr>pi_todo = [], pi_added = None, pi_removed = None, pi_picked = ps\<rparr>"

section \<open>\<^verbatim>\<open>ExecuteController\<close>\<close>

text \<open>What the loop's \<^verbatim>\<open>select\<close> receives; the sub-context ends with the directive or the context.\<close>

datatype 'a exec_ev = XPick "'a pick" | XCtxDone | XSubDone goerr

text \<open>The conversion of the callbacks; \<^term>\<open>None\<close> is a nil value or one of another type.\<close>

definition execValueOf :: "'c exec_value option \<Rightarrow> 'c exec_value option" where
  "execValueOf v = v"

text \<open>The local function \<^verbatim>\<open>callCb\<close>, on the previous state and the states passed to the callback.\<close>

definition statusCb :: "cstatus \<Rightarrow> cstatus \<times> cstatus list \<Rightarrow> cstatus \<times> cstatus list" where
  "statusCb nx s = (case s of (prev, log) \<Rightarrow> if nx = prev then s else (nx, log @ [nx]))"

text \<open>The loop; the result is \<^term>\<open>None\<close> while it waits, and otherwise the error returned.\<close>

fun execControllerLoop :: "'c exec_value exec_ev list \<Rightarrow> cstatus \<times> cstatus list
    \<Rightarrow> goerr option option \<times> cstatus \<times> cstatus list" where
  "execControllerLoop [] s = (None, s)"
| "execControllerLoop (XCtxDone # es) s = (Some None, s)"
| "execControllerLoop (XSubDone e # es) s = (Some (Some e), s)"
| "execControllerLoop (XPick (PkAdded v) # es) s = (case ev_err v of
     Some e \<Rightarrow> (Some (Some e), statusCb ERROR s)
   | None \<Rightarrow> execControllerLoop es (statusCb (if ev_ctrl v \<noteq> None then RUNNING else CONFIGURING) s))"
| "execControllerLoop (XPick (PkRemoved v) # es) s = execControllerLoop es
     (if ev_ctrl v \<noteq> None \<and> fst s = RUNNING then statusCb CONFIGURING s else s)"

definition ExecuteController :: "goerr option \<Rightarrow> 'c exec_value exec_ev list \<Rightarrow> goerr option option \<times> cstatus list" where
  "ExecuteController addErr es = (case addErr of Some e \<Rightarrow> (Some (Some e), [])
     | None \<Rightarrow> (let (r, s) = execControllerLoop es (UNKNOWN, []) in (r, snd s)))"

section \<open>\<^verbatim>\<open>ExecControllerRequest.Execute\<close>\<close>

text \<open>
  The value of \<^verbatim>\<open>ApplyConfigSet\<close>: identifier, error and controller, whose \<^verbatim>\<open>GetControllerInfo\<close> (which may be nil) is
  \<open>info\<close> below.
\<close>

record 'k csvalue =
  cv_id :: string
  cv_err :: "goerr option"
  cv_ctrl :: "'k option"

definition applyValueOf :: "'k csvalue option \<Rightarrow> 'k csvalue option" where
  "applyValueOf v = (case v of None \<Rightarrow> None | Some c \<Rightarrow> if cv_id c = [] then None else Some c)"

text \<open>
  The variables of \<^verbatim>\<open>Execute\<close>: the response that is used again for each call, the last status of each
  identifier, and the responses the callback was given.
\<close>

record 'i execst =
  es_resp :: "'i resp"
  es_prev :: "string \<Rightarrow> cstatus"
  es_log :: "'i resp list"

definition execst_init :: "'i execst" where
  "execst_init = \<lparr>es_resp = resp_Reset, es_prev = (\<lambda>_. UNKNOWN), es_log = []\<rparr>"

text \<open>
  \<^verbatim>\<open>callCb\<close>: a callback may return an error, which depends on all it was given; \<^term>\<open>None\<close> is the nil
  callback.
\<close>

definition callCb :: "('i resp list \<Rightarrow> goerr option) option \<Rightarrow> 'i execst \<Rightarrow> goerr option \<times> 'i execst" where
  "callCb cb s = (case cb of None \<Rightarrow> (None, s)
     | Some f \<Rightarrow> (let log = es_log s @ [es_resp s] in (f log, s\<lparr>es_log := log\<rparr>)))"

text \<open>
  The calls after which the response is reset when the callback returns no error: the status of the
  response is entered in \<^verbatim>\<open>prevStates\<close> before.
\<close>

definition reportResp :: "('i resp list \<Rightarrow> goerr option) option \<Rightarrow> 'i execst \<Rightarrow> goerr option \<times> 'i execst" where
  "reportResp cb s =
     (let s = s\<lparr>es_prev := (es_prev s)(rp_id (es_resp s) := rp_status (es_resp s))\<rparr> in
      case callCb cb s of (Some e, s) \<Rightarrow> (Some e, s) | (None, s) \<Rightarrow> (None, s\<lparr>es_resp := resp_Reset\<rparr>))"

text \<open>
  The loop over the configurations: those that are not in the set yet are resolved, an error is
  reported, counted and kept. The result is the error of the callback, or the set and the errors.
\<close>

fun resolveRest :: "'c config_env \<Rightarrow> ('i resp list \<Rightarrow> goerr option) option \<Rightarrow> pconf option gomap
    \<Rightarrow> 'c config_set \<Rightarrow> goerr list \<Rightarrow> 'i execst \<Rightarrow> (goerr + 'c config_set \<times> goerr list) \<times> 'i execst" where
  "resolveRest W cb [] confSet errs s = (Inr (confSet, errs), s)"
| "resolveRest W cb ((csID, conf) # confs) confSet errs s =
     (if csID = [] then resolveRest W cb confs confSet errs s
      else if map_of confSet csID \<noteq> None then resolveRest W cb confs confSet errs s
      else case pconf_Resolve W conf of
        Inr cc \<Rightarrow> resolveRest W cb confs (mapSet csID (Some cc) confSet) errs s
      | Inl err \<Rightarrow> (case reportResp cb (s\<lparr>es_resp := (es_resp s)\<lparr>rp_id := csID, rp_status := ERROR, rp_error := errorText err\<rparr>\<rparr>) of
          (Some e, s) \<Rightarrow> (Inl e, s)
        | (None, s) \<Rightarrow> resolveRest W cb confs confSet (errs @ [err]) s))"

text \<open>
  The request: the map of its config set (\<^term>\<open>None\<close> without a config set, \<^term>\<open>Some None\<close> with a nil
  map), its YAML text and whether that overwrites.
\<close>

record exec_request =
  er_configSet :: "pconf option gomap option option"
  er_yaml :: string
  er_overwrite :: bool

definition confsListOf :: "exec_request \<Rightarrow> pconf option gomap" where
  "confsListOf r = (case er_configSet r of Some (Some m) \<Rightarrow> m | _ \<Rightarrow> [])"

text \<open>The set before the loop: resolved as a whole unless partial success is allowed, then the YAML text.\<close>

definition resolveFirst :: "'c config_env \<Rightarrow> (string \<Rightarrow> goerr + jconf option gomap) \<Rightarrow> exec_request \<Rightarrow> bool
    \<Rightarrow> goerr + 'c config_set" where
  "resolveFirst W parseYAML r allowPartial =
     (case (if \<not> allowPartial \<and> confsListOf r \<noteq> [] then
         (case ConfigSetMap_Resolve W (Some (confsListOf r)) of
            Inl e \<Rightarrow> Inl e
          | Inr m \<Rightarrow> Inr (case m of None \<Rightarrow> [] | Some m \<Rightarrow> map (\<lambda>(k, v). (k, Some v)) m))
       else Inr []) of
       Inl e \<Rightarrow> Inl e
     | Inr confSet \<Rightarrow>
         if er_yaml r \<noteq> [] then (case parseYAML (er_yaml r) of
             Inl e \<Rightarrow> Inl e
           | Inr cs \<Rightarrow> (case UnmarshalYAML_set W cs confSet (er_overwrite r) of
               ((added, Some e), confSet) \<Rightarrow> Inl e
             | ((added, None), confSet) \<Rightarrow> Inr confSet))
         else Inr confSet)"

text \<open>The code up to the directive: the error returned, or the config set to apply.\<close>

definition Execute_prepare :: "'c config_env \<Rightarrow> (string \<Rightarrow> goerr + jconf option gomap)
    \<Rightarrow> ('i resp list \<Rightarrow> goerr option) option \<Rightarrow> exec_request \<Rightarrow> bool \<Rightarrow> (goerr + 'c config_set) \<times> 'i execst" where
  "Execute_prepare W parseYAML cb r allowPartial =
     (if er_configSet r = None \<and> er_yaml r = [] then
        (Inl (GoErr ''at least one config must be specified''), execst_init)
      else case resolveFirst W parseYAML r allowPartial of
        Inl e \<Rightarrow> (Inl e, execst_init)
      | Inr confSet \<Rightarrow> (case resolveRest W cb (confsListOf r) confSet [] execst_init of
          (Inl e, s) \<Rightarrow> (Inl e, s)
        | (Inr (confSet, errs), s) \<Rightarrow>
            if length errs = length (confsListOf r) \<and> confsListOf r \<noteq> [] then
              (Inl (if length (confsListOf r) = 1 then last errs else ErrAllControllersFailed), s)
            else (Inr confSet, s\<lparr>es_resp := resp_Reset\<rparr>)))"

text \<open>
  One element of the channels in the loop, the response for it first; the result is the error of the
  callback.
\<close>

definition addedResp :: "('k \<Rightarrow> 'i option) \<Rightarrow> 'k csvalue \<Rightarrow> 'i resp \<Rightarrow> 'i resp" where
  "addedResp info v r =
     (let r = r\<lparr>rp_id := cv_id v\<rparr> in
      case cv_err v of
        Some e \<Rightarrow> r\<lparr>rp_status := ERROR, rp_error := errorText e\<rparr>
      | None \<Rightarrow> (case cv_ctrl v of
          Some ctrl \<Rightarrow> r\<lparr>rp_status := RUNNING, rp_info := info ctrl\<rparr>
        | None \<Rightarrow> r\<lparr>rp_status := CONFIGURING\<rparr>))"

definition addedStep :: "('i resp list \<Rightarrow> goerr option) option \<Rightarrow> ('k \<Rightarrow> 'i option) \<Rightarrow> 'k csvalue \<Rightarrow> 'i execst
    \<Rightarrow> goerr option \<times> 'i execst" where
  "addedStep cb info v s =
     (let r = addedResp info v (es_resp s) in
      if es_prev s (cv_id v) \<noteq> rp_status r \<or> rp_status r \<noteq> CONFIGURING
      then reportResp cb (s\<lparr>es_resp := r\<rparr>)
      else (None, s\<lparr>es_resp := resp_Reset\<rparr>))"

definition removedStep :: "('i resp list \<Rightarrow> goerr option) option \<Rightarrow> 'k csvalue \<Rightarrow> 'i execst
    \<Rightarrow> goerr option \<times> 'i execst" where
  "removedStep cb v s =
     (let r = (es_resp s)\<lparr>rp_status := CONFIGURING\<rparr> in
      if es_prev s (cv_id v) = CONFIGURING then (None, s\<lparr>es_resp := r\<lparr>rp_status := UNKNOWN\<rparr>\<rparr>)
      else reportResp cb (s\<lparr>es_resp := r\<lparr>rp_id := cv_id v\<rparr>\<rparr>))"

datatype 'k req_ev = RPick "'k csvalue pick" | RSubDone goerr

fun executeLoop :: "('i resp list \<Rightarrow> goerr option) option \<Rightarrow> ('k \<Rightarrow> 'i option) \<Rightarrow> 'k req_ev list \<Rightarrow> 'i execst
    \<Rightarrow> goerr option \<times> 'i execst" where
  "executeLoop cb info [] s = (None, s)"
| "executeLoop cb info (RSubDone e # es) s = (Some e, s)"
| "executeLoop cb info (RPick p # es) s =
     (case (case p of PkAdded v \<Rightarrow> addedStep cb info v s | PkRemoved v \<Rightarrow> removedStep cb v s) of
        (Some e, s) \<Rightarrow> (Some e, s)
      | (None, s) \<Rightarrow> executeLoop cb info es s)"

text \<open>
  \<^verbatim>\<open>Execute\<close>: the error returned (\<^term>\<open>None\<close> while it waits for an event; there is no return without an
  error), the config set of the directive it added, and its variables.
\<close>

definition Execute :: "'c config_env \<Rightarrow> (string \<Rightarrow> goerr + jconf option gomap)
    \<Rightarrow> ('i resp list \<Rightarrow> goerr option) option \<Rightarrow> ('k \<Rightarrow> 'i option) \<Rightarrow> exec_request \<Rightarrow> bool \<Rightarrow> goerr option
    \<Rightarrow> 'k req_ev list \<Rightarrow> goerr option \<times> 'c config_set option \<times> 'i execst" where
  "Execute W parseYAML cb info r allowPartial addErr es =
     (case Execute_prepare W parseYAML cb r allowPartial of
        (Inl e, s) \<Rightarrow> (Some e, None, s)
      | (Inr confSet, s) \<Rightarrow> (case addErr of
          Some e \<Rightarrow> (Some e, None, s)
        | None \<Rightarrow> (let (r, s) = executeLoop cb info es s in (r, Some confSet, s))))"

definition ExecControllerProtoFromConfigSet :: "'c config_env \<Rightarrow> 'c cconf gomap option \<Rightarrow> goerr + exec_request" where
  "ExecControllerProtoFromConfigSet W cs = (case NewConfigSetMap W cs False of
     Inl e \<Rightarrow> Inl e
   | Inr pcs \<Rightarrow> Inr \<lparr>er_configSet = Some (map_option (map (\<lambda>(k, v). (k, Some v))) pcs), er_yaml = [], er_overwrite = False\<rparr>)"

section \<open>Order through the two channels\<close>

lemmas pick_intros = pickStep.intros

text \<open>Where the elements of the channels are: taken, in the channel or not yet sent.\<close>

definition addedOf :: "('v \<Rightarrow> 'a option) \<Rightarrow> 'v pick list \<Rightarrow> 'a list" where
  "addedOf conv vs = List.map_filter (conv \<circ> pickValue) (filter isAdded vs)"

definition removedOf :: "('v \<Rightarrow> 'a option) \<Rightarrow> 'v pick list \<Rightarrow> 'a list" where
  "removedOf conv vs = List.map_filter (conv \<circ> pickValue) (filter (\<lambda>v. \<not> isAdded v) vs)"

definition chanList :: "'a option \<Rightarrow> 'a list" where
  "chanList c = (case c of None \<Rightarrow> [] | Some a \<Rightarrow> [a])"

lemma addedOf_simps [simp]:
  "addedOf conv [] = []" "removedOf conv [] = []"
  "addedOf conv (PkAdded v # vs) = chanList (conv v) @ addedOf conv vs"
  "addedOf conv (PkRemoved v # vs) = addedOf conv vs"
  "removedOf conv (PkAdded v # vs) = removedOf conv vs"
  "removedOf conv (PkRemoved v # vs) = chanList (conv v) @ removedOf conv vs"
  "addedOf conv (xs @ ys) = addedOf conv xs @ addedOf conv ys"
  "removedOf conv (xs @ ys) = removedOf conv xs @ removedOf conv ys"
  by (auto simp: addedOf_def removedOf_def chanList_def map_filter_def split: option.splits)

lemma chanList_simps [simp]: "chanList None = []" "chanList (Some a) = [a]"
  by (simp_all add: chanList_def)

lemma addedOf_skip:
  "conv (pickValue v) = None \<Longrightarrow> addedOf conv (v # vs) = addedOf conv vs \<and> removedOf conv (v # vs) = removedOf conv vs"
  by (cases v) auto

definition pipeAdded :: "('v \<Rightarrow> 'a option) \<Rightarrow> ('v, 'a) pipe \<Rightarrow> 'a list" where
  "pipeAdded conv p = addedOf Some (pi_picked p) @ chanList (pi_added p) @ addedOf conv (pi_todo p)"

definition pipeRemoved :: "('v \<Rightarrow> 'a option) \<Rightarrow> ('v, 'a) pipe \<Rightarrow> 'a list" where
  "pipeRemoved conv p = removedOf Some (pi_picked p) @ chanList (pi_removed p) @ removedOf conv (pi_todo p)"

lemma pickStep_order:
  "pickStep conv p q \<Longrightarrow> pipeAdded conv q = pipeAdded conv p \<and> pipeRemoved conv q = pipeRemoved conv p"
  by (induction rule: pickStep.induct) (simp_all add: pipeAdded_def pipeRemoved_def addedOf_skip)

lemma pickSteps_order:
  "(pickStep conv)\<^sup>*\<^sup>* p q \<Longrightarrow> pipeAdded conv q = pipeAdded conv p \<and> pipeRemoved conv q = pipeRemoved conv p"
  by (induction rule: rtranclp_induct) (auto dest: pickStep_order)

lemma seen_order:
  "seen conv vs ps \<Longrightarrow> addedOf Some ps = addedOf conv vs \<and> removedOf Some ps = removedOf conv vs"
  using pickSteps_order[of conv "pipe_init vs"] by (fastforce simp: seen_def pipe_init_def pipeAdded_def pipeRemoved_def)

text \<open>
  The loop may see the callbacks in their order: each sends and the loop takes at once. It may also
  see a removal before the value that was added before it.
\<close>

lemma seen_in_order:
  "seen conv vs (concat (map (\<lambda>v. map (case v of PkAdded _ \<Rightarrow> PkAdded | PkRemoved _ \<Rightarrow> PkRemoved)
     (chanList (conv (pickValue v)))) vs))"
proof -
  let ?f = "\<lambda>v. map (case v of PkAdded _ \<Rightarrow> PkAdded | PkRemoved _ \<Rightarrow> PkRemoved) (chanList (conv (pickValue v)))"
  let ?s = "\<lambda>vs ps. \<lparr>pi_todo = vs, pi_added = None, pi_removed = None, pi_picked = ps\<rparr>"
  have one: "(pickStep conv)\<^sup>*\<^sup>* (?s (v # vs) ps) (?s vs (ps @ ?f v))" for v vs ps
  proof (cases "conv (pickValue v)")
    case None
    then show ?thesis using pickStep.skip[of "?s (v # vs) ps" v vs conv] by auto
  next
    case (Some a)
    show ?thesis
    proof (cases v)
      case (PkAdded w)
      then show ?thesis
        using Some pickStep.sendAdded[of "?s (v # vs) ps" w vs conv a]
          pickStep.takeAdded[of "(?s vs ps)\<lparr>pi_added := Some a\<rparr>" a conv]
        by (auto intro: converse_rtranclp_into_rtranclp)
    next
      case (PkRemoved w)
      then show ?thesis
        using Some pickStep.sendRemoved[of "?s (v # vs) ps" w vs conv a]
          pickStep.takeRemoved[of "(?s vs ps)\<lparr>pi_removed := Some a\<rparr>" a conv]
        by (auto intro: converse_rtranclp_into_rtranclp)
    qed
  qed
  have "(pickStep conv)\<^sup>*\<^sup>* (?s vs ps) (?s [] (ps @ concat (map ?f vs)))" for ps
  proof (induction vs arbitrary: ps)
    case Nil
    then show ?case by simp
  next
    case (Cons v vs)
    have "(pickStep conv)\<^sup>*\<^sup>* (?s (v # vs) ps) (?s [] ((ps @ ?f v) @ concat (map ?f vs)))"
      by (rule rtranclp_trans[OF one Cons])
    then show ?case by simp
  qed
  from this[of "[]"] show ?thesis by (simp add: seen_def pipe_init_def)
qed

lemma seen_overtaken:
  fixes conv :: "'a \<Rightarrow> 'b option"
  assumes "conv v = Some a" and "conv w = Some b"
  shows "seen conv [PkAdded v, PkRemoved w] [PkRemoved b, PkAdded a]"
proof -
  let ?p = "\<lambda>t a r k. \<lparr>pi_todo = t, pi_added = a, pi_removed = r, pi_picked = k\<rparr> :: ('a, 'b) pipe"
  have "pickStep conv (?p [PkAdded v, PkRemoved w] None None []) (?p [PkRemoved w] (Some a) None [])"
    using pickStep.sendAdded[of "?p [PkAdded v, PkRemoved w] None None []"] assms by simp
  moreover have "pickStep conv (?p [PkRemoved w] (Some a) None []) (?p [] (Some a) (Some b) [])"
    using pickStep.sendRemoved[of "?p [PkRemoved w] (Some a) None []"] assms by simp
  moreover have "pickStep conv (?p [] (Some a) (Some b) []) (?p [] (Some a) None [PkRemoved b])"
    using pickStep.takeRemoved[of "?p [] (Some a) (Some b) []"] by simp
  moreover have "pickStep conv (?p [] (Some a) None [PkRemoved b]) (?p [] None None [PkRemoved b, PkAdded a])"
    using pickStep.takeAdded[of "?p [] (Some a) None [PkRemoved b]"] by simp
  ultimately show ?thesis
    unfolding seen_def pipe_init_def by (meson converse_rtranclp_into_rtranclp rtranclp.rtrancl_refl)
qed

section \<open>The statuses of \<^verbatim>\<open>ExecuteController\<close>\<close>

definition statusOk :: "cstatus \<times> cstatus list \<Rightarrow> bool" where
  "statusOk s \<longleftrightarrow> fst s = last (UNKNOWN # snd s) \<and> distinct_adj (UNKNOWN # snd s)"

lemma distinct_adj_snoc: "distinct_adj (xs @ [x]) \<longleftrightarrow> xs = [] \<or> distinct_adj xs \<and> last xs \<noteq> x"
  by (cases "xs = []") (auto simp: distinct_adj_append_iff)

lemma statusOk_cb: "statusOk s \<Longrightarrow> statusOk (statusCb nx s)"
  using distinct_adj_snoc[of "UNKNOWN # snd s" nx] by (cases s) (auto simp: statusOk_def statusCb_def last_ConsR simp del: last.simps)

lemma set_statusCb: "set (snd (statusCb nx s)) \<subseteq> insert nx (set (snd s))"
  by (auto simp: statusCb_def split: prod.splits)

lemma statusCb_ERROR:
  assumes "statusOk s" and "ERROR \<notin> set (snd s)"
  shows "snd (statusCb ERROR s) = snd s @ [ERROR]"
proof -
  have "last (UNKNOWN # snd s) \<noteq> ERROR"
    using assms(2) by (metis cstatus.simps(6) last_ConsL last_ConsR last_in_set)
  then show ?thesis using assms(1) by (cases s) (auto simp: statusOk_def statusCb_def)
qed

lemma execControllerLoop_returns:
  "fst (execControllerLoop es s) = None \<longleftrightarrow> list_all (\<lambda>e. case e of XPick (PkAdded v) \<Rightarrow> ev_err v = None
     | XPick (PkRemoved v) \<Rightarrow> True | _ \<Rightarrow> False) es"
  by (induction es s rule: execControllerLoop.induct) (auto split: option.split)

lemma execControllerLoop_reports:
  assumes "statusOk s" and "ERROR \<notin> set (snd s)" and "execControllerLoop es s = (r, t)"
  shows "statusOk t \<and> ERROR \<notin> set (butlast (snd t))
    \<and> (ERROR \<in> set (snd t) \<longrightarrow> (\<exists>v e. XPick (PkAdded v) \<in> set es \<and> ev_err v = Some e \<and> r = Some (Some e)))"
  using assms
proof (induction es s arbitrary: r t rule: execControllerLoop.induct)
  case (4 v es s)
  show ?case
  proof (cases "ev_err v")
    case None
    let ?s = "statusCb (if ev_ctrl v \<noteq> None then RUNNING else CONFIGURING) s"
    have "ERROR \<notin> set (snd ?s)" using 4(3) set_statusCb[of _ s] by (auto split: if_splits)
    with 4 None show ?thesis by (fastforce intro: statusOk_cb)
  next
    case (Some e)
    with 4 show ?thesis by (auto simp: statusCb_ERROR intro: statusOk_cb)
  qed
next
  case (5 v es s)
  let ?s = "if ev_ctrl v \<noteq> None \<and> fst s = RUNNING then statusCb CONFIGURING s else s"
  have "statusOk ?s" "ERROR \<notin> set (snd ?s)"
    using 5(2,3) set_statusCb[of CONFIGURING s] by (auto intro: statusOk_cb)
  then show ?case using "5.IH"[of r t] "5.prems"(3) by auto
qed (auto dest: in_set_butlastD)

text \<open>
  C13: \<^verbatim>\<open>ExecuteController\<close> reports no status twice in a row and begins with one that is not
  \<^verbatim>\<open>UNKNOWN\<close>. A failing controller is the last thing that it reports: it returns at once with the error
  of the value. It is still waiting exactly when it could add the directive and saw no failure and no end
  of its contexts.
\<close>

theorem ExecuteController_reports:
  assumes "ExecuteController addErr es = (r, log)"
  shows "distinct_adj (UNKNOWN # log) \<and> ERROR \<notin> set (butlast log)
    \<and> (ERROR \<in> set log \<longrightarrow> (\<exists>v e. XPick (PkAdded v) \<in> set es \<and> ev_err v = Some e \<and> r = Some (Some e)))
    \<and> (r = None \<longleftrightarrow> addErr = None \<and> list_all (\<lambda>e. case e of XPick (PkAdded v) \<Rightarrow> ev_err v = None
      | XPick (PkRemoved v) \<Rightarrow> True | _ \<Rightarrow> False) es)"
proof (intro conjI)
  show "r = None \<longleftrightarrow> addErr = None \<and> list_all (\<lambda>e. case e of XPick (PkAdded v) \<Rightarrow> ev_err v = None
      | XPick (PkRemoved v) \<Rightarrow> True | _ \<Rightarrow> False) es"
    using assms execControllerLoop_returns[of es "(UNKNOWN, [])"]
    by (auto simp: ExecuteController_def split: option.splits prod.splits)
  have init: "statusOk (UNKNOWN, [])" by (simp add: statusOk_def)
  obtain t where "t = snd (execControllerLoop es (UNKNOWN, []))" by blast
  then have "(log = [] \<or> addErr = None \<and> log = snd t \<and> execControllerLoop es (UNKNOWN, []) = (r, t))"
    using assms by (auto simp: ExecuteController_def split: option.splits prod.splits)
  with execControllerLoop_reports[OF init, of es r t]
  show "distinct_adj (UNKNOWN # log)" and "ERROR \<notin> set (butlast log)"
    and "ERROR \<in> set log \<longrightarrow> (\<exists>v e. XPick (PkAdded v) \<in> set es \<and> ev_err v = Some e \<and> r = Some (Some e))"
    by (auto simp: statusOk_def)
qed

definition runningValue :: "nat exec_value" where
  "runningValue = \<lparr>ev_retry = False, ev_ctrl = Some 1, ev_err = None\<rparr>"

definition failedValue :: "nat exec_value" where
  "failedValue = \<lparr>ev_retry = True, ev_ctrl = Some 1, ev_err = Some (GoErr ''x'')\<rparr>"

theorem ExecuteController_reports_witness:
  "\<exists>v e. XPick (PkAdded v) \<in> set [XPick (PkAdded runningValue), XPick (PkAdded failedValue)]
     \<and> ev_err v = Some e \<and> Some (Some (GoErr ''x'')) = Some (Some e)"
proof -
  have "ExecuteController None [XPick (PkAdded runningValue), XPick (PkAdded failedValue)]
      = (Some (Some (GoErr ''x'')), [RUNNING, ERROR])"
    by (simp add: ExecuteController_def runningValue_def failedValue_def statusCb_def)
  from ExecuteController_reports[OF this] show ?thesis by simp
qed

text \<open>
  A removal may overtake the value that was added before it: the controller that is gone is reported
  as running, and stays so.
\<close>

theorem ExecuteController_running_after_removal:
  "\<exists>ps. seen execValueOf [PkAdded (Some runningValue), PkRemoved (Some runningValue)] ps
     \<and> ExecuteController None (map XPick ps) = (None, [RUNNING])"
proof -
  have "seen execValueOf [PkAdded (Some runningValue), PkRemoved (Some runningValue)]
      [PkRemoved runningValue, PkAdded runningValue]"
    by (rule seen_overtaken) (simp_all add: execValueOf_def)
  moreover have "ExecuteController None (map XPick [PkRemoved runningValue, PkAdded runningValue]) = (None, [RUNNING])"
    by (simp add: ExecuteController_def runningValue_def statusCb_def)
  ultimately show ?thesis by blast
qed

text \<open>The end of the context gives nil or its error, as the loop's \<^verbatim>\<open>select\<close> happens to pick.\<close>

theorem ExecuteController_cancel_ambiguous:
  "ExecuteController None (XCtxDone # es) = (Some None, [])
   \<and> ExecuteController None (XSubDone Canceled # es) = (Some (Some Canceled), [])"
  by (simp add: ExecuteController_def)

section \<open>The responses of \<^verbatim>\<open>Execute\<close>\<close>

text \<open>
  What a single response may hold: the fields of its status and no others, so nothing is left in it of
  the response before.
\<close>

definition respOk :: "('k \<Rightarrow> 'i option) \<Rightarrow> 'i resp \<Rightarrow> bool" where
  "respOk info r \<longleftrightarrow> (case rp_status r of UNKNOWN \<Rightarrow> False
     | CONFIGURING \<Rightarrow> rp_info r = None \<and> rp_error r = []
     | RUNNING \<Rightarrow> rp_info r \<in> range info \<and> rp_error r = []
     | ERROR \<Rightarrow> rp_info r = None)"

definition statusesOf :: "string \<Rightarrow> 'i resp list \<Rightarrow> cstatus list" where
  "statusesOf ident log = map rp_status (filter (\<lambda>r. rp_id r = ident) log)"

text \<open>The statuses of one identifier, of which \<^verbatim>\<open>CONFIGURING\<close> is not repeated.\<close>

definition noRepeat :: "cstatus list \<Rightarrow> bool" where
  "noRepeat xs \<longleftrightarrow> successively (\<lambda>a b. a \<noteq> CONFIGURING \<or> b \<noteq> CONFIGURING) xs"

definition logOk :: "('k \<Rightarrow> 'i option) \<Rightarrow> 'i execst \<Rightarrow> bool" where
  "logOk info s \<longleftrightarrow> list_all (respOk info) (es_log s)
     \<and> (\<forall>i. noRepeat (statusesOf i (es_log s)) \<and> es_prev s i = last (UNKNOWN # statusesOf i (es_log s)))"

lemma logOk_resp [simp]: "logOk info (s\<lparr>es_resp := r\<rparr>) = logOk info s"
  by (simp add: logOk_def)

lemma statusesOf_snoc:
  "statusesOf i (log @ [r]) = statusesOf i log @ (if rp_id r = i then [rp_status r] else [])"
  by (simp add: statusesOf_def)

lemma noRepeat_status_snoc:
  "noRepeat xs \<Longrightarrow> x \<noteq> CONFIGURING \<or> last (UNKNOWN # xs) \<noteq> CONFIGURING \<Longrightarrow> noRepeat (xs @ [x])"
  by (auto simp: noRepeat_def successively_append_iff)

lemma logOk_init: "logOk info execst_init"
  by (simp add: logOk_def execst_init_def statusesOf_def noRepeat_def)

lemma execst_init_resp: "es_resp execst_init = resp_Reset"
  by (simp add: execst_init_def)

lemma reportResp_ok:
  assumes "logOk info s" and "respOk info (es_resp s)"
    and "rp_status (es_resp s) \<noteq> CONFIGURING \<or> es_prev s (rp_id (es_resp s)) \<noteq> CONFIGURING"
    and "reportResp (Some f) s = (e, t)"
  shows "logOk info t \<and> (e = None \<longrightarrow> es_resp t = resp_Reset)"
proof -
  have t: "es_log t = es_log s @ [es_resp s] \<and> es_prev t = (es_prev s)(rp_id (es_resp s) := rp_status (es_resp s))
      \<and> (e = None \<longrightarrow> es_resp t = resp_Reset)"
    using assms(4) by (auto simp: reportResp_def callCb_def Let_def split: option.splits)
  have "noRepeat (statusesOf i (es_log s) @ (if rp_id (es_resp s) = i then [rp_status (es_resp s)] else []))" for i
    using assms(1,3) noRepeat_status_snoc by (auto simp: logOk_def)
  with assms(1,2) t show ?thesis by (auto simp: logOk_def statusesOf_snoc)
qed

lemma resolveRest_ok:
  "logOk info s \<Longrightarrow> es_resp s = resp_Reset \<Longrightarrow> resolveRest W (Some f) confs confSet errs s = (r, t)
   \<Longrightarrow> logOk info t \<and> (\<not> isl r \<longrightarrow> es_resp t = resp_Reset)"
proof (induction confs arbitrary: confSet errs s)
  case Nil
  then show ?case by auto
next
  case (Cons kv confs)
  obtain csID conf where kv: "kv = (csID, conf)" by fastforce
  show ?case
  proof (cases "csID = [] \<or> map_of confSet csID \<noteq> None")
    case True
    then have "resolveRest W (Some f) (kv # confs) confSet errs s = resolveRest W (Some f) confs confSet errs s"
      using kv by auto
    with Cons show ?thesis by metis
  next
    case skip: False
    show ?thesis
    proof (cases "pconf_Resolve W conf")
      case (Inr cc)
      with Cons kv skip show ?thesis by auto
    next
      case (Inl err)
      let ?s = "s\<lparr>es_resp := (es_resp s)\<lparr>rp_id := csID, rp_status := ERROR, rp_error := errorText err\<rparr>\<rparr>"
      obtain e u where u: "reportResp (Some f) ?s = (e, u)" by fastforce
      have "logOk info ?s" using Cons.prems(1) by (simp add: logOk_def)
      moreover have "respOk info (es_resp ?s)" by (simp add: respOk_def Cons.prems(2) resp_Reset_def)
      ultimately have "logOk info u \<and> (e = None \<longrightarrow> es_resp u = resp_Reset)" by (rule reportResp_ok[OF _ _ _ u]) simp
      moreover have "(case (e, u) of (Some e, s) \<Rightarrow> (Inl e, s)
          | (None, s) \<Rightarrow> resolveRest W (Some f) confs confSet (errs @ [err]) s) = (r, t)"
        using Cons.prems(3) skip Inl by (simp add: kv u)
      ultimately show ?thesis using Cons.IH[of u] by (cases e) auto
    qed
  qed
qed

lemma addedResp_ok: "respOk info (addedResp info v resp_Reset)" "rp_id (addedResp info v r) = cv_id v"
  by (simp_all add: addedResp_def respOk_def resp_Reset_def Let_def split: option.split)

lemma addedStep_ok:
  assumes "logOk info s" and "es_resp s = resp_Reset" and "addedStep (Some f) info v s = (e, t)"
  shows "logOk info t \<and> (e = None \<longrightarrow> es_resp t = resp_Reset)"
proof -
  let ?r = "addedResp info v (es_resp s)"
  have s: "logOk info (s\<lparr>es_resp := q\<rparr>)" for q using assms(1) by (simp add: logOk_def)
  show ?thesis
  proof (cases "es_prev s (cv_id v) \<noteq> rp_status ?r \<or> rp_status ?r \<noteq> CONFIGURING")
    case True
    then have "rp_status ?r \<noteq> CONFIGURING \<or> es_prev s (cv_id v) \<noteq> CONFIGURING" by auto
    moreover have "reportResp (Some f) (s\<lparr>es_resp := ?r\<rparr>) = (e, t)"
      using True assms(3) by (simp add: addedStep_def Let_def)
    ultimately show ?thesis
      using reportResp_ok[OF s[of ?r], of f e t] by (simp add: assms(2) addedResp_ok)
  qed (use assms(3) s in \<open>auto simp: addedStep_def Let_def\<close>)
qed

lemma removedStep_ok:
  assumes "logOk info s" and "es_resp s = resp_Reset" and "removedStep (Some f) v s = (e, t)"
  shows "logOk info t \<and> (e = None \<longrightarrow> es_resp t = resp_Reset)"
proof (cases "es_prev s (cv_id v) = CONFIGURING")
  case True
  then have "t = s\<lparr>es_resp := resp_Reset\<rparr> \<and> e = None"
    using assms(2,3) by (simp add: removedStep_def Let_def resp_Reset_def)
  with assms(1) show ?thesis by (simp add: logOk_def)
next
  case False
  let ?s = "s\<lparr>es_resp := (es_resp s)\<lparr>rp_status := CONFIGURING, rp_id := cv_id v\<rparr>\<rparr>"
  have "logOk info ?s" using assms(1) by (simp add: logOk_def)
  moreover have "respOk info (es_resp ?s)" by (simp add: respOk_def assms(2) resp_Reset_def)
  ultimately show ?thesis
    by (rule reportResp_ok) (use False assms(3) in \<open>simp_all add: removedStep_def Let_def\<close>)
qed

lemma executeLoop_ok:
  "logOk info s \<Longrightarrow> es_resp s = resp_Reset \<Longrightarrow> executeLoop (Some f) info es s = (e, t)
   \<Longrightarrow> logOk info t \<and> (e = None \<longrightarrow> es_resp t = resp_Reset)"
proof (induction es arbitrary: s)
  case Nil
  then show ?case by auto
next
  case (Cons ev es)
  show ?case
  proof (cases ev)
    case (RSubDone e)
    with Cons.prems show ?thesis by auto
  next
    case (RPick p)
    define q where "q = (case p of PkAdded v \<Rightarrow> addedStep (Some f) info v s | PkRemoved v \<Rightarrow> removedStep (Some f) v s)"
    obtain e1 u where u: "q = (e1, u)" by fastforce
    then have "logOk info u \<and> (e1 = None \<longrightarrow> es_resp u = resp_Reset)"
      unfolding q_def
      by (cases p) (simp, erule addedStep_ok[OF Cons.prems(1,2)], simp, erule removedStep_ok[OF Cons.prems(1,2)])
    moreover have "(case q of (Some e, s) \<Rightarrow> (Some e, s) | (None, s) \<Rightarrow> executeLoop (Some f) info es s) = (e, t)"
      using Cons.prems(3) RPick by (simp add: q_def)
    ultimately show ?thesis using Cons.IH[of u] u by (cases e1) auto
  qed
qed

lemma Execute_prepare_ok:
  assumes "Execute_prepare W parseYAML (Some f) r allowPartial = (x, s)"
  shows "logOk info s \<and> (\<not> isl x \<longrightarrow> es_resp s = resp_Reset)"
proof -
  have ok: "resolveRest W (Some f) confs confSet errs execst_init = (q, t) \<Longrightarrow> logOk info t" for confs confSet errs q t
    using resolveRest_ok[OF logOk_init] by (fastforce simp: execst_init_def)
  show ?thesis
    using assms by (auto simp: Execute_prepare_def execst_init_resp logOk_init dest: ok
      split: if_splits sum.splits prod.splits)
qed

text \<open>
  C11: Whatever the request, the bus and the callback do, each response that \<^verbatim>\<open>Execute\<close> passes to its
  callback has a status that is known, holds the information of a controller only with the status
  \<^verbatim>\<open>RUNNING\<close>, and error text only with the status \<^verbatim>\<open>ERROR\<close>, although one response object is used for
  all calls; and no identifier is reported \<^verbatim>\<open>CONFIGURING\<close> twice in a row.
\<close>

theorem Execute_responses:
  "case Execute W parseYAML (Some f) info r allowPartial addErr es of (e, conf, s) \<Rightarrow>
     list_all (respOk info) (es_log s) \<and> (\<forall>i. noRepeat (statusesOf i (es_log s)))"
proof -
  obtain x s where p: "Execute_prepare W parseYAML (Some f) r allowPartial = (x, s)" by fastforce
  obtain e t where l: "executeLoop (Some f) info es s = (e, t)" by fastforce
  note ok = Execute_prepare_ok[OF p]
  moreover have "\<not> isl x \<Longrightarrow> logOk info t" using executeLoop_ok[OF _ _ l] ok by blast
  ultimately show ?thesis
    by (cases x; cases addErr) (auto simp: Execute_def p l logOk_def)
qed

section \<open>What is reported last\<close>

definition statusOfValue :: "'k csvalue \<Rightarrow> cstatus" where
  "statusOfValue v = (if cv_err v \<noteq> None then ERROR else if cv_ctrl v \<noteq> None then RUNNING else CONFIGURING)"

fun statusOfPick :: "'k csvalue pick \<Rightarrow> cstatus" where
  "statusOfPick (PkAdded v) = statusOfValue v"
| "statusOfPick (PkRemoved v) = CONFIGURING"

lemma reportResp_prev:
  "reportResp cb s = (None, t) \<Longrightarrow> es_prev t = (es_prev s)(rp_id (es_resp s) := rp_status (es_resp s))"
  by (auto simp: reportResp_def callCb_def Let_def split: option.splits)

lemma addedResp_status: "rp_status (addedResp info v r) = statusOfValue v"
  by (simp add: addedResp_def statusOfValue_def Let_def split: option.split)

lemma addedStep_prev:
  "addedStep cb info v s = (None, t) \<Longrightarrow> es_prev t = (es_prev s)(cv_id v := statusOfValue v)"
  by (auto simp: addedStep_def Let_def addedResp_status addedResp_ok fun_upd_idem_iff dest!: reportResp_prev split: if_splits)

lemma removedStep_prev:
  "removedStep cb v s = (None, t) \<Longrightarrow> es_prev t = (es_prev s)(cv_id v := CONFIGURING)"
  by (auto simp: removedStep_def Let_def fun_upd_idem_iff dest!: reportResp_prev split: if_splits)

lemma executeLoop_prev:
  "executeLoop cb info es s = (None, t)
   \<Longrightarrow> es_prev t = fold (\<lambda>e prev. case e of RPick p \<Rightarrow> prev(cv_id (pickValue p) := statusOfPick p) | _ \<Rightarrow> prev) es (es_prev s)"
proof (induction es arbitrary: s)
  case Nil
  then show ?case by simp
next
  case (Cons ev es)
  obtain p where p: "ev = RPick p" using Cons.prems by (cases ev) auto
  define q where "q = (case p of PkAdded v \<Rightarrow> addedStep cb info v s | PkRemoved v \<Rightarrow> removedStep cb v s)"
  have "(case q of (Some e, s) \<Rightarrow> (Some e, s) | (None, s) \<Rightarrow> executeLoop cb info es s) = (None, t)"
    using Cons.prems p by (simp add: q_def)
  then obtain u where u: "q = (None, u)" "executeLoop cb info es u = (None, t)" by (auto split: prod.splits option.splits)
  have "es_prev u = (es_prev s)(cv_id (pickValue p) := statusOfPick p)"
    using u(1) unfolding q_def by (cases p) (auto dest: addedStep_prev removedStep_prev)
  with Cons.IH[OF u(2)] show ?case by (simp only: p fold_simps req_ev.case)
qed

lemma fold_prev_other:
  "list_all (\<lambda>p. cv_id (pickValue p) \<noteq> i) ps
   \<Longrightarrow> fold (\<lambda>e prev. case e of RPick p \<Rightarrow> prev(cv_id (pickValue p) := statusOfPick p) | _ \<Rightarrow> prev) (map RPick ps) m i = m i"
  by (induction ps arbitrary: m) auto

text \<open>The values of one identifier among those the loop sees, if there are no removals of it.\<close>

lemma last_pick_added:
  assumes "addedOf Some ps = xs @ v # ys" and "list_all (\<lambda>y. cv_id y \<noteq> cv_id v) ys"
    and "list_all (\<lambda>y. cv_id y \<noteq> cv_id v) (removedOf Some ps)"
  shows "\<exists>qs rs. ps = qs @ PkAdded v # rs \<and> list_all (\<lambda>p. cv_id (pickValue p) \<noteq> cv_id v) rs"
  using assms
proof (induction ps arbitrary: xs)
  case Nil
  then show ?case by simp
next
  case (Cons p ps)
  have rest: ?case if "addedOf Some ps = zs @ v # ys" and "list_all (\<lambda>y. cv_id y \<noteq> cv_id v) (removedOf Some ps)" for zs
  proof -
    note prems = that
    obtain qs rs where "ps = qs @ PkAdded v # rs" "list_all (\<lambda>p. cv_id (pickValue p) \<noteq> cv_id v) rs"
      using Cons.IH[OF prems(1) Cons.prems(2) prems(2)] by blast
    then have "p # ps = (p # qs) @ PkAdded v # rs \<and> list_all (\<lambda>p. cv_id (pickValue p) \<noteq> cv_id v) rs" by simp
    then show ?thesis by blast
  qed
  have others: "list_all (\<lambda>y. cv_id y \<noteq> i) (addedOf Some qs) \<Longrightarrow> list_all (\<lambda>y. cv_id y \<noteq> i) (removedOf Some qs)
      \<Longrightarrow> list_all (\<lambda>p. cv_id (pickValue p) \<noteq> i) qs" for i qs
  proof (induction qs)
    case (Cons q qs)
    then show ?case by (cases q) auto
  qed simp
  show ?case
  proof (cases p)
    case (PkRemoved w)
    then show ?thesis using Cons.prems rest[of xs] by simp
  next
    case (PkAdded w)
    show ?thesis
    proof (cases xs)
      case Nil
      then have "p = PkAdded v" "list_all (\<lambda>p. cv_id (pickValue p) \<noteq> cv_id v) ps"
        using Cons.prems PkAdded others[of "cv_id v" ps] by simp_all
      then show ?thesis by blast
    next
      case (Cons x xs')
      then show ?thesis using \<open>addedOf Some (p # ps) = xs @ v # ys\<close>
        \<open>list_all (\<lambda>y. cv_id y \<noteq> cv_id v) (removedOf Some (p # ps))\<close> PkAdded rest[of xs'] by simp
    qed
  qed
qed

text \<open>
  C12: As long as no value of an identifier is removed, its last response has the status of the value
  that was added last, whatever other identifiers do and in whichever order the loop takes from the
  two channels.
\<close>

theorem Execute_reports_latest:
  assumes "seen applyValueOf vs ps"
    and "Execute W parseYAML (Some f) info r allowPartial None (map RPick ps) = (None, conf, s)"
    and "addedOf applyValueOf vs = xs @ v # ys" and "list_all (\<lambda>y. cv_id y \<noteq> cv_id v) ys"
    and "list_all (\<lambda>y. cv_id y \<noteq> cv_id v) (removedOf applyValueOf vs)"
  shows "statusesOf (cv_id v) (es_log s) \<noteq> [] \<and> last (statusesOf (cv_id v) (es_log s)) = statusOfValue v"
proof -
  obtain x t where p: "Execute_prepare W parseYAML (Some f) r allowPartial = (x, t)" by fastforce
  with assms(2) have l: "executeLoop (Some f) info (map RPick ps) t = (None, s)" and x: "\<not> isl x"
    by (auto simp: Execute_def split: sum.splits prod.splits)
  have ok: "logOk info s"
    using executeLoop_ok[OF _ _ l] Execute_prepare_ok[OF p] x by blast
  obtain qs rs where "ps = qs @ PkAdded v # rs" and "list_all (\<lambda>p. cv_id (pickValue p) \<noteq> cv_id v) rs"
    using last_pick_added[of ps xs v ys] assms(3-5) seen_order[OF assms(1)] by auto
  then have "es_prev s (cv_id v) = statusOfValue v"
    using executeLoop_prev[OF l] by (simp add: fold_prev_other)
  with ok have "last (UNKNOWN # statusesOf (cv_id v) (es_log s)) = statusOfValue v" by (simp add: logOk_def)
  moreover have "statusOfValue v \<noteq> UNKNOWN" by (simp add: statusOfValue_def)
  ultimately show ?thesis by (cases "statusesOf (cv_id v) (es_log s) = []") auto
qed

definition exampleEnv :: "nat config_env" where
  "exampleEnv = \<lparr>ce_id = (\<lambda>_. ''c''), ce_marshalJSON = (\<lambda>_. Inr ''{}''), ce_marshalVT = (\<lambda>_. Inr ''x''),
     ce_unmarshalJSON = (\<lambda>c _. Inr c), ce_unmarshalVT = (\<lambda>c _. Inr c),
     ce_lookupCtor = (\<lambda>i. if i = ''c'' then Inr 7 else Inl (GoErr ''unknown'')), ce_parseBytes = (\<lambda>_. None)\<rparr>"

definition exampleRequest :: exec_request where
  "exampleRequest = \<lparr>er_configSet = Some (Some [(''a'', Some \<lparr>pc_id = ''c'', pc_rev = 1, pc_data = []\<rparr>),
     (''b'', Some \<lparr>pc_id = ''d'', pc_rev = 1, pc_data = []\<rparr>)]), er_yaml = [], er_overwrite = False\<rparr>"

definition exampleUp :: "nat csvalue" where
  "exampleUp = \<lparr>cv_id = ''a'', cv_err = None, cv_ctrl = Some 3\<rparr>"

lemmas exec_example = exampleEnv_def exampleRequest_def exampleUp_def Execute_def Execute_prepare_def
  resolveFirst_def confsListOf_def pconf_Resolve_def reportResp_def callCb_def execst_init_def resp_Reset_def
  addedStep_def addedResp_def removedStep_def statusesOf_def mapSet_def WithMessage_def errorText_def

lemma example_run:
  "Execute exampleEnv (\<lambda>_. Inl (GoErr ''yaml'')) (Some (\<lambda>_. None)) Some exampleRequest True None [RPick (PkAdded exampleUp)]
   = (None, Some [(''a'', Some \<lparr>cc_rev = 1, cc_config = 7\<rparr>)],
      \<lparr>es_resp = resp_Reset, es_prev = (\<lambda>_. UNKNOWN)(''b'' := ERROR, ''a'' := RUNNING),
       es_log = [\<lparr>rp_id = ''b'', rp_status = ERROR, rp_info = None, rp_error = ''resolve config object: unknown''\<rparr>,
         \<lparr>rp_id = ''a'', rp_status = RUNNING, rp_info = Some 3, rp_error = []\<rparr>]\<rparr>)"
  by (simp add: exec_example Let_def)

theorem Execute_reports_latest_witness:
  "\<exists>s. snd (snd (Execute exampleEnv (\<lambda>_. Inl (GoErr ''yaml'')) (Some (\<lambda>_. None)) Some exampleRequest True None
       [RPick (PkAdded exampleUp)])) = s
     \<and> last (statusesOf (cv_id exampleUp) (es_log s)) = statusOfValue exampleUp"
proof -
  have seen: "seen applyValueOf [PkAdded (Some exampleUp)] [PkAdded exampleUp]"
    using seen_in_order[of applyValueOf "[PkAdded (Some exampleUp)]"] by (simp add: applyValueOf_def exampleUp_def)
  have run: "Execute exampleEnv (\<lambda>_. Inl (GoErr ''yaml'')) (Some (\<lambda>_. None)) Some exampleRequest True None
      (map RPick [PkAdded exampleUp]) = (None, fst (snd (Execute exampleEnv (\<lambda>_. Inl (GoErr ''yaml'')) (Some (\<lambda>_. None)) Some
        exampleRequest True None [RPick (PkAdded exampleUp)])), snd (snd (Execute exampleEnv (\<lambda>_. Inl (GoErr ''yaml''))
        (Some (\<lambda>_. None)) Some exampleRequest True None [RPick (PkAdded exampleUp)])))"
    by (simp add: example_run)
  have "addedOf applyValueOf [PkAdded (Some exampleUp)] = [] @ exampleUp # []"
    by (simp add: applyValueOf_def exampleUp_def)
  from Execute_reports_latest[OF seen run this] show ?thesis by simp
qed

text \<open>
  A removal taken first: the response of the value that is gone comes last, and its identifier stays
  \<^verbatim>\<open>RUNNING\<close>.
\<close>

theorem Execute_running_after_removal:
  "\<exists>ps. seen applyValueOf [PkAdded (Some exampleUp), PkRemoved (Some exampleUp)] ps
     \<and> (case Execute exampleEnv (\<lambda>_. Inl (GoErr ''yaml'')) (Some (\<lambda>_. None)) Some exampleRequest True None (map RPick ps) of
         (e, conf, s) \<Rightarrow> statusesOf ''a'' (es_log s) = [CONFIGURING, RUNNING])"
proof (intro exI conjI)
  show "seen applyValueOf [PkAdded (Some exampleUp), PkRemoved (Some exampleUp)] [PkRemoved exampleUp, PkAdded exampleUp]"
    by (rule seen_overtaken) (simp_all add: applyValueOf_def exampleUp_def)
qed (simp add: exec_example Let_def)

section \<open>The config set of a request\<close>

definition resolvedIn :: "'c config_env \<Rightarrow> pconf option gomap \<Rightarrow> string \<Rightarrow> 'c cconf option option" where
  "resolvedIn W confs k = (case map_of confs k of None \<Rightarrow> None
     | Some c \<Rightarrow> (case pconf_Resolve W c of Inl e \<Rightarrow> None | Inr cc \<Rightarrow> Some (Some cc)))"

definition failsIn :: "'c config_env \<Rightarrow> string \<times> pconf option \<Rightarrow> bool" where
  "failsIn W kc \<longleftrightarrow> fst kc \<noteq> [] \<and> isl (pconf_Resolve W (snd kc))"

lemma reportResp_silent:
  "reportResp (Some (\<lambda>_. None)) s
   = (None, s\<lparr>es_prev := (es_prev s)(rp_id (es_resp s) := rp_status (es_resp s)), es_log := es_log s @ [es_resp s],
       es_resp := resp_Reset\<rparr>)"
  by (simp add: reportResp_def callCb_def Let_def)

lemma resolveRest_silent:
  assumes "distinct (map fst confs)" and "list_all (\<lambda>(k, c). map_of confSet k = None) confs"
    and "resolveRest W (Some (\<lambda>_. None)) confs confSet errs s = (q, t)"
  shows "\<exists>cs errs'. q = Inr (cs, errs @ errs') \<and> length errs' = length (filter (failsIn W) confs)
    \<and> map rp_id (es_log t) = map rp_id (es_log s) @ map fst (filter (failsIn W) confs)
    \<and> (\<forall>k. map_of cs k = (if k \<noteq> [] \<and> resolvedIn W confs k \<noteq> None then resolvedIn W confs k else map_of confSet k))"
  using assms
proof (induction confs arbitrary: confSet errs s)
  case Nil
  then show ?case by (auto simp: resolvedIn_def)
next
  case (Cons kc confs)
  obtain k c where kc: "kc = (k, c)" by fastforce
  have k: "k \<notin> set (map fst confs)" "distinct (map fst confs)" using Cons.prems(1) kc by auto
  then have res: "resolvedIn W (kc # confs) j = (if j = k then (case pconf_Resolve W c of Inl e \<Rightarrow> None | Inr cc \<Rightarrow> Some (Some cc))
      else resolvedIn W confs j)" "resolvedIn W confs k = None" for j
    using map_of_eq_None_iff[of confs k] by (auto simp: resolvedIn_def kc)
  have free: "list_all (\<lambda>(k, c). map_of confSet k = None) confs" "map_of confSet k = None" using Cons.prems(2) kc by auto
  show ?case
  proof (cases "k = []")
    case True
    then have "resolveRest W (Some (\<lambda>_. None)) confs confSet errs s = (q, t)" using Cons.prems(3) kc by simp
    from Cons.IH[OF k(2) free(1) this] obtain cs errs' where
      "q = Inr (cs, errs @ errs')" "length errs' = length (filter (failsIn W) confs)"
      "map rp_id (es_log t) = map rp_id (es_log s) @ map fst (filter (failsIn W) confs)"
      "\<forall>j. map_of cs j = (if j \<noteq> [] \<and> resolvedIn W confs j \<noteq> None then resolvedIn W confs j else map_of confSet j)"
      by auto
    moreover have "\<not> failsIn W kc" using True by (simp add: failsIn_def kc)
    ultimately show ?thesis using True by (intro exI[of _ cs] exI[of _ errs']) (auto simp: res)
  next
    case ne: False
    show ?thesis
    proof (cases "pconf_Resolve W c")
      case (Inl err)
      let ?s = "s\<lparr>es_resp := (es_resp s)\<lparr>rp_id := k, rp_status := ERROR, rp_error := errorText err\<rparr>\<rparr>"
      define u where "u = snd (reportResp (Some (\<lambda>_. None)) ?s)"
      have log: "map rp_id (es_log u) = map rp_id (es_log s) @ [k]" by (simp add: u_def reportResp_silent)
      have "resolveRest W (Some (\<lambda>_. None)) confs confSet (errs @ [err]) u = (q, t)"
        using Cons.prems(3) ne Inl free(2) by (simp add: kc reportResp_silent u_def)
      from Cons.IH[OF k(2) free(1) this] obtain cs errs' where
        "q = Inr (cs, errs @ (err # errs'))" "length errs' = length (filter (failsIn W) confs)"
        "map rp_id (es_log t) = map rp_id (es_log s) @ k # map fst (filter (failsIn W) confs)"
        "\<forall>k. map_of cs k = (if k \<noteq> [] \<and> resolvedIn W confs k \<noteq> None then resolvedIn W confs k else map_of confSet k)"
        using log by auto
      moreover have "failsIn W kc" using ne Inl by (simp add: failsIn_def kc)
      ultimately show ?thesis using Inl ne by (intro exI[of _ cs] exI[of _ "err # errs'"]) (auto simp: res kc res[unfolded kc])
    next
      case (Inr cc)
      have ih: "list_all (\<lambda>(j, c). map_of (mapSet k (Some cc) confSet) j = None) confs"
        using free(1) k(1) by (force simp: list_all_iff)
      have "resolveRest W (Some (\<lambda>_. None)) confs (mapSet k (Some cc) confSet) errs s = (q, t)"
        using Cons.prems(3) ne Inr free(2) by (simp add: kc)
      from Cons.IH[OF k(2) ih this] obtain cs errs' where
        "q = Inr (cs, errs @ errs')" "length errs' = length (filter (failsIn W) confs)"
        "map rp_id (es_log t) = map rp_id (es_log s) @ map fst (filter (failsIn W) confs)"
        "\<forall>j. map_of cs j = (if j \<noteq> [] \<and> resolvedIn W confs j \<noteq> None then resolvedIn W confs j
           else map_of (mapSet k (Some cc) confSet) j)"
        by auto
      moreover have "\<not> failsIn W kc" using Inr by (simp add: failsIn_def kc)
      ultimately show ?thesis using Inr ne by (intro exI[of _ cs] exI[of _ errs']) (auto simp: res)
    qed
  qed
qed

lemma resolveRest_all:
  "list_all (\<lambda>(k, c). map_of confSet k \<noteq> None) confs \<Longrightarrow> resolveRest W cb confs confSet errs s = (Inr (confSet, errs), s)"
  by (induction confs) auto

lemma strict_resolved:
  assumes "distinct (map fst confs)" and "ConfigSetMap_Resolve W (Some confs) = Inr (Some m)"
  shows "map_of (map (\<lambda>(k, v). (k, Some v)) m) k = resolvedIn W confs k"
    and "map_of confs k = None \<longleftrightarrow> map_of (map (\<lambda>(k, v). (k, Some v)) m) k = None"
proof -
  have t: "traverseMap (pconf_Resolve W) confs [] = Inr m"
    using assms(2) by (cases "traverseMap (pconf_Resolve W) confs []") (simp_all add: ConfigSetMap_Resolve_def)
  have all: "map_of confs k = Some c \<Longrightarrow> \<exists>w. pconf_Resolve W c = Inr w" for c
    using t by (auto simp: traverseMap_iff dest: map_of_SomeD)
  have m: "map_of m k = (case map_of confs k of None \<Rightarrow> None | Some c \<Rightarrow> Some (case pconf_Resolve W c of Inr w \<Rightarrow> w))"
    using t fold_mapSet[OF assms(1), where g = "\<lambda>c. case pconf_Resolve W c of Inr w \<Rightarrow> w" and acc = "[]" and k = k]
    by (simp add: traverseMap_iff split: option.split)
  have mo: "map_of (map (\<lambda>(k, v). (k, Some v)) m) k = map_option Some (map_of m k)" for m :: "'b gomap"
    by (induction m) auto
  show "map_of (map (\<lambda>(k, v). (k, Some v)) m) k = resolvedIn W confs k"
    using m all by (auto simp: mo resolvedIn_def split: option.split)
  show "map_of confs k = None \<longleftrightarrow> map_of (map (\<lambda>(k, v). (k, Some v)) m) k = None"
    using m by (auto simp: mo split: option.split)
qed

lemma strict_fails:
  "ConfigSetMap_Resolve W (Some confs) = Inl e \<Longrightarrow> \<exists>kc \<in> set confs. isl (pconf_Resolve W (snd kc))"
proof (rule ccontr)
  assume e: "ConfigSetMap_Resolve W (Some confs) = Inl e"
  assume "\<not> (\<exists>kc \<in> set confs. isl (pconf_Resolve W (snd kc)))"
  then have n: "\<forall>kc \<in> set confs. \<not> isl (pconf_Resolve W (snd kc))" by simp
  have "\<exists>w. pconf_Resolve W c = Inr w" if "(k, c) \<in> set confs" for k c
    using bspec[OF n that] by (cases "pconf_Resolve W c") simp_all
  then have "\<forall>(k, c) \<in> set confs. \<exists>w. pconf_Resolve W c = Inr w" by blast
  then have "\<exists>m. traverseMap (pconf_Resolve W) confs [] = Inr m" by (simp add: traverseMap_iff)
  with e show False by (auto simp: ConfigSetMap_Resolve_def)
qed

lemma Execute_prepare_partial:
  assumes "distinct (map fst (confsListOf r))" and "er_yaml r = []"
  shows "case Execute_prepare W parseYAML (Some (\<lambda>_ :: 'i resp list. None)) r True of
      (Inl e, s) \<Rightarrow> er_configSet r = None \<or> confsListOf r \<noteq> [] \<and> list_all (failsIn W) (confsListOf r)
        \<and> map rp_id (es_log s) = map fst (confsListOf r)
    | (Inr cs, s) \<Rightarrow> (\<forall>k. map_of cs k = (if k = [] then None else resolvedIn W (confsListOf r) k))
        \<and> map rp_id (es_log s) = map fst (filter (failsIn W) (confsListOf r))"
proof -
  have init: "es_log (execst_init :: 'i execst) = []" by (simp add: execst_init_def)
  obtain q t where q: "resolveRest W (Some (\<lambda>_ :: 'i resp list. None)) (confsListOf r) [] [] execst_init = (q, t)" by fastforce
  from resolveRest_silent[OF assms(1) _ q] obtain cs errs where
    res: "q = Inr (cs, errs)" "length errs = length (filter (failsIn W) (confsListOf r))"
      "map rp_id (es_log t) = map fst (filter (failsIn W) (confsListOf r))"
      "\<forall>k. map_of cs k = (if k \<noteq> [] then resolvedIn W (confsListOf r) k else None)"
    by (force simp: list_all_iff init)
  have all: "length (filter P xs) = length xs \<longleftrightarrow> list_all P xs" for P and xs :: "(string \<times> pconf option) list"
    by (metis filter_True length_filter_less less_irrefl list_all_iff)
  show ?thesis
  proof (cases "er_configSet r = None \<or> confsListOf r \<noteq> [] \<and> list_all (failsIn W) (confsListOf r)")
    case True
    have "filter (failsIn W) xs = xs" if "list_all (failsIn W) xs" for xs using that by (simp add: list_all_iff)
    with True res all show ?thesis by (auto simp: Execute_prepare_def assms(2) resolveFirst_def q)
  next
    case False
    then have "Execute_prepare W parseYAML (Some (\<lambda>_ :: 'i resp list. None)) r True = (Inr cs, t\<lparr>es_resp := resp_Reset\<rparr>)"
      using res all by (auto simp: Execute_prepare_def assms(2) resolveFirst_def q)
    then show ?thesis using res by simp
  qed
qed

lemma Execute_prepare_strict:
  assumes "distinct (map fst (confsListOf r))" and "er_yaml r = []"
  shows "case Execute_prepare W parseYAML (Some (\<lambda>_ :: 'i resp list. None)) r False of
      (Inl e, s) \<Rightarrow> es_log s = [] \<and> (er_configSet r = None
        \<or> (\<exists>kc \<in> set (confsListOf r). isl (pconf_Resolve W (snd kc))))
    | (Inr cs, s) \<Rightarrow> es_log s = [] \<and> (\<forall>k. map_of cs k = resolvedIn W (confsListOf r) k)"
proof -
  have init: "es_log (execst_init :: 'i execst) = []" by (simp add: execst_init_def)
  show ?thesis
  proof (cases "confsListOf r = []")
    case True
    then show ?thesis
      by (auto simp: Execute_prepare_def assms(2) resolveFirst_def resolvedIn_def init split: if_splits)
  next
    case ne: False
    show ?thesis
    proof (cases "ConfigSetMap_Resolve W (Some (confsListOf r))")
      case (Inl e)
      with strict_fails[OF Inl] ne init show ?thesis
        by (simp add: Execute_prepare_def resolveFirst_def)
    next
      case (Inr m')
      then obtain m where m: "ConfigSetMap_Resolve W (Some (confsListOf r)) = Inr (Some m)"
        by (cases "traverseMap (pconf_Resolve W) (confsListOf r) []") (auto simp: ConfigSetMap_Resolve_def)
      let ?m = "map (\<lambda>(k, v). (k, Some v)) m"
      have "list_all (\<lambda>(k, c). map_of ?m k \<noteq> None) (confsListOf r)"
        using strict_resolved(2)[OF assms(1) m, symmetric]
        by (auto simp: list_all_iff map_of_eq_None_iff simp del: map_of_map intro: rev_image_eqI)
      then have "resolveRest W (Some (\<lambda>_ :: 'i resp list. None)) (confsListOf r) ?m [] execst_init = (Inr (?m, []), execst_init)"
        by (rule resolveRest_all)
      then show ?thesis
        using m ne init strict_resolved(1)[OF assms(1) m]
        by (simp add: Execute_prepare_def assms(2) resolveFirst_def)
    qed
  qed
qed

text \<open>
  The configurations of a request without YAML text. If partial success is allowed, each one with
  an identifier that cannot be resolved is reported, in the order of the map, the others are what is
  applied, and the call fails only for want of any configuration or when every one fails. Otherwise
  all are applied or, if one cannot be resolved, none, and nothing is reported before.
\<close>

theorem Execute_prepare_config_set:
  assumes "distinct (map fst (confsListOf r))" and "er_yaml r = []"
  shows "(case Execute_prepare W parseYAML (Some (\<lambda>_ :: 'i resp list. None)) r True of
      (Inl e, s) \<Rightarrow> er_configSet r = None \<or> confsListOf r \<noteq> [] \<and> list_all (failsIn W) (confsListOf r)
        \<and> map rp_id (es_log s) = map fst (confsListOf r)
    | (Inr cs, s) \<Rightarrow> (\<forall>k. map_of cs k = (if k = [] then None else resolvedIn W (confsListOf r) k))
        \<and> map rp_id (es_log s) = map fst (filter (failsIn W) (confsListOf r)))
    \<and> (case Execute_prepare W parseYAML (Some (\<lambda>_ :: 'i resp list. None)) r False of
      (Inl e, s) \<Rightarrow> es_log s = [] \<and> (er_configSet r = None
        \<or> (\<exists>kc \<in> set (confsListOf r). isl (pconf_Resolve W (snd kc))))
    | (Inr cs, s) \<Rightarrow> es_log s = [] \<and> (\<forall>k. map_of cs k = resolvedIn W (confsListOf r) k))"
  using Execute_prepare_partial[OF assms] Execute_prepare_strict[OF assms] by (rule conjI)

theorem Execute_prepare_config_set_witness:
  "case Execute_prepare exampleEnv (\<lambda>_. Inl (GoErr ''yaml'')) (Some (\<lambda>_ :: nat resp list. None)) exampleRequest True of
     (Inl e, s) \<Rightarrow> False
   | (Inr cs, s) \<Rightarrow> map_of cs ''a'' = Some (Some \<lparr>cc_rev = 1, cc_config = 7\<rparr>) \<and> map_of cs ''b'' = None
       \<and> map rp_id (es_log s) = [''b'']"
proof -
  have d: "distinct (map fst (confsListOf exampleRequest))" "er_yaml exampleRequest = []"
    by (simp_all add: exampleRequest_def confsListOf_def)
  have n: "er_configSet exampleRequest \<noteq> None" "\<not> list_all (failsIn exampleEnv) (confsListOf exampleRequest)"
    by (simp_all add: exec_example failsIn_def)
  have v: "resolvedIn exampleEnv (confsListOf exampleRequest) ''a'' = Some (Some \<lparr>cc_rev = 1, cc_config = 7\<rparr>)"
    "resolvedIn exampleEnv (confsListOf exampleRequest) ''b'' = None"
    "map fst (filter (failsIn exampleEnv) (confsListOf exampleRequest)) = [''b'']"
    by (simp_all add: exec_example failsIn_def resolvedIn_def)
  from Execute_prepare_config_set[OF d, where 'i = nat and W = exampleEnv and parseYAML = "\<lambda>_. Inl (GoErr ''yaml'')", THEN conjunct1]
  show ?thesis using n v by (auto split: sum.splits prod.splits)
qed

text \<open>
  A configuration given as YAML text is not applied if all configurations of the other form fail, although
  partial success is allowed.
\<close>

theorem Execute_yaml_dropped:
  "fst (Execute_prepare exampleEnv (\<lambda>_. Inr [(''y'', Some \<lparr>jc_rev = 1, jc_id = ''c'', jc_config = Some ''{}''\<rparr>)])
     (Some (\<lambda>_ :: nat resp list. None))
     \<lparr>er_configSet = Some (Some [(''a'', None), (''b'', None)]), er_yaml = ''y: ...'', er_overwrite = False\<rparr> True)
   = Inl ErrAllControllersFailed"
  by (simp add: exec_example UnmarshalYAML_set_def jconf_Resolve_def jsonConfig_Resolve_def
    ErrControllerConfigIdEmpty_def)

text \<open>An entry without an identifier keeps a request alive of which every other configuration fails.\<close>

theorem Execute_empty_id_counts:
  "fst (Execute_prepare exampleEnv (\<lambda>_. Inl (GoErr ''yaml'')) (Some (\<lambda>_ :: nat resp list. None))
     \<lparr>er_configSet = Some (Some [([], None), (''b'', None)]), er_yaml = [], er_overwrite = False\<rparr> True) = Inr []"
  by (simp add: exec_example ErrControllerConfigIdEmpty_def)

end
