(* ===== verification/Directives.thy ===== *)
theory Directives
  imports ConfigSet BusOneOff FactoryResolver "HOL-Library.List_Lexorder" "HOL-Library.Char_ord"
begin

text \<open>
  The directives for config sets (\<^verbatim>\<open>controller/configset\<close>), which of the standard controllers answers which
  directive, the controller made of callbacks (\<^verbatim>\<open>controller/callback\<close>), and the one-off directive behind a
  reference counted container (\<^verbatim>\<open>bus/refcount.go\<close>).
\<close>

section \<open>\<^verbatim>\<open>ApplyConfigSet\<close> and \<^verbatim>\<open>LookupConfigSet\<close>\<close>

datatype ('c, 'f) std_directive =
  DirLoad "('c, 'f) load_directive"
| DirApply "'c config_set option"
| DirLookup "string list"
| DirOther nat

text \<open>The result is \<^term>\<open>None\<close> if a nil entry of a config set makes the comparison panic.\<close>

definition applyConfigSet_IsEquivalent ::
    "('c \<Rightarrow> 'c \<Rightarrow> bool) \<Rightarrow> 'c config_set option \<Rightarrow> ('c, 'f) std_directive \<Rightarrow> bool option" where
  "applyConfigSet_IsEquivalent eqc c other = (case other of DirApply c' \<Rightarrow> ConfigSet_Equal eqc c c' | _ \<Rightarrow> Some False)"

fun sameKeys :: "string list \<Rightarrow> string list \<Rightarrow> bool" where
  "sameKeys [] ov = True"
| "sameKeys (v # dv) (o' # ov) = (if o' \<noteq> v then False else sameKeys dv ov)"
| "sameKeys (v # dv) [] = False"

definition lookupConfigSet_IsEquivalent :: "string list \<Rightarrow> ('c, 'f) std_directive \<Rightarrow> bool" where
  "lookupConfigSet_IsEquivalent dv other = (case other of
     DirLookup ov \<Rightarrow> if length dv \<noteq> length ov then False else sameKeys dv ov | _ \<Rightarrow> False)"

text \<open>\<^verbatim>\<open>GetDebugVals\<close>: the key and the revision of each entry, sorted; a nil entry panics.\<close>

definition applyConfigSet_GetDebugVals :: "'c config_set option \<Rightarrow> string list gomap option" where
  "applyConfigSet_GetDebugVals c = (case c of None \<Rightarrow> Some [] | Some [] \<Rightarrow> Some []
     | Some m \<Rightarrow> if list_ex (\<lambda>(k, v). v = None) m then None
         else Some [(''controller-keys'', sort (map (\<lambda>(k, v). k @ ''@'' @ showNat (unat (rev_of v))) m))])"

definition lookupConfigSet_GetDebugVals :: "string list \<Rightarrow> string list gomap" where
  "lookupConfigSet_GetDebugVals ks = [(''controller-keys'', ks)]"

lemma sameKeys_iff: "length dv = length ov \<Longrightarrow> sameKeys dv ov \<longleftrightarrow> dv = ov"
  by (induction dv ov rule: sameKeys.induct) auto

lemma lookupConfigSet_IsEquivalent_iff: "lookupConfigSet_IsEquivalent dv other \<longleftrightarrow> other = DirLookup dv"
  by (auto simp: lookupConfigSet_IsEquivalent_def sameKeys_iff split: std_directive.split)

section \<open>Which controller answers\<close>

text \<open>The resolvers that the standard controllers return.\<close>

datatype ('c, 'f) std_resolver =
  ResLoadConfigCtor string
| ResLoadWithConfig "'c option"
| ResLoadFactory "'c option"
| ResExec "'f factory option" "'c option"
| ResApply "'c config_set option"
| ResLookup "string list"

definition resolver_HandleDirective :: "('c, 'f) std_directive \<Rightarrow> ('c, 'f) std_resolver list" where
  "resolver_HandleDirective d = (case d of
     DirLoad (LoadControllerWithConfig c) \<Rightarrow> [ResLoadWithConfig c]
   | DirLoad (LoadConfigConstructorByID cid) \<Rightarrow> [ResLoadConfigCtor cid]
   | DirLoad (LoadFactoryByConfig c) \<Rightarrow> [ResLoadFactory c]
   | _ \<Rightarrow> [])"

definition loader_HandleDirective :: "('c, 'f) std_directive \<Rightarrow> ('c, 'f) std_resolver list" where
  "loader_HandleDirective d = (case d of DirLoad (ExecController f c) \<Rightarrow> [ResExec f c] | _ \<Rightarrow> [])"

definition configset_HandleDirective :: "('c, 'f) std_directive \<Rightarrow> ('c, 'f) std_resolver list" where
  "configset_HandleDirective d = (case d of DirApply c \<Rightarrow> [ResApply c] | DirLookup ks \<Rightarrow> [ResLookup ks] | _ \<Rightarrow> [])"

lemma standard_controllers_answer:
  "length (resolver_HandleDirective d) + length (loader_HandleDirective d) + length (configset_HandleDirective d)
   = (case d of DirOther n \<Rightarrow> 0 | _ \<Rightarrow> 1)"
  by (simp add: resolver_HandleDirective_def loader_HandleDirective_def configset_HandleDirective_def
    split: std_directive.split load_directive.split)

section \<open>A controller made of callbacks\<close>

text \<open>Its three functions, each of which may be nil; \<open>'s\<close> is the state they act on.\<close>

record ('d, 'r, 's) callback_controller =
  cc_execute :: "('s \<Rightarrow> goerr option \<times> 's) option"
  cc_handleDir :: "('d \<Rightarrow> 's \<Rightarrow> ('r list \<times> goerr option) \<times> 's) option"
  cc_close :: "('s \<Rightarrow> goerr option \<times> 's) option"

definition callback_HandleDirective where
  "callback_HandleDirective c d s = (case cc_handleDir c of Some f \<Rightarrow> f d s | None \<Rightarrow> (([], None), s))"

definition callback_Execute where
  "callback_Execute c s = (case cc_execute c of Some f \<Rightarrow> f s | None \<Rightarrow> (None, s))"

definition callback_Close where
  "callback_Close c s = (case cc_close c of Some f \<Rightarrow> f s | None \<Rightarrow> (None, s))"

section \<open>The one-off directive of a reference counted container\<close>

text \<open>
  \<^verbatim>\<open>NewOneOffRefCountResolver\<close>: the value with the release function, or neither with the error, which may
  be nil; \<open>released\<close> is the dispose callback of the one-off call.
\<close>

datatype 't refcount_result = RcValue u32 't | RcEmpty "goerr option" | RcWait

definition NewOneOffRefCountResolver where
  "NewOneOffRefCountResolver cast idleCb filterCb es =
     map_option (\<lambda>r. case r of OoValue i v \<Rightarrow> RcValue i v | OoNone err \<Rightarrow> RcEmpty err | OoWait \<Rightarrow> RcWait)
       (ExecOneOffWithFilterTyped cast idleCb True filterCb es)"

text \<open>A container whose directive becomes idle without a value has neither a value nor an error.\<close>

lemma refcount_empty_without_error:
  "NewOneOffRefCountResolver Some (Some ReturnWhenIdle) None [OoIdle True []] = Some (RcEmpty None :: nat refcount_result)"
  by (simp add: NewOneOffRefCountResolver_def ExecOneOffWithFilterTyped_def ExecOneOffWithFilter_def oneoff_init_def
    oneoffIdle_def ReturnWhenIdle_def oneoffCheck_def)

end
