(* ===== verification/Dir_Returns.thy ===== *)
theory Dir_Returns
  imports Dir_Runs
begin

text \<open>
  The loops of the directive controller end. When callbacks and handlers return without calling the
  controller, every operation ends, in whatever state it is called, and the only one that can panic is the
  addition of a directive that supersedes others: the queue of callbacks is drained
  in one round, each removal of a resolver makes the list of the instance shorter, and the loops over
  handlers and instances run over lists that are fixed when they begin.
\<close>

section \<open>Code that returns and keeps the resolver lists\<close>

definition sameRes :: "st \<Rightarrow> st \<Rightarrow> bool" where
  "sameRes s t \<longleftrightarrow> (\<forall>i. di_res (heap_inst t i) = di_res (heap_inst s i))"

lemma sameRes_refl [simp]: "sameRes s s"
  by (simp add: sameRes_def)

lemma sameRes_trans: "sameRes s t \<Longrightarrow> sameRes t u \<Longrightarrow> sameRes s u"
  by (simp add: sameRes_def)

text \<open>No other field of the state matters, nor does any other field of an instance.\<close>

lemma sameRes_fields [simp]:
  "sameRes s (t\<lparr>heap_res := a\<rparr>) \<longleftrightarrow> sameRes s t" "sameRes s (t\<lparr>heap_ref := b\<rparr>) \<longleftrightarrow> sameRes s t"
  "sameRes s (t\<lparr>next_ptr := n\<rparr>) \<longleftrightarrow> sameRes s t" "sameRes s (t\<lparr>tasks := ts\<rparr>) \<longleftrightarrow> sameRes s t"
  "sameRes s (t\<lparr>ctx_canceled := p\<rparr>) \<longleftrightarrow> sameRes s t" "sameRes s (t\<lparr>chan_closed := q\<rparr>) \<longleftrightarrow> sameRes s t"
  "sameRes s (t\<lparr>event_log := l\<rparr>) \<longleftrightarrow> sameRes s t" "sameRes s (t\<lparr>c_dir := d\<rparr>) \<longleftrightarrow> sameRes s t"
  by (simp_all add: sameRes_def)

lemma sameRes_upd [simp]:
  "di_res x = di_res (heap_inst t i) \<Longrightarrow> sameRes s (t\<lparr>heap_inst := (heap_inst t)(i := x)\<rparr>) \<longleftrightarrow> sameRes s t"
  by (auto simp: sameRes_def)

definition ret :: "st \<Rightarrow> st option \<Rightarrow> bool" where
  "ret s m \<longleftrightarrow> (\<exists>t. m = Some t \<and> sameRes s t)"

definition retP :: "st \<Rightarrow> ('a \<times> st) option \<Rightarrow> bool" where
  "retP s m \<longleftrightarrow> (\<exists>x t. m = Some (x, t) \<and> sameRes s t)"

lemma ret_Some [simp]: "ret s (Some t) \<longleftrightarrow> sameRes s t"
  by (simp add: ret_def)

lemma retP_Some [simp]: "retP s (Some (x, t)) \<longleftrightarrow> sameRes s t"
  by (simp add: retP_def)

lemma ret_bind: "ret s m \<Longrightarrow> (\<And>t. sameRes s t \<Longrightarrow> ret s (f t)) \<Longrightarrow> ret s (Option.bind m f)"
  by (auto simp: ret_def)

lemma retP_bind: "ret s m \<Longrightarrow> (\<And>t. sameRes s t \<Longrightarrow> retP s (f t)) \<Longrightarrow> retP s (Option.bind m f)"
  by (auto simp: ret_def retP_def)

lemma ret_from: "ret t m \<Longrightarrow> sameRes s t \<Longrightarrow> ret s m"
  by (auto simp: ret_def intro: sameRes_trans)

lemma ret_forEach: "(\<And>x s. ret s (f x s)) \<Longrightarrow> ret s (forEach f xs s)"
proof (induction xs arbitrary: s)
  case Nil
  then show ?case by simp
next
  case (Cons x xs)
  show ?case unfolding forEach.simps by (rule ret_bind) (auto intro: Cons ret_from[OF Cons.IH])
qed

text \<open>The assumption about user code.\<close>

locale quiet_env =
  fixes E :: env and handled :: "nat \<Rightarrow> iid \<Rightarrow> goerr + nat list"
  assumes quiet_run: "env_run E ev s = Some (Returned (), s)"
    and quiet_handle: "env_handle E h i s = Some (handled h i, s)"
begin

lemma callAll_quiet: "\<exists>log. callAll E i cbs s = Some (s\<lparr>event_log := log\<rparr>)"
proof (induction cbs arbitrary: s)
  case Nil
  show ?case by (auto intro: exI[of _ "event_log s"])
next
  case (Cons cb cbs)
  have "\<exists>log. callbackEvent_call E i cb s = Some (s\<lparr>event_log := log\<rparr>)"
    by (cases cb) (auto simp: deliver_def quiet_run intro: exI[of _ "event_log s"])
  then obtain log where log: "callbackEvent_call E i cb s = Some (s\<lparr>event_log := log\<rparr>)" ..
  show ?case using Cons[of "s\<lparr>event_log := log\<rparr>"] by (simp add: log)
qed

lemma drain_quiet:
  assumes "di_refCbs (heap_inst s i) = []"
  shows "ret s (drainCallbacks E i cbs s)"
proof -
  obtain log where log: "callAll E i cbs s = Some (s\<lparr>event_log := log\<rparr>)" using callAll_quiet by blast
  show ?thesis
  proof (cases "cbs = []")
    case False
    then show ?thesis
      by (subst drainCallbacks.simps) (simp add: log assms drainCallbacks.simps sameRes_def)
  qed (simp add: drainCallbacks.simps)
qed

lemma callEvents_ret: "ret s (callCallbackEventsLocked E i cbs s)"
proof -
  define queue where "queue = di_refCbs (heap_inst s i) @ cbs"
  define u where "u = updInst i (\<lambda>x. x\<lparr>di_callingRefCbs := True, di_refCbs := []\<rparr>) s"
  have u: "sameRes s u" "di_refCbs (heap_inst u i) = []" by (simp_all add: u_def sameRes_def)
  have "ret s (drainCallbacks E i queue u)" by (rule ret_from[OF drain_quiet[OF u(2)] u(1)])
  moreover have "sameRes s t \<Longrightarrow> sameRes s (updInst i (di_callingRefCbs_update (\<lambda>_. False)) t)" for t
    by (simp add: sameRes_def)
  ultimately have "ret s (Option.bind (drainCallbacks E i queue u)
      (\<lambda>t. Some (updInst i (di_callingRefCbs_update (\<lambda>_. False)) t)))"
    by (auto intro: ret_bind)
  then show ?thesis
    unfolding callCallbackEventsLocked_def Let_def queue_def[symmetric] u_def[symmetric]
    by simp
qed

lemmas call_ret = callEvents_ret[folded callCallbacksLocked_def] callEvents_ret

lemma maybeCall_ret: "ret s (maybeCallStateChanged E i s)"
  unfolding maybeCallStateChanged_def Let_def
  by (auto intro!: ret_from[OF call_ret(1)] simp: populateDirectiveStateSnapshotLocked_def sameRes_def)

lemma runDeferred_ret: "ret s (runDeferred E i armed s)"
  unfolding runDeferred_def by (auto intro!: ret_bind maybeCall_ret simp: sameRes_def)

lemma runDeferred_from: "sameRes s t \<Longrightarrow> ret s (runDeferred E i armed t)"
  by (rule ret_from[OF runDeferred_ret])

lemma deferCheck_same [simp]: "sameRes s (snd (deferCheckStateChanged i t)) \<longleftrightarrow> sameRes s t"
  by (simp add: deferCheckStateChanged_def)

section \<open>Idle state, contexts and values\<close>

lemma cancel_same [simp]: "sameRes s (cancelCtx c t) \<longleftrightarrow> sameRes s t" "sameRes s (cancelResolverCtx r t) \<longleftrightarrow> sameRes s t"
  "sameRes s (markStateChanged i t) \<longleftrightarrow> sameRes s t" "sameRes s (snd (withCancel c t)) \<longleftrightarrow> sameRes s t"
  by (simp_all add: cancelCtx_def cancelResolverCtx_def markStateChanged_def withCancel_def split: list.split option.split)

lemma call_from: "sameRes s t \<Longrightarrow> ret s (callCallbacksLocked E i cbs t)"
  "sameRes s t \<Longrightarrow> ret s (callCallbackEventsLocked E i cbs t)"
  by (auto intro: ret_from call_ret)

lemma handleIdle_ret: "ret s (handleIdleStateLocked E i s)"
  unfolding handleIdleStateLocked_def Let_def split_beta
  by (auto intro!: ret_bind runDeferred_from call_from)

lemma handleIdle_from: "sameRes s t \<Longrightarrow> ret s (handleIdleStateLocked E i t)"
  by (rule ret_from[OF handleIdle_ret])

lemma setIdle_from: "sameRes s t \<Longrightarrow> ret s (setIdleLocked E r idle t)"
  unfolding setIdleLocked_def Let_def by (auto intro!: handleIdle_from)

lemma setErr_from: "sameRes s t \<Longrightarrow> ret s (setErrLocked E r err t)"
  unfolding setErrLocked_def Let_def split_beta by (auto intro!: runDeferred_from)

lemma updateContext_from: "sameRes s t \<Longrightarrow> ret s (updateContextLocked E r start t)"
  unfolding updateContextLocked_def Let_def split_beta by (auto intro!: ret_bind setIdle_from)

lemma handleFull_from: "sameRes s t \<Longrightarrow> ret s (handleFullLocked E i t)"
  unfolding handleFullLocked_def Let_def
  by (auto intro!: ret_bind handleIdle_from ret_from[OF ret_forEach] updateContext_from simp: handleFullStep_def)

lemma handleNotFull_from: "sameRes s t \<Longrightarrow> ret s (handleNotFullLocked E i t)"
  unfolding handleNotFullLocked_def Let_def
  by (auto intro!: ret_from[OF ret_forEach] updateContext_from simp: handleNotFullStep_def)

lemma checkFull_from: "sameRes s t \<Longrightarrow> ret s (checkFullLocked E i t)"
  unfolding checkFullLocked_def Let_def by (auto intro!: handleFull_from handleNotFull_from)

lemma addValue_ret: "sameRes s t \<Longrightarrow> retP s (addValueLocked E r val t)"
  unfolding addValueLocked_def Let_def split_beta
  by (auto intro!: retP_bind runDeferred_from call_from checkFull_from)

lemma onValuesRemoved_from: "sameRes s t \<Longrightarrow> ret s (onValuesRemovedLocked E i vals t)"
  unfolding onValuesRemovedLocked_def Let_def split_beta
  by (auto intro!: ret_bind runDeferred_from call_from checkFull_from)

lemma removeValue_ret: "sameRes s t \<Longrightarrow> retP s (removeValueLocked E r vid t)"
  unfolding removeValueLocked_def Let_def
  by (auto intro!: retP_bind onValuesRemoved_from split: option.split)

end

section \<open>Operations that end\<close>

definition ends :: "'a option \<Rightarrow> bool" where
  "ends m \<longleftrightarrow> m \<noteq> None"

lemma ends_Some [simp]: "ends (Some x)"
  by (simp add: ends_def)

lemma ends_bind: "ends m \<Longrightarrow> (\<And>x. ends (f x)) \<Longrightarrow> ends (Option.bind m f)"
  by (auto simp: ends_def)

lemma ends_map [simp]: "ends (map_option f m) \<longleftrightarrow> ends m"
  by (simp add: ends_def)

lemma ret_ends: "ret s m \<Longrightarrow> ends m" "retP s p \<Longrightarrow> ends p"
  by (auto simp: ret_def retP_def ends_def)

lemma ends_forEach: "(\<And>x s. ends (f x s)) \<Longrightarrow> ends (forEach f xs s)"
  by (induction xs arbitrary: s) (auto intro: ends_bind)

context quiet_env
begin

lemma deliver_ends: "ends (deliver E ev s)"
  by (simp add: deliver_def quiet_run)

lemmas base_ends = ret_ends(1)[OF setIdle_from[OF sameRes_refl]] ret_ends(1)[OF handleIdle_ret]
  ret_ends(1)[OF updateContext_from[OF sameRes_refl]] ret_ends(1)[OF call_ret(1)] ret_ends(1)[OF runDeferred_ret]
  ret_ends(1)[OF setErr_from[OF sameRes_refl]] ret_ends(2)[OF addValue_ret[OF sameRes_refl]]
  ret_ends(2)[OF removeValue_ret[OF sameRes_refl]] ret_ends(1)[OF onValuesRemoved_from[OF sameRes_refl]] deliver_ends

lemma attach_ends: "ends (attachStartResolverLocked E i rr s)"
  unfolding attachStartResolverLocked_def Let_def by (auto intro!: ends_bind base_ends)

lemma attachAll_ends: "ends (attachAll E rs s)"
  by (induction rs arbitrary: s) (auto intro!: ends_bind attach_ends)

lemma attachSub_ends: "ends (attachStartSubResolverLocked E i r sub cb s)"
  unfolding attachStartSubResolverLocked_def Let_def split_beta by (auto intro!: ends_bind attach_ends)

lemma removeResolver_ret:
  "ret (updInst i (\<lambda>x. x\<lparr>di_res := removeAt k (di_res x)\<rparr>) s) (removeResolverLocked E i (Some k) r s)"
  unfolding removeResolverLocked_def Let_def
  by (auto intro!: ret_bind updateContext_from onValuesRemoved_from call_from handleIdle_from)

lemma removeResolver_shorter:
  assumes "k < length (di_res (heap_inst s i))"
  shows "\<exists>t. removeResolverLocked E i (Some k) r s = Some t
    \<and> length (di_res (heap_inst t i)) < length (di_res (heap_inst s i))"
  using removeResolver_ret[of s i k r] assms by (auto simp: ret_def sameRes_def)

lemma removeResolver_ends: "ends (removeResolverLocked E i k r s)"
proof (cases k)
  case (Some j)
  then show ?thesis using ret_ends(1)[OF removeResolver_ret] by simp
next
  case None
  then show ?thesis
    using ret_ends(1)[OF removeResolver_ret[of s i _ r]]
    by (cases "indexOf (\<lambda>x. x = r) (di_res (heap_inst s i))") (simp_all add: removeResolverLocked_def)
qed

lemma removeAll_ends: "ends (removeAllResolvers E i s)"
proof (induction "length (di_res (heap_inst s i))" arbitrary: s rule: less_induct)
  case less
  show ?case
  proof (cases "di_res (heap_inst s i) = []")
    case True
    then show ?thesis by (simp add: removeAllResolvers.simps)
  next
    case False
    then obtain t where t: "removeResolverLocked E i (Some (length (di_res (heap_inst s i)) - 1))
        (last (di_res (heap_inst s i))) s = Some t"
      "length (di_res (heap_inst t i)) < length (di_res (heap_inst s i))"
      using removeResolver_shorter[of "length (di_res (heap_inst s i)) - 1" s i "last (di_res (heap_inst s i))"] by auto
    with False less show ?thesis by (subst removeAllResolvers.simps) simp
  qed
qed

lemma removeLocked_ends: "ends (removeLocked E i k s)"
  unfolding removeLocked_def Let_def
  by (auto intro!: ends_bind removeAll_ends base_ends split: option.split)

lemma removeHandlerFrom_ends: "ends (removeHandlerFrom E i h idx s)"
proof (induction "length (di_res (heap_inst s i)) - idx" arbitrary: idx s rule: less_induct)
  case less
  show ?case
  proof (cases "idx < length (di_res (heap_inst s i))")
    case False
    then show ?thesis by (simp add: removeHandlerFrom.simps)
  next
    case True
    then obtain t where t: "removeResolverLocked E i (Some idx) (di_res (heap_inst s i) ! idx) s = Some t"
      "length (di_res (heap_inst t i)) < length (di_res (heap_inst s i))"
      using removeResolver_shorter by blast
    have "ends (removeHandlerFrom E i h idx t)" "ends (removeHandlerFrom E i h (Suc idx) s)"
      using True t(2) by (auto intro!: less)
    with True t(1) show ?thesis by (subst removeHandlerFrom.simps) (simp add: Let_def)
  qed
qed

lemma addReference_ends: "ends (addReferenceLocked E i cb w s)"
  unfolding addReferenceLocked_def Let_def by (auto intro!: ends_bind base_ends)

lemma handleUnreferenced_ends: "ends (handleUnreferencedLocked E i s)"
  unfolding handleUnreferencedLocked_def Let_def by (auto intro!: removeLocked_ends)

lemma callHandlers_ends: "ends (callHandlers E i hs s)"
  by (induction hs arbitrary: s) (auto simp: callHandlerUnlocked_def quiet_handle split_beta intro!: ends_bind)

lemma callHandlerOnAll_ends: "ends (callHandlerOnAll E h dis s)"
  by (induction dis arbitrary: s) (auto simp: callHandlerUnlocked_def quiet_handle split_beta intro!: ends_bind)

lemma scan_ends: "ends (addDirectiveScan E dir h n k arr s)"
proof (induction n arbitrary: k arr s)
  case (Suc n)
  then show ?case
    unfolding addDirectiveScan.simps Let_def by (auto intro!: ends_bind removeLocked_ends addReference_ends)
qed simp

lemma AddDirective_ends: "ends (AddDirective E dir h s)"
  unfolding AddDirective_def addNewDirective_def newDirectiveInstance_def Let_def split_beta
  by (auto intro!: ends_bind scan_ends addReference_ends callHandlers_ends attachAll_ends base_ends
    split: scan_result.split prod.split)

lemma AddHandler_ends: "ends (AddHandler E h s)"
  unfolding AddHandler_def addHandlerLocked_def Let_def split_beta
  by (auto intro!: ends_bind callHandlerOnAll_ends attachAll_ends)

lemma relHandler_ends: "ends (relHandler E h s)"
  unfolding relHandler_def removeHandlerLocked_def instRemoveHandlerLocked_def Let_def split_beta
  by (auto intro!: ends_bind ends_forEach removeHandlerFrom_ends split: option.split)

lemma Release_ends: "ends (Release E r s)"
  unfolding Release_def removeReferenceLocked_def Let_def by (auto intro!: handleUnreferenced_ends)

lemmas op_ends = AddDirective_ends AddHandler_ends relHandler_ends Release_ends addReference_ends
  removeLocked_ends removeResolver_ends attachSub_ends base_ends

lemma ends_wrap [simp]: "ends (ran m) \<longleftrightarrow> ends m" "ends (ended p) \<longleftrightarrow> ends p"
  by (simp_all add: ran_def ended_def)

lemma callDirectly_ends: "ends (callDirectly E f s)"
  unfolding callDirectly_def by (auto intro!: ends_bind deliver_ends)

lemma exec_op_ends: "ends (exec_op E op s)"
  by (cases op) (auto intro!: op_ends callDirectly_ends ends_bind split: option.split prod.split
    simp: onInst_def AddReference_def Close_def CloseIfUnreferenced_def destroyTimerFired_def AddDisposeCallback_def
      AddIdleCallback_def AddStateCallback_def AddValue_def RemoveValue_def MarkIdle_def ClearValues_def
      AddValueRemovedCallback_def AddResolverRemovedCallback_def AddResolver_def releaseSubResolver_def
      executeResolver_return_def Let_def split_beta)

lemma exec_ops_end: "ends (exec_ops P E ops s)"
  by (induction ops arbitrary: s) (auto intro!: ends_bind exec_op_ends)

text \<open>Only superseding panics: a callback that is called directly returns.\<close>

lemma callDirectly_returns: "callDirectly E f s = Some (out, t) \<Longrightarrow> out \<noteq> Panicked"
  by (auto simp: callDirectly_def deliver_def quiet_run)

lemma scan_panics: "addDirectiveScan E dir h n k arr s = Some (ScanPanic, t) \<Longrightarrow> dir_hasSuperceeds dir"
  by (induction n arbitrary: k arr s) (auto simp: Let_def bind_Some_iff split: if_split_asm)

lemma AddDirective_panics:
  assumes "AddDirective E dir h s = Some (Panicked, t)"
  shows "dir_hasEquiv dir \<and> dir_hasSuperceeds dir"
proof -
  obtain sr u where u: "(if dir_hasEquiv dir then addDirectiveScan E dir h (length (c_dir s)) 0 (c_dir s) s
      else Some (ScanNone, s)) = Some (sr, u)"
    using assms unfolding AddDirective_def bind_eq_Some_conv by auto
  then have "sr = ScanPanic" using assms by (cases sr) (auto simp: AddDirective_def bind_Some_iff)
  with u show ?thesis by (auto split: if_split_asm dest: scan_panics)
qed

lemma ended_panics: "ended m = Some (Panicked, t) \<longleftrightarrow> m = Some (Panicked, t)"
proof (cases m)
  case (Some p)
  then show ?thesis by (cases p; cases "fst p") (auto simp: ended_def)
qed (simp add: ended_def)

lemma exec_op_panics:
  assumes "exec_op E op s = Some (Panicked, t)"
  shows "\<exists>dir h. op = OpAddDirective dir h \<and> dir_hasEquiv dir \<and> dir_hasSuperceeds dir"
  using assms
proof (cases op)
  case (OpAddDirective dir h)
  with assms show ?thesis by (auto simp: ended_panics dest: AddDirective_panics)
qed (auto simp: ended_panics ran_def AddDisposeCallback_def AddValueRemovedCallback_def AddResolverRemovedCallback_def
    AddResolver_def Let_def bind_Some_iff split: if_split_asm option.splits prod.splits dest: callDirectly_returns)

lemma exec_ops_panics:
  "exec_ops P E ops s = Some (Panicked, t)
    \<Longrightarrow> \<exists>dir h. OpAddDirective dir h \<in> set ops \<and> dir_hasEquiv dir \<and> dir_hasSuperceeds dir"
proof (induction ops arbitrary: s)
  case (Cons op ops)
  then show ?case
    by (fastforce simp: bind_Some_iff split: if_split_asm dest: exec_op_panics)
qed simp

end

section \<open>Every operation returns\<close>

text \<open>A client whose callbacks and handlers do not call the controller, and whose handlers give any resolvers.\<close>

definition quietProgram :: "(nat \<Rightarrow> iid \<Rightarrow> goerr + nat list) \<Rightarrow> (directive \<Rightarrow> directive \<Rightarrow> bool)
    \<Rightarrow> (directive \<Rightarrow> directive \<Rightarrow> bool) \<Rightarrow> program" where
  "quietProgram rs eqv sups = \<lparr>prog_event = (\<lambda>ev s. []), prog_handle = (\<lambda>h i s. []), prog_resolvers = rs,
     prog_isEquivalent = eqv, prog_superceeds = sups, prog_allows = (\<lambda>_ _. True),
     prog_recovers = (\<lambda>_. False)\<rparr>"

interpretation quiet: quiet_env "run_env (quietProgram rs eqv sups) n" rs for rs eqv sups n
  by unfold_locales (cases n; simp add: quietProgram_def handled_def)+

text \<open>
  C4: The controller's own loops end: if no callback and no handler calls back, every sequence of
  operations comes to its end, from any state, whatever the relations between the directives are. In
  particular closing an instance, removing a handler and superseding a directive end, although their loops
  read the lists that they change. It ends in a panic only if one of the operations adds a directive that
  can supersede others, and is returned from otherwise.
\<close>

theorem every_operation_ends:
  "\<exists>out t. exec_ops (quietProgram rs eqv sups) (run_env (quietProgram rs eqv sups) n) ops s = Some (out, t)
     \<and> (out = Returned () \<or> (\<exists>dir h. OpAddDirective dir h \<in> set ops \<and> dir_hasEquiv dir \<and> dir_hasSuperceeds dir))"
proof -
  let ?P = "quietProgram rs eqv sups"
  obtain out t where t: "exec_ops ?P (run_env ?P n) ops s = Some (out, t)"
    using quiet.exec_ops_end[of ?P rs eqv sups n ops s] by (auto simp: ends_def)
  then show ?thesis using quiet.exec_ops_panics[of ?P rs eqv sups n ops s t] by (cases out) auto
qed

section \<open>Superseding several directives\<close>

text \<open>
  The loop of \<^verbatim>\<open>AddDirective\<close> ends, but it indexes the list that superseding a directive shortens.
  When two directives are to be superseded, the second is looked for behind the end of the list, and the
  call panics: the second is then marked as released, and still in the list.
\<close>

theorem superseding_two_panics:
  assumes "c_dir s = [a, b]" and "removeLocked E a (Some 0) s = Some t" and "c_dir t = [b]"
    and "dir_hasEquiv dir" and "dir_hasSuperceeds dir"
    and "\<not> di_released (heap_inst s a)" and "env_isEquivalent E dir (di_dir (heap_inst s a))"
    and "env_superceeds E dir (di_dir (heap_inst s a))"
    and "\<not> di_released (heap_inst t b)" and "env_isEquivalent E dir (di_dir (heap_inst t b))"
    and "env_superceeds E dir (di_dir (heap_inst t b))"
  shows "\<exists>u. AddDirective E dir h s = Some (Panicked, u) \<and> di_released (heap_inst u b) \<and> c_dir u = [b]"
  using assms by (simp add: AddDirective_def markRemoved_def cancelCtx_def split: list.split)

text \<open>
  The directive after a superseded one is not looked at: the middle one of three is not asked whether it
  is equivalent, so that the new directive is added beside it instead of becoming a reference of it.
\<close>

theorem after_superseded_missed:
  assumes "c_dir s = [a, b, c]" and "removeLocked E a (Some 0) s = Some t" and "c_dir t = [b, c]"
    and "dir_hasSuperceeds dir" and "\<not> di_released (heap_inst s a)"
    and "env_isEquivalent E dir (di_dir (heap_inst s a))" and "env_superceeds E dir (di_dir (heap_inst s a))"
    and "\<not> env_isEquivalent E dir (di_dir (heap_inst t c))"
  shows "addDirectiveScan E dir h (length (c_dir s)) 0 (c_dir s) s = Some (ScanNone, t)"
  using assms by simp

end
