(* ===== verification/PluginLoader.thy ===== *)
theory PluginLoader
  imports InmemBus ConfigSet
begin

text \<open>
  Loading plugins from shared libraries (\<^verbatim>\<open>plugin/loader/shared-library\<close>) and keeping those of a
  directory loaded (its package \<^verbatim>\<open>filesystem\<close>). The file system and the dynamic linker answer through
  parameters; each operation of the watcher holds its mutex, and the goroutine of each loaded plugin runs
  between the operations.
\<close>

section \<open>\<^verbatim>\<open>PluginStat\<close>\<close>

record pstat =
  ps_size :: u64
  ps_mtime :: int

text \<open>Both arguments are pointers, \<^term>\<open>None\<close> the nil pointer.\<close>

definition pstat_Equal :: "pstat option \<Rightarrow> pstat option \<Rightarrow> bool" where
  "pstat_Equal s other = (case (s, other) of
     (None, None) \<Rightarrow> True
   | (Some a, Some b) \<Rightarrow> ps_mtime a = ps_mtime b \<and> ps_size a = ps_size b
   | _ \<Rightarrow> False)"

section \<open>\<^verbatim>\<open>LoadPluginSharedLibrary\<close>\<close>

text \<open>
  The global variable of a library: a pointer to a \<^verbatim>\<open>Plugin\<close>, which may be nil, a pointer to something
  else, which may implement \<^verbatim>\<open>Plugin\<close>, or no pointer.
\<close>

datatype plugin_symbol = SymPlugin bool | SymPointer bool | SymValue

text \<open>What the steps of loading a file answer, and the text of the variable as \<^verbatim>\<open>%#v\<close> formats it.\<close>

record lib_file =
  lf_stat :: "goerr + pstat"
  lf_open :: "goerr option"
  lf_lookup :: "goerr + plugin_symbol"
  lf_shown :: string
  lf_resolver :: "goerr option"

definition errInvalidPluginType :: "string \<Rightarrow> goerr" where
  "errInvalidPluginType shown = GoErr (''could not load plugin, invalid type: '' @ shown)"

definition LoadPluginSharedLibrary :: "lib_file \<Rightarrow> goerr + pstat" where
  "LoadPluginSharedLibrary lib = (case lf_stat lib of Inl e \<Rightarrow> Inl e
     | Inr st \<Rightarrow> (case lf_open lib of Some e \<Rightarrow> Inl e
     | None \<Rightarrow> (case lf_lookup lib of Inl e \<Rightarrow> Inl e
     | Inr gsym \<Rightarrow> (case (case gsym of
           SymPlugin isnil \<Rightarrow> if isnil then Some (GoErr ''could not load hot plugin, nil plugin global'') else None
         | SymPointer implements \<Rightarrow> if implements then None else Some (errInvalidPluginType (lf_shown lib))
         | SymValue \<Rightarrow> Some (errInvalidPluginType (lf_shown lib))) of
       Some e \<Rightarrow> Inl e
     | None \<Rightarrow> (case lf_resolver lib of Some e \<Rightarrow> Inl e | None \<Rightarrow> Inr st)))))"

text \<open>
  A loaded plugin: the calls of \<^verbatim>\<open>Close\<close>, whether \<^verbatim>\<open>closeOnce\<close> has run, and where its goroutine is: not
  begun, waiting for the end of its context, or through. The number of a plugin is that of the resolver
  controller the goroutine executes.
\<close>

datatype unload_call = UnCancel | UnResolver | UnPlugin

datatype lp_pc = LpStart | LpWait | LpGone

record lplug =
  lp_stat :: pstat
  lp_closed :: bool
  lp_calls :: "unload_call list"
  lp_pc :: lp_pc

definition LoadedPlugin_Close :: "lplug \<Rightarrow> lplug" where
  "LoadedPlugin_Close p = (if lp_closed p then p
     else p\<lparr>lp_closed := True, lp_calls := lp_calls p @ [UnCancel, UnResolver, UnPlugin]\<rparr>)"

section \<open>The watcher\<close>

text \<open>\<^verbatim>\<open>Watcher\<close>, all plugins that it ever loaded, and the bus.\<close>

record watcher =
  wa_loaded :: "nat gomap"
  wa_plugs :: "lplug list"
  wa_bus :: "nat bus"

definition NewWatcher :: "nat bus \<Rightarrow> watcher" where
  "NewWatcher b = \<lparr>wa_loaded = [], wa_plugs = [], wa_bus = b\<rparr>"

definition closePlug :: "nat \<Rightarrow> watcher \<Rightarrow> watcher" where
  "closePlug n w = w\<lparr>wa_plugs := (wa_plugs w)[n := LoadedPlugin_Close (wa_plugs w ! n)]\<rparr>"

definition deleteKey :: "string \<Rightarrow> 'a gomap \<Rightarrow> 'a gomap" where
  "deleteKey k m = AList.delete k m"

definition UnloadPlugin :: "string \<Rightarrow> watcher \<Rightarrow> watcher" where
  "UnloadPlugin ident w = (case map_of (wa_loaded w) ident of None \<Rightarrow> w
     | Some n \<Rightarrow> closePlug n (w\<lparr>wa_loaded := deleteKey ident (wa_loaded w)\<rparr>))"

definition loadPluginLocked :: "(string \<Rightarrow> lib_file) \<Rightarrow> string \<Rightarrow> watcher \<Rightarrow> goerr option \<times> watcher" where
  "loadPluginLocked libs plugPath w =
     (if map_of (wa_loaded w) plugPath \<noteq> None then (None, w)
      else case LoadPluginSharedLibrary (libs plugPath) of
        Inl e \<Rightarrow> (Some e, w)
      | Inr st \<Rightarrow> (None, w\<lparr>wa_loaded := mapSet plugPath (length (wa_plugs w)) (wa_loaded w),
          wa_plugs := wa_plugs w @ [\<lparr>lp_stat = st, lp_closed = False, lp_calls = [], lp_pc = LpStart\<rparr>]\<rparr>))"

text \<open>An entry of a directory, with what \<^verbatim>\<open>NewPluginStat\<close> answers for it.\<close>

record dir_entry =
  de_name :: string
  de_isDir :: bool
  de_regular :: bool
  de_stat :: "goerr + pstat"

definition PluginSuffix :: string where
  "PluginSuffix = ''.cbus.so''"

definition hasSuffix :: "string \<Rightarrow> string \<Rightarrow> bool" where
  "hasSuffix s suffix \<longleftrightarrow> length suffix \<le> length s \<and> drop (length s - length suffix) s = suffix"

text \<open>\<^verbatim>\<open>path.Join\<close> of a directory that \<^verbatim>\<open>path.Clean\<close> returned and the name of an entry.\<close>

definition joinPath :: "string \<Rightarrow> string \<Rightarrow> string" where
  "joinPath dir name = (if dir = ''.'' then name else if dir = ''/'' then dir @ name else dir @ ''/'' @ name)"

definition scanEntry :: "string \<Rightarrow> dir_entry \<Rightarrow> pstat gomap \<Rightarrow> pstat gomap" where
  "scanEntry scanDir df found =
     (if de_isDir df \<or> \<not> de_regular df then found
      else if \<not> hasSuffix (de_name df) PluginSuffix then found
      else case de_stat df of Inl e \<Rightarrow> found
        | Inr st \<Rightarrow> mapSet (joinPath scanDir (de_name df)) st found)"

definition unloadStale :: "pstat gomap \<Rightarrow> string \<times> nat \<Rightarrow> watcher \<Rightarrow> watcher" where
  "unloadStale found idn w = (case idn of (loadedID, n) \<Rightarrow>
     (case map_of found loadedID of
        None \<Rightarrow> (closePlug n w)\<lparr>wa_loaded := deleteKey loadedID (wa_loaded w)\<rparr>
      | Some st \<Rightarrow> if pstat_Equal (Some st) (Some (lp_stat (wa_plugs w ! n))) then w
          else (closePlug n w)\<lparr>wa_loaded := deleteKey loadedID (wa_loaded w)\<rparr>))"

text \<open>The errors of the second loop are logged.\<close>

definition SyncPlugins :: "string \<Rightarrow> goerr + dir_entry list \<Rightarrow> (string \<Rightarrow> lib_file) \<Rightarrow> watcher \<Rightarrow> goerr option \<times> watcher" where
  "SyncPlugins scanDir entries libs w = (case entries of Inl e \<Rightarrow> (Some e, w)
     | Inr es \<Rightarrow>
         let found = fold (scanEntry scanDir) es [];
             w = fold (unloadStale found) (wa_loaded w) w;
             w = fold (\<lambda>(plugFile, _) w. if map_of (wa_loaded w) plugFile = None
                   then snd (loadPluginLocked libs plugFile w) else w) found w
         in (None, w))"

definition UnloadAll :: "watcher \<Rightarrow> watcher" where
  "UnloadAll w = fold (\<lambda>(ident, n) w. (closePlug n w)\<lparr>wa_loaded := deleteKey ident (wa_loaded w)\<rparr>) (wa_loaded w) w"

text \<open>
  \<^verbatim>\<open>Execute\<close>: the first synchronization, whether it watches, the error of setting up the file system
  watcher, and for each round the error of waiting or the synchronization; the error returned is
  \<^term>\<open>None\<close> while it waits. A context that ends without watching returns nil.
\<close>

type_synonym sync_input = "(goerr + dir_entry list) \<times> (string \<Rightarrow> lib_file)"

fun watchLoop :: "string \<Rightarrow> (goerr + sync_input) list \<Rightarrow> watcher \<Rightarrow> goerr option \<times> watcher" where
  "watchLoop dir [] w = (None, w)"
| "watchLoop dir (Inl e # rounds) w = (Some e, w)"
| "watchLoop dir (Inr (entries, libs) # rounds) w = (case SyncPlugins dir entries libs w of
     (Some e, w) \<Rightarrow> (Some e, w)
   | (None, w) \<Rightarrow> watchLoop dir rounds w)"

definition Watcher_Execute :: "string \<Rightarrow> sync_input \<Rightarrow> bool \<Rightarrow> bool \<Rightarrow> goerr option \<Rightarrow> (goerr + sync_input) list \<Rightarrow> watcher
    \<Rightarrow> goerr option option \<times> watcher" where
  "Watcher_Execute dir first watch ctxDone setupErr rounds w =
     (case SyncPlugins dir (fst first) (snd first) w of
        (Some e, w) \<Rightarrow> (Some (Some e), UnloadAll w)
      | (None, w) \<Rightarrow>
          if \<not> watch then (if ctxDone then (Some None, UnloadAll w) else (None, w))
          else case setupErr of Some e \<Rightarrow> (Some (Some e), UnloadAll w)
          | None \<Rightarrow> (case watchLoop dir rounds w of
              (Some e, w) \<Rightarrow> (Some (Some e), UnloadAll w)
            | (None, w) \<Rightarrow> (None, w)))"

text \<open>
  A step of the goroutine of a plugin: it executes the resolver controller, whose \<^verbatim>\<open>Execute\<close> returns nil
  at once, and removes it when its context has ended, here with \<open>parentDone\<close> that of the caller.
\<close>

definition plugGo :: "goerr option \<Rightarrow> bool \<Rightarrow> nat \<Rightarrow> watcher \<Rightarrow> watcher" where
  "plugGo addErr parentDone n w =
     (if n < length (wa_plugs w) then
        (case lp_pc (wa_plugs w ! n) of
           LpStart \<Rightarrow> (case InmemBus.ExecuteController id addErr n (Returned None) (wa_bus w) of
              (Some e, b) \<Rightarrow> w\<lparr>wa_bus := b, wa_plugs := (wa_plugs w)[n := (wa_plugs w ! n)\<lparr>lp_pc := LpGone\<rparr>]\<rparr>
            | (None, b) \<Rightarrow> w\<lparr>wa_bus := b, wa_plugs := (wa_plugs w)[n := (wa_plugs w ! n)\<lparr>lp_pc := LpWait\<rparr>]\<rparr>)
         | LpWait \<Rightarrow> if lp_closed (wa_plugs w ! n) \<or> parentDone
             then w\<lparr>wa_bus := RemoveController n (wa_bus w),
               wa_plugs := (wa_plugs w)[n := (wa_plugs w ! n)\<lparr>lp_pc := LpGone\<rparr>]\<rparr>
             else w
         | LpGone \<Rightarrow> w)
      else w)"

text \<open>Everything that may happen with a watcher.\<close>

datatype watch_op = WLoad "string \<Rightarrow> lib_file" string | WUnload string
  | WSync string "goerr + dir_entry list" "string \<Rightarrow> lib_file" | WUnloadAll | WGo "goerr option" bool nat

fun watchStep :: "watch_op \<Rightarrow> watcher \<Rightarrow> watcher" where
  "watchStep (WLoad libs p) w = snd (loadPluginLocked libs p w)"
| "watchStep (WUnload p) w = UnloadPlugin p w"
| "watchStep (WSync dir entries libs) w = snd (SyncPlugins dir entries libs w)"
| "watchStep WUnloadAll w = UnloadAll w"
| "watchStep (WGo addErr parentDone n) w = plugGo addErr parentDone n w"

section \<open>What the watcher keeps\<close>

definition plugOk :: "lplug \<Rightarrow> bool" where
  "plugOk p \<longleftrightarrow> lp_calls p = (if lp_closed p then [UnCancel, UnResolver, UnPlugin] else [])"

text \<open>
  The plugins that are loaded are those that were not closed, each under one path, and the bus has the
  controllers of the goroutines that wait.
\<close>

definition openPlugs :: "watcher \<Rightarrow> nat set" where
  "openPlugs w = {n. n < length (wa_plugs w) \<and> \<not> lp_closed (wa_plugs w ! n)}"

definition waitingPlugs :: "watcher \<Rightarrow> nat multiset" where
  "waitingPlugs w = mset (filter (\<lambda>n. lp_pc (wa_plugs w ! n) = LpWait) [0..<length (wa_plugs w)])"

definition watchInv :: "watcher \<Rightarrow> bool" where
  "watchInv w \<longleftrightarrow> distinct (map fst (wa_loaded w)) \<and> distinct (map snd (wa_loaded w))
     \<and> snd ` set (wa_loaded w) = openPlugs w \<and> list_all plugOk (wa_plugs w)
     \<and> mset (GetControllers (wa_bus w)) = waitingPlugs w"

lemma set_deleteKey: "set (deleteKey k m) = {kv \<in> set m. fst kv \<noteq> k}"
  by (auto simp: deleteKey_def AList.delete_eq)

lemma map_of_deleteKey [simp]: "map_of (deleteKey k m) = (map_of m)(k := None)"
  by (auto simp: deleteKey_def delete_conv')

lemma distinct_deleteKey: "distinct (map fst m) \<Longrightarrow> distinct (map fst (deleteKey k m))"
  "distinct (map snd m) \<Longrightarrow> distinct (map snd (deleteKey k m))"
  by (simp_all add: deleteKey_def AList.delete_eq distinct_map_filter)

lemma wa_closePlug [simp]: "wa_loaded (closePlug n w) = wa_loaded w" "wa_bus (closePlug n w) = wa_bus w"
  "length (wa_plugs (closePlug n w)) = length (wa_plugs w)"
  by (simp_all add: closePlug_def)

lemma plugs_closePlug:
  "k < length (wa_plugs w) \<Longrightarrow> wa_plugs (closePlug n w) ! k = (if k = n then LoadedPlugin_Close (wa_plugs w ! k) else wa_plugs w ! k)"
  by (simp add: closePlug_def nth_list_update)

lemma LoadedPlugin_Close_simps [simp]: "lp_closed (LoadedPlugin_Close p)" "lp_pc (LoadedPlugin_Close p) = lp_pc p"
  "lp_stat (LoadedPlugin_Close p) = lp_stat p" "plugOk p \<Longrightarrow> plugOk (LoadedPlugin_Close p)"
  by (simp_all add: LoadedPlugin_Close_def plugOk_def)

lemma waiting_closePlug [simp]: "waitingPlugs (closePlug n w) = waitingPlugs w"
  by (auto simp: waitingPlugs_def plugs_closePlug intro!: arg_cong[where f = mset] filter_cong split: if_splits)

text \<open>Taking an entry out of the map together with closing its plugin.\<close>

definition dropPlug :: "string \<times> nat \<Rightarrow> watcher \<Rightarrow> watcher" where
  "dropPlug idn w = (closePlug (snd idn) w)\<lparr>wa_loaded := deleteKey (fst idn) (wa_loaded w)\<rparr>"

lemma watchInv_drop:
  assumes "watchInv w" and "(k, n) \<in> set (wa_loaded w)"
  shows "watchInv (dropPlug (k, n) w)"
proof -
  have d: "distinct (map fst (wa_loaded w))" "distinct (map snd (wa_loaded w))" using assms(1) by (auto simp: watchInv_def)
  have n: "n \<in> openPlugs w" using assms by (force simp: watchInv_def)
  have "snd ` set (deleteKey k (wa_loaded w)) = snd ` set (wa_loaded w) - {n}"
    using d assms(2) by (auto simp: set_deleteKey distinct_map inj_on_def image_iff) fastforce+
  also have "\<dots> = openPlugs (dropPlug (k, n) w)"
    using assms(1) n by (auto simp: watchInv_def openPlugs_def dropPlug_def plugs_closePlug split: if_splits)
  finally have "snd ` set (deleteKey k (wa_loaded w)) = openPlugs (dropPlug (k, n) w)" .
  moreover have "list_all plugOk (wa_plugs (closePlug n w))"
    using assms(1) by (auto simp: watchInv_def list_all_length plugs_closePlug)
  moreover have "waitingPlugs (dropPlug (k, n) w) = waitingPlugs w"
    using waiting_closePlug[of n w] by (simp add: dropPlug_def waitingPlugs_def)
  ultimately show ?thesis
    using assms(1) d by (simp add: watchInv_def dropPlug_def distinct_deleteKey)
qed

lemma unloadStale_drop:
  "unloadStale found idn w = (if (case map_of found (fst idn) of None \<Rightarrow> True
      | Some st \<Rightarrow> \<not> pstat_Equal (Some st) (Some (lp_stat (wa_plugs w ! snd idn)))) then dropPlug idn w else w)"
  by (simp add: unloadStale_def dropPlug_def split: prod.split option.split)

lemma UnloadPlugin_drop:
  "UnloadPlugin k w = (case map_of (wa_loaded w) k of None \<Rightarrow> w | Some n \<Rightarrow> dropPlug (k, n) w)"
  by (simp add: UnloadPlugin_def dropPlug_def closePlug_def split: option.split)

text \<open>The loops over the map, which delete only the entry they are at.\<close>

lemma fold_drop:
  assumes "watchInv w" and "set ps \<subseteq> set (wa_loaded w)" and "distinct (map fst ps)"
    and "\<And>idn w. f idn w = (if P idn w then dropPlug idn w else w)"
  shows "watchInv (fold f ps w)"
  using assms(1-3)
proof (induction ps arbitrary: w)
  case (Cons p ps)
  obtain k n where p: "p = (k, n)" by fastforce
  have "watchInv (f p w)" using Cons.prems watchInv_drop[of w k n] by (auto simp: p assms(4))
  moreover have "set ps \<subseteq> set (wa_loaded (f p w))"
    using Cons.prems by (force simp: p assms(4) dropPlug_def set_deleteKey)
  ultimately show ?case using Cons by simp
qed simp

lemma watchInv_load: "watchInv w \<Longrightarrow> watchInv (snd (loadPluginLocked libs p w))"
proof -
  assume inv: "watchInv w"
  show "watchInv (snd (loadPluginLocked libs p w))"
  proof (cases "map_of (wa_loaded w) p = None \<and> \<not> isl (LoadPluginSharedLibrary (libs p))")
    case False
    with inv show ?thesis by (auto simp: loadPluginLocked_def isl_def split: sum.split)
  next
    case True
    then obtain st where st: "LoadPluginSharedLibrary (libs p) = Inr st" by (cases "LoadPluginSharedLibrary (libs p)") auto
    let ?n = "length (wa_plugs w)" and ?x = "\<lparr>lp_stat = st, lp_closed = False, lp_calls = [], lp_pc = LpStart\<rparr>"
    let ?w = "w\<lparr>wa_loaded := mapSet p ?n (wa_loaded w), wa_plugs := wa_plugs w @ [?x]\<rparr>"
    have ms: "mapSet p ?n (wa_loaded w) = wa_loaded w @ [(p, ?n)]"
      using True mapSet_new[of "wa_loaded w" p] by simp
    have new: "?n \<notin> snd ` set (wa_loaded w)" using inv by (auto simp: watchInv_def openPlugs_def)
    have "openPlugs ?w = insert ?n (openPlugs w)"
      by (auto simp: openPlugs_def nth_append split: if_splits)
    moreover have "waitingPlugs ?w = waitingPlugs w"
      by (auto simp: waitingPlugs_def nth_append intro!: arg_cong[where f = mset] filter_cong)
    ultimately have "watchInv ?w"
      using inv new True by (simp add: watchInv_def ms plugOk_def map_of_eq_None_iff)
    then show ?thesis using True st by (simp add: loadPluginLocked_def)
  qed
qed

lemma mset_ExecuteController_nil:
  "InmemBus.ExecuteController id addErr n (Returned None) b = (e, b')
   \<Longrightarrow> mset (GetControllers b') = mset (GetControllers b) + (if e = None then {#n#} else {#})"
  by (auto simp: InmemBus.ExecuteController_def addController_def ExecuteController_end_def handleControllerPanic_def
    GetControllers_def Let_def split: option.splits)

lemma waiting_upd:
  assumes "n < length (wa_plugs w)"
  shows "waitingPlugs (w\<lparr>wa_plugs := (wa_plugs w)[n := (wa_plugs w ! n)\<lparr>lp_pc := c\<rparr>]\<rparr>)
    = waitingPlugs w - (if lp_pc (wa_plugs w ! n) = LpWait then {#n#} else {#}) + (if c = LpWait then {#n#} else {#})"
proof -
  let ?P = "\<lambda>k. lp_pc (wa_plugs w ! k) = LpWait"
  have split: "[0..<length (wa_plugs w)] = [0..<n] @ n # [Suc n..<length (wa_plugs w)]"
    using assms upt_add_eq_append[of 0 n "length (wa_plugs w) - n"] by (simp add: upt_conv_Cons)
  have "filter (\<lambda>k. lp_pc ((wa_plugs w)[n := x] ! k) = LpWait) ks = filter ?P ks" if "n \<notin> set ks" for ks x
    using that by (intro filter_cong refl) (metis nth_list_update_neq)
  then show ?thesis using assms unfolding waitingPlugs_def by (simp add: split)
qed

lemma watchInv_go: "watchInv w \<Longrightarrow> watchInv (plugGo addErr parentDone n w)"
proof -
  assume inv: "watchInv w"
  have upd: "watchInv (w\<lparr>wa_bus := b, wa_plugs := (wa_plugs w)[n := (wa_plugs w ! n)\<lparr>lp_pc := c\<rparr>]\<rparr>)"
    if "n < length (wa_plugs w)" "mset (GetControllers b) = mset (GetControllers (wa_bus w))
      - (if lp_pc (wa_plugs w ! n) = LpWait then {#n#} else {#}) + (if c = LpWait then {#n#} else {#})" for b c
  proof -
    let ?u = "w\<lparr>wa_bus := b, wa_plugs := (wa_plugs w)[n := (wa_plugs w ! n)\<lparr>lp_pc := c\<rparr>]\<rparr>"
    have "openPlugs ?u = openPlugs w" using that(1) by (auto simp: openPlugs_def nth_list_update split: if_splits)
    moreover have "list_all plugOk (wa_plugs ?u)"
      using inv that(1) by (auto simp: watchInv_def list_all_length nth_list_update plugOk_def)
    moreover have "waitingPlugs ?u = waitingPlugs (w\<lparr>wa_plugs := wa_plugs ?u\<rparr>)" by (simp add: waitingPlugs_def)
    ultimately show ?thesis using inv that waiting_upd[OF that(1), of c] by (simp add: watchInv_def)
  qed
  show ?thesis
  proof (cases "n < length (wa_plugs w)")
    case n: True
    obtain e b where eb: "InmemBus.ExecuteController id addErr n (Returned None) (wa_bus w) = (e, b)" by fastforce
    have "mset (GetControllers (RemoveController n (wa_bus w))) = mset (GetControllers (wa_bus w)) - {#n#}"
      by (simp add: RemoveController_def mset_removeController(2))
    then show ?thesis
      using inv n upd[OF n, of b] upd[OF n, of "RemoveController n (wa_bus w)" LpGone] mset_ExecuteController_nil[OF eb]
      by (cases "lp_pc (wa_plugs w ! n)") (auto simp: plugGo_def eb split: option.split)
  qed (simp add: plugGo_def inv)
qed

lemma watchInv_fold: "(\<And>x w. watchInv w \<Longrightarrow> watchInv (f x w)) \<Longrightarrow> watchInv w \<Longrightarrow> watchInv (fold f xs w)"
  by (induction xs arbitrary: w) auto

lemma watchInv_sync: "watchInv w \<Longrightarrow> watchInv (snd (SyncPlugins dir entries libs w))"
proof (cases entries)
  case (Inr es)
  assume inv: "watchInv w"
  let ?found = "fold (scanEntry dir) es []"
  have "watchInv (fold (unloadStale ?found) (wa_loaded w) w)"
    using inv by (intro fold_drop[OF inv _ _ unloadStale_drop]) (auto simp: watchInv_def)
  then have "watchInv (fold (\<lambda>(plugFile, _) w. if map_of (wa_loaded w) plugFile = None
      then snd (loadPluginLocked libs plugFile w) else w) ?found (fold (unloadStale ?found) (wa_loaded w) w))"
    by (rule watchInv_fold[rotated]) (auto simp: watchInv_load)
  then show ?thesis by (simp add: SyncPlugins_def Inr Let_def)
qed (simp add: SyncPlugins_def)

lemma watchInv_unloadAll: "watchInv w \<Longrightarrow> watchInv (UnloadAll w)"
  unfolding UnloadAll_def
  by (rule fold_drop[where P = "\<lambda>_ _. True"]) (auto simp: watchInv_def dropPlug_def split: prod.split)

lemma UnloadAll_loaded: "wa_loaded (UnloadAll w) = []"
proof -
  have "set (wa_loaded (fold (\<lambda>(ident, n) w. (closePlug n w)\<lparr>wa_loaded := deleteKey ident (wa_loaded w)\<rparr>) ps w))
      = {kv \<in> set (wa_loaded w). fst kv \<notin> fst ` set ps}" for ps and w :: watcher
    by (induction ps arbitrary: w) (auto simp: set_deleteKey image_iff)
  from this[of "wa_loaded w" w] have "set (wa_loaded (UnloadAll w)) = {}" by (auto simp: UnloadAll_def)
  then show ?thesis by simp
qed

lemma watchInv_step: "watchInv w \<Longrightarrow> watchInv (watchStep op w)"
proof (cases op)
  case (WUnload p)
  then show "watchInv w \<Longrightarrow> ?thesis"
    by (auto simp: UnloadPlugin_drop intro: watchInv_drop map_of_SomeD split: option.split)
qed (simp_all add: watchInv_load watchInv_sync watchInv_unloadAll watchInv_go)

lemma watchInv_run:
  assumes "GetControllers b = []"
  shows "watchInv (fold watchStep ops (NewWatcher b))"
  by (rule watchInv_fold, erule watchInv_step)
     (simp add: watchInv_def NewWatcher_def openPlugs_def waitingPlugs_def assms)

text \<open>
  C22: No plugin is unloaded twice or leaked. After any operations and any steps of the goroutines, a
  plugin that is loaded had none of the calls of unloading, and every other one that was ever loaded
  had each once, in the documented order: the context, the resolver, the plugin. The bus has a resolver
  controller just for the goroutines that wait, and \<^verbatim>\<open>UnloadAll\<close>, which runs when \<^verbatim>\<open>Execute\<close> returns,
  leaves no plugin loaded.
\<close>

theorem plugins_unloaded_once:
  assumes "GetControllers b = []" and "fold watchStep ops (NewWatcher b) = w"
  shows "list_all (\<lambda>n. lp_calls (wa_plugs w ! n) =
      (if n \<in> snd ` set (wa_loaded w) then [] else [UnCancel, UnResolver, UnPlugin])) [0..<length (wa_plugs w)]
    \<and> mset (GetControllers (wa_bus w)) = mset (filter (\<lambda>n. lp_pc (wa_plugs w ! n) = LpWait) [0..<length (wa_plugs w)])
    \<and> list_all (\<lambda>p. lp_calls p = [UnCancel, UnResolver, UnPlugin]) (wa_plugs (UnloadAll w))"
proof (intro conjI)
  have calls: "list_all (\<lambda>n. lp_calls (wa_plugs u ! n) =
      (if n \<in> snd ` set (wa_loaded u) then [] else [UnCancel, UnResolver, UnPlugin])) [0..<length (wa_plugs u)]"
    if "watchInv u" for u
    using that by (auto simp: watchInv_def openPlugs_def list_all_length plugOk_def)
  have inv: "watchInv w" using watchInv_run[OF assms(1), of ops] assms(2) by simp
  then show "list_all (\<lambda>n. lp_calls (wa_plugs w ! n) =
      (if n \<in> snd ` set (wa_loaded w) then [] else [UnCancel, UnResolver, UnPlugin])) [0..<length (wa_plugs w)]"
    and "mset (GetControllers (wa_bus w)) = mset (filter (\<lambda>n. lp_pc (wa_plugs w ! n) = LpWait) [0..<length (wa_plugs w)])"
    by (simp_all only: calls) (simp add: watchInv_def waitingPlugs_def)
  show "list_all (\<lambda>p. lp_calls p = [UnCancel, UnResolver, UnPlugin]) (wa_plugs (UnloadAll w))"
    using calls[OF watchInv_unloadAll[OF inv]] by (simp add: UnloadAll_loaded list_all_length)
qed

definition exampleStat :: pstat where
  "exampleStat = \<lparr>ps_size = 9, ps_mtime = 4\<rparr>"

definition exampleLib :: lib_file where
  "exampleLib = \<lparr>lf_stat = Inr exampleStat, lf_open = None, lf_lookup = Inr (SymPlugin False), lf_shown = [], lf_resolver = None\<rparr>"

definition exampleEntry :: dir_entry where
  "exampleEntry = \<lparr>de_name = ''p.cbus.so'', de_isDir = False, de_regular = True, de_stat = Inr exampleStat\<rparr>"

lemmas watch_example = exampleStat_def exampleLib_def exampleEntry_def SyncPlugins_def scanEntry_def hasSuffix_def
  PluginSuffix_def joinPath_def mapSet_def loadPluginLocked_def LoadPluginSharedLibrary_def NewWatcher_def
  unloadStale_def UnloadPlugin_def closePlug_def LoadedPlugin_Close_def deleteKey_def pstat_Equal_def

lemma example_watch:
  "fold watchStep [WSync ''d'' (Inr [exampleEntry]) (\<lambda>_. exampleLib), WUnload ''d/p.cbus.so'',
     WSync ''d'' (Inr [exampleEntry]) (\<lambda>_. exampleLib)] (NewWatcher NewBus)
   = \<lparr>wa_loaded = [(''d/p.cbus.so'', 1)],
      wa_plugs = [\<lparr>lp_stat = exampleStat, lp_closed = True, lp_calls = [UnCancel, UnResolver, UnPlugin], lp_pc = LpStart\<rparr>,
        \<lparr>lp_stat = exampleStat, lp_closed = False, lp_calls = [], lp_pc = LpStart\<rparr>],
      wa_bus = NewBus\<rparr>"
  by (simp add: watch_example)

theorem plugins_unloaded_once_witness:
  "let w = fold watchStep [WSync ''d'' (Inr [exampleEntry]) (\<lambda>_. exampleLib), WUnload ''d/p.cbus.so'',
       WSync ''d'' (Inr [exampleEntry]) (\<lambda>_. exampleLib)] (NewWatcher NewBus)
   in wa_loaded w = [(''d/p.cbus.so'', 1)]
     \<and> list_all (\<lambda>p. lp_calls p = [UnCancel, UnResolver, UnPlugin]) (wa_plugs (UnloadAll w))"
proof -
  have "GetControllers (NewBus :: nat bus) = []" by (simp add: GetControllers_def NewBus_def)
  from plugins_unloaded_once[OF this example_watch] show ?thesis
    unfolding example_watch Let_def by simp
qed

section \<open>Synchronizing with a directory\<close>

definition sync_found :: "string \<Rightarrow> dir_entry list \<Rightarrow> pstat gomap" where
  "sync_found dir es = fold (scanEntry dir) es []"

lemma map_of_drops:
  assumes "distinct (map fst ps)"
    and "\<And>idn w. f idn w = (if P idn w then dropPlug idn w else w)"
    and "\<And>idn idn' w. fst idn \<noteq> fst idn' \<Longrightarrow> snd idn \<noteq> snd idn' \<Longrightarrow> P idn (dropPlug idn' w) = P idn w"
    and "distinct (map snd ps)"
  shows "map_of (wa_loaded (fold f ps w)) k = (case map_of ps k of None \<Rightarrow> map_of (wa_loaded w) k
    | Some n \<Rightarrow> if P (k, n) w then None else map_of (wa_loaded w) k)"
  using assms(1,4)
proof (induction ps arbitrary: w)
  case (Cons p ps)
  have fresh: "map_of ps (fst p) = None" using Cons.prems(1) by (simp add: map_of_eq_None_iff)
  have other: "P (k, n) (f p w) = P (k, n) w" if "map_of ps k = Some n" for n
  proof -
    have "(k, n) \<in> set ps" using that by (rule map_of_SomeD)
    then have "k \<noteq> fst p" "n \<noteq> snd p" using Cons.prems by (auto simp: image_iff)
    then have "P (k, n) (dropPlug p w) = P (k, n) w" using assms(3)[of "(k, n)" p w] by simp
    then show ?thesis by (simp add: assms(2))
  qed
  have step: "map_of (wa_loaded (f p w)) k = (if k = fst p \<and> P p w then None else map_of (wa_loaded w) k)"
    by (simp add: assms(2) dropPlug_def)
  have IH: "map_of (wa_loaded (fold f ps (f p w))) k = (case map_of ps k of None \<Rightarrow> map_of (wa_loaded (f p w)) k
    | Some n \<Rightarrow> if P (k, n) (f p w) then None else map_of (wa_loaded (f p w)) k)"
    using Cons.IH[of "f p w"] Cons.prems by simp
  obtain j m where p: "p = (j, m)" by fastforce
  show ?case
  proof (cases "j = k")
    case True
    then have "map_of ps k = None" using fresh p by simp
    then show ?thesis using IH step True p by simp
  next
    case False
    then have "map_of (wa_loaded (f p w)) k = map_of (wa_loaded w) k" using step p by simp
    then show ?thesis using IH other False p by (cases "map_of ps k") simp_all
  qed
qed simp

definition loadStep :: "(string \<Rightarrow> lib_file) \<Rightarrow> string \<times> pstat \<Rightarrow> watcher \<Rightarrow> watcher" where
  "loadStep libs = (\<lambda>(plugFile, _) w. if map_of (wa_loaded w) plugFile = None
     then snd (loadPluginLocked libs plugFile w) else w)"

lemma loadStep_length: "length (wa_plugs w) \<le> length (wa_plugs (loadStep libs p w))"
  by (auto simp: loadStep_def loadPluginLocked_def split: prod.split sum.split)

lemma loadStep_lookup:
  "map_of (wa_loaded (loadStep libs (p, st) w)) k =
     (if k = p \<and> map_of (wa_loaded w) p = None \<and> \<not> isl (LoadPluginSharedLibrary (libs p)) then Some (length (wa_plugs w))
      else map_of (wa_loaded w) k)"
  by (auto simp: loadStep_def loadPluginLocked_def split: sum.split)

lemma loads_lookup:
  "case map_of (wa_loaded w) k of
     Some n \<Rightarrow> map_of (wa_loaded (fold (loadStep libs) ps w)) k = Some n
   | None \<Rightarrow> if map_of ps k \<noteq> None \<and> \<not> isl (LoadPluginSharedLibrary (libs k))
       then (\<exists>n \<ge> length (wa_plugs w). map_of (wa_loaded (fold (loadStep libs) ps w)) k = Some n)
       else map_of (wa_loaded (fold (loadStep libs) ps w)) k = None"
proof (induction ps arbitrary: w)
  case Nil
  show ?case by (simp split: option.split)
next
  case (Cons p ps)
  obtain j st where p: "p = (j, st)" by fastforce
  note IH = Cons[of "loadStep libs p w"]
  have len: "length (wa_plugs w) \<le> length (wa_plugs (loadStep libs p w))" by (rule loadStep_length)
  show ?case
  proof (cases "map_of (wa_loaded w) k")
    case (Some n)
    then have "map_of (wa_loaded (loadStep libs p w)) k = Some n" by (auto simp: p loadStep_lookup)
    with IH Some show ?thesis by simp
  next
    case None
    show ?thesis
    proof (cases "k = j \<and> \<not> isl (LoadPluginSharedLibrary (libs j))")
      case True
      then have "map_of (wa_loaded (loadStep libs p w)) k = Some (length (wa_plugs w))"
        using None by (auto simp: p loadStep_lookup)
      with IH None True show ?thesis by (auto simp: p)
    next
      case False
      then have "map_of (wa_loaded (loadStep libs p w)) k = None" using None by (auto simp: p loadStep_lookup)
      with IH None False len show ?thesis by (auto simp: p split: if_splits dest: le_trans)
    qed
  qed
qed

lemma length_fold_unload: "length (wa_plugs (fold (unloadStale found) ps w)) = length (wa_plugs w)"
  by (induction ps arbitrary: w) (simp_all add: unloadStale_drop dropPlug_def)

lemma sync_found_iff:
  "map_of (sync_found dir es) p \<noteq> None \<longleftrightarrow> list_ex (\<lambda>df. \<not> de_isDir df \<and> de_regular df
     \<and> hasSuffix (de_name df) PluginSuffix \<and> \<not> isl (de_stat df) \<and> joinPath dir (de_name df) = p) es"
proof -
  have "map_of (fold (scanEntry dir) es m) p \<noteq> None \<longleftrightarrow> map_of m p \<noteq> None \<or> list_ex (\<lambda>df. \<not> de_isDir df \<and> de_regular df
     \<and> hasSuffix (de_name df) PluginSuffix \<and> \<not> isl (de_stat df) \<and> joinPath dir (de_name df) = p) es" for m
  proof (induction es arbitrary: m)
    case (Cons df es)
    show ?case by (simp only: fold_simps Cons) (auto simp: scanEntry_def split: sum.split)
  qed simp
  from this[of "[]"] show ?thesis by (simp add: sync_found_def)
qed

text \<open>The plugin of a path that may stay loaded: the file is as it was when the plugin was loaded.\<close>

definition keptPlug :: "watcher \<Rightarrow> string \<Rightarrow> pstat \<Rightarrow> nat option" where
  "keptPlug w p st = (case map_of (wa_loaded w) p of None \<Rightarrow> None
     | Some n \<Rightarrow> if pstat_Equal (Some st) (Some (lp_stat (wa_plugs w ! n))) then Some n else None)"

text \<open>
  C26: After a synchronization the plugins that are loaded are those of the directory: a path is loaded
  only if its file is there, regular, named as a plugin and can be examined. A plugin whose file did not
  change is kept, any other is a new one, and only files that cannot be loaded are missing.
\<close>

theorem SyncPlugins_syncs:
  assumes "GetControllers b = []" and "fold watchStep ops (NewWatcher b) = w"
    and "SyncPlugins dir (Inr es) libs w = (e, w')"
  shows "(case map_of (sync_found dir es) p of
      None \<Rightarrow> map_of (wa_loaded w') p = None
    | Some st \<Rightarrow> (case keptPlug w p st of
        Some n \<Rightarrow> map_of (wa_loaded w') p = Some n
      | None \<Rightarrow> if isl (LoadPluginSharedLibrary (libs p)) then map_of (wa_loaded w') p = None
          else \<exists>n \<ge> length (wa_plugs w). map_of (wa_loaded w') p = Some n))
    \<and> e = None
    \<and> (map_of (sync_found dir es) p \<noteq> None \<longleftrightarrow> list_ex (\<lambda>df. \<not> de_isDir df \<and> de_regular df
      \<and> hasSuffix (de_name df) PluginSuffix \<and> \<not> isl (de_stat df) \<and> joinPath dir (de_name df) = p) es)"
proof (intro conjI)
  let ?found = "sync_found dir es"
  define stale where "stale = (\<lambda>(idn :: string \<times> nat) (w :: watcher). case map_of ?found (fst idn) of None \<Rightarrow> True
      | Some st \<Rightarrow> \<not> pstat_Equal (Some st) (Some (lp_stat (wa_plugs w ! snd idn))))"
  define u where "u = fold (unloadStale ?found) (wa_loaded w) w"
  have inv: "watchInv w" using watchInv_run[OF assms(1), of ops] assms(2) by simp
  have w': "w' = fold (loadStep libs) ?found u" and "e = None"
    using assms(3) by (simp_all add: SyncPlugins_def Let_def sync_found_def u_def loadStep_def)
  then show "e = None" by simp
  have "lp_stat (wa_plugs (closePlug m w) ! n) = lp_stat (wa_plugs w ! n)" if "n \<noteq> m" for m n w
    using that by (simp add: closePlug_def)
  then have "stale idn (dropPlug idn' w) = stale idn w" if "snd idn \<noteq> snd idn'" for idn idn' w
    using that by (simp add: stale_def dropPlug_def split: option.split)
  then have "map_of (wa_loaded u) p = (case map_of (wa_loaded w) p of None \<Rightarrow> None
      | Some n \<Rightarrow> if stale (p, n) w then None else Some n)"
    using inv map_of_drops[of "wa_loaded w" "unloadStale ?found" stale w p]
    by (auto simp: u_def watchInv_def unloadStale_drop stale_def split: option.split)
  then have u: "map_of (wa_loaded u) p = (case map_of ?found p of None \<Rightarrow> None | Some st \<Rightarrow> keptPlug w p st)"
    by (auto simp: stale_def keptPlug_def split: option.split)
  have len: "length (wa_plugs u) = length (wa_plugs w)" by (simp add: u_def length_fold_unload)
  show "case map_of ?found p of
      None \<Rightarrow> map_of (wa_loaded w') p = None
    | Some st \<Rightarrow> (case keptPlug w p st of
        Some n \<Rightarrow> map_of (wa_loaded w') p = Some n
      | None \<Rightarrow> if isl (LoadPluginSharedLibrary (libs p)) then map_of (wa_loaded w') p = None
          else \<exists>n \<ge> length (wa_plugs w). map_of (wa_loaded w') p = Some n)"
    using loads_lookup[where w = u and k = p and libs = libs and ps = ?found] u len by (auto simp: w' split: option.splits if_splits)
  show "map_of (sync_found dir es) p \<noteq> None \<longleftrightarrow> list_ex (\<lambda>df. \<not> de_isDir df \<and> de_regular df
      \<and> hasSuffix (de_name df) PluginSuffix \<and> \<not> isl (de_stat df) \<and> joinPath dir (de_name df) = p) es"
    by (rule sync_found_iff)
qed

theorem SyncPlugins_syncs_witness:
  "\<exists>n. map_of (wa_loaded (snd (SyncPlugins ''d'' (Inr [exampleEntry]) (\<lambda>_. exampleLib)
     (NewWatcher NewBus)))) ''d/p.cbus.so'' = Some n"
proof -
  let ?w = "NewWatcher NewBus"
  have g: "GetControllers (NewBus :: nat bus) = []" by (simp add: GetControllers_def NewBus_def)
  have f: "map_of (sync_found ''d'' [exampleEntry]) ''d/p.cbus.so'' = Some exampleStat" "keptPlug ?w ''d/p.cbus.so'' exampleStat = None"
    "\<not> isl (LoadPluginSharedLibrary exampleLib)"
    by (simp_all add: sync_found_def keptPlug_def watch_example)
  have "fold watchStep [] ?w = ?w" by simp
  from SyncPlugins_syncs[OF g this surjective_pairing, of "''d''" "[exampleEntry]" "\<lambda>_. exampleLib" "''d/p.cbus.so''"] f
  show ?thesis by auto
qed

end
