(* ===== verification/PluginBuild.thy ===== *)
theory PluginBuild
  imports PluginLoader "HOL-Library.List_Lexorder" "HOL-Library.Char_ord"
begin

text \<open>
  Compiling plugins (\<^verbatim>\<open>plugin/compiler\<close>, \<^verbatim>\<open>plugin/cli\<close>): the code that decides what goes into a plugin, what its
  files are called and which of them are removed. The Go tool, its package loader, hashes and the file
  system answer through parameters; Go syntax trees appear only as far as this code looks into them.
\<close>

section \<open>Strings\<close>

definition hasPrefix :: "string \<Rightarrow> string \<Rightarrow> bool" where
  "hasPrefix s p \<longleftrightarrow> take (length p) s = p"

text \<open>\<^verbatim>\<open>strings.Contains\<close>, \<^verbatim>\<open>strings.Split\<close> with a separator that is not empty, and \<^verbatim>\<open>strings.ReplaceAll\<close>.\<close>

fun containsStr :: "string \<Rightarrow> string \<Rightarrow> bool" where
  "containsStr sub [] \<longleftrightarrow> sub = []"
| "containsStr sub (c # cs) \<longleftrightarrow> hasPrefix (c # cs) sub \<or> containsStr sub cs"

function splitOn :: "string \<Rightarrow> string \<Rightarrow> string \<Rightarrow> string list" where
  "splitOn sep cur [] = [cur]"
| "splitOn sep cur (c # cs) = (if sep \<noteq> [] \<and> hasPrefix (c # cs) sep
     then cur # splitOn sep [] (drop (length sep) (c # cs)) else splitOn sep (cur @ [c]) cs)"
  by pat_completeness auto

termination by (relation "measure (\<lambda>(sep, cur, s). length s)") auto

definition replaceAll :: "string \<Rightarrow> string \<Rightarrow> string \<Rightarrow> string" where
  "replaceAll s old nw = joinWith nw (splitOn old [] s)"

definition buildHashConstTag :: string where
  "buildHashConstTag = ''{buildHash}''"

section \<open>Old versions of a plugin\<close>

definition isAlnum :: "char \<Rightarrow> bool" where
  "isAlnum c = (let n = of_char c :: nat in 48 \<le> n \<and> n \<le> 57 \<or> 65 \<le> n \<and> n \<le> 90 \<or> 97 \<le> n \<and> n \<le> 122)"

text \<open>
  The regular expression: the quoted first part, alphanumeric characters, the quoted second part.
  \<^verbatim>\<open>MatchString\<close> looks for it anywhere in the text.
\<close>

fun matchIdent :: "string \<Rightarrow> string \<Rightarrow> bool" where
  "matchIdent p1 [] \<longleftrightarrow> p1 = []"
| "matchIdent p1 (c # cs) \<longleftrightarrow> hasPrefix (c # cs) p1 \<or> isAlnum c \<and> matchIdent p1 cs"

definition matchAt :: "string \<Rightarrow> string \<Rightarrow> string \<Rightarrow> bool" where
  "matchAt p0 p1 s \<longleftrightarrow> hasPrefix s p0 \<and> matchIdent p1 (drop (length p0) s)"

fun matchString :: "string \<Rightarrow> string \<Rightarrow> string \<Rightarrow> bool" where
  "matchString p0 p1 [] \<longleftrightarrow> matchAt p0 p1 []"
| "matchString p0 p1 (c # cs) \<longleftrightarrow> matchAt p0 p1 (c # cs) \<or> matchString p0 p1 cs"

text \<open>
  \<^verbatim>\<open>CleanupOldVersions\<close>, on the base and the directory of the output path: the error and the paths removed.
  \<open>rm\<close> is the error of removing a file, which is logged.
\<close>

definition CleanupOldVersions :: "string \<Rightarrow> string \<Rightarrow> goerr + dir_entry list \<Rightarrow> (string \<Rightarrow> goerr option)
    \<Rightarrow> goerr option \<times> string list" where
  "CleanupOldVersions outDir outName entries rm =
     (if \<not> containsStr buildHashConstTag outName then (None, [])
      else let pts = splitOn buildHashConstTag [] outName in
        if length pts \<noteq> 2 then (Some (GoErr ''expected one instance of {buildHash}''), [])
        else case entries of Inl e \<Rightarrow> (Some e, [])
          | Inr es \<Rightarrow> (None, map (\<lambda>df. joinPath outDir (de_name df))
              (filter (\<lambda>df. \<not> de_isDir df \<and> de_regular df \<and> matchString (pts ! 0) (pts ! 1) (de_name df)
                 \<and> rm (joinPath outDir (de_name df)) = None) es)))"

section \<open>The syntax tree of the wrapper\<close>

text \<open>
  A declaration of a file: an import declaration, with whether it is parenthesized and the path of each
  of its specs (\<^term>\<open>None\<close> if it cannot be unquoted), or any other.
\<close>

datatype 'd godecl = ImportDecl bool "string option list" | OtherDecl 'd

definition importPath :: "string option \<Rightarrow> string" where
  "importPath spec = (case spec of Some t \<Rightarrow> t | None \<Rightarrow> [])"

fun declImports :: "'d godecl \<Rightarrow> string \<Rightarrow> bool" where
  "declImports (ImportDecl paren specs) path = list_ex (\<lambda>s. importPath s = path) specs"
| "declImports (OtherDecl d) path = False"

fun isImport :: "'d godecl \<Rightarrow> bool" where
  "isImport (ImportDecl paren specs) = True"
| "isImport (OtherDecl d) = False"

text \<open>The loop of \<^verbatim>\<open>mergeImports\<close>, whose index stays where a declaration was taken out.\<close>

fun specsOf :: "'d godecl \<Rightarrow> string option list" where
  "specsOf (ImportDecl paren specs) = specs"
| "specsOf (OtherDecl d) = []"

function mergeLoop :: "nat \<Rightarrow> nat option \<Rightarrow> 'd godecl list \<Rightarrow> 'd godecl list" where
  "mergeLoop i first decls =
     (if i < length decls then
        (if \<not> isImport (decls ! i) \<or> declImports (decls ! i) ''C'' then mergeLoop (Suc i) first decls
         else case first of
           None \<Rightarrow> mergeLoop (Suc i) (Some i) decls
         | Some j \<Rightarrow> mergeLoop i (Some j)
             (removeAt i (decls[j := ImportDecl True (specsOf (decls ! j) @ specsOf (decls ! i))])))
      else decls)"
  by pat_completeness auto

termination by (relation "measure (\<lambda>(i, first, decls). length decls - i)") auto

definition mergeImports :: "'d godecl list \<Rightarrow> 'd godecl list" where
  "mergeImports decls = (if length decls \<le> 1 then decls else mergeLoop 0 None decls)"

section \<open>Analysis\<close>

text \<open>
  A loaded package: path, name, whether it declares \<^verbatim>\<open>NewFactory\<close>, the path of its module, and the names of
  its code files.
\<close>

record gopkg =
  pk_path :: string
  pk_name :: string
  pk_factory :: bool
  pk_module :: "string option"
  pk_files :: "string list"

text \<open>\<^verbatim>\<open>Analysis\<close>; an import maps to the name of its package, \<^term>\<open>None\<close> where the code has nil.\<close>

record analysis =
  an_packages :: "gopkg gomap"
  an_imports :: "string option gomap"
  an_factories :: "gopkg gomap"
  an_modules :: "string list"

definition BuildPackageName :: "gopkg \<Rightarrow> string" where
  "BuildPackageName pkg = pk_name pkg"

definition baseImports :: "string option gomap" where
  "baseImports = map (\<lambda>p. (''github.com/aperturerobotics/controllerbus/'' @ p, None)) [''bus'', ''controller'', ''plugin'']"

definition analyzeOne :: "gopkg \<Rightarrow> analysis \<Rightarrow> analysis" where
  "analyzeOne pkg a =
     (let a = (if pk_factory pkg then a\<lparr>an_factories := mapSet (BuildPackageName pkg) pkg (an_factories a),
            an_imports := (if map_of (an_imports a) (pk_path pkg) = None
              then mapSet (pk_path pkg) (Some (pk_name pkg)) (an_imports a) else an_imports a)\<rparr>
          else a) in
      case pk_module pkg of None \<Rightarrow> a
      | Some m \<Rightarrow> if List.member (an_modules a) m then a else a\<lparr>an_modules := an_modules a @ [m]\<rparr>)"

definition AnalyzePackages :: "goerr + gopkg list \<Rightarrow> goerr + analysis" where
  "AnalyzePackages loaded = (case loaded of Inl e \<Rightarrow> Inl e
     | Inr pkgs \<Rightarrow>
         let a = \<lparr>an_packages = fold (\<lambda>p m. mapSet (pk_path p) p m) pkgs [], an_imports = baseImports,
                   an_factories = [], an_modules = []\<rparr> in
         if pkgs = [] then Inl (GoErr ''expected at least one package to be loaded'')
         else Inr (fold analyzeOne pkgs a))"

text \<open>\<^verbatim>\<open>GetProgramCodeFiles\<close>: the optional filters are the empty list and the empty string.\<close>

definition GetProgramCodeFiles :: "string list \<Rightarrow> string \<Rightarrow> analysis \<Rightarrow> string list gomap" where
  "GetProgramCodeFiles exactMatchFilter importPathPrefixFilter a =
     fold (\<lambda>(_, pak) res.
       if pk_files pak = [] then res
       else if importPathPrefixFilter \<noteq> [] \<and> \<not> hasSuffix (pk_path pak) importPathPrefixFilter then res
       else if exactMatchFilter \<noteq> [] \<and> \<not> List.member exactMatchFilter (pk_path pak) then res
       else mapSet (pk_path pak) ((case map_of res (pk_path pak) of None \<Rightarrow> [] | Some fs \<Rightarrow> fs) @ pk_files pak) res)
     (an_packages a) []"

text \<open>The files whose changes \<^verbatim>\<open>WatchCompilePlugin\<close> waits for.\<close>

definition ignoreWatchPrefixes :: "string list" where
  "ignoreWatchPrefixes = [''vendor'', ''node_modules'', ''.bldr'', ''(disabled)'']"

definition watchedFiles :: "string list \<Rightarrow> analysis \<Rightarrow> string list" where
  "watchedFiles packagePaths a =
     filter (\<lambda>f. \<not> list_ex (hasPrefix f) ignoreWatchPrefixes)
       (concat (map snd (GetProgramCodeFiles packagePaths [] a)))"

text \<open>
  The parts of the wrapper that depend on the analysis: the import declarations in the order of the
  paths, each with its name, and the elements of \<^verbatim>\<open>BinaryFactories\<close>, each the package name on which
  \<^verbatim>\<open>NewFactory\<close> is called.
\<close>

definition codegenImports :: "analysis \<Rightarrow> (string option \<times> string) list" where
  "codegenImports a =
     map (\<lambda>p. (case map_of (an_imports a) p of Some n \<Rightarrow> n | None \<Rightarrow> None, p)) (sort (map fst (an_imports a)))"

definition codegenFactories :: "analysis \<Rightarrow> string list" where
  "codegenFactories a = map fst (an_factories a)"

section \<open>Building a plugin\<close>

text \<open>
  \<^verbatim>\<open>CompilePluginFromFile\<close>: what the formatter, the file system, the Go tool and the hash answer, and the
  text that the intermediate file has, the texts that were compiled, and the path written to.
\<close>

record compile_env =
  ce_format :: "goerr + string"
  ce_write :: "goerr option"
  ce_mkdirTemp :: "goerr option"
  ce_tidy :: "goerr option"
  ce_build1 :: "goerr option"
  ce_hash :: "goerr + string"
  ce_exists :: "string \<Rightarrow> bool"
  ce_append :: "goerr option"
  ce_write2 :: "goerr option"
  ce_build2 :: "goerr option"
  ce_hook :: "goerr option"
  ce_copy :: "goerr option"

record compile_out =
  co_file :: string
  co_builds :: "string list"
  co_out :: "string option"

definition uuidDecl :: "string \<Rightarrow> string" where
  "uuidDecl hash = [CHR 0x0A] @ ''var HotPluginBuildUUID = `'' @ hash @ ''`'' @ [CHR 0x0A]"

text \<open>Each step, as a function on what was done before; an error ends the call.\<close>

definition orStop :: "goerr option \<Rightarrow> compile_out \<Rightarrow> (compile_out \<Rightarrow> goerr option \<times> compile_out) \<Rightarrow> goerr option \<times> compile_out" where
  "orStop e o' k = (case e of Some e \<Rightarrow> (Some e, o') | None \<Rightarrow> k o')"

definition CompilePluginFromFile :: "compile_env \<Rightarrow> string \<Rightarrow> goerr option \<times> compile_out" where
  "CompilePluginFromFile W outFile =
     (let o0 = \<lparr>co_file = [], co_builds = [], co_out = None\<rparr> in
      case ce_format W of Inl e \<Rightarrow> (Some e, o0)
      | Inr dat \<Rightarrow>
        orStop (ce_write W) o0 (\<lambda>o'. let o' = o'\<lparr>co_file := dat\<rparr> in
        orStop (ce_mkdirTemp W) o' (\<lambda>o'.
        orStop (ce_tidy W) o' (\<lambda>o'.
        orStop (ce_build1 W) (o'\<lparr>co_builds := co_builds o' @ [co_file o']\<rparr>) (\<lambda>o'.
        case ce_hash W of Inl e \<Rightarrow> (Some e, o')
        | Inr hashStr \<Rightarrow>
          let tagged = containsStr buildHashConstTag outFile;
              outFile = (if tagged then replaceAll outFile buildHashConstTag (take 16 hashStr) else outFile) in
          if tagged \<and> ce_exists W outFile then (None, o')
          else
            orStop (ce_append W) o' (\<lambda>o'. let o' = o'\<lparr>co_file := co_file o' @ uuidDecl hashStr\<rparr> in
            orStop (ce_write2 W) o' (\<lambda>o'. let o' = o'\<lparr>co_file := dat\<rparr> in
            orStop (ce_build2 W) (o'\<lparr>co_builds := co_builds o' @ [co_file o']\<rparr>) (\<lambda>o'.
            orStop (ce_hook W) o' (\<lambda>o'.
            orStop (ce_copy W) o' (\<lambda>o'. (None, o'\<lparr>co_out := Some outFile\<rparr>)))))))))))"

text \<open>\<^verbatim>\<open>NewModuleCompiler\<close> and the part of \<^verbatim>\<open>setupCompiler\<close> that chooses its arguments; \<open>buildUid\<close> is the hash.\<close>

definition NewModuleCompiler :: "string \<Rightarrow> string \<Rightarrow> string \<Rightarrow> goerr + string \<times> string \<times> string" where
  "NewModuleCompiler buildPrefix codegenPath binaryID =
     (if codegenPath = [] then Inl (GoErr ''codegen path cannot be empty'')
      else if buildPrefix = [] then Inl (GoErr ''build prefix must be specified'')
      else Inr (buildPrefix, codegenPath, binaryID))"

record compiler_args =
  ca_codegenDir :: string
  ca_output :: string
  ca_binaryID :: string
  ca_buildPrefix :: string

definition CompilerArgs_Validate :: "compiler_args \<Rightarrow> goerr option" where
  "CompilerArgs_Validate a = (if ca_output a \<noteq> [] \<and> \<not> hasSuffix (ca_output a) ''.cbus.so''
     then Some (GoErr ''output path must end with .cbus.so'') else None)"

definition setupCompiler :: "(string \<Rightarrow> string) \<Rightarrow> string \<Rightarrow> compiler_args \<Rightarrow> goerr + string \<times> string \<times> string" where
  "setupCompiler absPath buildUid a = (case CompilerArgs_Validate a of Some e \<Rightarrow> Inl e
     | None \<Rightarrow>
         let codegenDirPath = absPath (if ca_codegenDir a = [] then ''cbus-codegen-'' @ buildUid else ca_codegenDir a);
             buildPrefix = (if ca_buildPrefix a = [] then ''cbus-plugin-'' @ take 8 buildUid else ca_buildPrefix a);
             pluginBinaryID = (if ca_binaryID a = [] then ''cbus-plugin-'' @ take 8 buildUid else ca_binaryID a)
         in NewModuleCompiler (ca_buildPrefix a) codegenDirPath (ca_binaryID a))"

text \<open>
  The function \<^verbatim>\<open>compilePlugin\<close> of \<^verbatim>\<open>WatchCompilePlugin\<close>: the answers of its two passes, the hash, the file
  system and the callback, and what it did: the old versions removed, the path written, whether the
  callback was called.
\<close>

record watch_env =
  we_analyze :: "goerr + analysis"
  we_mkdir :: "goerr option"
  we_pass1 :: "goerr option"
  we_hash :: "goerr + string"
  we_exists :: "string \<Rightarrow> bool"
  we_entries :: "goerr + dir_entry list"
  we_rm :: "string \<Rightarrow> goerr option"
  we_pass2 :: "string \<Rightarrow> string \<Rightarrow> goerr option"
  we_copy :: "goerr option"
  we_hasCb :: bool
  we_cb :: "goerr option"

record watch_out =
  wo_removed :: "string list"
  wo_written :: "string option"
  wo_called :: bool

definition compilePlugin :: "watch_env \<Rightarrow> string \<Rightarrow> string \<Rightarrow> string \<Rightarrow> goerr option \<times> watch_out" where
  "compilePlugin W outDir outName binaryVersion =
     (let o0 = \<lparr>wo_removed = [], wo_written = None, wo_called = False\<rparr> in
      case we_analyze W of Inl e \<Rightarrow> (Some e, o0)
      | Inr an \<Rightarrow> (case we_mkdir W of Some e \<Rightarrow> (Some e, o0)
      | None \<Rightarrow> (case we_pass1 W of Some e \<Rightarrow> (Some e, o0)
      | None \<Rightarrow> (case we_hash W of Inl e \<Rightarrow> (Some e, o0)
      | Inr buildHash \<Rightarrow>
          let short = take 16 buildHash;
              version = replaceAll binaryVersion buildHashConstTag short;
              output = joinPath outDir outName;
              tagged = containsStr buildHashConstTag output;
              target = (if tagged then replaceAll output buildHashConstTag short else output) in
          if tagged \<and> we_exists W target then (None, o0)
          else case (if tagged then CleanupOldVersions outDir outName (we_entries W) (we_rm W) else (None, [])) of
            (Some e, rms) \<Rightarrow> (Some e, o0\<lparr>wo_removed := rms\<rparr>)
          | (None, rms) \<Rightarrow>
              let o1 = o0\<lparr>wo_removed := rms\<rparr> in
              (case we_pass2 W (''cbus-plugin-'' @ short) version of Some e \<Rightarrow> (Some e, o1)
               | None \<Rightarrow> (case we_copy W of Some e \<Rightarrow> (Some e, o1)
               | None \<Rightarrow> (if we_hasCb W then we_cb W else None, o1\<lparr>wo_written := Some target, wo_called := we_hasCb W\<rparr>)))))))"

section \<open>Relocating the paths of a module\<close>

text \<open>
  \<^verbatim>\<open>filepath.Join\<close> and \<^verbatim>\<open>filepath.Rel\<close> on the components of absolute paths that are clean: a relative path is
  the list of its components.
\<close>

fun resolveFrom :: "string list \<Rightarrow> string list \<Rightarrow> string list" where
  "resolveFrom dir [] = dir"
| "resolveFrom dir (p # ps) = (if p = [] \<or> p = ''.'' then resolveFrom dir ps
     else if p = ''..'' then resolveFrom (butlast dir) ps else resolveFrom (dir @ [p]) ps)"

fun relPath :: "string list \<Rightarrow> string list \<Rightarrow> string list" where
  "relPath (b # base) (t # targ) = (if b = t then relPath base targ
     else replicate (length (b # base)) ''..'' @ t # targ)"
| "relPath [] targ = targ"
| "relPath (b # base) [] = replicate (length (b # base)) ''..''"

text \<open>The relative path as text; the empty one is \<^verbatim>\<open>.\<close>.\<close>

definition ensureStartsWithDotSlash :: "string \<Rightarrow> string" where
  "ensureStartsWithDotSlash p = (if hasPrefix p ''.'' then p else ''./'' @ p)"

definition relocatePath :: "string list \<Rightarrow> string list \<Rightarrow> string \<Rightarrow> string option" where
  "relocatePath modDir nextModDir newPath =
     (if hasPrefix newPath ''./'' \<or> hasPrefix newPath ''../'' then
        let target = resolveFrom modDir (splitOn ''/'' [] newPath);
            rel = relPath nextModDir target in
        Some (ensureStartsWithDotSlash (if rel = [] then ''.'' else joinWith ''/'' rel))
      else None)"

text \<open>A replacement: the old path and version and the new ones; the result are the calls of \<^verbatim>\<open>AddReplace\<close>.\<close>

type_synonym replacement = "(string \<times> string) \<times> (string \<times> string)"

definition relocateGoModFile :: "string list \<Rightarrow> string list \<Rightarrow> replacement list \<Rightarrow> replacement list" where
  "relocateGoModFile modDir nextModDir rs = List.map_filter (\<lambda>(old, (newPath, newVersion)).
     map_option (\<lambda>p. (old, (p, newVersion))) (relocatePath modDir nextModDir newPath)) rs"

section \<open>Which files are removed\<close>

lemma hasPrefix_iff: "hasPrefix s p \<longleftrightarrow> (\<exists>r. s = p @ r)"
  by (metis append_eq_conv_conj append_take_drop_id hasPrefix_def)

lemma splitOn_not_Nil [simp]: "splitOn sep cur s \<noteq> []"
  by (induction sep cur s rule: splitOn.induct) auto

lemma joinWith_Cons: "ps \<noteq> [] \<Longrightarrow> joinWith sep (p # ps) = p @ sep @ joinWith sep ps"
  by (cases ps) auto

lemma join_splitOn: "joinWith sep (splitOn sep cur s) = cur @ s"
proof (induction sep cur s rule: splitOn.induct)
  case (2 sep cur c cs)
  show ?case
  proof (cases "sep \<noteq> [] \<and> hasPrefix (c # cs) sep")
    case True
    then obtain r where r: "c # cs = sep @ r" by (auto simp: hasPrefix_iff)
    have "splitOn sep cur (c # cs) = cur # splitOn sep [] (drop (length sep) (c # cs))" using True by simp
    also have "drop (length sep) (c # cs) = r" using r by simp
    finally have "joinWith sep (splitOn sep cur (c # cs)) = cur @ sep @ joinWith sep (splitOn sep [] r)"
      by (simp add: joinWith_Cons)
    also have "joinWith sep (splitOn sep [] r) = r" using 2(1)[OF True] r by simp
    finally show ?thesis by (simp add: r)
  next
    case False
    then show ?thesis using 2(2) by auto
  qed
qed simp

lemma matchIdent_iff: "matchIdent p1 s \<longleftrightarrow> (\<exists>ident post. s = ident @ p1 @ post \<and> list_all isAlnum ident)"
proof (induction s)
  case (Cons c cs)
  have "(\<exists>ident post. c # cs = ident @ p1 @ post \<and> list_all isAlnum ident) \<longleftrightarrow>
      (\<exists>post. c # cs = p1 @ post) \<or> isAlnum c \<and> (\<exists>ident post. cs = ident @ p1 @ post \<and> list_all isAlnum ident)"
    (is "?l \<longleftrightarrow> ?r")
  proof
    assume ?l
    then obtain ident post where i: "c # cs = ident @ p1 @ post" "list_all isAlnum ident" by blast
    then show ?r by (cases ident) auto
  next
    assume ?r
    then show ?l
    proof
      assume "\<exists>post. c # cs = p1 @ post"
      then show ?l by (metis append_Nil list.pred_inject(1))
    next
      assume "isAlnum c \<and> (\<exists>ident post. cs = ident @ p1 @ post \<and> list_all isAlnum ident)"
      then obtain ident post where "cs = ident @ p1 @ post" "list_all isAlnum (c # ident)" by auto
      then show ?l by (intro exI[of _ "c # ident"] exI[of _ post]) auto
    qed
  qed
  with Cons show ?case by (simp add: hasPrefix_iff)
qed auto

lemma matchAt_iff: "matchAt p0 p1 s \<longleftrightarrow> (\<exists>ident post. s = p0 @ ident @ p1 @ post \<and> list_all isAlnum ident)"
  by (auto simp: matchAt_def hasPrefix_iff matchIdent_iff) blast+

lemma matchString_iff:
  "matchString p0 p1 s \<longleftrightarrow> (\<exists>pre ident post. s = pre @ p0 @ ident @ p1 @ post \<and> list_all isAlnum ident)"
proof (induction s)
  case Nil
  show ?case by (auto simp: matchAt_iff)
next
  case (Cons c cs)
  have "(\<exists>pre q. c # cs = pre @ q \<and> P q) \<longleftrightarrow> P (c # cs) \<or> (\<exists>pre q. cs = pre @ q \<and> P q)" for P :: "string \<Rightarrow> bool"
    by (metis append_Cons append_Nil neq_Nil_conv list.inject)
  from this[of "\<lambda>q. \<exists>ident post. q = p0 @ ident @ p1 @ post \<and> list_all isAlnum ident"]
  show ?case using Cons by (simp add: matchAt_iff) blast
qed

text \<open>
  C25: What the cleanup after a build removes: if the name of the output has the tag once, exactly the
  regular files of its directory are removed whose name has, anywhere, the part of the output's name before the
  tag, some letters and digits, and the part after it. In particular the output of every earlier
  build is removed, whatever its hash.
\<close>

theorem CleanupOldVersions_removes:
  assumes "splitOn buildHashConstTag [] outName = [p0, p1]" and "containsStr buildHashConstTag outName"
  shows "fst (CleanupOldVersions dir outName (Inr es) (\<lambda>_. None)) = None
    \<and> set (snd (CleanupOldVersions dir outName (Inr es) (\<lambda>_. None))) = {joinPath dir (de_name df) | df. df \<in> set es
      \<and> \<not> de_isDir df \<and> de_regular df
      \<and> (\<exists>pre ident post. de_name df = pre @ p0 @ ident @ p1 @ post \<and> list_all isAlnum ident)}
    \<and> outName = p0 @ buildHashConstTag @ p1"
proof (intro conjI)
  show "fst (CleanupOldVersions dir outName (Inr es) (\<lambda>_. None)) = None"
    by (simp add: CleanupOldVersions_def assms)
  show "set (snd (CleanupOldVersions dir outName (Inr es) (\<lambda>_. None))) = {joinPath dir (de_name df) | df. df \<in> set es
      \<and> \<not> de_isDir df \<and> de_regular df
      \<and> (\<exists>pre ident post. de_name df = pre @ p0 @ ident @ p1 @ post \<and> list_all isAlnum ident)}"
    by (auto simp: CleanupOldVersions_def assms matchString_iff)
  show "outName = p0 @ buildHashConstTag @ p1"
    using join_splitOn[of buildHashConstTag "[]" outName] by (simp add: assms)
qed

definition pluginFile :: "string \<Rightarrow> dir_entry" where
  "pluginFile name = \<lparr>de_name = name, de_isDir = False, de_regular = True, de_stat = Inl (GoErr [])\<rparr>"

lemma example_tag:
  "splitOn buildHashConstTag [] ''plugin-{buildHash}.cbus.so'' = [''plugin-'', ''.cbus.so'']"
  "containsStr buildHashConstTag ''plugin-{buildHash}.cbus.so''"
  by (simp_all add: buildHashConstTag_def hasPrefix_def)

text \<open>The file of another plugin, whose name only contains the name of this one, is removed too.\<close>

theorem CleanupOldVersions_removes_witness:
  "''d/my-plugin-7xY.cbus.so'' \<in> set (snd (CleanupOldVersions ''d'' ''plugin-{buildHash}.cbus.so''
     (Inr [pluginFile ''my-plugin-7xY.cbus.so'']) (\<lambda>_. None)))"
proof -
  have "''my-plugin-7xY.cbus.so'' = ''my-'' @ ''plugin-'' @ ''7xY'' @ ''.cbus.so'' @ [] \<and> list_all isAlnum ''7xY''"
    by (simp add: isAlnum_def of_char_def)
  then have "\<exists>pre ident post. ''my-plugin-7xY.cbus.so'' = pre @ ''plugin-'' @ ident @ ''.cbus.so'' @ post \<and> list_all isAlnum ident"
    by blast
  then show ?thesis
    unfolding CleanupOldVersions_removes[OF example_tag, THEN conjunct2, THEN conjunct1] mem_Collect_eq
    by (intro exI[of _ "pluginFile ''my-plugin-7xY.cbus.so''"] conjI)
       (simp_all only: pluginFile_def dir_entry.simps, simp_all add: joinPath_def)
qed

section \<open>Merged imports\<close>

text \<open>The declarations that are merged: imports, but none of the package \<^verbatim>\<open>C\<close>.\<close>

definition mergeable :: "'d godecl \<Rightarrow> bool" where
  "mergeable d \<longleftrightarrow> isImport d \<and> \<not> declImports d ''C''"

declare mergeLoop.simps [simp del]

lemma mergeLoop_end: "mergeLoop (length ds) first ds = ds"
  by (simp add: mergeLoop.simps)

lemma mergeLoop_skip: "\<not> mergeable c \<Longrightarrow> mergeLoop (length A) first (A @ c # C) = mergeLoop (length (A @ [c])) first (A @ c # C)"
  by (subst mergeLoop.simps) (auto simp: mergeable_def)

lemma mergeable_merged: "mergeable d \<Longrightarrow> mergeable c \<Longrightarrow> mergeable (ImportDecl p (specsOf d @ specsOf c))"
  by (cases d; cases c) (auto simp: mergeable_def)

lemma mergeLoop_take:
  assumes "mergeable c"
  shows "mergeLoop (length (A @ d # B)) (Some (length A)) (A @ d # B @ c # C)
    = mergeLoop (length (A @ d # B)) (Some (length A)) (A @ ImportDecl True (specsOf d @ specsOf c) # B @ C)"
proof -
  have nth: "(A @ d # B @ c # C) ! length (A @ d # B) = c" "(A @ d # B @ c # C) ! length A = d"
    using nth_append_length[of "A @ d # B" c C] by simp_all
  have rm: "removeAt (Suc (length A + length B)) (A @ x # B @ c # C) = A @ x # B @ C" for x
    by (simp add: removeAt_def)
  show ?thesis
    using assms by (subst mergeLoop.simps) (simp only: nth mergeable_def, simp add: rm)
qed

lemma mergeLoop_some:
  "mergeable d \<Longrightarrow> \<exists>d'. mergeLoop (length (A @ d # B)) (Some (length A)) (A @ d # B @ C) = A @ d' # B @ filter (\<lambda>c. \<not> mergeable c) C
     \<and> mergeable d' \<and> specsOf d' = specsOf d @ concat (map specsOf (filter mergeable C))"
proof (induction C arbitrary: d B)
  case Nil
  then show ?case using mergeLoop_end[of "A @ d # B"] by auto
next
  case (Cons c C)
  show ?case
  proof (cases "mergeable c")
    case True
    let ?m = "ImportDecl True (specsOf d @ specsOf c)"
    have m: "mergeable ?m" by (rule mergeable_merged[OF Cons.prems True])
    from Cons.IH[OF m, of B] show ?thesis
      using mergeLoop_take[OF True, of A d B C] by (simp add: True)
  next
    case False
    from Cons.IH[OF Cons.prems, of "B @ [c]"] show ?thesis
      using mergeLoop_skip[OF False, of "A @ d # B" "Some (length A)" C] by (simp add: False)
  qed
qed

lemma mergeLoop_none:
  "list_all (\<lambda>c. \<not> mergeable c) A \<Longrightarrow>
     mergeLoop (length A) None (A @ C) = A @ C \<and> list_all (\<lambda>c. \<not> mergeable c) C
   \<or> (\<exists>B d d' D. A @ C = B @ d # D \<and> list_all (\<lambda>c. \<not> mergeable c) B \<and> mergeable d
        \<and> mergeLoop (length A) None (A @ C) = B @ d' # filter (\<lambda>c. \<not> mergeable c) D
        \<and> mergeable d' \<and> specsOf d' = specsOf d @ concat (map specsOf (filter mergeable D)))"
proof (induction C arbitrary: A)
  case Nil
  then show ?case using mergeLoop_end[of A] by simp
next
  case (Cons c C)
  show ?case
  proof (cases "mergeable c")
    case True
    have "mergeLoop (length A) None (A @ c # C) = mergeLoop (length (A @ c # [])) (Some (length A)) (A @ c # [] @ C)"
      using True by (subst mergeLoop.simps) (simp add: mergeable_def)
    with mergeLoop_some[OF True, of A "[]" C] Cons.prems True show ?thesis by auto
  next
    case False
    then have "list_all (\<lambda>c. \<not> mergeable c) (A @ [c])" using Cons.prems by simp
    from Cons.IH[OF this] False show ?thesis
      using mergeLoop_skip[OF False, of A None C] by simp
  qed
qed

text \<open>
  Merging leaves one import declaration with all specs in their order, at the place of the first, and
  every other declaration, those that import \<^verbatim>\<open>C\<close> among them, as it was. The loop, which takes elements
  out of the list that it walks, comes to its end.
\<close>

theorem mergeImports_merges:
  "length (filter mergeable (mergeImports ds)) = min 1 (length (filter mergeable ds))
   \<and> concat (map specsOf (filter mergeable (mergeImports ds))) = concat (map specsOf (filter mergeable ds))
   \<and> filter (\<lambda>d. \<not> mergeable d) (mergeImports ds) = filter (\<lambda>d. \<not> mergeable d) ds
   \<and> takeWhile (\<lambda>d. \<not> mergeable d) (mergeImports ds) = takeWhile (\<lambda>d. \<not> mergeable d) ds"
proof (cases "length ds \<le> 1")
  case True
  then have "length (filter mergeable ds) \<le> 1" using length_filter_le[of mergeable ds] by linarith
  with True show ?thesis by (simp add: mergeImports_def)
next
  case False
  have none: "filter mergeable xs = []" "filter (\<lambda>d. \<not> mergeable d) xs = xs"
    if "list_all (\<lambda>c. \<not> mergeable c) xs" for xs :: "'a godecl list"
    using that by (auto simp: list_all_iff filter_empty_conv)
  have r: "mergeImports ds = mergeLoop 0 None ds" using False by (simp add: mergeImports_def)
  from mergeLoop_none[of "[]" ds] consider
      "mergeLoop 0 None ds = ds" "list_all (\<lambda>c. \<not> mergeable c) ds"
    | B d d' D where "ds = B @ d # D" "list_all (\<lambda>c. \<not> mergeable c) B" "mergeable d" "mergeable d'"
      "mergeLoop 0 None ds = B @ d' # filter (\<lambda>c. \<not> mergeable c) D"
      "specsOf d' = specsOf d @ concat (map specsOf (filter mergeable D))"
    by auto
  then show ?thesis
  proof cases
    case 1
    then show ?thesis by (simp add: r none)
  next
    case 2
    then show ?thesis unfolding r by (simp add: none) (simp add: list_all_iff takeWhile_append2)
  qed
qed

section \<open>Relocated paths\<close>

text \<open>A component as a clean path has it.\<close>

definition isComp :: "string \<Rightarrow> bool" where
  "isComp c \<longleftrightarrow> c \<noteq> [] \<and> c \<noteq> ''.'' \<and> c \<noteq> ''..'' \<and> CHR ''/'' \<notin> set c"

lemma resolveFrom_comps: "list_all isComp ps \<Longrightarrow> resolveFrom dir ps = dir @ ps"
  by (induction ps arbitrary: dir) (auto simp: isComp_def)

lemma resolveFrom_up: "resolveFrom dir (replicate n ''..'' @ ps) = resolveFrom (take (length dir - n) dir) ps"
proof (induction n arbitrary: dir)
  case (Suc n)
  show ?case using Suc[of "butlast dir"] by (simp add: butlast_conv_take min_def)
qed simp

lemma resolveFrom_clean:
  "list_all isComp dir \<Longrightarrow> list_all (\<lambda>p. CHR ''/'' \<notin> set p) ps \<Longrightarrow> list_all isComp (resolveFrom dir ps)"
proof (induction ps arbitrary: dir)
  case (Cons p ps)
  have up: "list_all isComp (butlast dir)" using Cons.prems(1) by (auto simp: list_all_iff dest: in_set_butlastD)
  have rest: "list_all (\<lambda>p. CHR ''/'' \<notin> set p) ps" using Cons.prems(2) by simp
  have down: "list_all isComp (dir @ [p])" if "p \<noteq> []" "p \<noteq> ''.''" "p \<noteq> ''..''"
    using Cons.prems that by (simp add: isComp_def[of p])
  show ?case
    using Cons.IH[OF Cons.prems(1) rest] Cons.IH[OF up rest] Cons.IH[OF down rest] by simp
qed simp

lemma relPath_resolves:
  "list_all isComp targ \<Longrightarrow> resolveFrom (common @ base) (relPath base targ) = common @ targ"
proof (induction base targ arbitrary: common rule: relPath.induct)
  case (1 b base t targ)
  show ?case
  proof (cases "b = t")
    case True
    then show ?thesis using 1(1)[of "common @ [t]"] "1.prems" by simp
  next
    case False
    then have "resolveFrom (common @ b # base) (relPath (b # base) (t # targ)) = resolveFrom common (t # targ)"
      using resolveFrom_up[of "common @ b # base" "length (b # base)" "t # targ"] by (simp del: resolveFrom.simps replicate.simps)
    then show ?thesis using resolveFrom_comps[OF "1.prems", of common] by (simp del: resolveFrom.simps)
  qed
next
  case (2 targ)
  then show ?case by (simp add: resolveFrom_comps)
next
  case (3 b base)
  then show ?case using resolveFrom_up[of "common @ b # base" "length (b # base)" "[]"]
    by (simp del: replicate.simps)
qed

lemma set_relPath: "set (relPath base targ) \<subseteq> insert ''..'' (set targ)"
  by (induction base targ rule: relPath.induct) (auto split: if_splits)

lemma relPath_no_slash:
  assumes "list_all isComp targ"
  shows "list_all (\<lambda>p. CHR ''/'' \<notin> set p) (relPath base targ)"
proof -
  have "CHR ''/'' \<notin> set p" if "p \<in> set targ" for p
    using bspec[OF assms[unfolded list_all_iff] that] unfolding isComp_def by blast
  moreover have "CHR ''/'' \<notin> set ''..''" by simp
  ultimately have "\<forall>p \<in> insert ''..'' (set targ). CHR ''/'' \<notin> set p" by blast
  then show ?thesis using set_relPath[of base targ] unfolding list_all_iff by blast
qed

lemma splitOn_last: "CHR ''/'' \<notin> set p \<Longrightarrow> splitOn ''/'' cur p = [cur @ p]"
  by (induction p arbitrary: cur) (auto simp: hasPrefix_def)

lemma splitOn_next:
  "CHR ''/'' \<notin> set p \<Longrightarrow> splitOn ''/'' cur (p @ CHR ''/'' # s) = (cur @ p) # splitOn ''/'' [] s"
  by (induction p arbitrary: cur) (auto simp: hasPrefix_def)

lemmas splitOn_slash = splitOn_last splitOn_next

lemma split_join_slash:
  "ps \<noteq> [] \<Longrightarrow> list_all (\<lambda>p. CHR ''/'' \<notin> set p) ps \<Longrightarrow> splitOn ''/'' [] (joinWith ''/'' ps) = ps"
  by (induction "''/''" ps rule: joinWith.induct) (simp_all add: splitOn_slash)

lemma splitOn_no_slash: "CHR ''/'' \<notin> set cur \<Longrightarrow> list_all (\<lambda>p. CHR ''/'' \<notin> set p) (splitOn ''/'' cur s)"
proof (induction "''/''" cur s rule: splitOn.induct)
  case (2 cur c cs)
  then show ?case by (auto simp: hasPrefix_def)
qed simp

text \<open>
  The shape of a relative path: down to a directory below, or some steps up and then down.
\<close>

lemma relPath_shape:
  obtains (down) cs where "targ = base @ cs" "relPath base targ = cs"
  | (up) common b rest cs where "base = common @ b # rest" "targ = common @ cs" "cs = [] \<or> hd cs \<noteq> b"
      "relPath base targ = ''..'' # replicate (length rest) ''..'' @ cs"
proof (induction base targ arbitrary: thesis rule: relPath.induct)
  case (1 b base t targ)
  show ?case
  proof (cases "b = t")
    case True
    show ?thesis
    proof (rule "1.IH"[OF True])
      fix cs assume "targ = base @ cs" "relPath base targ = cs"
      with True show thesis by (intro "1.prems"(1)) auto
    next
      fix common x rest cs
      assume "base = common @ x # rest" "targ = common @ cs" "cs = [] \<or> hd cs \<noteq> x"
        "relPath base targ = ''..'' # replicate (length rest) ''..'' @ cs"
      with True show thesis by (intro "1.prems"(2)[of "b # common" x rest cs]) auto
    qed
  next
    case False
    then show ?thesis by (intro "1.prems"(2)[of "[]" b base "t # targ"]) auto
  qed
next
  case (2 targ)
  then show ?case by simp
next
  case (3 b base)
  show ?case by (rule "3.prems"(2)[of "[]" b base "[]"]) simp_all
qed

text \<open>
  What the code takes for a relative path, and the directory it leads to; and the directories that are
  not reached by one: the new directory itself, its parent, and those below it whose first component begins
  with a dot.
\<close>

definition isRelative :: "string \<Rightarrow> bool" where
  "isRelative p \<longleftrightarrow> hasPrefix p ''./'' \<or> hasPrefix p ''../''"

definition followPath :: "string list \<Rightarrow> string \<Rightarrow> string list" where
  "followPath dir p = resolveFrom dir (splitOn ''/'' [] p)"

definition prefixLost :: "string list \<Rightarrow> string list \<Rightarrow> bool" where
  "prefixLost dir target \<longleftrightarrow> target = dir \<or> (dir \<noteq> [] \<and> target = butlast dir)
     \<or> (\<exists>c cs. target = dir @ c # cs \<and> hd c = CHR ''.'')"

lemma joinWith_step: "joinWith d (p # ps) = p @ (if ps = [] then [] else d @ joinWith d ps)"
  by (cases ps) simp_all

lemma hidden_not_relative:
  assumes "isComp c" "hd c = CHR ''.''"
  shows "\<not> isRelative (c @ s)"
proof -
  obtain r where c: "c = CHR ''.'' # r" "r \<noteq> []" using assms by (cases c) (auto simp: isComp_def)
  then obtain x q where r: "r = x # q" by (cases r) auto
  have "x \<noteq> CHR ''/''" "\<not> (x = CHR ''.'' \<and> q = [])" "CHR ''/'' \<notin> set q"
    using assms(1) c(1) r by (auto simp: isComp_def)
  then show ?thesis by (cases q) (auto simp: isRelative_def hasPrefix_def c(1) r)
qed

lemma relative_iff:
  assumes "list_all isComp dir" "list_all isComp target"
  defines "rel \<equiv> relPath dir target"
  shows "isRelative (ensureStartsWithDotSlash (if rel = [] then ''.'' else joinWith ''/'' rel)) \<longleftrightarrow> \<not> prefixLost dir target"
proof (rule relPath_shape[of target dir])
  fix cs assume cs: "target = dir @ cs" "relPath dir target = cs"
  show ?thesis
  proof (cases cs)
    case Nil
    then show ?thesis using cs
      by (simp add: rel_def prefixLost_def isRelative_def ensureStartsWithDotSlash_def hasPrefix_def)
  next
    case (Cons c ds)
    have c: "isComp c" using assms(2) cs(1) Cons by simp
    then have ne: "c \<noteq> []" by (simp add: isComp_def)
    have up: "target \<noteq> butlast dir"
    proof
      assume "target = butlast dir"
      then have "length target \<le> length dir" by simp
      then show False using cs(1) Cons by simp
    qed
    have "\<not> isRelative (joinWith ''/'' (c # ds))" if "hd c = CHR ''.''"
      unfolding joinWith_step by (rule hidden_not_relative[OF c that])
    then show ?thesis using cs Cons up ne
      by (cases c) (auto simp: rel_def prefixLost_def isRelative_def ensureStartsWithDotSlash_def hasPrefix_def joinWith_step)
  qed
next
  fix common b rest cs
  assume u: "dir = common @ b # rest" "target = common @ cs" "cs = [] \<or> hd cs \<noteq> b"
    "relPath dir target = ''..'' # replicate (length rest) ''..'' @ cs"
  have below: "target \<noteq> dir @ ds" for ds using u(1-3) by (cases cs) auto
  have "target = butlast dir \<longleftrightarrow> rest = [] \<and> cs = []"
  proof (cases "rest = []")
    case False
    then have "butlast dir = common @ b # butlast rest" using u(1) by (simp add: butlast_append)
    then show ?thesis using False u(2,3) by (cases cs) auto
  qed (use u in \<open>simp add: butlast_append\<close>)
  then have "prefixLost dir target \<longleftrightarrow> rest = [] \<and> cs = []"
    using below[of "[]"] below u(1) by (auto simp: prefixLost_def)
  then show ?thesis using u(4)
    by (auto simp: rel_def isRelative_def ensureStartsWithDotSlash_def hasPrefix_def joinWith_step)
qed

text \<open>
  C37: A relative replacement of a \<^verbatim>\<open>go.mod\<close> file after the file was moved. The text that is written,
  followed from the new directory, leads to the directory that the old text led to from the old one. It is
  a relative path again, with the prefix \<^verbatim>\<open>./\<close> or \<^verbatim>\<open>../\<close> that \<^verbatim>\<open>ensureStartsWithDotSlash\<close> is to ensure,
  except for exactly three kinds of directories: the new directory itself (\<^verbatim>\<open>.\<close>), its parent (\<^verbatim>\<open>..\<close>), and
  those below it that begin with a hidden one (\<^verbatim>\<open>.hidden\<close>).
\<close>

theorem relocatePath_same_target:
  assumes "list_all isComp modDir" and "list_all isComp nextModDir"
    and "relocatePath modDir nextModDir newPath = Some p"
  shows "followPath nextModDir p = followPath modDir newPath
    \<and> (isRelative p \<longleftrightarrow> \<not> prefixLost nextModDir (followPath modDir newPath))"
proof -
  define target where "target = followPath modDir newPath"
  define rel where "rel = relPath nextModDir target"
  define q where "q = (if rel = [] then ''.'' else joinWith ''/'' rel)"
  have t: "list_all isComp target"
    unfolding target_def followPath_def by (rule resolveFrom_clean[OF assms(1)]) (simp add: splitOn_no_slash)
  have p: "p = ensureStartsWithDotSlash q"
    using assms(3) by (simp add: relocatePath_def followPath_def target_def rel_def q_def Let_def split: if_splits)
  have "splitOn ''/'' [] q = (if rel = [] then [''.''] else rel)"
    using split_join_slash[of rel] relPath_no_slash[OF t, of nextModDir] by (simp add: q_def rel_def hasPrefix_def)
  moreover have "splitOn ''/'' [] (''./'' @ q) = ''.'' # splitOn ''/'' [] q"
    using splitOn_slash(2)[of "''.''" "[]" q] by simp
  ultimately have "followPath nextModDir p = resolveFrom nextModDir rel"
    by (auto simp: p followPath_def ensureStartsWithDotSlash_def)
  also have "\<dots> = target" using relPath_resolves[OF t, of "[]" nextModDir] by (simp add: rel_def)
  finally have "followPath nextModDir p = target" .
  moreover have "isRelative p \<longleftrightarrow> \<not> prefixLost nextModDir target"
    using relative_iff[OF assms(2) t] unfolding p q_def rel_def .
  ultimately show ?thesis by (simp add: target_def)
qed

theorem relocatePath_same_target_witness:
  "relocatePath [''src'', ''mod''] [''next'', ''target-module''] ''../relative-module'' = Some ''../../src/relative-module''
   \<and> followPath [''next'', ''target-module''] ''../../src/relative-module'' = [''src'', ''relative-module'']"
proof -
  have r: "relocatePath [''src'', ''mod''] [''next'', ''target-module''] ''../relative-module'' = Some ''../../src/relative-module''"
    by (simp add: relocatePath_def hasPrefix_def ensureStartsWithDotSlash_def Let_def)
  have "list_all isComp [''src'', ''mod'']" "list_all isComp [''next'', ''target-module'']" by (simp_all add: isComp_def)
  from relocatePath_same_target[OF this r] r show ?thesis by (simp add: followPath_def hasPrefix_def)
qed

text \<open>
  A directory whose name begins with a dot gets no \<^verbatim>\<open>./\<close>, so that the path is not one of a directory any more;
  and a replacement by the parent directory itself is not adjusted.
\<close>

theorem relocatePath_hidden:
  "relocatePath [''m''] [''m''] ''./.hidden'' = Some ''.hidden'' \<and> relocatePath [''m''] [''n'', ''o''] ''..'' = None"
  by (simp add: relocatePath_def hasPrefix_def ensureStartsWithDotSlash_def)

section \<open>The factories of a plugin\<close>

lemma analyze_factories:
  "an_factories (fold analyzeOne pkgs a) = fold (\<lambda>p m. if pk_factory p then mapSet (pk_name p) p m else m) pkgs (an_factories a)"
  by (induction pkgs arbitrary: a) (simp_all add: analyzeOne_def Let_def BuildPackageName_def split: option.split)

lemma analyze_imports:
  "an_imports (fold analyzeOne pkgs a) = fold (\<lambda>p m. if pk_factory p \<and> map_of m (pk_path p) = None
     then mapSet (pk_path p) (Some (pk_name p)) m else m) pkgs (an_imports a)"
  by (induction pkgs arbitrary: a) (auto simp: analyzeOne_def Let_def split: option.split)

lemma fold_names:
  "distinct (map fst m) \<Longrightarrow> distinct (map fst (fold (\<lambda>p m. if pk_factory p then mapSet (pk_name p) p m else m) pkgs m))
   \<and> set (map fst (fold (\<lambda>p m. if pk_factory p then mapSet (pk_name p) p m else m) pkgs m))
     = set (map fst m) \<union> pk_name ` {p \<in> set pkgs. pk_factory p}"
proof (induction pkgs arbitrary: m)
  case (Cons p pkgs)
  have "set (map fst (mapSet (pk_name p) p m)) = insert (pk_name p) (set (map fst m))"
    unfolding mapSet_def by (simp add: dom_update)
  with Cons show ?case by auto
qed simp

lemma fold_paths:
  "map_of (fold (\<lambda>p m. if pk_factory p \<and> map_of m (pk_path p) = None then mapSet (pk_path p) (Some (pk_name p)) m else m) pkgs m) k
   = (case map_of m k of Some n \<Rightarrow> Some n
      | None \<Rightarrow> map_option (\<lambda>p. Some (pk_name p)) (find (\<lambda>p. pk_factory p \<and> pk_path p = k) pkgs))"
  by (induction pkgs arbitrary: m) (auto split: option.split)

text \<open>
  A plugin has the factories of its packages, each once: what \<^verbatim>\<open>BinaryFactories\<close> calls are the names of the
  packages that declare \<^verbatim>\<open>NewFactory\<close>, and if these names are distinct, as many as there are such packages.
  Each such package is imported under its name.
\<close>

theorem codegen_factories:
  assumes "AnalyzePackages (Inr pkgs) = Inr a"
  shows "distinct (codegenFactories a)"
    and "set (codegenFactories a) = set (map pk_name (filter pk_factory pkgs))"
    and "length (codegenFactories a) = card (set (map pk_name (filter pk_factory pkgs)))"
    and "list_all (\<lambda>p. pk_factory p \<and> distinct (map pk_path pkgs) \<and> map_of baseImports (pk_path p) = None
      \<longrightarrow> List.member (codegenImports a) (Some (pk_name p), pk_path p)) pkgs"
proof -
  let ?a0 = "\<lparr>an_packages = fold (\<lambda>p m. mapSet (pk_path p) p m) pkgs [], an_imports = baseImports,
    an_factories = [], an_modules = []\<rparr>"
  have a: "a = fold analyzeOne pkgs ?a0" using assms by (auto simp: AnalyzePackages_def Let_def split: if_splits)
  show d: "distinct (codegenFactories a)"
    and s: "set (codegenFactories a) = set (map pk_name (filter pk_factory pkgs))"
    using fold_names[of "[]" pkgs] by (auto simp: codegenFactories_def a analyze_factories)
  show "length (codegenFactories a) = card (set (map pk_name (filter pk_factory pkgs)))"
    using distinct_card[OF d] s by simp
  have "List.member (codegenImports a) (Some (pk_name p), pk_path p)"
    if p: "p \<in> set pkgs" "pk_factory p" "distinct (map pk_path pkgs)" "map_of baseImports (pk_path p) = None" for p
  proof -
    have "find (\<lambda>q. pk_factory q \<and> pk_path q = pk_path p) pkgs = Some p"
      using p(1-3) by (induction pkgs) (auto simp: image_iff)
    then have m: "map_of (an_imports a) (pk_path p) = Some (Some (pk_name p))"
      by (simp add: a analyze_imports fold_paths p(4))
    then have "pk_path p \<in> set (map fst (an_imports a))" by (metis map_of_eq_None_iff option.distinct(1) set_map)
    with m show ?thesis by (force simp: codegenImports_def)
  qed
  then show "list_all (\<lambda>p. pk_factory p \<and> distinct (map pk_path pkgs) \<and> map_of baseImports (pk_path p) = None
      \<longrightarrow> List.member (codegenImports a) (Some (pk_name p), pk_path p)) pkgs"
    by (simp add: list_all_iff)
qed

definition examplePkg :: "string \<Rightarrow> string \<Rightarrow> gopkg" where
  "examplePkg path name = \<lparr>pk_path = path, pk_name = name, pk_factory = True, pk_module = Some ''m'', pk_files = [path @ ''/f.go'']\<rparr>"

lemma example_analysis:
  "AnalyzePackages (Inr [examplePkg ''m/a'' ''a'', examplePkg ''m/b'' ''b'']) = Inr
    \<lparr>an_packages = [(''m/a'', examplePkg ''m/a'' ''a''), (''m/b'', examplePkg ''m/b'' ''b'')],
     an_imports = baseImports @ [(''m/a'', Some ''a''), (''m/b'', Some ''b'')],
     an_factories = [(''a'', examplePkg ''m/a'' ''a''), (''b'', examplePkg ''m/b'' ''b'')], an_modules = [''m'']\<rparr>"
  by (simp add: AnalyzePackages_def analyzeOne_def examplePkg_def baseImports_def mapSet_def BuildPackageName_def Let_def)

theorem codegen_factories_witness:
  "\<exists>a. AnalyzePackages (Inr [examplePkg ''m/a'' ''a'', examplePkg ''m/b'' ''b'']) = Inr a
     \<and> length (codegenFactories a) = 2 \<and> List.member (codegenImports a) (Some ''b'', ''m/b'')"
proof -
  let ?pkgs = "[examplePkg ''m/a'' ''a'', examplePkg ''m/b'' ''b'']"
  have "card (set (map pk_name (filter pk_factory ?pkgs))) = 2" by (simp add: examplePkg_def)
  with codegen_factories(3,4)[OF example_analysis] example_analysis show ?thesis
    by (simp add: examplePkg_def baseImports_def)
qed

text \<open>Of two packages with the same name only one factory is in the plugin.\<close>

theorem same_name_loses_factory:
  "map_sum id codegenFactories (AnalyzePackages (Inr [examplePkg ''m/v1/a'' ''a'', examplePkg ''m/v2/a'' ''a''])) = Inr [''a'']"
  by (simp add: AnalyzePackages_def analyzeOne_def examplePkg_def baseImports_def mapSet_def BuildPackageName_def Let_def
    codegenFactories_def)

section \<open>Divergences of the build\<close>

text \<open>
  The text compiled for the final output is the one that was compiled to find the hash: the declaration with
  the build identifier, which is to make it unique, is overwritten.
\<close>

theorem build_id_overwritten:
  assumes "CompilePluginFromFile W outFile = (None, o')" and "co_out o' = Some path"
  shows "\<exists>dat. ce_format W = Inr dat \<and> co_builds o' = [dat, dat] \<and> co_file o' = dat"
  using assms by (auto simp: CompilePluginFromFile_def orStop_def Let_def split: sum.splits option.splits if_splits)

text \<open>Without a build prefix given, the command fails, although it computes one.\<close>

theorem default_build_prefix_unused:
  "ca_buildPrefix a = [] \<Longrightarrow> isl (setupCompiler absPath buildUid a)"
  by (simp add: setupCompiler_def NewModuleCompiler_def Let_def split: option.split)

text \<open>When the second pass fails, the old versions are gone and nothing is in their place.\<close>

theorem old_version_lost:
  "\<exists>W e o'. compilePlugin W ''d'' ''p-{buildHash}.cbus.so'' ''v'' = (Some e, o')
     \<and> wo_removed o' = [''d/p-old.cbus.so''] \<and> wo_written o' = None"
proof -
  let ?W = "\<lparr>we_analyze = Inr \<lparr>an_packages = [], an_imports = [], an_factories = [], an_modules = []\<rparr>, we_mkdir = None,
    we_pass1 = None, we_hash = Inr ''0123456789abcdefgh'', we_exists = (\<lambda>_. False), we_entries = Inr [pluginFile ''p-old.cbus.so''],
    we_rm = (\<lambda>_. None), we_pass2 = (\<lambda>_ _. Some (GoErr ''build'')), we_copy = None, we_hasCb = False, we_cb = None\<rparr>"
  have "compilePlugin ?W ''d'' ''p-{buildHash}.cbus.so'' ''v''
      = (Some (GoErr ''build''), \<lparr>wo_removed = [''d/p-old.cbus.so''], wo_written = None, wo_called = False\<rparr>)"
    by code_simp
  then show ?thesis by (intro exI[of _ ?W]) auto
qed

text \<open>The filter for prefixes of import paths looks at their ends.\<close>

theorem prefix_filter_is_suffix:
  "map_sum id (\<lambda>a. (GetProgramCodeFiles [] ''m/'' a, map fst (GetProgramCodeFiles [] ''/a'' a)))
     (AnalyzePackages (Inr [examplePkg ''m/a'' ''a''])) = Inr ([], [''m/a''])"
  by (simp add: AnalyzePackages_def analyzeOne_def examplePkg_def baseImports_def mapSet_def BuildPackageName_def Let_def
    GetProgramCodeFiles_def hasSuffix_def)

end
