(* ===== verification/YamlTypes.thy ===== *)
theory YamlTypes
  imports Cb_Prelude
begin

text \<open>
  The types of the YAML package (\<^verbatim>\<open>yaml/yamlh.go\<close>): marks, styles, tokens, events, the states of the
  parser, and the parser's struct as far as the parser itself reads and writes it. A byte slice is a list of
  characters; a nil one is empty where the code does not tell them apart.
\<close>

section \<open>Encodings, errors, positions, styles\<close>

datatype yaml_encoding = ANY_ENCODING | UTF8_ENCODING | UTF16LE_ENCODING | UTF16BE_ENCODING

datatype yaml_error_type =
    NO_ERROR | MEMORY_ERROR | READER_ERROR | SCANNER_ERROR | PARSER_ERROR | COMPOSER_ERROR
  | WRITER_ERROR | EMITTER_ERROR

record yaml_mark =
  mk_index :: int
  mk_line :: int
  mk_column :: int

datatype yaml_scalar_style =
    ANY_SCALAR_STYLE | PLAIN_SCALAR_STYLE | SINGLE_QUOTED_SCALAR_STYLE | DOUBLE_QUOTED_SCALAR_STYLE
  | LITERAL_SCALAR_STYLE | FOLDED_SCALAR_STYLE

datatype yaml_sequence_style = ANY_SEQUENCE_STYLE | BLOCK_SEQUENCE_STYLE | FLOW_SEQUENCE_STYLE

datatype yaml_mapping_style = ANY_MAPPING_STYLE | BLOCK_MAPPING_STYLE | FLOW_MAPPING_STYLE

text \<open>
  \<^verbatim>\<open>yaml_style_t\<close>, the small integer to which the three kinds of styles are converted; \<^verbatim>\<open>ANY_STYLE\<close> is
  the value zero of an event that does not set it.
\<close>

datatype yaml_style =
    ANY_STYLE
  | ScalarStyle yaml_scalar_style
  | SequenceStyle yaml_sequence_style
  | MappingStyle yaml_mapping_style

section \<open>Tokens\<close>

datatype yaml_token_type =
    NO_TOKEN
  | STREAM_START_TOKEN | STREAM_END_TOKEN
  | VERSION_DIRECTIVE_TOKEN | TAG_DIRECTIVE_TOKEN | DOCUMENT_START_TOKEN | DOCUMENT_END_TOKEN
  | BLOCK_SEQUENCE_START_TOKEN | BLOCK_MAPPING_START_TOKEN | BLOCK_END_TOKEN
  | FLOW_SEQUENCE_START_TOKEN | FLOW_SEQUENCE_END_TOKEN | FLOW_MAPPING_START_TOKEN | FLOW_MAPPING_END_TOKEN
  | BLOCK_ENTRY_TOKEN | FLOW_ENTRY_TOKEN | KEY_TOKEN | VALUE_TOKEN
  | ALIAS_TOKEN | ANCHOR_TOKEN | TAG_TOKEN | SCALAR_TOKEN

record yaml_token =
  tk_typ :: yaml_token_type
  tk_start :: yaml_mark
  tk_end :: yaml_mark
  tk_encoding :: yaml_encoding
  tk_value :: string
  tk_suffix :: string
  tk_prefix :: string
  tk_style :: yaml_scalar_style
  tk_major :: int
  tk_minor :: int

section \<open>Events\<close>

datatype yaml_event_type =
    NO_EVENT
  | STREAM_START_EVENT | STREAM_END_EVENT | DOCUMENT_START_EVENT | DOCUMENT_END_EVENT
  | ALIAS_EVENT | SCALAR_EVENT | SEQUENCE_START_EVENT | SEQUENCE_END_EVENT
  | MAPPING_START_EVENT | MAPPING_END_EVENT | TAIL_COMMENT_EVENT

text \<open>\<^verbatim>\<open>yaml_event_type_t.String\<close>, by the table \<^verbatim>\<open>eventStrings\<close>.\<close>

fun event_String :: "yaml_event_type \<Rightarrow> string" where
  "event_String NO_EVENT = ''none''"
| "event_String STREAM_START_EVENT = ''stream start''"
| "event_String STREAM_END_EVENT = ''stream end''"
| "event_String DOCUMENT_START_EVENT = ''document start''"
| "event_String DOCUMENT_END_EVENT = ''document end''"
| "event_String ALIAS_EVENT = ''alias''"
| "event_String SCALAR_EVENT = ''scalar''"
| "event_String SEQUENCE_START_EVENT = ''sequence start''"
| "event_String SEQUENCE_END_EVENT = ''sequence end''"
| "event_String MAPPING_START_EVENT = ''mapping start''"
| "event_String MAPPING_END_EVENT = ''mapping end''"
| "event_String TAIL_COMMENT_EVENT = ''tail comment''"

type_synonym tag_directive = "string \<times> string"

record yaml_event =
  ye_typ :: yaml_event_type
  ye_start :: yaml_mark
  ye_end :: yaml_mark
  ye_encoding :: yaml_encoding
  ye_version :: "(int \<times> int) option"
  ye_tag_directives :: "tag_directive list"
  ye_head_comment :: string
  ye_line_comment :: string
  ye_foot_comment :: string
  ye_tail_comment :: string
  ye_anchor :: string
  ye_tag :: string
  ye_value :: string
  ye_implicit :: bool
  ye_quoted_implicit :: bool
  ye_style :: yaml_style

definition zero_mark :: yaml_mark where
  "zero_mark = \<lparr>mk_index = 0, mk_line = 0, mk_column = 0\<rparr>"

text \<open>\<^verbatim>\<open>yaml_event_t{}\<close>.\<close>

definition zero_event :: yaml_event where
  "zero_event = \<lparr>ye_typ = NO_EVENT, ye_start = zero_mark, ye_end = zero_mark, ye_encoding = ANY_ENCODING,
     ye_version = None, ye_tag_directives = [], ye_head_comment = [], ye_line_comment = [],
     ye_foot_comment = [], ye_tail_comment = [], ye_anchor = [], ye_tag = [], ye_value = [],
     ye_implicit = False, ye_quoted_implicit = False, ye_style = ANY_STYLE\<rparr>"

section \<open>The parser\<close>

datatype yaml_parser_state =
    PARSE_STREAM_START_STATE
  | PARSE_IMPLICIT_DOCUMENT_START_STATE
  | PARSE_DOCUMENT_START_STATE
  | PARSE_DOCUMENT_CONTENT_STATE
  | PARSE_DOCUMENT_END_STATE
  | PARSE_BLOCK_NODE_STATE
  | PARSE_BLOCK_NODE_OR_INDENTLESS_SEQUENCE_STATE
  | PARSE_FLOW_NODE_STATE
  | PARSE_BLOCK_SEQUENCE_FIRST_ENTRY_STATE
  | PARSE_BLOCK_SEQUENCE_ENTRY_STATE
  | PARSE_INDENTLESS_SEQUENCE_ENTRY_STATE
  | PARSE_BLOCK_MAPPING_FIRST_KEY_STATE
  | PARSE_BLOCK_MAPPING_KEY_STATE
  | PARSE_BLOCK_MAPPING_VALUE_STATE
  | PARSE_FLOW_SEQUENCE_FIRST_ENTRY_STATE
  | PARSE_FLOW_SEQUENCE_ENTRY_STATE
  | PARSE_FLOW_SEQUENCE_ENTRY_MAPPING_KEY_STATE
  | PARSE_FLOW_SEQUENCE_ENTRY_MAPPING_VALUE_STATE
  | PARSE_FLOW_SEQUENCE_ENTRY_MAPPING_END_STATE
  | PARSE_FLOW_MAPPING_FIRST_KEY_STATE
  | PARSE_FLOW_MAPPING_KEY_STATE
  | PARSE_FLOW_MAPPING_VALUE_STATE
  | PARSE_FLOW_MAPPING_EMPTY_VALUE_STATE
  | PARSE_END_STATE

record yaml_comment =
  cm_token_mark :: yaml_mark
  cm_head :: string
  cm_line :: string
  cm_foot :: string

text \<open>What a failing scan leaves in the error fields.\<close>

record scan_failure =
  sf_error :: yaml_error_type
  sf_context :: string
  sf_problem :: string
  sf_mark :: yaml_mark

text \<open>
  \<^verbatim>\<open>yaml_parser_t\<close>. The scanner, which fills the queue of tokens, is represented by what it delivers:
  \<open>yp_scan\<close> has the tokens that the parser will be given, each with the comments that were queued when
  the scanner was asked for it, and \<open>yp_failure\<close> is how it fails when it is asked for more.
  \<open>yp_available\<close> is the token at the head of the queue while \<^verbatim>\<open>token_available\<close> holds. The stacks
  \<^verbatim>\<open>states\<close> and \<^verbatim>\<open>marks\<close> have their tops first.
\<close>

record yaml_parser =
  yp_error :: yaml_error_type
  yp_problem :: string
  yp_problem_mark :: yaml_mark
  yp_context :: string
  yp_context_mark :: yaml_mark
  yp_head_comment :: string
  yp_line_comment :: string
  yp_foot_comment :: string
  yp_tail_comment :: string
  yp_stem_comment :: string
  yp_comments :: "yaml_comment list"
  yp_scan :: "(yaml_comment list \<times> yaml_token) list"
  yp_failure :: scan_failure
  yp_available :: "yaml_token option"
  yp_stream_end_produced :: bool
  yp_state :: yaml_parser_state
  yp_states :: "yaml_parser_state list"
  yp_marks :: "yaml_mark list"
  yp_tag_directives :: "tag_directive list"

text \<open>The parser as \<^verbatim>\<open>newEventParser\<close> makes it, before anything is scanned.\<close>

definition new_parser :: "scan_failure \<Rightarrow> (yaml_comment list \<times> yaml_token) list \<Rightarrow> yaml_parser" where
  "new_parser failure scan = \<lparr>yp_error = NO_ERROR, yp_problem = [], yp_problem_mark = zero_mark,
     yp_context = [], yp_context_mark = zero_mark, yp_head_comment = [], yp_line_comment = [],
     yp_foot_comment = [], yp_tail_comment = [], yp_stem_comment = [], yp_comments = [], yp_scan = scan,
     yp_failure = failure, yp_available = None, yp_stream_end_produced = False,
     yp_state = PARSE_STREAM_START_STATE, yp_states = [], yp_marks = [], yp_tag_directives = []\<rparr>"

end
