(* ===== verification/YamlScalar.thy ===== *)
theory YamlScalar
  imports Version "HOL-Library.List_Lexorder" "HOL-Library.Char_ord" YamlTypes
begin

text \<open>
  How the YAML package decides what a scalar is (\<^verbatim>\<open>yaml/yaml.go\<close>): the resolution of plain and tagged scalars,
  the text of a map key, and when a string has to be quoted so that it stays one.
\<close>

section \<open>Values\<close>

text \<open>
  What the package puts in an \<^verbatim>\<open>any\<close>. A slice may be nil, which \<^verbatim>\<open>json.Marshal\<close> tells from an empty one; an
  \<^verbatim>\<open>int64\<close> is an integer in its range; a map is the list of its entries in the order of its keys, each
  key once. Floating-point numbers are of a type of their own.
\<close>

datatype 'f gval =
    GNil
  | GBool bool
  | GInt int
  | GFloat 'f
  | GNumber string
  | GString string
  | GSlice "'f gval list option"
  | GMap "(string \<times> 'f gval) list"

text \<open>
  The functions of the standard library on floating-point numbers that are used: \<open>fl_parse\<close> is
  \<^verbatim>\<open>strconv.ParseFloat(s, 64)\<close> where it has no error, \<open>fl_finite\<close> that it is neither infinite nor NaN, \<open>fl_format\<close>
  is \<^verbatim>\<open>strconv.FormatFloat(f, 'g', -1, 64)\<close> and \<open>fl_json\<close> is how \<^verbatim>\<open>json.Marshal\<close> writes a finite one.
\<close>

record 'f floats =
  fl_parse :: "string \<Rightarrow> 'f option"
  fl_finite :: "'f \<Rightarrow> bool"
  fl_format :: "'f \<Rightarrow> string"
  fl_json :: "'f \<Rightarrow> string"

datatype yaml_fail =
    NonFinite string
  | CannotDecode string string
  | UnknownAlias string
  | UnexpectedEvent yaml_event_type
  | ExpectedEvent string yaml_event_type
  | ParseFailed
  | ParseProblem string string int int
  | UnsupportedValue
  | NotANumber string
  | EmitFailed
  | EmitProblem string
  | MultipleValues
  | DecodeFailed string

section \<open>Numbers of the standard library\<close>

abbreviation byte :: "char \<Rightarrow> nat" where
  "byte c \<equiv> of_char c"

definition lowerByte :: "char \<Rightarrow> char" where
  "lowerByte c = (if 65 \<le> byte c \<and> byte c \<le> 90 then char_of (byte c + 32) else c)"

text \<open>\<^verbatim>\<open>bytes.EqualFold\<close>, for a second argument all of whose letters fold to ASCII letters only.\<close>

definition EqualFold :: "string \<Rightarrow> string \<Rightarrow> bool" where
  "EqualFold a b \<longleftrightarrow> map lowerByte a = map lowerByte b"

definition digitValue :: "char \<Rightarrow> nat option" where
  "digitValue c =
     (let l = byte (lowerByte c) in
      if 48 \<le> byte c \<and> byte c \<le> 57 then Some (byte c - 48)
      else if 97 \<le> l \<and> l \<le> 122 then Some (l - 97 + 10)
      else None)"

fun parseDigits :: "nat \<Rightarrow> nat \<Rightarrow> string \<Rightarrow> nat option" where
  "parseDigits base n [] = Some n"
| "parseDigits base n (c # cs) = (case digitValue c of
     None \<Rightarrow> None
   | Some d \<Rightarrow> if d \<ge> base then None else parseDigits base (n * base + d) cs)"

text \<open>
  \<^verbatim>\<open>strconv.ParseUint(s, 0, 64)\<close> without its limit and for a string without underscores: the prefix says the
  base, and a zero at the front that is no prefix makes it 8.
\<close>

definition parseUnsigned0 :: "string \<Rightarrow> nat option" where
  "parseUnsigned0 s =
     (if s = [] then None
      else if hd s \<noteq> CHR ''0'' then parseDigits 10 0 s
      else if length s \<ge> 3 \<and> lowerByte (s ! 1) = CHR ''b'' then parseDigits 2 0 (drop 2 s)
      else if length s \<ge> 3 \<and> lowerByte (s ! 1) = CHR ''o'' then parseDigits 8 0 (drop 2 s)
      else if length s \<ge> 3 \<and> lowerByte (s ! 1) = CHR ''x'' then parseDigits 16 0 (drop 2 s)
      else parseDigits 8 0 (tl s))"

definition parseUnsigned10 :: "string \<Rightarrow> nat option" where
  "parseUnsigned10 s = (if s = [] then None else parseDigits 10 0 s)"

text \<open>\<^verbatim>\<open>strconv.ParseInt\<close> with one of the two ways to read the digits, where it has no error.\<close>

definition parseSigned :: "(string \<Rightarrow> nat option) \<Rightarrow> string \<Rightarrow> int option" where
  "parseSigned ofDigits s =
     (if s = [] then None
      else let neg = (hd s = CHR ''-'');
               digits = (if hd s = CHR ''+'' \<or> neg then tl s else s)
           in case ofDigits digits of
                None \<Rightarrow> None
              | Some n \<Rightarrow>
                  if \<not> neg \<and> int n \<ge> 2 ^ 63 \<or> neg \<and> int n > 2 ^ 63 then None
                  else Some (if neg then - int n else int n))"

definition ParseInt0 :: "string \<Rightarrow> int option" where
  "ParseInt0 = parseSigned parseUnsigned0"

definition ParseInt10 :: "string \<Rightarrow> int option" where
  "ParseInt10 = parseSigned parseUnsigned10"

definition FormatInt :: "int \<Rightarrow> string" where
  "FormatInt i = (if i < 0 then CHR ''-'' # showNat (nat (- i)) else showNat (nat i))"

section \<open>Plain scalars\<close>

definition nullScalar :: "string \<Rightarrow> bool" where
  "nullScalar dat \<longleftrightarrow> length dat = 0 \<or> dat = ''~'' \<or> EqualFold dat ''null''"

definition boolScalar :: "string \<Rightarrow> bool option" where
  "boolScalar dat =
     (if dat \<in> set [''y'', ''Y'', ''yes'', ''Yes'', ''YES'', ''true'', ''True'', ''TRUE'', ''on'', ''On'', ''ON''] then Some True
      else if dat \<in> set [''n'', ''N'', ''no'', ''No'', ''NO'', ''false'', ''False'', ''FALSE'', ''off'', ''Off'', ''OFF''] then Some False
      else None)"

definition cleanNumber :: "string \<Rightarrow> string" where
  "cleanNumber dat = filter (\<lambda>c. c \<noteq> CHR ''_'') dat"

definition intScalar :: "string \<Rightarrow> int option" where
  "intScalar dat = (let clean = cleanNumber dat in if clean = [] then None else ParseInt0 clean)"

definition nonFiniteFloat :: "string \<Rightarrow> bool" where
  "nonFiniteFloat dat \<longleftrightarrow> EqualFold dat ''.nan'' \<or> EqualFold dat ''.inf'' \<or> EqualFold dat ''+.inf'' \<or> EqualFold dat ''-.inf''"

definition floatLikeScalar :: "string \<Rightarrow> bool" where
  "floatLikeScalar dat \<longleftrightarrow> list_ex (\<lambda>c. c = CHR ''.'' \<or> c = CHR ''e'' \<or> c = CHR ''E'') dat"

definition integerScalar :: "string \<Rightarrow> bool" where
  "integerScalar dat =
     (if dat = [] then False
      else let digits = (if hd dat = CHR ''+'' \<or> hd dat = CHR ''-'' then tl dat else dat)
           in digits \<noteq> [] \<and> list_all (\<lambda>c. c = CHR ''_'' \<or> 48 \<le> byte c \<and> byte c \<le> 57) digits)"

text \<open>\<^verbatim>\<open>floatScalar\<close>; the float, or none, or the error.\<close>

definition floatScalar :: "'f floats \<Rightarrow> string \<Rightarrow> bool \<Rightarrow> yaml_fail + 'f option" where
  "floatScalar F dat allowInt =
     (if nonFiniteFloat dat then Inl (NonFinite dat)
      else if \<not> allowInt \<and> \<not> floatLikeScalar dat then Inr None
      else let clean = cleanNumber dat in
        if clean = [] then Inr None
        else case fl_parse F clean of
          None \<Rightarrow> Inr None
        | Some val \<Rightarrow> if \<not> fl_finite F val then Inl (NonFinite dat) else Inr (Some val))"

definition resolveFloat :: "'f floats \<Rightarrow> string \<Rightarrow> yaml_fail + 'f gval" where
  "resolveFloat F dat = (case floatScalar F dat False of
     Inl e \<Rightarrow> Inl e
   | Inr (Some val) \<Rightarrow> Inr (GFloat val)
   | Inr None \<Rightarrow> Inr (GString dat))"

definition resolvePlainScalar :: "'f floats \<Rightarrow> string \<Rightarrow> yaml_fail + 'f gval" where
  "resolvePlainScalar F dat =
     (if nullScalar dat then Inr GNil
      else case boolScalar dat of
        Some b \<Rightarrow> Inr (GBool b)
      | None \<Rightarrow> (case intScalar dat of
          Some i \<Rightarrow> Inr (GInt i)
        | None \<Rightarrow>
            if integerScalar dat then (case floatScalar F dat True of
                Inl e \<Rightarrow> Inl e
              | Inr (Some val) \<Rightarrow> Inr (GFloat val)
              | Inr None \<Rightarrow> resolveFloat F dat)
            else resolveFloat F dat))"

section \<open>Tagged scalars\<close>

definition longTagPrefix :: string where
  "longTagPrefix = ''tag:yaml.org,2002:''"

definition shortTag :: "string \<Rightarrow> string" where
  "shortTag tag =
     (if tag = [] then []
      else if take (length longTagPrefix) tag = longTagPrefix then ''!!'' @ drop (length longTagPrefix) tag
      else tag)"

definition scalarValue :: "'f floats \<Rightarrow> yaml_event \<Rightarrow> yaml_fail + 'f gval" where
  "scalarValue F ev =
     (let tag = shortTag (ye_tag ev); value = ye_value ev in
      if \<not> ye_implicit ev \<and> tag = [] then Inr (GString value)
      else if tag = ''!!str'' then Inr (GString value)
      else if tag = ''!!null'' then Inr GNil
      else if tag = ''!!bool'' then (case boolScalar value of
          Some b \<Rightarrow> Inr (GBool b)
        | None \<Rightarrow> Inl (CannotDecode value ''bool''))
      else if tag = ''!!int'' then (case intScalar value of
          Some i \<Rightarrow> Inr (GInt i)
        | None \<Rightarrow> Inl (CannotDecode value ''int''))
      else if tag = ''!!float'' then (case floatScalar F value True of
          Inl e \<Rightarrow> Inl e
        | Inr (Some f) \<Rightarrow> Inr (GFloat f)
        | Inr None \<Rightarrow> Inl (CannotDecode value ''float''))
      else if tag = [] \<and> ye_implicit ev then resolvePlainScalar F value
      else Inr (GString value))"

section \<open>JSON text\<close>

definition hexDigit :: "nat \<Rightarrow> char" where
  "hexDigit n = ''0123456789abcdef'' ! n"

text \<open>
  The length of the UTF-8 encoding of a character at the front of a string, as \<^verbatim>\<open>utf8.DecodeRuneInString\<close>
  accepts it, or zero: no overlong form, no surrogate, nothing above U+10FFFF.
\<close>

definition continuation :: "nat \<Rightarrow> bool" where
  "continuation b \<longleftrightarrow> 128 \<le> b \<and> b < 192"

definition runeLength :: "string \<Rightarrow> nat" where
  "runeLength s = (case map byte (take 4 s) of
     [] \<Rightarrow> 0
   | b # bs \<Rightarrow>
       if b < 128 then 1
       else if 194 \<le> b \<and> b < 224 \<and> length bs \<ge> 1 \<and> continuation (bs ! 0) then 2
       else if 224 \<le> b \<and> b < 240 \<and> length bs \<ge> 2 \<and> continuation (bs ! 0) \<and> continuation (bs ! 1)
         \<and> (b = 224 \<longrightarrow> bs ! 0 \<ge> 160) \<and> (b = 237 \<longrightarrow> bs ! 0 < 160) then 3
       else if 240 \<le> b \<and> b < 245 \<and> length bs \<ge> 3 \<and> continuation (bs ! 0) \<and> continuation (bs ! 1) \<and> continuation (bs ! 2)
         \<and> (b = 240 \<longrightarrow> bs ! 0 \<ge> 144) \<and> (b = 244 \<longrightarrow> bs ! 0 < 144) then 4
       else 0)"

text \<open>How \<^verbatim>\<open>json.Marshal\<close> writes a string, with the characters of HTML escaped.\<close>

definition jsonAscii :: "char \<Rightarrow> string" where
  "jsonAscii c =
     (let b = byte c in
      if c = CHR 34 \<or> c = CHR 92 then [CHR 92, c]
      else if b = 8 then [CHR 92, CHR ''b''] else if b = 12 then [CHR 92, CHR ''f'']
      else if b = 10 then [CHR 92, CHR ''n''] else if b = 13 then [CHR 92, CHR ''r'']
      else if b = 9 then [CHR 92, CHR ''t'']
      else if b < 32 \<or> c = CHR ''<'' \<or> c = CHR ''>'' \<or> c = CHR ''&''
        then CHR 92 # ''u00'' @ [hexDigit (b div 16), hexDigit (b mod 16)]
      else [c])"

function jsonEscape :: "string \<Rightarrow> string" where
  "jsonEscape s =
     (if s = [] then []
      else let n = runeLength s in
        if n = 0 then CHR 92 # ''ufffd'' @ jsonEscape (tl s)
        else if n = 1 then jsonAscii (hd s) @ jsonEscape (tl s)
        else if map byte (take 3 s) = [226, 128, 168] then CHR 92 # ''u2028'' @ jsonEscape (drop 3 s)
        else if map byte (take 3 s) = [226, 128, 169] then CHR 92 # ''u2029'' @ jsonEscape (drop 3 s)
        else take n s @ jsonEscape (drop n s))"
  by pat_completeness auto
termination by (relation "measure length") auto

declare jsonEscape.simps [simp del]

definition jsonString :: "string \<Rightarrow> string" where
  "jsonString s = [CHR 34] @ jsonEscape s @ [CHR 34]"

text \<open>\<^verbatim>\<open>json.Marshal\<close>\<close>

fun marshal :: "'f floats \<Rightarrow> 'f gval \<Rightarrow> string" where
  "marshal F GNil = ''null''"
| "marshal F (GBool b) = (if b then ''true'' else ''false'')"
| "marshal F (GInt i) = FormatInt i"
| "marshal F (GFloat f) = fl_json F f"
| "marshal F (GNumber n) = (if n = [] then ''0'' else n)"
| "marshal F (GString s) = jsonString s"
| "marshal F (GSlice None) = ''null''"
| "marshal F (GSlice (Some vs)) = ''['' @ joinWith '','' (map (marshal F) vs) @ '']''"
| "marshal F (GMap kvs) = ''{'' @ joinWith '','' (map (\<lambda>(k, v). jsonString k @ '':'' @ marshal F v) kvs) @ ''}''"

definition keyString :: "'f floats \<Rightarrow> 'f gval \<Rightarrow> string" where
  "keyString F val = (case val of
     GNil \<Rightarrow> ''null''
   | GString s \<Rightarrow> s
   | GBool b \<Rightarrow> (if b then ''true'' else ''false'')
   | GInt i \<Rightarrow> FormatInt i
   | GFloat f \<Rightarrow> fl_format F f
   | _ \<Rightarrow> marshal F val)"

section \<open>Strings that are written\<close>

definition stringScalarStyle :: "'f floats \<Rightarrow> string \<Rightarrow> yaml_scalar_style" where
  "stringScalarStyle F val =
     (if val = [] then DOUBLE_QUOTED_SCALAR_STYLE
      else case resolvePlainScalar F val of
        Inl _ \<Rightarrow> DOUBLE_QUOTED_SCALAR_STYLE
      | Inr (GString _) \<Rightarrow> PLAIN_SCALAR_STYLE
      | Inr _ \<Rightarrow> DOUBLE_QUOTED_SCALAR_STYLE)"

definition validateJSONNumber :: "'f floats \<Rightarrow> string \<Rightarrow> yaml_fail option" where
  "validateJSONNumber F num =
     (if integerScalar num \<and> ParseInt10 num \<noteq> None then None
      else case fl_parse F num of
        None \<Rightarrow> Some (NotANumber num)
      | Some val \<Rightarrow> if \<not> fl_finite F val then Some (NonFinite num) else None)"

section \<open>Strings and numbers that are read back\<close>

text \<open>A plain scalar that resolves to a string is that string.\<close>

lemma resolvePlainScalar_string: "resolvePlainScalar F dat = Inr (GString s) \<Longrightarrow> s = dat"
  by (auto simp: resolvePlainScalar_def resolveFloat_def split: if_splits option.splits sum.splits)

lemma resolvePlainScalar_empty [simp]: "resolvePlainScalar F [] = Inr GNil"
  by (simp add: resolvePlainScalar_def nullScalar_def)

lemma stringScalarStyle_PLAIN:
  "stringScalarStyle F val = PLAIN_SCALAR_STYLE \<longleftrightarrow> resolvePlainScalar F val = Inr (GString val)"
  by (auto simp: stringScalarStyle_def dest: resolvePlainScalar_string split: sum.splits gval.splits)

lemma stringScalarStyle_cases:
  "stringScalarStyle F val \<in> {PLAIN_SCALAR_STYLE, DOUBLE_QUOTED_SCALAR_STYLE}"
  by (auto simp: stringScalarStyle_def split: sum.splits gval.splits)

definition isDigit :: "char \<Rightarrow> bool" where
  "isDigit c \<longleftrightarrow> 48 \<le> byte c \<and> byte c \<le> 57"

lemma isDigit_neq:
  "isDigit c \<Longrightarrow> c \<noteq> CHR ''+'' \<and> c \<noteq> CHR ''-'' \<and> c \<noteq> CHR ''.'' \<and> c \<noteq> CHR ''_'' \<and> c \<noteq> CHR ''~''
    \<and> c \<noteq> CHR ''e'' \<and> c \<noteq> CHR ''E''"
  by (auto simp: isDigit_def)

lemma lowerByte_digit [simp]: "isDigit c \<Longrightarrow> lowerByte c = c"
  by (simp add: lowerByte_def isDigit_def)

lemma digitValue_digit: "isDigit c \<Longrightarrow> digitValue c = Some (byte c - 48)"
  by (simp add: digitValue_def isDigit_def)

lemma digit_less_ten: "isDigit c \<Longrightarrow> byte c - 48 < 10"
  by (auto simp: isDigit_def)

text \<open>A text that begins like a number is no null, no boolean and not one of the names of infinity.\<close>

fun numeric :: "string \<Rightarrow> bool" where
  "numeric [] = False"
| "numeric (c # cs) = (isDigit c \<or> c = CHR ''-'' \<and> cs \<noteq> [] \<and> isDigit (hd cs))"

lemma EqualFold_Cons [simp]: "EqualFold (c # cs) (d # ds) \<longleftrightarrow> lowerByte c = lowerByte d \<and> EqualFold cs ds"
  "EqualFold [] (d # ds) \<longleftrightarrow> False" "EqualFold (c # cs) [] \<longleftrightarrow> False" "EqualFold [] [] \<longleftrightarrow> True"
  by (simp_all add: EqualFold_def)

lemma numeric_not_special:
  assumes "numeric s"
  shows "\<not> nullScalar s" and "boolScalar s = None" and "\<not> nonFiniteFloat s"
proof -
  obtain c cs where s: "s = c # cs" using assms by (cases s) auto
  have c: "isDigit c \<or> c = CHR ''-''" using assms by (auto simp: s)
  then have "byte c = 45 \<or> 48 \<le> byte c \<and> byte c \<le> 57" by (auto simp: isDigit_def)
  then have ne: "c \<noteq> CHR ''~''" "lowerByte c \<noteq> CHR ''n''" "c \<noteq> CHR ''y''" "c \<noteq> CHR ''Y''" "c \<noteq> CHR ''t''" "c \<noteq> CHR ''T''"
    "c \<noteq> CHR ''o''" "c \<noteq> CHR ''O''" "c \<noteq> CHR ''n''" "c \<noteq> CHR ''N''" "c \<noteq> CHR ''f''" "c \<noteq> CHR ''F''"
    "lowerByte c \<noteq> CHR ''.''" "lowerByte c \<noteq> CHR ''+''"
    by (auto simp: lowerByte_def)
  have l: "lowerByte (CHR ''n'') = CHR ''n''" "lowerByte (CHR ''.'') = CHR ''.''" "lowerByte (CHR ''+'') = CHR ''+''"
    "lowerByte (CHR ''-'') = CHR ''-''"
    by (simp_all add: lowerByte_def)
  show "\<not> nullScalar s" using ne l by (simp add: nullScalar_def s)
  show "boolScalar s = None" using ne by (simp add: boolScalar_def s)
  have "\<not> EqualFold s ''-.inf''"
  proof (cases "isDigit c")
    case True
    then show ?thesis using isDigit_neq[of c] l by (simp add: s)
  next
    case False
    then obtain d ds where d: "cs = d # ds" "isDigit d" using assms by (cases cs) (simp_all add: s)
    then show ?thesis using isDigit_neq[of d] l by (simp add: s)
  qed
  then show "\<not> nonFiniteFloat s"
    using ne l by (simp add: nonFiniteFloat_def s)
qed

lemma parseDigits_digits:
  assumes "list_all isDigit ds"
  shows "parseDigits 10 n ds \<noteq> None"
  using assms by (induction ds arbitrary: n) (auto simp: digitValue_digit dest: digit_less_ten)

lemma parseDigits_stop:
  assumes "list_all isDigit ds" and "b \<le> 10" and "case digitValue c of None \<Rightarrow> True | Some d \<Rightarrow> 10 \<le> d"
  shows "parseDigits b n (ds @ c # rest) = None"
  using assms by (induction ds arbitrary: n) (auto simp: digitValue_digit split: option.splits)

lemma showNat_numeral: "list_all isDigit (showNat n)"
proof -
  have "isDigit (char_of (48 + d))" if "d < 10" for d :: nat
    using that by (auto simp: isDigit_def)
  then show ?thesis using showNat_digits[of _ n] by (fastforce simp: list_all_iff)
qed

lemma parseDigits_append:
  "parseDigits b n (s @ t) = Option.bind (parseDigits b n s) (\<lambda>m. parseDigits b m t)"
  by (induction s arbitrary: n) (auto split: option.splits)

lemma parseDigits_showNat: "parseDigits 10 0 (showNat n) = Some n"
proof (induction n rule: showNat.induct)
  case (1 n)
  have d: "digitValue (char_of (48 + d)) = Some d" if "d < 10" for d :: nat
    using that by (simp add: digitValue_def)
  show ?case
  proof (cases "n < 10")
    case True
    then show ?thesis using d[of n] by (subst showNat.simps) simp
  next
    case False
    then show ?thesis using 1 d[of "n mod 10"]
      by (subst showNat.simps) (simp add: parseDigits_append)
  qed
qed

lemma zero_digit_byte: "byte (CHR ''0'') = 48"
  by simp

lemma lowerByte_E: "lowerByte (CHR ''E'') = CHR ''e''"
  by (simp add: lowerByte_def) code_simp

lemma showNat_hd: "n > 0 \<Longrightarrow> hd (showNat n) \<noteq> CHR ''0''"
proof (induction n rule: showNat.induct)
  case (1 n)
  show ?case
  proof (cases "n < 10")
    case True
    have "byte (char_of (48 + n)) = 48 + n" using True by simp
    then have "char_of (48 + n) \<noteq> CHR ''0''" using 1 by (metis add.right_neutral add_left_cancel less_numeral_extra(3) zero_digit_byte)
    then show ?thesis using True by (subst showNat.simps) simp
  next
    case False
    then show ?thesis using 1 by (subst showNat.simps) simp
  qed
qed

text \<open>A decimal number without a superfluous zero means the same with the base found from its prefix.\<close>

definition plainDigits :: "string \<Rightarrow> bool" where
  "plainDigits ds \<longleftrightarrow> ds \<noteq> [] \<and> list_all isDigit ds \<and> (hd ds = CHR ''0'' \<longrightarrow> ds = ''0'')"

lemma parseUnsigned_plain: "plainDigits ds \<Longrightarrow> parseUnsigned0 ds = parseUnsigned10 ds"
  by (auto simp: plainDigits_def parseUnsigned0_def parseUnsigned10_def digitValue_def)

lemma plainDigits_showNat: "plainDigits (showNat n)"
proof (cases "n > 0")
  case True
  then show ?thesis using showNat_numeral showNat_hd by (simp add: plainDigits_def)
next
  case False
  then show ?thesis by (subst showNat.simps) (simp add: plainDigits_def isDigit_def showNat.simps[of 0])
qed

lemma plainDigits_hd: "plainDigits ds \<Longrightarrow> isDigit (hd ds)"
  by (cases ds) (auto simp: plainDigits_def)

lemma cleanNumber_id: "CHR ''_'' \<notin> set s \<Longrightarrow> cleanNumber s = s"
  by (auto simp: cleanNumber_def filter_id_conv)

lemma digits_clean: "list_all isDigit ds \<Longrightarrow> CHR ''_'' \<notin> set ds"
  using isDigit_neq by (auto simp: list_all_iff)

lemma parseSigned_signed:
  assumes "plainDigits ds" and "sg = [] \<or> sg = ''-''"
  shows "parseSigned parseUnsigned0 (sg @ ds) = parseSigned parseUnsigned10 (sg @ ds)"
  using assms isDigit_neq[OF plainDigits_hd[OF assms(1)]] parseUnsigned_plain[OF assms(1)]
  by (auto simp: parseSigned_def plainDigits_def)

lemma numeric_signed: "ds \<noteq> [] \<Longrightarrow> isDigit (hd ds) \<Longrightarrow> sg = [] \<or> sg = ''-'' \<Longrightarrow> numeric (sg @ ds @ rest)"
  by (cases ds) auto

lemma ParseInt10_FormatInt:
  assumes "- (2 ^ 63) \<le> i" and "i < 2 ^ 63"
  shows "ParseInt10 (FormatInt i) = Some i"
proof (cases "i < 0")
  case True
  then show ?thesis using assms parseDigits_showNat[of "nat (- i)"]
    by (simp add: ParseInt10_def parseSigned_def FormatInt_def parseUnsigned10_def nat_le_iff)
next
  case False
  have "hd (showNat (nat i)) \<noteq> CHR ''-'' \<and> hd (showNat (nat i)) \<noteq> CHR ''+''"
    using isDigit_neq[OF plainDigits_hd[OF plainDigits_showNat]] by auto
  then show ?thesis using assms False parseDigits_showNat[of "nat i"]
    by (simp add: ParseInt10_def parseSigned_def FormatInt_def parseUnsigned10_def nat_less_iff not_le)
qed

lemma resolve_integer:
  assumes "plainDigits ds" and "sg = [] \<or> sg = ''-''" and "ParseInt10 (sg @ ds) = Some i"
  shows "resolvePlainScalar F (sg @ ds) = Inr (GInt i)"
proof -
  have n: "numeric (sg @ ds)"
    using numeric_signed[OF _ plainDigits_hd[OF assms(1)] assms(2), of "[]"] assms(1) by (simp add: plainDigits_def)
  have "cleanNumber (sg @ ds) = sg @ ds"
    using assms(1,2) digits_clean by (intro cleanNumber_id) (auto simp: plainDigits_def)
  then have "intScalar (sg @ ds) = Some i"
    using assms(3) parseSigned_signed[OF assms(1,2)] assms(1) by (simp add: intScalar_def ParseInt0_def ParseInt10_def plainDigits_def)
  then show ?thesis using numeric_not_special[OF n] by (simp add: resolvePlainScalar_def)
qed

lemma resolve_FormatInt:
  assumes "- (2 ^ 63) \<le> i" and "i < 2 ^ 63"
  shows "resolvePlainScalar F (FormatInt i) = Inr (GInt i)"
proof -
  obtain sg ds where f: "FormatInt i = sg @ ds" "plainDigits ds" "sg = [] \<or> sg = ''-''"
    using plainDigits_showNat by (cases "i < 0") (auto simp: FormatInt_def intro: that[of "''-''"] that[of "[]"])
  then show ?thesis using resolve_integer[OF f(2,3), of i] ParseInt10_FormatInt[OF assms] by simp
qed

text \<open>The grammar of the numbers of JSON.\<close>

definition jsonNumber :: "string \<Rightarrow> bool" where
  "jsonNumber s \<longleftrightarrow> (\<exists>sg ds frac ex. s = sg @ ds @ frac @ ex \<and> (sg = [] \<or> sg = ''-'') \<and> plainDigits ds
     \<and> (frac = [] \<or> (\<exists>fs. frac = CHR ''.'' # fs \<and> fs \<noteq> [] \<and> list_all isDigit fs))
     \<and> (ex = [] \<or> (\<exists>e esg es. ex = e # esg @ es \<and> (e = CHR ''e'' \<or> e = CHR ''E'') \<and> esg \<in> {[], ''+'', ''-''}
          \<and> es \<noteq> [] \<and> list_all isDigit es)))"

text \<open>What a number of JSON is after it was written and read: an integer if it is one that fits, else a float.\<close>

definition numberValue :: "'f floats \<Rightarrow> string \<Rightarrow> 'f gval" where
  "numberValue F num = (case ParseInt10 num of Some i \<Rightarrow> GInt i | None \<Rightarrow> GFloat (the (fl_parse F num)))"

lemma parseSigned_stop:
  assumes "plainDigits ds" and "sg = [] \<or> sg = ''-''" and "c = CHR ''.'' \<or> c = CHR ''e'' \<or> c = CHR ''E''"
  shows "parseSigned parseUnsigned0 (sg @ ds @ c # rest) = None" and "parseSigned parseUnsigned10 (sg @ ds @ c # rest) = None"
proof -
  have c: "case digitValue c of None \<Rightarrow> True | Some d \<Rightarrow> 10 \<le> d"
    using assms(3) by (auto simp: digitValue_def lowerByte_def)
  obtain x xs where ds: "ds = x # xs" "isDigit x" using assms(1) by (cases ds) (auto simp: plainDigits_def)
  have x: "x \<noteq> CHR ''+''" "x \<noteq> CHR ''-''" using isDigit_neq[OF ds(2)] by auto
  have lc: "lowerByte c \<noteq> CHR ''b''" "lowerByte c \<noteq> CHR ''o''" "lowerByte c \<noteq> CHR ''x''"
    using assms(3) lowerByte_E by (auto simp: lowerByte_def)
  have u10: "parseUnsigned10 (ds @ c # rest) = None"
    using assms(1) parseDigits_stop[OF _ _ c, of ds 10] by (simp add: parseUnsigned10_def plainDigits_def)
  moreover have "parseUnsigned0 (ds @ c # rest) = None"
  proof (cases "x = CHR ''0''")
    case True
    then have "ds = ''0''" using assms(1) ds by (simp add: plainDigits_def)
    then show ?thesis using lc parseDigits_stop[OF _ _ c, of "[]" 8 0 rest] by (simp add: parseUnsigned0_def)
  next
    case False
    then show ?thesis using u10 ds by (simp add: parseUnsigned0_def parseUnsigned10_def)
  qed
  ultimately show "parseSigned parseUnsigned0 (sg @ ds @ c # rest) = None" and "parseSigned parseUnsigned10 (sg @ ds @ c # rest) = None"
    using assms(2) ds x by (auto simp: parseSigned_def)
qed

lemma jsonNumber_resolves:
  assumes "jsonNumber num" and "validateJSONNumber F num = None"
  shows "resolvePlainScalar F num = Inr (numberValue F num)"
proof -
  obtain sg ds frac ex where num: "num = sg @ ds @ frac @ ex" and sg: "sg = [] \<or> sg = ''-''" and ds: "plainDigits ds"
    and frac: "frac = [] \<or> (\<exists>fs. frac = CHR ''.'' # fs \<and> fs \<noteq> [] \<and> list_all isDigit fs)"
    and ex: "ex = [] \<or> (\<exists>e esg es. ex = e # esg @ es \<and> (e = CHR ''e'' \<or> e = CHR ''E'') \<and> esg \<in> {[], ''+'', ''-''}
          \<and> es \<noteq> [] \<and> list_all isDigit es)"
    using assms(1) unfolding jsonNumber_def by blast
  have n: "numeric num"
    using numeric_signed[OF _ plainDigits_hd[OF ds] sg, of "frac @ ex"] ds by (simp add: plainDigits_def num)
  note special = numeric_not_special[OF n]
  have clean: "cleanNumber num = num"
    using sg digits_clean[of ds] ds frac ex digits_clean
    by (intro cleanNumber_id) (auto simp: num plainDigits_def)
  show ?thesis
  proof (cases "frac @ ex = []")
    case True
    then have num': "num = sg @ ds" by (simp add: num)
    show ?thesis
    proof (cases "ParseInt10 num")
      case (Some i)
      then show ?thesis using resolve_integer[OF ds sg, of i] by (simp add: num' numberValue_def)
    next
      case None
      have i: "integerScalar num"
        using sg ds isDigit_neq[OF plainDigits_hd[OF ds]]
        by (auto simp: integerScalar_def num' plainDigits_def list_all_iff isDigit_def)
      obtain f where f: "fl_parse F num = Some f" "fl_finite F f"
        using assms(2) None by (auto simp: validateJSONNumber_def split: option.splits if_splits)
      have "intScalar num = None"
        using None parseSigned_signed[OF ds sg] by (simp add: intScalar_def clean[unfolded num'] ParseInt0_def ParseInt10_def num')
      moreover have "floatScalar F num True = Inr (Some f)"
        using special f n by (auto simp: floatScalar_def clean)
      ultimately show ?thesis using special i None f by (simp add: resolvePlainScalar_def numberValue_def)
    qed
  next
    case False
    then obtain c rest where c: "frac @ ex = c # rest" "c = CHR ''.'' \<or> c = CHR ''e'' \<or> c = CHR ''E''"
      using frac ex by (cases "frac @ ex") auto
    then have num': "num = sg @ ds @ c # rest" by (simp add: num)
    have none: "ParseInt10 num = None" "ParseInt0 num = None"
      using parseSigned_stop[OF ds sg c(2)] by (simp_all add: num' ParseInt10_def ParseInt0_def)
    have i: "\<not> integerScalar num"
      using sg ds c(2) isDigit_neq[OF plainDigits_hd[OF ds]] by (auto simp: integerScalar_def num' plainDigits_def)
    obtain f where f: "fl_parse F num = Some f" "fl_finite F f"
      using assms(2) none by (auto simp: validateJSONNumber_def split: option.splits if_splits)
    have "floatLikeScalar num" using c(2) by (auto simp: floatLikeScalar_def num')
    then have "floatScalar F num False = Inr (Some f)"
      using special f n by (auto simp: floatScalar_def clean)
    moreover have "intScalar num = None" by (simp add: intScalar_def clean none)
    ultimately show ?thesis using special i none f by (simp add: resolvePlainScalar_def resolveFloat_def numberValue_def)
  qed
qed

end
