(* ===== verification/YamlChars.thy ===== *)
theory YamlChars
  imports YamlScalar
begin

text \<open>
  Characters as the YAML package sees them (\<^verbatim>\<open>yaml/yamlprivateh.go\<close>): a character is the list of its bytes in
  UTF-8, its width is found from the first one, and the classes are tests of the bytes at a position.
\<close>

type_synonym ychar = string

text \<open>
  \<^verbatim>\<open>width\<close> of a first byte; a width of zero, of a byte that cannot begin a character, makes a loop over
  the characters of a string never end, or panic when it writes.
\<close>

definition width :: "char \<Rightarrow> nat" where
  "width b =
     (if byte b < 128 then 1
      else if 192 \<le> byte b \<and> byte b < 224 then 2
      else if 224 \<le> byte b \<and> byte b < 240 then 3
      else if 240 \<le> byte b \<and> byte b < 248 then 4
      else 0)"

text \<open>
  The characters of a string, or none if it does not consist of whole ones: then a loop over it does not end
  or an index is out of range.
\<close>

function chars :: "string \<Rightarrow> ychar list option" where
  "chars s =
     (if s = [] then Some []
      else let w = width (hd s) in
        if w = 0 \<or> length s < w then None else map_option ((#) (take w s)) (chars (drop w s)))"
  by pat_completeness auto
termination by (relation "measure length") auto

declare chars.simps [simp del]

text \<open>The byte at an index of a character, zero where there is none; the tests below do not look at those.\<close>

definition at :: "ychar \<Rightarrow> nat \<Rightarrow> nat" where
  "at c i = (if i < length c then byte (c ! i) else 0)"

definition is_alpha :: "char \<Rightarrow> bool" where
  "is_alpha b \<longleftrightarrow> 48 \<le> byte b \<and> byte b \<le> 57 \<or> 65 \<le> byte b \<and> byte b \<le> 90 \<or> 97 \<le> byte b \<and> byte b \<le> 122
     \<or> b = CHR ''_'' \<or> b = CHR ''-''"

definition is_digit :: "char \<Rightarrow> bool" where
  "is_digit b \<longleftrightarrow> 48 \<le> byte b \<and> byte b \<le> 57"

definition as_digit :: "char \<Rightarrow> nat" where
  "as_digit b = byte b - 48"

definition is_hex :: "char \<Rightarrow> bool" where
  "is_hex b \<longleftrightarrow> 48 \<le> byte b \<and> byte b \<le> 57 \<or> 65 \<le> byte b \<and> byte b \<le> 70 \<or> 97 \<le> byte b \<and> byte b \<le> 102"

definition as_hex :: "char \<Rightarrow> nat" where
  "as_hex b =
     (if 65 \<le> byte b \<and> byte b \<le> 70 then byte b - 65 + 10
      else if 97 \<le> byte b \<and> byte b \<le> 102 then byte b - 97 + 10
      else byte b - 48)"

definition is_ascii :: "ychar \<Rightarrow> bool" where
  "is_ascii c \<longleftrightarrow> at c 0 \<le> 127"

definition is_printable :: "ychar \<Rightarrow> bool" where
  "is_printable c \<longleftrightarrow>
     at c 0 = 10 \<or> 32 \<le> at c 0 \<and> at c 0 \<le> 126
   \<or> at c 0 = 194 \<and> at c 1 \<ge> 160
   \<or> at c 0 > 194 \<and> at c 0 < 237
   \<or> at c 0 = 237 \<and> at c 1 < 160
   \<or> at c 0 = 238
   \<or> at c 0 = 239 \<and> \<not> (at c 1 = 187 \<and> at c 2 = 191) \<and> \<not> (at c 1 = 191 \<and> (at c 2 = 190 \<or> at c 2 = 191))"

definition is_z :: "ychar \<Rightarrow> bool" where
  "is_z c \<longleftrightarrow> at c 0 = 0"

text \<open>\<^verbatim>\<open>is_bom\<close> looks at the first bytes of the buffer, whatever position it is asked about.\<close>

definition is_bom :: "ychar list \<Rightarrow> bool" where
  "is_bom cs \<longleftrightarrow> (case cs of [] \<Rightarrow> False | c # _ \<Rightarrow> at c 0 = 239 \<and> at c 1 = 187 \<and> at c 2 = 191)"

definition is_space :: "ychar \<Rightarrow> bool" where
  "is_space c \<longleftrightarrow> at c 0 = 32"

definition is_tab :: "ychar \<Rightarrow> bool" where
  "is_tab c \<longleftrightarrow> at c 0 = 9"

definition is_blank :: "ychar \<Rightarrow> bool" where
  "is_blank c \<longleftrightarrow> at c 0 = 32 \<or> at c 0 = 9"

definition is_break :: "ychar \<Rightarrow> bool" where
  "is_break c \<longleftrightarrow> at c 0 = 13 \<or> at c 0 = 10 \<or> at c 0 = 194 \<and> at c 1 = 133
     \<or> at c 0 = 226 \<and> at c 1 = 128 \<and> (at c 2 = 168 \<or> at c 2 = 169)"

definition is_blankz :: "ychar \<Rightarrow> bool" where
  "is_blankz c \<longleftrightarrow> is_blank c \<or> is_break c \<or> at c 0 = 0"

section \<open>Facts\<close>

lemma chars_Nil [simp]: "chars [] = Some []"
  by (simp add: chars.simps)

lemma chars_concat: "chars s = Some cs \<Longrightarrow> concat cs = s"
proof (induction s arbitrary: cs rule: chars.induct)
  case (1 s)
  show ?case
  proof (cases "s = []")
    case True
    then show ?thesis using "1.prems" by simp
  next
    case False
    then obtain ds where ds: "width (hd s) \<noteq> 0" "\<not> length s < width (hd s)" "chars (drop (width (hd s)) s) = Some ds"
      "cs = take (width (hd s)) s # ds"
      using "1.prems" by (subst (asm) chars.simps) (auto simp: Let_def split: if_splits)
    then show ?thesis using "1.IH"[OF False refl] by simp
  qed
qed

text \<open>A whole character.\<close>

definition ychar :: "ychar \<Rightarrow> bool" where
  "ychar c \<longleftrightarrow> c \<noteq> [] \<and> length c = width (hd c)"

lemma chars_ychar: "chars s = Some cs \<Longrightarrow> c \<in> set cs \<Longrightarrow> ychar c"
proof (induction s arbitrary: cs rule: chars.induct)
  case (1 s)
  show ?case
  proof (cases "s = []")
    case True
    then show ?thesis using "1.prems" by simp
  next
    case False
    then obtain ds where ds: "width (hd s) \<noteq> 0" "\<not> length s < width (hd s)" "chars (drop (width (hd s)) s) = Some ds"
      "cs = take (width (hd s)) s # ds"
      using "1.prems" by (subst (asm) chars.simps) (auto simp: Let_def split: if_splits)
    then show ?thesis using "1.IH"[OF False refl _ ds(3)] "1.prems"(2) False by (auto simp: ychar_def)
  qed
qed

lemma chars_append_char: "ychar c \<Longrightarrow> chars (c @ s) = map_option ((#) c) (chars s)"
  by (subst chars.simps) (auto simp: ychar_def Let_def)

lemma chars_of_ychars: "list_all ychar cs \<Longrightarrow> chars (concat cs) = Some cs"
  by (induction cs) (auto simp: chars_append_char)

lemma ychar_ascii [simp]: "byte b < 128 \<Longrightarrow> ychar [b]"
  by (simp add: ychar_def width_def)

lemma at_single [simp]: "at [b] 0 = byte b"
  by (simp add: at_def)

end
