(* ===== verification/YamlParser.thy ===== *)
theory YamlParser
  imports YamlTypes
begin

text \<open>
  The parser of the YAML package (\<^verbatim>\<open>yaml/parserc.go\<close>): a machine with a stack of states that makes events of
  tokens. The tokens are any list at all; what the scanner guarantees about them is not used.
\<close>

section \<open>Tokens\<close>

text \<open>
  \<^verbatim>\<open>yaml_parser_unfold_comments\<close>: the comments up to the token are joined to those of the parser. The
  loop stops at a head comment when the token ends a block.
\<close>

definition joinComment :: "string \<Rightarrow> string \<Rightarrow> string" where
  "joinComment old new = (if new = [] then old else if old = [] then new else old @ CHR 10 # new)"

fun unfoldComments :: "yaml_token \<Rightarrow> yaml_comment list \<Rightarrow> yaml_parser \<Rightarrow> yaml_parser" where
  "unfoldComments token [] parser = parser\<lparr>yp_comments := []\<rparr>"
| "unfoldComments token (c # cs) parser =
     (if mk_index (tk_start token) < mk_index (cm_token_mark c) \<or> cm_head c \<noteq> [] \<and> tk_typ token = BLOCK_END_TOKEN
      then parser\<lparr>yp_comments := c # cs\<rparr>
      else unfoldComments token cs (parser\<lparr>
             yp_head_comment := joinComment (yp_head_comment parser) (cm_head c),
             yp_foot_comment := joinComment (yp_foot_comment parser) (cm_foot c),
             yp_line_comment := joinComment (yp_line_comment parser) (cm_line c)\<rparr>))"

definition yaml_parser_unfold_comments :: "yaml_token \<Rightarrow> yaml_parser \<Rightarrow> yaml_parser" where
  "yaml_parser_unfold_comments token parser = unfoldComments token (yp_comments parser) parser"

text \<open>\<^verbatim>\<open>peek_token\<close>; no token means that the scanner failed, which has set the error.\<close>

definition peek_token :: "yaml_parser \<Rightarrow> yaml_token option \<times> yaml_parser" where
  "peek_token parser =
     (case yp_available parser of
        Some t \<Rightarrow> (Some t, yaml_parser_unfold_comments t parser)
      | None \<Rightarrow> (case yp_scan parser of
          [] \<Rightarrow> (None, parser\<lparr>yp_error := sf_error (yp_failure parser), yp_problem := sf_problem (yp_failure parser),
                  yp_problem_mark := sf_mark (yp_failure parser), yp_context := sf_context (yp_failure parser)\<rparr>)
        | (cs, t) # rest \<Rightarrow> (Some t, yaml_parser_unfold_comments t (parser\<lparr>yp_scan := rest,
            yp_comments := yp_comments parser @ cs, yp_available := Some t\<rparr>))))"

text \<open>\<^verbatim>\<open>skip_token\<close>, which is called with the token that was peeked.\<close>

definition skip_token :: "yaml_token \<Rightarrow> yaml_parser \<Rightarrow> yaml_parser" where
  "skip_token token parser =
     parser\<lparr>yp_available := None, yp_stream_end_produced := (tk_typ token = STREAM_END_TOKEN)\<rparr>"

section \<open>Results\<close>

text \<open>
  What a function that produces an event does: \<^term>\<open>None\<close> is a panic (an index out of the range of a stack, a
  nil token, a state that should not be), otherwise the event, or none if the function returns false, and
  the parser afterwards.
\<close>

type_synonym parse_result = "(yaml_event option \<times> yaml_parser) option"

text \<open>\<^verbatim>\<open>token := peek_token(parser); if token == nil { return false }\<close>\<close>

definition with_token :: "yaml_parser \<Rightarrow> (yaml_token \<Rightarrow> yaml_parser \<Rightarrow> parse_result) \<Rightarrow> parse_result" where
  "with_token parser f = (case peek_token parser of
     (None, parser) \<Rightarrow> Some (None, parser)
   | (Some token, parser) \<Rightarrow> f token parser)"

text \<open>\<^verbatim>\<open>parser.state = parser.states[len(parser.states)-1]\<close>, and the stack cut by one.\<close>

definition with_popped_state :: "yaml_parser \<Rightarrow> (yaml_parser \<Rightarrow> parse_result) \<Rightarrow> parse_result" where
  "with_popped_state parser f = (case yp_states parser of
     [] \<Rightarrow> None
   | s # ss \<Rightarrow> f (parser\<lparr>yp_state := s, yp_states := ss\<rparr>))"

definition with_popped_mark :: "yaml_parser \<Rightarrow> (yaml_mark \<Rightarrow> yaml_parser \<Rightarrow> parse_result) \<Rightarrow> parse_result" where
  "with_popped_mark parser f = (case yp_marks parser of
     [] \<Rightarrow> None
   | m # ms \<Rightarrow> f m (parser\<lparr>yp_marks := ms\<rparr>))"

definition push_state :: "yaml_parser_state \<Rightarrow> yaml_parser \<Rightarrow> yaml_parser" where
  "push_state s parser = parser\<lparr>yp_states := s # yp_states parser\<rparr>"

definition yaml_parser_set_parser_error :: "string \<Rightarrow> yaml_mark \<Rightarrow> yaml_parser \<Rightarrow> yaml_parser" where
  "yaml_parser_set_parser_error problem mark parser =
     parser\<lparr>yp_error := PARSER_ERROR, yp_problem := problem, yp_problem_mark := mark\<rparr>"

definition yaml_parser_set_parser_error_context ::
    "string \<Rightarrow> yaml_mark \<Rightarrow> string \<Rightarrow> yaml_mark \<Rightarrow> yaml_parser \<Rightarrow> yaml_parser" where
  "yaml_parser_set_parser_error_context ctx context_mark problem mark parser =
     parser\<lparr>yp_error := PARSER_ERROR, yp_context := ctx, yp_context_mark := context_mark,
       yp_problem := problem, yp_problem_mark := mark\<rparr>"

definition yaml_parser_set_event_comments :: "yaml_event \<Rightarrow> yaml_parser \<Rightarrow> yaml_event \<times> yaml_parser" where
  "yaml_parser_set_event_comments event parser =
     (event\<lparr>ye_head_comment := yp_head_comment parser, ye_line_comment := yp_line_comment parser,
        ye_foot_comment := yp_foot_comment parser\<rparr>,
      parser\<lparr>yp_head_comment := [], yp_line_comment := [], yp_foot_comment := [], yp_tail_comment := [],
        yp_stem_comment := []\<rparr>)"

text \<open>An event with the comments of the parser, after which the token is skipped.\<close>

definition commented_skip :: "yaml_event \<Rightarrow> yaml_token \<Rightarrow> yaml_parser \<Rightarrow> parse_result" where
  "commented_skip event token parser =
     (let (event, parser) = yaml_parser_set_event_comments event parser
      in Some (Some event, skip_token token parser))"

definition yaml_parser_process_empty_scalar :: "yaml_mark \<Rightarrow> yaml_parser \<Rightarrow> parse_result" where
  "yaml_parser_process_empty_scalar mark parser =
     Some (Some (zero_event\<lparr>ye_typ := SCALAR_EVENT, ye_start := mark, ye_end := mark, ye_implicit := True,
       ye_style := ScalarStyle PLAIN_SCALAR_STYLE\<rparr>), parser)"

section \<open>Directives\<close>

definition default_tag_directives :: "tag_directive list" where
  "default_tag_directives = [(''!'', ''!''), (''!!'', ''tag:yaml.org,2002:'')]"

definition yaml_parser_append_tag_directive ::
    "tag_directive \<Rightarrow> bool \<Rightarrow> yaml_mark \<Rightarrow> yaml_parser \<Rightarrow> bool \<times> yaml_parser" where
  "yaml_parser_append_tag_directive value allow_duplicates mark parser =
     (if list_ex (\<lambda>d. fst value = fst d) (yp_tag_directives parser) then
        if allow_duplicates then (True, parser)
        else (False, yaml_parser_set_parser_error ''found duplicate %TAG directive'' mark parser)
      else (True, parser\<lparr>yp_tag_directives := yp_tag_directives parser @ [value]\<rparr>))"

text \<open>The loop of \<^verbatim>\<open>yaml_parser_process_directives\<close> over the default directives, which never fails.\<close>

definition append_default_directives :: "yaml_mark \<Rightarrow> yaml_parser \<Rightarrow> yaml_parser" where
  "append_default_directives mark parser =
     fold (\<lambda>d p. snd (yaml_parser_append_tag_directive d True mark p)) default_tag_directives parser"

text \<open>
  \<^verbatim>\<open>yaml_parser_process_directives\<close>: the directives before a document, checked and collected one by one;
  the callers use the token that is peeked after them. Every round of the loop uses up a token of the
  scanner.
\<close>

type_synonym directives_result = "((int \<times> int) option \<times> tag_directive list) option \<times> yaml_parser"

definition tokens_left :: "yaml_parser \<Rightarrow> nat" where
  "tokens_left parser = length (yp_scan parser) + (if yp_available parser = None then 0 else 1)"

lemma unfoldComments_fields [simp]:
  "yp_scan (unfoldComments t cs p) = yp_scan p" "yp_available (unfoldComments t cs p) = yp_available p"
  "yp_error (unfoldComments t cs p) = yp_error p" "yp_state (unfoldComments t cs p) = yp_state p"
  "yp_states (unfoldComments t cs p) = yp_states p" "yp_marks (unfoldComments t cs p) = yp_marks p"
  "yp_tail_comment (unfoldComments t cs p) = yp_tail_comment p"
  "yp_stem_comment (unfoldComments t cs p) = yp_stem_comment p"
  "yp_failure (unfoldComments t cs p) = yp_failure p"
  "yp_tag_directives (unfoldComments t cs p) = yp_tag_directives p"
  "yp_stream_end_produced (unfoldComments t cs p) = yp_stream_end_produced p"
  by (induction t cs p rule: unfoldComments.induct) auto

lemma peek_token_Some:
  assumes "peek_token p = (Some t, q)"
  shows "yp_available q = Some t \<and> tokens_left q = tokens_left p \<and> yp_state q = yp_state p
    \<and> yp_states q = yp_states p \<and> yp_marks q = yp_marks p \<and> yp_tail_comment q = yp_tail_comment p
    \<and> yp_failure q = yp_failure p \<and> yp_error q = yp_error p \<and> tokens_left q \<noteq> 0
    \<and> yp_tag_directives q = yp_tag_directives p \<and> (yp_available p = None \<or> yp_available p = Some t)
    \<and> yp_stream_end_produced q = yp_stream_end_produced p"
  using assms by (auto simp: peek_token_def tokens_left_def yaml_parser_unfold_comments_def
    split: option.splits list.splits prod.splits)

function directivesLoop :: "(int \<times> int) option \<Rightarrow> tag_directive list \<Rightarrow> yaml_parser \<Rightarrow> directives_result" where
  "directivesLoop version tags parser =
     (case peek_token parser of
        (None, parser) \<Rightarrow> (None, parser)
      | (Some token, parser) \<Rightarrow>
          if tk_typ token = VERSION_DIRECTIVE_TOKEN then
            if version \<noteq> None
            then (None, yaml_parser_set_parser_error ''found duplicate %YAML directive'' (tk_start token) parser)
            else if tk_major token \<noteq> 1 \<or> tk_minor token \<noteq> 1
            then (None, yaml_parser_set_parser_error ''found incompatible YAML document'' (tk_start token) parser)
            else directivesLoop (Some (tk_major token, tk_minor token)) tags (skip_token token parser)
          else if tk_typ token = TAG_DIRECTIVE_TOKEN then
            (case yaml_parser_append_tag_directive (tk_value token, tk_prefix token) False (tk_start token) parser of
               (False, parser) \<Rightarrow> (None, parser)
             | (True, parser) \<Rightarrow> directivesLoop version (tags @ [(tk_value token, tk_prefix token)]) (skip_token token parser))
          else (Some (version, tags), append_default_directives (tk_start token) parser))"
  by pat_completeness auto
termination
proof (relation "measure (\<lambda>(_, _, p). tokens_left p)")
  show "wf (measure (\<lambda>(_ :: (int \<times> int) option, _ :: tag_directive list, p). tokens_left p))" by simp
qed (auto dest!: peek_token_Some[OF sym] simp: skip_token_def tokens_left_def yaml_parser_append_tag_directive_def
  split: if_splits)

declare directivesLoop.simps [simp del]

definition yaml_parser_process_directives :: "yaml_parser \<Rightarrow> directives_result" where
  "yaml_parser_process_directives parser = directivesLoop None [] parser"

section \<open>The stream and its documents\<close>

definition yaml_parser_parse_stream_start :: "yaml_parser \<Rightarrow> parse_result" where
  "yaml_parser_parse_stream_start parser = with_token parser (\<lambda>token parser.
     if tk_typ token \<noteq> STREAM_START_TOKEN
     then Some (None, yaml_parser_set_parser_error ''did not find expected <stream-start>'' (tk_start token) parser)
     else Some (Some (zero_event\<lparr>ye_typ := STREAM_START_EVENT, ye_start := tk_start token, ye_end := tk_end token,
            ye_encoding := tk_encoding token\<rparr>),
          skip_token token (parser\<lparr>yp_state := PARSE_IMPLICIT_DOCUMENT_START_STATE\<rparr>)))"

text \<open>
  The scan of the head comment backwards for an empty line: \<open>i\<close> counts down from the last index, and the
  result is the part for the document and the rest.
\<close>

fun splitHeadComment :: "nat \<Rightarrow> string \<Rightarrow> string \<times> string" where
  "splitHeadComment 0 h = ([], h)"
| "splitHeadComment (Suc i) h =
     (if h ! Suc i = CHR 10 \<and> Suc i = length h - 1 then (take (Suc i) h, drop (Suc (Suc i)) h)
      else if h ! Suc i = CHR 10 \<and> h ! i = CHR 10 then (take i h, drop (Suc (Suc i)) h)
      else splitHeadComment i h)"

text \<open>The loop over extra document end indicators.\<close>

function skipDocumentEnds :: "yaml_parser \<Rightarrow> yaml_token option \<times> yaml_parser" where
  "skipDocumentEnds parser =
     (case peek_token parser of
        (None, parser) \<Rightarrow> (None, parser)
      | (Some token, parser) \<Rightarrow>
          if tk_typ token = DOCUMENT_END_TOKEN then skipDocumentEnds (skip_token token parser)
          else (Some token, parser))"
  by pat_completeness auto
termination
  by (relation "measure tokens_left") (auto dest!: peek_token_Some[OF sym] simp: skip_token_def tokens_left_def split: if_splits)

declare skipDocumentEnds.simps [simp del]

definition implicit_document_start :: "yaml_token \<Rightarrow> yaml_parser \<Rightarrow> parse_result" where
  "implicit_document_start token parser =
     (case yaml_parser_process_directives parser of
        (None, parser) \<Rightarrow> Some (None, parser)
      | (Some _, parser) \<Rightarrow>
          let (head, rest) = splitHeadComment (length (yp_head_comment parser) - 1) (yp_head_comment parser)
          in Some (Some (zero_event\<lparr>ye_typ := DOCUMENT_START_EVENT, ye_start := tk_start token, ye_end := tk_end token,
                 ye_head_comment := head\<rparr>),
               (push_state PARSE_DOCUMENT_END_STATE parser)\<lparr>yp_state := PARSE_BLOCK_NODE_STATE, yp_head_comment := rest\<rparr>))"

definition explicit_document_start :: "yaml_token \<Rightarrow> yaml_parser \<Rightarrow> parse_result" where
  "explicit_document_start first parser =
     (case yaml_parser_process_directives parser of
        (None, parser) \<Rightarrow> Some (None, parser)
      | (Some (version, tags), parser) \<Rightarrow> with_token parser (\<lambda>token parser.
          if tk_typ token \<noteq> DOCUMENT_START_TOKEN
          then Some (None, yaml_parser_set_parser_error ''did not find expected <document start>'' (tk_start token) parser)
          else Some (Some (zero_event\<lparr>ye_typ := DOCUMENT_START_EVENT, ye_start := tk_start first,
                 ye_end := tk_end token, ye_version := version, ye_tag_directives := tags\<rparr>),
               skip_token token ((push_state PARSE_DOCUMENT_END_STATE parser)\<lparr>yp_state := PARSE_DOCUMENT_CONTENT_STATE\<rparr>))))"

definition yaml_parser_parse_document_start :: "bool \<Rightarrow> yaml_parser \<Rightarrow> parse_result" where
  "yaml_parser_parse_document_start implicit parser =
     (case (if implicit then peek_token parser else skipDocumentEnds parser) of
        (None, parser) \<Rightarrow> Some (None, parser)
      | (Some token, parser) \<Rightarrow>
          if implicit \<and> tk_typ token \<notin> {VERSION_DIRECTIVE_TOKEN, TAG_DIRECTIVE_TOKEN, DOCUMENT_START_TOKEN, STREAM_END_TOKEN}
          then implicit_document_start token parser
          else if tk_typ token \<noteq> STREAM_END_TOKEN then explicit_document_start token parser
          else Some (Some (zero_event\<lparr>ye_typ := STREAM_END_EVENT, ye_start := tk_start token, ye_end := tk_end token\<rparr>),
                 skip_token token (parser\<lparr>yp_state := PARSE_END_STATE\<rparr>)))"

definition yaml_parser_parse_document_end :: "yaml_parser \<Rightarrow> parse_result" where
  "yaml_parser_parse_document_end parser = with_token parser (\<lambda>token parser.
     let explicit = (tk_typ token = DOCUMENT_END_TOKEN);
         parser = (if explicit then skip_token token parser else parser);
         parser = parser\<lparr>yp_tag_directives := [], yp_state := PARSE_DOCUMENT_START_STATE\<rparr>;
         (event, parser) = yaml_parser_set_event_comments
           (zero_event\<lparr>ye_typ := DOCUMENT_END_EVENT, ye_start := tk_start token,
              ye_end := (if explicit then tk_end token else tk_start token), ye_implicit := \<not> explicit\<rparr>) parser;
         event = (if ye_head_comment event \<noteq> [] \<and> ye_foot_comment event = []
                  then event\<lparr>ye_foot_comment := ye_head_comment event, ye_head_comment := []\<rparr> else event)
     in Some (Some event, parser))"

section \<open>Nodes\<close>

record node_props =
  np_anchor :: string
  np_tag_token :: bool
  np_tag_handle :: string
  np_tag_suffix :: string
  np_tag_mark :: yaml_mark
  np_start :: yaml_mark
  np_end :: yaml_mark

definition with_tag :: "yaml_token \<Rightarrow> node_props \<Rightarrow> node_props" where
  "with_tag token np = np\<lparr>np_tag_token := True, np_tag_handle := tk_value token, np_tag_suffix := tk_suffix token,
     np_tag_mark := tk_start token, np_end := tk_end token\<rparr>"

definition with_anchor :: "yaml_token \<Rightarrow> node_props \<Rightarrow> node_props" where
  "with_anchor token np = np\<lparr>np_anchor := tk_value token, np_end := tk_end token\<rparr>"

text \<open>The properties of a node: an anchor, a tag, or both in one of the two orders.\<close>

definition with_properties ::
    "yaml_token \<Rightarrow> yaml_parser \<Rightarrow> (node_props \<Rightarrow> yaml_token \<Rightarrow> yaml_parser \<Rightarrow> parse_result) \<Rightarrow> parse_result" where
  "with_properties token parser f =
     (let np = \<lparr>np_anchor = [], np_tag_token = False, np_tag_handle = [], np_tag_suffix = [], np_tag_mark = zero_mark,
                np_start = tk_start token, np_end = tk_start token\<rparr> in
      if tk_typ token = ANCHOR_TOKEN then
        let np = with_anchor token np in with_token (skip_token token parser) (\<lambda>token parser.
          if tk_typ token = TAG_TOKEN
          then with_token (skip_token token parser) (f (with_tag token np))
          else f np token parser)
      else if tk_typ token = TAG_TOKEN then
        let np = with_tag token np in with_token (skip_token token parser) (\<lambda>token parser.
          if tk_typ token = ANCHOR_TOKEN
          then with_token (skip_token token parser) (f (with_anchor token np))
          else f np token parser)
      else f np token parser)"

text \<open>The tag of a node, or none if its handle is not defined.\<close>

definition resolve_tag :: "node_props \<Rightarrow> yaml_parser \<Rightarrow> string option" where
  "resolve_tag np parser =
     (if \<not> np_tag_token np then Some []
      else if np_tag_handle np = [] then Some (np_tag_suffix np)
      else let tag = (case find (\<lambda>d. fst d = np_tag_handle np) (yp_tag_directives parser) of
             None \<Rightarrow> [] | Some d \<Rightarrow> snd d @ np_tag_suffix np)
           in if tag = [] then None else Some tag)"

definition collection_event ::
    "yaml_event_type \<Rightarrow> yaml_style \<Rightarrow> node_props \<Rightarrow> string \<Rightarrow> yaml_token \<Rightarrow> yaml_event" where
  "collection_event typ style np tag token = zero_event\<lparr>ye_typ := typ, ye_start := np_start np, ye_end := tk_end token,
     ye_anchor := np_anchor np, ye_tag := tag, ye_implicit := (tag = []), ye_style := style\<rparr>"

text \<open>The start of a collection in a flow, whose token the next state skips.\<close>

definition flow_start :: "yaml_parser_state \<Rightarrow> yaml_event \<Rightarrow> yaml_parser \<Rightarrow> parse_result" where
  "flow_start state event parser =
     (let (event, parser) = yaml_parser_set_event_comments event (parser\<lparr>yp_state := state\<rparr>)
      in Some (Some event, parser))"

text \<open>The start of a block collection, which takes the comment that was put aside for it.\<close>

definition block_start :: "yaml_parser_state \<Rightarrow> yaml_event \<Rightarrow> yaml_parser \<Rightarrow> parse_result" where
  "block_start state event parser =
     (let parser = parser\<lparr>yp_state := state\<rparr> in
      if yp_stem_comment parser = [] then Some (Some event, parser)
      else Some (Some (event\<lparr>ye_head_comment := yp_stem_comment parser\<rparr>), parser\<lparr>yp_stem_comment := []\<rparr>))"

definition scalar_event :: "node_props \<Rightarrow> string \<Rightarrow> yaml_token \<Rightarrow> yaml_event" where
  "scalar_event np tag token =
     (let plain = (tag = [] \<and> tk_style token = PLAIN_SCALAR_STYLE \<or> tag = ''!'')
      in zero_event\<lparr>ye_typ := SCALAR_EVENT, ye_start := np_start np, ye_end := tk_end token, ye_anchor := np_anchor np,
           ye_tag := tag, ye_value := tk_value token, ye_implicit := plain, ye_quoted_implicit := (\<not> plain \<and> tag = []),
           ye_style := ScalarStyle (tk_style token)\<rparr>)"

definition node_content ::
    "bool \<Rightarrow> bool \<Rightarrow> node_props \<Rightarrow> yaml_token \<Rightarrow> yaml_parser \<Rightarrow> parse_result" where
  "node_content block indentless_sequence np token parser =
     (case resolve_tag np parser of
        None \<Rightarrow> Some (None, yaml_parser_set_parser_error_context ''while parsing a node'' (np_start np)
                  ''found undefined tag handle'' (np_tag_mark np) parser)
      | Some tag \<Rightarrow>
          if indentless_sequence \<and> tk_typ token = BLOCK_ENTRY_TOKEN then
            Some (Some (collection_event SEQUENCE_START_EVENT (SequenceStyle BLOCK_SEQUENCE_STYLE) np tag token),
              parser\<lparr>yp_state := PARSE_INDENTLESS_SEQUENCE_ENTRY_STATE\<rparr>)
          else if tk_typ token = SCALAR_TOKEN then
            with_popped_state parser (commented_skip (scalar_event np tag token) token)
          else if tk_typ token = FLOW_SEQUENCE_START_TOKEN then
            flow_start PARSE_FLOW_SEQUENCE_FIRST_ENTRY_STATE
              (collection_event SEQUENCE_START_EVENT (SequenceStyle FLOW_SEQUENCE_STYLE) np tag token) parser
          else if tk_typ token = FLOW_MAPPING_START_TOKEN then
            flow_start PARSE_FLOW_MAPPING_FIRST_KEY_STATE
              (collection_event MAPPING_START_EVENT (MappingStyle FLOW_MAPPING_STYLE) np tag token) parser
          else if block \<and> tk_typ token = BLOCK_SEQUENCE_START_TOKEN then
            block_start PARSE_BLOCK_SEQUENCE_FIRST_ENTRY_STATE
              (collection_event SEQUENCE_START_EVENT (SequenceStyle BLOCK_SEQUENCE_STYLE) np tag token) parser
          else if block \<and> tk_typ token = BLOCK_MAPPING_START_TOKEN then
            block_start PARSE_BLOCK_MAPPING_FIRST_KEY_STATE
              (collection_event MAPPING_START_EVENT (MappingStyle BLOCK_MAPPING_STYLE) np tag token) parser
          else if np_anchor np \<noteq> [] \<or> tag \<noteq> [] then
            with_popped_state parser (\<lambda>parser.
              Some (Some (zero_event\<lparr>ye_typ := SCALAR_EVENT, ye_start := np_start np, ye_end := np_end np,
                ye_anchor := np_anchor np, ye_tag := tag, ye_implicit := (tag = []),
                ye_style := ScalarStyle PLAIN_SCALAR_STYLE\<rparr>), parser))
          else Some (None, yaml_parser_set_parser_error_context
                 (if block then ''while parsing a block node'' else ''while parsing a flow node'') (np_start np)
                 ''did not find expected node content'' (tk_start token) parser))"

definition yaml_parser_parse_node :: "bool \<Rightarrow> bool \<Rightarrow> yaml_parser \<Rightarrow> parse_result" where
  "yaml_parser_parse_node block indentless_sequence parser = with_token parser (\<lambda>token parser.
     if tk_typ token = ALIAS_TOKEN then
       with_popped_state parser (commented_skip
         (zero_event\<lparr>ye_typ := ALIAS_EVENT, ye_start := tk_start token, ye_end := tk_end token, ye_anchor := tk_value token\<rparr>)
         token)
     else with_properties token parser (node_content block indentless_sequence))"

definition yaml_parser_parse_document_content :: "yaml_parser \<Rightarrow> parse_result" where
  "yaml_parser_parse_document_content parser = with_token parser (\<lambda>token parser.
     if tk_typ token \<in> {VERSION_DIRECTIVE_TOKEN, TAG_DIRECTIVE_TOKEN, DOCUMENT_START_TOKEN, DOCUMENT_END_TOKEN, STREAM_END_TOKEN}
     then with_popped_state parser (yaml_parser_process_empty_scalar (tk_start token))
     else yaml_parser_parse_node True False parser)"

section \<open>Block collections\<close>

text \<open>\<^verbatim>\<open>yaml_parser_split_stem_comment\<close>, which peeks at the next token unless there is nothing to split.\<close>

definition yaml_parser_split_stem_comment :: "nat \<Rightarrow> yaml_parser \<Rightarrow> yaml_parser" where
  "yaml_parser_split_stem_comment stem_len parser =
     (if stem_len = 0 then parser
      else case peek_token parser of
        (None, parser) \<Rightarrow> parser
      | (Some token, parser) \<Rightarrow>
          if tk_typ token \<noteq> BLOCK_SEQUENCE_START_TOKEN \<and> tk_typ token \<noteq> BLOCK_MAPPING_START_TOKEN then parser
          else parser\<lparr>yp_stem_comment := take stem_len (yp_head_comment parser),
                 yp_head_comment := (if length (yp_head_comment parser) = stem_len then []
                   else drop (Suc stem_len) (yp_head_comment parser))\<rparr>)"

text \<open>The token that opens a collection: its mark is pushed and it is skipped.\<close>

definition open_collection :: "bool \<Rightarrow> yaml_parser \<Rightarrow> (yaml_parser \<Rightarrow> parse_result) \<Rightarrow> parse_result" where
  "open_collection first parser f =
     (if first then with_token parser (\<lambda>token parser.
        f (skip_token token (parser\<lparr>yp_marks := tk_start token # yp_marks parser\<rparr>)))
      else f parser)"

text \<open>The token that closes a collection: its state and its mark are popped.\<close>

definition close_collection :: "yaml_parser \<Rightarrow> (yaml_parser \<Rightarrow> parse_result) \<Rightarrow> parse_result" where
  "close_collection parser f = with_popped_state parser (\<lambda>parser. with_popped_mark parser (\<lambda>_. f))"

definition collection_error :: "string \<Rightarrow> string \<Rightarrow> yaml_token \<Rightarrow> yaml_parser \<Rightarrow> parse_result" where
  "collection_error ctx problem token parser = with_popped_mark parser (\<lambda>mark parser.
     Some (None, yaml_parser_set_parser_error_context ctx mark problem (tk_start token) parser))"

definition end_event :: "yaml_event_type \<Rightarrow> yaml_token \<Rightarrow> yaml_event" where
  "end_event typ token = zero_event\<lparr>ye_typ := typ, ye_start := tk_start token, ye_end := tk_end token\<rparr>"

text \<open>
  An entry or a value that may be missing: if the next token is one of \<open>ends\<close> the node is an empty scalar at
  \<open>mark\<close> and the parser goes on in \<open>state\<close>, otherwise \<open>state\<close> is pushed and the node is parsed.
\<close>

definition node_or_empty ::
    "yaml_token_type set \<Rightarrow> yaml_parser_state \<Rightarrow> bool \<Rightarrow> bool \<Rightarrow> yaml_mark \<Rightarrow> yaml_token \<Rightarrow> yaml_parser \<Rightarrow> parse_result" where
  "node_or_empty ends state block indentless_sequence mark token parser =
     (if tk_typ token \<notin> ends then yaml_parser_parse_node block indentless_sequence (push_state state parser)
      else yaml_parser_process_empty_scalar mark (parser\<lparr>yp_state := state\<rparr>))"

definition block_entry ::
    "yaml_token_type set \<Rightarrow> yaml_parser_state \<Rightarrow> yaml_token \<Rightarrow> yaml_parser \<Rightarrow> parse_result" where
  "block_entry ends state token parser =
     (let mark = tk_end token;
          prior_head_len = length (yp_head_comment parser);
          parser = yaml_parser_split_stem_comment prior_head_len (skip_token token parser)
      in with_token parser (\<lambda>token. node_or_empty ends state True False mark token))"

definition yaml_parser_parse_block_sequence_entry :: "bool \<Rightarrow> yaml_parser \<Rightarrow> parse_result" where
  "yaml_parser_parse_block_sequence_entry first parser = open_collection first parser (\<lambda>parser.
     with_token parser (\<lambda>token parser.
       if tk_typ token = BLOCK_ENTRY_TOKEN then
         block_entry {BLOCK_ENTRY_TOKEN, BLOCK_END_TOKEN} PARSE_BLOCK_SEQUENCE_ENTRY_STATE token parser
       else if tk_typ token = BLOCK_END_TOKEN then
         close_collection parser (\<lambda>parser. Some (Some (end_event SEQUENCE_END_EVENT token), skip_token token parser))
       else collection_error ''while parsing a block collection'' ''did not find expected '-' indicator'' token parser))"

definition yaml_parser_parse_indentless_sequence_entry :: "yaml_parser \<Rightarrow> parse_result" where
  "yaml_parser_parse_indentless_sequence_entry parser = with_token parser (\<lambda>token parser.
     if tk_typ token = BLOCK_ENTRY_TOKEN then
       block_entry {BLOCK_ENTRY_TOKEN, KEY_TOKEN, VALUE_TOKEN, BLOCK_END_TOKEN} PARSE_INDENTLESS_SEQUENCE_ENTRY_STATE token parser
     else with_popped_state parser (\<lambda>parser.
       Some (Some ((end_event SEQUENCE_END_EVENT token)\<lparr>ye_end := tk_start token\<rparr>), parser)))"

definition yaml_parser_parse_block_mapping_key :: "bool \<Rightarrow> yaml_parser \<Rightarrow> parse_result" where
  "yaml_parser_parse_block_mapping_key first parser = open_collection first parser (\<lambda>parser.
     with_token parser (\<lambda>token parser.
       if yp_tail_comment parser \<noteq> [] then
         Some (Some ((end_event TAIL_COMMENT_EVENT token)\<lparr>ye_foot_comment := yp_tail_comment parser\<rparr>),
           parser\<lparr>yp_tail_comment := []\<rparr>)
       else if tk_typ token = KEY_TOKEN then
         with_token (skip_token token parser)
           (node_or_empty {KEY_TOKEN, VALUE_TOKEN, BLOCK_END_TOKEN} PARSE_BLOCK_MAPPING_VALUE_STATE True True (tk_end token))
       else if tk_typ token = BLOCK_END_TOKEN then
         close_collection parser (commented_skip (end_event MAPPING_END_EVENT token) token)
       else collection_error ''while parsing a block mapping'' ''did not find expected key'' token parser))"

definition yaml_parser_parse_block_mapping_value :: "yaml_parser \<Rightarrow> parse_result" where
  "yaml_parser_parse_block_mapping_value parser = with_token parser (\<lambda>token parser.
     if tk_typ token = VALUE_TOKEN then
       with_token (skip_token token parser)
         (node_or_empty {KEY_TOKEN, VALUE_TOKEN, BLOCK_END_TOKEN} PARSE_BLOCK_MAPPING_KEY_STATE True True (tk_end token))
     else yaml_parser_process_empty_scalar (tk_start token) (parser\<lparr>yp_state := PARSE_BLOCK_MAPPING_KEY_STATE\<rparr>))"

section \<open>Flow collections\<close>

text \<open>
  The separator between the entries of a flow collection, which the first entry does not have: \<open>f\<close> goes on
  with the token after it.
\<close>

definition flow_separator ::
    "bool \<Rightarrow> string \<Rightarrow> string \<Rightarrow> yaml_token \<Rightarrow> yaml_parser \<Rightarrow> (yaml_token \<Rightarrow> yaml_parser \<Rightarrow> parse_result) \<Rightarrow> parse_result" where
  "flow_separator first ctx problem token parser f =
     (if first then f token parser
      else if tk_typ token = FLOW_ENTRY_TOKEN then with_token (skip_token token parser) f
      else collection_error ctx problem token parser)"

definition flow_sequence_end :: "yaml_token \<Rightarrow> yaml_parser \<Rightarrow> parse_result" where
  "flow_sequence_end token parser = close_collection parser (commented_skip (end_event SEQUENCE_END_EVENT token) token)"

definition yaml_parser_parse_flow_sequence_entry :: "bool \<Rightarrow> yaml_parser \<Rightarrow> parse_result" where
  "yaml_parser_parse_flow_sequence_entry first parser = open_collection first parser (\<lambda>parser.
     with_token parser (\<lambda>token parser.
       if tk_typ token = FLOW_SEQUENCE_END_TOKEN then flow_sequence_end token parser
       else flow_separator first ''while parsing a flow sequence'' (''did not find expected ',' or ']'' @ [CHR 39]) token parser
         (\<lambda>token parser.
           if tk_typ token = KEY_TOKEN then
             Some (Some ((end_event MAPPING_START_EVENT token)\<lparr>ye_implicit := True, ye_style := MappingStyle FLOW_MAPPING_STYLE\<rparr>),
               skip_token token (parser\<lparr>yp_state := PARSE_FLOW_SEQUENCE_ENTRY_MAPPING_KEY_STATE\<rparr>))
           else if tk_typ token \<noteq> FLOW_SEQUENCE_END_TOKEN then
             yaml_parser_parse_node False False (push_state PARSE_FLOW_SEQUENCE_ENTRY_STATE parser)
           else flow_sequence_end token parser)))"

definition yaml_parser_parse_flow_sequence_entry_mapping_key :: "yaml_parser \<Rightarrow> parse_result" where
  "yaml_parser_parse_flow_sequence_entry_mapping_key parser = with_token parser (\<lambda>token parser.
     if tk_typ token \<notin> {VALUE_TOKEN, FLOW_ENTRY_TOKEN, FLOW_SEQUENCE_END_TOKEN}
     then yaml_parser_parse_node False False (push_state PARSE_FLOW_SEQUENCE_ENTRY_MAPPING_VALUE_STATE parser)
     else yaml_parser_process_empty_scalar (tk_end token)
       (skip_token token parser\<lparr>yp_state := PARSE_FLOW_SEQUENCE_ENTRY_MAPPING_VALUE_STATE\<rparr>))"

definition yaml_parser_parse_flow_sequence_entry_mapping_value :: "yaml_parser \<Rightarrow> parse_result" where
  "yaml_parser_parse_flow_sequence_entry_mapping_value parser = with_token parser (\<lambda>first parser.
     if tk_typ first = VALUE_TOKEN then
       with_token (skip_token first parser) (\<lambda>token.
         node_or_empty {FLOW_ENTRY_TOKEN, FLOW_SEQUENCE_END_TOKEN} PARSE_FLOW_SEQUENCE_ENTRY_MAPPING_END_STATE False False
           (tk_start first) token)
     else yaml_parser_process_empty_scalar (tk_start first)
       (parser\<lparr>yp_state := PARSE_FLOW_SEQUENCE_ENTRY_MAPPING_END_STATE\<rparr>))"

definition yaml_parser_parse_flow_sequence_entry_mapping_end :: "yaml_parser \<Rightarrow> parse_result" where
  "yaml_parser_parse_flow_sequence_entry_mapping_end parser = with_token parser (\<lambda>token parser.
     Some (Some ((end_event MAPPING_END_EVENT token)\<lparr>ye_end := tk_start token\<rparr>),
       parser\<lparr>yp_state := PARSE_FLOW_SEQUENCE_ENTRY_STATE\<rparr>))"

text \<open>In the first state of a flow mapping the token is used without a test for nil.\<close>

definition open_flow_mapping :: "bool \<Rightarrow> yaml_parser \<Rightarrow> (yaml_parser \<Rightarrow> parse_result) \<Rightarrow> parse_result" where
  "open_flow_mapping first parser f =
     (if first then (case peek_token parser of
        (None, parser) \<Rightarrow> None
      | (Some token, parser) \<Rightarrow> f (skip_token token (parser\<lparr>yp_marks := tk_start token # yp_marks parser\<rparr>)))
      else f parser)"

definition flow_mapping_end :: "yaml_token \<Rightarrow> yaml_parser \<Rightarrow> parse_result" where
  "flow_mapping_end token parser = close_collection parser (commented_skip (end_event MAPPING_END_EVENT token) token)"

definition yaml_parser_parse_flow_mapping_key :: "bool \<Rightarrow> yaml_parser \<Rightarrow> parse_result" where
  "yaml_parser_parse_flow_mapping_key first parser = open_flow_mapping first parser (\<lambda>parser.
     with_token parser (\<lambda>token parser.
       if tk_typ token = FLOW_MAPPING_END_TOKEN then flow_mapping_end token parser
       else flow_separator first ''while parsing a flow mapping'' (''did not find expected ',' or '}'' @ [CHR 39]) token parser
         (\<lambda>token parser.
           if tk_typ token = KEY_TOKEN then
             with_token (skip_token token parser) (\<lambda>token.
               node_or_empty {VALUE_TOKEN, FLOW_ENTRY_TOKEN, FLOW_MAPPING_END_TOKEN} PARSE_FLOW_MAPPING_VALUE_STATE False False
                 (tk_start token) token)
           else if tk_typ token \<noteq> FLOW_MAPPING_END_TOKEN then
             yaml_parser_parse_node False False (push_state PARSE_FLOW_MAPPING_EMPTY_VALUE_STATE parser)
           else flow_mapping_end token parser)))"

definition yaml_parser_parse_flow_mapping_value :: "bool \<Rightarrow> yaml_parser \<Rightarrow> parse_result" where
  "yaml_parser_parse_flow_mapping_value no_value parser = with_token parser (\<lambda>token parser.
     if no_value then yaml_parser_process_empty_scalar (tk_start token) (parser\<lparr>yp_state := PARSE_FLOW_MAPPING_KEY_STATE\<rparr>)
     else if tk_typ token = VALUE_TOKEN then
       with_token (skip_token token parser) (\<lambda>token.
         node_or_empty {FLOW_ENTRY_TOKEN, FLOW_MAPPING_END_TOKEN} PARSE_FLOW_MAPPING_KEY_STATE False False (tk_start token) token)
     else yaml_parser_process_empty_scalar (tk_start token) (parser\<lparr>yp_state := PARSE_FLOW_MAPPING_KEY_STATE\<rparr>))"

section \<open>The state machine\<close>

definition yaml_parser_state_machine :: "yaml_parser \<Rightarrow> parse_result" where
  "yaml_parser_state_machine parser = (case yp_state parser of
     PARSE_STREAM_START_STATE \<Rightarrow> yaml_parser_parse_stream_start parser
   | PARSE_IMPLICIT_DOCUMENT_START_STATE \<Rightarrow> yaml_parser_parse_document_start True parser
   | PARSE_DOCUMENT_START_STATE \<Rightarrow> yaml_parser_parse_document_start False parser
   | PARSE_DOCUMENT_CONTENT_STATE \<Rightarrow> yaml_parser_parse_document_content parser
   | PARSE_DOCUMENT_END_STATE \<Rightarrow> yaml_parser_parse_document_end parser
   | PARSE_BLOCK_NODE_STATE \<Rightarrow> yaml_parser_parse_node True False parser
   | PARSE_BLOCK_NODE_OR_INDENTLESS_SEQUENCE_STATE \<Rightarrow> yaml_parser_parse_node True True parser
   | PARSE_FLOW_NODE_STATE \<Rightarrow> yaml_parser_parse_node False False parser
   | PARSE_BLOCK_SEQUENCE_FIRST_ENTRY_STATE \<Rightarrow> yaml_parser_parse_block_sequence_entry True parser
   | PARSE_BLOCK_SEQUENCE_ENTRY_STATE \<Rightarrow> yaml_parser_parse_block_sequence_entry False parser
   | PARSE_INDENTLESS_SEQUENCE_ENTRY_STATE \<Rightarrow> yaml_parser_parse_indentless_sequence_entry parser
   | PARSE_BLOCK_MAPPING_FIRST_KEY_STATE \<Rightarrow> yaml_parser_parse_block_mapping_key True parser
   | PARSE_BLOCK_MAPPING_KEY_STATE \<Rightarrow> yaml_parser_parse_block_mapping_key False parser
   | PARSE_BLOCK_MAPPING_VALUE_STATE \<Rightarrow> yaml_parser_parse_block_mapping_value parser
   | PARSE_FLOW_SEQUENCE_FIRST_ENTRY_STATE \<Rightarrow> yaml_parser_parse_flow_sequence_entry True parser
   | PARSE_FLOW_SEQUENCE_ENTRY_STATE \<Rightarrow> yaml_parser_parse_flow_sequence_entry False parser
   | PARSE_FLOW_SEQUENCE_ENTRY_MAPPING_KEY_STATE \<Rightarrow> yaml_parser_parse_flow_sequence_entry_mapping_key parser
   | PARSE_FLOW_SEQUENCE_ENTRY_MAPPING_VALUE_STATE \<Rightarrow> yaml_parser_parse_flow_sequence_entry_mapping_value parser
   | PARSE_FLOW_SEQUENCE_ENTRY_MAPPING_END_STATE \<Rightarrow> yaml_parser_parse_flow_sequence_entry_mapping_end parser
   | PARSE_FLOW_MAPPING_FIRST_KEY_STATE \<Rightarrow> yaml_parser_parse_flow_mapping_key True parser
   | PARSE_FLOW_MAPPING_KEY_STATE \<Rightarrow> yaml_parser_parse_flow_mapping_key False parser
   | PARSE_FLOW_MAPPING_VALUE_STATE \<Rightarrow> yaml_parser_parse_flow_mapping_value False parser
   | PARSE_FLOW_MAPPING_EMPTY_VALUE_STATE \<Rightarrow> yaml_parser_parse_flow_mapping_value True parser
   | PARSE_END_STATE \<Rightarrow> None)"

text \<open>Whether there are no events any more, and the next event, which is then an empty one.\<close>

definition parser_finished :: "yaml_parser \<Rightarrow> bool" where
  "parser_finished parser \<longleftrightarrow>
     yp_stream_end_produced parser \<or> yp_error parser \<noteq> NO_ERROR \<or> yp_state parser = PARSE_END_STATE"

definition yaml_parser_parse :: "yaml_parser \<Rightarrow> parse_result" where
  "yaml_parser_parse parser =
     (if parser_finished parser then Some (Some zero_event, parser) else yaml_parser_state_machine parser)"

end
