(* ===== verification/YamlEmitter.thy ===== *)
theory YamlEmitter
  imports YamlChars YamlParser
begin

text \<open>
  The emitter of the YAML package (\<^verbatim>\<open>yaml/emitterc.go\<close>, \<^verbatim>\<open>yaml/writerc.go\<close>): a machine with a stack of states
  that makes text of events, and the analysis by which it chooses how a scalar is written.
\<close>

section \<open>The emitter\<close>

datatype yaml_break = ANY_BREAK | CR_BREAK | LN_BREAK | CRLN_BREAK

datatype yaml_emitter_state =
    EMIT_STREAM_START_STATE
  | EMIT_FIRST_DOCUMENT_START_STATE
  | EMIT_DOCUMENT_START_STATE
  | EMIT_DOCUMENT_CONTENT_STATE
  | EMIT_DOCUMENT_END_STATE
  | EMIT_FLOW_SEQUENCE_FIRST_ITEM_STATE
  | EMIT_FLOW_SEQUENCE_TRAIL_ITEM_STATE
  | EMIT_FLOW_SEQUENCE_ITEM_STATE
  | EMIT_FLOW_MAPPING_FIRST_KEY_STATE
  | EMIT_FLOW_MAPPING_TRAIL_KEY_STATE
  | EMIT_FLOW_MAPPING_KEY_STATE
  | EMIT_FLOW_MAPPING_SIMPLE_VALUE_STATE
  | EMIT_FLOW_MAPPING_VALUE_STATE
  | EMIT_BLOCK_SEQUENCE_FIRST_ITEM_STATE
  | EMIT_BLOCK_SEQUENCE_ITEM_STATE
  | EMIT_BLOCK_MAPPING_FIRST_KEY_STATE
  | EMIT_BLOCK_MAPPING_KEY_STATE
  | EMIT_BLOCK_MAPPING_SIMPLE_VALUE_STATE
  | EMIT_BLOCK_MAPPING_VALUE_STATE
  | EMIT_END_STATE

text \<open>\<^verbatim>\<open>scalar_data\<close>\<close>

record scalar_data =
  sd_value :: string
  sd_multiline :: bool
  sd_flow_plain_allowed :: bool
  sd_block_plain_allowed :: bool
  sd_single_quoted_allowed :: bool
  sd_block_allowed :: bool
  sd_style :: yaml_scalar_style

text \<open>
  \<^verbatim>\<open>yaml_emitter_t\<close>, without the fields that are never used here. \<open>em_buffer\<close> is the part of the buffer that
  is filled, \<open>em_output\<close> what the write handler was given; \<open>em_events\<close> is the queue of events from its head.
  The stacks have their tops first.
\<close>

record yaml_emitter =
  em_error :: yaml_error_type
  em_problem :: string
  em_output :: string
  em_buffer :: string
  em_encoding :: yaml_encoding
  em_canonical :: bool
  em_best_indent :: int
  em_best_width :: int
  em_unicode :: bool
  em_line_break :: yaml_break
  em_state :: yaml_emitter_state
  em_states :: "yaml_emitter_state list"
  em_events :: "yaml_event list"
  em_indents :: "int list"
  em_tag_directives :: "tag_directive list"
  em_indent :: int
  em_flow_level :: int
  em_root_context :: bool
  em_sequence_context :: bool
  em_mapping_context :: bool
  em_simple_key_context :: bool
  em_line :: int
  em_column :: int
  em_whitespace :: bool
  em_indention :: bool
  em_open_ended :: bool
  em_space_above :: bool
  em_foot_indent :: int
  em_anchor :: "string option"
  em_alias :: bool
  em_tag_handle :: string
  em_tag_suffix :: string
  em_scalar :: scalar_data
  em_head_comment :: string
  em_line_comment :: string
  em_foot_comment :: string
  em_tail_comment :: string
  em_key_line_comment :: string

text \<open>
  A function of the emitter: \<^term>\<open>None\<close> is a panic (or a loop without end over a string that is not UTF-8),
  otherwise whether it returns true, and the emitter afterwards. \<open>em_seq\<close> is the idiom
  \<^verbatim>\<open>if !f(emitter) { return false }\<close>, one after the other.
\<close>

type_synonym emit_fn = "yaml_emitter \<Rightarrow> (bool \<times> yaml_emitter) option"

definition em_ok :: emit_fn where
  "em_ok e = Some (True, e)"

definition em_then :: "emit_fn \<Rightarrow> emit_fn \<Rightarrow> emit_fn" where
  "em_then f g e = (case f e of
     None \<Rightarrow> None
   | Some (ok, e) \<Rightarrow> if ok then g e else Some (False, e))"

fun em_seq :: "emit_fn list \<Rightarrow> emit_fn" where
  "em_seq [] = em_ok"
| "em_seq (f # fs) = em_then f (em_seq fs)"

definition em_when :: "(yaml_emitter \<Rightarrow> bool) \<Rightarrow> emit_fn \<Rightarrow> emit_fn" where
  "em_when c f e = (if c e then f e else em_ok e)"

definition em_set :: "(yaml_emitter \<Rightarrow> yaml_emitter) \<Rightarrow> emit_fn" where
  "em_set u e = em_ok (u e)"

definition em_with :: "(yaml_emitter \<Rightarrow> emit_fn) \<Rightarrow> emit_fn" where
  "em_with f e = f e e"

definition em_panic :: emit_fn where
  "em_panic e = None"

definition yaml_emitter_set_emitter_error :: "string \<Rightarrow> emit_fn" where
  "yaml_emitter_set_emitter_error problem e = Some (False, e\<lparr>em_error := EMITTER_ERROR, em_problem := problem\<rparr>)"

section \<open>Writing\<close>

definition output_buffer_size :: nat where
  "output_buffer_size = 128"

text \<open>\<^verbatim>\<open>yaml_emitter_flush\<close> with the handler \<^verbatim>\<open>yamlOutputWriteHandler\<close>, which appends and never fails.\<close>

definition yaml_emitter_flush :: emit_fn where
  "yaml_emitter_flush = em_set (\<lambda>e. e\<lparr>em_output := em_output e @ em_buffer e, em_buffer := []\<rparr>)"

definition flush :: emit_fn where
  "flush = em_when (\<lambda>e. length (em_buffer e) + 5 \<ge> output_buffer_size) yaml_emitter_flush"

definition append_buffer :: "string \<Rightarrow> yaml_emitter \<Rightarrow> yaml_emitter" where
  "append_buffer s e = e\<lparr>em_buffer := em_buffer e @ s\<rparr>"

definition put :: "char \<Rightarrow> emit_fn" where
  "put b = em_seq [flush, em_set (\<lambda>e. (append_buffer [b] e)\<lparr>em_column := em_column e + 1\<rparr>)]"

definition new_line :: "yaml_emitter \<Rightarrow> yaml_emitter" where
  "new_line e = e\<lparr>em_space_above := (em_space_above e \<or> em_column e = 0), em_column := 0, em_line := em_line e + 1,
     em_indention := True\<rparr>"

definition put_break :: emit_fn where
  "put_break = em_seq [flush, em_with (\<lambda>e. case em_line_break e of
       CR_BREAK \<Rightarrow> em_set (append_buffer [CHR 13])
     | LN_BREAK \<Rightarrow> em_set (append_buffer [CHR 10])
     | CRLN_BREAK \<Rightarrow> em_set (append_buffer [CHR 13, CHR 10])
     | ANY_BREAK \<Rightarrow> em_panic), em_set new_line]"

text \<open>\<^verbatim>\<open>write\<close> of the character at an index of a string, which is advanced by its width.\<close>

definition write_char :: "ychar \<Rightarrow> emit_fn" where
  "write_char c = em_seq [flush, em_set (\<lambda>e. (append_buffer c e)\<lparr>em_column := em_column e + 1\<rparr>)]"

definition with_chars :: "string \<Rightarrow> (ychar list \<Rightarrow> emit_fn) \<Rightarrow> emit_fn" where
  "with_chars s f = (case chars s of None \<Rightarrow> em_panic | Some cs \<Rightarrow> f cs)"

definition write_all :: "string \<Rightarrow> emit_fn" where
  "write_all s = with_chars s (\<lambda>cs. em_seq (map write_char cs))"

definition write_break :: "ychar \<Rightarrow> emit_fn" where
  "write_break c = (if at c 0 = 10 then put_break else em_seq [write_char c, em_set new_line])"

fun pad_to :: "nat \<Rightarrow> emit_fn" where
  "pad_to 0 = em_ok"
| "pad_to (Suc n) = em_then (put (CHR '' '')) (pad_to n)"

definition yaml_emitter_write_indent :: emit_fn where
  "yaml_emitter_write_indent = em_with (\<lambda>e0.
     let indent = (if em_indent e0 < 0 then 0 else em_indent e0) in em_seq
     [em_when (\<lambda>e. \<not> em_indention e \<or> em_column e > indent \<or> em_column e = indent \<and> \<not> em_whitespace e) put_break,
      em_when (\<lambda>e. em_foot_indent e = indent) put_break,
      em_with (\<lambda>e. pad_to (nat (indent - em_column e))),
      em_set (\<lambda>e. e\<lparr>em_whitespace := True, em_space_above := False, em_foot_indent := -1\<rparr>)])"

definition write_space :: emit_fn where
  "write_space = em_when (\<lambda>e. \<not> em_whitespace e) (put (CHR '' ''))"

definition yaml_emitter_write_indicator :: "string \<Rightarrow> bool \<Rightarrow> bool \<Rightarrow> bool \<Rightarrow> emit_fn" where
  "yaml_emitter_write_indicator indicator need_whitespace is_whitespace is_indention = em_seq
     [em_when (\<lambda>_. need_whitespace) write_space, write_all indicator,
      em_set (\<lambda>e. e\<lparr>em_whitespace := is_whitespace, em_indention := (em_indention e \<and> is_indention), em_open_ended := False\<rparr>)]"

definition clear_white :: "yaml_emitter \<Rightarrow> yaml_emitter" where
  "clear_white e = e\<lparr>em_whitespace := False, em_indention := False\<rparr>"

definition yaml_emitter_write_bom :: emit_fn where
  "yaml_emitter_write_bom = em_seq [flush, em_set (append_buffer [char_of (239 :: nat), char_of (187 :: nat), char_of (191 :: nat)])]"

definition yaml_emitter_write_anchor :: "string \<Rightarrow> emit_fn" where
  "yaml_emitter_write_anchor value = em_seq [write_all value, em_set clear_white]"

definition yaml_emitter_write_tag_handle :: "string \<Rightarrow> emit_fn" where
  "yaml_emitter_write_tag_handle value = em_seq [write_space, write_all value, em_set clear_white]"

definition upperHex :: "nat \<Rightarrow> char" where
  "upperHex n = (if n < 10 then char_of (n + 48) else char_of (n + 55))"

definition percent_byte :: "char \<Rightarrow> emit_fn" where
  "percent_byte b = em_seq [put (CHR ''%''), put (upperHex (byte b div 16)), put (upperHex (byte b mod 16))]"

definition tag_content_char :: "ychar \<Rightarrow> emit_fn" where
  "tag_content_char c =
     (if hd c \<in> set '';/?:@&=+$,_.~*()[]'' \<or> at c 0 = 39 \<or> is_alpha (hd c) then write_char c
      else em_seq (map percent_byte c))"

definition yaml_emitter_write_tag_content :: "string \<Rightarrow> bool \<Rightarrow> emit_fn" where
  "yaml_emitter_write_tag_content value need_whitespace = em_seq
     [em_when (\<lambda>_. need_whitespace) write_space, with_chars value (\<lambda>cs. em_seq (map tag_content_char cs)), em_set clear_white]"

text \<open>\<^verbatim>\<open>is_space(value, i+1)\<close>: the index is out of range after the last character.\<close>

definition at_space :: "ychar list \<Rightarrow> (bool \<Rightarrow> emit_fn) \<Rightarrow> emit_fn" where
  "at_space cs f = (case cs of [] \<Rightarrow> em_panic | c # _ \<Rightarrow> f (is_space c))"

definition set_indention_off :: emit_fn where
  "set_indention_off = em_set (\<lambda>e. e\<lparr>em_indention := False\<rparr>)"

text \<open>A break in a plain or single-quoted scalar: the first of several line feeds is doubled.\<close>

definition fold_break :: "bool \<Rightarrow> ychar \<Rightarrow> emit_fn" where
  "fold_break breaks c = em_seq [em_when (\<lambda>_. \<not> breaks \<and> at c 0 = 10) put_break, write_break c]"

fun plainLoop :: "bool \<Rightarrow> bool \<Rightarrow> bool \<Rightarrow> ychar list \<Rightarrow> emit_fn" where
  "plainLoop allow_breaks spaces breaks [] = em_ok"
| "plainLoop allow_breaks spaces breaks (c # cs) =
     (if is_space c then em_then (em_with (\<lambda>e.
          if allow_breaks \<and> \<not> spaces \<and> em_column e > em_best_width e
          then at_space cs (\<lambda>sp. if \<not> sp then yaml_emitter_write_indent else write_char c)
          else write_char c)) (plainLoop allow_breaks True breaks cs)
      else if is_break c then em_then (fold_break breaks c) (plainLoop allow_breaks spaces True cs)
      else em_then (em_seq [em_when (\<lambda>_. breaks) yaml_emitter_write_indent, write_char c, set_indention_off])
        (plainLoop allow_breaks False False cs))"

definition yaml_emitter_write_plain_scalar :: "string \<Rightarrow> bool \<Rightarrow> emit_fn" where
  "yaml_emitter_write_plain_scalar value allow_breaks = em_seq
     [em_when (\<lambda>e. value \<noteq> []) write_space,
      with_chars value (plainLoop allow_breaks False False),
      em_set (\<lambda>e. e\<lparr>em_whitespace := (em_whitespace e \<and> value = []), em_indention := False,
        em_open_ended := (em_open_ended e \<or> em_root_context e)\<rparr>)]"

fun singleQuotedLoop :: "bool \<Rightarrow> bool \<Rightarrow> bool \<Rightarrow> bool \<Rightarrow> ychar list \<Rightarrow> emit_fn" where
  "singleQuotedLoop allow_breaks first spaces breaks [] = em_ok"
| "singleQuotedLoop allow_breaks first spaces breaks (c # cs) =
     (if is_space c then em_then (em_with (\<lambda>e.
          if allow_breaks \<and> \<not> spaces \<and> em_column e > em_best_width e \<and> \<not> first \<and> cs \<noteq> []
          then at_space cs (\<lambda>sp. if \<not> sp then yaml_emitter_write_indent else write_char c)
          else write_char c)) (singleQuotedLoop allow_breaks False True breaks cs)
      else if is_break c then em_then (fold_break breaks c) (singleQuotedLoop allow_breaks False spaces True cs)
      else em_then (em_seq [em_when (\<lambda>_. breaks) yaml_emitter_write_indent, em_when (\<lambda>_. at c 0 = 39) (put (CHR 39)), write_char c,
          set_indention_off]) (singleQuotedLoop allow_breaks False False False cs))"

definition yaml_emitter_write_single_quoted_scalar :: "string \<Rightarrow> bool \<Rightarrow> emit_fn" where
  "yaml_emitter_write_single_quoted_scalar value allow_breaks = em_seq
     [yaml_emitter_write_indicator [CHR 39] True False False,
      with_chars value (singleQuotedLoop allow_breaks True False False),
      yaml_emitter_write_indicator [CHR 39] False False False, em_set clear_white]"

section \<open>Double-quoted and block scalars, comments\<close>

text \<open>The code point of a character, by the bits of its bytes.\<close>

definition codePoint :: "ychar \<Rightarrow> nat" where
  "codePoint c = fold (\<lambda>b v. v * 64 + byte b mod 64) (tl c)
     (if length c = 1 then at c 0 mod 128 else if length c = 2 then at c 0 mod 32
      else if length c = 3 then at c 0 mod 16 else at c 0 mod 8)"

fun hexDigits :: "nat \<Rightarrow> nat \<Rightarrow> string" where
  "hexDigits 0 v = []"
| "hexDigits (Suc n) v = upperHex ((v div 16 ^ n) mod 16) # hexDigits n v"

text \<open>What follows the backslash.\<close>

definition escapeText :: "nat \<Rightarrow> string" where
  "escapeText v =
     (if v = 0 then ''0'' else if v = 7 then ''a'' else if v = 8 then ''b'' else if v = 9 then ''t''
      else if v = 10 then ''n'' else if v = 11 then ''v'' else if v = 12 then ''f'' else if v = 13 then ''r''
      else if v = 27 then ''e'' else if v = 34 then [CHR 34] else if v = 92 then [CHR 92]
      else if v = 133 then ''N'' else if v = 160 then ''_'' else if v = 8232 then ''L'' else if v = 8233 then ''P''
      else if v \<le> 255 then CHR ''x'' # hexDigits 2 v
      else if v \<le> 65535 then CHR ''u'' # hexDigits 4 v
      else CHR ''U'' # hexDigits 8 v)"

definition must_escape :: "bool \<Rightarrow> bool \<Rightarrow> ychar \<Rightarrow> bool" where
  "must_escape unicode bom c \<longleftrightarrow> \<not> is_printable c \<or> \<not> unicode \<and> \<not> is_ascii c \<or> bom \<or> is_break c
     \<or> at c 0 = 34 \<or> at c 0 = 92"

fun doubleQuotedLoop :: "bool \<Rightarrow> bool \<Rightarrow> bool \<Rightarrow> bool \<Rightarrow> ychar list \<Rightarrow> emit_fn" where
  "doubleQuotedLoop allow_breaks bom first spaces [] = em_ok"
| "doubleQuotedLoop allow_breaks bom first spaces (c # cs) = em_with (\<lambda>e.
     if must_escape (em_unicode e) bom c then
       em_then (em_seq (map put (CHR 92 # escapeText (codePoint c)))) (doubleQuotedLoop allow_breaks bom False False cs)
     else if is_space c then
       em_then (if allow_breaks \<and> \<not> spaces \<and> em_column e > em_best_width e \<and> \<not> first \<and> cs \<noteq> []
         then em_seq [yaml_emitter_write_indent, at_space cs (\<lambda>sp. em_when (\<lambda>_. sp) (put (CHR 92)))]
         else write_char c) (doubleQuotedLoop allow_breaks bom False True cs)
     else em_then (write_char c) (doubleQuotedLoop allow_breaks bom False False cs))"

definition yaml_emitter_write_double_quoted_scalar :: "string \<Rightarrow> bool \<Rightarrow> emit_fn" where
  "yaml_emitter_write_double_quoted_scalar value allow_breaks = em_seq
     [yaml_emitter_write_indicator [CHR 34] True False False,
      with_chars value (\<lambda>cs. doubleQuotedLoop allow_breaks (is_bom cs) True False cs),
      yaml_emitter_write_indicator [CHR 34] False False False, em_set clear_white]"

definition open_ended_if :: "bool \<Rightarrow> emit_fn" where
  "open_ended_if b = em_set (\<lambda>e. e\<lparr>em_open_ended := (em_open_ended e \<or> b)\<rparr>)"

definition yaml_emitter_write_block_scalar_hints :: "ychar list \<Rightarrow> emit_fn" where
  "yaml_emitter_write_block_scalar_hints cs = (case cs of
     [] \<Rightarrow> em_panic
   | c # _ \<Rightarrow> em_seq
       [em_when (\<lambda>_. is_space c \<or> is_break c)
          (em_with (\<lambda>e. yaml_emitter_write_indicator [char_of (48 + nat (em_best_indent e))] False False False)),
        em_set (\<lambda>e. e\<lparr>em_open_ended := False\<rparr>),
        (if \<not> is_break (last cs) then yaml_emitter_write_indicator ''-'' False False False
         else if length cs = 1 \<or> is_break (last (butlast cs))
         then em_seq [open_ended_if True, yaml_emitter_write_indicator ''+'' False False False]
         else em_ok)])"

text \<open>Comments.\<close>

fun commentLoop :: "bool \<Rightarrow> bool \<Rightarrow> ychar list \<Rightarrow> emit_fn" where
  "commentLoop breaks pound [] = em_when (\<lambda>_. \<not> breaks) put_break"
| "commentLoop breaks pound (c # cs) =
     (if is_break c then em_then (write_break c) (commentLoop True False cs)
      else em_then (em_seq [em_when (\<lambda>_. breaks) yaml_emitter_write_indent,
             em_when (\<lambda>_. \<not> pound \<and> hd c \<noteq> CHR ''#'') (em_seq [put (CHR ''#''), put (CHR '' '')]),
             write_char c, set_indention_off]) (commentLoop False True cs))"

definition yaml_emitter_write_comment :: "string \<Rightarrow> emit_fn" where
  "yaml_emitter_write_comment comment = em_seq
     [with_chars comment (commentLoop False False), em_set (\<lambda>e. e\<lparr>em_whitespace := True\<rparr>)]"

definition set_foot_indent :: "yaml_emitter \<Rightarrow> yaml_emitter" where
  "set_foot_indent e = e\<lparr>em_foot_indent := (if em_indent e < 0 then 0 else em_indent e)\<rparr>"

definition yaml_emitter_process_head_comment :: emit_fn where
  "yaml_emitter_process_head_comment = em_seq
     [em_when (\<lambda>e. em_tail_comment e \<noteq> []) (em_seq
        [yaml_emitter_write_indent, em_with (\<lambda>e. yaml_emitter_write_comment (em_tail_comment e)),
         em_set (\<lambda>e. set_foot_indent (e\<lparr>em_tail_comment := []\<rparr>))]),
      em_when (\<lambda>e. em_head_comment e \<noteq> []) (em_seq
        [yaml_emitter_write_indent, em_with (\<lambda>e. yaml_emitter_write_comment (em_head_comment e)),
         em_set (\<lambda>e. e\<lparr>em_head_comment := []\<rparr>)])]"

definition yaml_emitter_process_line_comment :: emit_fn where
  "yaml_emitter_process_line_comment = em_when (\<lambda>e. em_line_comment e \<noteq> []) (em_seq
     [write_space, em_with (\<lambda>e. yaml_emitter_write_comment (em_line_comment e)),
      em_set (\<lambda>e. e\<lparr>em_line_comment := []\<rparr>)])"

definition yaml_emitter_process_foot_comment :: emit_fn where
  "yaml_emitter_process_foot_comment = em_when (\<lambda>e. em_foot_comment e \<noteq> []) (em_seq
     [yaml_emitter_write_indent, em_with (\<lambda>e. yaml_emitter_write_comment (em_foot_comment e)),
      em_set (\<lambda>e. set_foot_indent (e\<lparr>em_foot_comment := []\<rparr>))])"

fun literalLoop :: "bool \<Rightarrow> ychar list \<Rightarrow> emit_fn" where
  "literalLoop breaks [] = em_ok"
| "literalLoop breaks (c # cs) =
     (if is_break c then em_then (write_break c) (literalLoop True cs)
      else em_then (em_seq [em_when (\<lambda>_. breaks) yaml_emitter_write_indent, write_char c, set_indention_off])
        (literalLoop False cs))"

text \<open>A block scalar: its indicator, the hints, the comment of its line, and the lines.\<close>

definition block_scalar :: "string \<Rightarrow> string \<Rightarrow> (ychar list \<Rightarrow> emit_fn) \<Rightarrow> emit_fn" where
  "block_scalar indicator value loop = with_chars value (\<lambda>cs. em_seq
     [yaml_emitter_write_indicator indicator True False False, yaml_emitter_write_block_scalar_hints cs,
      yaml_emitter_process_line_comment, em_set (\<lambda>e. e\<lparr>em_whitespace := True\<rparr>), loop cs])"

definition yaml_emitter_write_literal_scalar :: "string \<Rightarrow> emit_fn" where
  "yaml_emitter_write_literal_scalar value = block_scalar ''|'' value (literalLoop True)"

text \<open>The test at a break looks for the first character of the whole value that is no break.\<close>

definition folded_break :: "ychar list \<Rightarrow> emit_fn" where
  "folded_break all = (case dropWhile is_break all of
     [] \<Rightarrow> em_panic
   | c # _ \<Rightarrow> em_when (\<lambda>_. \<not> is_blankz c) put_break)"

fun foldedLoop :: "ychar list \<Rightarrow> bool \<Rightarrow> bool \<Rightarrow> ychar list \<Rightarrow> emit_fn" where
  "foldedLoop all breaks leading_spaces [] = em_ok"
| "foldedLoop all breaks leading_spaces (c # cs) =
     (if is_break c then em_then (em_seq
          [em_when (\<lambda>_. \<not> breaks \<and> \<not> leading_spaces \<and> at c 0 = 10) (folded_break all), write_break c])
        (foldedLoop all True leading_spaces cs)
      else let leading_spaces = (if breaks then is_blank c else leading_spaces) in em_then (em_seq
          [em_when (\<lambda>_. breaks) yaml_emitter_write_indent,
           (if \<not> breaks \<and> is_space c
            then at_space cs (\<lambda>sp. em_with (\<lambda>e. if \<not> sp \<and> em_column e > em_best_width e
              then yaml_emitter_write_indent else write_char c))
            else write_char c), set_indention_off])
        (foldedLoop all False leading_spaces cs))"

definition yaml_emitter_write_folded_scalar :: "string \<Rightarrow> emit_fn" where
  "yaml_emitter_write_folded_scalar value = block_scalar ''>'' value (\<lambda>cs. foldedLoop cs True True cs)"

section \<open>Analysis\<close>

definition yaml_emitter_analyze_version_directive :: "int \<times> int \<Rightarrow> emit_fn" where
  "yaml_emitter_analyze_version_directive v =
     (if v \<noteq> (1, 1) then yaml_emitter_set_emitter_error ''incompatible %YAML directive'' else em_ok)"

definition yaml_emitter_analyze_tag_directive :: "tag_directive \<Rightarrow> emit_fn" where
  "yaml_emitter_analyze_tag_directive d =
     (if fst d = [] then yaml_emitter_set_emitter_error ''tag handle must not be empty''
      else if hd (fst d) \<noteq> CHR ''!'' then yaml_emitter_set_emitter_error (''tag handle must start with '!'' @ [CHR 39])
      else if last (fst d) \<noteq> CHR ''!'' then yaml_emitter_set_emitter_error (''tag handle must end with '!'' @ [CHR 39])
      else if \<not> list_all is_alpha (butlast (tl (fst d)))
      then yaml_emitter_set_emitter_error ''tag handle must contain alphanumerical characters only''
      else if snd d = [] then yaml_emitter_set_emitter_error ''tag prefix must not be empty''
      else em_ok)"

definition yaml_emitter_analyze_anchor :: "string \<Rightarrow> bool \<Rightarrow> emit_fn" where
  "yaml_emitter_analyze_anchor anchor alias =
     (if anchor = [] then yaml_emitter_set_emitter_error (if alias then ''alias value must not be empty'' else ''anchor value must not be empty'')
      else if \<not> list_all is_alpha anchor then yaml_emitter_set_emitter_error
        (if alias then ''alias value must contain alphanumerical characters only''
         else ''anchor value must contain alphanumerical characters only'')
      else em_set (\<lambda>e. e\<lparr>em_anchor := Some anchor, em_alias := alias\<rparr>))"

definition yaml_emitter_analyze_tag :: "string \<Rightarrow> emit_fn" where
  "yaml_emitter_analyze_tag tag =
     (if tag = [] then yaml_emitter_set_emitter_error ''tag value must not be empty''
      else em_set (\<lambda>e. case find (\<lambda>d. take (length (snd d)) tag = snd d) (em_tag_directives e) of
        Some d \<Rightarrow> e\<lparr>em_tag_handle := fst d, em_tag_suffix := drop (length (snd d)) tag\<rparr>
      | None \<Rightarrow> e\<lparr>em_tag_suffix := tag\<rparr>))"

text \<open>The variables of \<^verbatim>\<open>yaml_emitter_analyze_scalar\<close>.\<close>

record scalar_flags =
  sf_block_indicators :: bool
  sf_flow_indicators :: bool
  sf_line_breaks :: bool
  sf_special_characters :: bool
  sf_tab_characters :: bool
  sf_leading_space :: bool
  sf_leading_break :: bool
  sf_trailing_space :: bool
  sf_trailing_break :: bool
  sf_break_space :: bool
  sf_space_break :: bool
  sf_previous_space :: bool
  sf_previous_break :: bool

definition no_flags :: scalar_flags where
  "no_flags = \<lparr>sf_block_indicators = False, sf_flow_indicators = False, sf_line_breaks = False,
     sf_special_characters = False, sf_tab_characters = False, sf_leading_space = False, sf_leading_break = False,
     sf_trailing_space = False, sf_trailing_break = False, sf_break_space = False, sf_space_break = False,
     sf_previous_space = False, sf_previous_break = False\<rparr>"

text \<open>
  The indicators that a character is, for a flow and for a block: \<open>first\<close> says that it is the first of the value,
  \<open>preceded\<close> and \<open>followed\<close> that white space is before and after it.
\<close>

definition flow_indicator :: "bool \<Rightarrow> bool \<Rightarrow> bool \<Rightarrow> char \<Rightarrow> bool" where
  "flow_indicator first preceded followed b \<longleftrightarrow>
     (if first then b \<in> set ''#,[]{}&*!|>%@`?:'' \<or> byte b = 39 \<or> byte b = 34 \<or> b = CHR ''-'' \<and> followed
      else b \<in> set '',?[]{}:'' \<or> b = CHR ''#'' \<and> preceded)"

definition block_indicator :: "bool \<Rightarrow> bool \<Rightarrow> bool \<Rightarrow> char \<Rightarrow> bool" where
  "block_indicator first preceded followed b \<longleftrightarrow>
     (if first then b \<in> set ''#,[]{}&*!|>%@`'' \<or> byte b = 39 \<or> byte b = 34 \<or> b \<in> set ''?:-'' \<and> followed
      else b = CHR '':'' \<and> followed \<or> b = CHR ''#'' \<and> preceded)"

definition analyze_char :: "bool \<Rightarrow> bool \<Rightarrow> bool \<Rightarrow> ychar \<Rightarrow> ychar list \<Rightarrow> scalar_flags \<Rightarrow> scalar_flags" where
  "analyze_char unicode first preceded c rest f =
     (let followed = (rest = [] \<or> is_blank (hd rest));
          f = f\<lparr>sf_flow_indicators := (sf_flow_indicators f \<or> flow_indicator first preceded followed (hd c)),
                sf_block_indicators := (sf_block_indicators f \<or> block_indicator first preceded followed (hd c)),
                sf_tab_characters := (sf_tab_characters f \<or> at c 0 = 9),
                sf_special_characters := (sf_special_characters f \<or>
                   at c 0 \<noteq> 9 \<and> (\<not> is_printable c \<or> \<not> is_ascii c \<and> \<not> unicode))\<rparr>
      in if is_space c then
           f\<lparr>sf_leading_space := (sf_leading_space f \<or> first), sf_trailing_space := (sf_trailing_space f \<or> rest = []),
             sf_break_space := (sf_break_space f \<or> sf_previous_break f), sf_previous_space := True, sf_previous_break := False\<rparr>
         else if is_break c then
           f\<lparr>sf_line_breaks := True,
             sf_leading_break := (sf_leading_break f \<or> first), sf_trailing_break := (sf_trailing_break f \<or> rest = []),
             sf_space_break := (sf_space_break f \<or> sf_previous_space f), sf_previous_space := False, sf_previous_break := True\<rparr>
         else f\<lparr>sf_previous_space := False, sf_previous_break := False\<rparr>)"

fun analyzeLoop :: "bool \<Rightarrow> bool \<Rightarrow> bool \<Rightarrow> ychar list \<Rightarrow> scalar_flags \<Rightarrow> scalar_flags" where
  "analyzeLoop unicode first preceded [] f = f"
| "analyzeLoop unicode first preceded (c # rest) f =
     analyzeLoop unicode False (is_blankz c) rest (analyze_char unicode first preceded c rest f)"

definition document_marker :: "string \<Rightarrow> bool" where
  "document_marker value \<longleftrightarrow> take 3 value = ''---'' \<or> take 3 value = ''...''"

definition scalar_flags_of :: "bool \<Rightarrow> string \<Rightarrow> ychar list \<Rightarrow> scalar_flags" where
  "scalar_flags_of unicode value cs = analyzeLoop unicode True True cs
     (if document_marker value then no_flags\<lparr>sf_block_indicators := True, sf_flow_indicators := True\<rparr> else no_flags)"

definition analyzed :: "string \<Rightarrow> scalar_flags \<Rightarrow> scalar_data \<Rightarrow> scalar_data" where
  "analyzed value f d =
     (let outer = (sf_leading_space f \<or> sf_leading_break f \<or> sf_trailing_space f \<or> sf_trailing_break f);
          quoted = (sf_break_space f \<or> sf_space_break f \<or> sf_tab_characters f \<or> sf_special_characters f);
          plain = (\<not> outer \<and> \<not> quoted \<and> \<not> sf_line_breaks f)
      in d\<lparr>sd_value := value, sd_multiline := sf_line_breaks f,
           sd_flow_plain_allowed := (plain \<and> \<not> sf_flow_indicators f),
           sd_block_plain_allowed := (plain \<and> \<not> sf_block_indicators f),
           sd_single_quoted_allowed := (\<not> quoted),
           sd_block_allowed := (\<not> sf_trailing_space f \<and> \<not> sf_space_break f \<and> \<not> sf_special_characters f)\<rparr>)"

definition analyze_scalar_data :: "bool \<Rightarrow> string \<Rightarrow> ychar list \<Rightarrow> scalar_data \<Rightarrow> scalar_data" where
  "analyze_scalar_data unicode value cs d =
     (if value = [] then d\<lparr>sd_value := [], sd_multiline := False, sd_flow_plain_allowed := False,
        sd_block_plain_allowed := True, sd_single_quoted_allowed := True, sd_block_allowed := False\<rparr>
      else analyzed value (scalar_flags_of unicode value cs) d)"

definition yaml_emitter_analyze_scalar :: "string \<Rightarrow> emit_fn" where
  "yaml_emitter_analyze_scalar value = with_chars value (\<lambda>cs. em_set (\<lambda>e.
     e\<lparr>em_scalar := analyze_scalar_data (em_unicode e) value cs (em_scalar e)\<rparr>))"

definition keep_comment :: "string \<Rightarrow> string \<Rightarrow> string" where
  "keep_comment new old = (if new \<noteq> [] then new else old)"

definition yaml_emitter_analyze_event :: "yaml_event \<Rightarrow> emit_fn" where
  "yaml_emitter_analyze_event event = em_seq
     [em_set (\<lambda>e. e\<lparr>em_anchor := None, em_tag_handle := [], em_tag_suffix := [], em_scalar := (em_scalar e)\<lparr>sd_value := []\<rparr>,
        em_head_comment := keep_comment (ye_head_comment event) (em_head_comment e),
        em_line_comment := keep_comment (ye_line_comment event) (em_line_comment e),
        em_foot_comment := keep_comment (ye_foot_comment event) (em_foot_comment e),
        em_tail_comment := keep_comment (ye_tail_comment event) (em_tail_comment e)\<rparr>),
      (if ye_typ event = ALIAS_EVENT then yaml_emitter_analyze_anchor (ye_anchor event) True
       else if ye_typ event = SCALAR_EVENT then em_seq
         [em_when (\<lambda>e. ye_anchor event \<noteq> []) (yaml_emitter_analyze_anchor (ye_anchor event) False),
          em_when (\<lambda>e. ye_tag event \<noteq> [] \<and> (em_canonical e \<or> \<not> ye_implicit event \<and> \<not> ye_quoted_implicit event))
            (yaml_emitter_analyze_tag (ye_tag event)),
          yaml_emitter_analyze_scalar (ye_value event)]
       else if ye_typ event = SEQUENCE_START_EVENT \<or> ye_typ event = MAPPING_START_EVENT then em_seq
         [em_when (\<lambda>e. ye_anchor event \<noteq> []) (yaml_emitter_analyze_anchor (ye_anchor event) False),
          em_when (\<lambda>e. ye_tag event \<noteq> [] \<and> (em_canonical e \<or> \<not> ye_implicit event)) (yaml_emitter_analyze_tag (ye_tag event))]
       else em_ok)]"

section \<open>The style of a scalar\<close>

text \<open>\<^verbatim>\<open>event.scalar_style()\<close> and \<^verbatim>\<open>event.sequence_style()\<close>, conversions between small integers.\<close>

definition scalar_style :: "yaml_event \<Rightarrow> yaml_scalar_style" where
  "scalar_style event = (case ye_style event of ScalarStyle s \<Rightarrow> s | _ \<Rightarrow> ANY_SCALAR_STYLE)"

definition is_flow_style :: "yaml_event \<Rightarrow> bool" where
  "is_flow_style event \<longleftrightarrow> ye_style event = SequenceStyle FLOW_SEQUENCE_STYLE \<or> ye_style event = MappingStyle FLOW_MAPPING_STYLE"

definition no_tag :: "yaml_emitter \<Rightarrow> bool" where
  "no_tag e \<longleftrightarrow> em_tag_handle e = [] \<and> em_tag_suffix e = []"

definition chosen_style :: "yaml_emitter \<Rightarrow> yaml_event \<Rightarrow> yaml_scalar_style" where
  "chosen_style e event =
     (let d = em_scalar e;
          style = (if scalar_style event = ANY_SCALAR_STYLE then PLAIN_SCALAR_STYLE else scalar_style event);
          style = (if em_canonical e then DOUBLE_QUOTED_SCALAR_STYLE else style);
          style = (if em_simple_key_context e \<and> sd_multiline d then DOUBLE_QUOTED_SCALAR_STYLE else style);
          style = (if style = PLAIN_SCALAR_STYLE \<and>
                      (em_flow_level e > 0 \<and> \<not> sd_flow_plain_allowed d \<or> em_flow_level e = 0 \<and> \<not> sd_block_plain_allowed d
                       \<or> sd_value d = [] \<and> (em_flow_level e > 0 \<or> em_simple_key_context e)
                       \<or> no_tag e \<and> \<not> ye_implicit event)
                   then SINGLE_QUOTED_SCALAR_STYLE else style);
          style = (if style = SINGLE_QUOTED_SCALAR_STYLE \<and> \<not> sd_single_quoted_allowed d
                   then DOUBLE_QUOTED_SCALAR_STYLE else style)
      in if (style = LITERAL_SCALAR_STYLE \<or> style = FOLDED_SCALAR_STYLE) \<and>
            (\<not> sd_block_allowed d \<or> em_flow_level e > 0 \<or> em_simple_key_context e)
         then DOUBLE_QUOTED_SCALAR_STYLE else style)"

definition yaml_emitter_select_scalar_style :: "yaml_event \<Rightarrow> emit_fn" where
  "yaml_emitter_select_scalar_style event = em_with (\<lambda>e.
     if no_tag e \<and> \<not> ye_implicit event \<and> \<not> ye_quoted_implicit event
     then yaml_emitter_set_emitter_error ''neither tag nor implicit flags are specified''
     else let style = chosen_style e event in em_seq
       [em_when (\<lambda>e. no_tag e \<and> \<not> ye_quoted_implicit event \<and> style \<noteq> PLAIN_SCALAR_STYLE) (em_set (\<lambda>e. e\<lparr>em_tag_handle := ''!''\<rparr>)),
        em_set (\<lambda>e. e\<lparr>em_scalar := (em_scalar e)\<lparr>sd_style := style\<rparr>\<rparr>)])"

section \<open>Parts of a node\<close>

definition yaml_emitter_process_anchor :: emit_fn where
  "yaml_emitter_process_anchor = em_with (\<lambda>e. case em_anchor e of
     None \<Rightarrow> em_ok
   | Some anchor \<Rightarrow> em_seq [yaml_emitter_write_indicator (if em_alias e then ''*'' else ''&'') True False False,
       yaml_emitter_write_anchor anchor])"

definition yaml_emitter_process_tag :: emit_fn where
  "yaml_emitter_process_tag = em_with (\<lambda>e.
     if no_tag e then em_ok
     else if em_tag_handle e \<noteq> [] then em_seq [yaml_emitter_write_tag_handle (em_tag_handle e),
       em_when (\<lambda>e. em_tag_suffix e \<noteq> []) (yaml_emitter_write_tag_content (em_tag_suffix e) False)]
     else em_seq [yaml_emitter_write_indicator ''!<'' True False False, yaml_emitter_write_tag_content (em_tag_suffix e) False,
       yaml_emitter_write_indicator ''>'' False False False])"

definition yaml_emitter_process_scalar :: emit_fn where
  "yaml_emitter_process_scalar = em_with (\<lambda>e. let value = sd_value (em_scalar e) in case sd_style (em_scalar e) of
     PLAIN_SCALAR_STYLE \<Rightarrow> yaml_emitter_write_plain_scalar value (\<not> em_simple_key_context e)
   | SINGLE_QUOTED_SCALAR_STYLE \<Rightarrow> yaml_emitter_write_single_quoted_scalar value (\<not> em_simple_key_context e)
   | DOUBLE_QUOTED_SCALAR_STYLE \<Rightarrow> yaml_emitter_write_double_quoted_scalar value (\<not> em_simple_key_context e)
   | LITERAL_SCALAR_STYLE \<Rightarrow> yaml_emitter_write_literal_scalar value
   | FOLDED_SCALAR_STYLE \<Rightarrow> yaml_emitter_write_folded_scalar value
   | ANY_SCALAR_STYLE \<Rightarrow> em_panic)"

section \<open>The state machine\<close>

definition pop_state :: emit_fn where
  "pop_state = em_with (\<lambda>e. case em_states e of
     [] \<Rightarrow> em_panic
   | s # ss \<Rightarrow> em_set (\<lambda>e. e\<lparr>em_state := s, em_states := ss\<rparr>))"

definition pop_indent :: emit_fn where
  "pop_indent = em_with (\<lambda>e. case em_indents e of
     [] \<Rightarrow> em_panic
   | i # is \<Rightarrow> em_set (\<lambda>e. e\<lparr>em_indent := i, em_indents := is\<rparr>))"

definition push_emit_state :: "yaml_emitter_state \<Rightarrow> emit_fn" where
  "push_emit_state s = em_set (\<lambda>e. e\<lparr>em_states := s # em_states e\<rparr>)"

definition set_emit_state :: "yaml_emitter_state \<Rightarrow> emit_fn" where
  "set_emit_state s = em_set (\<lambda>e. e\<lparr>em_state := s\<rparr>)"

definition set_indent :: "int \<Rightarrow> emit_fn" where
  "set_indent i = em_set (\<lambda>e. e\<lparr>em_indent := i\<rparr>)"

definition yaml_emitter_increase_indent :: "bool \<Rightarrow> bool \<Rightarrow> emit_fn" where
  "yaml_emitter_increase_indent flow indentless = em_seq
     [em_set (\<lambda>e. e\<lparr>em_indents := em_indent e # em_indents e\<rparr>),
      em_with (\<lambda>e.
        if em_indent e < 0 then set_indent (if flow then em_best_indent e else 0)
        else if indentless then em_ok
        else (case em_states e of
            [] \<Rightarrow> em_panic
          | s # _ \<Rightarrow> if s = EMIT_BLOCK_SEQUENCE_ITEM_STATE then set_indent (em_indent e + 2)
              else set_indent (em_best_indent e * ((em_indent e + em_best_indent e) div em_best_indent e))))]"

definition yaml_emitter_append_tag_directive :: "tag_directive \<Rightarrow> bool \<Rightarrow> emit_fn" where
  "yaml_emitter_append_tag_directive value allow_duplicates = em_with (\<lambda>e.
     if list_ex (\<lambda>d. fst value = fst d) (em_tag_directives e)
     then if allow_duplicates then em_ok else yaml_emitter_set_emitter_error ''duplicate %TAG directive''
     else em_set (\<lambda>e. e\<lparr>em_tag_directives := em_tag_directives e @ [value]\<rparr>))"

definition check_empty :: "yaml_event_type \<Rightarrow> yaml_event_type \<Rightarrow> yaml_emitter \<Rightarrow> bool" where
  "check_empty start ending e = (case em_events e of
     a # b # _ \<Rightarrow> ye_typ a = start \<and> ye_typ b = ending
   | _ \<Rightarrow> False)"

definition yaml_emitter_check_empty_sequence :: "yaml_emitter \<Rightarrow> bool" where
  "yaml_emitter_check_empty_sequence = check_empty SEQUENCE_START_EVENT SEQUENCE_END_EVENT"

definition yaml_emitter_check_empty_mapping :: "yaml_emitter \<Rightarrow> bool" where
  "yaml_emitter_check_empty_mapping = check_empty MAPPING_START_EVENT MAPPING_END_EVENT"

text \<open>The event is the head of the queue.\<close>

definition yaml_emitter_check_simple_key :: "yaml_event \<Rightarrow> yaml_emitter \<Rightarrow> bool" where
  "yaml_emitter_check_simple_key event e =
     (let anchor = length (case em_anchor e of None \<Rightarrow> [] | Some a \<Rightarrow> a);
          tag = length (em_tag_handle e) + length (em_tag_suffix e)
      in case ye_typ event of
           ALIAS_EVENT \<Rightarrow> anchor \<le> 128
         | SCALAR_EVENT \<Rightarrow> \<not> sd_multiline (em_scalar e) \<and> anchor + tag + length (sd_value (em_scalar e)) \<le> 128
         | SEQUENCE_START_EVENT \<Rightarrow> yaml_emitter_check_empty_sequence e \<and> anchor + tag \<le> 128
         | MAPPING_START_EVENT \<Rightarrow> yaml_emitter_check_empty_mapping e \<and> anchor + tag \<le> 128
         | _ \<Rightarrow> False)"

definition yaml_emitter_emit_alias :: emit_fn where
  "yaml_emitter_emit_alias = em_seq [yaml_emitter_process_anchor, pop_state]"

definition yaml_emitter_emit_scalar :: "yaml_event \<Rightarrow> emit_fn" where
  "yaml_emitter_emit_scalar event = em_seq
     [yaml_emitter_select_scalar_style event, yaml_emitter_process_anchor, yaml_emitter_process_tag,
      yaml_emitter_increase_indent True False, yaml_emitter_process_scalar, pop_indent, pop_state]"

definition yaml_emitter_emit_sequence_start :: "yaml_event \<Rightarrow> emit_fn" where
  "yaml_emitter_emit_sequence_start event = em_seq
     [yaml_emitter_process_anchor, yaml_emitter_process_tag,
      em_with (\<lambda>e. if em_flow_level e > 0 \<or> em_canonical e \<or> is_flow_style event \<or> yaml_emitter_check_empty_sequence e
        then set_emit_state EMIT_FLOW_SEQUENCE_FIRST_ITEM_STATE else set_emit_state EMIT_BLOCK_SEQUENCE_FIRST_ITEM_STATE)]"

definition yaml_emitter_emit_mapping_start :: "yaml_event \<Rightarrow> emit_fn" where
  "yaml_emitter_emit_mapping_start event = em_seq
     [yaml_emitter_process_anchor, yaml_emitter_process_tag,
      em_with (\<lambda>e. if em_flow_level e > 0 \<or> em_canonical e \<or> is_flow_style event \<or> yaml_emitter_check_empty_mapping e
        then set_emit_state EMIT_FLOW_MAPPING_FIRST_KEY_STATE else set_emit_state EMIT_BLOCK_MAPPING_FIRST_KEY_STATE)]"

definition yaml_emitter_emit_node :: "bool \<Rightarrow> bool \<Rightarrow> bool \<Rightarrow> bool \<Rightarrow> yaml_event \<Rightarrow> emit_fn" where
  "yaml_emitter_emit_node root sequence mapping simple_key event = em_seq
     [em_set (\<lambda>e. e\<lparr>em_root_context := root, em_sequence_context := sequence, em_mapping_context := mapping,
        em_simple_key_context := simple_key\<rparr>),
      (case ye_typ event of
         ALIAS_EVENT \<Rightarrow> yaml_emitter_emit_alias
       | SCALAR_EVENT \<Rightarrow> yaml_emitter_emit_scalar event
       | SEQUENCE_START_EVENT \<Rightarrow> yaml_emitter_emit_sequence_start event
       | MAPPING_START_EVENT \<Rightarrow> yaml_emitter_emit_mapping_start event
       | _ \<Rightarrow> yaml_emitter_set_emitter_error
           (''expected SCALAR, SEQUENCE-START, MAPPING-START, or ALIAS, but got '' @ event_String (ye_typ event)))]"

definition stream_start_settings :: "yaml_event \<Rightarrow> yaml_emitter \<Rightarrow> yaml_emitter" where
  "stream_start_settings event e =
     (let best_indent = (if em_best_indent e < 2 \<or> em_best_indent e > 9 then 2 else em_best_indent e);
          best_width = (if em_best_width e \<ge> 0 \<and> em_best_width e \<le> best_indent * 2 then 80 else em_best_width e)
      in e\<lparr>em_encoding := (if em_encoding e \<noteq> ANY_ENCODING then em_encoding e
              else if ye_encoding event = ANY_ENCODING then UTF8_ENCODING else ye_encoding event),
           em_best_indent := best_indent, em_best_width := (if best_width < 0 then 2 ^ 31 - 1 else best_width),
           em_line_break := (if em_line_break e = ANY_BREAK then LN_BREAK else em_line_break e),
           em_indent := -1, em_line := 0, em_column := 0, em_whitespace := True, em_indention := True,
           em_space_above := True, em_foot_indent := -1\<rparr>)"

definition yaml_emitter_emit_stream_start :: "yaml_event \<Rightarrow> emit_fn" where
  "yaml_emitter_emit_stream_start event =
     (if ye_typ event \<noteq> STREAM_START_EVENT then yaml_emitter_set_emitter_error ''expected STREAM-START''
      else em_seq [em_set (stream_start_settings event),
        em_when (\<lambda>e. em_encoding e \<noteq> UTF8_ENCODING) yaml_emitter_write_bom,
        set_emit_state EMIT_FIRST_DOCUMENT_START_STATE])"

text \<open>An indicator of the document on a line of its own.\<close>

definition document_indicator :: "string \<Rightarrow> emit_fn" where
  "document_indicator s = em_seq [yaml_emitter_write_indicator s True False False, yaml_emitter_write_indent]"

definition write_tag_directive :: "tag_directive \<Rightarrow> emit_fn" where
  "write_tag_directive d = em_seq [yaml_emitter_write_indicator ''%TAG'' True False False, yaml_emitter_write_tag_handle (fst d),
     yaml_emitter_write_tag_content (snd d) True, yaml_emitter_write_indent]"

definition start_document :: "yaml_event \<Rightarrow> bool \<Rightarrow> emit_fn" where
  "start_document event first = em_seq
     [(case ye_version event of None \<Rightarrow> em_ok | Some v \<Rightarrow> yaml_emitter_analyze_version_directive v),
      em_seq (map (\<lambda>d. em_seq [yaml_emitter_analyze_tag_directive d, yaml_emitter_append_tag_directive d False]) (ye_tag_directives event)),
      em_seq (map (\<lambda>d. yaml_emitter_append_tag_directive d True) default_tag_directives),
      em_when (\<lambda>e. em_open_ended e \<and> (ye_version event \<noteq> None \<or> ye_tag_directives event \<noteq> [])) (document_indicator ''...''),
      (if ye_version event = None then em_ok else em_seq [yaml_emitter_write_indicator ''%YAML'' True False False,
         yaml_emitter_write_indicator ''1.1'' True False False, yaml_emitter_write_indent]),
      em_seq (map write_tag_directive (ye_tag_directives event)),
      em_when (\<lambda>e. \<not> (ye_implicit event \<and> first \<and> \<not> em_canonical e \<and> ye_version event = None \<and> ye_tag_directives event = []))
        (em_seq [yaml_emitter_write_indent, document_indicator ''---'']),
      em_when (\<lambda>e. em_head_comment e \<noteq> []) (em_seq [yaml_emitter_process_head_comment, put_break]),
      set_emit_state EMIT_DOCUMENT_CONTENT_STATE]"

definition yaml_emitter_emit_document_start :: "bool \<Rightarrow> yaml_event \<Rightarrow> emit_fn" where
  "yaml_emitter_emit_document_start first event =
     (if ye_typ event = DOCUMENT_START_EVENT then start_document event first
      else if ye_typ event = STREAM_END_EVENT then em_seq
        [em_when em_open_ended (document_indicator ''...''), yaml_emitter_flush, set_emit_state EMIT_END_STATE]
      else yaml_emitter_set_emitter_error ''expected DOCUMENT-START or STREAM-END'')"

definition yaml_emitter_emit_document_content :: "yaml_event \<Rightarrow> emit_fn" where
  "yaml_emitter_emit_document_content event = em_seq
     [push_emit_state EMIT_DOCUMENT_END_STATE, yaml_emitter_process_head_comment,
      yaml_emitter_emit_node True False False False event, yaml_emitter_process_line_comment, yaml_emitter_process_foot_comment]"

definition yaml_emitter_emit_document_end :: "yaml_event \<Rightarrow> emit_fn" where
  "yaml_emitter_emit_document_end event =
     (if ye_typ event \<noteq> DOCUMENT_END_EVENT then yaml_emitter_set_emitter_error ''expected DOCUMENT-END''
      else em_seq
        [em_set (\<lambda>e. e\<lparr>em_foot_indent := 0\<rparr>), yaml_emitter_process_foot_comment, em_set (\<lambda>e. e\<lparr>em_foot_indent := -1\<rparr>),
         yaml_emitter_write_indent, em_when (\<lambda>_. \<not> ye_implicit event) (document_indicator ''...''), yaml_emitter_flush,
         em_set (\<lambda>e. e\<lparr>em_state := EMIT_DOCUMENT_START_STATE, em_tag_directives := []\<rparr>)])"

definition comments_follow :: "yaml_emitter \<Rightarrow> bool" where
  "comments_follow e \<longleftrightarrow> em_line_comment e \<noteq> [] \<or> em_foot_comment e \<noteq> [] \<or> em_tail_comment e \<noteq> []"

text \<open>The beginning and the end of a flow collection.\<close>

definition open_flow :: "string \<Rightarrow> emit_fn" where
  "open_flow bracket = em_seq [yaml_emitter_write_indicator bracket True True False, yaml_emitter_increase_indent True False,
     em_set (\<lambda>e. e\<lparr>em_flow_level := em_flow_level e + 1\<rparr>)]"

definition close_flow :: "string \<Rightarrow> (yaml_emitter \<Rightarrow> bool) \<Rightarrow> emit_fn" where
  "close_flow bracket indented = em_seq
     [em_set (\<lambda>e. e\<lparr>em_flow_level := em_flow_level e - 1\<rparr>), pop_indent, em_when indented yaml_emitter_write_indent,
      yaml_emitter_write_indicator bracket False False False, yaml_emitter_process_line_comment,
      yaml_emitter_process_foot_comment, pop_state]"

definition comma :: emit_fn where
  "comma = yaml_emitter_write_indicator '','' False False False"

definition wrap_line :: emit_fn where
  "wrap_line = em_when (\<lambda>e. em_canonical e \<or> em_column e > em_best_width e) yaml_emitter_write_indent"

definition flow_item_start :: "bool \<Rightarrow> bool \<Rightarrow> emit_fn" where
  "flow_item_start first trail = em_seq
     [em_when (\<lambda>_. \<not> first \<and> \<not> trail) comma, yaml_emitter_process_head_comment,
      em_when (\<lambda>e. em_column e = 0) yaml_emitter_write_indent, wrap_line]"

text \<open>A node of a flow after which a comment may come, which the separator has to precede.\<close>

definition flow_node :: "yaml_emitter_state \<Rightarrow> yaml_emitter_state \<Rightarrow> bool \<Rightarrow> bool \<Rightarrow> yaml_event \<Rightarrow> emit_fn" where
  "flow_node trail_state state sequence mapping event = em_seq
     [em_with (\<lambda>e. push_emit_state (if comments_follow e then trail_state else state)),
      yaml_emitter_emit_node False sequence mapping False event,
      em_when comments_follow comma, yaml_emitter_process_line_comment, yaml_emitter_process_foot_comment]"

definition yaml_emitter_emit_flow_sequence_item :: "bool \<Rightarrow> bool \<Rightarrow> yaml_event \<Rightarrow> emit_fn" where
  "yaml_emitter_emit_flow_sequence_item first trail event = em_seq
     [em_when (\<lambda>_. first) (open_flow ''[''),
      (if ye_typ event = SEQUENCE_END_EVENT then em_seq
         [em_when (\<lambda>e. em_canonical e \<and> \<not> first \<and> \<not> trail) comma,
          close_flow '']'' (\<lambda>e. em_column e = 0 \<or> em_canonical e \<and> \<not> first)]
       else em_seq [flow_item_start first trail,
         flow_node EMIT_FLOW_SEQUENCE_TRAIL_ITEM_STATE EMIT_FLOW_SEQUENCE_ITEM_STATE True False event])]"

definition yaml_emitter_emit_flow_mapping_key :: "bool \<Rightarrow> bool \<Rightarrow> yaml_event \<Rightarrow> emit_fn" where
  "yaml_emitter_emit_flow_mapping_key first trail event = em_seq
     [em_when (\<lambda>_. first) (open_flow ''{''),
      (if ye_typ event = MAPPING_END_EVENT then em_seq
         [em_when (\<lambda>e. (em_canonical e \<or> em_head_comment e \<noteq> [] \<or> em_foot_comment e \<noteq> [] \<or> em_tail_comment e \<noteq> [])
              \<and> \<not> first \<and> \<not> trail) comma,
          yaml_emitter_process_head_comment, close_flow ''}'' (\<lambda>e. em_canonical e \<and> \<not> first)]
       else em_seq [flow_item_start first trail, em_with (\<lambda>e.
         if \<not> em_canonical e \<and> yaml_emitter_check_simple_key event e
         then em_seq [push_emit_state EMIT_FLOW_MAPPING_SIMPLE_VALUE_STATE, yaml_emitter_emit_node False False True True event]
         else em_seq [yaml_emitter_write_indicator ''?'' True False False, push_emit_state EMIT_FLOW_MAPPING_VALUE_STATE,
           yaml_emitter_emit_node False False True False event])])]"

definition yaml_emitter_emit_flow_mapping_value :: "bool \<Rightarrow> yaml_event \<Rightarrow> emit_fn" where
  "yaml_emitter_emit_flow_mapping_value simple event = em_seq
     [(if simple then yaml_emitter_write_indicator '':'' False False False
       else em_seq [wrap_line, yaml_emitter_write_indicator '':'' True False False]),
      flow_node EMIT_FLOW_MAPPING_TRAIL_KEY_STATE EMIT_FLOW_MAPPING_KEY_STATE False True event]"

definition yaml_emitter_emit_block_sequence_item :: "bool \<Rightarrow> yaml_event \<Rightarrow> emit_fn" where
  "yaml_emitter_emit_block_sequence_item first event = em_seq
     [em_when (\<lambda>_. first) (yaml_emitter_increase_indent False False),
      (if ye_typ event = SEQUENCE_END_EVENT then em_seq [pop_indent, pop_state]
       else em_seq [yaml_emitter_process_head_comment, yaml_emitter_write_indent, yaml_emitter_write_indicator ''-'' True False True,
         push_emit_state EMIT_BLOCK_SEQUENCE_ITEM_STATE, yaml_emitter_emit_node False True False False event,
         yaml_emitter_process_line_comment, yaml_emitter_process_foot_comment])]"

definition yaml_emitter_emit_block_mapping_key :: "bool \<Rightarrow> yaml_event \<Rightarrow> emit_fn" where
  "yaml_emitter_emit_block_mapping_key first event = em_seq
     [em_when (\<lambda>_. first) (yaml_emitter_increase_indent False False), yaml_emitter_process_head_comment,
      (if ye_typ event = MAPPING_END_EVENT then em_seq [pop_indent, pop_state]
       else em_seq [yaml_emitter_write_indent,
         em_when (\<lambda>e. em_line_comment e \<noteq> []) (em_set (\<lambda>e. e\<lparr>em_key_line_comment := em_line_comment e, em_line_comment := []\<rparr>)),
         em_with (\<lambda>e.
           if yaml_emitter_check_simple_key event e
           then em_seq [push_emit_state EMIT_BLOCK_MAPPING_SIMPLE_VALUE_STATE, yaml_emitter_emit_node False False True True event]
           else em_seq [yaml_emitter_write_indicator ''?'' True False True, push_emit_state EMIT_BLOCK_MAPPING_VALUE_STATE,
             yaml_emitter_emit_node False False True False event])])]"

definition swap_line_comments :: "yaml_emitter \<Rightarrow> yaml_emitter" where
  "swap_line_comments e = e\<lparr>em_line_comment := em_key_line_comment e, em_key_line_comment := em_line_comment e\<rparr>"

text \<open>A comment of the line of the key is one of a scalar that follows, or is written before a block.\<close>

definition place_key_comment :: "yaml_event \<Rightarrow> emit_fn" where
  "place_key_comment event =
     (if ye_typ event = SCALAR_EVENT then
        em_when (\<lambda>e. em_line_comment e = []) (em_set (\<lambda>e. e\<lparr>em_line_comment := em_key_line_comment e, em_key_line_comment := []\<rparr>))
      else if \<not> is_flow_style event \<and> (ye_typ event = MAPPING_START_EVENT \<or> ye_typ event = SEQUENCE_START_EVENT) then
        em_seq [em_set swap_line_comments, yaml_emitter_process_line_comment, em_set swap_line_comments]
      else em_ok)"

definition yaml_emitter_emit_block_mapping_value :: "bool \<Rightarrow> yaml_event \<Rightarrow> emit_fn" where
  "yaml_emitter_emit_block_mapping_value simple event = em_seq
     [(if simple then yaml_emitter_write_indicator '':'' False False False
       else em_seq [yaml_emitter_write_indent, yaml_emitter_write_indicator '':'' True False True]),
      em_when (\<lambda>e. em_key_line_comment e \<noteq> []) (place_key_comment event),
      push_emit_state EMIT_BLOCK_MAPPING_KEY_STATE, yaml_emitter_emit_node False False True False event,
      yaml_emitter_process_line_comment, yaml_emitter_process_foot_comment]"

definition yaml_emitter_state_machine :: "yaml_event \<Rightarrow> emit_fn" where
  "yaml_emitter_state_machine event = em_with (\<lambda>e. case em_state e of
     EMIT_STREAM_START_STATE \<Rightarrow> yaml_emitter_emit_stream_start event
   | EMIT_FIRST_DOCUMENT_START_STATE \<Rightarrow> yaml_emitter_emit_document_start True event
   | EMIT_DOCUMENT_START_STATE \<Rightarrow> yaml_emitter_emit_document_start False event
   | EMIT_DOCUMENT_CONTENT_STATE \<Rightarrow> yaml_emitter_emit_document_content event
   | EMIT_DOCUMENT_END_STATE \<Rightarrow> yaml_emitter_emit_document_end event
   | EMIT_FLOW_SEQUENCE_FIRST_ITEM_STATE \<Rightarrow> yaml_emitter_emit_flow_sequence_item True False event
   | EMIT_FLOW_SEQUENCE_TRAIL_ITEM_STATE \<Rightarrow> yaml_emitter_emit_flow_sequence_item False True event
   | EMIT_FLOW_SEQUENCE_ITEM_STATE \<Rightarrow> yaml_emitter_emit_flow_sequence_item False False event
   | EMIT_FLOW_MAPPING_FIRST_KEY_STATE \<Rightarrow> yaml_emitter_emit_flow_mapping_key True False event
   | EMIT_FLOW_MAPPING_TRAIL_KEY_STATE \<Rightarrow> yaml_emitter_emit_flow_mapping_key False True event
   | EMIT_FLOW_MAPPING_KEY_STATE \<Rightarrow> yaml_emitter_emit_flow_mapping_key False False event
   | EMIT_FLOW_MAPPING_SIMPLE_VALUE_STATE \<Rightarrow> yaml_emitter_emit_flow_mapping_value True event
   | EMIT_FLOW_MAPPING_VALUE_STATE \<Rightarrow> yaml_emitter_emit_flow_mapping_value False event
   | EMIT_BLOCK_SEQUENCE_FIRST_ITEM_STATE \<Rightarrow> yaml_emitter_emit_block_sequence_item True event
   | EMIT_BLOCK_SEQUENCE_ITEM_STATE \<Rightarrow> yaml_emitter_emit_block_sequence_item False event
   | EMIT_BLOCK_MAPPING_FIRST_KEY_STATE \<Rightarrow> yaml_emitter_emit_block_mapping_key True event
   | EMIT_BLOCK_MAPPING_KEY_STATE \<Rightarrow> yaml_emitter_emit_block_mapping_key False event
   | EMIT_BLOCK_MAPPING_SIMPLE_VALUE_STATE \<Rightarrow> yaml_emitter_emit_block_mapping_value True event
   | EMIT_BLOCK_MAPPING_VALUE_STATE \<Rightarrow> yaml_emitter_emit_block_mapping_value False event
   | EMIT_END_STATE \<Rightarrow> yaml_emitter_set_emitter_error ''expected nothing after STREAM-END'')"

section \<open>The queue of events\<close>

definition accumulate :: "yaml_event_type \<Rightarrow> nat option" where
  "accumulate typ = (case typ of
     DOCUMENT_START_EVENT \<Rightarrow> Some 1
   | SEQUENCE_START_EVENT \<Rightarrow> Some 2
   | MAPPING_START_EVENT \<Rightarrow> Some 3
   | _ \<Rightarrow> None)"

definition level_change :: "yaml_event_type \<Rightarrow> int" where
  "level_change typ =
     (if typ \<in> {STREAM_START_EVENT, DOCUMENT_START_EVENT, SEQUENCE_START_EVENT, MAPPING_START_EVENT} then 1
      else if typ \<in> {STREAM_END_EVENT, DOCUMENT_END_EVENT, SEQUENCE_END_EVENT, MAPPING_END_EVENT} then -1
      else 0)"

text \<open>Whether the level comes back to zero within the events.\<close>

fun level_closes :: "int \<Rightarrow> yaml_event list \<Rightarrow> bool" where
  "level_closes level [] = False"
| "level_closes level (ev # evs) =
     (let level = level + level_change (ye_typ ev) in level = 0 \<or> level_closes level evs)"

definition yaml_emitter_need_more_events :: "yaml_emitter \<Rightarrow> bool" where
  "yaml_emitter_need_more_events e = (case em_events e of
     [] \<Rightarrow> True
   | ev # evs \<Rightarrow> (case accumulate (ye_typ ev) of
       None \<Rightarrow> False
     | Some n \<Rightarrow> \<not> length (ev # evs) > n \<and> \<not> level_closes 0 (ev # evs)))"

text \<open>
  The loop of \<^verbatim>\<open>yaml_emitter_emit\<close>. The functions of the machine do not change the queue; its rest is set
  from the one before.
\<close>

function emitLoop :: emit_fn where
  "emitLoop e =
     (if yaml_emitter_need_more_events e then em_ok e
      else case em_events e of
        [] \<Rightarrow> em_ok e
      | event # rest \<Rightarrow>
          (case em_seq [yaml_emitter_analyze_event event, yaml_emitter_state_machine event] e of
             None \<Rightarrow> None
           | Some (ok, e) \<Rightarrow> if ok then emitLoop (e\<lparr>em_events := rest\<rparr>) else Some (False, e)))"
  by pat_completeness auto
termination by (relation "measure (\<lambda>e. length (em_events e))") auto

declare emitLoop.simps [simp del]

definition yaml_emitter_emit :: "yaml_event \<Rightarrow> emit_fn" where
  "yaml_emitter_emit event e = emitLoop (e\<lparr>em_events := em_events e @ [event]\<rparr>)"

text \<open>\<^verbatim>\<open>newEmitter\<close>\<close>

definition new_emitter :: yaml_emitter where
  "new_emitter = \<lparr>em_error = NO_ERROR, em_problem = [], em_output = [], em_buffer = [], em_encoding = ANY_ENCODING,
     em_canonical = False, em_best_indent = 2, em_best_width = -1, em_unicode = True, em_line_break = ANY_BREAK,
     em_state = EMIT_STREAM_START_STATE, em_states = [], em_events = [], em_indents = [], em_tag_directives = [],
     em_indent = 0, em_flow_level = 0, em_root_context = False, em_sequence_context = False, em_mapping_context = False,
     em_simple_key_context = False, em_line = 0, em_column = 0, em_whitespace = False, em_indention = False,
     em_open_ended = False, em_space_above = False, em_foot_indent = 0, em_anchor = None, em_alias = False,
     em_tag_handle = [], em_tag_suffix = [], em_scalar = \<lparr>sd_value = [], sd_multiline = False,
       sd_flow_plain_allowed = False, sd_block_plain_allowed = False, sd_single_quoted_allowed = False,
       sd_block_allowed = False, sd_style = ANY_SCALAR_STYLE\<rparr>,
     em_head_comment = [], em_line_comment = [], em_foot_comment = [], em_tail_comment = [], em_key_line_comment = []\<rparr>"

end
