(* ===== verification/YamlGrammar.thy ===== *)
theory YamlGrammar
  imports YamlParser
begin

text \<open>
  What the events of the parser are like: a small machine over types of events accepts exactly the well-nested
  streams, and the parser, whatever its tokens are, makes only steps of that machine. Each step uses up
  some of a measure that the number of tokens bounds.
\<close>

section \<open>Well-nested streams of events\<close>

text \<open>
  What is open while a stream is read: the stream before its start, the documents, the end of a document,
  a node that has to come, a sequence, a mapping before a key or its end, and a mapping before a value.
\<close>

datatype frame = FStart | FDocuments | FDocumentEnd | FNode | FSequence | FKey | FValue

text \<open>A node was read: what the frame it belongs to becomes.\<close>

fun node_read :: "frame list \<Rightarrow> frame list option" where
  "node_read (FNode # k) = Some k"
| "node_read (FSequence # k) = Some (FSequence # k)"
| "node_read (FKey # k) = Some (FValue # k)"
| "node_read (FValue # k) = Some (FKey # k)"
| "node_read _ = None"

definition accept :: "yaml_event_type \<Rightarrow> frame list \<Rightarrow> frame list option" where
  "accept e k = (case e of
     STREAM_START_EVENT \<Rightarrow> if k = [FStart] then Some [FDocuments] else None
   | STREAM_END_EVENT \<Rightarrow> if k = [FDocuments] then Some [] else None
   | DOCUMENT_START_EVENT \<Rightarrow> if k = [FDocuments] then Some [FNode, FDocumentEnd, FDocuments] else None
   | DOCUMENT_END_EVENT \<Rightarrow> if k = [FDocumentEnd, FDocuments] then Some [FDocuments] else None
   | ALIAS_EVENT \<Rightarrow> node_read k
   | SCALAR_EVENT \<Rightarrow> node_read k
   | SEQUENCE_START_EVENT \<Rightarrow> map_option ((#) FSequence) (node_read k)
   | SEQUENCE_END_EVENT \<Rightarrow> if take 1 k = [FSequence] then Some (tl k) else None
   | MAPPING_START_EVENT \<Rightarrow> map_option ((#) FKey) (node_read k)
   | MAPPING_END_EVENT \<Rightarrow> if take 1 k = [FKey] then Some (tl k) else None
   | _ \<Rightarrow> None)"

fun accepts :: "yaml_event_type list \<Rightarrow> frame list \<Rightarrow> frame list option" where
  "accepts [] k = Some k"
| "accepts (e # es) k = Option.bind (accept e k) (accepts es)"

lemma accepts_append: "accepts (es @ fs) k = Option.bind (accepts es k) (accepts fs)"
  by (induction es arbitrary: k) (auto split: bind_split)

section \<open>What a state of the parser stands for\<close>

fun state_frames :: "yaml_parser_state \<Rightarrow> frame list" where
  "state_frames PARSE_STREAM_START_STATE = [FStart]"
| "state_frames PARSE_IMPLICIT_DOCUMENT_START_STATE = [FDocuments]"
| "state_frames PARSE_DOCUMENT_START_STATE = [FDocuments]"
| "state_frames PARSE_DOCUMENT_CONTENT_STATE = [FNode]"
| "state_frames PARSE_DOCUMENT_END_STATE = [FDocumentEnd, FDocuments]"
| "state_frames PARSE_BLOCK_NODE_STATE = [FNode]"
| "state_frames PARSE_BLOCK_NODE_OR_INDENTLESS_SEQUENCE_STATE = [FNode]"
| "state_frames PARSE_FLOW_NODE_STATE = [FNode]"
| "state_frames PARSE_BLOCK_SEQUENCE_FIRST_ENTRY_STATE = [FSequence]"
| "state_frames PARSE_BLOCK_SEQUENCE_ENTRY_STATE = [FSequence]"
| "state_frames PARSE_INDENTLESS_SEQUENCE_ENTRY_STATE = [FSequence]"
| "state_frames PARSE_BLOCK_MAPPING_FIRST_KEY_STATE = [FKey]"
| "state_frames PARSE_BLOCK_MAPPING_KEY_STATE = [FKey]"
| "state_frames PARSE_BLOCK_MAPPING_VALUE_STATE = [FValue]"
| "state_frames PARSE_FLOW_SEQUENCE_FIRST_ENTRY_STATE = [FSequence]"
| "state_frames PARSE_FLOW_SEQUENCE_ENTRY_STATE = [FSequence]"
| "state_frames PARSE_FLOW_SEQUENCE_ENTRY_MAPPING_KEY_STATE = [FKey, FSequence]"
| "state_frames PARSE_FLOW_SEQUENCE_ENTRY_MAPPING_VALUE_STATE = [FValue, FSequence]"
| "state_frames PARSE_FLOW_SEQUENCE_ENTRY_MAPPING_END_STATE = [FKey, FSequence]"
| "state_frames PARSE_FLOW_MAPPING_FIRST_KEY_STATE = [FKey]"
| "state_frames PARSE_FLOW_MAPPING_KEY_STATE = [FKey]"
| "state_frames PARSE_FLOW_MAPPING_VALUE_STATE = [FValue]"
| "state_frames PARSE_FLOW_MAPPING_EMPTY_VALUE_STATE = [FValue]"
| "state_frames PARSE_END_STATE = []"

definition parser_frames :: "yaml_parser \<Rightarrow> frame list" where
  "parser_frames p = concat (map state_frames (yp_state p # yp_states p))"

text \<open>How many marks the stack of marks has for a state.\<close>

definition state_marks :: "yaml_parser_state \<Rightarrow> nat" where
  "state_marks s = (if s \<in> {PARSE_BLOCK_SEQUENCE_ENTRY_STATE, PARSE_BLOCK_MAPPING_KEY_STATE, PARSE_BLOCK_MAPPING_VALUE_STATE,
     PARSE_FLOW_SEQUENCE_ENTRY_STATE, PARSE_FLOW_SEQUENCE_ENTRY_MAPPING_KEY_STATE,
     PARSE_FLOW_SEQUENCE_ENTRY_MAPPING_VALUE_STATE, PARSE_FLOW_SEQUENCE_ENTRY_MAPPING_END_STATE,
     PARSE_FLOW_MAPPING_KEY_STATE, PARSE_FLOW_MAPPING_VALUE_STATE, PARSE_FLOW_MAPPING_EMPTY_VALUE_STATE} then 1 else 0)"

text \<open>The states that are pushed, under which the end of the document lies at the bottom of the stack.\<close>

definition is_continuation :: "yaml_parser_state \<Rightarrow> bool" where
  "is_continuation s \<longleftrightarrow> s \<in> {PARSE_BLOCK_SEQUENCE_ENTRY_STATE, PARSE_INDENTLESS_SEQUENCE_ENTRY_STATE,
     PARSE_BLOCK_MAPPING_KEY_STATE, PARSE_BLOCK_MAPPING_VALUE_STATE, PARSE_FLOW_SEQUENCE_ENTRY_STATE,
     PARSE_FLOW_SEQUENCE_ENTRY_MAPPING_VALUE_STATE, PARSE_FLOW_SEQUENCE_ENTRY_MAPPING_END_STATE,
     PARSE_FLOW_MAPPING_KEY_STATE, PARSE_FLOW_MAPPING_VALUE_STATE, PARSE_FLOW_MAPPING_EMPTY_VALUE_STATE}"

fun document_stack :: "yaml_parser_state list \<Rightarrow> bool" where
  "document_stack [] \<longleftrightarrow> False"
| "document_stack (s # ss) \<longleftrightarrow> s = PARSE_DOCUMENT_END_STATE \<and> ss = [] \<or> is_continuation s \<and> document_stack ss"

definition is_outer :: "yaml_parser_state \<Rightarrow> bool" where
  "is_outer s \<longleftrightarrow> s \<in> {PARSE_STREAM_START_STATE, PARSE_IMPLICIT_DOCUMENT_START_STATE, PARSE_DOCUMENT_START_STATE,
     PARSE_DOCUMENT_END_STATE, PARSE_END_STATE}"

definition is_first :: "yaml_parser_state \<Rightarrow> bool" where
  "is_first s \<longleftrightarrow> s \<in> {PARSE_BLOCK_SEQUENCE_FIRST_ENTRY_STATE, PARSE_BLOCK_MAPPING_FIRST_KEY_STATE,
     PARSE_FLOW_SEQUENCE_FIRST_ENTRY_STATE, PARSE_FLOW_MAPPING_FIRST_KEY_STATE}"

definition parser_inv :: "yaml_parser \<Rightarrow> bool" where
  "parser_inv p \<longleftrightarrow> sf_error (yp_failure p) \<noteq> NO_ERROR \<and> yp_tail_comment p = []
     \<and> (yp_stream_end_produced p \<longrightarrow> yp_state p = PARSE_END_STATE)
     \<and> (if is_outer (yp_state p) then yp_states p = [] else document_stack (yp_states p))
     \<and> length (yp_marks p) = sum_list (map state_marks (yp_state p # yp_states p))
     \<and> (is_first (yp_state p) \<longrightarrow> (\<exists>t. yp_available p = Some t \<and> tk_typ t \<noteq> STREAM_END_TOKEN))"

text \<open>The measure: each state has a weight, and a token weighs more than what its use can add.\<close>

definition state_weight :: "yaml_parser_state \<Rightarrow> nat" where
  "state_weight s = (if s \<in> {PARSE_IMPLICIT_DOCUMENT_START_STATE, PARSE_FLOW_SEQUENCE_ENTRY_MAPPING_KEY_STATE} then 5
     else if s = PARSE_FLOW_SEQUENCE_ENTRY_MAPPING_VALUE_STATE then 3
     else if s \<in> {PARSE_DOCUMENT_CONTENT_STATE, PARSE_DOCUMENT_END_STATE, PARSE_BLOCK_NODE_STATE,
       PARSE_BLOCK_NODE_OR_INDENTLESS_SEQUENCE_STATE, PARSE_FLOW_NODE_STATE, PARSE_FLOW_SEQUENCE_ENTRY_MAPPING_END_STATE,
       PARSE_BLOCK_MAPPING_VALUE_STATE, PARSE_FLOW_MAPPING_VALUE_STATE, PARSE_FLOW_MAPPING_EMPTY_VALUE_STATE} then 2
     else 1)"

definition parser_weight :: "yaml_parser \<Rightarrow> nat" where
  "parser_weight p = 5 * tokens_left p + sum_list (map state_weight (yp_state p # yp_states p))
     + (if yp_tail_comment p = [] then 0 else 1)"

section \<open>One step\<close>

text \<open>
  A result is good for the parser \<open>p\<close> that the call began with: no panic, a failure with the error set, and
  an event that is a step of the machine above and makes the measure smaller.
\<close>

definition good_result :: "yaml_parser \<Rightarrow> parse_result \<Rightarrow> bool" where
  "good_result p r = (case r of
     None \<Rightarrow> \<not> parser_inv p
   | Some (None, q) \<Rightarrow> parser_inv p \<longrightarrow> yp_error q \<noteq> NO_ERROR
   | Some (Some e, q) \<Rightarrow> parser_weight q < parser_weight p
       \<and> (parser_inv p \<longrightarrow> parser_inv q \<and> accept (ye_typ e) (parser_frames p) = Some (parser_frames q)))"

lemmas grammar_defs = parser_inv_def parser_frames_def parser_weight_def state_marks_def state_weight_def
  is_outer_def is_first_def is_continuation_def tokens_left_def skip_token_def push_state_def

lemma peek_token_None:
  "peek_token p = (None, q) \<Longrightarrow> yp_error q = sf_error (yp_failure p)"
  by (auto simp: peek_token_def split: option.splits list.splits prod.splits)

lemma good_with_token:
  assumes "parser_inv p \<Longrightarrow> yp_failure p' = yp_failure p"
    and "\<And>t q. peek_token p' = (Some t, q) \<Longrightarrow> good_result p (f t q)"
  shows "good_result p (with_token p' f)"
proof (cases "peek_token p'")
  case (Pair t q)
  then show ?thesis using assms peek_token_None[of p' q]
    by (cases t) (auto simp: with_token_def good_result_def parser_inv_def)
qed

lemma state_marks_simps [simp]:
  "state_marks PARSE_STREAM_START_STATE = 0" "state_marks PARSE_DOCUMENT_END_STATE = 0"
  "state_marks PARSE_IMPLICIT_DOCUMENT_START_STATE = 0" "state_marks PARSE_DOCUMENT_START_STATE = 0"
  "state_marks PARSE_END_STATE = 0" "state_marks PARSE_DOCUMENT_CONTENT_STATE = 0"
  "state_marks PARSE_BLOCK_NODE_STATE = 0" "state_marks PARSE_INDENTLESS_SEQUENCE_ENTRY_STATE = 0"
  by (simp_all add: state_marks_def)

lemma parser_inv_failure: "parser_inv p \<Longrightarrow> sf_error (yp_failure p) \<noteq> NO_ERROR"
  by (simp add: parser_inv_def)

text \<open>A node: what its caller has to provide, and that its event is then good.\<close>

definition node_context :: "yaml_parser \<Rightarrow> yaml_parser \<Rightarrow> bool" where
  "node_context p p' \<longleftrightarrow> 5 * tokens_left p' + 1 + sum_list (map state_weight (yp_states p'))
       + (if yp_tail_comment p' = [] then 0 else 1) < parser_weight p
     \<and> (parser_inv p \<longrightarrow> yp_failure p' = yp_failure p \<and> yp_tail_comment p' = [] \<and> \<not> yp_stream_end_produced p'
       \<and> document_stack (yp_states p') \<and> length (yp_marks p') = sum_list (map state_marks (yp_states p'))
       \<and> node_read (parser_frames p) = Some (concat (map state_frames (yp_states p'))))"

lemma node_context_peek:
  "node_context p p' \<Longrightarrow> peek_token p' = (Some t, q) \<Longrightarrow> node_context p q"
  by (drule peek_token_Some) (auto simp: node_context_def)

lemma node_context_skip:
  "node_context p p' \<Longrightarrow> tk_typ t \<noteq> STREAM_END_TOKEN \<Longrightarrow> node_context p (skip_token t p')"
  by (auto simp: node_context_def skip_token_def tokens_left_def)

lemma document_stack_pushed:
  "document_stack ss \<Longrightarrow> is_continuation s \<Longrightarrow> document_stack (s # ss)"
  by simp

lemma document_stack_inv:
  assumes "document_stack (s # ss)" and "yp_state q = s" and "yp_states q = ss"
    and "sf_error (yp_failure q) \<noteq> NO_ERROR" and "yp_tail_comment q = []" and "\<not> yp_stream_end_produced q"
    and "length (yp_marks q) = sum_list (map state_marks (s # ss))"
  shows "parser_inv q"
  using assms by (auto simp: parser_inv_def is_outer_def is_first_def is_continuation_def)

lemma node_context_weight:
  "node_context p p' \<Longrightarrow> yp_tail_comment q = yp_tail_comment p' \<or> yp_tail_comment q = [] \<Longrightarrow>
   5 * tokens_left q + sum_list (map state_weight (yp_state q # yp_states q))
     \<le> 5 * tokens_left p' + 1 + sum_list (map state_weight (yp_states p')) \<Longrightarrow>
   parser_weight q < parser_weight p"
  unfolding node_context_def parser_weight_def[of q] by (auto split: if_splits)

lemma good_resultI:
  "parser_weight q < parser_weight p \<Longrightarrow> (parser_inv p \<Longrightarrow> parser_inv q) \<Longrightarrow>
   (parser_inv p \<Longrightarrow> accept (ye_typ e) (parser_frames p) = Some (parser_frames q)) \<Longrightarrow> good_result p (Some (Some e, q))"
  by (simp add: good_result_def)

lemma node_leaf_good:
  assumes "node_context p p'" and "tokens_left q \<le> tokens_left p'" and "ye_typ ev \<in> {ALIAS_EVENT, SCALAR_EVENT}"
    and "yp_states p' = yp_state q # yp_states q" and "yp_failure q = yp_failure p'"
    and "yp_tail_comment q = yp_tail_comment p' \<or> yp_tail_comment q = []"
    and "yp_stream_end_produced q \<longrightarrow> yp_stream_end_produced p'" and "yp_marks q = yp_marks p'"
  shows "good_result p (Some (Some ev, q))"
proof (rule good_resultI)
  show "parser_weight q < parser_weight p"
    using assms(2,4) by (intro node_context_weight[OF assms(1) assms(6)]) simp
next
  assume "parser_inv p"
  then show "parser_inv q"
    using assms(1,4-8) by (intro document_stack_inv[of "yp_state q" "yp_states q"]) (auto simp: node_context_def parser_inv_def)
next
  assume "parser_inv p"
  then show "accept (ye_typ ev) (parser_frames p) = Some (parser_frames q)"
    using assms(1,3,4) by (auto simp: node_context_def accept_def parser_frames_def[of q])
qed

lemma node_start_good:
  assumes "node_context p p'" and "tokens_left q \<le> tokens_left p'" and "yp_states q = yp_states p'"
    and "yp_failure q = yp_failure p'" and "yp_tail_comment q = yp_tail_comment p' \<or> yp_tail_comment q = []"
    and "yp_stream_end_produced q = yp_stream_end_produced p'" and "yp_marks q = yp_marks p'"
    and "is_first (yp_state q) \<and> yp_available q = Some t \<and> tk_typ t \<noteq> STREAM_END_TOKEN
      \<or> yp_state q = PARSE_INDENTLESS_SEQUENCE_ENTRY_STATE"
    and "ye_typ ev = (if state_frames (yp_state q) = [FKey] then MAPPING_START_EVENT else SEQUENCE_START_EVENT)"
  shows "good_result p (Some (Some ev, q))"
proof (rule good_resultI)
  have one: "state_weight (yp_state q) = 1 \<and> state_marks (yp_state q) = 0 \<and> \<not> is_outer (yp_state q)
      \<and> (state_frames (yp_state q) = [FKey] \<or> state_frames (yp_state q) = [FSequence])
      \<and> (is_first (yp_state q) \<longrightarrow> (\<exists>t. yp_available q = Some t \<and> tk_typ t \<noteq> STREAM_END_TOKEN))"
    using assms(8) by (auto simp: is_first_def state_weight_def state_marks_def is_outer_def)
  show "parser_weight q < parser_weight p"
    using assms(2,3) one by (intro node_context_weight[OF assms(1) assms(5)]) simp
  show "parser_inv q" if "parser_inv p"
    using that assms(1,3-7) one by (auto simp: node_context_def parser_inv_def[of q] dest: parser_inv_failure)
  show "accept (ye_typ ev) (parser_frames p) = Some (parser_frames q)" if "parser_inv p"
    using that assms(1,3,9) one by (auto simp: node_context_def accept_def parser_frames_def[of q])
qed

text \<open>A function that fails leaves an error.\<close>

lemma good_failure: "yp_error q \<noteq> NO_ERROR \<Longrightarrow> good_result p (Some (None, q))"
  by (simp add: good_result_def)

lemma good_with_token_node:
  assumes "node_context p p'" and "\<And>t q. node_context p q \<Longrightarrow> yp_available q = Some t \<Longrightarrow> good_result p (f t q)"
  shows "good_result p (with_token p' f)"
  using assms node_context_peek[OF assms(1)]
  by (intro good_with_token) (auto simp: node_context_def dest: peek_token_Some)

lemma good_popped_node:
  assumes "node_context p p'"
    and "\<And>q. yp_states p' = yp_state q # yp_states q \<Longrightarrow> q = p'\<lparr>yp_state := yp_state q, yp_states := yp_states q\<rparr> \<Longrightarrow> good_result p (f q)"
  shows "good_result p (with_popped_state p' f)"
proof (cases "yp_states p'")
  case Nil
  then show ?thesis using assms(1) by (auto simp: with_popped_state_def good_result_def node_context_def)
next
  case (Cons s ss)
  then show ?thesis using assms(2)[of "p'\<lparr>yp_state := s, yp_states := ss\<rparr>"] by (simp add: with_popped_state_def)
qed

lemmas node_results = commented_skip_def yaml_parser_set_event_comments_def flow_start_def block_start_def
  skip_token_def tokens_left_def collection_event_def scalar_event_def zero_event_def

lemma node_scalar_good:
  assumes "node_context p p'" and "yp_available p' = Some t" and "tk_typ t \<noteq> STREAM_END_TOKEN"
    and "ye_typ ev \<in> {ALIAS_EVENT, SCALAR_EVENT}"
  shows "good_result p (with_popped_state p' (commented_skip ev t))"
proof (rule good_popped_node[OF assms(1)])
  fix q assume q: "yp_states p' = yp_state q # yp_states q" "q = p'\<lparr>yp_state := yp_state q, yp_states := yp_states q\<rparr>"
  obtain s ss where "q = p'\<lparr>yp_state := s, yp_states := ss\<rparr>" using q(2) by blast
  then show "good_result p (commented_skip ev t q)"
    using assms q(1) by (auto simp: node_results intro!: node_leaf_good[OF assms(1)])
qed

lemma node_content_good:
  assumes c: "node_context p p'" and t: "yp_available p' = Some t"
  shows "good_result p (node_content block indentless np t p')"
proof (cases "resolve_tag np p'")
  case None
  then show ?thesis by (auto simp: node_content_def yaml_parser_set_parser_error_context_def intro!: good_failure)
next
  case (Some tag)
  have scalar: "good_result p (with_popped_state p' (commented_skip (scalar_event np tg t) t))" if "tk_typ t = SCALAR_TOKEN" for tg
    using that by (intro node_scalar_good[OF c t]) (auto simp: scalar_event_def Let_def)
  have empty: "good_result p (with_popped_state p' (\<lambda>q. Some (Some ev, q)))"
    if "ye_typ ev = SCALAR_EVENT" for ev
  proof (rule good_popped_node[OF c])
    fix q assume q: "yp_states p' = yp_state q # yp_states q" "q = p'\<lparr>yp_state := yp_state q, yp_states := yp_states q\<rparr>"
    obtain s ss where e: "q = p'\<lparr>yp_state := s, yp_states := ss\<rparr>" using q(2) by blast
    show "good_result p (Some (Some ev, q))"
      using q(1) that by (intro node_leaf_good[OF c]) (auto simp: e tokens_left_def)
  qed
  have coll: "good_result p (Some (Some ev, q))"
    if "yp_available q = Some t \<and> tk_typ t \<noteq> STREAM_END_TOKEN \<and> is_first (yp_state q) \<or> yp_state q = PARSE_INDENTLESS_SEQUENCE_ENTRY_STATE"
      "ye_typ ev = (if state_frames (yp_state q) = [FKey] then MAPPING_START_EVENT else SEQUENCE_START_EVENT)"
      "tokens_left q = tokens_left p'" "yp_states q = yp_states p'" "yp_failure q = yp_failure p'"
      "yp_tail_comment q = yp_tail_comment p' \<or> yp_tail_comment q = []"
      "yp_stream_end_produced q = yp_stream_end_produced p'" "yp_marks q = yp_marks p'" for q ev
    using that by (intro node_start_good[OF c, where t = t]) auto
  show ?thesis
    unfolding node_content_def Some option.case
    using t by (auto intro!: scalar empty coll good_failure simp: yaml_parser_set_parser_error_context_def flow_start_def block_start_def
       collection_event_def yaml_parser_set_event_comments_def tokens_left_def is_first_def Let_def)
qed

lemma good_skip_node:
  assumes "node_context p p'" and "tk_typ t0 \<noteq> STREAM_END_TOKEN"
    and "\<And>t q. node_context p q \<Longrightarrow> yp_available q = Some t \<Longrightarrow> good_result p (f t q)"
  shows "good_result p (with_token (skip_token t0 p') f)"
  using assms(3) by (rule good_with_token_node[OF node_context_skip[OF assms(1,2)]])

lemma with_properties_good:
  assumes "node_context p p'" and "yp_available p' = Some t"
    and f: "\<And>np t' q. node_context p q \<Longrightarrow> yp_available q = Some t' \<Longrightarrow> good_result p (f np t' q)"
  shows "good_result p (with_properties t p' f)"
  using assms(1,2) by (auto simp: with_properties_def Let_def intro!: good_skip_node f)

lemma yaml_parser_parse_node_good:
  assumes "node_context p p'"
  shows "good_result p (yaml_parser_parse_node block indentless p')"
  unfolding yaml_parser_parse_node_def
  by (rule good_with_token_node[OF assms])
    (auto intro!: node_scalar_good with_properties_good node_content_good simp: zero_event_def)

section \<open>Directives and documents\<close>

definition same_stacks :: "yaml_parser \<Rightarrow> yaml_parser \<Rightarrow> bool" where
  "same_stacks p q \<longleftrightarrow> tokens_left q \<le> tokens_left p \<and> yp_states q = yp_states p \<and> yp_state q = yp_state p
     \<and> yp_failure q = yp_failure p \<and> yp_tail_comment q = yp_tail_comment p
     \<and> (yp_stream_end_produced q \<longrightarrow> yp_stream_end_produced p) \<and> yp_marks q = yp_marks p"

lemma same_stacks_refl [simp]: "same_stacks p p"
  by (simp add: same_stacks_def)

lemma same_stacks_trans: "same_stacks p q \<Longrightarrow> same_stacks q r \<Longrightarrow> same_stacks p r"
  by (auto simp: same_stacks_def)

lemma same_stacks_peek: "peek_token p = (Some t, q) \<Longrightarrow> same_stacks p q \<and> yp_available q = Some t"
  by (drule peek_token_Some) (auto simp: same_stacks_def)

lemma same_stacks_peek_skip:
  "peek_token p = (Some t, q) \<Longrightarrow> tk_typ t \<noteq> STREAM_END_TOKEN \<Longrightarrow> same_stacks p (skip_token t q)"
  by (drule peek_token_Some) (auto simp: same_stacks_def skip_token_def tokens_left_def)

lemma skipDocumentEnds_same:
  "skipDocumentEnds p = (r, q) \<Longrightarrow> (case r of None \<Rightarrow> yp_error q = sf_error (yp_failure p)
     | Some t \<Rightarrow> same_stacks p q \<and> yp_available q = Some t)"
proof (induction p rule: skipDocumentEnds.induct)
  case (1 p)
  obtain r0 p0 where peek: "peek_token p = (r0, p0)" by fastforce
  show ?case
  proof (cases r0)
    case None
    then show ?thesis using "1.prems" peek peek_token_None[of p p0] by (subst (asm) skipDocumentEnds.simps) auto
  next
    case (Some t)
    show ?thesis
    proof (cases "tk_typ t = DOCUMENT_END_TOKEN")
      case True
      have "skipDocumentEnds (skip_token t p0) = (r, q)"
        using "1.prems" peek Some True by (subst (asm) skipDocumentEnds.simps) simp
      moreover have "same_stacks p (skip_token t p0)" using peek Some True by (intro same_stacks_peek_skip) auto
      ultimately show ?thesis using "1.IH"[OF peek[symmetric] Some True]
        by (auto simp: same_stacks_def split: option.splits)
    next
      case False
      then show ?thesis using "1.prems" peek Some same_stacks_peek[of p t p0] by (subst (asm) skipDocumentEnds.simps) auto
    qed
  qed
qed

lemma append_tag_directive_same:
  assumes "yaml_parser_append_tag_directive v d m p = (ok, q)"
  shows "(ok \<longrightarrow> same_stacks p q \<and> yp_available q = yp_available p) \<and> (\<not> ok \<longrightarrow> yp_error q = PARSER_ERROR)"
  using assms
  by (auto simp: yaml_parser_append_tag_directive_def yaml_parser_set_parser_error_def same_stacks_def tokens_left_def
    split: if_splits)

lemma append_default_directives_same: "same_stacks p (append_default_directives m p)"
  by (auto simp: append_default_directives_def default_tag_directives_def yaml_parser_append_tag_directive_def
    same_stacks_def tokens_left_def)

lemma directivesLoop_same:
  "directivesLoop v ts p = (r, q) \<Longrightarrow>
   (case r of None \<Rightarrow> sf_error (yp_failure p) \<noteq> NO_ERROR \<longrightarrow> yp_error q \<noteq> NO_ERROR | Some _ \<Rightarrow> same_stacks p q)"
proof (induction v ts p rule: directivesLoop.induct)
  case (1 v ts p)
  obtain r0 p0 where peek: "peek_token p = (r0, p0)" by fastforce
  show ?case
  proof (cases r0)
    case None
    then show ?thesis using "1.prems" peek peek_token_None[of p p0] by (subst (asm) directivesLoop.simps) auto
  next
    case (Some t)
    note peek' = peek[unfolded Some]
    note same = same_stacks_peek[OF peek'] same_stacks_peek_skip[OF peek']
    consider (version) "tk_typ t = VERSION_DIRECTIVE_TOKEN" | (tag) "tk_typ t = TAG_DIRECTIVE_TOKEN"
      | (other) "tk_typ t \<noteq> VERSION_DIRECTIVE_TOKEN" "tk_typ t \<noteq> TAG_DIRECTIVE_TOKEN" by blast
    then show ?thesis
    proof cases
      case version
      show ?thesis
      proof (cases "v = None \<and> tk_major t = 1 \<and> tk_minor t = 1")
        case True
        then have "directivesLoop (Some (1, 1)) ts (skip_token t p0) = (r, q)"
          using "1.prems" peek' version by (subst (asm) directivesLoop.simps) simp
        with "1.IH"(1)[OF peek[symmetric] Some] version True same show ?thesis
          by (auto simp: same_stacks_def split: option.splits)
      next
        case False
        then show ?thesis using "1.prems" peek' version
          by (subst (asm) directivesLoop.simps) (auto simp: yaml_parser_set_parser_error_def split: if_splits)
      qed
    next
      case tag
      obtain ok p1 where ap: "yaml_parser_append_tag_directive (tk_value t, tk_prefix t) False (tk_start t) p0 = (ok, p1)" by fastforce
      show ?thesis
      proof (cases ok)
        case True
        have "directivesLoop v (ts @ [(tk_value t, tk_prefix t)]) (skip_token t p1) = (r, q)"
          using "1.prems" peek' tag ap True by (subst (asm) directivesLoop.simps) simp
        moreover have "same_stacks p (skip_token t p1)"
          using append_tag_directive_same[OF ap] same True tag by (auto simp: same_stacks_def skip_token_def tokens_left_def)
        moreover have "tk_typ t \<noteq> VERSION_DIRECTIVE_TOKEN" using tag by simp
        ultimately have "case r of None \<Rightarrow> sf_error (yp_failure (skip_token t p1)) \<noteq> NO_ERROR \<longrightarrow> yp_error q \<noteq> NO_ERROR
            | Some _ \<Rightarrow> same_stacks (skip_token t p1) q"
          using "1.IH"(2)[OF peek[symmetric] Some _ tag ap[unfolded eqTrueI[OF True], symmetric] refl] by simp
        with \<open>same_stacks p (skip_token t p1)\<close> show ?thesis
          by (cases r) (auto intro: same_stacks_trans simp: same_stacks_def)
      next
        case False
        then show ?thesis using "1.prems"(1) peek' tag append_tag_directive_same[OF ap] ap
          by (subst (asm) directivesLoop.simps) auto
      qed
    next
      case other
      then show ?thesis using "1.prems" peek' same same_stacks_trans[OF _ append_default_directives_same]
        by (subst (asm) directivesLoop.simps) auto
    qed
  qed
qed

section \<open>Entries of collections\<close>

text \<open>
  The parser \<open>p'\<close> inside a collection of the parser \<open>p\<close>: \<open>fr\<close> is what the state of \<open>p\<close> stands for, \<open>m\<close> the
  number of its marks, and \<open>w\<close> what is left of its weight.
\<close>

definition entry_context :: "nat \<Rightarrow> frame list \<Rightarrow> nat \<Rightarrow> yaml_parser \<Rightarrow> yaml_parser \<Rightarrow> bool" where
  "entry_context w fr m p p' \<longleftrightarrow> yp_state p' = yp_state p \<and> 5 * tokens_left p' + w + sum_list (map state_weight (yp_states p'))
       + (if yp_tail_comment p' = [] then 0 else 1) \<le> parser_weight p
     \<and> (parser_inv p \<longrightarrow> yp_failure p' = yp_failure p \<and> yp_tail_comment p' = [] \<and> \<not> yp_stream_end_produced p'
       \<and> document_stack (yp_states p') \<and> length (yp_marks p') = m + sum_list (map state_marks (yp_states p'))
       \<and> parser_frames p = fr @ concat (map state_frames (yp_states p')))"

lemma node_read_append: "node_read fr = Some fs \<Longrightarrow> node_read (fr @ k) = Some (fs @ k)"
  by (cases fr rule: node_read.cases) auto

lemma entry_context_same: "entry_context w fr m p p' \<Longrightarrow> same_stacks p' q \<Longrightarrow> entry_context w fr m p q"
  by (auto simp: entry_context_def same_stacks_def)

lemma parser_frames_skip [simp]: "parser_frames (skip_token t q) = parser_frames q"
  by (simp add: parser_frames_def skip_token_def)

lemma entry_context_peek:
  "entry_context w fr m p p' \<Longrightarrow> peek_token p' = (Some t, q) \<Longrightarrow> entry_context w fr m p q"
  by (auto dest: same_stacks_peek entry_context_same)

lemma entry_context_skip:
  assumes "entry_context w fr m p p'" and "yp_available p' = Some t" and "tk_typ t \<noteq> STREAM_END_TOKEN"
  shows "entry_context (w + 5) fr m p (skip_token t p')"
  using assms by (auto simp: entry_context_def skip_token_def tokens_left_def)

lemma good_with_token_entry:
  assumes "entry_context w fr m p p'"
    and "\<And>t q. entry_context w fr m p q \<Longrightarrow> yp_available q = Some t \<Longrightarrow> good_result p (f t q)"
  shows "good_result p (with_token p' f)"
  using assms entry_context_peek[OF assms(1)]
  by (intro good_with_token) (auto simp: entry_context_def dest: peek_token_Some)

lemma good_with_token_skip:
  assumes "entry_context w fr m p p'" and "yp_available p' = Some t0" and "tk_typ t0 \<noteq> STREAM_END_TOKEN"
    and "\<And>t q. entry_context (w + 5) fr m p q \<Longrightarrow> yp_available q = Some t \<Longrightarrow> good_result p (f t q)"
  shows "good_result p (with_token (skip_token t0 p') f)"
  using assms(4) by (rule good_with_token_entry[OF entry_context_skip[OF assms(1-3)]])

lemma entry_node_good:
  assumes c: "entry_context w fr m p p'" and s: "is_continuation s" "node_read fr = Some (state_frames s)" "state_marks s = m"
    "state_weight s + 1 < w"
  shows "good_result p (yaml_parser_parse_node block indentless (push_state s p'))"
proof (rule yaml_parser_parse_node_good)
  show "node_context p (push_state s p')"
    using c s node_read_append[OF s(2)]
    by (auto simp: node_context_def entry_context_def push_state_def tokens_left_def)
qed

lemma entry_empty_good:
  assumes c: "entry_context w fr m p p'" and s: "is_continuation s" "node_read fr = Some (state_frames s)" "state_marks s = m"
    "state_weight s < w"
  shows "good_result p (yaml_parser_process_empty_scalar mk (p'\<lparr>yp_state := s\<rparr>))"
  unfolding yaml_parser_process_empty_scalar_def
proof (rule good_resultI)
  show "parser_weight (p'\<lparr>yp_state := s\<rparr>) < parser_weight p"
    using c s(4) unfolding entry_context_def parser_weight_def[of "p'\<lparr>yp_state := s\<rparr>"] tokens_left_def by simp
  show "parser_inv (p'\<lparr>yp_state := s\<rparr>)" if "parser_inv p"
    using that c s parser_inv_failure[OF that]
    by (intro document_stack_inv[of s "yp_states p'"]) (auto simp: entry_context_def)
  show "accept (ye_typ (zero_event\<lparr>ye_typ := SCALAR_EVENT, ye_start := mk, ye_end := mk, ye_implicit := True,
       ye_style := ScalarStyle PLAIN_SCALAR_STYLE\<rparr>)) (parser_frames p) = Some (parser_frames (p'\<lparr>yp_state := s\<rparr>))"
    if "parser_inv p"
    using that c node_read_append[OF s(2)] by (auto simp: accept_def entry_context_def parser_frames_def[of "p'\<lparr>yp_state := s\<rparr>"])
qed

lemma node_or_empty_good:
  assumes "entry_context w fr m p p'" and "is_continuation s" "node_read fr = Some (state_frames s)" "state_marks s = m"
    "state_weight s + 1 < w"
  shows "good_result p (node_or_empty ends s block indentless mk t p')"
  using assms by (auto simp: node_or_empty_def intro!: entry_node_good entry_empty_good)

text \<open>A collection ends: its state and its mark are popped, and its last token is skipped.\<close>

lemma entry_close_good:
  assumes c: "entry_context w [f] (Suc 0) p p'" and t: "yp_available p' = Some t" "tk_typ t \<noteq> STREAM_END_TOKEN"
    and ev: "f = FSequence \<and> ye_typ ev = SEQUENCE_END_EVENT \<or> f = FKey \<and> ye_typ ev = MAPPING_END_EVENT"
  shows "good_result p (close_collection p' (\<lambda>p. Some (Some ev, skip_token t p)))" (is ?plain)
    and "good_result p (close_collection p' (commented_skip ev t))" (is ?commented)
proof -
  have good: "good_result p (Some (Some e, skip_token t q))"
    if "yp_states p' = yp_state q # yp_states q" "yp_marks p' = mk # yp_marks q" "yp_failure q = yp_failure p'"
      "yp_tail_comment q = yp_tail_comment p' \<or> yp_tail_comment q = []" "yp_scan q = yp_scan p'"
      "ye_typ e = ye_typ ev" for q mk e
  proof (rule good_resultI)
    show "parser_weight (skip_token t q) < parser_weight p"
      using c that t unfolding entry_context_def parser_weight_def[of "skip_token t q"]
      by (auto simp: skip_token_def tokens_left_def split: if_splits)
    show "parser_inv (skip_token t q)" if "parser_inv p"
      using that \<open>yp_states p' = yp_state q # yp_states q\<close> \<open>yp_marks p' = mk # yp_marks q\<close> \<open>yp_failure q = yp_failure p'\<close>
        \<open>yp_tail_comment q = yp_tail_comment p' \<or> yp_tail_comment q = []\<close> c t parser_inv_failure[OF that]
      by (intro document_stack_inv[of "yp_state q" "yp_states q"]) (auto simp: entry_context_def skip_token_def)
    show "accept (ye_typ e) (parser_frames p) = Some (parser_frames (skip_token t q))" if "parser_inv p"
      using that \<open>yp_states p' = yp_state q # yp_states q\<close> \<open>ye_typ e = ye_typ ev\<close> c ev
      by (auto simp: entry_context_def accept_def parser_frames_def[of q])
  qed
  have empty: "\<not> parser_inv p" if "yp_states p' = [] \<or> yp_marks p' = []"
    using that c by (auto simp: entry_context_def)
  show ?plain
    by (auto simp: close_collection_def with_popped_state_def with_popped_mark_def split: list.split intro!: good)
      (use empty in \<open>auto simp: good_result_def\<close>)
  show ?commented
    by (auto simp: close_collection_def with_popped_state_def with_popped_mark_def commented_skip_def
      yaml_parser_set_event_comments_def split: list.split intro!: good)
      (use empty in \<open>auto simp: good_result_def\<close>)
qed

lemma entry_error_good:
  "entry_context w fr (Suc 0) p p' \<Longrightarrow> good_result p (collection_error ctx problem t p')"
  by (auto simp: collection_error_def with_popped_mark_def good_result_def yaml_parser_set_parser_error_context_def
    entry_context_def split: list.split)

lemma entry_context_weaken: "entry_context w fr m p p' \<Longrightarrow> w' \<le> w \<Longrightarrow> entry_context w' fr m p p'"
  by (auto simp: entry_context_def)

lemma entry_context_state:
  assumes "yp_state p = s" and "\<not> is_outer s"
  shows "entry_context (state_weight s) (state_frames s) (state_marks s) p p"
  using assms by (auto simp: entry_context_def parser_inv_def parser_weight_def parser_frames_def is_outer_def)

lemma open_collection_good:
  assumes s: "yp_state p = s" "if first then is_first s else \<not> is_outer s \<and> state_marks s = 1 \<and> state_weight s = 1"
    and f: "\<And>q. entry_context 1 (state_frames s) (Suc 0) p q \<Longrightarrow>
      (first \<Longrightarrow> entry_context 6 (state_frames s) (Suc 0) p q) \<Longrightarrow> good_result p (f q)"
  shows "good_result p (open_collection first p f)"
proof (cases first)
  case True
  have st: "\<not> is_outer s" "state_weight s = 1" "state_marks s = 0"
    using s True by (auto simp: is_first_def is_outer_def state_weight_def state_marks_def)
  have "entry_context 6 (state_frames s) (Suc 0) p (skip_token t (q\<lparr>yp_marks := tk_start t # yp_marks q\<rparr>))"
    if q: "entry_context 1 (state_frames s) 0 p q" "yp_available q = Some t" "parser_inv p \<Longrightarrow> tk_typ t \<noteq> STREAM_END_TOKEN" for t q
    using q by (auto simp: entry_context_def skip_token_def tokens_left_def)
  moreover have "tk_typ t \<noteq> STREAM_END_TOKEN" if "parser_inv p" "peek_token p = (Some t, q)" for t q
    using that s True by (auto simp: parser_inv_def peek_token_def)
  ultimately have c: "entry_context 6 (state_frames s) (Suc 0) p (skip_token t (q\<lparr>yp_marks := tk_start t # yp_marks q\<rparr>))"
    if "peek_token p = (Some t, q)" for t q
    using entry_context_peek[OF entry_context_state[OF s(1) st(1)] that] that st same_stacks_peek[OF that] by simp
  have "good_result p (f (skip_token t (q\<lparr>yp_marks := tk_start t # yp_marks q\<rparr>)))" if "peek_token p = (Some t, q)" for t q
    using c[OF that] entry_context_weaken[OF c[OF that], of 1] by (intro f) simp_all
  then show ?thesis using True by (auto simp: open_collection_def intro!: good_with_token)
next
  case False
  then show ?thesis using s entry_context_state[of p s] by (auto simp: open_collection_def intro!: f)
qed

lemma open_flow_mapping_good:
  assumes s: "yp_state p = s" "if first then is_first s else \<not> is_outer s \<and> state_marks s = 1 \<and> state_weight s = 1"
    and f: "\<And>q. entry_context 1 (state_frames s) (Suc 0) p q \<Longrightarrow>
      (first \<Longrightarrow> entry_context 6 (state_frames s) (Suc 0) p q) \<Longrightarrow> good_result p (f q)"
  shows "good_result p (open_flow_mapping first p f)"
proof (cases "first \<and> fst (peek_token p) = None")
  case True
  then have "\<not> parser_inv p"
    using s by (auto simp: parser_inv_def peek_token_def)
  then show ?thesis using True
    by (auto simp: open_flow_mapping_def good_result_def split: prod.splits)
next
  case False
  then have "open_flow_mapping first p f = open_collection first p f"
    by (auto simp: open_flow_mapping_def open_collection_def with_token_def split: prod.splits option.splits)
  then show ?thesis using open_collection_good[OF s f] by simp
qed

lemma same_stacks_comments:
  "same_stacks p q \<Longrightarrow> same_stacks p (q\<lparr>yp_stem_comment := c, yp_head_comment := h\<rparr>)"
  by (simp add: same_stacks_def tokens_left_def)

lemma split_stem_comment_same: "same_stacks p (yaml_parser_split_stem_comment n p)"
proof (cases "peek_token p")
  case (Pair t q)
  show ?thesis
  proof (cases t)
    case None
    have "same_stacks p q" using Pair None
      by (auto simp: peek_token_def same_stacks_def tokens_left_def split: option.splits list.splits prod.splits)
    then show ?thesis using Pair None by (simp add: yaml_parser_split_stem_comment_def)
  next
    case (Some t')
    have "same_stacks p q" using same_stacks_peek Pair Some by blast
    then show ?thesis using Pair Some same_stacks_comments by (simp add: yaml_parser_split_stem_comment_def)
  qed
qed

lemma block_entry_good:
  assumes c: "entry_context w fr m p p'" "yp_available p' = Some t" "tk_typ t = BLOCK_ENTRY_TOKEN"
    and s: "is_continuation s" "node_read fr = Some (state_frames s)" "state_marks s = m" "state_weight s + 1 < w + 5"
  shows "good_result p (block_entry ends s t p')"
  unfolding block_entry_def Let_def
  by (rule good_with_token_entry[OF entry_context_same[OF entry_context_skip[OF c(1,2)] split_stem_comment_same]])
    (use c(3) s in \<open>auto intro: node_or_empty_good\<close>)

end
