(* ===== verification/YamlEvents.thy ===== *)
theory YamlEvents
  imports YamlGrammar
begin

text \<open>
  Every state of the parser makes a good step, and so the whole stream of events that the parser delivers is
  well nested and bounded by its tokens.
\<close>

section \<open>Every state makes a good step\<close>

lemma stream_start_good:
  assumes "yp_state p = PARSE_STREAM_START_STATE"
  shows "good_result p (yaml_parser_parse_stream_start p)"
  unfolding yaml_parser_parse_stream_start_def
proof (rule good_with_token)
  fix t q assume "peek_token p = (Some t, q)"
  from peek_token_Some[OF this] assms
  show "good_result p (if tk_typ t \<noteq> STREAM_START_TOKEN
     then Some (None, yaml_parser_set_parser_error ''did not find expected <stream-start>'' (tk_start t) q)
     else Some (Some (zero_event\<lparr>ye_typ := STREAM_START_EVENT, ye_start := tk_start t, ye_end := tk_end t,
            ye_encoding := tk_encoding t\<rparr>),
          skip_token t (q\<lparr>yp_state := PARSE_IMPLICIT_DOCUMENT_START_STATE\<rparr>)))"
    by (auto simp: yaml_parser_set_parser_error_def good_result_def grammar_defs accept_def)
qed simp

text \<open>A step of the stream or of a document, which may push the end of the document.\<close>

lemma outer_good:
  assumes same: "same_stacks p q0" and p: "is_outer (yp_state p)"
    and q: "yp_states q = pushed @ yp_states q0" "yp_marks q = yp_marks q0" "yp_failure q = yp_failure q0"
      "yp_tail_comment q = yp_tail_comment q0 \<or> yp_tail_comment q = []"
      "yp_stream_end_produced q \<longrightarrow> yp_state q = PARSE_END_STATE \<or> yp_stream_end_produced q0"
    and weight: "5 * tokens_left q + state_weight (yp_state q) + sum_list (map state_weight pushed)
      < 5 * tokens_left q0 + state_weight (yp_state p)"
    and state: "pushed = [] \<and> is_outer (yp_state q) \<or> pushed = [PARSE_DOCUMENT_END_STATE] \<and> \<not> is_outer (yp_state q)"
      "\<not> is_first (yp_state q)" "state_marks (yp_state q) = 0"
    and ev: "accept (ye_typ ev) (state_frames (yp_state p)) = Some (concat (map state_frames (yp_state q # pushed)))"
  shows "good_result p (Some (Some ev, q))"
proof (rule good_resultI)
  show "parser_weight q < parser_weight p"
    using same q weight by (auto simp: parser_weight_def same_stacks_def)
next
  assume "parser_inv p"
  then have i: "yp_states p = [] \<and> yp_tail_comment p = [] \<and> yp_marks p = [] \<and> sf_error (yp_failure p) \<noteq> NO_ERROR
      \<and> (yp_stream_end_produced p \<longrightarrow> yp_state p = PARSE_END_STATE)"
    using p by (auto simp: parser_inv_def is_outer_def)
  have "yp_state p \<noteq> PARSE_END_STATE" using ev by (auto simp: accept_def split: yaml_event_type.splits if_splits)
  then show "parser_inv q"
    using i same q state by (auto simp: parser_inv_def same_stacks_def)
  show "accept (ye_typ ev) (parser_frames p) = Some (parser_frames q)"
    using ev i same q(1) by (auto simp: parser_frames_def same_stacks_def)
qed

lemmas outer_states = same_stacks_def tokens_left_def skip_token_def push_state_def state_weight_def is_outer_def is_first_def accept_def

lemma document_start_good:
  assumes "yp_state p = (if implicit then PARSE_IMPLICIT_DOCUMENT_START_STATE else PARSE_DOCUMENT_START_STATE)"
  shows "good_result p (yaml_parser_parse_document_start implicit p)"
proof -
  have i: "sf_error (yp_failure p) \<noteq> NO_ERROR" if "parser_inv p"
    using that by (rule parser_inv_failure)
  have p: "is_outer (yp_state p)" using assms by (simp add: is_outer_def)
  have implicit: "good_result p (implicit_document_start t q)" if q: "same_stacks p q" "yp_available q = Some t" "implicit" for t q
  proof (cases "directivesLoop None [] q")
    case (Pair r u)
    note d = directivesLoop_same[OF Pair]
    show ?thesis
    proof (cases r)
      case None
      then show ?thesis using Pair d q i
        by (auto simp: implicit_document_start_def yaml_parser_process_directives_def good_result_def same_stacks_def)
    next
      case (Some x)
      then have u: "same_stacks p u" using d q same_stacks_trans by auto
      have "good_result p (Some (Some ev, (push_state PARSE_DOCUMENT_END_STATE u)\<lparr>yp_state := PARSE_BLOCK_NODE_STATE, yp_head_comment := h\<rparr>))"
        if "ye_typ ev = DOCUMENT_START_EVENT" for ev h
        using assms q(3) that u
        by (intro outer_good[OF u p, where pushed = "[PARSE_DOCUMENT_END_STATE]"]) (simp_all add: outer_states)
      then show ?thesis using Pair Some
        by (auto simp: implicit_document_start_def yaml_parser_process_directives_def Let_def split: prod.split)
    qed
  qed
  have explicit: "good_result p (explicit_document_start t q)" if q: "same_stacks p q" "yp_available q = Some t" for t q
  proof (cases "directivesLoop None [] q")
    case (Pair r u)
    note d = directivesLoop_same[OF Pair]
    show ?thesis
    proof (cases r)
      case None
      then show ?thesis using Pair d q i
        by (auto simp: explicit_document_start_def yaml_parser_process_directives_def good_result_def same_stacks_def)
    next
      case (Some x)
      then have u: "same_stacks p u" using d q same_stacks_trans by auto
      have start: "good_result p (Some (Some ev, skip_token t' ((push_state PARSE_DOCUMENT_END_STATE v)\<lparr>yp_state := PARSE_DOCUMENT_CONTENT_STATE\<rparr>)))"
        if "same_stacks p v" "yp_available v = Some t'" "tk_typ t' = DOCUMENT_START_TOKEN" "ye_typ ev = DOCUMENT_START_EVENT" for ev t' v
        using assms that
        by (intro outer_good[OF that(1) p, where pushed = "[PARSE_DOCUMENT_END_STATE]"]) (simp_all add: outer_states)
      show ?thesis using Pair Some u i same_stacks_trans[OF u] same_stacks_peek
        by (auto simp: explicit_document_start_def yaml_parser_process_directives_def yaml_parser_set_parser_error_def
          split: prod.split intro!: good_with_token good_failure start) (auto simp: same_stacks_def)
    qed
  qed
  have finish: "good_result p (Some (Some ev, skip_token t (q\<lparr>yp_state := PARSE_END_STATE\<rparr>)))"
    if q: "same_stacks p q" "yp_available q = Some t" "ye_typ ev = STREAM_END_EVENT" for t q ev
    using assms q by (intro outer_good[OF q(1) p, where pushed = "[]"]) (simp_all add: outer_states)
  have start: "good_result p (if implicit \<and> tk_typ t \<notin> {VERSION_DIRECTIVE_TOKEN, TAG_DIRECTIVE_TOKEN, DOCUMENT_START_TOKEN, STREAM_END_TOKEN}
          then implicit_document_start t q
          else if tk_typ t \<noteq> STREAM_END_TOKEN then explicit_document_start t q
          else Some (Some (zero_event\<lparr>ye_typ := STREAM_END_EVENT, ye_start := tk_start t, ye_end := tk_end t\<rparr>),
                 skip_token t (q\<lparr>yp_state := PARSE_END_STATE\<rparr>)))"
    if "same_stacks p q \<and> yp_available q = Some t" for t q
    using that by (auto intro!: implicit explicit finish)
  show ?thesis
  proof (cases "if implicit then peek_token p else skipDocumentEnds p")
    case (Pair r q)
    have "case r of None \<Rightarrow> yp_error q = sf_error (yp_failure p) | Some t \<Rightarrow> same_stacks p q \<and> yp_available q = Some t"
      using Pair skipDocumentEnds_same[of p r q] peek_token_None[of p q] same_stacks_peek[of p _ q]
      by (auto split: if_splits option.splits)
    then show ?thesis using start[of q] i unfolding yaml_parser_parse_document_start_def Pair
      by (cases r) (simp_all add: good_result_def)
  qed
qed

lemma document_content_good:
  assumes "yp_state p = PARSE_DOCUMENT_CONTENT_STATE"
  shows "good_result p (yaml_parser_parse_document_content p)"
proof -
  have c: "node_context p p"
    using assms by (auto simp: node_context_def parser_inv_def parser_weight_def parser_frames_def state_weight_def is_outer_def)
  show ?thesis
    unfolding yaml_parser_parse_document_content_def
  proof (rule good_with_token_node[OF c])
    fix t q assume q: "node_context p q"
    have "good_result p (with_popped_state q (yaml_parser_process_empty_scalar (tk_start t)))"
    proof (rule good_popped_node[OF q])
      fix r assume r: "yp_states q = yp_state r # yp_states r" "r = q\<lparr>yp_state := yp_state r, yp_states := yp_states r\<rparr>"
      obtain s ss where e: "r = q\<lparr>yp_state := s, yp_states := ss\<rparr>" using r(2) by blast
      show "good_result p (yaml_parser_process_empty_scalar (tk_start t) r)"
        unfolding yaml_parser_process_empty_scalar_def using r(1)
        by (intro node_leaf_good[OF q]) (auto simp: e tokens_left_def)
    qed
    then show "good_result p (if tk_typ t \<in> {VERSION_DIRECTIVE_TOKEN, TAG_DIRECTIVE_TOKEN, DOCUMENT_START_TOKEN, DOCUMENT_END_TOKEN, STREAM_END_TOKEN}
     then with_popped_state q (yaml_parser_process_empty_scalar (tk_start t)) else yaml_parser_parse_node True False q)"
      using yaml_parser_parse_node_good[OF q] by simp
  qed
qed

lemma node_state_good:
  assumes "yp_state p \<in> {PARSE_BLOCK_NODE_STATE, PARSE_BLOCK_NODE_OR_INDENTLESS_SEQUENCE_STATE, PARSE_FLOW_NODE_STATE}"
  shows "good_result p (yaml_parser_parse_node block indentless p)"
  using assms by (intro yaml_parser_parse_node_good)
    (auto simp: node_context_def parser_inv_def parser_weight_def parser_frames_def state_weight_def is_outer_def state_marks_def)

lemma document_end_good:
  assumes "yp_state p = PARSE_DOCUMENT_END_STATE"
  shows "good_result p (yaml_parser_parse_document_end p)"
  unfolding yaml_parser_parse_document_end_def
proof (rule good_with_token)
  fix t q assume "peek_token p = (Some t, q)"
  note q = same_stacks_peek[OF this]
  have good: "good_result p (Some (Some ev, r))"
    if r: "tokens_left r \<le> tokens_left q" "yp_states r = yp_states q" "yp_failure r = yp_failure q" "yp_marks r = yp_marks q"
      "yp_stream_end_produced r \<longrightarrow> yp_stream_end_produced q"
      "yp_state r = PARSE_DOCUMENT_START_STATE" "yp_tail_comment r = []" "ye_typ ev = DOCUMENT_END_EVENT" for ev r
    using assms r by (intro outer_good[OF conjunct1[OF q], where pushed = "[]"])
      (simp_all add: state_weight_def is_outer_def is_first_def accept_def)
  show "good_result p
     (let explicit = (tk_typ t = DOCUMENT_END_TOKEN);
         parser = (if explicit then skip_token t q else q);
         parser = parser\<lparr>yp_tag_directives := [], yp_state := PARSE_DOCUMENT_START_STATE\<rparr>;
         (event, parser) = yaml_parser_set_event_comments
           (zero_event\<lparr>ye_typ := DOCUMENT_END_EVENT, ye_start := tk_start t,
              ye_end := (if explicit then tk_end t else tk_start t), ye_implicit := \<not> explicit\<rparr>) parser;
         event = (if ye_head_comment event \<noteq> [] \<and> ye_foot_comment event = []
                  then event\<lparr>ye_foot_comment := ye_head_comment event, ye_head_comment := []\<rparr> else event)
     in Some (Some event, parser))"
    using q by (auto simp: Let_def yaml_parser_set_event_comments_def skip_token_def tokens_left_def zero_event_def intro!: good)
qed simp

lemmas entry_states = is_continuation_def is_first_def is_outer_def state_marks_def state_weight_def

lemma block_sequence_entry_good:
  assumes "yp_state p = (if first then PARSE_BLOCK_SEQUENCE_FIRST_ENTRY_STATE else PARSE_BLOCK_SEQUENCE_ENTRY_STATE)"
  shows "good_result p (yaml_parser_parse_block_sequence_entry first p)"
  unfolding yaml_parser_parse_block_sequence_entry_def
proof (rule open_collection_good[OF assms])
  fix q assume "entry_context 1 (state_frames (if first then PARSE_BLOCK_SEQUENCE_FIRST_ENTRY_STATE else PARSE_BLOCK_SEQUENCE_ENTRY_STATE)) (Suc 0) p q"
  then have q: "entry_context 1 [FSequence] (Suc 0) p q" by (simp split: if_splits)
  show "good_result p (with_token q (\<lambda>token parser.
       if tk_typ token = BLOCK_ENTRY_TOKEN then
         block_entry {BLOCK_ENTRY_TOKEN, BLOCK_END_TOKEN} PARSE_BLOCK_SEQUENCE_ENTRY_STATE token parser
       else if tk_typ token = BLOCK_END_TOKEN then
         close_collection parser (\<lambda>parser. Some (Some (end_event SEQUENCE_END_EVENT token), skip_token token parser))
       else collection_error ''while parsing a block collection'' ''did not find expected '-' indicator'' token parser))"
    by (rule good_with_token_entry[OF q])
      (auto intro!: block_entry_good entry_close_good(1) entry_error_good simp: entry_states end_event_def zero_event_def)
qed (auto simp: entry_states)

lemma indentless_sequence_entry_good:
  assumes "yp_state p = PARSE_INDENTLESS_SEQUENCE_ENTRY_STATE"
  shows "good_result p (yaml_parser_parse_indentless_sequence_entry p)"
  unfolding yaml_parser_parse_indentless_sequence_entry_def
proof (rule good_with_token_entry)
  show c: "entry_context 1 [FSequence] 0 p p"
    using entry_context_state[OF assms] by (simp add: entry_states)
  fix t q assume q: "entry_context 1 [FSequence] 0 p q" "yp_available q = Some t"
  have close: "good_result p (with_popped_state q (\<lambda>r. Some (Some ((end_event SEQUENCE_END_EVENT t)\<lparr>ye_end := tk_start t\<rparr>), r)))"
  proof (cases "yp_states q")
    case Nil
    then show ?thesis using q by (auto simp: with_popped_state_def good_result_def entry_context_def)
  next
    case (Cons s ss)
    let ?r = "q\<lparr>yp_state := s, yp_states := ss\<rparr>"
    have "good_result p (Some (Some ((end_event SEQUENCE_END_EVENT t)\<lparr>ye_end := tk_start t\<rparr>), ?r))"
    proof (rule good_resultI)
      show "parser_weight ?r < parser_weight p"
        using q(1) Cons by (auto simp: entry_context_def parser_weight_def[of ?r] tokens_left_def)
      show "parser_inv ?r" if "parser_inv p"
        using q(1) Cons that parser_inv_failure[OF that]
        by (intro document_stack_inv[of s ss]) (auto simp: entry_context_def)
      show "accept (ye_typ ((end_event SEQUENCE_END_EVENT t)\<lparr>ye_end := tk_start t\<rparr>)) (parser_frames p) = Some (parser_frames ?r)"
        if "parser_inv p"
        using q(1) Cons that by (auto simp: entry_context_def accept_def end_event_def zero_event_def parser_frames_def[of ?r])
    qed
    then show ?thesis using Cons by (simp add: with_popped_state_def)
  qed
  show "good_result p (if tk_typ t = BLOCK_ENTRY_TOKEN then
       block_entry {BLOCK_ENTRY_TOKEN, KEY_TOKEN, VALUE_TOKEN, BLOCK_END_TOKEN} PARSE_INDENTLESS_SEQUENCE_ENTRY_STATE t q
     else with_popped_state q (\<lambda>r. Some (Some ((end_event SEQUENCE_END_EVENT t)\<lparr>ye_end := tk_start t\<rparr>), r)))"
    using close q by (auto intro!: block_entry_good simp: entry_states)
qed

lemma block_mapping_key_good:
  assumes "yp_state p = (if first then PARSE_BLOCK_MAPPING_FIRST_KEY_STATE else PARSE_BLOCK_MAPPING_KEY_STATE)"
  shows "good_result p (yaml_parser_parse_block_mapping_key first p)"
  unfolding yaml_parser_parse_block_mapping_key_def
proof (rule open_collection_good[OF assms])
  fix q assume "entry_context 1 (state_frames (if first then PARSE_BLOCK_MAPPING_FIRST_KEY_STATE else PARSE_BLOCK_MAPPING_KEY_STATE)) (Suc 0) p q"
  then have q: "entry_context 1 [FKey] (Suc 0) p q" by (simp split: if_splits)
  have tail: "good_result p (Some (Some ev, r\<lparr>yp_tail_comment := []\<rparr>))"
    if r: "entry_context 1 [FKey] (Suc 0) p r" "yp_tail_comment r \<noteq> []" for r ev
    using r assms by (auto simp: entry_context_def good_result_def parser_weight_def[of "r\<lparr>yp_tail_comment := []\<rparr>"] tokens_left_def
      state_weight_def)
  show "good_result p (with_token q (\<lambda>token parser.
       if yp_tail_comment parser \<noteq> [] then
         Some (Some ((end_event TAIL_COMMENT_EVENT token)\<lparr>ye_foot_comment := yp_tail_comment parser\<rparr>),
           parser\<lparr>yp_tail_comment := []\<rparr>)
       else if tk_typ token = KEY_TOKEN then
         with_token (skip_token token parser)
           (node_or_empty {KEY_TOKEN, VALUE_TOKEN, BLOCK_END_TOKEN} PARSE_BLOCK_MAPPING_VALUE_STATE True True (tk_end token))
       else if tk_typ token = BLOCK_END_TOKEN then
         close_collection parser (commented_skip (end_event MAPPING_END_EVENT token) token)
       else collection_error ''while parsing a block mapping'' ''did not find expected key'' token parser))"
    by (rule good_with_token_entry[OF q])
      (auto intro!: tail node_or_empty_good entry_close_good(2) entry_error_good
        elim!: good_with_token_skip simp: entry_states end_event_def zero_event_def)
qed (auto simp: entry_states)

lemma block_mapping_value_good:
  assumes "yp_state p = PARSE_BLOCK_MAPPING_VALUE_STATE"
  shows "good_result p (yaml_parser_parse_block_mapping_value p)"
  unfolding yaml_parser_parse_block_mapping_value_def
proof (rule good_with_token_entry)
  show c: "entry_context 2 [FValue] (Suc 0) p p"
    using entry_context_state[OF assms] by (simp add: entry_states)
qed (auto intro!: node_or_empty_good entry_empty_good elim!: good_with_token_skip simp: entry_states)

text \<open>The entries of a flow collection: the end, or a separator unless the entry is the first, and the entry.\<close>

lemma good_flow_entries:
  assumes c: "entry_context 1 fr (Suc 0) p p'" "first \<Longrightarrow> entry_context 6 fr (Suc 0) p p'"
    and close: "\<And>t q. entry_context 1 fr (Suc 0) p q \<Longrightarrow> yp_available q = Some t \<Longrightarrow> tk_typ t = e \<Longrightarrow> good_result p (g t q)"
    and f: "\<And>t q. entry_context 6 fr (Suc 0) p q \<Longrightarrow> yp_available q = Some t \<Longrightarrow> good_result p (f t q)"
  shows "good_result p (with_token p' (\<lambda>t q. if tk_typ t = e then g t q else flow_separator first ctx problem t q f))"
proof (rule good_with_token)
  show "yp_failure p' = yp_failure p" if "parser_inv p"
    using c that by (simp add: entry_context_def)
  fix t q assume peek: "peek_token p' = (Some t, q)"
  have q: "entry_context 1 fr (Suc 0) p q" "first \<Longrightarrow> entry_context 6 fr (Suc 0) p q" "yp_available q = Some t"
    using entry_context_peek[OF c(1) peek] entry_context_peek[OF c(2) peek] same_stacks_peek[OF peek] by auto
  have "good_result p (with_token (skip_token t q) f)" if "tk_typ t = FLOW_ENTRY_TOKEN"
    using that f by (intro good_with_token_skip[OF q(1,3)]) auto
  then have "good_result p (flow_separator first ctx problem t q f)"
    using f[OF q(2) q(3)] entry_error_good[OF q(1)] by (auto simp: flow_separator_def)
  then show "good_result p (if tk_typ t = e then g t q else flow_separator first ctx problem t q f)"
    using close[OF q(1,3)] by simp
qed

lemma flow_sequence_end_good:
  "entry_context w [FSequence] (Suc 0) p p' \<Longrightarrow> yp_available p' = Some t \<Longrightarrow> tk_typ t = FLOW_SEQUENCE_END_TOKEN \<Longrightarrow>
   good_result p (flow_sequence_end t p')"
  unfolding flow_sequence_end_def by (rule entry_close_good(2)) (auto simp: end_event_def zero_event_def)

lemma flow_mapping_end_good:
  "entry_context w [FKey] (Suc 0) p p' \<Longrightarrow> yp_available p' = Some t \<Longrightarrow> tk_typ t = FLOW_MAPPING_END_TOKEN \<Longrightarrow>
   good_result p (flow_mapping_end t p')"
  unfolding flow_mapping_end_def by (rule entry_close_good(2)) (auto simp: end_event_def zero_event_def)

lemma flow_pair_start_good:
  assumes c: "entry_context 1 [FSequence] (Suc 0) p q" "yp_available q = Some t" "tk_typ t = KEY_TOKEN"
    and ev: "ye_typ ev = MAPPING_START_EVENT"
  shows "good_result p (Some (Some ev, skip_token t (q\<lparr>yp_state := PARSE_FLOW_SEQUENCE_ENTRY_MAPPING_KEY_STATE\<rparr>)))"
    (is "good_result p (Some (Some ev, ?r))")
proof (rule good_resultI)
  show "parser_weight ?r < parser_weight p"
    using c unfolding entry_context_def
    by (simp add: parser_weight_def[of "_\<lparr>yp_state := _, yp_available := _, yp_stream_end_produced := _\<rparr>"]
      tokens_left_def skip_token_def state_weight_def split: if_splits)
  show "parser_inv ?r" if "parser_inv p"
    using that c parser_inv_failure[OF that]
    by (auto simp: parser_inv_def[of "_\<lparr>yp_state := _, yp_available := _, yp_stream_end_produced := _\<rparr>"]
      entry_context_def skip_token_def entry_states)
  show "accept (ye_typ ev) (parser_frames p) = Some (parser_frames ?r)" if "parser_inv p"
    using that c ev by (auto simp: entry_context_def accept_def parser_frames_def[of q]
      parser_frames_def[of "q\<lparr>yp_state := PARSE_FLOW_SEQUENCE_ENTRY_MAPPING_KEY_STATE\<rparr>"])
qed

lemma flow_sequence_entry_good:
  assumes "yp_state p = (if first then PARSE_FLOW_SEQUENCE_FIRST_ENTRY_STATE else PARSE_FLOW_SEQUENCE_ENTRY_STATE)"
  shows "good_result p (yaml_parser_parse_flow_sequence_entry first p)"
  unfolding yaml_parser_parse_flow_sequence_entry_def
proof (rule open_collection_good[OF assms])
  let ?fr = "state_frames (if first then PARSE_FLOW_SEQUENCE_FIRST_ENTRY_STATE else PARSE_FLOW_SEQUENCE_ENTRY_STATE)"
  fix q assume "entry_context 1 ?fr (Suc 0) p q" and "first \<Longrightarrow> entry_context 6 ?fr (Suc 0) p q"
  then have q: "entry_context 1 [FSequence] (Suc 0) p q" "first \<Longrightarrow> entry_context 6 [FSequence] (Suc 0) p q"
    by (simp_all split: if_splits)
  have entry: "good_result p (if tk_typ t = KEY_TOKEN then
             Some (Some ((end_event MAPPING_START_EVENT t)\<lparr>ye_implicit := True, ye_style := MappingStyle FLOW_MAPPING_STYLE\<rparr>),
               skip_token t (r\<lparr>yp_state := PARSE_FLOW_SEQUENCE_ENTRY_MAPPING_KEY_STATE\<rparr>))
           else if tk_typ t \<noteq> FLOW_SEQUENCE_END_TOKEN then
             yaml_parser_parse_node False False (push_state PARSE_FLOW_SEQUENCE_ENTRY_STATE r)
           else flow_sequence_end t r)"
    if "entry_context 6 [FSequence] (Suc 0) p r" "yp_available r = Some t" for t r
    using that entry_context_weaken[OF that(1), of 1] flow_pair_start_good[of p r t] flow_sequence_end_good[OF that]
      entry_node_good[OF that(1), of PARSE_FLOW_SEQUENCE_ENTRY_STATE]
    by (auto simp: entry_states end_event_def zero_event_def)
  show "good_result p (with_token q (\<lambda>token parser.
       if tk_typ token = FLOW_SEQUENCE_END_TOKEN then flow_sequence_end token parser
       else flow_separator first ''while parsing a flow sequence'' (''did not find expected ',' or ']'' @ [CHR 39]) token parser
         (\<lambda>token parser.
           if tk_typ token = KEY_TOKEN then
             Some (Some ((end_event MAPPING_START_EVENT token)\<lparr>ye_implicit := True, ye_style := MappingStyle FLOW_MAPPING_STYLE\<rparr>),
               skip_token token (parser\<lparr>yp_state := PARSE_FLOW_SEQUENCE_ENTRY_MAPPING_KEY_STATE\<rparr>))
           else if tk_typ token \<noteq> FLOW_SEQUENCE_END_TOKEN then
             yaml_parser_parse_node False False (push_state PARSE_FLOW_SEQUENCE_ENTRY_STATE parser)
           else flow_sequence_end token parser)))"
    by (rule good_flow_entries[OF q flow_sequence_end_good entry])
qed (auto simp: entry_states)

lemma flow_pair_key_good:
  assumes "yp_state p = PARSE_FLOW_SEQUENCE_ENTRY_MAPPING_KEY_STATE"
  shows "good_result p (yaml_parser_parse_flow_sequence_entry_mapping_key p)"
  unfolding yaml_parser_parse_flow_sequence_entry_mapping_key_def
proof (rule good_with_token_entry)
  show c: "entry_context 5 [FKey, FSequence] (Suc 0) p p"
    using entry_context_state[OF assms] by (simp add: entry_states)
  fix t q assume q: "entry_context 5 [FKey, FSequence] (Suc 0) p q" "yp_available q = Some t"
  have "good_result p (yaml_parser_process_empty_scalar (tk_end t)
       (skip_token t q\<lparr>yp_state := PARSE_FLOW_SEQUENCE_ENTRY_MAPPING_VALUE_STATE\<rparr>))"
    if "tk_typ t \<in> {VALUE_TOKEN, FLOW_ENTRY_TOKEN, FLOW_SEQUENCE_END_TOKEN}"
    using that by (intro entry_empty_good[OF entry_context_skip[OF q]]) (auto simp: entry_states)
  then show "good_result p (if tk_typ t \<notin> {VALUE_TOKEN, FLOW_ENTRY_TOKEN, FLOW_SEQUENCE_END_TOKEN}
     then yaml_parser_parse_node False False (push_state PARSE_FLOW_SEQUENCE_ENTRY_MAPPING_VALUE_STATE q)
     else yaml_parser_process_empty_scalar (tk_end t)
       (skip_token t q\<lparr>yp_state := PARSE_FLOW_SEQUENCE_ENTRY_MAPPING_VALUE_STATE\<rparr>))"
    using entry_node_good[OF q(1), of PARSE_FLOW_SEQUENCE_ENTRY_MAPPING_VALUE_STATE] by (auto simp: entry_states)
qed

lemma flow_pair_value_good:
  assumes "yp_state p = PARSE_FLOW_SEQUENCE_ENTRY_MAPPING_VALUE_STATE"
  shows "good_result p (yaml_parser_parse_flow_sequence_entry_mapping_value p)"
  unfolding yaml_parser_parse_flow_sequence_entry_mapping_value_def
proof (rule good_with_token_entry)
  show c: "entry_context 3 [FValue, FSequence] (Suc 0) p p"
    using entry_context_state[OF assms] by (simp add: entry_states)
qed (auto intro!: node_or_empty_good entry_empty_good elim!: good_with_token_skip simp: entry_states)

lemma flow_pair_end_good:
  assumes "yp_state p = PARSE_FLOW_SEQUENCE_ENTRY_MAPPING_END_STATE"
  shows "good_result p (yaml_parser_parse_flow_sequence_entry_mapping_end p)"
  unfolding yaml_parser_parse_flow_sequence_entry_mapping_end_def
proof (rule good_with_token_entry)
  show c: "entry_context 2 [FKey, FSequence] (Suc 0) p p"
    using entry_context_state[OF assms] by (simp add: entry_states)
  fix t q assume q: "entry_context 2 [FKey, FSequence] (Suc 0) p q"
  let ?r = "q\<lparr>yp_state := PARSE_FLOW_SEQUENCE_ENTRY_STATE\<rparr>"
  show "good_result p (Some (Some ((end_event MAPPING_END_EVENT t)\<lparr>ye_end := tk_start t\<rparr>), ?r))"
  proof (rule good_resultI)
    show "parser_weight ?r < parser_weight p"
      using q by (auto simp: entry_context_def parser_weight_def[of ?r] tokens_left_def state_weight_def)
    show "parser_inv ?r" if "parser_inv p"
      using that q parser_inv_failure[OF that] by (auto simp: parser_inv_def[of ?r] entry_context_def entry_states)
    show "accept (ye_typ ((end_event MAPPING_END_EVENT t)\<lparr>ye_end := tk_start t\<rparr>)) (parser_frames p) = Some (parser_frames ?r)"
      if "parser_inv p"
      using that q by (auto simp: entry_context_def accept_def end_event_def zero_event_def parser_frames_def[of ?r])
  qed
qed

lemma flow_mapping_key_good:
  assumes "yp_state p = (if first then PARSE_FLOW_MAPPING_FIRST_KEY_STATE else PARSE_FLOW_MAPPING_KEY_STATE)"
  shows "good_result p (yaml_parser_parse_flow_mapping_key first p)"
  unfolding yaml_parser_parse_flow_mapping_key_def
proof (rule open_flow_mapping_good[OF assms])
  let ?fr = "state_frames (if first then PARSE_FLOW_MAPPING_FIRST_KEY_STATE else PARSE_FLOW_MAPPING_KEY_STATE)"
  fix q assume "entry_context 1 ?fr (Suc 0) p q" and "first \<Longrightarrow> entry_context 6 ?fr (Suc 0) p q"
  then have q: "entry_context 1 [FKey] (Suc 0) p q" "first \<Longrightarrow> entry_context 6 [FKey] (Suc 0) p q"
    by (simp_all split: if_splits)
  have key: "good_result p (with_token (skip_token t r) (\<lambda>token.
               node_or_empty {VALUE_TOKEN, FLOW_ENTRY_TOKEN, FLOW_MAPPING_END_TOKEN} PARSE_FLOW_MAPPING_VALUE_STATE False False
                 (tk_start token) token))"
    if "entry_context 6 [FKey] (Suc 0) p r" "yp_available r = Some t" "tk_typ t = KEY_TOKEN" for t r
    using that by (intro good_with_token_skip[OF that(1,2)] node_or_empty_good) (auto simp: entry_states)
  have entry: "good_result p (if tk_typ t = KEY_TOKEN then
             with_token (skip_token t r) (\<lambda>token.
               node_or_empty {VALUE_TOKEN, FLOW_ENTRY_TOKEN, FLOW_MAPPING_END_TOKEN} PARSE_FLOW_MAPPING_VALUE_STATE False False
                 (tk_start token) token)
           else if tk_typ t \<noteq> FLOW_MAPPING_END_TOKEN then
             yaml_parser_parse_node False False (push_state PARSE_FLOW_MAPPING_EMPTY_VALUE_STATE r)
           else flow_mapping_end t r)"
    if "entry_context 6 [FKey] (Suc 0) p r" "yp_available r = Some t" for t r
    using key[OF that] flow_mapping_end_good[OF that] entry_node_good[OF that(1), of PARSE_FLOW_MAPPING_EMPTY_VALUE_STATE]
    by (auto simp: entry_states)
  show "good_result p (with_token q (\<lambda>token parser.
       if tk_typ token = FLOW_MAPPING_END_TOKEN then flow_mapping_end token parser
       else flow_separator first ''while parsing a flow mapping'' (''did not find expected ',' or '}'' @ [CHR 39]) token parser
         (\<lambda>token parser.
           if tk_typ token = KEY_TOKEN then
             with_token (skip_token token parser) (\<lambda>token.
               node_or_empty {VALUE_TOKEN, FLOW_ENTRY_TOKEN, FLOW_MAPPING_END_TOKEN} PARSE_FLOW_MAPPING_VALUE_STATE False False
                 (tk_start token) token)
           else if tk_typ token \<noteq> FLOW_MAPPING_END_TOKEN then
             yaml_parser_parse_node False False (push_state PARSE_FLOW_MAPPING_EMPTY_VALUE_STATE parser)
           else flow_mapping_end token parser)))"
    by (rule good_flow_entries[OF q flow_mapping_end_good entry])
qed (auto simp: entry_states)

lemma flow_mapping_value_good:
  assumes "yp_state p = (if no_value then PARSE_FLOW_MAPPING_EMPTY_VALUE_STATE else PARSE_FLOW_MAPPING_VALUE_STATE)"
  shows "good_result p (yaml_parser_parse_flow_mapping_value no_value p)"
  unfolding yaml_parser_parse_flow_mapping_value_def
proof (rule good_with_token_entry)
  show c: "entry_context 2 [FValue] (Suc 0) p p"
    using entry_context_state[OF assms] by (cases no_value) (simp_all add: entry_states)
qed (auto intro!: node_or_empty_good entry_empty_good elim!: good_with_token_skip simp: entry_states)

lemma state_machine_good:
  assumes "yp_state p \<noteq> PARSE_END_STATE"
  shows "good_result p (yaml_parser_state_machine p)"
  using assms by (cases "yp_state p")
    (simp_all add: yaml_parser_state_machine_def stream_start_good document_start_good document_content_good document_end_good
      node_state_good block_sequence_entry_good indentless_sequence_entry_good block_mapping_key_good block_mapping_value_good
      flow_sequence_entry_good flow_pair_key_good flow_pair_value_good flow_pair_end_good flow_mapping_key_good
      flow_mapping_value_good)

lemma yaml_parser_parse_good: "\<not> parser_finished p \<Longrightarrow> good_result p (yaml_parser_parse p)"
  unfolding yaml_parser_parse_def using state_machine_good[of p] by (simp add: parser_finished_def)

section \<open>The whole stream\<close>

text \<open>
  All the events that calls of \<^verbatim>\<open>yaml_parser_parse\<close> deliver, until there are no more, or one fails or panics;
  in the last case there is no parser afterwards.
\<close>

function parseAll :: "yaml_parser \<Rightarrow> yaml_event list \<times> yaml_parser option" where
  "parseAll p = (if parser_finished p then ([], Some p)
     else case yaml_parser_parse p of
       None \<Rightarrow> ([], None)
     | Some (None, q) \<Rightarrow> ([], Some q)
     | Some (Some e, q) \<Rightarrow> (let (es, r) = parseAll q in (e # es, r)))"
  by pat_completeness auto
termination
  by (relation "measure parser_weight") (auto dest!: yaml_parser_parse_good simp: good_result_def)

declare parseAll.simps [simp del]

lemma parseAll_well_nested:
  "parseAll p = (es, r) \<Longrightarrow> parser_inv p \<Longrightarrow>
   (\<exists>q fs. r = Some q \<and> accepts (map ye_typ es) (parser_frames p) = Some fs \<and> (yp_error q = NO_ERROR \<longrightarrow> fs = []))"
proof (induction p arbitrary: es rule: parseAll.induct)
  case (1 p)
  show ?case
  proof (cases "parser_finished p")
    case True
    have "yp_error p = NO_ERROR \<Longrightarrow> yp_state p = PARSE_END_STATE"
      using True "1.prems"(2) by (auto simp: parser_finished_def parser_inv_def)
    then have "yp_error p = NO_ERROR \<Longrightarrow> parser_frames p = []"
      using "1.prems"(2) by (auto simp: parser_inv_def parser_frames_def is_outer_def)
    then show ?thesis using "1.prems"(1) True by (auto simp: parseAll.simps[of p])
  next
    case False
    note good = yaml_parser_parse_good[OF False]
    show ?thesis
    proof (cases "yaml_parser_parse p")
      case None
      then show ?thesis using good "1.prems"(2) by (simp add: good_result_def)
    next
      case (Some x)
      show ?thesis
      proof (cases x)
        case (Pair e q)
        show ?thesis
        proof (cases e)
          case None
          then show ?thesis using Some Pair good "1.prems" False by (auto simp: good_result_def parseAll.simps[of p])
        next
          case (Some ev)
          obtain es' where es': "parseAll q = (es', r)" "es = ev # es'"
            using "1.prems"(1) \<open>yaml_parser_parse p = Some x\<close> Pair Some False
            by (auto simp: parseAll.simps[of p] split: prod.splits)
          have g: "parser_inv q" "accept (ye_typ ev) (parser_frames p) = Some (parser_frames q)"
            using good "1.prems"(2) \<open>yaml_parser_parse p = Some x\<close> Pair Some by (auto simp: good_result_def)
          show ?thesis
            using "1.IH"[OF False \<open>yaml_parser_parse p = Some x\<close> Pair[symmetric] Some es'(1) g(1)] g(2) es'(2)
            by auto
        qed
      qed
    qed
  qed
qed

lemma parseAll_bound: "length (fst (parseAll p)) \<le> parser_weight p"
proof (induction p rule: parseAll.induct)
  case (1 p)
  have w: "parser_weight q < parser_weight p" if "\<not> parser_finished p" "yaml_parser_parse p = Some (Some e, q)" for e q
    using yaml_parser_parse_good[OF that(1)] that(2) by (simp add: good_result_def)
  have "length (fst (parseAll q)) < parser_weight p" if "\<not> parser_finished p" "yaml_parser_parse p = Some (Some e, q)" for e q
    using "1.IH"[OF that refl refl] w[OF that] by simp
  then show ?case
    by (subst parseAll.simps) (auto simp: Let_def split: option.split prod.split)
qed

lemma new_parser_inv: "sf_error failure \<noteq> NO_ERROR \<Longrightarrow> parser_inv (new_parser failure scan)"
  by (simp add: parser_inv_def new_parser_def is_outer_def is_first_def)

lemma new_parser_weight: "parser_weight (new_parser failure scan) = 5 * length scan + 1"
  by (simp add: parser_weight_def tokens_left_def new_parser_def state_weight_def)

section \<open>Properties\<close>

text \<open>
  C15: Whatever tokens the scanner delivers, the parser never panics, and its events are well nested: each document
  has one node, mappings have as many values as keys, ends match starts; when the parser stops without an
  error everything is closed and the stream has ended.
\<close>

theorem events_well_nested:
  assumes "sf_error failure \<noteq> NO_ERROR"
  shows "\<exists>es q fs. parseAll (new_parser failure scan) = (es, Some q) \<and> accepts (map ye_typ es) [FStart] = Some fs
    \<and> (yp_error q = NO_ERROR \<longrightarrow> fs = [])"
proof -
  obtain es r where r: "parseAll (new_parser failure scan) = (es, r)" by fastforce
  have "parser_frames (new_parser failure scan) = [FStart]" by (simp add: parser_frames_def new_parser_def)
  then show ?thesis using parseAll_well_nested[OF r new_parser_inv[OF assms]] r by auto
qed

definition scanner_failure :: scan_failure where
  "scanner_failure = \<lparr>sf_error = SCANNER_ERROR, sf_context = [], sf_problem = ''found unexpected end of stream'', sf_mark = zero_mark\<rparr>"

definition token_of :: "yaml_token_type \<Rightarrow> string \<Rightarrow> yaml_token" where
  "token_of typ v = \<lparr>tk_typ = typ, tk_start = zero_mark, tk_end = zero_mark, tk_encoding = UTF8_ENCODING, tk_value = v,
     tk_suffix = [], tk_prefix = [], tk_style = PLAIN_SCALAR_STYLE, tk_major = 0, tk_minor = 0\<rparr>"

definition parse_tokens :: "(yaml_token_type \<times> string) list \<Rightarrow> yaml_event list \<times> yaml_parser option" where
  "parse_tokens ts = parseAll (new_parser scanner_failure (map (\<lambda>(typ, v). ([], token_of typ v)) ts))"

theorem events_well_nested_witness:
  "\<exists>es q fs. parseAll (new_parser scanner_failure [([], token_of STREAM_START_TOKEN [])]) = (es, Some q)
    \<and> accepts (map ye_typ es) [FStart] = Some fs \<and> (yp_error q = NO_ERROR \<longrightarrow> fs = [])"
  by (rule events_well_nested) (simp add: scanner_failure_def)

text \<open>C21: The parser returns: it delivers at most five events for each token, and one more.\<close>

theorem events_bounded: "length (fst (parseAll (new_parser failure scan))) \<le> 5 * length scan + 1"
  using parseAll_bound[of "new_parser failure scan"] by (simp add: new_parser_weight)

lemma block_mapping_events:
  "map (\<lambda>e. (ye_typ e, ye_value e)) (fst (parse_tokens [(STREAM_START_TOKEN, []), (BLOCK_MAPPING_START_TOKEN, []), (KEY_TOKEN, []),
     (SCALAR_TOKEN, ''a''), (VALUE_TOKEN, []), (BLOCK_ENTRY_TOKEN, []), (SCALAR_TOKEN, ''b''), (BLOCK_ENTRY_TOKEN, []),
     (BLOCK_END_TOKEN, []), (STREAM_END_TOKEN, [])]))
   = [(STREAM_START_EVENT, []), (DOCUMENT_START_EVENT, []), (MAPPING_START_EVENT, []), (SCALAR_EVENT, ''a''),
      (SEQUENCE_START_EVENT, []), (SCALAR_EVENT, ''b''), (SCALAR_EVENT, []), (SEQUENCE_END_EVENT, []),
      (MAPPING_END_EVENT, []), (DOCUMENT_END_EVENT, []), (STREAM_END_EVENT, [])]"
  by code_simp

text \<open>
  A pair without a key in a flow sequence: the token that follows the indicator is skipped although it may
  be the end of the sequence, so that \<^verbatim>\<open>[ ? ]\<close> is refused.
\<close>

lemma flow_pair_skips_end:
  "(let (es, r) = parse_tokens [(STREAM_START_TOKEN, []), (FLOW_SEQUENCE_START_TOKEN, []), (KEY_TOKEN, []),
      (FLOW_SEQUENCE_END_TOKEN, []), (STREAM_END_TOKEN, [])]
    in (map ye_typ es, map_option (\<lambda>q. (yp_error q, yp_context q)) r))
   = ([STREAM_START_EVENT, DOCUMENT_START_EVENT, SEQUENCE_START_EVENT, MAPPING_START_EVENT, SCALAR_EVENT, SCALAR_EVENT,
       MAPPING_END_EVENT], Some (PARSER_ERROR, ''while parsing a flow sequence''))"
  by code_simp

end
