(* ===== verification/YamlConvert.thy ===== *)
theory YamlConvert
  imports YamlEmitter YamlEvents
begin

text \<open>
  The two conversions of the YAML package (\<^verbatim>\<open>yaml/yaml.go\<close>): the value of the events of a document, and the
  events of a value. The scanner, which makes tokens of bytes, is an argument.
\<close>

section \<open>Results\<close>

text \<open>An error or a value; \<^term>\<open>None\<close> is a panic or the end of the fuel.\<close>

type_synonym 'a outcome = "(yaml_fail + 'a) option"

definition attempt :: "'a outcome \<Rightarrow> ('a \<Rightarrow> 'b outcome) \<Rightarrow> 'b outcome" where
  "attempt m f = (case m of
     None \<Rightarrow> None
   | Some (Inl e) \<Rightarrow> Some (Inl e)
   | Some (Inr x) \<Rightarrow> f x)"

section \<open>Reading\<close>

record 'f eventParser =
  ep_parser :: yaml_parser
  ep_anchors :: "string \<rightharpoonup> 'f gval"

definition newEventParser :: "scan_failure \<Rightarrow> (yaml_comment list \<times> yaml_token) list \<Rightarrow> 'f eventParser" where
  "newEventParser failure scan = \<lparr>ep_parser = new_parser failure scan, ep_anchors = Map.empty\<rparr>"

definition parserError :: "yaml_parser \<Rightarrow> yaml_fail" where
  "parserError parser =
     (if yp_problem parser = [] then ParseFailed
      else ParseProblem (yp_context parser) (yp_problem parser)
        (mk_line (yp_problem_mark parser) + 1) (mk_column (yp_problem_mark parser) + 1))"

text \<open>\<^verbatim>\<open>next\<close>\<close>

definition next_event :: "'f eventParser \<Rightarrow> (yaml_event \<times> 'f eventParser) outcome" where
  "next_event p = (case yaml_parser_parse (ep_parser p) of
     None \<Rightarrow> None
   | Some (None, q) \<Rightarrow> Some (Inl (parserError q))
   | Some (Some ev, q) \<Rightarrow> Some (Inr (ev, p\<lparr>ep_parser := q\<rparr>)))"

definition expectDocumentEnd :: "'f eventParser \<Rightarrow> 'f eventParser outcome" where
  "expectDocumentEnd p = attempt (next_event p) (\<lambda>(ev, p).
     if ye_typ ev = DOCUMENT_END_EVENT then Some (Inr p)
     else Some (Inl (ExpectedEvent ''document end'' (ye_typ ev))))"

definition set_anchor :: "yaml_event \<Rightarrow> 'f gval \<Rightarrow> 'f eventParser \<Rightarrow> ('f gval \<times> 'f eventParser) outcome" where
  "set_anchor ev val p = Some (Inr (val,
     if ye_anchor ev \<noteq> [] then p\<lparr>ep_anchors := (ep_anchors p)(ye_anchor ev \<mapsto> val)\<rparr> else p))"

text \<open>\<^verbatim>\<open>append\<close> to a slice that may be nil.\<close>

definition append_slice :: "'a list option \<Rightarrow> 'a \<Rightarrow> 'a list option" where
  "append_slice vals v = Some ((case vals of None \<Rightarrow> [] | Some vs \<Rightarrow> vs) @ [v])"

text \<open>\<^verbatim>\<open>vals[key] = val\<close>, in the list of entries that is sorted by the keys.\<close>

fun put_key :: "string \<Rightarrow> 'a \<Rightarrow> (string \<times> 'a) list \<Rightarrow> (string \<times> 'a) list" where
  "put_key k v [] = [(k, v)]"
| "put_key k v ((k', v') # kvs) =
     (if k < k' then (k, v) # (k', v') # kvs
      else if k = k' then (k, v) # kvs
      else (k', v') # put_key k v kvs)"

text \<open>
  \<^verbatim>\<open>parseValue\<close>, \<^verbatim>\<open>parseSequence\<close> and \<^verbatim>\<open>parseMapping\<close>; every call uses one unit of the fuel, of which there is
  enough (\<open>parse_fuel\<close>) because every event makes the measure of the parser smaller.
\<close>

fun parseValue :: "'f floats \<Rightarrow> nat \<Rightarrow> yaml_event \<Rightarrow> 'f eventParser \<Rightarrow> ('f gval \<times> 'f eventParser) outcome"
and parseSequence :: "'f floats \<Rightarrow> nat \<Rightarrow> 'f gval list option \<Rightarrow> 'f eventParser \<Rightarrow> ('f gval list option \<times> 'f eventParser) outcome"
and parseMapping :: "'f floats \<Rightarrow> nat \<Rightarrow> (string \<times> 'f gval) list \<Rightarrow> 'f eventParser \<Rightarrow> ((string \<times> 'f gval) list \<times> 'f eventParser) outcome" where
  "parseValue F 0 ev p = None"
| "parseValue F (Suc n) ev p = (case ye_typ ev of
     ALIAS_EVENT \<Rightarrow> (case ep_anchors p (ye_anchor ev) of
         None \<Rightarrow> Some (Inl (UnknownAlias (ye_anchor ev)))
       | Some val \<Rightarrow> Some (Inr (val, p)))
   | SCALAR_EVENT \<Rightarrow> (case scalarValue F ev of
         Inl e \<Rightarrow> Some (Inl e)
       | Inr val \<Rightarrow> set_anchor ev val p)
   | SEQUENCE_START_EVENT \<Rightarrow> attempt (parseSequence F n None p) (\<lambda>(vals, p). set_anchor ev (GSlice vals) p)
   | MAPPING_START_EVENT \<Rightarrow> attempt (parseMapping F n [] p) (\<lambda>(vals, p). set_anchor ev (GMap vals) p)
   | _ \<Rightarrow> Some (Inl (UnexpectedEvent (ye_typ ev))))"
| "parseSequence F 0 vals p = None"
| "parseSequence F (Suc n) vals p = attempt (next_event p) (\<lambda>(ev, p).
     if ye_typ ev = SEQUENCE_END_EVENT then Some (Inr (vals, p))
     else attempt (parseValue F n ev p) (\<lambda>(val, p). parseSequence F n (append_slice vals val) p))"
| "parseMapping F 0 vals p = None"
| "parseMapping F (Suc n) vals p = attempt (next_event p) (\<lambda>(keyEv, p).
     if ye_typ keyEv = MAPPING_END_EVENT then Some (Inr (vals, p))
     else attempt (parseValue F n keyEv p) (\<lambda>(keyVal, p).
       attempt (next_event p) (\<lambda>(valEv, p).
         attempt (parseValue F n valEv p) (\<lambda>(val, p). parseMapping F n (put_key (keyString F keyVal) val vals) p))))"

definition parse_fuel :: "'f eventParser \<Rightarrow> nat" where
  "parse_fuel p = 2 * parser_weight (ep_parser p) + 2"

definition parseDocument :: "'f floats \<Rightarrow> 'f eventParser \<Rightarrow> 'f gval outcome" where
  "parseDocument F p = attempt (next_event p) (\<lambda>(ev, p).
     if ye_typ ev = DOCUMENT_END_EVENT then Some (Inr GNil)
     else attempt (parseValue F (parse_fuel p) ev p) (\<lambda>(val, p).
       attempt (expectDocumentEnd p) (\<lambda>_. Some (Inr val))))"

definition parseStream :: "'f floats \<Rightarrow> 'f eventParser \<Rightarrow> 'f gval outcome" where
  "parseStream F p = attempt (next_event p) (\<lambda>(ev, p).
     if ye_typ ev \<noteq> STREAM_START_EVENT then Some (Inl (ExpectedEvent ''stream start'' (ye_typ ev)))
     else attempt (next_event p) (\<lambda>(ev, p).
       if ye_typ ev = DOCUMENT_START_EVENT then parseDocument F p
       else if ye_typ ev = STREAM_END_EVENT then Some (Inr GNil)
       else Some (Inl (ExpectedEvent ''document start'' (ye_typ ev)))))"

text \<open>\<^verbatim>\<open>unicode.IsSpace\<close> of the code points, for \<^verbatim>\<open>bytes.TrimSpace\<close>.\<close>

definition unicode_space :: "nat \<Rightarrow> bool" where
  "unicode_space v \<longleftrightarrow> v \<in> {9, 10, 11, 12, 13, 32, 133, 160, 5760, 8232, 8233, 8239, 8287, 12288} \<or> 8192 \<le> v \<and> v \<le> 8202"

function all_space :: "string \<Rightarrow> bool" where
  "all_space s =
     (if s = [] then True
      else let n = runeLength s in
        if n = 0 \<or> \<not> unicode_space (codePoint (take n s)) then False else all_space (drop n s))"
  by pat_completeness auto
termination by (relation "measure length") auto

declare all_space.simps [simp del]

text \<open>\<^verbatim>\<open>YAMLToJSON\<close>, where \<open>scanner\<close> gives the tokens of the bytes and how the scanner fails after them.\<close>

definition YAMLToJSON ::
    "'f floats \<Rightarrow> (string \<Rightarrow> (yaml_comment list \<times> yaml_token) list \<times> scan_failure) \<Rightarrow> string \<Rightarrow> string outcome" where
  "YAMLToJSON F scanner y =
     (if all_space y then Some (Inr ''null'')
      else let (tokens, failure) = scanner y
           in attempt (parseStream F (newEventParser failure tokens)) (\<lambda>val. Some (Inr (marshal F val))))"

section \<open>Writing\<close>

text \<open>\<^verbatim>\<open>emit\<close>\<close>

definition emit :: "yaml_event \<Rightarrow> yaml_emitter \<Rightarrow> yaml_emitter outcome" where
  "emit ev emitter = (case yaml_emitter_emit ev emitter of
     None \<Rightarrow> None
   | Some (ok, emitter) \<Rightarrow>
       Some (if ok then Inr emitter else if em_problem emitter = [] then Inl EmitFailed else Inl (EmitProblem (em_problem emitter))))"

definition scalar_to_emit :: "string \<Rightarrow> yaml_scalar_style \<Rightarrow> yaml_event" where
  "scalar_to_emit val style = zero_event\<lparr>ye_typ := SCALAR_EVENT, ye_value := val, ye_implicit := True,
     ye_quoted_implicit := True, ye_style := ScalarStyle style\<rparr>"

definition emitScalar :: "string \<Rightarrow> yaml_scalar_style \<Rightarrow> yaml_emitter \<Rightarrow> yaml_emitter outcome" where
  "emitScalar val style emitter = emit (scalar_to_emit val style) emitter"

definition sequence_to_emit :: yaml_event where
  "sequence_to_emit = zero_event\<lparr>ye_typ := SEQUENCE_START_EVENT, ye_implicit := True, ye_style := SequenceStyle BLOCK_SEQUENCE_STYLE\<rparr>"

definition mapping_to_emit :: yaml_event where
  "mapping_to_emit = zero_event\<lparr>ye_typ := MAPPING_START_EVENT, ye_implicit := True, ye_style := MappingStyle BLOCK_MAPPING_STYLE\<rparr>"

definition end_to_emit :: "yaml_event_type \<Rightarrow> yaml_event" where
  "end_to_emit typ = zero_event\<lparr>ye_typ := typ\<rparr>"

text \<open>
  \<^verbatim>\<open>emitValue\<close>, with \<^verbatim>\<open>emitSequence\<close> and \<^verbatim>\<open>emitMapping\<close>. The entries of a map are listed by their keys, in the
  order in which the code sorts them.
\<close>

fun emitValue :: "'f floats \<Rightarrow> 'f gval \<Rightarrow> yaml_emitter \<Rightarrow> yaml_emitter outcome"
and emitSequence :: "'f floats \<Rightarrow> 'f gval list \<Rightarrow> yaml_emitter \<Rightarrow> yaml_emitter outcome"
and emitEntries :: "'f floats \<Rightarrow> (string \<times> 'f gval) list \<Rightarrow> yaml_emitter \<Rightarrow> yaml_emitter outcome" where
  "emitValue F GNil emitter = emitScalar ''null'' PLAIN_SCALAR_STYLE emitter"
| "emitValue F (GBool b) emitter = emitScalar (if b then ''true'' else ''false'') PLAIN_SCALAR_STYLE emitter"
| "emitValue F (GNumber n) emitter = (case validateJSONNumber F n of
     Some e \<Rightarrow> Some (Inl e)
   | None \<Rightarrow> emitScalar n PLAIN_SCALAR_STYLE emitter)"
| "emitValue F (GFloat f) emitter =
     (if \<not> fl_finite F f then Some (Inl (NonFinite (fl_format F f)))
      else emitScalar (fl_format F f) PLAIN_SCALAR_STYLE emitter)"
| "emitValue F (GString s) emitter = emitScalar s (stringScalarStyle F s) emitter"
| "emitValue F (GSlice None) emitter = attempt (emit sequence_to_emit emitter) (emitSequence F [])"
| "emitValue F (GSlice (Some vs)) emitter = attempt (emit sequence_to_emit emitter) (emitSequence F vs)"
| "emitValue F (GMap kvs) emitter = attempt (emit mapping_to_emit emitter) (emitEntries F kvs)"
| "emitValue F (GInt i) emitter = Some (Inl UnsupportedValue)"
| "emitSequence F [] emitter = emit (end_to_emit SEQUENCE_END_EVENT) emitter"
| "emitSequence F (v # vs) emitter = attempt (emitValue F v emitter) (emitSequence F vs)"
| "emitEntries F [] emitter = emit (end_to_emit MAPPING_END_EVENT) emitter"
| "emitEntries F ((k, v) # kvs) emitter = attempt (emitScalar k (stringScalarStyle F k) emitter)
     (\<lambda>emitter. attempt (emitValue F v emitter) (emitEntries F kvs))"

text \<open>
  What \<^verbatim>\<open>json.Decoder\<close> gives for the input, twice: a value with its numbers as texts, or the end of the input, or an
  error.
\<close>

datatype 'f decoded = Decoded "'f gval" | EndOfInput | BadInput string

text \<open>\<^verbatim>\<open>JSONToYAML\<close>\<close>

definition stream_start_to_emit :: yaml_event where
  "stream_start_to_emit = zero_event\<lparr>ye_typ := STREAM_START_EVENT, ye_encoding := UTF8_ENCODING\<rparr>"

definition document_to_emit :: "yaml_event_type \<Rightarrow> yaml_event" where
  "document_to_emit typ = zero_event\<lparr>ye_typ := typ, ye_implicit := True\<rparr>"

definition emitTree :: "'f floats \<Rightarrow> 'f gval \<Rightarrow> string outcome" where
  "emitTree F tree =
     attempt (emit stream_start_to_emit new_emitter) (\<lambda>em.
     attempt (emit (document_to_emit DOCUMENT_START_EVENT) em) (\<lambda>em.
     attempt (emitValue F tree em) (\<lambda>em.
     attempt (emit (document_to_emit DOCUMENT_END_EVENT) em) (\<lambda>em.
     attempt (emit (end_to_emit STREAM_END_EVENT) em) (\<lambda>em. Some (Inr (em_output em)))))))"

definition JSONToYAML :: "'f floats \<Rightarrow> (string \<Rightarrow> 'f decoded \<times> 'f decoded) \<Rightarrow> string \<Rightarrow> string outcome" where
  "JSONToYAML F decode j = (case decode j of
     (BadInput e, _) \<Rightarrow> Some (Inl (DecodeFailed e))
   | (EndOfInput, _) \<Rightarrow> Some (Inl (DecodeFailed ''EOF''))
   | (Decoded tree, EndOfInput) \<Rightarrow> emitTree F tree
   | (Decoded tree, BadInput e) \<Rightarrow> Some (Inl (DecodeFailed e))
   | (Decoded tree, Decoded _) \<Rightarrow> Some (Inl MultipleValues))"

end
