(* ===== verification/YamlPlain.thy ===== *)
theory YamlPlain
  imports YamlEmitter
begin

text \<open>
  Which strings the emitter writes as plain scalars: its analysis, one pass with a dozen of flags, decides a condition on
  the positions of the string.
\<close>

section \<open>The flags of the analysis\<close>

text \<open>A condition on some position: whether it is the first, what is before it, the character and what is after it.\<close>

fun occurs :: "(bool \<Rightarrow> bool \<Rightarrow> ychar \<Rightarrow> ychar list \<Rightarrow> bool) \<Rightarrow> bool \<Rightarrow> bool \<Rightarrow> ychar list \<Rightarrow> bool" where
  "occurs P first preceded [] = False"
| "occurs P first preceded (c # rest) = (P first preceded c rest \<or> occurs P False (is_blankz c) rest)"

abbreviation followed :: "ychar list \<Rightarrow> bool" where
  "followed rest \<equiv> rest = [] \<or> is_blank (hd rest)"

lemma analyzeLoop_indicators:
  "sf_flow_indicators (analyzeLoop u first prec cs f) \<longleftrightarrow>
     sf_flow_indicators f \<or> occurs (\<lambda>fi p c r. flow_indicator fi p (followed r) (hd c)) first prec cs"
  "sf_block_indicators (analyzeLoop u first prec cs f) \<longleftrightarrow>
     sf_block_indicators f \<or> occurs (\<lambda>fi p c r. block_indicator fi p (followed r) (hd c)) first prec cs"
  by (induction cs arbitrary: f first prec) (auto simp: analyze_char_def Let_def)

lemma analyzeLoop_characters:
  "sf_tab_characters (analyzeLoop u first prec cs f) \<longleftrightarrow> sf_tab_characters f \<or> (\<exists>c \<in> set cs. at c 0 = 9)"
  "sf_special_characters (analyzeLoop u first prec cs f) \<longleftrightarrow> sf_special_characters f
     \<or> (\<exists>c \<in> set cs. at c 0 \<noteq> 9 \<and> (\<not> is_printable c \<or> \<not> is_ascii c \<and> \<not> u))"
  by (induction cs arbitrary: f first prec) (auto simp: analyze_char_def Let_def)

lemma space_not_break: "is_space c \<Longrightarrow> \<not> is_break c"
  by (simp add: is_space_def is_break_def)

lemma analyzeLoop_breaks:
  "sf_line_breaks (analyzeLoop u first prec cs f) \<longleftrightarrow> sf_line_breaks f \<or> (\<exists>c \<in> set cs. is_break c)"
  by (induction cs arbitrary: f first prec) (auto simp: analyze_char_def Let_def space_not_break)

lemma analyzeLoop_ends:
  "sf_leading_space (analyzeLoop u first prec cs f) \<longleftrightarrow> sf_leading_space f \<or> first \<and> cs \<noteq> [] \<and> is_space (hd cs)"
  "sf_trailing_space (analyzeLoop u first prec cs f) \<longleftrightarrow> sf_trailing_space f \<or> cs \<noteq> [] \<and> is_space (last cs)"
  by (induction cs arbitrary: f first prec) (auto simp: analyze_char_def Let_def)

lemma analyzeLoop_break_ends:
  "sf_leading_break (analyzeLoop u first prec cs f) \<longleftrightarrow> sf_leading_break f \<or> first \<and> cs \<noteq> [] \<and> is_break (hd cs)"
  "sf_trailing_break (analyzeLoop u first prec cs f) \<longleftrightarrow> sf_trailing_break f \<or> cs \<noteq> [] \<and> is_break (last cs)"
  by (induction cs arbitrary: f first prec) (auto simp: analyze_char_def Let_def space_not_break)

text \<open>Spaces beside breaks need a break.\<close>

lemma analyzeLoop_mixed:
  "(sf_previous_break f \<or> sf_break_space f \<or> sf_space_break f \<longrightarrow> sf_line_breaks f) \<Longrightarrow>
   sf_break_space (analyzeLoop u first prec cs f) \<or> sf_space_break (analyzeLoop u first prec cs f) \<Longrightarrow>
   sf_line_breaks (analyzeLoop u first prec cs f)"
proof (induction cs arbitrary: f first prec)
  case (Cons c cs)
  show ?case
    using Cons.prems by (simp, intro Cons.IH) (auto simp: analyze_char_def Let_def)
qed auto

section \<open>Plain scalars of a block\<close>

text \<open>
  The condition: printable characters and no line break, no space at either end, no indicator at the front, no colon
  before white space or the end, no hash after white space, no marker of a document.
\<close>

definition plain_safe :: "bool \<Rightarrow> ychar list \<Rightarrow> bool" where
  "plain_safe unicode cs \<longleftrightarrow> cs \<noteq> []
     \<and> (\<forall>c \<in> set cs. is_printable c \<and> \<not> is_break c \<and> (unicode \<or> is_ascii c))
     \<and> \<not> is_space (hd cs) \<and> \<not> is_space (last cs)
     \<and> hd (hd cs) \<notin> set ''#,[]{}&*!|>%@`'' \<and> byte (hd (hd cs)) \<noteq> 39 \<and> byte (hd (hd cs)) \<noteq> 34
     \<and> (hd (hd cs) \<in> set ''?:-'' \<longrightarrow> \<not> followed (tl cs))
     \<and> (\<forall>pre c rest. cs = pre @ c # rest \<longrightarrow> pre \<noteq> [] \<longrightarrow>
          (hd c = CHR '':'' \<longrightarrow> \<not> followed rest) \<and> (hd c = CHR ''#'' \<longrightarrow> \<not> is_blankz (last pre)))
     \<and> \<not> document_marker (concat cs)"

lemma occurs_inner:
  assumes "\<And>p c r. P False p c r = Q p c r"
  shows "occurs P False prec cs \<longleftrightarrow>
    (\<exists>pre c rest. cs = pre @ c # rest \<and> Q (if pre = [] then prec else is_blankz (last pre)) c rest)"
proof (induction cs arbitrary: prec)
  case Nil
  then show ?case by simp
next
  case (Cons d cs)
  have "(\<exists>pre c rest. d # cs = pre @ c # rest \<and> Q (if pre = [] then prec else is_blankz (last pre)) c rest) \<longleftrightarrow>
    Q prec d cs \<or> (\<exists>pre c rest. cs = pre @ c # rest \<and> Q (if pre = [] then is_blankz d else is_blankz (last pre)) c rest)"
    (is "?l \<longleftrightarrow> ?r")
  proof
    assume ?l
    then obtain pre c rest where s: "d # cs = pre @ c # rest" "Q (if pre = [] then prec else is_blankz (last pre)) c rest" by blast
    then show ?r by (cases pre) (auto split: if_splits)
  next
    assume ?r
    then show ?l
    proof
      assume "Q prec d cs"
      then show ?l by (intro exI[where x = "[]"] exI[where x = d] exI[where x = cs]) simp
    next
      assume "\<exists>pre c rest. cs = pre @ c # rest \<and> Q (if pre = [] then is_blankz d else is_blankz (last pre)) c rest"
      then obtain pre c rest where "cs = pre @ c # rest" "Q (if pre = [] then is_blankz d else is_blankz (last pre)) c rest" by blast
      then show ?l
        by (intro exI[where x = "d # pre"] exI[where x = c] exI[where x = rest]) (simp split: if_splits)
    qed
  qed
  then show ?case using Cons.IH by (simp add: assms)
qed

lemma block_indicators_safe:
  assumes "cs \<noteq> []"
  shows "occurs (\<lambda>fi p c r. block_indicator fi p (followed r) (hd c)) True True cs \<longleftrightarrow>
     (hd (hd cs) \<in> set ''#,[]{}&*!|>%@`'' \<or> byte (hd (hd cs)) = 39 \<or> byte (hd (hd cs)) = 34
      \<or> hd (hd cs) \<in> set ''?:-'' \<and> followed (tl cs)
      \<or> (\<exists>pre c rest. cs = pre @ c # rest \<and> pre \<noteq> [] \<and>
          (hd c = CHR '':'' \<and> followed rest \<or> hd c = CHR ''#'' \<and> is_blankz (last pre))))"
proof -
  obtain d ds where cs: "cs = d # ds" using assms by (cases cs) auto
  let ?Q = "\<lambda>p c r. hd c = CHR '':'' \<and> followed r \<or> hd c = CHR ''#'' \<and> p"
  have "occurs (\<lambda>fi p c r. block_indicator fi p (followed r) (hd c)) False (is_blankz d) ds \<longleftrightarrow>
    (\<exists>pre c rest. ds = pre @ c # rest \<and> ?Q (if pre = [] then is_blankz d else is_blankz (last pre)) c rest)"
    by (rule occurs_inner) (simp add: block_indicator_def)
  also have "\<dots> \<longleftrightarrow> (\<exists>pre c rest. cs = pre @ c # rest \<and> pre \<noteq> [] \<and> ?Q (is_blankz (last pre)) c rest)"
    (is "?l \<longleftrightarrow> ?r")
  proof
    assume ?l
    then obtain pre c rest where "ds = pre @ c # rest" "?Q (if pre = [] then is_blankz d else is_blankz (last pre)) c rest" by blast
    then show ?r
      by (intro exI[where x = "d # pre"] exI[where x = c] exI[where x = rest]) (simp add: cs split: if_splits)
  next
    assume ?r
    then obtain pre c rest where r: "cs = pre @ c # rest" "pre \<noteq> []" "?Q (is_blankz (last pre)) c rest" by blast
    then obtain pre' where "pre = d # pre'" by (cases pre) (auto simp: cs)
    then show ?l using r
      by (intro exI[where x = pre'] exI[where x = c] exI[where x = rest]) (simp add: cs split: if_splits)
  qed
  finally show ?thesis by (simp add: cs block_indicator_def)
qed

lemma tab_not_printable: "at c 0 = 9 \<Longrightarrow> \<not> is_printable c"
  by (simp add: is_printable_def)

text \<open>The analysis allows a plain scalar in a block exactly for the strings that are safe.\<close>

lemma block_plain_allowed_iff:
  assumes "chars v = Some cs" and "v \<noteq> []"
  shows "sd_block_plain_allowed (analyze_scalar_data unicode v cs d) \<longleftrightarrow> plain_safe unicode cs"
proof -
  have "concat cs = v" by (rule chars_concat[OF assms(1)])
  then have cs: "cs \<noteq> []" "concat cs = v" using assms(2) by auto
  let ?start = "if document_marker v then no_flags\<lparr>sf_block_indicators := True, sf_flow_indicators := True\<rparr> else no_flags"
  let ?f = "scalar_flags_of unicode v cs"
  have f: "?f = analyzeLoop unicode True True cs ?start" by (simp add: scalar_flags_of_def)
  have init: "\<not> sf_line_breaks ?start" "\<not> sf_special_characters ?start" "\<not> sf_tab_characters ?start" "\<not> sf_leading_space ?start"
    "\<not> sf_leading_break ?start" "\<not> sf_trailing_space ?start" "\<not> sf_trailing_break ?start" "\<not> sf_break_space ?start"
    "\<not> sf_space_break ?start" "\<not> sf_previous_break ?start" "sf_block_indicators ?start \<longleftrightarrow> document_marker v"
    by (simp_all add: no_flags_def)
  have mixed: "sf_break_space ?f \<or> sf_space_break ?f \<Longrightarrow> sf_line_breaks ?f"
    unfolding f by (rule analyzeLoop_mixed) (use init in auto)
  have breaks: "sf_line_breaks ?f \<longleftrightarrow> (\<exists>c \<in> set cs. is_break c)" unfolding f analyzeLoop_breaks using init(1) by blast
  have ends: "sf_leading_space ?f \<longleftrightarrow> is_space (hd cs)" "sf_trailing_space ?f \<longleftrightarrow> is_space (last cs)"
    "sf_leading_break ?f \<longleftrightarrow> is_break (hd cs)" "sf_trailing_break ?f \<longleftrightarrow> is_break (last cs)"
    unfolding f analyzeLoop_ends analyzeLoop_break_ends using init cs by auto
  have chars: "sf_tab_characters ?f \<or> sf_special_characters ?f \<longleftrightarrow> (\<exists>c \<in> set cs. \<not> is_printable c \<or> \<not> is_ascii c \<and> \<not> unicode)"
    unfolding f analyzeLoop_characters using init(2,3) tab_not_printable by blast
  have ind: "sf_block_indicators ?f \<longleftrightarrow> document_marker v \<or> occurs (\<lambda>fi p c r. block_indicator fi p (followed r) (hd c)) True True cs"
    unfolding f analyzeLoop_indicators using init(11) by blast
  have "hd cs \<in> set cs" "last cs \<in> set cs" using cs by auto
  then have plain: "sd_block_plain_allowed (analyzed v ?f d) \<longleftrightarrow>
      (\<forall>c \<in> set cs. is_printable c \<and> \<not> is_break c \<and> (unicode \<or> is_ascii c)) \<and> \<not> is_space (hd cs) \<and> \<not> is_space (last cs)
      \<and> \<not> sf_block_indicators ?f"
    using mixed breaks ends chars unfolding analyzed_def Let_def by auto
  define A where "A \<longleftrightarrow> (\<forall>c \<in> set cs. is_printable c \<and> \<not> is_break c \<and> (unicode \<or> is_ascii c))"
  define S where "S \<longleftrightarrow> hd (hd cs) \<in> set ''#,[]{}&*!|>%@`''"
  define T where "T \<longleftrightarrow> hd (hd cs) \<in> set ''?:-''"
  define Y where "Y \<longleftrightarrow> (\<forall>pre c rest. cs = pre @ c # rest \<longrightarrow> pre \<noteq> [] \<longrightarrow>
          (hd c = CHR '':'' \<longrightarrow> \<not> followed rest) \<and> (hd c = CHR ''#'' \<longrightarrow> \<not> is_blankz (last pre)))"
  have inner: "(\<exists>pre c rest. cs = pre @ c # rest \<and> pre \<noteq> [] \<and>
      (hd c = CHR '':'' \<and> followed rest \<or> hd c = CHR ''#'' \<and> is_blankz (last pre))) \<longleftrightarrow> \<not> Y"
    unfolding Y_def by blast
  have "analyze_scalar_data unicode v cs d = analyzed v ?f d"
    using assms(2) by (simp add: analyze_scalar_data_def)
  then have "sd_block_plain_allowed (analyze_scalar_data unicode v cs d) \<longleftrightarrow>
      A \<and> \<not> is_space (hd cs) \<and> \<not> is_space (last cs)
      \<and> \<not> (document_marker v \<or> (S \<or> byte (hd (hd cs)) = 39 \<or> byte (hd (hd cs)) = 34 \<or> T \<and> followed (tl cs) \<or> \<not> Y))"
    using plain unfolding ind block_indicators_safe[OF cs(1)] inner A_def[symmetric] S_def[symmetric] T_def[symmetric] by simp
  moreover have "plain_safe unicode cs \<longleftrightarrow> cs \<noteq> [] \<and> A \<and> \<not> is_space (hd cs) \<and> \<not> is_space (last cs)
      \<and> \<not> S \<and> byte (hd (hd cs)) \<noteq> 39 \<and> byte (hd (hd cs)) \<noteq> 34 \<and> (T \<longrightarrow> \<not> followed (tl cs)) \<and> Y \<and> \<not> document_marker v"
    unfolding plain_safe_def A_def[symmetric] S_def[symmetric] T_def[symmetric] Y_def[symmetric] cs(2) ..
  ultimately show ?thesis using cs(1) by blast
qed

section \<open>Words and numbers\<close>

text \<open>Whether the emitter writes a value as a plain scalar of a block, when it is asked for a plain one.\<close>

definition plain_allowed :: "string \<Rightarrow> bool" where
  "plain_allowed v \<longleftrightarrow> (case chars v of
     None \<Rightarrow> False
   | Some cs \<Rightarrow> v \<noteq> [] \<and> sd_block_plain_allowed (analyze_scalar_data True v cs (em_scalar new_emitter)))"

lemma plain_allowed_safe:
  "plain_allowed v \<longleftrightarrow> (case chars v of None \<Rightarrow> False | Some cs \<Rightarrow> v \<noteq> [] \<and> plain_safe True cs)"
  using block_plain_allowed_iff[of v] by (auto simp: plain_allowed_def split: option.splits)

definition word_char :: "char \<Rightarrow> bool" where
  "word_char b \<longleftrightarrow> 32 < byte b \<and> byte b < 127 \<and> b \<noteq> CHR '':'' \<and> b \<noteq> CHR ''#''"

lemma word_char_class:
  "word_char b \<Longrightarrow> byte b < 128 \<and> is_printable [b] \<and> \<not> is_break [b] \<and> \<not> is_space [b] \<and> \<not> is_blank [b]"
  unfolding word_char_def is_printable_def is_break_def is_space_def is_blank_def at_single by linarith

lemma chars_ascii: "list_all (\<lambda>b. byte b < 128) v \<Longrightarrow> chars v = Some (map (\<lambda>b. [b]) v)"
proof (induction v)
  case Nil
  then show ?case by simp
next
  case (Cons b v)
  then show ?case using chars_append_char[of "[b]" v] by simp
qed

lemma chars_words: "list_all word_char v \<Longrightarrow> chars v = Some (map (\<lambda>b. [b]) v)"
  by (rule chars_ascii, erule list.pred_mono_strong) (simp add: word_char_class)

lemma word_plain:
  assumes "list_all word_char v" and "v \<noteq> []" and "hd v \<notin> set '',[]{}&*!|>%@`?''" and "byte (hd v) \<noteq> 39" and "byte (hd v) \<noteq> 34"
    and "hd v = CHR ''-'' \<Longrightarrow> tl v \<noteq> []" and "\<not> document_marker v"
  shows "plain_allowed v"
proof -
  let ?cs = "map (\<lambda>b. [b]) v"
  obtain b w where v: "v = b # w" using assms(2) by (cases v) auto
  have b: "word_char b" "b \<noteq> CHR '':''" "b \<noteq> CHR ''#''" using assms(1) by (auto simp: v word_char_def)
  have all: "is_printable c \<and> \<not> is_break c \<and> \<not> is_space c \<and> \<not> is_blank c \<and> hd c \<noteq> CHR '':'' \<and> hd c \<noteq> CHR ''#''"
    if "c \<in> set ?cs" for c
  proof -
    obtain x where x: "c = [x]" "x \<in> set v" using \<open>c \<in> set ?cs\<close> by auto
    then have "word_char x" using assms(1) by (simp add: list_all_iff)
    then show ?thesis using word_char_class[of x] by (simp add: x(1) word_char_def)
  qed
  have first: "\<not> followed (tl ?cs)" if "b = CHR ''-''"
    using assms(1,6) that word_char_class by (cases w) (auto simp: v)
  have inner: "(hd c = CHR '':'' \<longrightarrow> \<not> followed rest) \<and> (hd c = CHR ''#'' \<longrightarrow> \<not> is_blankz (last pre))"
    if "?cs = pre @ c # rest" for pre c rest
  proof -
    have "c \<in> set ?cs" unfolding that by simp
    then show ?thesis using all by blast
  qed
  have ne: "?cs \<noteq> []" by (simp add: v)
  have ends: "last ?cs \<in> set ?cs" "hd ?cs \<in> set ?cs" using last_in_set[OF ne] list.set_sel(1)[OF ne] by auto
  have cat: "concat ?cs = v" by (induction v) auto
  have indicators: "hd (hd ?cs) \<notin> set ''#,[]{}&*!|>%@`''" "byte (hd (hd ?cs)) \<noteq> 39" "byte (hd (hd ?cs)) \<noteq> 34"
    using assms(3-5) b by (simp_all add: v)
  have special: "hd (hd ?cs) \<in> set ''?:-'' \<longrightarrow> \<not> followed (tl ?cs)"
    using assms(3) b first by (simp add: v)
  have "plain_safe True ?cs"
    unfolding plain_safe_def cat
    by (intro conjI ballI allI impI special indicators assms(7) ne) (use all ends inner in blast)+
  then show ?thesis using chars_words[OF assms(1)] assms(2) by (simp add: plain_allowed_safe)
qed

lemma digit_word: "isDigit b \<Longrightarrow> word_char b"
  by (auto simp: isDigit_def word_char_def)

lemma jsonNumber_plain:
  assumes "jsonNumber n"
  shows "plain_allowed n"
proof -
  obtain sg ds frac ex where num: "n = sg @ ds @ frac @ ex" and sg: "sg = [] \<or> sg = ''-''" and ds: "plainDigits ds"
    and frac: "frac = [] \<or> (\<exists>fs. frac = CHR ''.'' # fs \<and> fs \<noteq> [] \<and> list_all isDigit fs)"
    and ex: "ex = [] \<or> (\<exists>e esg es. ex = e # esg @ es \<and> (e = CHR ''e'' \<or> e = CHR ''E'') \<and> esg \<in> {[], ''+'', ''-''}
          \<and> es \<noteq> [] \<and> list_all isDigit es)"
    using assms unfolding jsonNumber_def by blast
  have digits: "list_all isDigit xs \<Longrightarrow> list_all word_char xs" for xs
    using digit_word by (auto simp: list_all_iff)
  have signs: "word_char (CHR ''-'')" "word_char (CHR ''+'')" "word_char (CHR ''.'')" "word_char (CHR ''e'')" "word_char (CHR ''E'')"
    by (simp_all add: word_char_def)
  have "list_all word_char n"
    using sg ds frac ex digits signs by (auto simp: num plainDigits_def)
  moreover obtain d ds' where d: "ds = d # ds'" "isDigit d" using ds by (cases ds) (auto simp: plainDigits_def)
  have "48 \<le> byte d \<and> byte d \<le> 57" using d(2) by (simp add: isDigit_def)
  then have first: "d \<notin> set '',[]{}&*!|>%@`?''" "byte d \<noteq> 39" "byte d \<noteq> 34" "d \<noteq> CHR ''-''" "d \<noteq> CHR ''.''" by auto
  have "\<not> document_marker n"
    using sg first by (auto simp: document_marker_def num d(1))
  ultimately show ?thesis
    using sg first by (intro word_plain) (auto simp: num d(1))
qed

lemma constants_plain: "plain_allowed ''null''" "plain_allowed ''true''" "plain_allowed ''false''"
  by (rule word_plain; simp add: word_char_def document_marker_def)+

text \<open>The style that the emitter chooses at the outside of flows.\<close>

lemma chosen_style_plain:
  assumes "chars v = Some cs" and "em_scalar e = analyze_scalar_data True v cs d" and "em_flow_level e = 0" and "\<not> em_canonical e"
    and "ye_implicit ev" and "ye_style ev = ScalarStyle s" and "s \<in> {PLAIN_SCALAR_STYLE, DOUBLE_QUOTED_SCALAR_STYLE}" and "v \<noteq> []"
  shows "chosen_style e ev = PLAIN_SCALAR_STYLE \<longleftrightarrow> s = PLAIN_SCALAR_STYLE \<and> plain_allowed v"
proof -
  have p: "sd_block_plain_allowed (em_scalar e) \<longleftrightarrow> plain_safe True cs"
    using block_plain_allowed_iff[OF assms(1,8)] assms(2) by simp
  have v: "sd_value (em_scalar e) = v"
    using assms(2,8) by (simp add: analyze_scalar_data_def analyzed_def Let_def)
  have m: "sd_block_plain_allowed (em_scalar e) \<Longrightarrow> \<not> sd_multiline (em_scalar e)"
    using assms(2,8) by (simp add: analyze_scalar_data_def analyzed_def Let_def)
  show ?thesis
    using assms(3-8) p v m by (auto simp: chosen_style_def scalar_style_def plain_allowed_safe assms(1) Let_def)
qed

end
