(* ===== verification/YamlValues.thy ===== *)
theory YamlValues
  imports YamlConvert YamlPlain
begin

text \<open>
  The conversion from YAML: it returns for every stream of tokens, the events that it refuses never come from the
  parser, and the value of a JSON tree comes back from its events.
\<close>

section \<open>An event leaves no error\<close>

definition keeps :: "yaml_error_type \<Rightarrow> parse_result \<Rightarrow> bool" where
  "keeps E r \<longleftrightarrow> (\<forall>e q. r = Some (Some e, q) \<longrightarrow> yp_error q = E)"

named_theorems keeps_intros

lemma keeps_simps [simp]:
  "keeps E None" "keeps E (Some (None, q))" "keeps E (Some (Some e, q)) \<longleftrightarrow> yp_error q = E"
  by (auto simp: keeps_def)

lemma keeps_with_token [keeps_intros]:
  "yp_error p = E \<Longrightarrow> (\<And>t q. yp_error q = E \<Longrightarrow> keeps E (f t q)) \<Longrightarrow> keeps E (with_token p f)"
  by (auto simp: with_token_def dest: peek_token_Some split: prod.splits option.splits)

lemma skip_token_error [simp]: "yp_error (skip_token t p) = yp_error p"
  by (simp add: skip_token_def)

lemma keeps_popped [keeps_intros]:
  "(\<And>s ss. keeps E (f (p\<lparr>yp_state := s, yp_states := ss\<rparr>))) \<Longrightarrow> keeps E (with_popped_state p f)"
  "(\<And>m ms. keeps E (g m (p\<lparr>yp_marks := ms\<rparr>))) \<Longrightarrow> keeps E (with_popped_mark p g)"
  by (auto simp: with_popped_state_def with_popped_mark_def split: list.splits)

lemma keeps_results [keeps_intros]:
  "yp_error p = E \<Longrightarrow> keeps E (commented_skip e t p)"
  "yp_error p = E \<Longrightarrow> keeps E (yaml_parser_process_empty_scalar m p)"
  "yp_error p = E \<Longrightarrow> keeps E (flow_start s e p)"
  "yp_error p = E \<Longrightarrow> keeps E (block_start s e p)"
  by (auto simp: commented_skip_def yaml_parser_set_event_comments_def yaml_parser_process_empty_scalar_def flow_start_def
    block_start_def Let_def)

lemma keeps_collection_error [keeps_intros]: "keeps E (collection_error c pr t p)"
  by (auto simp: collection_error_def with_popped_mark_def split: list.splits)

lemma push_state_error [simp]: "yp_error (push_state s p) = yp_error p"
  by (simp add: push_state_def)

lemma keeps_node [keeps_intros]:
  assumes "yp_error p = E"
  shows "keeps E (yaml_parser_parse_node block indentless p)"
proof -
  have "keeps E (node_content block indentless np t q)" if "yp_error q = E" for np t q
    using that by (auto simp: node_content_def intro!: keeps_intros split: option.splits)
  then show ?thesis using assms
    by (auto simp: yaml_parser_parse_node_def with_properties_def Let_def intro!: keeps_intros)
qed

lemma keeps_node_or_empty [keeps_intros]: "yp_error p = E \<Longrightarrow> keeps E (node_or_empty ends s block indentless m t p)"
  by (auto simp: node_or_empty_def intro!: keeps_intros)

lemma keeps_close [keeps_intros]:
  "(\<And>s ss ms. keeps E (f (p\<lparr>yp_state := s, yp_states := ss, yp_marks := ms\<rparr>))) \<Longrightarrow> keeps E (close_collection p f)"
  by (auto simp: close_collection_def with_popped_state_def with_popped_mark_def split: list.splits)

lemma keeps_open [keeps_intros]:
  "yp_error p = E \<Longrightarrow> (\<And>q. yp_error q = E \<Longrightarrow> keeps E (f q)) \<Longrightarrow> keeps E (open_collection first p f)"
  "yp_error p = E \<Longrightarrow> (\<And>q. yp_error q = E \<Longrightarrow> keeps E (f q)) \<Longrightarrow> keeps E (open_flow_mapping first p f)"
  by (auto simp: open_collection_def open_flow_mapping_def intro!: keeps_intros dest: peek_token_Some
    split: prod.splits option.splits)

lemma split_stem_error:
  "peek_token (yaml_parser_split_stem_comment n p) = (Some t, q) \<Longrightarrow> yp_error q = yp_error p"
proof (cases "peek_token p")
  case (Pair r u)
  assume a: "peek_token (yaml_parser_split_stem_comment n p) = (Some t, q)"
  show ?thesis
  proof (cases r)
    case None
    then have "peek_token u = (None, u)" using Pair
      by (auto simp: peek_token_def split: option.splits list.splits prod.splits)
    then show ?thesis using a Pair None peek_token_Some[of p t q] by (auto simp: yaml_parser_split_stem_comment_def split: if_splits)
  next
    case (Some t')
    then show ?thesis using peek_token_Some[of p t' u] peek_token_Some[OF a] Pair
      by (auto simp: yaml_parser_split_stem_comment_def split: if_splits)
  qed
qed

lemma keeps_block_entry [keeps_intros]:
  assumes "yp_error p = E"
  shows "keeps E (block_entry ends s t p)"
proof -
  have "keeps E (node_or_empty ends s True False m t' q)"
    if "peek_token (yaml_parser_split_stem_comment n (skip_token t p)) = (Some t', q)" for m t' q n
    using split_stem_error[OF that] assms by (intro keeps_node_or_empty) simp
  then show ?thesis by (auto simp: block_entry_def Let_def with_token_def split: prod.splits option.splits)
qed

lemma keeps_flow_separator [keeps_intros]:
  "yp_error p = E \<Longrightarrow> (\<And>t q. yp_error q = E \<Longrightarrow> keeps E (f t q)) \<Longrightarrow> keeps E (flow_separator first c pr t p f)"
  by (auto simp: flow_separator_def intro!: keeps_intros)

lemma peek_token_error: "peek_token p = (Some t, q) \<Longrightarrow> yp_error q = yp_error p"
  by (drule peek_token_Some) simp

lemma append_tag_directive_error:
  "yaml_parser_append_tag_directive v d m p = (True, q) \<Longrightarrow> yp_error q = yp_error p"
  by (auto simp: yaml_parser_append_tag_directive_def split: if_splits)

lemma keeps_directives: "directivesLoop v ts p = (Some r, q) \<Longrightarrow> yp_error q = yp_error p"
proof (induction v ts p rule: directivesLoop.induct)
  case (1 v ts p)
  obtain r0 p0 where peek: "peek_token p = (r0, p0)" by fastforce
  with "1.prems" obtain t where t: "r0 = Some t" by (subst (asm) directivesLoop.simps) (cases r0; auto)
  note err = peek_token_error[OF peek[unfolded t]]
  consider (version) "tk_typ t = VERSION_DIRECTIVE_TOKEN" | (tag) "tk_typ t = TAG_DIRECTIVE_TOKEN"
    | (other) "tk_typ t \<noteq> VERSION_DIRECTIVE_TOKEN" "tk_typ t \<noteq> TAG_DIRECTIVE_TOKEN" by blast
  then show ?case
  proof cases
    case version
    with "1.prems" peek t have v: "\<not> v \<noteq> None \<and> \<not> (tk_major t \<noteq> 1 \<or> tk_minor t \<noteq> 1)
      \<and> directivesLoop (Some (tk_major t, tk_minor t)) ts (skip_token t p0) = (Some r, q)"
      by (subst (asm) directivesLoop.simps) (simp split: if_splits)
    show ?thesis
      using "1.IH"(1)[OF peek[symmetric] t version conjunct1[OF v] conjunct1[OF conjunct2[OF v]] conjunct2[OF conjunct2[OF v]]] err
      by simp
  next
    case tag
    then have nv: "tk_typ t \<noteq> VERSION_DIRECTIVE_TOKEN" by simp
    obtain ok p1 where ap: "yaml_parser_append_tag_directive (tk_value t, tk_prefix t) False (tk_start t) p0 = (ok, p1)" by fastforce
    with "1.prems" peek t tag have "ok \<and> directivesLoop v (ts @ [(tk_value t, tk_prefix t)]) (skip_token t p1) = (Some r, q)"
      by (subst (asm) directivesLoop.simps) (simp split: bool.splits)
    then have "ok" and loop: "directivesLoop v (ts @ [(tk_value t, tk_prefix t)]) (skip_token t p1) = (Some r, q)" by auto
    show ?thesis
      using "1.IH"(2)[OF peek[symmetric] t nv tag ap[unfolded eqTrueI[OF \<open>ok\<close>], symmetric] refl loop]
        append_tag_directive_error[OF ap[unfolded eqTrueI[OF \<open>ok\<close>]]] err by simp
  next
    case other
    with "1.prems" peek t err show ?thesis
      by (subst (asm) directivesLoop.simps)
        (auto simp: append_default_directives_def default_tag_directives_def yaml_parser_append_tag_directive_def)
  qed
qed

lemma keeps_skip_ends: "skipDocumentEnds p = (Some t, q) \<Longrightarrow> yp_error q = yp_error p"
proof (induction p rule: skipDocumentEnds.induct)
  case (1 p)
  obtain r0 p0 where peek: "peek_token p = (r0, p0)" by fastforce
  with "1.prems" obtain u where u: "r0 = Some u" by (subst (asm) skipDocumentEnds.simps) (cases r0; auto)
  show ?case
  proof (cases "tk_typ u = DOCUMENT_END_TOKEN")
    case True
    with "1.prems" peek u have "skipDocumentEnds (skip_token u p0) = (Some t, q)"
      by (subst (asm) skipDocumentEnds.simps) simp
    from "1.IH"[OF peek[symmetric] u True this] show ?thesis using peek_token_error[OF peek[unfolded u]] by simp
  next
    case False
    with "1.prems" peek u peek_token_error[OF peek[unfolded u]] show ?thesis
      by (subst (asm) skipDocumentEnds.simps) simp
  qed
qed

lemma keeps_document_start: "keeps (yp_error p) (yaml_parser_parse_document_start implicit p)"
proof -
  have "keeps E (implicit_document_start t q)" if "yp_error q = E" for E t q
    using that by (auto simp: implicit_document_start_def yaml_parser_process_directives_def Let_def
      dest: keeps_directives split: prod.splits option.splits)
  moreover have "keeps E (explicit_document_start t q)" if "yp_error q = E" for E t q
    using that by (auto simp: explicit_document_start_def yaml_parser_process_directives_def
      dest: keeps_directives split: prod.splits option.splits intro!: keeps_intros)
  ultimately show ?thesis
    by (auto simp: yaml_parser_parse_document_start_def dest: peek_token_Some keeps_skip_ends split: prod.splits option.splits)
qed

lemma keeps_parse: "yaml_parser_parse p = Some (Some e, q) \<Longrightarrow> yp_error q = yp_error p"
proof -
  have "keeps (yp_error p) (yaml_parser_state_machine p)"
    unfolding yaml_parser_state_machine_def
    by (cases "yp_state p")
      (auto simp: yaml_parser_parse_stream_start_def yaml_parser_parse_document_content_def
        yaml_parser_parse_document_end_def yaml_parser_parse_block_sequence_entry_def
        yaml_parser_parse_indentless_sequence_entry_def yaml_parser_parse_block_mapping_key_def
        yaml_parser_parse_block_mapping_value_def yaml_parser_parse_flow_sequence_entry_def
        yaml_parser_parse_flow_sequence_entry_mapping_key_def yaml_parser_parse_flow_sequence_entry_mapping_value_def
        yaml_parser_parse_flow_sequence_entry_mapping_end_def yaml_parser_parse_flow_mapping_key_def
        yaml_parser_parse_flow_mapping_value_def yaml_parser_set_event_comments_def flow_sequence_end_def flow_mapping_end_def
        Let_def keeps_document_start intro!: keeps_intros)
  then show "yaml_parser_parse p = Some (Some e, q) \<Longrightarrow> yp_error q = yp_error p"
    by (auto simp: yaml_parser_parse_def keeps_def split: if_splits)
qed

section \<open>The conversion returns\<close>

definition structural :: "yaml_fail \<Rightarrow> bool" where
  "structural e \<longleftrightarrow> (\<exists>t. e = UnexpectedEvent t) \<or> (\<exists>s t. e = ExpectedEvent s t)"

text \<open>A parser that has not failed and from which more events come.\<close>

definition live :: "'f eventParser \<Rightarrow> bool" where
  "live p \<longleftrightarrow> parser_inv (ep_parser p) \<and> yp_error (ep_parser p) = NO_ERROR"

abbreviation frames :: "'f eventParser \<Rightarrow> frame list" where
  "frames p \<equiv> parser_frames (ep_parser p)"

abbreviation weight :: "'f eventParser \<Rightarrow> nat" where
  "weight p \<equiv> parser_weight (ep_parser p)"

definition next_ok :: "'f eventParser \<Rightarrow> (yaml_event \<times> 'f eventParser) outcome \<Rightarrow> bool" where
  "next_ok p r \<longleftrightarrow> (case r of
     None \<Rightarrow> False
   | Some (Inl e) \<Rightarrow> \<not> structural e
   | Some (Inr (ev, q)) \<Rightarrow> live q \<and> weight q < weight p \<and> accept (ye_typ ev) (frames p) = Some (frames q))"

lemma live_frames_not_finished:
  "live p \<Longrightarrow> frames p \<noteq> [] \<Longrightarrow> \<not> parser_finished (ep_parser p)"
  by (auto simp: live_def parser_finished_def parser_inv_def parser_frames_def is_outer_def)

lemma parserError_not_structural [simp]: "\<not> structural (parserError p)"
  by (simp add: structural_def parserError_def)

lemma next_event_ok: "live p \<Longrightarrow> frames p \<noteq> [] \<Longrightarrow> next_ok p (next_event p)"
  using yaml_parser_parse_good[OF live_frames_not_finished[of p]] keeps_parse[of "ep_parser p"]
  by (auto simp: next_ok_def next_event_def good_result_def live_def split: option.splits prod.splits)

definition outcome_ok :: "frame list \<Rightarrow> nat \<Rightarrow> ('a \<times> 'f eventParser) outcome \<Rightarrow> bool" where
  "outcome_ok k w r \<longleftrightarrow> (case r of
     None \<Rightarrow> False
   | Some (Inl e) \<Rightarrow> \<not> structural e
   | Some (Inr (x, q)) \<Rightarrow> live q \<and> frames q = k \<and> weight q \<le> w)"

lemma outcome_ok_simps [simp]:
  "\<not> outcome_ok k w None" "outcome_ok k w (Some (Inl e)) \<longleftrightarrow> \<not> structural e"
  "outcome_ok k w (Some (Inr (x, q))) \<longleftrightarrow> live q \<and> frames q = k \<and> weight q \<le> w"
  by (simp_all add: outcome_ok_def)

lemma attempt_simps [simp]:
  "attempt None f = None" "attempt (Some (Inl e)) f = Some (Inl e)" "attempt (Some (Inr x)) f = f x"
  by (simp_all add: attempt_def)

lemma outcome_ok_weaken: "outcome_ok k w r \<Longrightarrow> w \<le> w' \<Longrightarrow> outcome_ok k w' r"
  by (auto simp: outcome_ok_def split: option.splits sum.splits)

lemma outcome_cases:
  obtains "r = None" | (error) e where "r = Some (Inl e)" | (result) x q where "r = Some (Inr (x, q))"
  by (cases r; cases "the r") auto

lemma attempt_next_ok:
  assumes "live p" and "frames p \<noteq> []"
    and f: "\<And>ev q. live q \<Longrightarrow> weight q < weight p \<Longrightarrow> accept (ye_typ ev) (frames p) = Some (frames q) \<Longrightarrow> outcome_ok k w (f (ev, q))"
  shows "outcome_ok k w (attempt (next_event p) f)"
  using next_event_ok[OF assms(1,2)]
  by (cases "next_event p" rule: outcome_cases) (auto simp: next_ok_def intro!: f)

lemma attempt_outcome_ok:
  assumes "outcome_ok k' w' m" and f: "\<And>x q. live q \<Longrightarrow> frames q = k' \<Longrightarrow> weight q \<le> w' \<Longrightarrow> outcome_ok k w (f (x, q))"
  shows "outcome_ok k w (attempt m f)"
  using assms(1) by (cases m rule: outcome_cases) (auto intro!: f)

definition node_event :: "yaml_event \<Rightarrow> frame list \<Rightarrow> 'f eventParser \<Rightarrow> bool" where
  "node_event ev k p \<longleftrightarrow> (ye_typ ev = ALIAS_EVENT \<or> ye_typ ev = SCALAR_EVENT) \<and> frames p = k
     \<or> ye_typ ev = SEQUENCE_START_EVENT \<and> frames p = FSequence # k
     \<or> ye_typ ev = MAPPING_START_EVENT \<and> frames p = FKey # k"

lemma accept_node_event:
  "accept (ye_typ ev) k0 = Some (frames p) \<Longrightarrow> node_read k0 = Some k \<Longrightarrow>
   \<not> (ye_typ ev = SEQUENCE_END_EVENT \<and> take 1 k0 = [FSequence]) \<Longrightarrow>
   \<not> (ye_typ ev = MAPPING_END_EVENT \<and> take 1 k0 = [FKey]) \<Longrightarrow> node_event ev k p"
  by (auto simp: accept_def node_event_def split: yaml_event_type.splits if_splits)

lemma scalarValue_not_structural: "scalarValue F ev = Inl e \<Longrightarrow> \<not> structural e"
proof -
  have f: "floatScalar F d b = Inl e \<Longrightarrow> \<not> structural e" for d b
    by (auto simp: floatScalar_def structural_def Let_def split: if_splits option.splits)
  then have r: "resolvePlainScalar F d = Inl e \<Longrightarrow> \<not> structural e" for d
    by (auto simp: resolvePlainScalar_def resolveFloat_def split: if_splits option.splits sum.splits)
  show "scalarValue F ev = Inl e \<Longrightarrow> \<not> structural e"
    using f r by (auto simp: scalarValue_def structural_def Let_def split: if_splits option.splits sum.splits)
qed

lemma set_anchor_ok: "live p \<Longrightarrow> frames p = k \<Longrightarrow> weight p \<le> w \<Longrightarrow> outcome_ok k w (set_anchor ev v p)"
  by (simp add: set_anchor_def outcome_ok_def live_def)

lemma parser_weight_pos: "0 < parser_weight p"
  by (simp add: parser_weight_def state_weight_def)

lemma parse_ok:
  "(\<forall>ev p k. live p \<longrightarrow> node_event ev k p \<longrightarrow> 2 * weight p + 2 \<le> n \<longrightarrow> outcome_ok k (weight p) (parseValue F n ev p))
   \<and> (\<forall>vals p k. live p \<longrightarrow> frames p = FSequence # k \<longrightarrow> 2 * weight p + 1 \<le> n \<longrightarrow> outcome_ok k (weight p) (parseSequence F n vals p))
   \<and> (\<forall>vals p k. live p \<longrightarrow> frames p = FKey # k \<longrightarrow> 2 * weight p + 1 \<le> n \<longrightarrow> outcome_ok k (weight p) (parseMapping F n vals p))"
proof (induction n)
  case 0
  then show ?case by simp
next
  case (Suc n)
  have valued: "outcome_ok k w (parseValue F n ev p)"
    if "live p" "node_event ev k p" "2 * weight p + 2 \<le> n" "weight p \<le> w" for ev k w and p :: "'a eventParser"
    using Suc.IH that by (blast intro: outcome_ok_weaken)
  have sequence: "outcome_ok k w (parseSequence F n vals p)"
    if "live p" "frames p = FSequence # k" "2 * weight p + 1 \<le> n" "weight p \<le> w" for vals k w and p :: "'a eventParser"
    using Suc.IH that by (blast intro: outcome_ok_weaken)
  have mapping: "outcome_ok k w (parseMapping F n vals p)"
    if "live p" "frames p = FKey # k" "2 * weight p + 1 \<le> n" "weight p \<le> w" for vals k w and p :: "'a eventParser"
    using Suc.IH that by (blast intro: outcome_ok_weaken)
  have "outcome_ok k (weight p) (parseValue F (Suc n) ev p)"
    if p: "live p" "node_event ev k p" "2 * weight p + 2 \<le> Suc n" for ev k and p :: "'a eventParser"
  proof -
    consider (old) "ye_typ ev = ALIAS_EVENT" "frames p = k" | (scalar) "ye_typ ev = SCALAR_EVENT" "frames p = k"
      | (seq) "ye_typ ev = SEQUENCE_START_EVENT" "frames p = FSequence # k"
      | (map) "ye_typ ev = MAPPING_START_EVENT" "frames p = FKey # k"
      using p(2) by (auto simp: node_event_def)
    then show ?thesis
    proof cases
      case old
      then show ?thesis using p by (auto simp: outcome_ok_def structural_def split: option.splits)
    next
      case scalar
      then show ?thesis using p by (auto simp: outcome_ok_def scalarValue_not_structural set_anchor_def live_def split: sum.splits)
    next
      case seq
      have "outcome_ok k (weight p) (attempt (parseSequence F n None p) (\<lambda>(vals, p). set_anchor ev (GSlice vals) p))"
        using seq p by (intro attempt_outcome_ok[OF sequence]) (auto intro!: set_anchor_ok)
      then show ?thesis using seq by simp
    next
      case map
      have "outcome_ok k (weight p) (attempt (parseMapping F n [] p) (\<lambda>(vals, p). set_anchor ev (GMap vals) p))"
        using map p by (intro attempt_outcome_ok[OF mapping]) (auto intro!: set_anchor_ok)
      then show ?thesis using map by simp
    qed
  qed
  moreover have "outcome_ok k (weight p) (parseSequence F (Suc n) vals p)"
    if p: "live p" "frames p = FSequence # k" "2 * weight p + 1 \<le> Suc n" for vals k and p :: "'a eventParser"
    unfolding parseSequence.simps
  proof (rule attempt_next_ok[OF p(1)])
    show "frames p \<noteq> []" using p(2) by simp
    fix ev :: yaml_event and q :: "'a eventParser"
    assume q: "live q" "weight q < weight p" "accept (ye_typ ev) (frames p) = Some (frames q)"
    show "outcome_ok k (weight p) ((\<lambda>(ev, p). if ye_typ ev = SEQUENCE_END_EVENT then Some (Inr (vals, p))
       else attempt (parseValue F n ev p) (\<lambda>(val, p). parseSequence F n (append_slice vals val) p)) (ev, q))"
    proof (cases "ye_typ ev = SEQUENCE_END_EVENT")
      case True
      then show ?thesis using q p(2) by (auto simp: accept_def outcome_ok_def)
    next
      case False
      have "node_event ev (FSequence # k) q"
        using q(3) False by (intro accept_node_event[OF q(3)]) (auto simp: p(2))
      then have "outcome_ok k (weight p) (attempt (parseValue F n ev q) (\<lambda>(val, p). parseSequence F n (append_slice vals val) p))"
        using q p by (intro attempt_outcome_ok[OF valued[where w = "weight q"]]) (auto intro!: sequence)
      then show ?thesis using False by simp
    qed
  qed
  moreover have "outcome_ok k (weight p) (parseMapping F (Suc n) vals p)"
    if p: "live p" "frames p = FKey # k" "2 * weight p + 1 \<le> Suc n" for vals k and p :: "'a eventParser"
    unfolding parseMapping.simps
  proof (rule attempt_next_ok[OF p(1)])
    show "frames p \<noteq> []" using p(2) by simp
    fix ev :: yaml_event and q :: "'a eventParser"
    assume q: "live q" "weight q < weight p" "accept (ye_typ ev) (frames p) = Some (frames q)"
    have entry: "outcome_ok k (weight p) (attempt (next_event r) (\<lambda>(valEv, p).
         attempt (parseValue F n valEv p) (\<lambda>(val, p). parseMapping F n (put_key (keyString F keyVal) val vals) p)))"
      if r: "live r" "frames r = FValue # k" "weight r \<le> weight q" for r :: "'a eventParser" and keyVal
    proof (rule attempt_next_ok[OF r(1)])
      show "frames r \<noteq> []" using r(2) by simp
      fix ev' :: yaml_event and s :: "'a eventParser"
      assume s: "live s" "weight s < weight r" "accept (ye_typ ev') (frames r) = Some (frames s)"
      have "node_event ev' (FKey # k) s"
        using s(3) by (intro accept_node_event[OF s(3)]) (auto simp: r(2))
      then have "outcome_ok k (weight p) (attempt (parseValue F n ev' s) (\<lambda>(val, p). parseMapping F n (put_key (keyString F keyVal) val vals) p))"
        using s r q p by (intro attempt_outcome_ok[OF valued[where w = "weight s"]]) (auto intro!: mapping)
      then show "outcome_ok k (weight p) ((\<lambda>(valEv, p).
         attempt (parseValue F n valEv p) (\<lambda>(val, p). parseMapping F n (put_key (keyString F keyVal) val vals) p)) (ev', s))"
        by simp
    qed
    show "outcome_ok k (weight p) ((\<lambda>(keyEv, p). if ye_typ keyEv = MAPPING_END_EVENT then Some (Inr (vals, p))
       else attempt (parseValue F n keyEv p) (\<lambda>(keyVal, p). attempt (next_event p) (\<lambda>(valEv, p).
         attempt (parseValue F n valEv p) (\<lambda>(val, p). parseMapping F n (put_key (keyString F keyVal) val vals) p)))) (ev, q))"
    proof (cases "ye_typ ev = MAPPING_END_EVENT")
      case True
      then show ?thesis using q p(2) by (auto simp: accept_def outcome_ok_def)
    next
      case False
      have "node_event ev (FValue # k) q"
        using q(3) False by (intro accept_node_event[OF q(3)]) (auto simp: p(2))
      then show ?thesis
        using q p False by (simp, intro attempt_outcome_ok[OF valued[where w = "weight q"]]) (auto intro!: entry)
    qed
  qed
  ultimately show ?case by blast
qed

lemma expectDocumentEnd_ok:
  assumes "live p" and "frames p = [FDocumentEnd, FDocuments]"
  shows "\<exists>r. expectDocumentEnd p = Some r \<and> (\<forall>e. r = Inl e \<longrightarrow> \<not> structural e)"
  using next_event_ok[OF assms(1)] assms(2)
  by (cases "next_event p" rule: outcome_cases)
    (auto simp: expectDocumentEnd_def next_ok_def accept_def split: yaml_event_type.splits if_splits)

lemma parseDocument_ok:
  assumes "live p" and "frames p = [FNode, FDocumentEnd, FDocuments]"
  shows "\<exists>r. parseDocument F p = Some r \<and> (\<forall>e. r = Inl e \<longrightarrow> \<not> structural e)"
proof (cases "next_event p" rule: outcome_cases)
  case (result ev q)
  then have q: "live q" "accept (ye_typ ev) (frames p) = Some (frames q)"
    using next_event_ok[OF assms(1)] assms(2) by (auto simp: next_ok_def)
  have ev: "node_event ev [FDocumentEnd, FDocuments] q"
    using q(2) assms(2) by (intro accept_node_event[OF q(2)]) auto
  then have "ye_typ ev \<noteq> DOCUMENT_END_EVENT" by (auto simp: node_event_def)
  moreover have "outcome_ok [FDocumentEnd, FDocuments] (weight q) (parseValue F (parse_fuel q) ev q)"
    using parse_ok[of "parse_fuel q" F] q(1) ev by (auto simp: parse_fuel_def)
  ultimately show ?thesis using result expectDocumentEnd_ok
    by (cases "parseValue F (parse_fuel q) ev q" rule: outcome_cases) (fastforce simp: parseDocument_def attempt_def split: sum.splits)+
qed (use next_event_ok[OF assms(1)] assms(2) in \<open>auto simp: next_ok_def parseDocument_def\<close>)

lemma parseStream_ok:
  assumes "live p" and "frames p = [FStart]"
  shows "\<exists>r. parseStream F p = Some r \<and> (\<forall>e. r = Inl e \<longrightarrow> \<not> structural e)"
proof (cases "next_event p" rule: outcome_cases)
  case (result ev q)
  then have q: "live q" "accept (ye_typ ev) [FStart] = Some (frames q)"
    using next_event_ok[OF assms(1)] assms(2) by (auto simp: next_ok_def)
  then have ev: "ye_typ ev = STREAM_START_EVENT" "frames q = [FDocuments]"
    by (auto simp: accept_def split: yaml_event_type.splits if_splits)
  show ?thesis
  proof (cases "next_event q" rule: outcome_cases)
    case (result ev' r)
    then have r: "live r" "accept (ye_typ ev') [FDocuments] = Some (frames r)"
      using next_event_ok[OF q(1)] ev by (auto simp: next_ok_def)
    then have "ye_typ ev' = DOCUMENT_START_EVENT \<and> frames r = [FNode, FDocumentEnd, FDocuments] \<or> ye_typ ev' = STREAM_END_EVENT"
      by (auto simp: accept_def split: yaml_event_type.splits if_splits)
    then show ?thesis
      using \<open>next_event p = _\<close> result ev parseDocument_ok[OF r(1), of F] by (auto simp: parseStream_def)
  qed (use \<open>next_event p = _\<close> next_event_ok[OF q(1)] ev in \<open>auto simp: next_ok_def parseStream_def\<close>)
qed (use next_event_ok[OF assms(1)] assms(2) in \<open>auto simp: next_ok_def parseStream_def\<close>)

text \<open>
  C19: The conversion from YAML returns for every input and all that the scanner may make of it, and it never complains of an
  event that should not be there: those branches of the code are not reached.
\<close>

theorem YAMLToJSON_returns:
  assumes "\<And>tokens failure. scanner y = (tokens, failure) \<Longrightarrow> sf_error failure \<noteq> NO_ERROR"
  shows "\<exists>r. YAMLToJSON F scanner y = Some r \<and> (\<forall>e. r = Inl e \<longrightarrow> \<not> structural e)"
proof (cases "all_space y")
  case True
  then show ?thesis by (simp add: YAMLToJSON_def)
next
  case False
  obtain tokens failure where s: "scanner y = (tokens, failure)" by fastforce
  have "live (newEventParser failure tokens :: 'a eventParser)"
    using new_parser_inv[OF assms[OF s], of tokens] by (simp add: live_def newEventParser_def new_parser_def)
  moreover have "frames (newEventParser failure tokens :: 'a eventParser) = [FStart]"
    by (simp add: newEventParser_def parser_frames_def new_parser_def)
  ultimately obtain r where "parseStream F (newEventParser failure tokens) = Some r" "\<And>e. r = Inl e \<Longrightarrow> \<not> structural e"
    using parseStream_ok[of "newEventParser failure tokens :: 'a eventParser" F] by blast
  then show ?thesis using False s by (cases r) (auto simp: YAMLToJSON_def)
qed

section \<open>Values that are written and read\<close>

text \<open>A tree as \<^verbatim>\<open>json.Decoder\<close> makes it, with numbers that the code accepts.\<close>

fun json_tree :: "'f floats \<Rightarrow> 'f gval \<Rightarrow> bool" where
  "json_tree F GNil = True"
| "json_tree F (GBool b) = True"
| "json_tree F (GNumber n) = (jsonNumber n \<and> validateJSONNumber F n = None)"
| "json_tree F (GString s) = True"
| "json_tree F (GSlice (Some vs)) = list_all (json_tree F) vs"
| "json_tree F (GMap kvs) = (sorted_wrt (<) (map fst kvs) \<and> list_all (\<lambda>(k, v). json_tree F v) kvs)"
| "json_tree F _ = False"

text \<open>The value that is read back: numbers are read as numbers, and an empty sequence is read as nil.\<close>

fun read_value :: "'f floats \<Rightarrow> 'f gval \<Rightarrow> 'f gval" where
  "read_value F (GNumber n) = numberValue F n"
| "read_value F (GSlice (Some vs)) = GSlice (if vs = [] then None else Some (map (read_value F) vs))"
| "read_value F (GMap kvs) = GMap (map (\<lambda>(k, v). (k, read_value F v)) kvs)"
| "read_value F v = v"

text \<open>The events that \<^verbatim>\<open>emitValue\<close> emits.\<close>

fun value_events :: "'f floats \<Rightarrow> 'f gval \<Rightarrow> yaml_event list" where
  "value_events F GNil = [scalar_to_emit ''null'' PLAIN_SCALAR_STYLE]"
| "value_events F (GBool b) = [scalar_to_emit (if b then ''true'' else ''false'') PLAIN_SCALAR_STYLE]"
| "value_events F (GNumber n) = [scalar_to_emit n PLAIN_SCALAR_STYLE]"
| "value_events F (GString s) = [scalar_to_emit s (stringScalarStyle F s)]"
| "value_events F (GSlice (Some vs)) = sequence_to_emit # concat (map (value_events F) vs) @ [end_to_emit SEQUENCE_END_EVENT]"
| "value_events F (GMap kvs) = mapping_to_emit
     # concat (map (\<lambda>(k, v). scalar_to_emit k (stringScalarStyle F k) # value_events F v) kvs) @ [end_to_emit MAPPING_END_EVENT]"
| "value_events F _ = []"

fun emitAll :: "yaml_event list \<Rightarrow> yaml_emitter \<Rightarrow> yaml_emitter outcome" where
  "emitAll [] em = Some (Inr em)"
| "emitAll (ev # evs) em = attempt (emit ev em) (emitAll evs)"

lemma attempt_assoc: "attempt (attempt m f) g = attempt m (\<lambda>x. attempt (f x) g)"
  by (simp add: attempt_def split: option.split sum.split)

lemma attempt_return [simp]: "attempt m (\<lambda>x. Some (Inr x)) = m"
  by (simp add: attempt_def split: option.split sum.split)

lemma attempt_cong: "m = m' \<Longrightarrow> (\<And>x. m' = Some (Inr x) \<Longrightarrow> f x = g x) \<Longrightarrow> attempt m f = attempt m' g"
  by (simp add: attempt_def split: option.split sum.split)

lemma emitAll_append: "emitAll (es @ fs) em = attempt (emitAll es em) (emitAll fs)"
  by (induction es arbitrary: em) (simp_all add: attempt_assoc cong: attempt_cong)

lemma emitValue_events:
  "json_tree F v \<Longrightarrow> emitValue F v em = emitAll (value_events F v) em"
  "list_all (json_tree F) vs \<Longrightarrow> emitSequence F vs em = emitAll (concat (map (value_events F) vs) @ [end_to_emit SEQUENCE_END_EVENT]) em"
  "list_all (\<lambda>(k, v). json_tree F v) kvs \<Longrightarrow> emitEntries F kvs em
     = emitAll (concat (map (\<lambda>(k, v). scalar_to_emit k (stringScalarStyle F k) # value_events F v) kvs) @ [end_to_emit MAPPING_END_EVENT]) em"
  by (induction F v em and F vs em and F kvs em rule: emitValue_emitSequence_emitEntries.induct)
    (auto simp: emitScalar_def emitAll_append fun_eq_iff cong: attempt_cong)

text \<open>
  An event that the emitter was given and the event that the parser makes of its text: the parser takes a scalar
  that was written plain as implicit, and one that was quoted not.
\<close>

definition written_plain :: "yaml_event \<Rightarrow> bool" where
  "written_plain ev \<longleftrightarrow> ye_style ev = ScalarStyle PLAIN_SCALAR_STYLE \<and> plain_allowed (ye_value ev)"

definition reads_back :: "yaml_event \<Rightarrow> yaml_event \<Rightarrow> bool" where
  "reads_back ev ev' \<longleftrightarrow> ye_typ ev' = ye_typ ev \<and> ye_anchor ev' = [] \<and> ye_tag ev' = [] \<and> ye_value ev' = ye_value ev
     \<and> (ye_typ ev = SCALAR_EVENT \<longrightarrow> (ye_implicit ev' \<longleftrightarrow> written_plain ev))"

text \<open>The parser delivers the events; the result is the parser then.\<close>

fun deliver :: "yaml_parser \<Rightarrow> yaml_event list \<Rightarrow> yaml_parser option" where
  "deliver p [] = Some p"
| "deliver p (ev # evs) = (case yaml_parser_parse p of
     Some (Some ev', p') \<Rightarrow> if reads_back ev ev' then deliver p' evs else None
   | _ \<Rightarrow> None)"

definition delivers :: "yaml_parser \<Rightarrow> yaml_event list \<Rightarrow> yaml_parser \<Rightarrow> bool" where
  "delivers p evs q \<longleftrightarrow> deliver p evs = Some q"

lemma delivers_simps [simp]:
  "delivers p [] q \<longleftrightarrow> p = q"
  "delivers p (ev # evs) q \<longleftrightarrow> (\<exists>ev' p'. yaml_parser_parse p = Some (Some ev', p') \<and> reads_back ev ev' \<and> delivers p' evs q)"
  by (auto simp: delivers_def split: option.splits prod.splits if_splits)

lemma delivers_append: "delivers p (es @ fs) r \<longleftrightarrow> (\<exists>q. delivers p es q \<and> delivers q fs r)"
  by (induction es arbitrary: p) auto

lemma attempt_next_delivers:
  assumes "delivers (ep_parser p) (ev # evs) q"
  obtains ev' p' where "next_event p = Some (Inr (ev', p\<lparr>ep_parser := p'\<rparr>))" "reads_back ev ev'" "delivers p' evs q"
  using assms by (auto simp: next_event_def)

lemma emit_events_typ [simp]:
  "ye_typ (scalar_to_emit v s) = SCALAR_EVENT" "ye_value (scalar_to_emit v s) = v" "ye_style (scalar_to_emit v s) = ScalarStyle s"
  "ye_typ sequence_to_emit = SEQUENCE_START_EVENT" "ye_typ mapping_to_emit = MAPPING_START_EVENT" "ye_typ (end_to_emit t) = t"
  by (simp_all add: scalar_to_emit_def sequence_to_emit_def mapping_to_emit_def end_to_emit_def zero_event_def)

lemma set_anchor_none: "ye_anchor ev = [] \<Longrightarrow> set_anchor ev v p = Some (Inr (v, p))"
  by (simp add: set_anchor_def)

text \<open>A scalar: a string comes back whatever it is, a constant or number because it is written plain.\<close>

lemma read_scalar:
  assumes "reads_back (scalar_to_emit v s) ev"
  shows "scalarValue F ev = (if s = PLAIN_SCALAR_STYLE \<and> plain_allowed v then resolvePlainScalar F v else Inr (GString v))"
  using assms by (auto simp: reads_back_def scalarValue_def shortTag_def written_plain_def)

lemma read_string: "reads_back (scalar_to_emit v (stringScalarStyle F v)) ev \<Longrightarrow> scalarValue F ev = Inr (GString v)"
  using stringScalarStyle_PLAIN[of F v] by (simp add: read_scalar)

lemma resolve_constants:
  "resolvePlainScalar F ''null'' = Inr GNil" "resolvePlainScalar F ''true'' = Inr (GBool True)"
  "resolvePlainScalar F ''false'' = Inr (GBool False)"
  by (simp_all add: resolvePlainScalar_def nullScalar_def boolScalar_def EqualFold_def lowerByte_def)

lemma parse_scalar:
  assumes "reads_back (scalar_to_emit v s) ev" and "scalarValue F ev = Inr x"
  shows "parseValue F (Suc n) ev p = Some (Inr (x, p))"
  using assms by (simp add: reads_back_def set_anchor_none)

lemma put_key_last: "\<forall>k' \<in> fst ` set kvs. k' < k \<Longrightarrow> put_key k v kvs = kvs @ [(k, v)]"
proof (induction kvs)
  case (Cons kv kvs)
  obtain k' v' where "kv = (k', v')" by fastforce
  then show ?case using Cons by (auto simp: less_not_sym)
qed simp

lemma value_events_length: "json_tree F v \<Longrightarrow> 0 < length (value_events F v)"
  by (cases "(F, v)" rule: json_tree.cases) auto

definition reads :: "'f floats \<Rightarrow> nat \<Rightarrow> 'f gval \<Rightarrow> bool" where
  "reads F n v \<longleftrightarrow> (\<forall>ev evs ev' p q. value_events F v = ev # evs \<longrightarrow> reads_back ev ev' \<longrightarrow> delivers (ep_parser p) evs q \<longrightarrow>
     parseValue F n ev' p = Some (Inr (read_value F v, p\<lparr>ep_parser := q\<rparr>)))"

lemma reads_sequence:
  assumes "\<And>v m. v \<in> set vs \<Longrightarrow> length (value_events F v) \<le> m \<Longrightarrow> reads F m v" and "\<And>v. v \<in> set vs \<Longrightarrow> json_tree F v"
    and "length (concat (map (value_events F) vs)) + 1 \<le> n"
    and "delivers (ep_parser p) (concat (map (value_events F) vs) @ [end_to_emit SEQUENCE_END_EVENT]) q"
  shows "parseSequence F n vals p = Some (Inr (if vs = [] then vals
     else Some ((case vals of None \<Rightarrow> [] | Some xs \<Rightarrow> xs) @ map (read_value F) vs), p\<lparr>ep_parser := q\<rparr>))"
  using assms
proof (induction vs arbitrary: n vals p)
  case Nil
  then obtain m where m: "n = Suc m" by (cases n) auto
  have "delivers (ep_parser p) [end_to_emit SEQUENCE_END_EVENT] q" using Nil.prems(4) by simp
  then obtain ev' p' where "next_event p = Some (Inr (ev', p\<lparr>ep_parser := p'\<rparr>))" "reads_back (end_to_emit SEQUENCE_END_EVENT) ev'"
    "delivers p' [] q" by (rule attempt_next_delivers)
  then show ?case by (simp add: m reads_back_def)
next
  case (Cons v vs)
  then obtain m where m: "n = Suc m" by (cases n) auto
  have v: "json_tree F v" using Cons.prems(2) by simp
  obtain ev evs where e: "value_events F v = ev # evs" using value_events_length[OF v] by (cases "value_events F v") auto
  let ?rest = "concat (map (value_events F) vs) @ [end_to_emit SEQUENCE_END_EVENT]"
  have "delivers (ep_parser p) (ev # evs @ ?rest) q" using Cons.prems(4) by (simp add: e)
  then obtain ev' p' where nx: "next_event p = Some (Inr (ev', p\<lparr>ep_parser := p'\<rparr>))" "reads_back ev ev'" "delivers p' (evs @ ?rest) q"
    by (rule attempt_next_delivers)
  then obtain p1 where p1: "delivers p' evs p1" "delivers p1 ?rest q" by (auto simp: delivers_append)
  have len: "length (value_events F v) \<le> m" "length (concat (map (value_events F) vs)) + 1 \<le> m"
    using Cons.prems(3) value_events_length[OF v] by (auto simp: m simp del: length_greater_0_conv)
  have "reads F m v" using Cons.prems(1) len(1) by simp
  then have pv: "parseValue F m ev' (p\<lparr>ep_parser := p'\<rparr>) = Some (Inr (read_value F v, p\<lparr>ep_parser := p1\<rparr>))"
    using e nx(2) p1(1) unfolding reads_def by fastforce
  have "ye_typ ev \<noteq> SEQUENCE_END_EVENT" using v e by (cases "(F, v)" rule: json_tree.cases) auto
  then have "ye_typ ev' \<noteq> SEQUENCE_END_EVENT" using nx(2) by (simp add: reads_back_def)
  moreover have "parseSequence F m (append_slice vals (read_value F v)) (p\<lparr>ep_parser := p1\<rparr>)
    = Some (Inr (if vs = [] then append_slice vals (read_value F v)
       else Some ((case append_slice vals (read_value F v) of None \<Rightarrow> [] | Some xs \<Rightarrow> xs) @ map (read_value F) vs), p\<lparr>ep_parser := q\<rparr>))"
    using Cons.IH[OF Cons.prems(1) Cons.prems(2) len(2), of "p\<lparr>ep_parser := p1\<rparr>"] p1(2) by simp
  ultimately show ?case using nx(1) pv by (simp add: m append_slice_def)
qed

lemma reads_entries:
  assumes "\<And>k v m. (k, v) \<in> set kvs \<Longrightarrow> length (value_events F v) \<le> m \<Longrightarrow> reads F m v"
    and "\<And>k v. (k, v) \<in> set kvs \<Longrightarrow> json_tree F v"
    and "length (concat (map (\<lambda>(k, v). scalar_to_emit k (stringScalarStyle F k) # value_events F v) kvs)) + 1 \<le> n"
    and "sorted_wrt (<) (map fst kvs)" and "\<forall>k \<in> fst ` set vals. \<forall>k' \<in> fst ` set kvs. k < k'"
    and "delivers (ep_parser p) (concat (map (\<lambda>(k, v). scalar_to_emit k (stringScalarStyle F k) # value_events F v) kvs)
      @ [end_to_emit MAPPING_END_EVENT]) q"
  shows "parseMapping F n vals p = Some (Inr (vals @ map (\<lambda>(k, v). (k, read_value F v)) kvs, p\<lparr>ep_parser := q\<rparr>))"
  using assms
proof (induction kvs arbitrary: n vals p)
  case Nil
  then obtain m where m: "n = Suc m" by (cases n) auto
  have "delivers (ep_parser p) [end_to_emit MAPPING_END_EVENT] q" using Nil.prems(6) by simp
  then obtain ev' p' where "next_event p = Some (Inr (ev', p\<lparr>ep_parser := p'\<rparr>))" "reads_back (end_to_emit MAPPING_END_EVENT) ev'"
    "delivers p' [] q" by (rule attempt_next_delivers)
  then show ?case by (simp add: m reads_back_def)
next
  case (Cons kv kvs)
  obtain k v where kv: "kv = (k, v)" by fastforce
  obtain m m0 where m: "n = Suc m" and m0: "m = Suc m0" using Cons.prems(3) by (cases n; cases "n - 1") (auto simp: kv)
  have v: "json_tree F v" using Cons.prems(2)[of k v] by (simp add: kv)
  obtain ev evs where e: "value_events F v = ev # evs" using value_events_length[OF v] by (cases "value_events F v") auto
  let ?rest = "concat (map (\<lambda>(k, v). scalar_to_emit k (stringScalarStyle F k) # value_events F v) kvs) @ [end_to_emit MAPPING_END_EVENT]"
  let ?key = "scalar_to_emit k (stringScalarStyle F k)"
  have "delivers (ep_parser p) (?key # ev # evs @ ?rest) q" using Cons.prems(6) by (simp add: e kv)
  then obtain kev p' where key: "next_event p = Some (Inr (kev, p\<lparr>ep_parser := p'\<rparr>))" "reads_back ?key kev"
    and d: "delivers p' (ev # evs @ ?rest) q" by (rule attempt_next_delivers)
  have d': "delivers (ep_parser (p\<lparr>ep_parser := p'\<rparr>)) (ev # evs @ ?rest) q" using d by simp
  then obtain ev' p2 where nv: "next_event (p\<lparr>ep_parser := p'\<rparr>) = Some (Inr (ev', p\<lparr>ep_parser := p2\<rparr>))" "reads_back ev ev'"
    and "delivers p2 (evs @ ?rest) q" by (rule attempt_next_delivers) simp
  then obtain p3 where p3: "delivers p2 evs p3" "delivers p3 ?rest q" by (auto simp: delivers_append)
  have len: "length (value_events F v) \<le> m"
    "length (concat (map (\<lambda>(k, v). scalar_to_emit k (stringScalarStyle F k) # value_events F v) kvs)) + 1 \<le> m"
    using Cons.prems(3) value_events_length[OF v] by (auto simp: m kv simp del: length_greater_0_conv)
  have "reads F m v" using Cons.prems(1)[of k v m] len(1) by (simp add: kv)
  then have pv: "parseValue F m ev' (p\<lparr>ep_parser := p2\<rparr>) = Some (Inr (read_value F v, p\<lparr>ep_parser := p3\<rparr>))"
    using e nv(2) p3(1) unfolding reads_def by fastforce
  have pk: "parseValue F m kev (p\<lparr>ep_parser := p'\<rparr>) = Some (Inr (GString k, p\<lparr>ep_parser := p'\<rparr>))"
    unfolding m0 by (rule parse_scalar[OF key(2) read_string[OF key(2)]])
  have nk: "ye_typ kev \<noteq> MAPPING_END_EVENT" using key(2) by (simp add: reads_back_def)
  have "put_key k (read_value F v) vals = vals @ [(k, read_value F v)]"
    using Cons.prems(5) by (intro put_key_last) (auto simp: kv)
  moreover have "parseMapping F m (vals @ [(k, read_value F v)]) (p\<lparr>ep_parser := p3\<rparr>)
    = Some (Inr ((vals @ [(k, read_value F v)]) @ map (\<lambda>(k, v). (k, read_value F v)) kvs, p\<lparr>ep_parser := p3\<rparr>\<lparr>ep_parser := q\<rparr>))"
    by (rule Cons.IH) (use Cons.prems(4,5) len(2) p3(2) in \<open>auto simp: kv intro: Cons.prems(1,2)\<close>)
  ultimately show ?case using key(1) nv(1) pv pk nk by (simp add: m kv keyString_def)
qed

lemma reads_leaf:
  assumes "value_events F v = [scalar_to_emit s st]" and "0 < n"
    and "\<And>ev. reads_back (scalar_to_emit s st) ev \<Longrightarrow> scalarValue F ev = Inr (read_value F v)"
  shows "reads F n v"
proof -
  obtain m where m: "n = Suc m" using assms(2) by (cases n) auto
  have "parseValue F n ev p = Some (Inr (read_value F v, p))" if "reads_back (scalar_to_emit s st) ev" for ev p
    unfolding m by (rule parse_scalar[OF that assms(3)[OF that]])
  then show ?thesis using assms(1) by (simp add: reads_def)
qed

lemma reads_value: "json_tree F v \<Longrightarrow> length (value_events F v) \<le> n \<Longrightarrow> reads F n v"
proof (induction F v arbitrary: n rule: value_events.induct)
  case (1 F)
  show ?case by (rule reads_leaf[OF value_events.simps(1)]) (use 1 in \<open>simp_all add: read_scalar constants_plain resolve_constants\<close>)
next
  case (2 F b)
  show ?case by (rule reads_leaf[OF value_events.simps(2)]) (use 2 in \<open>simp_all add: read_scalar constants_plain resolve_constants\<close>)
next
  case (3 F num)
  show ?case by (rule reads_leaf[OF value_events.simps(3)]) (use 3 in \<open>simp_all add: read_scalar jsonNumber_plain jsonNumber_resolves\<close>)
next
  case (4 F s)
  show ?case by (rule reads_leaf[OF value_events.simps(4)]) (use 4 in \<open>simp_all add: read_string\<close>)
next
  case (5 F vs)
  then obtain m where m: "n = Suc m" by (cases n) auto
  have vs: "\<And>v. v \<in> set vs \<Longrightarrow> json_tree F v" using "5.prems"(1) by (simp add: list_all_iff)
  have "parseValue F n ev' p = Some (Inr (read_value F (GSlice (Some vs)), p\<lparr>ep_parser := q\<rparr>))"
    if "reads_back sequence_to_emit ev'" "delivers (ep_parser p) (concat (map (value_events F) vs) @ [end_to_emit SEQUENCE_END_EVENT]) q" for ev' p q
  proof -
    have "parseSequence F m None p = Some (Inr (if vs = [] then None else Some (map (read_value F) vs), p\<lparr>ep_parser := q\<rparr>))"
      using reads_sequence[OF "5.IH"[OF _ vs] vs _ that(2), of m None] "5.prems"(2) by (auto simp: m split: if_splits)
    then show ?thesis using that(1) by (simp add: m reads_back_def set_anchor_none)
  qed
  then show ?case by (simp add: reads_def)
next
  case (6 F kvs)
  then obtain m where m: "n = Suc m" by (cases n) auto
  have vs: "\<And>k v. (k, v) \<in> set kvs \<Longrightarrow> json_tree F v" using "6.prems"(1) by (auto simp: list_all_iff)
  have "parseValue F n ev' p = Some (Inr (read_value F (GMap kvs), p\<lparr>ep_parser := q\<rparr>))"
    if "reads_back mapping_to_emit ev'" "delivers (ep_parser p) (concat (map (\<lambda>(k, v). scalar_to_emit k (stringScalarStyle F k) # value_events F v) kvs)
      @ [end_to_emit MAPPING_END_EVENT]) q" for ev' p q
  proof -
    have "parseMapping F m [] p = Some (Inr ([] @ map (\<lambda>(k, v). (k, read_value F v)) kvs, p\<lparr>ep_parser := q\<rparr>))"
      by (rule reads_entries[OF "6.IH"[OF _ refl vs] vs _ _ _ that(2)]) (use "6.prems" in \<open>auto simp: m\<close>)
    then show ?thesis using that(1) by (simp add: m reads_back_def set_anchor_none)
  qed
  then show ?case by (simp add: reads_def)
qed auto

section \<open>The whole stream\<close>

lemma delivers_weight:
  "delivers p evs q \<Longrightarrow> NO_EVENT \<notin> ye_typ ` set evs \<Longrightarrow> length evs \<le> parser_weight p"
proof (induction evs arbitrary: p)
  case (Cons ev evs)
  then obtain ev' p' where s: "yaml_parser_parse p = Some (Some ev', p')" "reads_back ev ev'" "delivers p' evs q" by auto
  have "ye_typ ev' \<noteq> NO_EVENT" using s(2) Cons.prems(2) by (auto simp: reads_back_def)
  then have "\<not> parser_finished p" using s(1) by (auto simp: yaml_parser_parse_def zero_event_def split: if_splits)
  then have "parser_weight p' < parser_weight p" using yaml_parser_parse_good[of p] s(1) by (simp add: good_result_def)
  then show ?case using Cons.IH[OF s(3)] Cons.prems(2) by auto
qed simp

definition tree_events :: "'f floats \<Rightarrow> 'f gval \<Rightarrow> yaml_event list" where
  "tree_events F tree = stream_start_to_emit # document_to_emit DOCUMENT_START_EVENT # value_events F tree
     @ [document_to_emit DOCUMENT_END_EVENT, end_to_emit STREAM_END_EVENT]"

text \<open>\<^verbatim>\<open>JSONToYAML\<close> gives the emitter the events of the tree, one after the other.\<close>

lemma emitTree_events:
  assumes "json_tree F tree"
  shows "emitTree F tree = attempt (emitAll (tree_events F tree) new_emitter) (\<lambda>em. Some (Inr (em_output em)))"
  by (simp add: emitTree_def tree_events_def emitValue_events(1)[OF assms] emitAll_append attempt_assoc cong: attempt_cong)

lemma value_events_typ: "json_tree F v \<Longrightarrow> NO_EVENT \<notin> ye_typ ` set (value_events F v)"
proof (induction F v rule: value_events.induct)
  case (5 F vs)
  then show ?case by (fastforce simp: list_all_iff)
next
  case (6 F kvs)
  then show ?case by (fastforce simp: list_all_iff)
qed auto

lemma document_events_typ [simp]:
  "ye_typ stream_start_to_emit = STREAM_START_EVENT" "ye_typ (document_to_emit t) = t"
  by (simp_all add: stream_start_to_emit_def document_to_emit_def zero_event_def)

lemma value_events_first:
  assumes "json_tree F v" and "value_events F v = ev # evs"
  shows "ye_typ ev \<in> {SCALAR_EVENT, SEQUENCE_START_EVENT, MAPPING_START_EVENT}"
  using assms by (cases "(F, v)" rule: json_tree.cases) auto

text \<open>Only the numbers of a tree resolved, and the trees whose sequences all have elements.\<close>

fun resolved :: "'f floats \<Rightarrow> 'f gval \<Rightarrow> 'f gval" where
  "resolved F (GNumber n) = numberValue F n"
| "resolved F (GSlice (Some vs)) = GSlice (Some (map (resolved F) vs))"
| "resolved F (GMap kvs) = GMap (map (\<lambda>(k, v). (k, resolved F v)) kvs)"
| "resolved F v = v"

fun no_empty_sequence :: "'f gval \<Rightarrow> bool" where
  "no_empty_sequence (GSlice (Some vs)) \<longleftrightarrow> vs \<noteq> [] \<and> list_all no_empty_sequence vs"
| "no_empty_sequence (GMap kvs) \<longleftrightarrow> list_all (\<lambda>(k, v). no_empty_sequence v) kvs"
| "no_empty_sequence _ \<longleftrightarrow> True"

lemma read_value_resolved: "no_empty_sequence v \<Longrightarrow> read_value F v = resolved F v"
  by (induction v rule: no_empty_sequence.induct) (auto simp: list_all_iff)

text \<open>
  C18: A round trip: whatever tree \<^verbatim>\<open>JSONToYAML\<close> is given, if the parser delivers the events that it emitted, with plain
  scalars implicit and quoted ones not, then \<^verbatim>\<open>YAMLToJSON\<close> writes the tree with its numbers resolved and with nil in place of
  every empty sequence: an empty sequence is lost. A tree without empty sequences comes back with its numbers resolved and
  otherwise the same, so no string turns into another value because it looks like one.
\<close>

theorem JSON_YAML_roundtrip:
  assumes tree: "json_tree F tree" and y: "\<not> all_space y" "scanner y = (scan, failure)"
    and read: "deliver (new_parser failure scan) (tree_events F tree) \<noteq> None"
  shows "YAMLToJSON F scanner y = Some (Inr (marshal F (read_value F tree)))
    \<and> (no_empty_sequence tree \<longrightarrow> YAMLToJSON F scanner y = Some (Inr (marshal F (resolved F tree))))"
proof -
  let ?p = "newEventParser failure scan :: 'a eventParser"
  obtain ev evs where e: "value_events F tree = ev # evs" using value_events_length[OF tree] by (cases "value_events F tree") auto
  obtain q where d: "delivers (ep_parser ?p) (tree_events F tree) q"
    using read by (auto simp: delivers_def newEventParser_def)
  obtain e1 p1 where e1: "next_event ?p = Some (Inr (e1, ?p\<lparr>ep_parser := p1\<rparr>))" "reads_back stream_start_to_emit e1"
    and d1: "delivers p1 (document_to_emit DOCUMENT_START_EVENT # value_events F tree
      @ [document_to_emit DOCUMENT_END_EVENT, end_to_emit STREAM_END_EVENT]) q"
    using d unfolding tree_events_def by (rule attempt_next_delivers)
  then have "delivers (ep_parser (?p\<lparr>ep_parser := p1\<rparr>)) (document_to_emit DOCUMENT_START_EVENT # value_events F tree
      @ [document_to_emit DOCUMENT_END_EVENT, end_to_emit STREAM_END_EVENT]) q" by simp
  then obtain e2 p2 where e2: "next_event (?p\<lparr>ep_parser := p1\<rparr>) = Some (Inr (e2, ?p\<lparr>ep_parser := p2\<rparr>))"
    "reads_back (document_to_emit DOCUMENT_START_EVENT) e2"
    and d2: "delivers p2 (value_events F tree @ [document_to_emit DOCUMENT_END_EVENT, end_to_emit STREAM_END_EVENT]) q"
    by (rule attempt_next_delivers) simp
  then have "delivers (ep_parser (?p\<lparr>ep_parser := p2\<rparr>)) (ev # evs @ [document_to_emit DOCUMENT_END_EVENT, end_to_emit STREAM_END_EVENT]) q"
    by (simp add: e)
  then obtain e3 p3 where e3: "next_event (?p\<lparr>ep_parser := p2\<rparr>) = Some (Inr (e3, ?p\<lparr>ep_parser := p3\<rparr>))" "reads_back ev e3"
    and d3: "delivers p3 (evs @ [document_to_emit DOCUMENT_END_EVENT, end_to_emit STREAM_END_EVENT]) q"
    by (rule attempt_next_delivers) simp
  then obtain p4 where d4: "delivers p3 evs p4" "delivers p4 [document_to_emit DOCUMENT_END_EVENT, end_to_emit STREAM_END_EVENT] q"
    by (auto simp: delivers_append)
  then have "delivers (ep_parser (?p\<lparr>ep_parser := p4\<rparr>)) [document_to_emit DOCUMENT_END_EVENT, end_to_emit STREAM_END_EVENT] q" by simp
  then obtain e5 p5 where e5: "next_event (?p\<lparr>ep_parser := p4\<rparr>) = Some (Inr (e5, ?p\<lparr>ep_parser := p5\<rparr>))"
    "reads_back (document_to_emit DOCUMENT_END_EVENT) e5"
    by (rule attempt_next_delivers) simp
  have "NO_EVENT \<notin> ye_typ ` set evs" using value_events_typ[OF tree] by (simp add: e)
  then have "length evs \<le> parser_weight p3" by (rule delivers_weight[OF d4(1)])
  then have fuel: "length (value_events F tree) \<le> parse_fuel (?p\<lparr>ep_parser := p3\<rparr>)" by (simp add: e parse_fuel_def)
  have "parseValue F (parse_fuel (?p\<lparr>ep_parser := p3\<rparr>)) e3 (?p\<lparr>ep_parser := p3\<rparr>) = Some (Inr (read_value F tree, ?p\<lparr>ep_parser := p4\<rparr>))"
    using reads_value[OF tree fuel] e e3(2) d4(1) unfolding reads_def by fastforce
  moreover have "ye_typ e3 \<noteq> DOCUMENT_END_EVENT" using value_events_first[OF tree e] e3(2) by (auto simp: reads_back_def)
  ultimately have "parseStream F ?p = Some (Inr (read_value F tree))"
    using e1 e2 e3(1) e5 by (simp add: parseStream_def parseDocument_def expectDocumentEnd_def reads_back_def)
  then have "YAMLToJSON F scanner y = Some (Inr (marshal F (read_value F tree)))" using y by (simp add: YAMLToJSON_def)
  then show ?thesis by (simp add: read_value_resolved)
qed

text \<open>An empty sequence does not come back: it is written as \<^verbatim>\<open>[]\<close> and read as \<^verbatim>\<open>null\<close>.\<close>

lemma empty_sequence_lost:
  "marshal F (read_value F (GSlice (Some []))) = ''null''" "marshal F (GSlice (Some [])) = ''[]''"
  by simp_all

definition no_floats :: "unit floats" where
  "no_floats = \<lparr>fl_parse = \<lambda>_. None, fl_finite = \<lambda>_. True, fl_format = \<lambda>_. [], fl_json = \<lambda>_. []\<rparr>"

definition quoted_token :: "string \<Rightarrow> yaml_token" where
  "quoted_token v = (token_of SCALAR_TOKEN v)\<lparr>tk_style := DOUBLE_QUOTED_SCALAR_STYLE\<rparr>"

text \<open>The tokens of \<^verbatim>\<open>a:\<close>, \<^verbatim>\<open>- true\<close> and \<^verbatim>\<open>- "true"\<close>, which is what is written for the tree.\<close>

definition example_tree :: "unit gval" where
  "example_tree = GMap [(''a'', GSlice (Some [GBool True, GString ''true'']))]"

definition example_tokens :: "(yaml_comment list \<times> yaml_token) list" where
  "example_tokens = map (\<lambda>t. ([], t))
     [token_of STREAM_START_TOKEN [], token_of BLOCK_MAPPING_START_TOKEN [], token_of KEY_TOKEN [], token_of SCALAR_TOKEN ''a'',
      token_of VALUE_TOKEN [], token_of BLOCK_SEQUENCE_START_TOKEN [], token_of BLOCK_ENTRY_TOKEN [], token_of SCALAR_TOKEN ''true'',
      token_of BLOCK_ENTRY_TOKEN [], quoted_token ''true'', token_of BLOCK_END_TOKEN [], token_of BLOCK_END_TOKEN [],
      token_of STREAM_END_TOKEN []]"

theorem JSON_YAML_roundtrip_witness:
  "YAMLToJSON no_floats (\<lambda>_. (example_tokens, scanner_failure)) ''a: [true]'' = Some (Inr (marshal no_floats (read_value no_floats example_tree)))
   \<and> marshal no_floats (read_value no_floats example_tree) = marshal no_floats example_tree"
proof
  show "YAMLToJSON no_floats (\<lambda>_. (example_tokens, scanner_failure)) ''a: [true]'' = Some (Inr (marshal no_floats (read_value no_floats example_tree)))"
  proof (rule JSON_YAML_roundtrip[THEN conjunct1, OF _ _ refl])
    show "json_tree no_floats example_tree" by (simp add: example_tree_def)
    show "\<not> all_space ''a: [true]''" by (subst all_space.simps) (simp add: runeLength_def unicode_space_def codePoint_def at_def)
    show "deliver (new_parser scanner_failure example_tokens) (tree_events no_floats example_tree) \<noteq> None" by code_simp
  qed
  show "marshal no_floats (read_value no_floats example_tree) = marshal no_floats example_tree" by code_simp
qed

theorem YAMLToJSON_returns_witness:
  "\<exists>r. YAMLToJSON no_floats (\<lambda>_. ([], scanner_failure)) ''[ a'' = Some r \<and> (\<forall>e. r = Inl e \<longrightarrow> \<not> structural e)"
  by (rule YAMLToJSON_returns) (simp add: scanner_failure_def)

section \<open>Strings that are written\<close>

text \<open>
  C20: A string of a JSON tree is written as a plain scalar exactly if it resolves to itself and the analysis finds it safe: no
  indicator, no white space at an end, no break, only printable characters. Every other string is quoted.
\<close>

theorem string_written_plain:
  assumes "chars v = Some cs" and "v \<noteq> []" and "em_flow_level e = 0" and "\<not> em_canonical e" and "em_unicode e"
  shows "\<exists>e'. em_seq [yaml_emitter_analyze_event (scalar_to_emit v (stringScalarStyle F v)),
        yaml_emitter_select_scalar_style (scalar_to_emit v (stringScalarStyle F v))] e = Some (True, e')
    \<and> (sd_style (em_scalar e') = PLAIN_SCALAR_STYLE \<longleftrightarrow> resolvePlainScalar F v = Inr (GString v) \<and> plain_safe True cs)
    \<and> sd_style (em_scalar e') \<in> {PLAIN_SCALAR_STYLE, SINGLE_QUOTED_SCALAR_STYLE, DOUBLE_QUOTED_SCALAR_STYLE}"
proof -
  let ?ev = "scalar_to_emit v (stringScalarStyle F v)"
  let ?e = "e\<lparr>em_anchor := None, em_tag_handle := [], em_tag_suffix := [],
     em_scalar := analyze_scalar_data True v cs ((em_scalar e)\<lparr>sd_value := []\<rparr>)\<rparr>"
  have a: "yaml_emitter_analyze_event ?ev e = Some (True, ?e)"
    using assms by (simp add: yaml_emitter_analyze_event_def scalar_to_emit_def zero_event_def em_then_def em_ok_def em_when_def em_set_def
      keep_comment_def yaml_emitter_analyze_scalar_def with_chars_def)
  have s: "yaml_emitter_select_scalar_style ?ev ?e = Some (True, ?e\<lparr>em_scalar := (em_scalar ?e)\<lparr>sd_style := chosen_style ?e ?ev\<rparr>\<rparr>)"
    by (simp add: yaml_emitter_select_scalar_style_def em_with_def scalar_to_emit_def Let_def em_then_def em_ok_def em_when_def
      em_set_def)
  have c: "stringScalarStyle F v \<in> {PLAIN_SCALAR_STYLE, DOUBLE_QUOTED_SCALAR_STYLE}" by (rule stringScalarStyle_cases)
  have p: "chosen_style ?e ?ev = PLAIN_SCALAR_STYLE \<longleftrightarrow> stringScalarStyle F v = PLAIN_SCALAR_STYLE \<and> plain_allowed v"
    by (rule chosen_style_plain[OF assms(1) _ _ _ _ _ c assms(2)]) (use assms in \<open>simp_all add: scalar_to_emit_def\<close>)
  have q: "chosen_style ?e ?ev \<in> {PLAIN_SCALAR_STYLE, SINGLE_QUOTED_SCALAR_STYLE, DOUBLE_QUOTED_SCALAR_STYLE}"
    using c by (auto simp: chosen_style_def Let_def scalar_style_def scalar_to_emit_def)
  show ?thesis
    using p q assms(1,2) by (simp add: a s em_then_def em_ok_def stringScalarStyle_PLAIN plain_allowed_safe)
qed

theorem string_written_plain_witness:
  "\<exists>e'. em_seq [yaml_emitter_analyze_event (scalar_to_emit ''a: b'' (stringScalarStyle no_floats ''a: b'')),
        yaml_emitter_select_scalar_style (scalar_to_emit ''a: b'' (stringScalarStyle no_floats ''a: b''))] new_emitter = Some (True, e')
    \<and> (sd_style (em_scalar e') = PLAIN_SCALAR_STYLE \<longleftrightarrow>
        resolvePlainScalar no_floats ''a: b'' = Inr (GString ''a: b'') \<and> plain_safe True [''a'', '':'', '' '', ''b''])
    \<and> sd_style (em_scalar e') \<in> {PLAIN_SCALAR_STYLE, SINGLE_QUOTED_SCALAR_STYLE, DOUBLE_QUOTED_SCALAR_STYLE}"
  by (rule string_written_plain) (simp_all add: chars_ascii new_emitter_def)

end
