(* ===== verification/YamlEmitting.thy ===== *)
theory YamlEmitting
  imports YamlValues
begin

text \<open>
  The emitter takes every well-nested stream of events: the functions that write change only the text and the
  position in it, each state accepts the events that the grammar has there, and the queue of events is worked off.
\<close>

section \<open>Functions that write\<close>

text \<open>An emitter without its text and its position.\<close>

definition control :: "yaml_emitter \<Rightarrow> yaml_emitter" where
  "control e = e\<lparr>em_output := [], em_buffer := [], em_line := 0, em_column := 0, em_whitespace := False, em_indention := False,
     em_open_ended := False, em_space_above := False, em_foot_indent := 0\<rparr>"

text \<open>All the text that was written, given to the handler or still in the buffer.\<close>

definition written :: "yaml_emitter \<Rightarrow> string" where
  "written e = em_output e @ em_buffer e"

lemma control_fields:
  assumes "control e' = control e"
  shows "em_error e' = em_error e" "em_line_break e' = em_line_break e" "em_state e' = em_state e" "em_states e' = em_states e"
    "em_events e' = em_events e" "em_indents e' = em_indents e" "em_indent e' = em_indent e" "em_flow_level e' = em_flow_level e"
    "em_anchor e' = em_anchor e" "em_tag_handle e' = em_tag_handle e" "em_tag_suffix e' = em_tag_suffix e" "em_scalar e' = em_scalar e"
    "em_head_comment e' = em_head_comment e" "em_line_comment e' = em_line_comment e" "em_foot_comment e' = em_foot_comment e"
    "em_tail_comment e' = em_tail_comment e" "em_key_line_comment e' = em_key_line_comment e" "em_best_indent e' = em_best_indent e"
    "em_simple_key_context e' = em_simple_key_context e" "em_canonical e' = em_canonical e" "em_tag_directives e' = em_tag_directives e"
    "em_unicode e' = em_unicode e" "em_encoding e' = em_encoding e"
proof -
  have *: "f (control e') = f (control e)" for f :: "yaml_emitter \<Rightarrow> 'z" using assms by simp
  show "em_error e' = em_error e" "em_line_break e' = em_line_break e" "em_state e' = em_state e" "em_states e' = em_states e"
    "em_events e' = em_events e" "em_indents e' = em_indents e" "em_indent e' = em_indent e" "em_flow_level e' = em_flow_level e"
    "em_anchor e' = em_anchor e" "em_tag_handle e' = em_tag_handle e" "em_tag_suffix e' = em_tag_suffix e" "em_scalar e' = em_scalar e"
    "em_head_comment e' = em_head_comment e" "em_line_comment e' = em_line_comment e" "em_foot_comment e' = em_foot_comment e"
    "em_tail_comment e' = em_tail_comment e" "em_key_line_comment e' = em_key_line_comment e" "em_best_indent e' = em_best_indent e"
    "em_simple_key_context e' = em_simple_key_context e" "em_canonical e' = em_canonical e" "em_tag_directives e' = em_tag_directives e"
    "em_unicode e' = em_unicode e" "em_encoding e' = em_encoding e"
    using *[of em_error] *[of em_line_break] *[of em_state] *[of em_states] *[of em_events] *[of em_indents] *[of em_indent]
      *[of em_flow_level] *[of em_anchor] *[of em_tag_handle] *[of em_tag_suffix] *[of em_scalar] *[of em_head_comment]
      *[of em_line_comment] *[of em_foot_comment] *[of em_tail_comment] *[of em_key_line_comment] *[of em_best_indent]
      *[of em_simple_key_context] *[of em_canonical] *[of em_tag_directives] *[of em_unicode] *[of em_encoding]
    by (simp_all add: control_def)
qed

definition writer :: "emit_fn \<Rightarrow> bool" where
  "writer f \<longleftrightarrow> (\<forall>e. em_line_break e \<noteq> ANY_BREAK \<longrightarrow>
     (\<exists>e' s. f e = Some (True, e') \<and> control e' = control e \<and> written e' = written e @ s))"

named_theorems writer_intros

lemma writer_ok [writer_intros]: "writer em_ok"
  by (auto simp: writer_def em_ok_def)

lemma writer_set: "(\<And>e. control (u e) = control e) \<Longrightarrow> (\<And>e. \<exists>s. written (u e) = written e @ s) \<Longrightarrow> writer (em_set u)"
  by (auto simp: writer_def em_set_def em_ok_def)

lemma writer_then [writer_intros]:
  assumes "writer f" and "writer g"
  shows "writer (em_then f g)"
  unfolding writer_def
proof (intro allI impI)
  fix e :: yaml_emitter assume e: "em_line_break e \<noteq> ANY_BREAK"
  then obtain e1 s1 where e1: "f e = Some (True, e1)" "control e1 = control e" "written e1 = written e @ s1"
    using assms(1) unfolding writer_def by blast
  moreover have "em_line_break e1 \<noteq> ANY_BREAK" using e control_fields(2)[OF e1(2)] by simp
  then obtain e2 s2 where "g e1 = Some (True, e2)" "control e2 = control e1" "written e2 = written e1 @ s2"
    using assms(2) unfolding writer_def by blast
  ultimately show "\<exists>e' s. em_then f g e = Some (True, e') \<and> control e' = control e \<and> written e' = written e @ s"
    by (auto simp: em_then_def)
qed

lemma writer_seq_Nil [writer_intros]: "writer (em_seq [])"
  by (simp add: writer_ok)

lemma writer_seq_Cons [writer_intros]: "writer f \<Longrightarrow> writer (em_seq fs) \<Longrightarrow> writer (em_seq (f # fs))"
  by (simp add: writer_then)

lemma writer_seq_map: "(\<And>x. x \<in> set xs \<Longrightarrow> writer (f x)) \<Longrightarrow> writer (em_seq (map f xs))"
  by (induction xs) (auto intro: writer_intros simp del: em_seq.simps)

lemma writer_when [writer_intros]: "writer f \<Longrightarrow> writer (em_when c f)"
  using writer_ok by (auto simp: writer_def em_when_def)

lemma writer_with [writer_intros]: "(\<And>e. writer (f e)) \<Longrightarrow> writer (em_with f)"
  by (auto simp: writer_def em_with_def)

lemma writer_if [writer_intros]: "(b \<Longrightarrow> writer f) \<Longrightarrow> (\<not> b \<Longrightarrow> writer g) \<Longrightarrow> writer (if b then f else g)"
  by simp

lemma writer_flush [writer_intros]: "writer yaml_emitter_flush" "writer flush"
  by (auto simp: yaml_emitter_flush_def flush_def control_def written_def intro!: writer_set writer_when)

lemma writer_append [writer_intros]: "writer (em_set (append_buffer s))"
  by (auto simp: append_buffer_def control_def written_def intro!: writer_set)

lemma writer_put [writer_intros]: "writer (put b)" "writer (write_char c)"
  by (auto simp: put_def write_char_def append_buffer_def control_def written_def intro!: writer_intros writer_set
    simp del: em_seq.simps)

lemma writer_new_line [writer_intros]: "writer (em_set new_line)"
  by (auto simp: new_line_def control_def written_def intro!: writer_set)

lemma writer_put_break [writer_intros]: "writer put_break"
proof -
  have "writer (em_with (\<lambda>e. case em_line_break e of
       CR_BREAK \<Rightarrow> em_set (append_buffer [CHR 13])
     | LN_BREAK \<Rightarrow> em_set (append_buffer [CHR 10])
     | CRLN_BREAK \<Rightarrow> em_set (append_buffer [CHR 13, CHR 10])
     | ANY_BREAK \<Rightarrow> em_panic))"
    using writer_append by (auto simp: writer_def em_with_def split: yaml_break.splits)
  then show ?thesis unfolding put_break_def
    by (intro writer_seq_Cons writer_seq_Nil writer_flush(2) writer_new_line)
qed

lemma writer_write_all: "chars s \<noteq> None \<Longrightarrow> writer (write_all s)"
  by (auto simp: write_all_def with_chars_def intro!: writer_seq_map writer_intros)

lemma writer_pad [writer_intros]: "writer (pad_to n)"
  by (induction n) (auto intro: writer_intros)

lemma writer_position [writer_intros]:
  "writer (em_set (\<lambda>e. e\<lparr>em_whitespace := w e, em_space_above := a e, em_foot_indent := i e\<rparr>))"
  "writer (em_set (\<lambda>e. e\<lparr>em_whitespace := w e, em_indention := d e, em_open_ended := p e\<rparr>))"
  "writer (em_set (\<lambda>e. e\<lparr>em_whitespace := w e\<rparr>))" "writer (em_set (\<lambda>e. e\<lparr>em_indention := d e\<rparr>))"
  "writer (em_set (\<lambda>e. e\<lparr>em_open_ended := p e\<rparr>))" "writer (em_set (\<lambda>e. e\<lparr>em_foot_indent := i e\<rparr>))"
  "writer (em_set clear_white)"
  by (auto simp: control_def written_def clear_white_def intro!: writer_set)

lemma writer_indent [writer_intros]: "writer yaml_emitter_write_indent" "writer write_space"
  by (auto simp: yaml_emitter_write_indent_def write_space_def Let_def intro!: writer_intros simp del: em_seq.simps)

lemma writer_indicator [writer_intros]: "chars s \<noteq> None \<Longrightarrow> writer (yaml_emitter_write_indicator s a b c)"
  unfolding yaml_emitter_write_indicator_def by (intro writer_intros writer_write_all)

lemma writer_break [writer_intros]: "writer (write_break c)" "writer (fold_break b c)"
  by (auto simp: write_break_def fold_break_def intro!: writer_intros simp del: em_seq.simps)

lemma writer_at_space [writer_intros]: "cs \<noteq> [] \<Longrightarrow> (\<And>b. writer (f b)) \<Longrightarrow> writer (at_space cs f)"
  by (cases cs) (auto simp: at_space_def)

lemma writer_indention_off [writer_intros]: "writer set_indention_off"
  unfolding set_indention_off_def by (intro writer_intros)

lemma writer_plainLoop: "cs = [] \<or> \<not> is_space (last cs) \<Longrightarrow> writer (plainLoop allow spaces breaks cs)"
proof (induction cs arbitrary: spaces breaks)
  case Nil
  then show ?case by (simp add: writer_ok)
next
  case (Cons c cs)
  then have "is_space c \<Longrightarrow> cs \<noteq> []" "cs = [] \<or> \<not> is_space (last cs)" by (auto split: if_splits)
  then show ?case using Cons.IH
    by (auto intro!: writer_intros simp del: em_seq.simps)
qed

lemma writer_singleQuotedLoop: "writer (singleQuotedLoop allow first spaces breaks cs)"
  by (induction cs arbitrary: first spaces breaks) (auto intro!: writer_intros simp del: em_seq.simps)

lemma writer_doubleQuotedLoop: "writer (doubleQuotedLoop allow bom first spaces cs)"
  by (induction cs arbitrary: first spaces) (auto intro!: writer_intros writer_seq_map simp del: em_seq.simps list.map)

lemma chars_single: "byte b < 128 \<Longrightarrow> chars [b] \<noteq> None"
  by (simp add: chars_ascii)

lemma writer_scalars [writer_intros]:
  "chars v = Some cs \<Longrightarrow> cs = [] \<or> \<not> is_space (last cs) \<Longrightarrow> writer (yaml_emitter_write_plain_scalar v b)"
  "chars v \<noteq> None \<Longrightarrow> writer (yaml_emitter_write_single_quoted_scalar v b)"
  "chars v \<noteq> None \<Longrightarrow> writer (yaml_emitter_write_double_quoted_scalar v b)"
  unfolding yaml_emitter_write_plain_scalar_def yaml_emitter_write_single_quoted_scalar_def yaml_emitter_write_double_quoted_scalar_def
  by (auto simp: with_chars_def intro!: writer_intros writer_plainLoop writer_singleQuotedLoop writer_doubleQuotedLoop chars_single
    simp del: em_seq.simps)

section \<open>Functions that succeed\<close>

definition succeeds :: "emit_fn \<Rightarrow> (yaml_emitter \<Rightarrow> bool) \<Rightarrow> yaml_emitter \<Rightarrow> bool" where
  "succeeds f P e \<longleftrightarrow> (\<exists>e'. f e = Some (True, e') \<and> P e')"

lemma succeeds_ok [simp]: "succeeds em_ok P = P"
  by (simp add: succeeds_def em_ok_def fun_eq_iff)

lemma succeeds_set [simp]: "succeeds (em_set u) P = (\<lambda>e. P (u e))"
  by (simp add: succeeds_def em_set_def em_ok_def fun_eq_iff)

lemma succeeds_then [simp]: "succeeds (em_then f g) P = succeeds f (succeeds g P)"
  by (auto simp: succeeds_def em_then_def fun_eq_iff split: option.splits if_splits)

lemma succeeds_with [simp]: "succeeds (em_with f) P = (\<lambda>e. succeeds (f e) P e)"
  by (simp add: succeeds_def em_with_def fun_eq_iff)

lemma succeeds_when [simp]: "succeeds (em_when c f) P = (\<lambda>e. if c e then succeeds f P e else P e)"
  by (simp add: succeeds_def em_when_def em_ok_def fun_eq_iff)

lemma succeeds_writer:
  assumes "writer f" and "em_line_break e \<noteq> ANY_BREAK"
    and "\<And>e' s. control e' = control e \<Longrightarrow> written e' = written e @ s \<Longrightarrow> P e'"
  shows "succeeds f P e"
  using assms unfolding writer_def succeeds_def by blast

lemma succeeds_mono: "succeeds f P e \<Longrightarrow> (\<And>e'. P e' \<Longrightarrow> Q e') \<Longrightarrow> succeeds f Q e"
  by (auto simp: succeeds_def)

section \<open>The states and the grammar\<close>

fun emit_frames :: "yaml_emitter_state \<Rightarrow> frame list" where
  "emit_frames EMIT_STREAM_START_STATE = [FStart]"
| "emit_frames EMIT_FIRST_DOCUMENT_START_STATE = [FDocuments]"
| "emit_frames EMIT_DOCUMENT_START_STATE = [FDocuments]"
| "emit_frames EMIT_DOCUMENT_CONTENT_STATE = [FNode, FDocumentEnd, FDocuments]"
| "emit_frames EMIT_DOCUMENT_END_STATE = [FDocumentEnd, FDocuments]"
| "emit_frames EMIT_FLOW_SEQUENCE_FIRST_ITEM_STATE = [FSequence]"
| "emit_frames EMIT_FLOW_SEQUENCE_TRAIL_ITEM_STATE = [FSequence]"
| "emit_frames EMIT_FLOW_SEQUENCE_ITEM_STATE = [FSequence]"
| "emit_frames EMIT_FLOW_MAPPING_FIRST_KEY_STATE = [FKey]"
| "emit_frames EMIT_FLOW_MAPPING_TRAIL_KEY_STATE = [FKey]"
| "emit_frames EMIT_FLOW_MAPPING_KEY_STATE = [FKey]"
| "emit_frames EMIT_FLOW_MAPPING_SIMPLE_VALUE_STATE = [FValue]"
| "emit_frames EMIT_FLOW_MAPPING_VALUE_STATE = [FValue]"
| "emit_frames EMIT_BLOCK_SEQUENCE_FIRST_ITEM_STATE = [FSequence]"
| "emit_frames EMIT_BLOCK_SEQUENCE_ITEM_STATE = [FSequence]"
| "emit_frames EMIT_BLOCK_MAPPING_FIRST_KEY_STATE = [FKey]"
| "emit_frames EMIT_BLOCK_MAPPING_KEY_STATE = [FKey]"
| "emit_frames EMIT_BLOCK_MAPPING_SIMPLE_VALUE_STATE = [FValue]"
| "emit_frames EMIT_BLOCK_MAPPING_VALUE_STATE = [FValue]"
| "emit_frames EMIT_END_STATE = []"

definition emitter_frames :: "yaml_emitter \<Rightarrow> frame list" where
  "emitter_frames e = concat (map emit_frames (em_state e # em_states e))"

text \<open>How many flows a state is in, and how many indentations it has saved.\<close>

definition flow_marks :: "yaml_emitter_state \<Rightarrow> nat" where
  "flow_marks s = (if s \<in> {EMIT_FLOW_SEQUENCE_TRAIL_ITEM_STATE, EMIT_FLOW_SEQUENCE_ITEM_STATE, EMIT_FLOW_MAPPING_TRAIL_KEY_STATE,
     EMIT_FLOW_MAPPING_KEY_STATE, EMIT_FLOW_MAPPING_SIMPLE_VALUE_STATE, EMIT_FLOW_MAPPING_VALUE_STATE} then 1 else 0)"

definition indent_marks :: "yaml_emitter_state \<Rightarrow> nat" where
  "indent_marks s = flow_marks s + (if s \<in> {EMIT_BLOCK_SEQUENCE_ITEM_STATE, EMIT_BLOCK_MAPPING_KEY_STATE,
     EMIT_BLOCK_MAPPING_SIMPLE_VALUE_STATE, EMIT_BLOCK_MAPPING_VALUE_STATE} then 1 else 0)"

fun emit_stack :: "yaml_emitter_state list \<Rightarrow> bool" where
  "emit_stack [] \<longleftrightarrow> False"
| "emit_stack (s # ss) \<longleftrightarrow> s = EMIT_DOCUMENT_END_STATE \<and> ss = [] \<or> indent_marks s = 1 \<and> emit_stack ss"

definition emit_outer :: "yaml_emitter_state \<Rightarrow> bool" where
  "emit_outer s \<longleftrightarrow> s \<in> {EMIT_STREAM_START_STATE, EMIT_FIRST_DOCUMENT_START_STATE, EMIT_DOCUMENT_START_STATE,
     EMIT_DOCUMENT_CONTENT_STATE, EMIT_DOCUMENT_END_STATE, EMIT_END_STATE}"

text \<open>An emitter without comments that has chosen its line break.\<close>

definition quiet :: "yaml_emitter \<Rightarrow> bool" where
  "quiet e \<longleftrightarrow> em_line_break e \<noteq> ANY_BREAK \<and> em_head_comment e = [] \<and> em_line_comment e = [] \<and> em_foot_comment e = []
     \<and> em_tail_comment e = [] \<and> em_key_line_comment e = []"

definition emit_counts :: "yaml_emitter \<Rightarrow> yaml_emitter_state list \<Rightarrow> bool" where
  "emit_counts e ss \<longleftrightarrow> length (em_indents e) = sum_list (map indent_marks ss) \<and> em_flow_level e = int (sum_list (map flow_marks ss))"

definition emit_inv :: "yaml_emitter \<Rightarrow> bool" where
  "emit_inv e \<longleftrightarrow> (em_state e \<noteq> EMIT_STREAM_START_STATE \<longrightarrow> em_line_break e \<noteq> ANY_BREAK)
     \<and> em_head_comment e = [] \<and> em_line_comment e = [] \<and> em_foot_comment e = [] \<and> em_tail_comment e = [] \<and> em_key_line_comment e = []
     \<and> (if emit_outer (em_state e) then em_states e = [] else emit_stack (em_states e))
     \<and> emit_counts e (em_state e # em_states e) \<and> (em_state e = EMIT_END_STATE \<longrightarrow> em_buffer e = [])"

text \<open>The events of this package: no comments, anchors, tags or directives, and scalars of whole characters.\<close>

definition plain_event :: "yaml_event \<Rightarrow> bool" where
  "plain_event ev \<longleftrightarrow> ye_typ ev \<noteq> ALIAS_EVENT \<and> ye_anchor ev = [] \<and> ye_tag ev = [] \<and> ye_head_comment ev = [] \<and> ye_line_comment ev = []
     \<and> ye_foot_comment ev = [] \<and> ye_tail_comment ev = [] \<and> ye_version ev = None \<and> ye_tag_directives ev = []
     \<and> (ye_typ ev = SCALAR_EVENT \<longrightarrow> ye_implicit ev \<and> ye_quoted_implicit ev \<and> chars (ye_value ev) \<noteq> None
         \<and> scalar_style ev \<notin> {LITERAL_SCALAR_STYLE, FOLDED_SCALAR_STYLE})"

definition analyzed_event :: "yaml_emitter \<Rightarrow> yaml_event \<Rightarrow> bool" where
  "analyzed_event e ev \<longleftrightarrow> plain_event ev \<and> em_anchor e = None \<and> em_tag_handle e = [] \<and> em_tag_suffix e = []
     \<and> (ye_typ ev = SCALAR_EVENT \<longrightarrow>
          (\<exists>cs d. chars (ye_value ev) = Some cs \<and> em_scalar e = analyze_scalar_data (em_unicode e) (ye_value ev) cs d))"

text \<open>What one step leaves as it was.\<close>

definition kept :: "yaml_emitter \<Rightarrow> yaml_emitter \<Rightarrow> bool" where
  "kept e e' \<longleftrightarrow> quiet e' \<and> em_events e' = em_events e \<and> em_indents e' = em_indents e \<and> em_flow_level e' = em_flow_level e
     \<and> (\<exists>s. written e' = written e @ s)"

lemma kept_control:
  "control e' = control e \<Longrightarrow> written e' = written e @ s \<Longrightarrow> quiet e \<Longrightarrow> kept e e'"
  using control_fields[of e' e] by (auto simp: kept_def quiet_def)

lemma kept_trans: "kept e1 e2 \<Longrightarrow> kept e2 e3 \<Longrightarrow> kept e1 e3"
  by (auto simp: kept_def)

lemma succeeds_analyze:
  assumes "plain_event ev" and "em_head_comment e = []" "em_line_comment e = []" "em_foot_comment e = []" "em_tail_comment e = []"
    and "\<And>e'. analyzed_event e' ev \<Longrightarrow> em_state e' = em_state e \<Longrightarrow> em_states e' = em_states e \<Longrightarrow> em_indents e' = em_indents e
      \<Longrightarrow> em_flow_level e' = em_flow_level e \<Longrightarrow> em_line_break e' = em_line_break e \<Longrightarrow> em_events e' = em_events e
      \<Longrightarrow> em_head_comment e' = [] \<Longrightarrow> em_line_comment e' = [] \<Longrightarrow> em_foot_comment e' = [] \<Longrightarrow> em_tail_comment e' = []
      \<Longrightarrow> em_key_line_comment e' = em_key_line_comment e \<Longrightarrow> em_output e' = em_output e \<Longrightarrow> em_buffer e' = em_buffer e \<Longrightarrow> P e'"
  shows "succeeds (yaml_emitter_analyze_event ev) P e"
proof (cases "ye_typ ev = SCALAR_EVENT")
  case True
  then obtain cs where cs: "chars (ye_value ev) = Some cs" using assms(1) by (auto simp: plain_event_def)
  show ?thesis using assms(1-5) True cs
    by (auto simp: yaml_emitter_analyze_event_def plain_event_def keep_comment_def yaml_emitter_analyze_scalar_def with_chars_def
      analyzed_event_def intro!: assms(6))
next
  case False
  then show ?thesis using assms(1-5)
    by (auto simp: yaml_emitter_analyze_event_def plain_event_def keep_comment_def analyzed_event_def intro!: assms(6))
qed

section \<open>Nodes\<close>

lemma plain_no_trailing_space:
  assumes "chars v = Some cs" and "v \<noteq> []"
    and "sd_block_plain_allowed (analyze_scalar_data u v cs d) \<or> sd_flow_plain_allowed (analyze_scalar_data u v cs d)"
  shows "\<not> is_space (last cs)"
proof -
  have "cs \<noteq> []" using assms(1,2) chars_concat by fastforce
  then have "sf_trailing_space (scalar_flags_of u v cs) \<longleftrightarrow> is_space (last cs)"
    unfolding scalar_flags_of_def analyzeLoop_ends by (simp add: no_flags_def)
  then show ?thesis using assms(2,3) by (auto simp: analyze_scalar_data_def analyzed_def Let_def)
qed

lemma chosen_style_simple:
  assumes "scalar_style ev \<notin> {LITERAL_SCALAR_STYLE, FOLDED_SCALAR_STYLE}"
  shows "chosen_style e ev \<in> {PLAIN_SCALAR_STYLE, SINGLE_QUOTED_SCALAR_STYLE, DOUBLE_QUOTED_SCALAR_STYLE}"
  using assms by (cases "scalar_style ev") (auto simp: chosen_style_def Let_def)

lemma chosen_plain:
  assumes "chosen_style e ev = PLAIN_SCALAR_STYLE" and "0 \<le> em_flow_level e"
  shows "sd_block_plain_allowed (em_scalar e) \<or> sd_flow_plain_allowed (em_scalar e)"
  using assms by (auto simp: chosen_style_def Let_def split: if_splits)

lemma writer_process_scalar:
  assumes "chars v = Some cs" and "em_scalar e = (analyze_scalar_data u v cs d)\<lparr>sd_style := style\<rparr>"
    and "style \<in> {PLAIN_SCALAR_STYLE, SINGLE_QUOTED_SCALAR_STYLE, DOUBLE_QUOTED_SCALAR_STYLE}"
    and "style = PLAIN_SCALAR_STYLE \<Longrightarrow> v \<noteq> [] \<Longrightarrow> sd_block_plain_allowed (analyze_scalar_data u v cs d) \<or> sd_flow_plain_allowed (analyze_scalar_data u v cs d)"
    and "em_line_break e \<noteq> ANY_BREAK" and "\<And>e' s. control e' = control e \<Longrightarrow> written e' = written e @ s \<Longrightarrow> P e'"
  shows "succeeds yaml_emitter_process_scalar P e"
proof -
  have v: "sd_value (em_scalar e) = v" "sd_style (em_scalar e) = style"
    using assms(2) by (auto simp: analyze_scalar_data_def analyzed_def Let_def)
  have plain: "cs = [] \<or> \<not> is_space (last cs)" if "style = PLAIN_SCALAR_STYLE"
    using plain_no_trailing_space[OF assms(1)] assms(4)[OF that] assms(1) by (cases "v = []") auto
  have "writer (if style = PLAIN_SCALAR_STYLE then yaml_emitter_write_plain_scalar v b
     else if style = SINGLE_QUOTED_SCALAR_STYLE then yaml_emitter_write_single_quoted_scalar v b
     else yaml_emitter_write_double_quoted_scalar v b)" for b
    using assms(1) plain by (auto intro!: writer_scalars)
  then have "succeeds (if style = PLAIN_SCALAR_STYLE then yaml_emitter_write_plain_scalar v b
     else if style = SINGLE_QUOTED_SCALAR_STYLE then yaml_emitter_write_single_quoted_scalar v b
     else yaml_emitter_write_double_quoted_scalar v b) P e" for b
    using assms(5,6) by (rule succeeds_writer)
  then show ?thesis using assms(3) v by (auto simp: yaml_emitter_process_scalar_def Let_def)
qed

lemma succeeds_pop_state: "em_states e = s # ss \<Longrightarrow> P (e\<lparr>em_state := s, em_states := ss\<rparr>) \<Longrightarrow> succeeds pop_state P e"
  by (simp add: pop_state_def)

lemma succeeds_pop_indent: "em_indents e = i # is \<Longrightarrow> P (e\<lparr>em_indent := i, em_indents := is\<rparr>) \<Longrightarrow> succeeds pop_indent P e"
  by (simp add: pop_indent_def)

lemma succeeds_increase_indent:
  assumes "em_states e \<noteq> []" and "\<And>i. P (e\<lparr>em_indents := em_indent e # em_indents e, em_indent := i\<rparr>)"
  shows "succeeds (yaml_emitter_increase_indent flow indentless) P e"
proof -
  have same: "P (e\<lparr>em_indents := em_indent e # em_indents e\<rparr>)" using assms(2)[of "em_indent e"] by simp
  show ?thesis using assms same
    by (cases "em_states e") (auto simp: yaml_emitter_increase_indent_def set_indent_def)
qed

lemma kept_fields:
  assumes "kept e e'" and "em_output e'' = em_output e'" "em_buffer e'' = em_buffer e'" "em_events e'' = em_events e'"
    "em_indents e'' = em_indents e'" "em_flow_level e'' = em_flow_level e'" "em_line_break e'' = em_line_break e'"
    "em_head_comment e'' = em_head_comment e'" "em_line_comment e'' = em_line_comment e'" "em_foot_comment e'' = em_foot_comment e'"
    "em_tail_comment e'' = em_tail_comment e'" "em_key_line_comment e'' = em_key_line_comment e'"
  shows "kept e e''"
  using assms by (auto simp: kept_def quiet_def written_def)

text \<open>A scalar in the context of a state that was pushed.\<close>

lemma emit_scalar_succeeds:
  assumes q: "quiet e" and a: "analyzed_event e ev" and ev: "ye_typ ev = SCALAR_EVENT" and s: "em_states e = s # ss" and f: "0 \<le> em_flow_level e"
  shows "succeeds (yaml_emitter_emit_scalar ev) (\<lambda>e'. kept e e' \<and> em_state e' = s \<and> em_states e' = ss) e"
proof -
  obtain cs d where cs: "chars (ye_value ev) = Some cs" "em_scalar e = analyze_scalar_data (em_unicode e) (ye_value ev) cs d"
    using a ev by (auto simp: analyzed_event_def)
  have p: "plain_event ev" using a by (simp add: analyzed_event_def)
  have tag: "no_tag e" "em_anchor e = None" using a by (auto simp: analyzed_event_def no_tag_def)
  let ?style = "chosen_style e ev"
  let ?e1 = "e\<lparr>em_scalar := (em_scalar e)\<lparr>sd_style := ?style\<rparr>\<rparr>"
  let ?e2 = "\<lambda>i. ?e1\<lparr>em_indents := em_indent e # em_indents e, em_indent := i\<rparr>"
  have style: "?style \<in> {PLAIN_SCALAR_STYLE, SINGLE_QUOTED_SCALAR_STYLE, DOUBLE_QUOTED_SCALAR_STYLE}"
    using p ev by (intro chosen_style_simple) (auto simp: plain_event_def)
  have last: "succeeds (em_seq [yaml_emitter_process_scalar, pop_indent, pop_state])
      (\<lambda>e'. kept e e' \<and> em_state e' = s \<and> em_states e' = ss) (?e2 i)" for i
  proof -
    have "succeeds yaml_emitter_process_scalar
      (succeeds (em_seq [pop_indent, pop_state]) (\<lambda>e'. kept e e' \<and> em_state e' = s \<and> em_states e' = ss)) (?e2 i)"
    proof (rule writer_process_scalar[OF cs(1) _ style])
      show "em_scalar (?e2 i) = (analyze_scalar_data (em_unicode e) (ye_value ev) cs d)\<lparr>sd_style := ?style\<rparr>" using cs(2) by simp
      show "sd_block_plain_allowed (analyze_scalar_data (em_unicode e) (ye_value ev) cs d)
          \<or> sd_flow_plain_allowed (analyze_scalar_data (em_unicode e) (ye_value ev) cs d)" if "?style = PLAIN_SCALAR_STYLE"
        using chosen_plain[OF that f] cs(2) by simp
      show "em_line_break (?e2 i) \<noteq> ANY_BREAK" using q by (simp add: quiet_def)
      fix e' w assume e': "control e' = control (?e2 i)" "written e' = written (?e2 i) @ w"
      note c = control_fields[OF e'(1)]
      have ind: "em_indents e' = em_indent e # em_indents e" "em_states e' = s # ss" using c s by simp_all
      have k: "kept e (e'\<lparr>em_indents := em_indents e\<rparr>)"
        using c e'(2) q by (auto simp: kept_def quiet_def written_def)
      have "kept e (e'\<lparr>em_indent := em_indent e, em_indents := em_indents e, em_state := s, em_states := ss\<rparr>)"
        by (rule kept_fields[OF k]) simp_all
      then show "succeeds (em_seq [pop_indent, pop_state]) (\<lambda>e'. kept e e' \<and> em_state e' = s \<and> em_states e' = ss) e'"
        using ind by (simp add: succeeds_pop_indent succeeds_pop_state)
    qed
    then show ?thesis by simp
  qed
  have "succeeds (em_seq [yaml_emitter_process_anchor, yaml_emitter_process_tag, yaml_emitter_increase_indent True False,
      yaml_emitter_process_scalar, pop_indent, pop_state]) (\<lambda>e'. kept e e' \<and> em_state e' = s \<and> em_states e' = ss) ?e1"
    using tag s last by (simp add: yaml_emitter_process_anchor_def yaml_emitter_process_tag_def no_tag_def
      succeeds_increase_indent del: em_seq.simps(1))
  then show ?thesis using tag p ev
    by (simp add: yaml_emitter_emit_scalar_def yaml_emitter_select_scalar_style_def plain_event_def Let_def no_tag_def)
qed

lemma kept_refl: "quiet e \<Longrightarrow> kept e e"
  by (simp add: kept_def)

definition node_end :: "yaml_event \<Rightarrow> yaml_emitter_state \<Rightarrow> yaml_emitter_state list \<Rightarrow> yaml_emitter \<Rightarrow> bool" where
  "node_end ev s ss e \<longleftrightarrow>
     ye_typ ev = SCALAR_EVENT \<and> em_state e = s \<and> em_states e = ss
   \<or> ye_typ ev = SEQUENCE_START_EVENT \<and> em_state e \<in> {EMIT_FLOW_SEQUENCE_FIRST_ITEM_STATE, EMIT_BLOCK_SEQUENCE_FIRST_ITEM_STATE}
       \<and> em_states e = s # ss
   \<or> ye_typ ev = MAPPING_START_EVENT \<and> em_state e \<in> {EMIT_FLOW_MAPPING_FIRST_KEY_STATE, EMIT_BLOCK_MAPPING_FIRST_KEY_STATE}
       \<and> em_states e = s # ss"

lemma emit_node_succeeds:
  assumes q: "quiet e" and a: "analyzed_event e ev" and ty: "ye_typ ev \<in> {SCALAR_EVENT, SEQUENCE_START_EVENT, MAPPING_START_EVENT}"
    and s: "em_states e = s # ss" and f: "0 \<le> em_flow_level e"
  shows "succeeds (yaml_emitter_emit_node root sq mp sk ev) (\<lambda>e'. kept e e' \<and> node_end ev s ss e') e"
proof -
  let ?e = "e\<lparr>em_root_context := root, em_sequence_context := sq, em_mapping_context := mp, em_simple_key_context := sk\<rparr>"
  have q': "quiet ?e" "analyzed_event ?e ev" "em_states ?e = s # ss" "0 \<le> em_flow_level ?e" "kept e ?e"
    using q a s f by (auto simp: quiet_def analyzed_event_def kept_def written_def)
  have anchor: "em_anchor ?e = None" "no_tag ?e" using a by (auto simp: analyzed_event_def no_tag_def)
  consider (scalar) "ye_typ ev = SCALAR_EVENT" | (sequence) "ye_typ ev = SEQUENCE_START_EVENT" | (mapping) "ye_typ ev = MAPPING_START_EVENT"
    using ty by auto
  then have "succeeds (case ye_typ ev of
         ALIAS_EVENT \<Rightarrow> yaml_emitter_emit_alias
       | SCALAR_EVENT \<Rightarrow> yaml_emitter_emit_scalar ev
       | SEQUENCE_START_EVENT \<Rightarrow> yaml_emitter_emit_sequence_start ev
       | MAPPING_START_EVENT \<Rightarrow> yaml_emitter_emit_mapping_start ev
       | _ \<Rightarrow> yaml_emitter_set_emitter_error
           (''expected SCALAR, SEQUENCE-START, MAPPING-START, or ALIAS, but got '' @ event_String (ye_typ ev)))
     (\<lambda>e'. kept ?e e' \<and> node_end ev s ss e') ?e"
  proof cases
    case scalar
    have "succeeds (yaml_emitter_emit_scalar ev) (\<lambda>e'. kept ?e e' \<and> node_end ev s ss e') ?e"
      by (rule succeeds_mono[OF emit_scalar_succeeds[OF q'(1,2) scalar q'(3,4)]]) (use scalar in \<open>auto simp: node_end_def\<close>)
    then show ?thesis using scalar by simp
  next
    case sequence
    have k: "kept ?e (?e\<lparr>em_state := x\<rparr>)" for x by (rule kept_fields[OF kept_refl[OF q'(1)]]) simp_all
    show ?thesis using sequence anchor k q'(3)
      by (auto simp: yaml_emitter_emit_sequence_start_def yaml_emitter_process_anchor_def yaml_emitter_process_tag_def
        set_emit_state_def node_end_def)
  next
    case mapping
    have k: "kept ?e (?e\<lparr>em_state := x\<rparr>)" for x by (rule kept_fields[OF kept_refl[OF q'(1)]]) simp_all
    show ?thesis using mapping anchor k q'(3)
      by (auto simp: yaml_emitter_emit_mapping_start_def yaml_emitter_process_anchor_def yaml_emitter_process_tag_def
        set_emit_state_def node_end_def)
  qed
  then have "succeeds (case ye_typ ev of
         ALIAS_EVENT \<Rightarrow> yaml_emitter_emit_alias
       | SCALAR_EVENT \<Rightarrow> yaml_emitter_emit_scalar ev
       | SEQUENCE_START_EVENT \<Rightarrow> yaml_emitter_emit_sequence_start ev
       | MAPPING_START_EVENT \<Rightarrow> yaml_emitter_emit_mapping_start ev
       | _ \<Rightarrow> yaml_emitter_set_emitter_error
           (''expected SCALAR, SEQUENCE-START, MAPPING-START, or ALIAS, but got '' @ event_String (ye_typ ev)))
     (\<lambda>e'. kept e e' \<and> node_end ev s ss e') ?e"
    by (rule succeeds_mono) (use kept_trans[OF q'(5)] in blast)
  then show ?thesis by (simp add: yaml_emitter_emit_node_def)
qed

section \<open>One event\<close>

lemma comments_quiet:
  "quiet e \<Longrightarrow> succeeds yaml_emitter_process_head_comment P e \<longleftrightarrow> P e"
  "quiet e \<Longrightarrow> succeeds yaml_emitter_process_line_comment P e \<longleftrightarrow> P e"
  "quiet e \<Longrightarrow> succeeds yaml_emitter_process_foot_comment P e \<longleftrightarrow> P e"
  "quiet e \<Longrightarrow> \<not> comments_follow e"
  by (simp_all add: quiet_def yaml_emitter_process_head_comment_def yaml_emitter_process_line_comment_def
    yaml_emitter_process_foot_comment_def comments_follow_def)

text \<open>What a step has to establish, and that a node in a state that was pushed does.\<close>

definition good_step :: "frame list \<Rightarrow> yaml_emitter \<Rightarrow> yaml_emitter \<Rightarrow> bool" where
  "good_step k e e' \<longleftrightarrow> emit_inv e' \<and> emitter_frames e' = k \<and> em_events e' = em_events e \<and> (\<exists>s. written e' = written e @ s)"

lemma emit_stack_pushed: "emit_stack ss \<Longrightarrow> indent_marks s = 1 \<Longrightarrow> emit_stack (s # ss)"
  by simp

lemma stack_top_not_start: "emit_stack ss \<Longrightarrow> ss \<noteq> [] \<and> hd ss \<notin> {EMIT_STREAM_START_STATE, EMIT_END_STATE}"
  by (cases ss) (auto simp: indent_marks_def flow_marks_def)

lemma good_stepI:
  "quiet e' \<Longrightarrow> (if emit_outer (em_state e') then em_states e' = [] else emit_stack (em_states e')) \<Longrightarrow>
   emit_counts e' (em_state e' # em_states e') \<Longrightarrow> em_state e' \<noteq> EMIT_END_STATE \<Longrightarrow> emitter_frames e' = k \<Longrightarrow>
   em_events e' = em_events e \<Longrightarrow> \<exists>s. written e' = written e @ s \<Longrightarrow> good_step k e e'"
  by (simp add: good_step_def emit_inv_def quiet_def)

lemma node_good_step:
  assumes k: "kept e e'" and n: "node_end ev s ss e'" and st: "emit_stack (s # ss)" and c: "emit_counts e (s # ss)"
    and acc: "node_read k0 = Some (concat (map emit_frames (s # ss)))" and typ_acc: "accept (ye_typ ev) k0 = Some k"
    and w: "em_events e = em_events e0" "\<exists>w. written e = written e0 @ w"
  shows "good_step k e0 e'"
proof -
  have kk: "quiet e'" "em_events e' = em_events e0" "\<exists>w. written e' = written e0 @ w"
    using k w by (auto simp: kept_def)
  have c': "emit_counts e' (s # ss)" using c k by (simp add: emit_counts_def kept_def)
  have top: "if emit_outer s then ss = [] else emit_stack ss" "s \<noteq> EMIT_END_STATE"
    using st by (auto simp: emit_outer_def indent_marks_def flow_marks_def)
  have new: "good_step k e0 e'" if e': "em_states e' = s # ss" and x: "em_state e' \<in> X"
    and marks: "X = {EMIT_FLOW_SEQUENCE_FIRST_ITEM_STATE, EMIT_BLOCK_SEQUENCE_FIRST_ITEM_STATE}
      \<or> X = {EMIT_FLOW_MAPPING_FIRST_KEY_STATE, EMIT_BLOCK_MAPPING_FIRST_KEY_STATE}"
    and k: "emit_frames (em_state e') @ concat (map emit_frames (s # ss)) = k" for X
  proof (rule good_stepI)
    have m: "indent_marks (em_state e') = 0" "flow_marks (em_state e') = 0" "\<not> emit_outer (em_state e')"
      using x marks by (auto simp: indent_marks_def flow_marks_def emit_outer_def)
    show "if emit_outer (em_state e') then em_states e' = [] else emit_stack (em_states e')" using m(3) st e' by simp
    show "emit_counts e' (em_state e' # em_states e')" using c' m(1,2) by (simp add: e' emit_counts_def)
    show "em_state e' \<noteq> EMIT_END_STATE" using m(3) by (auto simp: emit_outer_def)
    show "emitter_frames e' = k" using k e' by (simp add: emitter_frames_def)
  qed (use kk in auto)
  show ?thesis
    using n unfolding node_end_def
  proof (elim disjE conjE)
    assume a: "ye_typ ev = SCALAR_EVENT" "em_state e' = s" "em_states e' = ss"
    have "concat (map emit_frames (s # ss)) = k" using typ_acc acc by (simp add: a(1) accept_def)
    then have "emitter_frames e' = k" by (simp add: emitter_frames_def a)
    then show ?thesis using kk top c' a by (intro good_stepI) simp_all
  next
    assume a: "ye_typ ev = SEQUENCE_START_EVENT" "em_states e' = s # ss"
      "em_state e' \<in> {EMIT_FLOW_SEQUENCE_FIRST_ITEM_STATE, EMIT_BLOCK_SEQUENCE_FIRST_ITEM_STATE}"
    have "FSequence # concat (map emit_frames (s # ss)) = k" using typ_acc acc by (simp add: a(1) accept_def)
    moreover have "emit_frames (em_state e') = [FSequence]" using a(3) by auto
    ultimately show ?thesis by (intro new[OF a(2,3)]) simp_all
  next
    assume a: "ye_typ ev = MAPPING_START_EVENT" "em_states e' = s # ss"
      "em_state e' \<in> {EMIT_FLOW_MAPPING_FIRST_KEY_STATE, EMIT_BLOCK_MAPPING_FIRST_KEY_STATE}"
    have "FKey # concat (map emit_frames (s # ss)) = k" using typ_acc acc by (simp add: a(1) accept_def)
    moreover have "emit_frames (em_state e') = [FKey]" using a(3) by auto
    ultimately show ?thesis by (intro new[OF a(2,3)]) simp_all
  qed
qed

text \<open>An emitter on its way through a state that is inside the document: \<open>i\<close> and \<open>f\<close> count the state itself.\<close>

definition inside :: "yaml_emitter \<Rightarrow> yaml_event \<Rightarrow> nat \<Rightarrow> nat \<Rightarrow> yaml_emitter \<Rightarrow> bool" where
  "inside e0 ev i f e \<longleftrightarrow> quiet e \<and> analyzed_event e ev \<and> em_states e = em_states e0 \<and> emit_stack (em_states e)
     \<and> length (em_indents e) = i + sum_list (map indent_marks (em_states e))
     \<and> em_flow_level e = int (f + sum_list (map flow_marks (em_states e)))
     \<and> em_events e = em_events e0 \<and> (\<exists>w. written e = written e0 @ w)"

lemma inside_control:
  assumes "inside e0 ev i f e" and "control e' = control e" and "written e' = written e @ s"
  shows "inside e0 ev i f e'"
proof -
  note c = control_fields[OF assms(2)]
  have "analyzed_event e' ev" using assms(1) c by (auto simp: inside_def analyzed_event_def)
  then show ?thesis using assms(1,3) c by (auto simp: inside_def quiet_def)
qed

lemma succeeds_inside_writer:
  assumes "inside e0 ev i f e" and "writer g" and "\<And>e'. inside e0 ev i f e' \<Longrightarrow> P e'"
  shows "succeeds g P e"
  using assms(1) by (intro succeeds_writer[OF assms(2)]) (auto simp: inside_def quiet_def intro!: assms(3) intro: inside_control[OF assms(1)])

lemma node_inside:
  assumes c: "inside e0 ev i f e" and i: "i = indent_marks s" "f = flow_marks s" "indent_marks s = 1"
    and acc: "node_read (fr # concat (map emit_frames (em_states e0))) = Some (emit_frames s @ concat (map emit_frames (em_states e0)))"
    and ty: "accept (ye_typ ev) (fr # concat (map emit_frames (em_states e0))) = Some k"
    and node: "ye_typ ev \<in> {SCALAR_EVENT, SEQUENCE_START_EVENT, MAPPING_START_EVENT}"
    and P: "\<And>e'. quiet e' \<Longrightarrow> good_step k e0 e' \<Longrightarrow> P e'"
  shows "succeeds (em_seq [push_emit_state s, yaml_emitter_emit_node root sq mp sk ev]) P e"
proof -
  let ?e = "e\<lparr>em_states := s # em_states e\<rparr>"
  have q: "quiet ?e" "analyzed_event ?e ev" "em_states ?e = s # em_states e0" "0 \<le> em_flow_level ?e"
    using c by (auto simp: inside_def quiet_def analyzed_event_def)
  have st: "emit_stack (s # em_states e0)" using c i(3) by (auto simp: inside_def)
  have counts: "emit_counts ?e (s # em_states e0)" using c i by (auto simp: inside_def emit_counts_def)
  have w: "em_events ?e = em_events e0" "\<exists>w. written ?e = written e0 @ w" using c by (auto simp: inside_def written_def)
  have "succeeds (yaml_emitter_emit_node root sq mp sk ev) (\<lambda>e'. kept ?e e' \<and> node_end ev s (em_states e0) e') ?e"
    by (rule emit_node_succeeds[OF q(1,2) node q(3,4)])
  then have "succeeds (yaml_emitter_emit_node root sq mp sk ev) P ?e"
  proof (rule succeeds_mono)
    fix e' assume e': "kept ?e e' \<and> node_end ev s (em_states e0) e'"
    have "good_step k e0 e'"
      using e' acc by (intro node_good_step[OF _ _ st counts _ ty w]) auto
    then show "P e'" using P e' by (auto simp: kept_def)
  qed
  then show ?thesis by (simp add: push_emit_state_def)
qed

lemma accept_inside:
  assumes "accept t (fr # rest) = Some k" and "fr \<in> {FNode, FSequence, FKey, FValue}"
  shows "t \<in> {ALIAS_EVENT, SCALAR_EVENT, SEQUENCE_START_EVENT, MAPPING_START_EVENT}
    \<or> t = SEQUENCE_END_EVENT \<and> fr = FSequence \<and> k = rest \<or> t = MAPPING_END_EVENT \<and> fr = FKey \<and> k = rest"
  using assms by (cases t) (auto simp: accept_def split: if_splits)

text \<open>The end of a collection pops the state.\<close>

lemma pop_good:
  assumes i: "inside e0 ev 0 0 e" and P: "\<And>e'. good_step (concat (map emit_frames (em_states e0))) e0 e' \<Longrightarrow> P e'"
  shows "succeeds pop_state P e"
proof -
  have i': "quiet e" "em_states e = em_states e0" "emit_stack (em_states e0)" "emit_counts e (em_states e0)"
    "em_events e = em_events e0" "\<exists>w. written e = written e0 @ w"
    using i by (auto simp: inside_def emit_counts_def)
  obtain s ss where s: "em_states e0 = s # ss" using i'(3) by (cases "em_states e0") auto
  let ?e = "e\<lparr>em_state := s, em_states := ss\<rparr>"
  have "good_step (concat (map emit_frames (em_states e0))) e0 ?e"
  proof (rule good_stepI)
    show "quiet ?e" using i'(1) by (simp add: quiet_def)
    show "if emit_outer (em_state ?e) then em_states ?e = [] else emit_stack (em_states ?e)" "em_state ?e \<noteq> EMIT_END_STATE"
      using i'(3) s by (auto simp: emit_outer_def indent_marks_def flow_marks_def)
    show "emit_counts ?e (em_state ?e # em_states ?e)" using i'(4) s by (simp add: emit_counts_def)
    show "emitter_frames ?e = concat (map emit_frames (em_states e0))" by (simp add: emitter_frames_def s)
    show "em_events ?e = em_events e0" "\<exists>w. written ?e = written e0 @ w" using i'(5,6) by (simp_all add: written_def)
  qed
  then show ?thesis using i'(2) s P by (intro succeeds_pop_state[where s = s and ss = ss]) simp_all
qed

lemma open_indent_inside:
  assumes i: "inside e0 ev 0 f e" and P: "\<And>e'. inside e0 ev 1 f e' \<Longrightarrow> P e'"
  shows "succeeds (yaml_emitter_increase_indent flow indentless) P e"
proof (rule succeeds_increase_indent)
  show "em_states e \<noteq> []" using i stack_top_not_start by (auto simp: inside_def)
  show "P (e\<lparr>em_indents := em_indent e # em_indents e, em_indent := x\<rparr>)" for x
    using i by (intro P) (auto simp: inside_def quiet_def analyzed_event_def written_def)
qed

lemma close_indent_inside:
  assumes i: "inside e0 ev 1 f e" and P: "\<And>e'. inside e0 ev 0 f e' \<Longrightarrow> P e'"
  shows "succeeds pop_indent P e"
proof -
  obtain x xs where x: "em_indents e = x # xs" using i by (cases "em_indents e") (auto simp: inside_def)
  then show ?thesis using i
    by (intro succeeds_pop_indent[OF x] P) (auto simp: inside_def quiet_def analyzed_event_def written_def)
qed

lemma level_inside:
  "inside e0 ev i f e \<Longrightarrow> inside e0 ev i (Suc f) (e\<lparr>em_flow_level := em_flow_level e + 1\<rparr>)"
  "inside e0 ev i (Suc f) e \<Longrightarrow> inside e0 ev i f (e\<lparr>em_flow_level := em_flow_level e - 1\<rparr>)"
  by (auto simp: inside_def quiet_def analyzed_event_def written_def)

lemma bracket_chars: "byte b < 128 \<Longrightarrow> chars [b] \<noteq> None"
  by (rule chars_single)

lemma open_flow_inside:
  assumes "inside e0 ev 0 0 e" and "byte b < 128" and "\<And>e'. inside e0 ev 1 1 e' \<Longrightarrow> P e'"
  shows "succeeds (open_flow [b]) P e"
proof -
  have "succeeds (yaml_emitter_write_indicator [b] True True False)
      (succeeds (yaml_emitter_increase_indent True False) (\<lambda>e. P (e\<lparr>em_flow_level := em_flow_level e + 1\<rparr>))) e"
    using level_inside(1)[of e0 ev 1 0] assms(3)
    by (intro succeeds_inside_writer[OF assms(1)] writer_indicator bracket_chars assms(2) open_indent_inside) auto
  then show ?thesis by (simp add: open_flow_def)
qed

lemma close_flow_inside:
  assumes "inside e0 ev 1 1 e" and "byte b < 128"
    and P: "\<And>e'. good_step (concat (map emit_frames (em_states e0))) e0 e' \<Longrightarrow> P e'"
  shows "succeeds (close_flow [b] c) P e"
proof -
  have quiet: "quiet e'" if "inside e0 ev i f e'" for e' i f using that by (simp add: inside_def)
  have last: "succeeds (em_seq [yaml_emitter_process_line_comment, yaml_emitter_process_foot_comment, pop_state]) P e'"
    if "inside e0 ev 0 0 e'" for e'
    using quiet[OF that] pop_good[OF that P] by (simp add: comments_quiet)
  have middle: "succeeds (em_seq [em_when c yaml_emitter_write_indent, yaml_emitter_write_indicator [b] False False False])
      (succeeds (em_seq [yaml_emitter_process_line_comment, yaml_emitter_process_foot_comment, pop_state]) P) e'"
    if "inside e0 ev 0 0 e'" for e'
    by (rule succeeds_inside_writer[OF that]) (intro writer_intros bracket_chars assms(2), rule last)
  have "succeeds pop_indent (succeeds (em_seq [em_when c yaml_emitter_write_indent, yaml_emitter_write_indicator [b] False False False])
      (succeeds (em_seq [yaml_emitter_process_line_comment, yaml_emitter_process_foot_comment, pop_state]) P))
      (e\<lparr>em_flow_level := em_flow_level e - 1\<rparr>)"
    using level_inside(2)[of e0 ev 1 0 e] assms(1) by (intro close_indent_inside[OF _ middle]) simp_all
  then show ?thesis by (simp add: close_flow_def)
qed


section \<open>The states inside a document\<close>

text \<open>The frames that an emitter has below its state.\<close>

abbreviation below :: "yaml_emitter \<Rightarrow> frame list" where
  "below e \<equiv> concat (map emit_frames (em_states e))"

definition content_event :: "yaml_event \<Rightarrow> bool" where
  "content_event ev \<longleftrightarrow> ye_typ ev \<in> {SCALAR_EVENT, SEQUENCE_START_EVENT, MAPPING_START_EVENT}"

lemma inside_quiet: "inside e0 ev i f e \<Longrightarrow> quiet e"
  by (simp add: inside_def)

text \<open>Outside comments a function that only writes keeps an emitter inside, and so do the comments.\<close>

lemma inside_events:
  assumes "inside e0 ev i f e" and "accept (ye_typ ev) (fr # below e0) = Some k" and "fr \<in> {FNode, FSequence, FKey, FValue}"
  obtains (node) "content_event ev"
  | (sequence_end) "ye_typ ev = SEQUENCE_END_EVENT" "fr = FSequence" "k = below e0"
  | (mapping_end) "ye_typ ev = MAPPING_END_EVENT" "fr = FKey" "k = below e0"
  using accept_inside[OF assms(2,3)] assms(1)
  by (auto simp: content_event_def inside_def analyzed_event_def plain_event_def)

lemma node_then_comments:
  assumes "inside e0 ev (indent_marks s) (flow_marks s) e" and "indent_marks s = 1"
    and "node_read (fr # below e0) = Some (emit_frames s @ below e0)"
    and "accept (ye_typ ev) (fr # below e0) = Some k" and "content_event ev"
  shows "succeeds (em_seq [push_emit_state s, yaml_emitter_emit_node root sq mp sk ev, em_when comments_follow comma,
    yaml_emitter_process_line_comment, yaml_emitter_process_foot_comment]) (good_step k e0) e"
proof -
  have "succeeds (em_seq [push_emit_state s, yaml_emitter_emit_node root sq mp sk ev])
    (succeeds (em_seq [em_when comments_follow comma, yaml_emitter_process_line_comment, yaml_emitter_process_foot_comment]) (good_step k e0)) e"
    by (rule node_inside[OF assms(1) refl refl assms(2-4)])
      (use assms(5) in \<open>simp_all add: content_event_def comments_quiet\<close>)
  then show ?thesis by (simp only: em_seq.simps succeeds_then succeeds_ok)
qed

lemma node_with_comments:
  assumes "inside e0 ev (indent_marks s) (flow_marks s) e" and "indent_marks s = 1"
    and "node_read (fr # below e0) = Some (emit_frames s @ below e0)"
    and "accept (ye_typ ev) (fr # below e0) = Some k" and "content_event ev"
  shows "succeeds (em_seq [push_emit_state s, yaml_emitter_emit_node root sq mp sk ev,
    yaml_emitter_process_line_comment, yaml_emitter_process_foot_comment]) (good_step k e0) e"
proof -
  have "succeeds (em_seq [push_emit_state s, yaml_emitter_emit_node root sq mp sk ev])
    (succeeds (em_seq [yaml_emitter_process_line_comment, yaml_emitter_process_foot_comment]) (good_step k e0)) e"
    by (rule node_inside[OF assms(1) refl refl assms(2-4)])
      (use assms(5) in \<open>simp_all add: content_event_def comments_quiet\<close>)
  then show ?thesis by (simp only: em_seq.simps succeeds_then succeeds_ok)
qed

lemma node_alone:
  assumes "inside e0 ev (indent_marks s) (flow_marks s) e" and "indent_marks s = 1"
    and "node_read (fr # below e0) = Some (emit_frames s @ below e0)"
    and "accept (ye_typ ev) (fr # below e0) = Some k" and "content_event ev"
  shows "succeeds (em_seq [push_emit_state s, yaml_emitter_emit_node root sq mp sk ev]) (good_step k e0) e"
  by (rule node_inside[OF assms(1) refl refl assms(2-4)]) (use assms(5) in \<open>simp_all add: content_event_def\<close>)

lemma flow_node_good:
  assumes i: "inside e0 ev 1 1 e" and s: "s \<in> {EMIT_FLOW_SEQUENCE_ITEM_STATE, EMIT_FLOW_MAPPING_KEY_STATE}"
    and r: "node_read (fr # below e0) = Some (emit_frames s @ below e0)"
    and a: "accept (ye_typ ev) (fr # below e0) = Some k" "content_event ev"
  shows "succeeds (flow_node trail s sq mp ev) (good_step k e0) e"
proof -
  have m: "indent_marks s = 1" "flow_marks s = 1" using s by (auto simp: indent_marks_def flow_marks_def)
  have "succeeds (em_seq [push_emit_state s, yaml_emitter_emit_node False sq mp False ev, em_when comments_follow comma,
    yaml_emitter_process_line_comment, yaml_emitter_process_foot_comment]) (good_step k e0) e"
    by (rule node_then_comments[OF _ m(1) r a]) (use i m in simp)
  then show ?thesis
    using comments_quiet(4)[OF inside_quiet[OF i]] by (simp add: flow_node_def)
qed

lemma writer_flow [writer_intros]: "writer comma" "writer wrap_line"
  unfolding comma_def wrap_line_def by (intro writer_intros chars_single; simp)+

lemma flow_item_start_inside:
  assumes i: "inside e0 ev 1 1 e" and P: "\<And>e'. inside e0 ev 1 1 e' \<Longrightarrow> P e'"
  shows "succeeds (flow_item_start first trail) P e"
proof -
  have last: "succeeds (em_seq [em_when (\<lambda>e. em_column e = 0) yaml_emitter_write_indent, wrap_line]) P e'"
    if "inside e0 ev 1 1 e'" for e'
    by (rule succeeds_inside_writer[OF that _ P]) (intro writer_intros)
  have "succeeds (em_when (\<lambda>_. \<not> first \<and> \<not> trail) comma) (succeeds (em_seq [yaml_emitter_process_head_comment,
    em_when (\<lambda>e. em_column e = 0) yaml_emitter_write_indent, wrap_line]) P) e"
  proof (rule succeeds_inside_writer[OF i])
    fix e' assume "inside e0 ev 1 1 e'"
    then show "succeeds (em_seq [yaml_emitter_process_head_comment, em_when (\<lambda>e. em_column e = 0) yaml_emitter_write_indent, wrap_line]) P e'"
      using last inside_quiet[of e0 ev 1 1 e'] by (simp only: em_seq.simps succeeds_then comments_quiet(1))
  qed (intro writer_intros)
  then show ?thesis by (simp only: flow_item_start_def em_seq.simps succeeds_then)
qed

lemma flow_sequence_item_good:
  assumes i: "inside e0 ev n n e" and n: "n = (if first then 0 else 1)"
    and a: "accept (ye_typ ev) (FSequence # below e0) = Some k"
  shows "succeeds (yaml_emitter_emit_flow_sequence_item first trail ev) (good_step k e0) e"
proof -
  have body: "succeeds (if ye_typ ev = SEQUENCE_END_EVENT then em_seq
         [em_when (\<lambda>e. em_canonical e \<and> \<not> first \<and> \<not> trail) comma,
          close_flow '']'' (\<lambda>e. em_column e = 0 \<or> em_canonical e \<and> \<not> first)]
       else em_seq [flow_item_start first trail,
         flow_node EMIT_FLOW_SEQUENCE_TRAIL_ITEM_STATE EMIT_FLOW_SEQUENCE_ITEM_STATE True False ev]) (good_step k e0) e'"
    if i': "inside e0 ev 1 1 e'" for e'
  proof (rule inside_events[OF i' a])
    assume node: "content_event ev"
    have "succeeds (flow_item_start first trail)
      (succeeds (flow_node EMIT_FLOW_SEQUENCE_TRAIL_ITEM_STATE EMIT_FLOW_SEQUENCE_ITEM_STATE True False ev) (good_step k e0)) e'"
      using i' a node by (intro flow_item_start_inside[OF i'] flow_node_good) auto
    then show ?thesis using node by (auto simp: content_event_def)
  next
    assume sequence_end: "ye_typ ev = SEQUENCE_END_EVENT" "k = below e0"
    have "succeeds (em_when (\<lambda>e. em_canonical e \<and> \<not> first \<and> \<not> trail) comma)
      (succeeds (close_flow '']'' (\<lambda>e. em_column e = 0 \<or> em_canonical e \<and> \<not> first)) (good_step k e0)) e'"
      using sequence_end by (intro succeeds_inside_writer[OF i'] writer_intros close_flow_inside) auto
    then show ?thesis using sequence_end by (simp only: simp_thms if_True em_seq.simps succeeds_then succeeds_ok)
  qed simp_all
  show ?thesis
  proof (cases first)
    case True
    then have "succeeds (open_flow ''['') (succeeds (if ye_typ ev = SEQUENCE_END_EVENT then em_seq
         [em_when (\<lambda>e. em_canonical e \<and> \<not> first \<and> \<not> trail) comma,
          close_flow '']'' (\<lambda>e. em_column e = 0 \<or> em_canonical e \<and> \<not> first)]
       else em_seq [flow_item_start first trail,
         flow_node EMIT_FLOW_SEQUENCE_TRAIL_ITEM_STATE EMIT_FLOW_SEQUENCE_ITEM_STATE True False ev]) (good_step k e0)) e"
      using i n by (intro open_flow_inside[OF _ _ body]) auto
    then show ?thesis using True by (simp only: yaml_emitter_emit_flow_sequence_item_def em_seq.simps succeeds_then succeeds_when if_True succeeds_ok)
  next
    case False
    then show ?thesis using body i n
      by (simp only: yaml_emitter_emit_flow_sequence_item_def em_seq.simps succeeds_then succeeds_when if_False succeeds_ok)
  qed
qed


lemma flow_mapping_end_inside:
  assumes i: "inside e0 ev 1 1 e" and "k = below e0"
  shows "succeeds (em_seq [em_when c comma, yaml_emitter_process_head_comment, close_flow ''}'' d]) (good_step k e0) e"
proof -
  have "succeeds (em_when c comma) (succeeds (em_seq [yaml_emitter_process_head_comment, close_flow ''}'' d]) (good_step k e0)) e"
  proof (rule succeeds_inside_writer[OF i])
    fix e' assume e': "inside e0 ev 1 1 e'"
    have "succeeds (close_flow ''}'' d) (good_step k e0) e'" using assms(2) by (intro close_flow_inside[OF e']) auto
    then show "succeeds (em_seq [yaml_emitter_process_head_comment, close_flow ''}'' d]) (good_step k e0) e'"
      using inside_quiet[OF e'] by (simp only: em_seq.simps succeeds_then succeeds_ok comments_quiet)
  qed (intro writer_intros)
  then show ?thesis by (simp only: em_seq.simps succeeds_then)
qed

text \<open>A key after its indicator, or without one.\<close>

lemma key_good:
  assumes i: "inside e0 ev (indent_marks s) (flow_marks s) e"
    and s: "indent_marks s = 1" "indent_marks t = 1" "flow_marks t = flow_marks s" "emit_frames s = [FValue]" "emit_frames t = [FValue]"
    and a: "accept (ye_typ ev) (FKey # below e0) = Some k" "content_event ev"
  shows "succeeds (if c then em_seq [push_emit_state s, yaml_emitter_emit_node False False True True ev]
     else em_seq [yaml_emitter_write_indicator ''?'' True False d, push_emit_state t, yaml_emitter_emit_node False False True False ev])
     (good_step k e0) e"
proof -
  have r: "node_read (FKey # below e0) = Some (emit_frames s @ below e0)" "node_read (FKey # below e0) = Some (emit_frames t @ below e0)"
    using s by simp_all
  have simple: "succeeds (em_seq [push_emit_state s, yaml_emitter_emit_node False False True True ev]) (good_step k e0) e"
    by (rule node_alone[OF i s(1) r(1) a])
  have "succeeds (yaml_emitter_write_indicator ''?'' True False d)
    (succeeds (em_seq [push_emit_state t, yaml_emitter_emit_node False False True False ev]) (good_step k e0)) e"
    using s by (intro succeeds_inside_writer[OF i] writer_indicator chars_single node_alone[OF _ s(2) r(2) a]) auto
  then show ?thesis using simple by (simp only: em_seq.simps succeeds_then split: if_splits) simp
qed

lemma emit_flow_mapping_key_good:
  assumes i: "inside e0 ev n n e" and n: "n = (if first then 0 else 1)"
    and a: "accept (ye_typ ev) (FKey # below e0) = Some k"
  shows "succeeds (yaml_emitter_emit_flow_mapping_key first trail ev) (good_step k e0) e"
proof -
  let ?finish = "em_seq
         [em_when (\<lambda>e. (em_canonical e \<or> em_head_comment e \<noteq> [] \<or> em_foot_comment e \<noteq> [] \<or> em_tail_comment e \<noteq> [])
              \<and> \<not> first \<and> \<not> trail) comma,
          yaml_emitter_process_head_comment, close_flow ''}'' (\<lambda>e. em_canonical e \<and> \<not> first)]"
  let ?key = "em_with (\<lambda>e.
         if \<not> em_canonical e \<and> yaml_emitter_check_simple_key ev e
         then em_seq [push_emit_state EMIT_FLOW_MAPPING_SIMPLE_VALUE_STATE, yaml_emitter_emit_node False False True True ev]
         else em_seq [yaml_emitter_write_indicator ''?'' True False False, push_emit_state EMIT_FLOW_MAPPING_VALUE_STATE,
           yaml_emitter_emit_node False False True False ev])"
  let ?body = "if ye_typ ev = MAPPING_END_EVENT then ?finish else em_seq [flow_item_start first trail, ?key]"
  have body: "succeeds ?body (good_step k e0) e'" if i': "inside e0 ev 1 1 e'" for e'
  proof (rule inside_events[OF i' a])
    assume node: "content_event ev"
    have "succeeds ?key (good_step k e0) e''" if i'': "inside e0 ev 1 1 e''" for e''
      using i'' unfolding succeeds_with
      by (intro key_good[OF _ _ _ _ _ _ a node]) (simp_all add: indent_marks_def flow_marks_def)
    then have "succeeds (flow_item_start first trail) (succeeds ?key (good_step k e0)) e'"
      by (intro flow_item_start_inside[OF i'])
    then show ?thesis using node by (auto simp: content_event_def)
  next
    assume mapping_end: "ye_typ ev = MAPPING_END_EVENT" "k = below e0"
    then show ?thesis using flow_mapping_end_inside[OF i'] by (simp only: simp_thms if_True)
  qed simp_all
  show ?thesis
  proof (cases first)
    case True
    then have "succeeds (open_flow ''{'') (succeeds ?body (good_step k e0)) e"
      using i n by (intro open_flow_inside[OF _ _ body]) auto
    then show ?thesis using True by (simp only: yaml_emitter_emit_flow_mapping_key_def em_seq.simps succeeds_then succeeds_when if_True succeeds_ok)
  next
    case False
    then show ?thesis using body i n
      by (simp only: yaml_emitter_emit_flow_mapping_key_def em_seq.simps succeeds_then succeeds_when if_False succeeds_ok)
  qed
qed

lemma emit_flow_mapping_value_good:
  assumes i: "inside e0 ev 1 1 e" and a: "accept (ye_typ ev) (FValue # below e0) = Some k"
  shows "succeeds (yaml_emitter_emit_flow_mapping_value simple ev) (good_step k e0) e"
proof -
  have node: "content_event ev" by (rule inside_events[OF i a]) auto
  have w: "writer (if simple then yaml_emitter_write_indicator '':'' False False False
       else em_seq [wrap_line, yaml_emitter_write_indicator '':'' True False False])"
    by (intro writer_intros chars_single; simp)
  have "succeeds (if simple then yaml_emitter_write_indicator '':'' False False False
       else em_seq [wrap_line, yaml_emitter_write_indicator '':'' True False False])
     (succeeds (flow_node EMIT_FLOW_MAPPING_TRAIL_KEY_STATE EMIT_FLOW_MAPPING_KEY_STATE False True ev) (good_step k e0)) e"
    by (intro succeeds_inside_writer[OF i w] flow_node_good[OF _ _ _ a node]) simp_all
  then show ?thesis by (simp only: yaml_emitter_emit_flow_mapping_value_def em_seq.simps succeeds_then succeeds_ok)
qed

text \<open>A block collection begins with an indentation and ends with the one before.\<close>

lemma block_first:
  assumes "inside e0 ev (if first then 0 else 1) 0 e" and "\<And>e'. inside e0 ev 1 0 e' \<Longrightarrow> P e'"
  shows "succeeds (em_when (\<lambda>_. first) (yaml_emitter_increase_indent False False)) P e"
  using assms open_indent_inside[of e0 ev 0 e P False False] by (cases first) simp_all

lemma block_end:
  assumes i: "inside e0 ev 1 0 e" and "k = below e0"
  shows "succeeds (em_seq [pop_indent, pop_state]) (good_step k e0) e"
  using close_indent_inside[OF i pop_good] assms(2) by simp

lemma block_sequence_item_good:
  assumes i: "inside e0 ev (if first then 0 else 1) 0 e" and a: "accept (ye_typ ev) (FSequence # below e0) = Some k"
  shows "succeeds (yaml_emitter_emit_block_sequence_item first ev) (good_step k e0) e"
proof -
  let ?item = "em_seq [push_emit_state EMIT_BLOCK_SEQUENCE_ITEM_STATE, yaml_emitter_emit_node False True False False ev,
         yaml_emitter_process_line_comment, yaml_emitter_process_foot_comment]"
  have item: "succeeds (em_seq [yaml_emitter_process_head_comment, yaml_emitter_write_indent, yaml_emitter_write_indicator ''-'' True False True])
      (succeeds ?item (good_step k e0)) e'" if i': "inside e0 ev 1 0 e'" and "content_event ev" for e'
  proof -
    have "succeeds (em_seq [yaml_emitter_write_indent, yaml_emitter_write_indicator ''-'' True False True]) (succeeds ?item (good_step k e0)) e'"
      using that a by (intro succeeds_inside_writer[OF i'] writer_intros chars_single node_with_comments[where fr = FSequence])
        (simp_all add: indent_marks_def flow_marks_def)
    then show ?thesis using inside_quiet[OF i'] by (simp only: em_seq.simps succeeds_then comments_quiet(1))
  qed
  have "succeeds (if ye_typ ev = SEQUENCE_END_EVENT then em_seq [pop_indent, pop_state]
       else em_seq [yaml_emitter_process_head_comment, yaml_emitter_write_indent, yaml_emitter_write_indicator ''-'' True False True,
         push_emit_state EMIT_BLOCK_SEQUENCE_ITEM_STATE, yaml_emitter_emit_node False True False False ev,
         yaml_emitter_process_line_comment, yaml_emitter_process_foot_comment]) (good_step k e0) e'"
    if i': "inside e0 ev 1 0 e'" for e'
  proof (rule inside_events[OF i' a])
    assume node: "content_event ev"
    then have "ye_typ ev \<noteq> SEQUENCE_END_EVENT" by (auto simp: content_event_def)
    then show ?thesis using item[OF i' node] by (simp only: simp_thms if_False em_seq.simps succeeds_then succeeds_ok)
  next
    assume "ye_typ ev = SEQUENCE_END_EVENT" "k = below e0"
    then show ?thesis using block_end[OF i'] by (simp only: simp_thms if_True)
  qed simp_all
  then have "succeeds (em_when (\<lambda>_. first) (yaml_emitter_increase_indent False False))
    (succeeds (if ye_typ ev = SEQUENCE_END_EVENT then em_seq [pop_indent, pop_state]
       else em_seq [yaml_emitter_process_head_comment, yaml_emitter_write_indent, yaml_emitter_write_indicator ''-'' True False True,
         push_emit_state EMIT_BLOCK_SEQUENCE_ITEM_STATE, yaml_emitter_emit_node False True False False ev,
         yaml_emitter_process_line_comment, yaml_emitter_process_foot_comment]) (good_step k e0)) e"
    by (intro block_first[OF i])
  then show ?thesis by (simp only: yaml_emitter_emit_block_sequence_item_def em_seq.simps succeeds_then succeeds_ok)
qed


lemma emit_block_mapping_key_good:
  assumes i: "inside e0 ev (if first then 0 else 1) 0 e" and a: "accept (ye_typ ev) (FKey # below e0) = Some k"
  shows "succeeds (yaml_emitter_emit_block_mapping_key first ev) (good_step k e0) e"
proof -
  let ?key = "em_with (\<lambda>e.
           if yaml_emitter_check_simple_key ev e
           then em_seq [push_emit_state EMIT_BLOCK_MAPPING_SIMPLE_VALUE_STATE, yaml_emitter_emit_node False False True True ev]
           else em_seq [yaml_emitter_write_indicator ''?'' True False True, push_emit_state EMIT_BLOCK_MAPPING_VALUE_STATE,
             yaml_emitter_emit_node False False True False ev])"
  let ?save = "em_when (\<lambda>e. em_line_comment e \<noteq> []) (em_set (\<lambda>e. e\<lparr>em_key_line_comment := em_line_comment e, em_line_comment := []\<rparr>))"
  let ?body = "if ye_typ ev = MAPPING_END_EVENT then em_seq [pop_indent, pop_state]
       else em_seq [yaml_emitter_write_indent, ?save, ?key]"
  have key: "succeeds ?save (succeeds ?key (good_step k e0)) e'" if i': "inside e0 ev 1 0 e'" and node: "content_event ev" for e'
  proof -
    have "succeeds ?key (good_step k e0) e'"
      using i' unfolding succeeds_with
      by (intro key_good[OF _ _ _ _ _ _ a node]) (simp_all add: indent_marks_def flow_marks_def)
    moreover have "em_line_comment e' = []" using inside_quiet[OF i'] by (simp add: quiet_def)
    ultimately show ?thesis by (simp only: succeeds_when simp_thms if_False)
  qed
  have body: "succeeds ?body (good_step k e0) e'" if i': "inside e0 ev 1 0 e'" for e'
  proof (rule inside_events[OF i' a])
    assume node: "content_event ev"
    then have "ye_typ ev \<noteq> MAPPING_END_EVENT" by (auto simp: content_event_def)
    moreover have "succeeds yaml_emitter_write_indent (succeeds ?save (succeeds ?key (good_step k e0))) e'"
      by (intro succeeds_inside_writer[OF i'] writer_intros key node)
    ultimately show ?thesis by (simp only: simp_thms if_False em_seq.simps succeeds_then succeeds_ok)
  next
    assume "ye_typ ev = MAPPING_END_EVENT" "k = below e0"
    then show ?thesis using block_end[OF i'] by (simp only: simp_thms if_True)
  qed simp_all
  have "succeeds (em_when (\<lambda>_. first) (yaml_emitter_increase_indent False False))
    (succeeds yaml_emitter_process_head_comment (succeeds ?body (good_step k e0))) e"
    by (intro block_first[OF i]) (simp only: comments_quiet(1) inside_quiet body)
  then show ?thesis by (simp only: yaml_emitter_emit_block_mapping_key_def em_seq.simps succeeds_then succeeds_ok)
qed

lemma emit_block_mapping_value_good:
  assumes i: "inside e0 ev 1 0 e" and a: "accept (ye_typ ev) (FValue # below e0) = Some k"
  shows "succeeds (yaml_emitter_emit_block_mapping_value simple ev) (good_step k e0) e"
proof -
  have node: "content_event ev" by (rule inside_events[OF i a]) auto
  let ?colon = "if simple then yaml_emitter_write_indicator '':'' False False False
       else em_seq [yaml_emitter_write_indent, yaml_emitter_write_indicator '':'' True False True]"
  let ?place = "em_when (\<lambda>e. em_key_line_comment e \<noteq> []) (place_key_comment ev)"
  let ?node = "em_seq [push_emit_state EMIT_BLOCK_MAPPING_KEY_STATE, yaml_emitter_emit_node False False True False ev,
      yaml_emitter_process_line_comment, yaml_emitter_process_foot_comment]"
  have w: "writer ?colon" by (intro writer_intros chars_single; simp)
  have "succeeds ?colon (succeeds ?place (succeeds ?node (good_step k e0))) e"
  proof (rule succeeds_inside_writer[OF i w])
    fix e' assume i': "inside e0 ev 1 0 e'"
    have "succeeds ?node (good_step k e0) e'"
      using i' a node by (intro node_with_comments[where fr = FValue]) (simp_all add: indent_marks_def flow_marks_def)
    moreover have "em_key_line_comment e' = []" using inside_quiet[OF i'] by (simp add: quiet_def)
    ultimately show "succeeds ?place (succeeds ?node (good_step k e0)) e'" by (simp only: succeeds_when simp_thms if_False)
  qed
  then show ?thesis by (simp only: yaml_emitter_emit_block_mapping_value_def em_seq.simps succeeds_then succeeds_ok)
qed

section \<open>The states outside of collections\<close>

text \<open>An emitter on its way through a state of the stream or of a document.\<close>

definition outside :: "yaml_emitter \<Rightarrow> yaml_emitter \<Rightarrow> bool" where
  "outside e0 e \<longleftrightarrow> quiet e \<and> em_states e = [] \<and> em_indents e = [] \<and> em_flow_level e = 0 \<and> em_events e = em_events e0
     \<and> (\<exists>w. written e = written e0 @ w)"

lemma outside_control: "outside e0 e \<Longrightarrow> control e' = control e \<Longrightarrow> written e' = written e @ s \<Longrightarrow> outside e0 e'"
  using control_fields[of e' e] by (auto simp: outside_def quiet_def)

lemma succeeds_outside_writer:
  assumes "outside e0 e" and "writer g" and "\<And>e'. outside e0 e' \<Longrightarrow> P e'"
  shows "succeeds g P e"
  using assms(1) by (intro succeeds_writer[OF assms(2)]) (auto simp: outside_def quiet_def intro!: assms(3) intro: outside_control[OF assms(1)])

lemma emit_outer_good:
  assumes "outside e0 e" and "emit_outer s" and "s \<noteq> EMIT_END_STATE" and "emit_frames s = k"
  shows "good_step k e0 (e\<lparr>em_state := s\<rparr>)"
proof (rule good_stepI)
  show "emit_counts (e\<lparr>em_state := s\<rparr>) (em_state (e\<lparr>em_state := s\<rparr>) # em_states (e\<lparr>em_state := s\<rparr>))"
    using assms(1,2) by (auto simp: emit_counts_def outside_def emit_outer_def indent_marks_def flow_marks_def)
qed (use assms in \<open>simp_all add: outside_def quiet_def emitter_frames_def written_def\<close>)

lemma outside_stream_start:
  assumes "emit_inv e" and "em_state e = EMIT_STREAM_START_STATE" and "plain_event ev"
  shows "outside e (stream_start_settings ev e)"
  using assms by (auto simp: outside_def emit_inv_def emit_outer_def emit_counts_def indent_marks_def flow_marks_def quiet_def
    stream_start_settings_def Let_def written_def)

lemma writer_bom [writer_intros]: "writer yaml_emitter_write_bom"
  unfolding yaml_emitter_write_bom_def by (intro writer_intros)

lemma emit_stream_start_good:
  assumes o: "outside e0 (stream_start_settings ev e)" and "ye_typ ev = STREAM_START_EVENT"
  shows "succeeds (yaml_emitter_emit_stream_start ev) (good_step [FDocuments] e0) e"
proof -
  have "succeeds (em_when (\<lambda>e. em_encoding e \<noteq> UTF8_ENCODING) yaml_emitter_write_bom)
    (succeeds (set_emit_state EMIT_FIRST_DOCUMENT_START_STATE) (good_step [FDocuments] e0)) (stream_start_settings ev e)"
    unfolding set_emit_state_def succeeds_set
    by (rule succeeds_outside_writer[OF o]) (intro writer_intros, rule emit_outer_good, simp_all add: emit_outer_def)
  then show ?thesis using assms(2)
    by (simp only: yaml_emitter_emit_stream_start_def simp_thms if_False em_seq.simps succeeds_then succeeds_set succeeds_ok)
qed

lemma writer_document_indicator [writer_intros]: "chars s \<noteq> None \<Longrightarrow> writer (document_indicator s)"
  unfolding document_indicator_def by (intro writer_intros)

lemma indicator_chars: "chars ''...'' \<noteq> None" "chars ''---'' \<noteq> None"
  by (simp_all add: chars_ascii)

text \<open>The default directives do not fail, and only change the list of directives.\<close>

lemma default_directives_outside:
  assumes "outside e0 e" and "\<And>e'. outside e0 e' \<Longrightarrow> P e'"
  shows "succeeds (em_seq (map (\<lambda>d. yaml_emitter_append_tag_directive d True) ds)) P e"
  using assms(1)
proof (induction ds arbitrary: e)
  case Nil
  then show ?case using assms(2) by simp
next
  case (Cons d ds)
  have "outside e0 (e\<lparr>em_tag_directives := em_tag_directives e @ [d]\<rparr>)"
    using Cons.prems by (simp add: outside_def quiet_def written_def)
  then show ?case using Cons by (simp add: yaml_emitter_append_tag_directive_def)
qed

lemma start_document_good:
  assumes o: "outside e0 e" and p: "plain_event ev"
  shows "succeeds (start_document ev first) (good_step [FNode, FDocumentEnd, FDocuments] e0) e"
proof -
  let ?c = "\<lambda>e. \<not> (ye_implicit ev \<and> first \<and> \<not> em_canonical e)"
  let ?dots = "em_when ?c (em_seq [yaml_emitter_write_indent, document_indicator ''---''])"
  let ?head = "em_when (\<lambda>e. em_head_comment e \<noteq> []) (em_seq [yaml_emitter_process_head_comment, put_break])"
  have last: "succeeds ?head (succeeds (set_emit_state EMIT_DOCUMENT_CONTENT_STATE) (good_step [FNode, FDocumentEnd, FDocuments] e0)) e'"
    if o': "outside e0 e'" for e'
  proof -
    have "em_head_comment e' = []" using o' by (simp add: outside_def quiet_def)
    then show ?thesis
      using emit_outer_good[OF o', of EMIT_DOCUMENT_CONTENT_STATE] by (simp add: set_emit_state_def emit_outer_def)
  qed
  have "succeeds (em_seq (map (\<lambda>d. yaml_emitter_append_tag_directive d True) default_tag_directives))
    (succeeds ?dots (succeeds ?head (succeeds (set_emit_state EMIT_DOCUMENT_CONTENT_STATE) (good_step [FNode, FDocumentEnd, FDocuments] e0)))) e"
    by (intro default_directives_outside[OF o] succeeds_outside_writer[OF _ _ last] writer_intros indicator_chars)
  moreover have "ye_version ev = None" "ye_tag_directives ev = []" using p by (auto simp: plain_event_def)
  ultimately show ?thesis
    by (simp add: start_document_def)
qed


lemma stream_end_good:
  assumes "outside e0 e"
  shows "succeeds (em_seq [em_when em_open_ended (document_indicator ''...''), yaml_emitter_flush, set_emit_state EMIT_END_STATE])
    (good_step [] e0) e"
proof -
  have "good_step [] e0 (e'\<lparr>em_output := em_output e' @ em_buffer e', em_buffer := [], em_state := EMIT_END_STATE\<rparr>)"
    if "outside e0 e'" for e'
    using that by (auto simp: good_step_def emit_inv_def outside_def quiet_def emit_outer_def emit_counts_def indent_marks_def
      flow_marks_def emitter_frames_def written_def)
  then have "succeeds (em_when em_open_ended (document_indicator ''...''))
    (succeeds (em_seq [yaml_emitter_flush, set_emit_state EMIT_END_STATE]) (good_step [] e0)) e"
    by (intro succeeds_outside_writer[OF assms] writer_intros indicator_chars) (simp add: yaml_emitter_flush_def set_emit_state_def)
  then show ?thesis by (simp only: em_seq.simps succeeds_then succeeds_ok)
qed

lemma emit_document_start_good:
  assumes o: "outside e0 e" and p: "plain_event ev" and a: "accept (ye_typ ev) [FDocuments] = Some k"
  shows "succeeds (yaml_emitter_emit_document_start first ev) (good_step k e0) e"
proof -
  consider "ye_typ ev = DOCUMENT_START_EVENT" "k = [FNode, FDocumentEnd, FDocuments]" | "ye_typ ev = STREAM_END_EVENT" "k = []"
    using a by (cases "ye_typ ev") (auto simp: accept_def split: if_splits)
  then show ?thesis
    using start_document_good[OF o p] stream_end_good[OF o]
    by cases (simp_all only: yaml_emitter_emit_document_start_def simp_thms if_True if_False yaml_event_type.distinct)
qed

lemma emit_document_content_good:
  assumes o: "outside e0 e" and e0: "em_states e0 = []" and an: "analyzed_event e ev"
    and a: "accept (ye_typ ev) [FNode, FDocumentEnd, FDocuments] = Some k"
  shows "succeeds (yaml_emitter_emit_document_content ev) (good_step k e0) e"
proof -
  let ?s = EMIT_DOCUMENT_END_STATE
  let ?e = "e\<lparr>em_states := [?s]\<rparr>"
  have st: "em_states e = []" using o by (simp add: outside_def)
  have q: "quiet ?e" "analyzed_event ?e ev" "0 \<le> em_flow_level ?e" using o an by (auto simp: outside_def quiet_def analyzed_event_def)
  have node: "ye_typ ev \<in> {SCALAR_EVENT, SEQUENCE_START_EVENT, MAPPING_START_EVENT}"
    using accept_inside[OF a] an by (auto simp: analyzed_event_def plain_event_def)
  have c: "emit_counts ?e [?s]" using o by (simp add: outside_def emit_counts_def indent_marks_def flow_marks_def)
  have w: "em_events ?e = em_events e0" "\<exists>w. written ?e = written e0 @ w" using o by (auto simp: outside_def written_def)
  have "succeeds (yaml_emitter_emit_node True False False False ev) (\<lambda>e'. kept ?e e' \<and> node_end ev ?s [] e') ?e"
    by (rule emit_node_succeeds[OF q(1,2) node _ q(3)]) simp
  then have "succeeds (yaml_emitter_emit_node True False False False ev)
    (succeeds (em_seq [yaml_emitter_process_line_comment, yaml_emitter_process_foot_comment]) (good_step k e0)) ?e"
  proof (rule succeeds_mono)
    fix e' assume e': "kept ?e e' \<and> node_end ev ?s [] e'"
    then have g: "good_step k e0 e'"
      by (intro node_good_step[OF _ _ _ c _ a w]) auto
    have "quiet e'" using e' by (simp add: kept_def)
    then show "succeeds (em_seq [yaml_emitter_process_line_comment, yaml_emitter_process_foot_comment]) (good_step k e0) e'"
      using g by (simp add: comments_quiet)
  qed
  then show ?thesis
    using q(1) st by (simp add: yaml_emitter_emit_document_content_def push_emit_state_def comments_quiet(1))
qed

lemma emit_document_end_good:
  assumes o: "outside e0 e" and a: "accept (ye_typ ev) [FDocumentEnd, FDocuments] = Some k"
  shows "succeeds (yaml_emitter_emit_document_end ev) (good_step k e0) e"
proof -
  have t: "ye_typ ev = DOCUMENT_END_EVENT" "k = [FDocuments]"
    using a by (cases "ye_typ ev"; simp add: accept_def split: if_splits)+
  have last: "succeeds (em_set (\<lambda>e. e\<lparr>em_state := EMIT_DOCUMENT_START_STATE, em_tag_directives := []\<rparr>)) (good_step k e0) e'"
    if "outside e0 e'" for e'
    using that by (auto simp: t good_step_def emit_inv_def outside_def quiet_def emit_outer_def emit_counts_def indent_marks_def
      flow_marks_def emitter_frames_def written_def)
  have rest: "succeeds (em_seq [em_set (\<lambda>e. e\<lparr>em_foot_indent := -1\<rparr>), yaml_emitter_write_indent,
      em_when (\<lambda>_. \<not> ye_implicit ev) (document_indicator ''...''), yaml_emitter_flush])
    (succeeds (em_set (\<lambda>e. e\<lparr>em_state := EMIT_DOCUMENT_START_STATE, em_tag_directives := []\<rparr>)) (good_step k e0)) e'"
    if "outside e0 e'" for e'
    by (rule succeeds_outside_writer[OF that _ last]) (intro writer_intros indicator_chars)
  have o': "outside e0 (e\<lparr>em_foot_indent := 0\<rparr>)" using o by (simp add: outside_def quiet_def written_def)
  then have "quiet (e\<lparr>em_foot_indent := 0\<rparr>)" by (simp add: outside_def)
  then show ?thesis
    using rest[OF o'] by (simp only: yaml_emitter_emit_document_end_def t simp_thms if_False em_seq.simps succeeds_then succeeds_set
      comments_quiet(3) succeeds_ok)
qed

section \<open>Every event that the grammar allows\<close>

theorem step_succeeds:
  assumes v: "emit_inv e" and p: "plain_event ev" and a: "accept (ye_typ ev) (emitter_frames e) = Some k"
  shows "succeeds (em_seq [yaml_emitter_analyze_event ev, yaml_emitter_state_machine ev]) (good_step k e) e"
proof -
  have "succeeds (yaml_emitter_analyze_event ev) (succeeds (yaml_emitter_state_machine ev) (good_step k e)) e"
  proof (rule succeeds_analyze[OF p])
    show "em_head_comment e = []" "em_line_comment e = []" "em_foot_comment e = []" "em_tail_comment e = []"
      using v by (simp_all add: emit_inv_def)
    fix e' assume e': "analyzed_event e' ev" "em_state e' = em_state e" "em_states e' = em_states e" "em_indents e' = em_indents e"
      "em_flow_level e' = em_flow_level e" "em_line_break e' = em_line_break e" "em_events e' = em_events e"
      "em_head_comment e' = []" "em_line_comment e' = []" "em_foot_comment e' = []" "em_tail_comment e' = []"
      "em_key_line_comment e' = em_key_line_comment e" "em_output e' = em_output e" "em_buffer e' = em_buffer e"
    have inv: "em_key_line_comment e = []" "if emit_outer (em_state e) then em_states e = [] else emit_stack (em_states e)"
      "emit_counts e (em_state e # em_states e)" "em_state e \<noteq> EMIT_STREAM_START_STATE \<Longrightarrow> em_line_break e \<noteq> ANY_BREAK"
      using v by (simp_all add: emit_inv_def)
    have outer: "outside e e' \<and> em_states e = []" if "emit_outer (em_state e)" "em_state e \<noteq> EMIT_STREAM_START_STATE"
      using that inv e' by (auto simp: outside_def quiet_def emit_counts_def written_def emit_outer_def indent_marks_def flow_marks_def)
    have inner: "inside e ev (indent_marks (em_state e)) (flow_marks (em_state e)) e'" if "\<not> emit_outer (em_state e)"
      using that inv e' by (auto simp: inside_def quiet_def emit_counts_def written_def emit_outer_def)
    have frames: "accept (ye_typ ev) (emit_frames (em_state e) @ below e) = Some k" using a by (simp add: emitter_frames_def)
    have doc: "accept (ye_typ ev) (emit_frames (em_state e)) = Some k" if "emit_outer (em_state e)"
      using frames inv(2) that by simp
    show "succeeds (yaml_emitter_state_machine ev) (good_step k e) e'"
    proof (cases "emit_outer (em_state e)")
      case True
      then consider (start) "em_state e = EMIT_STREAM_START_STATE" | (documents) first where "em_state e = (if first then EMIT_FIRST_DOCUMENT_START_STATE
          else EMIT_DOCUMENT_START_STATE)" | (content) "em_state e = EMIT_DOCUMENT_CONTENT_STATE" | (ending) "em_state e = EMIT_DOCUMENT_END_STATE"
        | (ended) "em_state e = EMIT_END_STATE"
        unfolding emit_outer_def by (metis insertE singletonD)
      then show ?thesis
      proof cases
        case start
        have "ye_typ ev = STREAM_START_EVENT" "k = [FDocuments]"
          using doc[OF True] start by (cases "ye_typ ev"; simp add: accept_def split: if_splits)+
        moreover have "outside e (stream_start_settings ev e')"
          using start inv e' True by (auto simp: outside_def emit_counts_def indent_marks_def flow_marks_def quiet_def
            stream_start_settings_def Let_def written_def)
        ultimately show ?thesis using emit_stream_start_good e'(2) start by (simp add: yaml_emitter_state_machine_def)
      next
        case documents
        then have "succeeds (yaml_emitter_emit_document_start first ev) (good_step k e) e'"
          using doc[OF True] outer[OF True] p by (intro emit_document_start_good) (auto split: if_splits)
        then show ?thesis using documents e'(2) by (auto simp: yaml_emitter_state_machine_def split: if_splits)
      next
        case content
        then have "succeeds (yaml_emitter_emit_document_content ev) (good_step k e) e'"
          using doc[OF True] outer[OF True] e'(1) by (intro emit_document_content_good) auto
        then show ?thesis using content e'(2) by (simp add: yaml_emitter_state_machine_def)
      next
        case ending
        then have "succeeds (yaml_emitter_emit_document_end ev) (good_step k e) e'"
          using doc[OF True] outer[OF True] by (intro emit_document_end_good) auto
        then show ?thesis using ending e'(2) by (simp add: yaml_emitter_state_machine_def)
      next
        case ended
        then show ?thesis using doc[OF True] by (cases "ye_typ ev") (simp_all add: accept_def)
      qed
    next
      case False
      have i: "inside e ev (indent_marks (em_state e)) (flow_marks (em_state e)) e'" by (rule inner[OF False])
      have m: "yaml_emitter_state_machine ev e' = (case em_state e of
           EMIT_FLOW_SEQUENCE_FIRST_ITEM_STATE \<Rightarrow> yaml_emitter_emit_flow_sequence_item True False ev
         | EMIT_FLOW_SEQUENCE_TRAIL_ITEM_STATE \<Rightarrow> yaml_emitter_emit_flow_sequence_item False True ev
         | EMIT_FLOW_SEQUENCE_ITEM_STATE \<Rightarrow> yaml_emitter_emit_flow_sequence_item False False ev
         | EMIT_FLOW_MAPPING_FIRST_KEY_STATE \<Rightarrow> yaml_emitter_emit_flow_mapping_key True False ev
         | EMIT_FLOW_MAPPING_TRAIL_KEY_STATE \<Rightarrow> yaml_emitter_emit_flow_mapping_key False True ev
         | EMIT_FLOW_MAPPING_KEY_STATE \<Rightarrow> yaml_emitter_emit_flow_mapping_key False False ev
         | EMIT_FLOW_MAPPING_SIMPLE_VALUE_STATE \<Rightarrow> yaml_emitter_emit_flow_mapping_value True ev
         | EMIT_FLOW_MAPPING_VALUE_STATE \<Rightarrow> yaml_emitter_emit_flow_mapping_value False ev
         | EMIT_BLOCK_SEQUENCE_FIRST_ITEM_STATE \<Rightarrow> yaml_emitter_emit_block_sequence_item True ev
         | EMIT_BLOCK_SEQUENCE_ITEM_STATE \<Rightarrow> yaml_emitter_emit_block_sequence_item False ev
         | EMIT_BLOCK_MAPPING_FIRST_KEY_STATE \<Rightarrow> yaml_emitter_emit_block_mapping_key True ev
         | EMIT_BLOCK_MAPPING_KEY_STATE \<Rightarrow> yaml_emitter_emit_block_mapping_key False ev
         | EMIT_BLOCK_MAPPING_SIMPLE_VALUE_STATE \<Rightarrow> yaml_emitter_emit_block_mapping_value True ev
         | EMIT_BLOCK_MAPPING_VALUE_STATE \<Rightarrow> yaml_emitter_emit_block_mapping_value False ev
         | _ \<Rightarrow> em_panic) e'"
        using False by (cases "em_state e") (simp_all add: yaml_emitter_state_machine_def em_with_def e'(2) emit_outer_def)
      note good = flow_sequence_item_good[of e ev "indent_marks (em_state e)" e' True k]
        flow_sequence_item_good[of e ev "indent_marks (em_state e)" e' False k]
        emit_flow_mapping_key_good[of e ev "indent_marks (em_state e)" e' True k]
        emit_flow_mapping_key_good[of e ev "indent_marks (em_state e)" e' False k]
        emit_flow_mapping_value_good[of e ev e' k] block_sequence_item_good[of e ev True e' k] block_sequence_item_good[of e ev False e' k]
        emit_block_mapping_key_good[of e ev True e' k] emit_block_mapping_key_good[of e ev False e' k] emit_block_mapping_value_good[of e ev e' k]
      show ?thesis
        unfolding succeeds_def m using good[unfolded succeeds_def] False i frames
        by (cases "em_state e") (simp_all add: emit_outer_def indent_marks_def flow_marks_def)
    qed
  qed
  then show ?thesis by (simp only: em_seq.simps succeeds_then succeeds_ok)
qed


section \<open>The queue\<close>

text \<open>An emitter with events in its queue, and those to come, that lead the frames of its states to \<open>k\<close>.\<close>

definition pending :: "yaml_emitter \<Rightarrow> yaml_event list \<Rightarrow> frame list \<Rightarrow> bool" where
  "pending e es k \<longleftrightarrow> emit_inv e \<and> (\<forall>ev \<in> set (em_events e @ es). plain_event ev)
     \<and> accepts (map ye_typ (em_events e @ es)) (emitter_frames e) = Some k"

lemma emit_inv_events [simp]: "emit_inv (e\<lparr>em_events := es\<rparr>) = emit_inv e"
  by (simp add: emit_inv_def emit_counts_def)

lemma emitter_frames_events [simp]: "emitter_frames (e\<lparr>em_events := es\<rparr>) = emitter_frames e"
  by (simp add: emitter_frames_def)

lemma emitLoop_pending:
  "pending e es k \<Longrightarrow> \<exists>e'. emitLoop e = Some (True, e') \<and> pending e' es k \<and> yaml_emitter_need_more_events e'"
proof (induction e rule: measure_induct_rule[where f = "\<lambda>e. length (em_events e)"])
  case (less e)
  show ?case
  proof (cases "yaml_emitter_need_more_events e")
    case True
    then show ?thesis using less.prems by (subst emitLoop.simps) (simp add: em_ok_def)
  next
    case False
    then obtain ev rest where q: "em_events e = ev # rest"
      by (cases "em_events e") (auto simp: yaml_emitter_need_more_events_def)
    obtain k' where a: "accept (ye_typ ev) (emitter_frames e) = Some k'" "accepts (map ye_typ (rest @ es)) k' = Some k"
      using less.prems by (auto simp: pending_def q split: bind_split_asm)
    have v: "emit_inv e" "plain_event ev" "\<forall>ev \<in> set (rest @ es). plain_event ev" using less.prems by (auto simp: pending_def q)
    obtain e' where e': "em_seq [yaml_emitter_analyze_event ev, yaml_emitter_state_machine ev] e = Some (True, e')" "good_step k' e e'"
      using step_succeeds[OF v(1,2) a(1)] unfolding succeeds_def by blast
    have "pending (e'\<lparr>em_events := rest\<rparr>) es k" using e'(2) a(2) v(3) by (simp add: pending_def good_step_def)
    moreover have "length (em_events (e'\<lparr>em_events := rest\<rparr>)) < length (em_events e)" by (simp add: q)
    ultimately obtain e'' where "emitLoop (e'\<lparr>em_events := rest\<rparr>) = Some (True, e'')" "pending e'' es k" "yaml_emitter_need_more_events e''"
      using less.IH by blast
    then show ?thesis using False q e'(1) by (subst emitLoop.simps) (simp del: em_seq.simps)
  qed
qed

lemma emit_pending:
  assumes "pending e (ev # es) k"
  shows "\<exists>e'. emit ev e = Some (Inr e') \<and> pending e' es k \<and> yaml_emitter_need_more_events e'"
proof -
  have "pending (e\<lparr>em_events := em_events e @ [ev]\<rparr>) es k" using assms by (simp add: pending_def)
  then show ?thesis using emitLoop_pending by (fastforce simp: emit_def yaml_emitter_emit_def)
qed

lemma emitAll_pending:
  "pending e es k \<Longrightarrow> yaml_emitter_need_more_events e \<Longrightarrow>
   \<exists>e'. emitAll es e = Some (Inr e') \<and> pending e' [] k \<and> yaml_emitter_need_more_events e'"
proof (induction es arbitrary: e)
  case (Cons ev es)
  then obtain e' where "emit ev e = Some (Inr e')" "pending e' es k" "yaml_emitter_need_more_events e'"
    using emit_pending by blast
  then show ?case using Cons.IH by simp
qed simp

text \<open>The level of the events is the depth of the frames.\<close>

definition frame_depth :: "frame \<Rightarrow> int" where
  "frame_depth f = (if f = FStart \<or> f = FNode then 0 else 1)"

abbreviation depth :: "frame list \<Rightarrow> int" where
  "depth k \<equiv> sum_list (map frame_depth k)"

lemma node_read_depth: "node_read k = Some k' \<Longrightarrow> depth k' = depth k"
  by (cases k rule: node_read.cases) (auto simp: frame_depth_def)

lemma accept_depth: "accept t k = Some k' \<Longrightarrow> depth k' = depth k + level_change t"
  by (cases t; cases k) (auto simp: accept_def level_change_def frame_depth_def dest!: node_read_depth split: if_splits)

lemma accepts_depth:
  "accepts (map ye_typ es) k = Some k' \<Longrightarrow> depth k' = depth k + (\<Sum>ev \<leftarrow> es. level_change (ye_typ ev))"
  by (induction es arbitrary: k) (auto dest!: accept_depth split: bind_split_asm)

lemma level_closes_falling: "0 < l \<Longrightarrow> l + (\<Sum>ev \<leftarrow> es. level_change (ye_typ ev)) \<le> 0 \<Longrightarrow> level_closes l es"
proof (induction es arbitrary: l)
  case (Cons ev es)
  have "-1 \<le> level_change (ye_typ ev)" by (simp add: level_change_def)
  then consider "l + level_change (ye_typ ev) = 0" | "0 < l + level_change (ye_typ ev)" using Cons.prems(1) by linarith
  then show ?case
  proof cases
    case 2
    then show ?thesis using Cons.IH[OF 2] Cons.prems(2) by (simp add: Let_def)
  qed (simp add: Let_def)
qed simp

lemma depth_nonneg: "0 \<le> depth k"
  by (induction k) (auto simp: frame_depth_def)

text \<open>A queue that leads to the end of the stream is not waiting for more.\<close>

lemma closed_queue_empty:
  assumes "pending e [] []" and "yaml_emitter_need_more_events e"
  shows "em_events e = []"
proof (cases "em_events e")
  case (Cons ev evs)
  have start: "level_change (ye_typ ev) = 1" "\<not> level_closes 1 evs"
    using assms(2) Cons by (auto simp: yaml_emitter_need_more_events_def accumulate_def level_change_def Let_def
      split: yaml_event_type.splits option.splits)
  have "0 = depth (emitter_frames e) + (\<Sum>ev \<leftarrow> ev # evs. level_change (ye_typ ev))"
    using assms(1) Cons accepts_depth[of "ev # evs" "emitter_frames e" "[]"] by (simp add: pending_def)
  then have "1 + (\<Sum>ev \<leftarrow> evs. level_change (ye_typ ev)) \<le> 0" using start(1) depth_nonneg[of "emitter_frames e"] by simp
  then show ?thesis using level_closes_falling[of 1 evs] start(2) by simp
qed

lemma ended_frames: "emitter_frames e = [] \<Longrightarrow> em_state e = EMIT_END_STATE"
  by (cases "em_state e") (simp_all add: emitter_frames_def)

lemma emitAll_succeeds:
  assumes "\<forall>ev \<in> set es. plain_event ev" and "accepts (map ye_typ es) [FStart] = Some k"
  shows "\<exists>em. emitAll es new_emitter = Some (Inr em) \<and> pending em [] k \<and> yaml_emitter_need_more_events em"
proof -
  have "emit_inv new_emitter" "em_events new_emitter = []" "emitter_frames new_emitter = [FStart]"
    by (simp_all add: new_emitter_def emit_inv_def emit_outer_def emit_counts_def indent_marks_def flow_marks_def emitter_frames_def)
  then show ?thesis
    using assms by (intro emitAll_pending) (simp_all add: pending_def yaml_emitter_need_more_events_def)
qed

text \<open>
  C16: The emitter takes every stream of events that the grammar allows and that consists of the events this package emits: no
  aliases, anchors, tags, directives or comments, scalars that are valid UTF-8, may be written plain as well as quoted (both
  implicit flags are set) and do not ask for the literal or folded style. Then it does not fail or panic, and in the end the queue
  is empty and all the text is with the handler.
\<close>

theorem emitter_accepts_grammar:
  assumes "\<forall>ev \<in> set es. plain_event ev" and "accepts (map ye_typ es) [FStart] = Some []"
  shows "\<exists>em. emitAll es new_emitter = Some (Inr em) \<and> em_state em = EMIT_END_STATE \<and> em_events em = [] \<and> em_buffer em = []"
proof -
  obtain em where em: "emitAll es new_emitter = Some (Inr em)" "pending em [] []" "yaml_emitter_need_more_events em"
    using emitAll_succeeds[OF assms] by blast
  have q: "em_events em = []" by (rule closed_queue_empty[OF em(2,3)])
  then have "emitter_frames em = []" using em(2) by (simp add: pending_def)
  then have "em_state em = EMIT_END_STATE" by (rule ended_frames)
  then show ?thesis using em(1,2) q by (simp add: pending_def emit_inv_def)
qed

section \<open>Writing a JSON tree\<close>

text \<open>
  A tree as \<^verbatim>\<open>json.Decoder\<close> makes it: numbers in the syntax of JSON, strings and keys that are valid UTF-8, the entries of a
  map under their sorted keys.
\<close>

fun decoded_tree :: "'f gval \<Rightarrow> bool" where
  "decoded_tree (GNumber n) = jsonNumber n"
| "decoded_tree (GString s) = (chars s \<noteq> None)"
| "decoded_tree (GSlice (Some vs)) = list_all decoded_tree vs"
| "decoded_tree (GMap kvs) = (sorted_wrt (<) (map fst kvs) \<and> list_all (\<lambda>(k, v). chars k \<noteq> None \<and> decoded_tree v) kvs)"
| "decoded_tree GNil = True"
| "decoded_tree (GBool b) = True"
| "decoded_tree _ = False"

text \<open>The error of the first number of a tree that no integer or finite float has, in the order of the text.\<close>

fun first_error :: "'e option list \<Rightarrow> 'e option" where
  "first_error [] = None"
| "first_error (r # rs) = (case r of None \<Rightarrow> first_error rs | Some e \<Rightarrow> Some e)"

fun number_error :: "'f floats \<Rightarrow> 'f gval \<Rightarrow> yaml_fail option" where
  "number_error F (GNumber n) = validateJSONNumber F n"
| "number_error F (GSlice (Some vs)) = first_error (map (number_error F) vs)"
| "number_error F (GMap kvs) = first_error (map (\<lambda>(k, v). number_error F v) kvs)"
| "number_error F _ = None"

text \<open>A function that emits events, all of them or those before an error.\<close>

definition emits :: "(yaml_emitter \<Rightarrow> yaml_emitter outcome) \<Rightarrow> yaml_event list \<Rightarrow> yaml_fail option \<Rightarrow> bool" where
  "emits f es r \<longleftrightarrow> (\<exists>before after. es = before @ after \<and> (r = None \<longrightarrow> after = [])
     \<and> f = (\<lambda>em. attempt (emitAll before em) (\<lambda>em. Some (case r of None \<Rightarrow> Inr em | Some e \<Rightarrow> Inl e))))"

lemma emitAll_Nil: "emitAll [] = (\<lambda>em. Some (Inr em))"
  by (simp add: fun_eq_iff)

lemma emits_event: "emits (emit ev) [ev] None"
  unfolding emits_def by (rule exI[where x = "[ev]"], rule exI[where x = "[]"]) (simp add: fun_eq_iff emitAll_Nil)

lemma emits_error: "emits (\<lambda>em. Some (Inl e)) es (Some e)"
  unfolding emits_def by (rule exI[where x = "[]"], rule exI[where x = es]) (simp add: attempt_def)

lemma emits_then:
  assumes "emits f es r" and "emits g fs t"
  shows "emits (\<lambda>em. attempt (f em) g) (es @ fs) (case r of None \<Rightarrow> t | Some e \<Rightarrow> Some e)"
proof (cases r)
  case None
  obtain b a where g: "fs = b @ a" "t = None \<longrightarrow> a = []"
    "g = (\<lambda>em. attempt (emitAll b em) (\<lambda>em. Some (case t of None \<Rightarrow> Inr em | Some e \<Rightarrow> Inl e)))"
    using assms(2) unfolding emits_def by blast
  have f: "f = emitAll es" using assms(1) None by (auto simp: emits_def)
  show ?thesis unfolding emits_def
    by (rule exI[where x = "es @ b"], rule exI[where x = a]) (simp add: g None f emitAll_append attempt_assoc fun_eq_iff)
next
  case (Some e)
  then obtain b a where f: "es = b @ a" "f = (\<lambda>em. attempt (emitAll b em) (\<lambda>em. Some (Inl e)))"
    using assms(1) by (auto simp: emits_def)
  show ?thesis unfolding emits_def
    by (rule exI[where x = b], rule exI[where x = "a @ fs"]) (simp add: f Some attempt_assoc)
qed

lemma emits_sequence:
  assumes "\<And>v. v \<in> set vs \<Longrightarrow> emits (emitValue F v) (value_events F v) (number_error F v)"
  shows "emits (emitSequence F vs) (concat (map (value_events F) vs) @ [end_to_emit SEQUENCE_END_EVENT]) (first_error (map (number_error F) vs))"
  using assms
proof (induction vs)
  case Nil
  have "emitSequence F [] = emit (end_to_emit SEQUENCE_END_EVENT)" by (simp add: fun_eq_iff)
  then show ?case using emits_event by simp
next
  case (Cons v vs)
  have "emitSequence F (v # vs) = (\<lambda>em. attempt (emitValue F v em) (emitSequence F vs))" by (simp add: fun_eq_iff)
  then show ?case using emits_then[OF Cons.prems Cons.IH[OF Cons.prems], of v] by simp
qed

lemma emits_scalar: "emits (emitScalar v s) [scalar_to_emit v s] None"
  using emits_event by (simp add: emitScalar_def[abs_def])

lemma emits_entries:
  assumes "\<And>k v. (k, v) \<in> set kvs \<Longrightarrow> emits (emitValue F v) (value_events F v) (number_error F v)"
  shows "emits (emitEntries F kvs) (concat (map (\<lambda>(k, v). scalar_to_emit k (stringScalarStyle F k) # value_events F v) kvs)
    @ [end_to_emit MAPPING_END_EVENT]) (first_error (map (\<lambda>(k, v). number_error F v) kvs))"
  using assms
proof (induction kvs)
  case Nil
  have "emitEntries F [] = emit (end_to_emit MAPPING_END_EVENT)" by (simp add: fun_eq_iff)
  then show ?case using emits_event by simp
next
  case (Cons kv kvs)
  obtain k v where kv: "kv = (k, v)" by fastforce
  have e: "emitEntries F (kv # kvs)
      = (\<lambda>em. attempt (emitScalar k (stringScalarStyle F k) em) (\<lambda>em. attempt (emitValue F v em) (emitEntries F kvs)))"
    by (simp add: kv fun_eq_iff)
  have v: "emits (emitValue F v) (value_events F v) (number_error F v)" by (rule Cons.prems[of k v]) (simp add: kv)
  have "emits (emitEntries F kvs) (concat (map (\<lambda>(k, v). scalar_to_emit k (stringScalarStyle F k) # value_events F v) kvs)
    @ [end_to_emit MAPPING_END_EVENT]) (first_error (map (\<lambda>(k, v). number_error F v) kvs))"
    by (rule Cons.IH) (use Cons.prems in auto)
  then show ?case using emits_then[OF emits_scalar emits_then[OF v]] by (simp add: e kv)
qed

lemma emits_value: "decoded_tree v \<Longrightarrow> emits (emitValue F v) (value_events F v) (number_error F v)"
proof (induction F v rule: value_events.induct)
  case (3 F n)
  show ?case
  proof (cases "validateJSONNumber F n")
    case None
    then have "emitValue F (GNumber n) = emitScalar n PLAIN_SCALAR_STYLE" by (simp add: fun_eq_iff)
    then show ?thesis using None emits_scalar by simp
  next
    case (Some e)
    then have "emitValue F (GNumber n) = (\<lambda>em. Some (Inl e))" by (simp add: fun_eq_iff)
    then show ?thesis using Some emits_error by simp
  qed
next
  case (5 F vs)
  have "emitValue F (GSlice (Some vs)) = (\<lambda>em. attempt (emit sequence_to_emit em) (emitSequence F vs))" by (simp add: fun_eq_iff)
  moreover have "emits (emitSequence F vs) (concat (map (value_events F) vs) @ [end_to_emit SEQUENCE_END_EVENT])
    (first_error (map (number_error F) vs))"
    using 5 by (intro emits_sequence) (auto simp: list_all_iff)
  ultimately show ?case using emits_then[OF emits_event] by simp
next
  case (6 F kvs)
  have "emitValue F (GMap kvs) = (\<lambda>em. attempt (emit mapping_to_emit em) (emitEntries F kvs))" by (simp add: fun_eq_iff)
  moreover have "emits (emitEntries F kvs) (concat (map (\<lambda>(k, v). scalar_to_emit k (stringScalarStyle F k) # value_events F v) kvs)
    @ [end_to_emit MAPPING_END_EVENT]) (first_error (map (\<lambda>(k, v). number_error F v) kvs))"
    using 6 by (intro emits_entries) (auto simp: list_all_iff)
  ultimately show ?case using emits_then[OF emits_event] by simp
next
  case (1 F)
  have "emitValue F GNil = emitScalar ''null'' PLAIN_SCALAR_STYLE" by (simp add: fun_eq_iff)
  then show ?case using emits_scalar by simp
next
  case (2 F b)
  have "emitValue F (GBool b) = emitScalar (if b then ''true'' else ''false'') PLAIN_SCALAR_STYLE" by (simp add: fun_eq_iff)
  then show ?case using emits_scalar[of "if b then ''true'' else ''false''" PLAIN_SCALAR_STYLE] by simp
next
  case (4 F s)
  have "emitValue F (GString s) = emitScalar s (stringScalarStyle F s)" by (simp add: fun_eq_iff)
  then show ?case using emits_scalar by simp
qed simp_all

lemma plain_scalar_event:
  "chars v \<noteq> None \<Longrightarrow> s \<notin> {LITERAL_SCALAR_STYLE, FOLDED_SCALAR_STYLE} \<Longrightarrow> plain_event (scalar_to_emit v s)"
  by (simp add: plain_event_def scalar_to_emit_def zero_event_def scalar_style_def)

lemma plain_collection_events:
  "plain_event sequence_to_emit" "plain_event mapping_to_emit" "plain_event stream_start_to_emit"
  "t \<noteq> ALIAS_EVENT \<Longrightarrow> t \<noteq> SCALAR_EVENT \<Longrightarrow> plain_event (end_to_emit t) \<and> plain_event (document_to_emit t)"
  by (simp_all add: plain_event_def sequence_to_emit_def mapping_to_emit_def stream_start_to_emit_def end_to_emit_def document_to_emit_def
    zero_event_def)

lemma string_scalar_event: "chars v \<noteq> None \<Longrightarrow> plain_event (scalar_to_emit v (stringScalarStyle F v))"
  using stringScalarStyle_cases[of F v] by (intro plain_scalar_event) auto

lemma plain_allowed_chars: "plain_allowed v \<Longrightarrow> chars v \<noteq> None"
  by (auto simp: plain_allowed_def split: option.splits)

lemma value_events_plain:
  "decoded_tree v \<Longrightarrow> ev \<in> set (value_events F v) \<Longrightarrow> plain_event ev"
proof (induction F v rule: value_events.induct)
  case (5 F vs)
  then show ?case using plain_collection_events by (fastforce simp: list_all_iff)
next
  case (6 F kvs)
  then show ?case using plain_collection_events string_scalar_event by (fastforce simp: list_all_iff)
next
  case (3 F n)
  then show ?case by (auto intro!: plain_scalar_event plain_allowed_chars jsonNumber_plain)
next
  case (4 F s)
  then show ?case by (simp add: string_scalar_event)
qed (auto intro!: plain_scalar_event plain_allowed_chars constants_plain)

lemma typ_to_emit [simp]:
  "ye_typ (scalar_to_emit v s) = SCALAR_EVENT" "ye_typ sequence_to_emit = SEQUENCE_START_EVENT" "ye_typ mapping_to_emit = MAPPING_START_EVENT"
  "ye_typ (end_to_emit t) = t" "ye_typ (document_to_emit t) = t" "ye_typ stream_start_to_emit = STREAM_START_EVENT"
  by (simp_all add: scalar_to_emit_def sequence_to_emit_def mapping_to_emit_def end_to_emit_def document_to_emit_def stream_start_to_emit_def)

lemma accepts_sequence:
  "(\<And>x. x \<in> set xs \<Longrightarrow> accepts (f x) k = Some k) \<Longrightarrow> accepts (concat (map f xs)) k = Some k"
  by (induction xs) (auto simp: accepts_append)

lemma accept_simps [simp]:
  "accept SCALAR_EVENT k = node_read k"
  "accept SEQUENCE_START_EVENT k = map_option ((#) FSequence) (node_read k)"
  "accept MAPPING_START_EVENT k = map_option ((#) FKey) (node_read k)"
  "accept SEQUENCE_END_EVENT (FSequence # k) = Some k" "accept MAPPING_END_EVENT (FKey # k) = Some k"
  by (simp_all add: accept_def)

lemma value_events_accepted:
  "decoded_tree v \<Longrightarrow> node_read k = Some k' \<Longrightarrow> accepts (map ye_typ (value_events F v)) k = Some k'"
proof (induction F v arbitrary: k k' rule: value_events.induct)
  case (5 F vs)
  have "accepts (map ye_typ (value_events F v)) (FSequence # k') = Some (FSequence # k')" if "v \<in> set vs" for v
    using 5 that by (simp add: list_all_iff)
  then have "accepts (concat (map (\<lambda>v. map ye_typ (value_events F v)) vs)) (FSequence # k') = Some (FSequence # k')"
    by (rule accepts_sequence)
  then show ?case using 5(3) by (simp add: accepts_append map_concat comp_def)
next
  case (6 F kvs)
  have "accepts (map ye_typ ((\<lambda>(k, v). scalar_to_emit k (stringScalarStyle F k) # value_events F v) x)) (FKey # k') = Some (FKey # k')"
    if "x \<in> set kvs" for x
    using 6 that by (auto simp: list_all_iff)
  then have "accepts (concat (map (\<lambda>x. map ye_typ ((\<lambda>(k, v). scalar_to_emit k (stringScalarStyle F k) # value_events F v) x)) kvs)) (FKey # k')
    = Some (FKey # k')"
    by (rule accepts_sequence)
  then show ?case using 6(3) by (simp add: accepts_append map_concat comp_def)
qed simp_all

lemma tree_events_accepted:
  assumes "decoded_tree tree"
  shows "accepts (map ye_typ (tree_events F tree)) [FStart] = Some []" and "\<forall>ev \<in> set (tree_events F tree). plain_event ev"
proof -
  show "accepts (map ye_typ (tree_events F tree)) [FStart] = Some []"
    using value_events_accepted[OF assms, of "[FNode, FDocumentEnd, FDocuments]"]
    by (simp add: tree_events_def accepts_append) (simp add: accepts_append accept_def)
  show "\<forall>ev \<in> set (tree_events F tree). plain_event ev"
    using value_events_plain[OF assms] plain_collection_events by (auto simp: tree_events_def)
qed

lemma emitTree_emits:
  assumes "decoded_tree tree"
  obtains f where "emitTree F tree = attempt (f new_emitter) (\<lambda>em. Some (Inr (em_output em)))" "emits f (tree_events F tree) (number_error F tree)"
proof -
  let ?f = "\<lambda>em. attempt (emit stream_start_to_emit em) (\<lambda>em. attempt (emit (document_to_emit DOCUMENT_START_EVENT) em) (\<lambda>em.
     attempt (emitValue F tree em) (\<lambda>em. attempt (emit (document_to_emit DOCUMENT_END_EVENT) em) (emit (end_to_emit STREAM_END_EVENT)))))"
  have "emits ?f (tree_events F tree) (number_error F tree)"
    using emits_then[OF emits_event emits_then[OF emits_event emits_then[OF emits_value[OF assms, of F] emits_then[OF emits_event emits_event]]],
      of stream_start_to_emit "document_to_emit DOCUMENT_START_EVENT" "document_to_emit DOCUMENT_END_EVENT" "end_to_emit STREAM_END_EVENT"]
    by (simp add: tree_events_def) (cases "number_error F tree"; simp)
  then show thesis by (rule that[rotated]) (simp add: emitTree_def attempt_assoc)
qed

text \<open>
  C17: \<^verbatim>\<open>JSONToYAML\<close> returns for every tree of the decoder, with the error of the first number that is out of range, or with a text
  if there is none: the emitter itself never fails.
\<close>

theorem JSONToYAML_outcome:
  assumes "decode j = (Decoded tree, EndOfInput)" and tree: "decoded_tree tree"
  shows "\<exists>text. JSONToYAML F decode j = Some (case number_error F tree of None \<Rightarrow> Inr text | Some e \<Rightarrow> Inl e)"
proof -
  obtain f where f: "emitTree F tree = attempt (f new_emitter) (\<lambda>em. Some (Inr (em_output em)))"
    "emits f (tree_events F tree) (number_error F tree)"
    by (rule emitTree_emits[OF tree])
  obtain before after where b: "tree_events F tree = before @ after"
    "f = (\<lambda>em. attempt (emitAll before em) (\<lambda>em. Some (case number_error F tree of None \<Rightarrow> Inr em | Some e \<Rightarrow> Inl e)))"
    using f(2) unfolding emits_def by blast
  have "accepts (map ye_typ (before @ after)) [FStart] = Some []" "\<forall>ev \<in> set (before @ after). plain_event ev"
    using tree_events_accepted[OF tree, of F] unfolding b(1) by blast+
  then obtain k where "accepts (map ye_typ before) [FStart] = Some k" "\<forall>ev \<in> set before. plain_event ev"
    by (auto simp: accepts_append split: bind_split_asm)
  then obtain em where em: "emitAll before new_emitter = Some (Inr em)" using emitAll_succeeds by blast
  have "emitTree F tree = Some (case number_error F tree of None \<Rightarrow> Inr (em_output em) | Some e \<Rightarrow> Inl e)"
    by (simp add: f(1) b(2) em attempt_def split: option.split)
  then show ?thesis using assms(1) by (auto simp: JSONToYAML_def)
qed


lemma example_decoded: "decoded_tree example_tree"
  by (simp add: example_tree_def chars_ascii)

theorem emitter_accepts_grammar_witness:
  "\<exists>em. emitAll (tree_events no_floats example_tree) new_emitter = Some (Inr em) \<and> em_state em = EMIT_END_STATE
    \<and> em_events em = [] \<and> em_buffer em = []"
  by (rule emitter_accepts_grammar) (rule tree_events_accepted[OF example_decoded])+

theorem JSONToYAML_outcome_witness:
  "\<exists>text. JSONToYAML no_floats (\<lambda>_. (Decoded example_tree, EndOfInput)) ''...'' =
    Some (case number_error no_floats example_tree of None \<Rightarrow> Inr text | Some e \<Rightarrow> Inl e)"
  by (rule JSONToYAML_outcome) (simp_all add: example_decoded)

text \<open>The text that is written for the example.\<close>

lemma example_written:
  "emitTree no_floats example_tree = Some (Inr (''a:'' @ [CHR 10] @ ''  - true'' @ [CHR 10] @ ''  - '' @ [CHR 34] @ ''true'' @ [CHR 34, CHR 10]))"
  by code_simp

text \<open>A plain string at the root of a document leaves the marker of its end behind it.\<close>

lemma root_string_marked:
  "emitTree no_floats (GString ''abc'') = Some (Inr (''abc'' @ [CHR 10] @ ''...'' @ [CHR 10]))"
  by code_simp

end
