(* ===== verification/Spec2Isabelle.thy ===== *)
theory Spec2Isabelle
  imports Dir_Props Version ConfigSetController BusWatch BusXfrmEffect BusOneOff BusCollect BusHandlers
    Resolvers ResolverXfrm FactoryResolver InmemBus Loader Bridge Plugin Exec Directives Dir_Returns PluginLoader PluginBuild
    YamlEmitting
begin

text \<open>
  A verification development for controllerbus: a communication bus on which controllers post
  directives (requests for values) that other controllers resolve.

  \<^bold>\<open>The program\<close>

  A \<^emph>\<open>directive\<close> is added to the directive controller, which makes an instance of it or finds an equivalent
  one, and returns a reference. Handlers, one for each controller on the bus, are asked for resolvers
  of the instance; each resolver runs in a goroutine and emits values through a resolver handler;
  each reference is told of the values added and removed, in order. An instance is idle when no
  resolver works any more, and is disposed of when no strong reference is left. Everything else is a
  client of this: helpers that add a directive and wait for, collect or watch its values; resolvers
  built of smaller ones; controllers that load controllers, apply sets of configurations, bridge two buses
  or load plugins.

  \<^bold>\<open>The theories and what they model\<close>

  \<^item> \<^verbatim>\<open>Cb_Prelude\<close>: what all share: \<^verbatim>\<open>uint32\<close> identifiers as 32-bit words, error values, the operations on slices.
  \<^item> \<^verbatim>\<open>Dir_State\<close>, \<^verbatim>\<open>Dir_Callbacks\<close>, \<^verbatim>\<open>Dir_Instance\<close>, \<^verbatim>\<open>Dir_Controller\<close>: package \<^verbatim>\<open>directive/controller\<close>. The
    state is an explicit heap (\<^verbatim>\<open>st\<close>) with a record for each Go struct (\<^verbatim>\<open>directiveInstance\<close>, \<^verbatim>\<open>resolver\<close>, \<^verbatim>\<open>dirRef\<close>,
    \<^verbatim>\<open>handler\<close>) and pointers as numbers; an operation has the name of its Go method and threads the state.
    The code unlocks its mutex while it calls a callback, so each operation takes an environment
    \<^verbatim>\<open>env\<close> that says what a callback does to the state, which may be any operation, and so on inwards.
    \<^verbatim>\<open>Dir_Runs\<close> ties the knot: \<^verbatim>\<open>api_op\<close> is what client code and goroutines can do, a \<^verbatim>\<open>program\<close> says what
    each callback does then, and \<^verbatim>\<open>run_env P n\<close> runs callbacks nested up to the depth \<open>n\<close>. A call
    ends with an \<^verbatim>\<open>outcome\<close>: it returned or panicked, and the state is what it left behind. A state is
    \<^verbatim>\<open>reachable\<close> if some sequence of operations that the program allows, with some depths, leads to it, also
    after panics, so that what is shown of reachable states holds for every finite nesting of callbacks. The operations
    of other goroutines while a callback runs are those of the callback: they are complete when it returns, so
    that operations nest and do not overlap in other ways.
  \<^item> \<^verbatim>\<open>Dir_Invariants\<close>, \<^verbatim>\<open>Dir_Preserve\<close>: the invariants, stated so that they hold in the middle of an
    operation as well, and the locale \<^verbatim>\<open>callback_env\<close>: if callbacks keep the invariants, each operation does.
    It is interpreted on \<^verbatim>\<open>run_env\<close>, by induction on the depth. \<^verbatim>\<open>Dir_Props\<close> has what follows for
    reachable states, and what a late \<^verbatim>\<open>MarkIdle(false)\<close> does; \<^verbatim>\<open>Dir_Returns\<close> that the loops of the controller end
    and how its superseding loop goes wrong.
  \<^item> \<^verbatim>\<open>Bus_Events\<close>, \<^verbatim>\<open>BusOneOff\<close>, \<^verbatim>\<open>BusCollect\<close>, \<^verbatim>\<open>BusWatch\<close>, \<^verbatim>\<open>BusXfrmEffect\<close>, \<^verbatim>\<open>BusHandlers\<close>: package \<^verbatim>\<open>bus\<close>. A client
    of a reference is a function of the events that it is told, in order (\<^verbatim>\<open>stream\<close> says which orders
    an instance can produce), interleaved with the steps of the client's own loop. The collecting watch has its broadcast
    channel as a counter: a wait channel is the number at which it was taken.
  \<^item> \<^verbatim>\<open>Resolvers\<close>, \<^verbatim>\<open>ResolverXfrm\<close>: the resolvers of package \<^verbatim>\<open>directive\<close>; the calls back into the handler
    act on a \<^verbatim>\<open>sink\<close>, which keeps the values emitted.
  \<^item> \<^verbatim>\<open>FactoryResolver\<close>, \<^verbatim>\<open>Loader\<close>, \<^verbatim>\<open>InmemBus\<close>, \<^verbatim>\<open>Bridge\<close>, \<^verbatim>\<open>Directives\<close>: factories, loading and executing controllers,
    the in-memory bus, the bridge between two buses (\<^verbatim>\<open>controller/resolver\<close>, \<^verbatim>\<open>controller/loader\<close>, \<^verbatim>\<open>bus/inmem\<close>,
    \<^verbatim>\<open>bus/bridge\<close>), the standard directives, and which of the standard controllers answers which.
  \<^item> \<^verbatim>\<open>ConfigSet\<close>, \<^verbatim>\<open>ConfigSetController\<close>, \<^verbatim>\<open>Exec\<close>, \<^verbatim>\<open>Version\<close>: \<^verbatim>\<open>controller/configset\<close> with its JSON and
    protobuf forms and its controller, \<^verbatim>\<open>controller/exec\<close>, \<^verbatim>\<open>controller/version.go\<close>. The config set
    controller is a step relation over the shared state and one program counter for each goroutine.
  \<^item> \<^verbatim>\<open>Plugin\<close>, \<^verbatim>\<open>PluginLoader\<close>, \<^verbatim>\<open>PluginBuild\<close>: packages \<^verbatim>\<open>plugin\<close>, \<^verbatim>\<open>plugin/loader/shared-library\<close>,
    \<^verbatim>\<open>plugin/compiler\<close> and \<^verbatim>\<open>plugin/cli\<close>: closing plugins and their factories, keeping the plugins of a
    directory loaded, and what the compiler decides before and after it runs the go tool.
  \<^item> \<^verbatim>\<open>YamlTypes\<close>, \<^verbatim>\<open>YamlParser\<close>, \<^verbatim>\<open>YamlChars\<close>, \<^verbatim>\<open>YamlEmitter\<close>: package \<^verbatim>\<open>yaml\<close>, the types of \<^verbatim>\<open>yamlh.go\<close>, the
    parser (\<^verbatim>\<open>parserc.go\<close>), the classes of characters (\<^verbatim>\<open>yamlprivateh.go\<close>) and the emitter (\<^verbatim>\<open>emitterc.go\<close>,
    \<^verbatim>\<open>writerc.go\<close>): a function for each function of the code, over a record of the parser or the emitter.
    \<^verbatim>\<open>YamlScalar\<close> and \<^verbatim>\<open>YamlConvert\<close> are \<^verbatim>\<open>yaml.go\<close>: what plain scalars mean, \<^verbatim>\<open>YAMLToJSON\<close> and \<^verbatim>\<open>JSONToYAML\<close>, by
    which configurations are read and written. \<^verbatim>\<open>YamlGrammar\<close> and \<^verbatim>\<open>YamlEvents\<close> show that the events of the
    parser are well nested, \<^verbatim>\<open>YamlPlain\<close> what the analysis of scalars decides, \<^verbatim>\<open>YamlValues\<close> that the conversion
    returns and is inverse to writing, \<^verbatim>\<open>YamlEmitting\<close> that the emitter takes every stream of events that the grammar allows.

  \<^bold>\<open>What is shown\<close>

  For the directive controller, in every reachable state: a hard cap on values is kept, the idle flag
  is set when no resolver is running, and only then if no client calls \<^verbatim>\<open>MarkIdle(false)\<close> for a resolver that has returned, the order of strong and weak references decides disposal, no queued
  callback is left behind, the cached snapshot is current, nothing is attached twice; and its loops
  end, by returning or, only when a directive supersedes others, by a panic. For the helpers: what is returned or told at each moment is determined by the values present, no
  update is lost, and each release function is called once. The handlers that hand values on, the bridge,
  the list of handlers of the bus and the resolvers of lists refine a simple specification: the
  values emitted are the image of the values present. For the controllers: each one constructed is
  closed once, a referenced one stays, plugins are unloaded once and in the documented order, and reported
  states are the latest. For YAML: whatever the tokens, the parser does not panic, its events are well nested
  and boundedly many, the conversion returns, and no string of a tree that is written is read as another
  value, while empty sequences are lost; the emitter accepts the streams of this package's events that the grammar allows, so that writing fails only for numbers out of range. For data: comparisons decide the intended equality or order, and printing
  and parsing are inverse; versions are compared as semantic versions are, except for pre-releases. Where the code does not do what it says, a theorem about the model says what it
  does instead, on all inputs or on an example.

  \<^bold>\<open>Bounds and fuel\<close>

  The conversion from YAML (\<^verbatim>\<open>parseValue\<close>) recurs with fuel, of which \<^verbatim>\<open>parse_fuel\<close> gives twice the number of events
  that the parser can still deliver; \<^verbatim>\<open>YAMLToJSON_returns\<close> shows that it is enough. No other definition has fuel. The depth of \<^verbatim>\<open>run_env\<close> bounds only how deep callbacks call operations that
  call callbacks: a run that needs more has the result \<^term>\<open>None\<close>, and \<^verbatim>\<open>Dir_Returns\<close> shows that this is
  the only reason for \<^term>\<open>None\<close> among callbacks that do not call back. The loops of the controller that read
  lists which they change are \<^verbatim>\<open>partial_function (option)\<close>s. A loop that waits is a recursion over the
  list of what it is told, so that it returns or still waits at the end of each list. Identifiers of
  values are 32-bit words; the counter of an instance wraps around as in the code.

  \<^bold>\<open>Simplifications\<close>

  Texts of errors that only wrap another error are left out, as are logging, tracing and the
  recovery of panics of user code, which the code logs and treats as a return. The panic of \<^verbatim>\<open>AddDirective\<close> is an outcome,
  which a callback recovers from and a program may recover from elsewhere. A timer is a step that
  may come at any time. The order in which Go iterates over a map is an argument where the result
  depends on it, or the order of an association list about which nothing is assumed. A choice that
  \<^verbatim>\<open>select\<close> makes at random is an element of the list of steps. The scanner of YAML is the list of the tokens that
  it delivers and the error after them; the results of \<^verbatim>\<open>strconv\<close> for floating-point numbers are a record of
  functions, those of \<^verbatim>\<open>json.Decoder\<close> an argument. The emitter panics or loops on a string that is not UTF-8:
  both are \<^term>\<open>None\<close>.

  \<^bold>\<open>Not modelled\<close>

  The scanner and the reader of the YAML package (\<^verbatim>\<open>scannerc.go\<close>, \<^verbatim>\<open>readerc.go\<close>): the parser is modelled for any tokens.
  The code generated for protobuf messages, of which the records of
  \<^verbatim>\<open>ConfigSet\<close> and \<^verbatim>\<open>Exec\<close> have the fields. Of the plugin compiler the generation of Go modules and
  the calls of the go tool, whose effect is that of files and other programs. The command line client,
  the daemon, the RPC service and the examples, which only call what is modelled. Of the standard
  library and of packages that are not part of the repository only what the code uses of them is
  modelled, or it is a parameter.
\<close>

end
